(* ===== verification/Prelude.thy ===== *)
theory Prelude
  imports Main "HOL-Library.Word" "HOL-Library.Monad_Syntax"
begin

section \<open>Machine integers, fallible results and list facts shared by the components\<close>

text \<open>
  Fields of the program keep their width: a \<open>u8\<close>, \<open>u32\<close> or \<open>u64\<close> is a word read with
  \<open>uint\<close> (or \<open>unat\<close>), an \<open>i32\<close> is a 32-bit word read with \<open>sint\<close>. Intermediate values
  the code computes in a type that is wide enough (\<open>i64\<close> for sums of an \<open>i32\<close> and a
  \<open>u32\<close>) are \<open>int\<close>; the way back into a narrower type is the code's \<open>try_from\<close>, which
  fails out of range. A \<open>usize\<close> is a \<open>nat\<close>, checked against \<open>2 ^ 64\<close> where the code
  checks it: Captastic ships for 64-bit Windows only.
\<close>

type_synonym u8 = "8 word"
type_synonym u16 = "16 word"
type_synonym u32 = "32 word"
type_synonym u64 = "64 word"
type_synonym i32 = "32 word"
type_synonym bytes = "8 word list"

text \<open>
  A \<open>Duration\<close> of the standard library counts nanoseconds and cannot be negative, so it
  is a \<open>nat\<close>; \<open>saturating_sub\<close> is subtraction on \<open>nat\<close>.
\<close>

type_synonym duration = nat

named_theorems conv_simps \<open>checked conversions between integer types, as equivalences\<close>

subsection \<open>Checked conversions\<close>

definition i32_try_from :: "int \<Rightarrow> i32 option" where
  "i32_try_from v = (if - 2147483648 \<le> v \<and> v \<le> 2147483647 then Some (word_of_int v) else None)"

definition u32_try_from :: "int \<Rightarrow> u32 option" where
  "u32_try_from v = (if 0 \<le> v \<and> v \<le> 4294967295 then Some (word_of_int v) else None)"

lemma sint_i32_ge: "- 2147483648 \<le> sint (x :: i32)"
  using sint_greater_eq [of x] by simp

lemma sint_i32_le: "sint (x :: i32) \<le> 2147483647"
  using sint_less [of x] by simp

lemma uint_u32_le: "uint (x :: u32) \<le> 4294967295"
  using uint_bounded [of x] by simp

lemma uint_u8_le: "uint (x :: u8) \<le> 255"
  using uint_bounded [of x] by simp

lemma unat_u8_le: "unat (x :: u8) \<le> 255"
  using unsigned_less [of x, where ?'a = nat] by simp

lemma unat_u32_le: "unat (x :: u32) \<le> 4294967295"
  using unsigned_less [of x, where ?'a = nat] by simp

lemmas width_bounds = sint_i32_ge sint_i32_le uint_u32_le

lemma sint_i32_of_int:
  "- 2147483648 \<le> v \<Longrightarrow> v \<le> 2147483647 \<Longrightarrow> sint (word_of_int v :: i32) = v"
  by (simp add: signed_of_int signed_take_bit_int_eq_self)

lemma uint_u32_of_int: "0 \<le> v \<Longrightarrow> v \<le> 4294967295 \<Longrightarrow> uint (word_of_int v :: u32) = v"
  by (simp add: unsigned_of_int take_bit_int_eq_self)

lemma sint_diff_in_range:
  fixes a b :: i32
  assumes "- 2147483648 \<le> sint a - sint b" and "sint a - sint b \<le> 2147483647"
  shows "sint (a - b) = sint a - sint b"
proof -
  have "a - b = word_of_int (sint a - sint b)" by simp
  then show ?thesis using sint_i32_of_int [OF assms] by simp
qed

lemma i32_try_from_eq_Some [conv_simps]: "i32_try_from v = Some w \<longleftrightarrow> sint w = v"
proof
  assume "i32_try_from v = Some w"
  then show "sint w = v"
    by (auto simp: i32_try_from_def sint_i32_of_int split: if_splits)
next
  assume "sint w = v"
  then show "i32_try_from v = Some w"
    using sint_i32_ge [of w] sint_i32_le [of w] by (auto simp: i32_try_from_def)
qed

lemma u32_try_from_eq_Some [conv_simps]: "u32_try_from v = Some w \<longleftrightarrow> uint w = v"
proof
  assume "u32_try_from v = Some w"
  then show "uint w = v"
    by (auto simp: u32_try_from_def uint_u32_of_int split: if_splits)
next
  assume "uint w = v"
  then show "u32_try_from v = Some w"
    using uint_u32_le [of w] by (auto simp: u32_try_from_def)
qed

lemma i32_try_from_None [conv_simps]:
  "i32_try_from v = None \<longleftrightarrow> v < - 2147483648 \<or> 2147483647 < v"
  by (auto simp: i32_try_from_def)

lemma u32_try_from_None [conv_simps]: "u32_try_from v = None \<longleftrightarrow> v < 0 \<or> 4294967295 < v"
  by (auto simp: u32_try_from_def)

text \<open>\<open>Ord::clamp\<close>. It panics when \<open>lo > hi\<close>; every use below has \<open>lo \<le> hi\<close>.\<close>

definition clamp :: "int \<Rightarrow> int \<Rightarrow> int \<Rightarrow> int" where
  "clamp v lo hi = (if v < lo then lo else if hi < v then hi else v)"

lemma clamp_bounds: "lo \<le> hi \<Longrightarrow> lo \<le> clamp v lo hi \<and> clamp v lo hi \<le> hi"
  by (simp add: clamp_def)

lemma clamp_id: "lo \<le> v \<Longrightarrow> v \<le> hi \<Longrightarrow> clamp v lo hi = v"
  by (simp add: clamp_def)

text \<open>\<open>checked_mul\<close> and \<open>checked_add\<close> on \<open>u32\<close>, and on \<open>usize\<close>.\<close>

definition u32_checked_mul :: "u32 \<Rightarrow> u32 \<Rightarrow> u32 option" where
  "u32_checked_mul a b = (if unat a * unat b < 4294967296 then Some (a * b) else None)"

definition usize_checked_mul :: "nat \<Rightarrow> nat \<Rightarrow> nat option" where
  "usize_checked_mul a b = (if a * b < 18446744073709551616 then Some (a * b) else None)"

definition usize_checked_add :: "nat \<Rightarrow> nat \<Rightarrow> nat option" where
  "usize_checked_add a b = (if a + b < 18446744073709551616 then Some (a + b) else None)"

lemma u32_checked_mul_eq_Some [conv_simps]:
  "u32_checked_mul a b = Some c \<longleftrightarrow> unat c = unat a * unat b"
proof
  assume "u32_checked_mul a b = Some c"
  then show "unat c = unat a * unat b"
    by (auto simp: u32_checked_mul_def unat_word_ariths split: if_splits)
next
  assume *: "unat c = unat a * unat b"
  then have lt: "unat a * unat b < 4294967296"
    using unsigned_less [of c, where ?'a = nat] by simp
  then have "unat (a * b) = unat c"
    using * by (simp add: unat_word_ariths)
  then show "u32_checked_mul a b = Some c"
    using lt by (simp add: u32_checked_mul_def unsigned_word_eqI)
qed

lemma u32_checked_mul_None [conv_simps]:
  "u32_checked_mul a b = None \<longleftrightarrow> 4294967296 \<le> unat a * unat b"
  by (auto simp: u32_checked_mul_def)

lemma usize_checked_mul_eq_Some [conv_simps]:
  "usize_checked_mul a b = Some c \<longleftrightarrow> c = a * b \<and> a * b < 18446744073709551616"
  by (auto simp: usize_checked_mul_def)

lemma usize_checked_add_eq_Some [conv_simps]:
  "usize_checked_add a b = Some c \<longleftrightarrow> c = a + b \<and> a + b < 18446744073709551616"
  by (auto simp: usize_checked_add_def)

text \<open>A product of two \<open>u32\<close> values always fits a \<open>usize\<close>.\<close>

lemma u32_product_fits: "unat (a :: u32) * unat (b :: u32) < 18446744073709551616"
proof -
  have "unat a * unat b \<le> 4294967295 * 4294967295"
    by (intro mult_le_mono unat_u32_le)
  then show ?thesis by simp
qed

text \<open>\<open>saturating_add(1)\<close> on \<open>u32\<close> and \<open>u64\<close>.\<close>

definition sat_inc :: "'a::len word \<Rightarrow> 'a word" where
  "sat_inc a = (if a = - 1 then a else a + 1)"

lemma sat_inc_mono: "a \<le> sat_inc a"
proof (cases "a = - 1")
  case False
  then have "\<not> a + 1 \<le> a" by (blast dest: inc_less_eq_triv_imp)
  with False show ?thesis by (simp only: sat_inc_def if_False not_le less_imp_le)
qed (simp add: sat_inc_def)

subsection \<open>Fallible results\<close>

text \<open>
  A \<open>Result<T, E>\<close> is \<open>'e + 'a\<close>, with \<open>Inl\<close> for \<open>Err\<close>. \<open>ok_or\<close> and \<open>try_bind\<close> (the
  \<open>?\<close> operator) are the two combinators the code uses. Where a slice expression could
  panic the model's result is wrapped in an outer \<open>option\<close>, \<open>None\<close> being the panic.
\<close>

definition ok_or :: "'e \<Rightarrow> 'a option \<Rightarrow> 'e + 'a" where
  "ok_or e v = (case v of None \<Rightarrow> Inl e | Some a \<Rightarrow> Inr a)"

definition try_bind :: "'e + 'a \<Rightarrow> ('a \<Rightarrow> 'e + 'b) \<Rightarrow> 'e + 'b" where
  "try_bind r f = (case r of Inl e \<Rightarrow> Inl e | Inr a \<Rightarrow> f a)"

lemma ok_or_simps [simp]: "ok_or e None = Inl e" "ok_or e (Some a) = Inr a"
  by (simp_all add: ok_or_def)

lemma ok_or_eq_Inr [simp]: "ok_or e v = Inr a \<longleftrightarrow> v = Some a"
  by (cases v) simp_all

lemma ok_or_eq_Inl [simp]: "ok_or e v = Inl e' \<longleftrightarrow> v = None \<and> e = e'"
  by (cases v) auto

lemma try_bind_simps [simp]: "try_bind (Inl e) f = Inl e" "try_bind (Inr a) f = f a"
  by (simp_all add: try_bind_def)

lemma try_bind_eq_Inr [simp]: "try_bind r f = Inr b \<longleftrightarrow> (\<exists>a. r = Inr a \<and> f a = Inr b)"
  by (cases r) simp_all

subsection \<open>Slices\<close>

text \<open>\<open>&xs[a..b]\<close>: a panic (\<open>None\<close>) unless \<open>a \<le> b \<le> len\<close>.\<close>

definition slice :: "nat \<Rightarrow> nat \<Rightarrow> 'a list \<Rightarrow> 'a list option" where
  "slice a b xs = (if a \<le> b \<and> b \<le> length xs then Some (take (b - a) (drop a xs)) else None)"

lemma slice_eq_Some [simp]:
  "slice a b xs = Some ys \<longleftrightarrow> a \<le> b \<and> b \<le> length xs \<and> ys = take (b - a) (drop a xs)"
  by (auto simp: slice_def)

lemma nth_slice: "slice a b xs = Some ys \<Longrightarrow> i < b - a \<Longrightarrow> ys ! i = xs ! (a + i)"
  by auto

lemma length_slice: "slice a b xs = Some ys \<Longrightarrow> length ys = b - a"
  by auto

text \<open>Rows of equal length laid end to end: where byte \<open>c\<close> of row \<open>r\<close> is.\<close>

lemma row_major_less:
  fixes n :: nat
  assumes "r < h" and "c < n"
  shows "r * n + c < h * n"
proof -
  have "r * n + c < Suc r * n" using assms by simp
  also have "\<dots> \<le> h * n" using assms by (intro mult_le_mono1) simp
  finally show ?thesis .
qed

lemma length_concat_rows:
  "(\<And>r. r \<in> set rs \<Longrightarrow> length (f r) = n) \<Longrightarrow> length (concat (map f rs)) = length rs * n"
  by (induction rs) simp_all

lemma nth_concat_rows:
  assumes "\<And>r. r < h \<Longrightarrow> length (f r) = n" and "r < h" and "c < n"
  shows "concat (map f [0..<h]) ! (r * n + c) = f r ! c"
  using assms
proof (induction h)
  case 0
  then show ?case by simp
next
  case (Suc h)
  have len: "length (concat (map f [0..<h])) = h * n"
    using Suc.prems(1) by (subst length_concat_rows [where n = n]) auto
  show ?case
  proof (cases "r < h")
    case True
    then have "r * n + c < h * n" by (intro row_major_less Suc.prems)
    with len True Suc show ?thesis by (simp add: nth_append)
  next
    case False
    with Suc.prems have "r = h" by simp
    with len Suc.prems show ?thesis by (simp add: nth_append)
  qed
qed

subsection \<open>Text\<close>

text \<open>
  A \<open>String\<close> is the list of its Unicode scalar values; comparing those lists is comparing the
  UTF-8 bytes, as Rust's \<open>Ord\<close> does. \<open>show_nat\<close> is how an unsigned integer prints.
\<close>

type_synonym ustring = "nat list"

definition ustr :: "string \<Rightarrow> ustring" where
  "ustr s = map of_char s"

fun show_nat :: "nat \<Rightarrow> ustring" where
  "show_nat n = (if n < 10 then [48 + n] else show_nat (n div 10) @ [48 + n mod 10])"

declare show_nat.simps [simp del]

subsection \<open>Strictly rising lists\<close>

lemma sorted_wrt_less_nth_mono:
  fixes xs :: "nat list"
  assumes "sorted_wrt (<) xs" and "i \<le> j" and "j < length xs"
  shows "xs ! i \<le> xs ! j"
  using sorted_wrt_nth_less [OF assms(1), of i j] assms(2,3) by (cases "i = j") auto

text \<open>\<open>windows(2).any(|pair| pair[0] >= pair[1])\<close>: some element does not rise.\<close>

fun any_not_rising :: "nat list \<Rightarrow> bool" where
  "any_not_rising (x # y # zs) \<longleftrightarrow> y \<le> x \<or> any_not_rising (y # zs)"
| "any_not_rising _ \<longleftrightarrow> False"

lemma any_not_rising_iff: "any_not_rising xs \<longleftrightarrow> \<not> sorted_wrt (<) xs"
  by (induction xs rule: any_not_rising.induct) (fastforce simp: not_le intro: less_trans)+

text \<open>
  \<open>slice::partition_point\<close>, on a slice the predicate partitions: the number of elements before
  the first for which it fails.
\<close>

definition partition_point :: "('a \<Rightarrow> bool) \<Rightarrow> 'a list \<Rightarrow> nat" where
  "partition_point p xs = length (takeWhile p xs)"

lemma partition_point_le: "partition_point p xs \<le> length xs"
  by (simp add: partition_point_def length_takeWhile_le)

lemma partition_point_before: "i < partition_point p xs \<Longrightarrow> p (xs ! i)"
  unfolding partition_point_def by (metis nth_mem set_takeWhileD takeWhile_nth)

lemma partition_point_at: "partition_point p xs < length xs \<Longrightarrow> \<not> p (xs ! partition_point p xs)"
  unfolding partition_point_def by (rule nth_length_takeWhile)

subsection \<open>Loops over mutable buffers\<close>

text \<open>
  A \<open>for\<close> loop whose body may panic is \<open>fold_opt body\<close>; \<open>put_bytes at bs\<close> is
  \<open>buf[at..at + bs.len()].copy_from_slice(bs)\<close>.
\<close>

fun fold_opt :: "('a \<Rightarrow> 's \<Rightarrow> 's option) \<Rightarrow> 'a list \<Rightarrow> 's \<Rightarrow> 's option" where
  "fold_opt f [] s = Some s"
| "fold_opt f (x # xs) s = (case f x s of None \<Rightarrow> None | Some s' \<Rightarrow> fold_opt f xs s')"

lemma fold_opt_append:
  "fold_opt f (xs @ ys) s = (case fold_opt f xs s of None \<Rightarrow> None | Some s' \<Rightarrow> fold_opt f ys s')"
  by (induction xs arbitrary: s) (simp_all split: option.split)

definition put_bytes :: "nat \<Rightarrow> bytes \<Rightarrow> bytes \<Rightarrow> bytes option" where
  "put_bytes at bs buf =
     (if at + length bs \<le> length buf
      then Some (take at buf @ bs @ drop (at + length bs) buf) else None)"

text \<open>\<open>vec.get(i)\<close>.\<close>

definition get :: "'a list \<Rightarrow> nat \<Rightarrow> 'a option" where
  "get xs i = (if i < length xs then Some (xs ! i) else None)"

subsection \<open>Pixels of a tightly packed picture\<close>

text \<open>The four bytes of the pixel \<open>(x, y)\<close> of a tightly packed picture \<open>w\<close> pixels wide.\<close>

definition bgra_at :: "nat \<Rightarrow> bytes \<Rightarrow> nat \<Rightarrow> nat \<Rightarrow> bytes" where
  "bgra_at w px x y = take 4 (drop ((y * w + x) * 4) px)"

lemma bgra_at_in_range:
  fixes w h x y :: nat
  assumes "x < w" and "y < h"
  shows "(y * w + x) * 4 + 4 \<le> w * h * 4"
  using row_major_less [OF assms(2,1)] by (simp add: mult.commute [of w])

lemma length_bgra_at:
  "length px = w * h * 4 \<Longrightarrow> x < w \<Longrightarrow> y < h \<Longrightarrow> length (bgra_at w px x y) = 4"
  using bgra_at_in_range [of x w y h] by (simp add: bgra_at_def)

lemma row_major_inject:
  fixes w :: nat
  assumes "y * w + x = y' * w + x'" and "x < w" and "x' < w"
  shows "x = x' \<and> y = y'"
proof -
  have "(y * w + x) div w = y" "(y' * w + x') div w = y'" using assms(2,3) by simp_all
  with assms(1) show ?thesis by simp
qed

lemma replaced_before:
  "a + length p \<le> length px \<Longrightarrow> b + k \<le> a \<Longrightarrow>
    take k (drop b (take a px @ p @ drop (a + length p) px)) = take k (drop b px)"
  by (simp add: take_drop min_def)

lemma replaced_after:
  "a + length p \<le> length px \<Longrightarrow> a + length p \<le> b \<Longrightarrow>
    drop b (take a px @ p @ drop (a + length p) px) = drop b px"
  by simp

text \<open>Writing one pixel changes that pixel and no other.\<close>

lemma put_bytes_pixel:
  assumes "length px = w * h * 4" and "length p = 4" and "x < w" and "y < h"
  shows "\<exists>px'. put_bytes ((y * w + x) * 4) p px = Some px' \<and> length px' = w * h * 4 \<and>
    (\<forall>x' < w. \<forall>y' < h. bgra_at w px' x' y' = (if x' = x \<and> y' = y then p else bgra_at w px x' y'))"
proof -
  let ?a = "(y * w + x) * 4"
  have le: "?a + 4 \<le> length px" using assms bgra_at_in_range by simp
  let ?px' = "take ?a px @ p @ drop (?a + length p) px"
  have "bgra_at w ?px' x' y' = (if x' = x \<and> y' = y then p else bgra_at w px x' y')"
    if "x' < w" "y' < h" for x' y'
  proof -
    consider "y' * w + x' = y * w + x" | "y' * w + x' < y * w + x" | "y * w + x < y' * w + x'"
      by linarith
    then show ?thesis
    proof cases
      case 1
      then have "x' = x \<and> y' = y"
        using row_major_inject [of y' w x' y x] that assms(3) by simp
      then show ?thesis using le assms(2) by (simp add: bgra_at_def)
    next
      case 2
      then have "\<not> (x' = x \<and> y' = y)" by auto
      moreover have "(y' * w + x') * 4 + 4 \<le> ?a" using 2 by simp
      ultimately show ?thesis
        using replaced_before [of ?a p px "(y' * w + x') * 4" 4] le assms(2)
        by (simp only: bgra_at_def if_False)
    next
      case 3
      then have "\<not> (x' = x \<and> y' = y)" by auto
      moreover have "?a + length p \<le> (y' * w + x') * 4" using 3 assms(2) by simp
      ultimately show ?thesis
        using replaced_after [of ?a p px "(y' * w + x') * 4"] le assms(2)
        by (simp only: bgra_at_def if_False)
    qed
  qed
  then show ?thesis
    using le assms(1,2) by (intro exI [of _ ?px']) (simp add: put_bytes_def)
qed

end
