(* ===== verification/Geometry.thy ===== *)
theory Geometry
  imports Prelude
begin

section \<open>Rectangles of physical pixels\<close>

text \<open>
  \<open>Rect\<close> of \<open>crates/captastic-core/src/display.rs\<close>: a signed 32-bit origin and unsigned
  32-bit sides. The code computes its edges in \<open>i64\<close>, where the sum of an \<open>i32\<close> and a
  \<open>u32\<close> cannot overflow, so edges are \<open>int\<close> here; the \<open>try_from\<close> back into 32 bits is
  kept, and the lemmas show where it can and cannot fail.
\<close>

record rect =
  rect_x :: i32
  rect_y :: i32
  rect_width :: u32
  rect_height :: u32

definition rect_left :: "rect \<Rightarrow> int" where
  "rect_left r = sint (rect_x r)"

definition rect_top :: "rect \<Rightarrow> int" where
  "rect_top r = sint (rect_y r)"

definition rect_right :: "rect \<Rightarrow> int" where
  "rect_right r = sint (rect_x r) + uint (rect_width r)"

definition rect_bottom :: "rect \<Rightarrow> int" where
  "rect_bottom r = sint (rect_y r) + uint (rect_height r)"

lemmas edge_defs = rect_left_def rect_top_def rect_right_def rect_bottom_def

text \<open>The tail shared by \<open>from_edges\<close>, \<open>intersection\<close> and \<open>union\<close>: four checked conversions.\<close>

definition rect_of_span :: "int \<Rightarrow> int \<Rightarrow> int \<Rightarrow> int \<Rightarrow> rect option" where
  "rect_of_span left upper right bottom =
     do {
       x \<leftarrow> i32_try_from left;
       y \<leftarrow> i32_try_from upper;
       w \<leftarrow> u32_try_from (right - left);
       h \<leftarrow> u32_try_from (bottom - upper);
       Some \<lparr>rect_x = x, rect_y = y, rect_width = w, rect_height = h\<rparr>
     }"

definition from_edges :: "int \<Rightarrow> int \<Rightarrow> int \<Rightarrow> int \<Rightarrow> rect option" where
  "from_edges left upper right bottom =
     (if right \<le> left \<or> bottom \<le> upper then None else rect_of_span left upper right bottom)"

definition clamp_to_i32 :: "int \<Rightarrow> i32" where
  "clamp_to_i32 v = word_of_int (clamp v (- 2147483648) 2147483647)"

definition clamp_within :: "rect \<Rightarrow> rect \<Rightarrow> rect" where
  "clamp_within r bounds =
     (let width = min (rect_width r) (rect_width bounds);
          height = min (rect_height r) (rect_height bounds);
          maximum_x = max (rect_right bounds - uint width) (rect_left bounds);
          maximum_y = max (rect_bottom bounds - uint height) (rect_top bounds)
      in \<lparr>rect_x = clamp_to_i32 (clamp (rect_left r) (rect_left bounds) maximum_x),
          rect_y = clamp_to_i32 (clamp (rect_top r) (rect_top bounds) maximum_y),
          rect_width = width, rect_height = height\<rparr>)"

definition i64_saturating_add :: "int \<Rightarrow> int \<Rightarrow> int" where
  "i64_saturating_add a b = clamp (a + b) (- 9223372036854775808) 9223372036854775807"

definition translated :: "rect \<Rightarrow> 64 word \<Rightarrow> 64 word \<Rightarrow> rect" where
  "translated r dx dy =
     r\<lparr>rect_x := clamp_to_i32 (i64_saturating_add (sint (rect_x r)) (sint dx)),
       rect_y := clamp_to_i32 (i64_saturating_add (sint (rect_y r)) (sint dy))\<rparr>"

definition contains :: "rect \<Rightarrow> i32 \<Rightarrow> i32 \<Rightarrow> bool" where
  "contains r x y \<longleftrightarrow>
     rect_left r \<le> sint x \<and> sint x < rect_right r \<and> rect_top r \<le> sint y \<and> sint y < rect_bottom r"

definition intersection :: "rect \<Rightarrow> rect \<Rightarrow> rect option" where
  "intersection r other =
     (let left = max (rect_left r) (rect_left other);
          upper = max (rect_top r) (rect_top other);
          right = min (rect_right r) (rect_right other);
          bottom = min (rect_bottom r) (rect_bottom other)
      in if right \<le> left \<or> bottom \<le> upper then None else rect_of_span left upper right bottom)"

text \<open>\<open>u64::from(width) * u64::from(height)\<close>; by \<open>u32_product_fits\<close> it cannot overflow.\<close>

definition area :: "rect \<Rightarrow> nat" where
  "area r = unat (rect_width r) * unat (rect_height r)"

definition union_rect :: "rect \<Rightarrow> rect \<Rightarrow> rect option" where
  "union_rect r other =
     rect_of_span (min (rect_left r) (rect_left other)) (min (rect_top r) (rect_top other))
       (max (rect_right r) (rect_right other)) (max (rect_bottom r) (rect_bottom other))"

subsection \<open>A rectangle is its edges\<close>

lemma rect_eqI:
  assumes "rect_left r = rect_left s" "rect_top r = rect_top s"
    and "rect_right r = rect_right s" "rect_bottom r = rect_bottom s"
  shows "r = s"
proof -
  have "rect_x r = rect_x s"
    by (rule signed_word_eqI [where ?'a = int]) (use assms in \<open>simp add: edge_defs\<close>)
  moreover have "rect_y r = rect_y s"
    by (rule signed_word_eqI [where ?'a = int]) (use assms in \<open>simp add: edge_defs\<close>)
  moreover have "rect_width r = rect_width s"
    by (rule unsigned_word_eqI [where ?'a = int]) (use assms in \<open>simp add: edge_defs\<close>)
  moreover have "rect_height r = rect_height s"
    by (rule unsigned_word_eqI [where ?'a = int]) (use assms in \<open>simp add: edge_defs\<close>)
  ultimately show ?thesis by simp
qed

lemma rect_left_bounds: "- 2147483648 \<le> rect_left r" "rect_left r \<le> 2147483647"
  by (simp_all add: edge_defs width_bounds)

lemma rect_top_bounds: "- 2147483648 \<le> rect_top r" "rect_top r \<le> 2147483647"
  by (simp_all add: edge_defs width_bounds)

lemma rect_right_bounds: "rect_left r \<le> rect_right r" "rect_right r \<le> rect_left r + 4294967295"
  by (simp_all add: edge_defs width_bounds)

lemma rect_bottom_bounds: "rect_top r \<le> rect_bottom r" "rect_bottom r \<le> rect_top r + 4294967295"
  by (simp_all add: edge_defs width_bounds)

lemmas edge_bounds = rect_left_bounds rect_top_bounds rect_right_bounds rect_bottom_bounds

text \<open>A successful conversion reports back exactly the edges it was given.\<close>

lemma rect_of_span_eq_Some [conv_simps]:
  "rect_of_span left upper right bottom = Some r \<longleftrightarrow>
     rect_left r = left \<and> rect_top r = upper \<and> rect_right r = right \<and> rect_bottom r = bottom"
proof
  assume "rect_of_span left upper right bottom = Some r"
  then show "rect_left r = left \<and> rect_top r = upper \<and> rect_right r = right \<and> rect_bottom r = bottom"
    by (auto simp: rect_of_span_def edge_defs conv_simps bind_eq_Some_conv)
next
  assume *: "rect_left r = left \<and> rect_top r = upper \<and> rect_right r = right \<and> rect_bottom r = bottom"
  have "i32_try_from left = Some (rect_x r)" "i32_try_from upper = Some (rect_y r)"
    "u32_try_from (right - left) = Some (rect_width r)"
    "u32_try_from (bottom - upper) = Some (rect_height r)"
    using * by (auto simp: conv_simps edge_defs)
  then show "rect_of_span left upper right bottom = Some r"
    by (simp add: rect_of_span_def)
qed

lemma rect_of_span_exists:
  assumes "- 2147483648 \<le> left" "left \<le> 2147483647" "- 2147483648 \<le> upper" "upper \<le> 2147483647"
    and "left \<le> right" "right \<le> left + 4294967295" "upper \<le> bottom" "bottom \<le> upper + 4294967295"
  shows "\<exists>r. rect_of_span left upper right bottom = Some r"
proof -
  have "rect_of_span left upper right bottom \<noteq> None"
    using assms by (auto simp: rect_of_span_def bind_eq_None_conv conv_simps)
  then show ?thesis by blast
qed

lemma from_edges_eq_Some [conv_simps]:
  "from_edges left upper right bottom = Some r \<longleftrightarrow>
     left < right \<and> upper < bottom \<and>
     rect_left r = left \<and> rect_top r = upper \<and> rect_right r = right \<and> rect_bottom r = bottom"
  by (auto simp: from_edges_def conv_simps)

lemma intersection_eq_Some [conv_simps]:
  "intersection r s = Some t \<longleftrightarrow>
     rect_left t < rect_right t \<and> rect_top t < rect_bottom t \<and>
     rect_left t = max (rect_left r) (rect_left s) \<and> rect_top t = max (rect_top r) (rect_top s) \<and>
     rect_right t = min (rect_right r) (rect_right s) \<and>
     rect_bottom t = min (rect_bottom r) (rect_bottom s)"
  unfolding intersection_def Let_def by (simp add: rect_of_span_eq_Some) linarith

lemma intersection_nonempty:
  assumes "intersection r s = Some t"
  shows "rect_left t < rect_right t" "rect_top t < rect_bottom t"
  using assms unfolding intersection_eq_Some by blast+

text \<open>The conversions of \<open>intersection\<close> never fail: it is empty or representable.\<close>

lemma intersection_None_iff:
  "intersection r s = None \<longleftrightarrow>
     min (rect_right r) (rect_right s) \<le> max (rect_left r) (rect_left s) \<or>
     min (rect_bottom r) (rect_bottom s) \<le> max (rect_top r) (rect_top s)"
    (is "_ \<longleftrightarrow> ?e")
proof (cases ?e)
  case True
  then show ?thesis unfolding intersection_def Let_def by simp
next
  case False
  define left where "left = max (rect_left r) (rect_left s)"
  define upper where "upper = max (rect_top r) (rect_top s)"
  define right where "right = min (rect_right r) (rect_right s)"
  define bottom where "bottom = min (rect_bottom r) (rect_bottom s)"
  have "- 2147483648 \<le> left" "left \<le> 2147483647" "- 2147483648 \<le> upper" "upper \<le> 2147483647"
    by (simp_all add: left_def upper_def edge_bounds le_max_iff_disj)
  moreover have "left < right" "upper < bottom"
    using False by (simp_all only: left_def right_def upper_def bottom_def de_Morgan_disj not_le)
  moreover have "rect_left r \<le> left" "rect_top r \<le> upper" "right \<le> rect_right r"
    "bottom \<le> rect_bottom r"
    by (simp_all add: left_def right_def upper_def bottom_def)
  ultimately have "\<exists>t. rect_of_span left upper right bottom = Some t"
    using rect_right_bounds [of r] rect_bottom_bounds [of r]
    by (intro rect_of_span_exists) linarith+
  with False show ?thesis
    unfolding intersection_def Let_def left_def upper_def right_def bottom_def by simp
qed

lemma intersection_commute: "intersection r s = intersection s r"
  unfolding intersection_def by (simp add: max.commute min.commute)

lemma intersection_within:
  assumes "intersection r s = Some t"
  shows "rect_left s \<le> rect_left t" "rect_right t \<le> rect_right s"
    "rect_top s \<le> rect_top t" "rect_bottom t \<le> rect_bottom s"
  using assms by (auto simp: conv_simps)

subsection \<open>Rectangles as sets of points\<close>

lemma sint_clamp_to_i32: "sint (clamp_to_i32 v) = clamp v (- 2147483648) 2147483647"
  unfolding clamp_to_i32_def by (rule sint_i32_of_int) (simp_all add: clamp_def)

text \<open>The intersection holds exactly the points both rectangles hold.\<close>

lemma contains_intersection:
  assumes "intersection r s = Some t"
  shows "contains t x y \<longleftrightarrow> contains r x y \<and> contains s x y"
proof -
  have "rect_left t = max (rect_left r) (rect_left s)" "rect_top t = max (rect_top r) (rect_top s)"
    "rect_right t = min (rect_right r) (rect_right s)"
    "rect_bottom t = min (rect_bottom r) (rect_bottom s)"
    using assms by (simp_all add: intersection_eq_Some)
  then show ?thesis by (auto simp: contains_def)
qed

text \<open>Its top-left corner is an \<open>i32\<close> point, so an intersection that exists is not empty.\<close>

lemma intersection_corner:
  assumes "intersection r s = Some t"
  shows "contains t (rect_x t) (rect_y t)"
  using intersection_nonempty [OF assms] by (simp add: contains_def) (simp add: edge_defs)

lemma intersection_None_points:
  assumes "intersection r s = None"
  shows "\<not> (contains r x y \<and> contains s x y)"
  using assms by (auto simp: intersection_None_iff contains_def)

lemma intersection_self:
  assumes "rect_left r < rect_right r" and "rect_top r < rect_bottom r"
  shows "intersection r r = Some r"
  using assms by (simp add: intersection_eq_Some)

text \<open>A rectangle with content that lies inside another is what the two have in common.\<close>

definition rect_within :: "rect \<Rightarrow> rect \<Rightarrow> bool" where
  "rect_within r s \<longleftrightarrow> rect_left s \<le> rect_left r \<and> rect_right r \<le> rect_right s \<and>
     rect_top s \<le> rect_top r \<and> rect_bottom r \<le> rect_bottom s"

lemma rect_within_refl [simp]: "rect_within r r"
  by (simp add: rect_within_def)

lemma rect_within_trans: "rect_within r s \<Longrightarrow> rect_within s t \<Longrightarrow> rect_within r t"
  by (auto simp: rect_within_def)

lemma intersection_rect_within:
  assumes "intersection r s = Some t"
  shows "rect_within t r" "rect_within t s"
  using assms by (auto simp: rect_within_def intersection_eq_Some)

lemma intersection_eq_within:
  assumes "rect_within r s" "rect_left r < rect_right r" "rect_top r < rect_bottom r"
  shows "intersection r s = Some r"
  using assms by (auto simp: intersection_eq_Some rect_within_def max_def min_def)

lemma contains_rect_within: "rect_within r s \<Longrightarrow> contains r x y \<Longrightarrow> contains s x y"
  by (auto simp: rect_within_def contains_def)

subsection \<open>Moving a rectangle into bounds\<close>

lemma uint_min: "uint (min a b :: 'a::len word) = min (uint a) (uint b)"
  by (simp add: min_def word_le_def)

lemma rect_width_edges: "uint (rect_width r) = rect_right r - rect_left r"
  by (simp add: edge_defs)

lemma rect_height_edges: "uint (rect_height r) = rect_bottom r - rect_top r"
  by (simp add: edge_defs)

text \<open>
  On one axis: a span of \<open>w\<close> from \<open>a\<close> put inside \<open>[b, b + wb)\<close>, with \<open>w \<le> wb\<close>. The
  result is an \<open>i32\<close> whenever \<open>a\<close> and \<open>b\<close> are, so the last cast changes nothing.
\<close>

lemma clamp_axis:
  fixes a b w wb :: int
  assumes "w \<le> wb" and "- 2147483648 \<le> a" "a \<le> 2147483647" "- 2147483648 \<le> b" "b \<le> 2147483647"
  defines "v \<equiv> clamp a b (max (b + wb - w) b)"
  shows "sint (clamp_to_i32 v) = v" and "b \<le> v" and "v + w \<le> b + wb"
    and "b \<le> a \<Longrightarrow> a + w \<le> b + wb \<Longrightarrow> v = a"
proof -
  have m: "max (b + wb - w) b = b + wb - w" using assms by simp
  show "sint (clamp_to_i32 v) = v"
    using assms unfolding sint_clamp_to_i32 v_def m by (auto simp: clamp_def)
  show "b \<le> v" and "v + w \<le> b + wb" and "b \<le> a \<Longrightarrow> a + w \<le> b + wb \<Longrightarrow> v = a"
    using assms unfolding v_def m by (auto simp: clamp_def)
qed

lemma clamp_within_edges:
  fixes r bounds :: rect
  defines "w \<equiv> min (uint (rect_width r)) (uint (rect_width bounds))"
    and "h \<equiv> min (uint (rect_height r)) (uint (rect_height bounds))"
  defines "vx \<equiv> clamp (rect_left r) (rect_left bounds)
      (max (rect_left bounds + uint (rect_width bounds) - w) (rect_left bounds))"
    and "vy \<equiv> clamp (rect_top r) (rect_top bounds)
      (max (rect_top bounds + uint (rect_height bounds) - h) (rect_top bounds))"
  shows "rect_left (clamp_within r bounds) = vx" "rect_top (clamp_within r bounds) = vy"
    "rect_right (clamp_within r bounds) = vx + w" "rect_bottom (clamp_within r bounds) = vy + h"
proof -
  have w: "w \<le> uint (rect_width bounds)" "h \<le> uint (rect_height bounds)"
    by (simp_all add: w_def h_def)
  have sx: "sint (clamp_to_i32 vx) = vx"
    unfolding vx_def by (rule clamp_axis(1)) (use w edge_bounds in auto)
  have sy: "sint (clamp_to_i32 vy) = vy"
    unfolding vy_def by (rule clamp_axis(1)) (use w edge_bounds in auto)
  have "clamp_within r bounds =
      \<lparr>rect_x = clamp_to_i32 vx, rect_y = clamp_to_i32 vy,
       rect_width = min (rect_width r) (rect_width bounds),
       rect_height = min (rect_height r) (rect_height bounds)\<rparr>"
    by (simp add: clamp_within_def vx_def vy_def w_def h_def uint_min rect_right_def
        rect_bottom_def rect_left_def rect_top_def)
  then show "rect_left (clamp_within r bounds) = vx" "rect_top (clamp_within r bounds) = vy"
    "rect_right (clamp_within r bounds) = vx + w" "rect_bottom (clamp_within r bounds) = vy + h"
    using sx sy by (simp_all add: edge_defs w_def h_def uint_min)
qed

lemma clamp_within_within: "rect_within (clamp_within r bounds) bounds"
proof -
  let ?w = "min (uint (rect_width r)) (uint (rect_width bounds))"
  let ?h = "min (uint (rect_height r)) (uint (rect_height bounds))"
  note x = clamp_axis(2,3) [of ?w "uint (rect_width bounds)" "rect_left r" "rect_left bounds"]
  note y = clamp_axis(2,3) [of ?h "uint (rect_height bounds)" "rect_top r" "rect_top bounds"]
  show ?thesis
    using x y edge_bounds unfolding rect_within_def clamp_within_edges
    by (simp add: rect_width_edges rect_height_edges)
qed

lemma clamp_within_id:
  assumes "rect_within r bounds"
  shows "clamp_within r bounds = r"
proof -
  have w: "min (uint (rect_width r)) (uint (rect_width bounds)) = uint (rect_width r)"
    "min (uint (rect_height r)) (uint (rect_height bounds)) = uint (rect_height r)"
    using assms by (auto simp: rect_width_edges rect_height_edges rect_within_def)
  have x: "clamp (rect_left r) (rect_left bounds) (max (rect_left bounds + uint (rect_width bounds)
      - uint (rect_width r)) (rect_left bounds)) = rect_left r"
    by (rule clamp_axis(4)) (use assms edge_bounds in
        \<open>auto simp: rect_within_def rect_width_edges\<close>)
  have y: "clamp (rect_top r) (rect_top bounds) (max (rect_top bounds + uint (rect_height bounds)
      - uint (rect_height r)) (rect_top bounds)) = rect_top r"
    by (rule clamp_axis(4)) (use assms edge_bounds in
        \<open>auto simp: rect_within_def rect_height_edges\<close>)
  show ?thesis
    by (rule rect_eqI, simp_all only: clamp_within_edges w x y)
      (simp_all add: rect_width_edges rect_height_edges)
qed

subsection \<open>What the operations promise\<close>

text \<open>\<open>Rect::intersection\<close> is set intersection: it answers with a rectangle exactly when the
  two share a pixel, no conversion in it can fail, and the rectangle holds exactly the shared
  pixels.\<close>

theorem intersection_points:
  "(\<exists>t. intersection r s = Some t) = (\<exists>x y. contains r x y \<and> contains s x y) \<and>
   (\<forall>x y. (case intersection r s of None \<Rightarrow> False | Some t \<Rightarrow> contains t x y)
      = (contains r x y \<and> contains s x y))"
proof (cases "intersection r s")
  case None
  then show ?thesis by (simp add: intersection_None_points)
next
  case (Some t)
  then show ?thesis
    using intersection_corner [OF Some] contains_intersection [OF Some] by auto
qed

text \<open>\<open>Rect::clamp_within\<close> puts every rectangle inside the bounds, changes a side only when it
  is longer than the bounds' side, and leaves a rectangle alone exactly when it already lies inside;
  in particular clamping twice is clamping once.\<close>

theorem clamp_within_spec:
  "rect_within (clamp_within r bounds) bounds \<and>
   uint (rect_width (clamp_within r bounds)) = min (uint (rect_width r)) (uint (rect_width bounds)) \<and>
   uint (rect_height (clamp_within r bounds)) = min (uint (rect_height r)) (uint (rect_height bounds)) \<and>
   (clamp_within r bounds = r) = rect_within r bounds \<and>
   clamp_within (clamp_within r bounds) bounds = clamp_within r bounds"
proof (intro conjI)
  show "rect_within (clamp_within r bounds) bounds" by (rule clamp_within_within)
  then show "clamp_within (clamp_within r bounds) bounds = clamp_within r bounds"
    by (rule clamp_within_id)
  show "(clamp_within r bounds = r) = rect_within r bounds"
    using clamp_within_id clamp_within_within by metis
qed (simp_all add: clamp_within_def Let_def uint_min)

end
