(* ===== verification/Topology.thy ===== *)
theory Topology
  imports Geometry "HOL-Library.List_Lexorder" "HOL-Library.Multiset"
begin

section \<open>Displays and the topology that resolves a capture to one of them\<close>

text \<open>
  \<open>DisplayId\<close>, \<open>DisplayInfo\<close> and \<open>DisplayTopology\<close> of
  \<open>crates/captastic-core/src/display.rs\<close>. An \<open>f32\<close> is
  its bit pattern: the two questions the code asks of one are questions about its bits. How an
  \<open>f32\<close> prints is the standard library's, a parameter of \<open>topology_new\<close>.
\<close>

datatype display_id = DisplayId (id_text: ustring)

text \<open>\<open>left.id.0.cmp(&right.id.0)\<close>: identifiers are ordered by their text.\<close>

instantiation display_id :: linorder
begin

definition less_eq_display_id :: "display_id \<Rightarrow> display_id \<Rightarrow> bool" where
  "less_eq_display_id a b \<longleftrightarrow> id_text a \<le> id_text b"

definition less_display_id :: "display_id \<Rightarrow> display_id \<Rightarrow> bool" where
  "less_display_id a b \<longleftrightarrow> id_text a < id_text b"

instance
proof
  fix x y z :: display_id
  show "(x < y) = (x \<le> y \<and> \<not> y \<le> x)"
    by (auto simp: less_display_id_def less_eq_display_id_def)
  show "x \<le> x" by (simp add: less_eq_display_id_def)
  show "x \<le> y \<Longrightarrow> y \<le> z \<Longrightarrow> x \<le> z" by (simp add: less_eq_display_id_def)
  show "x \<le> y \<Longrightarrow> y \<le> x \<Longrightarrow> x = y"
    by (cases x; cases y) (simp add: less_eq_display_id_def)
  show "x \<le> y \<or> y \<le> x" by (auto simp: less_eq_display_id_def)
qed

end

definition primary_id :: display_id where
  "primary_id = DisplayId (ustr ''primary'')"

definition virtual_desktop_id :: display_id where
  "virtual_desktop_id = DisplayId (ustr ''virtual_desktop'')"

definition is_primary_alias :: "display_id \<Rightarrow> bool" where
  "is_primary_alias d \<longleftrightarrow> id_text d = ustr ''primary''"

subsection \<open>Floats as bit patterns\<close>

type_synonym f32 = "32 word"

text \<open>\<open>f32::is_finite\<close>: the eight exponent bits are not all set.\<close>

definition f32_is_finite :: "f32 \<Rightarrow> bool" where
  "f32_is_finite f \<longleftrightarrow> unat f div 8388608 mod 256 \<noteq> 255"

text \<open>\<open>f <= 0.0\<close> for a float that is not NaN: the sign bit is set, or every other bit is clear.\<close>

definition f32_le_zero :: "f32 \<Rightarrow> bool" where
  "f32_le_zero f \<longleftrightarrow> 2147483648 \<le> unat f \<or> unat f = 0"

text \<open>\<open>char::is_whitespace\<close>, and \<open>trim().is_empty()\<close>: nothing but white space.\<close>

definition is_whitespace :: "nat \<Rightarrow> bool" where
  "is_whitespace c \<longleftrightarrow> (9 \<le> c \<and> c \<le> 13) \<or> c = 32 \<or> c = 133 \<or> c = 160 \<or> c = 5760 \<or>
     (8192 \<le> c \<and> c \<le> 8202) \<or> c = 8232 \<or> c = 8233 \<or> c = 8239 \<or> c = 8287 \<or> c = 12288"

definition is_blank :: "ustring \<Rightarrow> bool" where
  "is_blank s \<longleftrightarrow> list_all is_whitespace s"

subsection \<open>The records\<close>

record display_info =
  display_id :: display_id
  display_name :: ustring
  bounds :: rect
  scale_factor :: f32
  rotation_degrees :: u16
  is_primary :: bool

datatype topology_error =
    EmptyDisplayId
  | DuplicateDisplayId ustring
  | EmptyDisplayBounds ustring
  | UnsupportedRotation ustring u16
  | InvalidScaleFactor ustring ustring

record topology =
  generation :: u64
  displays :: "display_info list"

text \<open>The checks of one display, with the identifiers already seen.\<close>

definition check_display ::
  "(f32 \<Rightarrow> ustring) \<Rightarrow> ustring set \<Rightarrow> display_info \<Rightarrow> topology_error + ustring set" where
  "check_display show_f32 ids d =
     (let i = id_text (display_id d) in
      if is_blank i then Inl EmptyDisplayId
      else if i \<in> ids then Inl (DuplicateDisplayId i)
      else if rect_width (bounds d) = 0 \<or> rect_height (bounds d) = 0 then Inl (EmptyDisplayBounds i)
      else if rotation_degrees d \<notin> {0, 90, 180, 270}
        then Inl (UnsupportedRotation i (rotation_degrees d))
      else if \<not> f32_is_finite (scale_factor d) \<or> f32_le_zero (scale_factor d)
        then Inl (InvalidScaleFactor i (show_f32 (scale_factor d)))
      else Inr (insert i ids))"

fun check_displays ::
  "(f32 \<Rightarrow> ustring) \<Rightarrow> ustring set \<Rightarrow> display_info list \<Rightarrow> topology_error + ustring set" where
  "check_displays show_f32 ids [] = Inr ids"
| "check_displays show_f32 ids (d # ds) =
     try_bind (check_display show_f32 ids d) (\<lambda>ids'. check_displays show_f32 ids' ds)"

definition topology_new ::
  "(f32 \<Rightarrow> ustring) \<Rightarrow> u64 \<Rightarrow> display_info list \<Rightarrow> topology_error + topology" where
  "topology_new show_f32 gen ds =
     try_bind (check_displays show_f32 {} ds) (\<lambda>_. Inr \<lparr>generation = gen, displays = ds\<rparr>)"

definition primary :: "topology \<Rightarrow> display_info option" where
  "primary t = (case find is_primary (displays t) of
      Some d \<Rightarrow> Some d
    | None \<Rightarrow> (case displays t of [] \<Rightarrow> None | d # _ \<Rightarrow> Some d))"

definition resolve :: "topology \<Rightarrow> display_id \<Rightarrow> display_info option" where
  "resolve t i = (if is_primary_alias i then primary t
     else find (\<lambda>d. display_id d = i) (displays t))"

text \<open>
  \<open>Iterator::min_by\<close> keeps the first of equal elements and \<open>Iterator::max_by\<close> the last. The
  comparison is given as \<open>gt a b\<close>, "\<open>cmp(a, b)\<close> is \<open>Greater\<close>".
\<close>

fun min_by :: "('a \<Rightarrow> 'a \<Rightarrow> bool) \<Rightarrow> 'a list \<Rightarrow> 'a option" where
  "min_by gt [] = None"
| "min_by gt (x # xs) = Some (foldl (\<lambda>m y. if gt m y then y else m) x xs)"

fun max_by :: "('a \<Rightarrow> 'a \<Rightarrow> bool) \<Rightarrow> 'a list \<Rightarrow> 'a option" where
  "max_by gt [] = None"
| "max_by gt (x # xs) = Some (foldl (\<lambda>m y. if gt m y then m else y) x xs)"

definition containing_point :: "topology \<Rightarrow> i32 \<Rightarrow> i32 \<Rightarrow> display_info option" where
  "containing_point t x y =
     min_by (\<lambda>left right. display_id right < display_id left)
       (filter (\<lambda>d. contains (bounds d) x y) (displays t))"

text \<open>The candidates: each display that meets the rectangle, with the area they share.\<close>

definition shared_area :: "rect \<Rightarrow> display_info \<Rightarrow> nat option" where
  "shared_area r d = map_option area (intersection (bounds d) r)"

definition candidates :: "rect \<Rightarrow> display_info list \<Rightarrow> (display_info \<times> nat) list" where
  "candidates r ds = List.map_filter (\<lambda>d. map_option (Pair d) (shared_area r d)) ds"

text \<open>\<open>left_area.cmp(right_area).then_with(|| right.id.cmp(left.id))\<close> is \<open>Greater\<close>.\<close>

definition larger_share :: "display_info \<times> nat \<Rightarrow> display_info \<times> nat \<Rightarrow> bool" where
  "larger_share l r \<longleftrightarrow> snd r < snd l \<or> (snd l = snd r \<and> display_id (fst l) < display_id (fst r))"

definition largest_intersection :: "topology \<Rightarrow> rect \<Rightarrow> display_info option" where
  "largest_intersection t r = map_option fst (max_by larger_share (candidates r (displays t)))"

fun union_all :: "rect \<Rightarrow> rect list \<Rightarrow> rect option" where
  "union_all acc [] = Some acc"
| "union_all acc (r # rs) = Option.bind (union_rect acc r) (\<lambda>u. union_all u rs)"

definition virtual_bounds :: "topology \<Rightarrow> rect option" where
  "virtual_bounds t = (case map bounds (displays t) of [] \<Rightarrow> None | r # rs \<Rightarrow> union_all r rs)"

subsection \<open>Selecting by a comparison\<close>

text \<open>
  What \<open>Iterator::min_by\<close> and \<open>max_by\<close> ask of their comparison: "greater" is asymmetric and its
  negation is transitive. The client lemmas say what they select, and that when the comparison
  tells distinct elements apart the selection does not depend on the order they are listed in.
\<close>

locale comparison =
  fixes gt :: "'a \<Rightarrow> 'a \<Rightarrow> bool"
  assumes gt_asym: "gt a b \<Longrightarrow> \<not> gt b a"
    and le_trans: "\<not> gt a b \<Longrightarrow> \<not> gt b c \<Longrightarrow> \<not> gt a c"
begin

lemma le_refl: "\<not> gt a a"
  using gt_asym by blast

lemma foldl_min:
  "foldl (\<lambda>m y. if gt m y then y else m) x xs \<in> insert x (set xs) \<and>
   (\<forall>y \<in> insert x (set xs). \<not> gt (foldl (\<lambda>m y. if gt m y then y else m) x xs) y)"
proof (induction xs arbitrary: x)
  case Nil
  then show ?case by (simp add: le_refl)
next
  case (Cons z zs)
  let ?x = "if gt x z then z else x"
  from Cons.IH [of ?x] have le: "\<not> gt (foldl (\<lambda>m y. if gt m y then y else m) ?x zs) ?x"
    by blast
  have x: "\<not> gt ?x x" "\<not> gt ?x z" using gt_asym le_refl by auto
  from le_trans [OF le x(1)] le_trans [OF le x(2)] Cons.IH [of ?x] show ?case
    by (simp only: foldl.simps list.set ball_simps) (cases "gt x z"; simp; blast)
qed

lemma foldl_max:
  "foldl (\<lambda>m y. if gt m y then m else y) x xs \<in> insert x (set xs) \<and>
   (\<forall>y \<in> insert x (set xs). \<not> gt y (foldl (\<lambda>m y. if gt m y then m else y) x xs))"
proof (induction xs arbitrary: x)
  case Nil
  then show ?case by (simp add: le_refl)
next
  case (Cons z zs)
  let ?x = "if gt x z then x else z"
  from Cons.IH [of ?x] have le: "\<not> gt ?x (foldl (\<lambda>m y. if gt m y then m else y) ?x zs)"
    by blast
  have x: "\<not> gt x ?x" "\<not> gt z ?x" using gt_asym le_refl by auto
  from le_trans [OF x(1) le] le_trans [OF x(2) le] Cons.IH [of ?x] show ?case
    by (simp only: foldl.simps list.set ball_simps) (cases "gt x z"; simp; blast)
qed

lemma min_by_least: "min_by gt xs = Some m \<Longrightarrow> m \<in> set xs \<and> (\<forall>x \<in> set xs. \<not> gt m x)"
  using foldl_min by (cases xs) auto

lemma max_by_greatest: "max_by gt xs = Some m \<Longrightarrow> m \<in> set xs \<and> (\<forall>x \<in> set xs. \<not> gt x m)"
  using foldl_max by (cases xs) auto

lemma min_by_unique:
  assumes "\<And>a b. a \<in> set xs \<Longrightarrow> b \<in> set xs \<Longrightarrow> \<not> gt a b \<Longrightarrow> \<not> gt b a \<Longrightarrow> a = b"
  shows "min_by gt xs = Some m \<longleftrightarrow> m \<in> set xs \<and> (\<forall>x \<in> set xs. \<not> gt m x)"
proof
  assume m: "m \<in> set xs \<and> (\<forall>x \<in> set xs. \<not> gt m x)"
  then obtain n where n: "min_by gt xs = Some n" by (cases xs) auto
  with min_by_least [OF n] m assms have "n = m" by blast
  with n show "min_by gt xs = Some m" by simp
qed (rule min_by_least)

lemma max_by_unique:
  assumes "\<And>a b. a \<in> set xs \<Longrightarrow> b \<in> set xs \<Longrightarrow> \<not> gt a b \<Longrightarrow> \<not> gt b a \<Longrightarrow> a = b"
  shows "max_by gt xs = Some m \<longleftrightarrow> m \<in> set xs \<and> (\<forall>x \<in> set xs. \<not> gt x m)"
proof
  assume m: "m \<in> set xs \<and> (\<forall>x \<in> set xs. \<not> gt x m)"
  then obtain n where n: "max_by gt xs = Some n" by (cases xs) auto
  with max_by_greatest [OF n] m assms have "n = m" by blast
  with n show "max_by gt xs = Some m" by simp
qed (rule max_by_greatest)

end

interpretation by_id: comparison "\<lambda>left right. display_id right < display_id left"
  by unfold_locales auto

interpretation by_share: comparison larger_share
  by unfold_locales (auto simp: larger_share_def)

subsection \<open>A topology that was accepted\<close>

definition display_ok :: "display_info \<Rightarrow> bool" where
  "display_ok d \<longleftrightarrow> \<not> is_blank (id_text (display_id d)) \<and>
     rect_width (bounds d) \<noteq> 0 \<and> rect_height (bounds d) \<noteq> 0 \<and>
     rotation_degrees d \<in> {0, 90, 180, 270} \<and>
     f32_is_finite (scale_factor d) \<and> \<not> f32_le_zero (scale_factor d)"

definition topology_ok :: "topology \<Rightarrow> bool" where
  "topology_ok t \<longleftrightarrow> list_all display_ok (displays t) \<and> distinct (map display_id (displays t))"

lemma check_display_Inr:
  "check_display sh ids d = Inr ids' \<longleftrightarrow>
     display_ok d \<and> id_text (display_id d) \<notin> ids \<and> ids' = insert (id_text (display_id d)) ids"
  by (auto simp: check_display_def display_ok_def Let_def)

lemma check_displays_Inr:
  "(\<exists>ids'. check_displays sh ids ds = Inr ids') \<longleftrightarrow>
     list_all display_ok ds \<and> distinct (map (id_text \<circ> display_id) ds) \<and>
     ids \<inter> set (map (id_text \<circ> display_id) ds) = {}"
  by (induction ds arbitrary: ids) (auto simp: check_display_Inr)

lemma distinct_id_text: "distinct (map (id_text \<circ> display_id) ds) \<longleftrightarrow> distinct (map display_id ds)"
proof -
  have "inj id_text" by (rule injI) (rule display_id.expand)
  then show ?thesis by (simp flip: map_map add: distinct_map inj_on_subset [OF _ subset_UNIV])
qed

lemma topology_new_Inr:
  "topology_new sh g ds = Inr t \<longleftrightarrow> t = \<lparr>generation = g, displays = ds\<rparr> \<and> topology_ok t"
  using check_displays_Inr [of sh "{}" ds]
  by (auto simp: topology_new_def topology_ok_def distinct_id_text)

lemma same_id_same_display:
  assumes "topology_ok t" "d \<in> set (displays t)" "e \<in> set (displays t)" "display_id d = display_id e"
  shows "d = e"
  using assms by (auto simp: topology_ok_def distinct_map dest: inj_onD)

lemma set_candidates: "(d, a) \<in> set (candidates r ds) \<longleftrightarrow> d \<in> set ds \<and> shared_area r d = Some a"
  by (induction ds) (auto simp: candidates_def map_filter_simps split: option.splits)

lemma candidates_distinguished:
  assumes "topology_ok t" "p \<in> set (candidates r (displays t))" "q \<in> set (candidates r (displays t))"
    and "\<not> larger_share p q" "\<not> larger_share q p"
  shows "p = q"
  using assms by (cases p; cases q)
    (auto simp: larger_share_def set_candidates not_less dest: same_id_same_display)

lemma not_larger_share:
  "\<not> larger_share (e, b) (d, a) \<longleftrightarrow> b < a \<or> (b = a \<and> display_id d \<le> display_id e)"
  by (auto simp: larger_share_def not_less)

text \<open>A display of 100 by 100 pixels at 100% scale, for the examples.\<close>

definition sample_display :: "string \<Rightarrow> i32 \<Rightarrow> display_info" where
  "sample_display name x = \<lparr>display_id = DisplayId (ustr name), display_name = ustr name,
     bounds = \<lparr>rect_x = x, rect_y = 0, rect_width = 100, rect_height = 100\<rparr>,
     scale_factor = 1065353216, rotation_degrees = 0, is_primary = False\<rparr>"

text \<open>C1: in an accepted topology \<open>largest_intersection\<close> answers with the display that shares the
  most pixels with the rectangle, the smallest identifier deciding between equals; it answers
  with no display exactly when none shares a pixel.\<close>

theorem largest_intersection_spec:
  assumes "topology_new sh g ds = Inr t"
  shows "largest_intersection t r = Some d \<longleftrightarrow>
    (\<exists>a. d \<in> set ds \<and> shared_area r d = Some a \<and>
      (\<forall>e \<in> set ds. \<forall>b. shared_area r e = Some b \<longrightarrow>
         b < a \<or> (b = a \<and> display_id d \<le> display_id e)))"
proof -
  from assms have t: "topology_ok t" "displays t = ds" by (auto simp: topology_new_Inr)
  have "largest_intersection t r = Some d \<longleftrightarrow>
      (\<exists>a. max_by larger_share (candidates r ds) = Some (d, a))"
    by (auto simp: largest_intersection_def t(2))
  also have "\<dots> \<longleftrightarrow> (\<exists>a. (d, a) \<in> set (candidates r ds) \<and>
      (\<forall>p \<in> set (candidates r ds). \<not> larger_share p (d, a)))"
    by (subst by_share.max_by_unique)
      (use candidates_distinguished [OF t(1)] t(2) in \<open>blast+\<close>)
  also have "\<dots> \<longleftrightarrow> (\<exists>a. d \<in> set ds \<and> shared_area r d = Some a \<and>
      (\<forall>e \<in> set ds. \<forall>b. shared_area r e = Some b \<longrightarrow> \<not> larger_share (e, b) (d, a)))"
    by (auto simp: set_candidates simp del: split_paired_All)
  finally show ?thesis by (simp only: not_larger_share)
qed

lemma largest_intersection_spec_witness:
  "\<exists>t d. topology_new (\<lambda>_. []) 1 [sample_display ''A'' 0, sample_display ''B'' 100] = Inr t \<and>
     largest_intersection t \<lparr>rect_x = 40, rect_y = 0, rect_width = 100, rect_height = 10\<rparr> = Some d \<and>
     display_id d = DisplayId (ustr ''A'')"
proof -
  let ?ds = "[sample_display ''A'' 0, sample_display ''B'' 100]"
  let ?r = "\<lparr>rect_x = 40, rect_y = 0, rect_width = 100, rect_height = 10\<rparr> :: rect"
  have new: "topology_new (\<lambda>_. []) 1 ?ds = Inr \<lparr>generation = 1, displays = ?ds\<rparr>"
    by (simp add: topology_new_Inr topology_ok_def display_ok_def sample_display_def is_blank_def
        ustr_def is_whitespace_def f32_is_finite_def f32_le_zero_def)
  have shared: "shared_area ?r (sample_display ''A'' 0) = Some 600"
    "shared_area ?r (sample_display ''B'' 100) = Some 400"
    by (simp_all add: shared_area_def intersection_def rect_of_span_def i32_try_from_def
        u32_try_from_def edge_defs area_def sample_display_def)
  have "largest_intersection \<lparr>generation = 1, displays = ?ds\<rparr> ?r = Some (sample_display ''A'' 0)"
    unfolding largest_intersection_spec [OF new] by (simp add: shared)
  with new show ?thesis by (auto simp: sample_display_def)
qed

lemma candidates_cong:
  assumes "set ds = set es"
  shows "set (candidates r ds) = set (candidates r es)"
  using assms by (auto simp: set_candidates)

text \<open>C2: which display a point or a rectangle resolves to is a function of the set of attached
  displays, not of the order the operating system enumerated them in.\<close>

theorem resolution_order_independent:
  assumes "topology_new sh g ds = Inr t" and "topology_new sh g' es = Inr u" and "set ds = set es"
  shows "containing_point t x y = containing_point u x y \<and>
    largest_intersection t r = largest_intersection u r"
proof (rule conjI)
  from assms have t: "topology_ok t" "displays t = ds" and u: "topology_ok u" "displays u = es"
    by (auto simp: topology_new_Inr)
  let ?gt = "\<lambda>left right. display_id right < display_id left"
  have tie: "a = b" if "a \<in> set ds" "b \<in> set ds" "\<not> ?gt a b" "\<not> ?gt b a" for a b
    using that t same_id_same_display [of t a b] by auto
  have "containing_point t x y = Some d \<longleftrightarrow> containing_point u x y = Some d" for d
    unfolding containing_point_def t(2) u(2)
    by (subst (1 2) by_id.min_by_unique) (use tie assms(3) in \<open>auto\<close>)
  then show "containing_point t x y = containing_point u x y"
    by (metis not_None_eq)
  have "max_by larger_share (candidates r ds) = Some p \<longleftrightarrow>
      max_by larger_share (candidates r es) = Some p" for p
    using candidates_distinguished [OF t(1)] candidates_distinguished [OF u(1)] t(2) u(2)
      candidates_cong [OF assms(3), of r]
    by (subst (1 2) by_share.max_by_unique) blast+
  then have "max_by larger_share (candidates r ds) = max_by larger_share (candidates r es)"
    by (metis not_None_eq)
  then show "largest_intersection t r = largest_intersection u r"
    by (simp add: largest_intersection_def t(2) u(2))
qed

lemma resolution_order_independent_witness:
  "\<exists>t u. topology_new (\<lambda>_. []) 1 [sample_display ''A'' 0, sample_display ''B'' 100] = Inr t \<and>
     topology_new (\<lambda>_. []) 2 [sample_display ''B'' 100, sample_display ''A'' 0] = Inr u \<and>
     containing_point t 10 10 = containing_point u 10 10 \<and> displays t \<noteq> displays u"
proof -
  let ?ds = "[sample_display ''A'' 0, sample_display ''B'' 100]"
  let ?es = "[sample_display ''B'' 100, sample_display ''A'' 0]"
  have new: "topology_new (\<lambda>_. []) 1 ?ds = Inr \<lparr>generation = 1, displays = ?ds\<rparr>"
    "topology_new (\<lambda>_. []) 2 ?es = Inr \<lparr>generation = 2, displays = ?es\<rparr>"
    by (simp_all add: topology_new_Inr topology_ok_def display_ok_def sample_display_def
        is_blank_def ustr_def is_whitespace_def f32_is_finite_def f32_le_zero_def)
  have "set ?ds = set ?es" by auto
  from resolution_order_independent [OF new this, of 10 10] new show ?thesis
    by (auto simp: sample_display_def ustr_def)
qed

subsection \<open>The virtual desktop\<close>

lemma fold_min_le: "fold min xs (x::int) \<le> x" "y \<in> set xs \<Longrightarrow> fold min xs x \<le> y"
  by (simp_all flip: Min.set_eq_fold)

lemma fold_max_ge: "(x::int) \<le> fold max xs x" "y \<in> set xs \<Longrightarrow> y \<le> fold max xs x"
  by (simp_all flip: Max.set_eq_fold)

lemma union_rect_eq_Some:
  "union_rect r s = Some u \<longleftrightarrow>
     rect_left u = min (rect_left r) (rect_left s) \<and> rect_top u = min (rect_top r) (rect_top s) \<and>
     rect_right u = max (rect_right r) (rect_right s) \<and>
     rect_bottom u = max (rect_bottom r) (rect_bottom s)"
  by (simp add: union_rect_def rect_of_span_eq_Some)

text \<open>A union that fails is wider or taller than any rectangle can be.\<close>

lemma union_rect_None:
  assumes "union_rect r s = None"
    and "rect_left u \<le> rect_left r" "rect_left u \<le> rect_left s" "rect_right r \<le> rect_right u"
    and "rect_right s \<le> rect_right u" "rect_top u \<le> rect_top r" "rect_top u \<le> rect_top s"
    and "rect_bottom r \<le> rect_bottom u" "rect_bottom s \<le> rect_bottom u"
  shows False
proof -
  define left where "left = min (rect_left r) (rect_left s)"
  define upper where "upper = min (rect_top r) (rect_top s)"
  define right where "right = max (rect_right r) (rect_right s)"
  define bottom where "bottom = max (rect_bottom r) (rect_bottom s)"
  have "- 2147483648 \<le> left" "left \<le> 2147483647" "- 2147483648 \<le> upper" "upper \<le> 2147483647"
    by (simp_all add: left_def upper_def edge_bounds min_le_iff_disj)
  moreover have "rect_left u \<le> left" "rect_top u \<le> upper" "right \<le> rect_right u"
    "bottom \<le> rect_bottom u" "left \<le> rect_left r" "rect_right r \<le> right" "upper \<le> rect_top r"
    "rect_bottom r \<le> bottom"
    using assms by (simp_all add: left_def upper_def right_def bottom_def)
  ultimately have "\<exists>t. rect_of_span left upper right bottom = Some t"
    using rect_right_bounds [of r] rect_bottom_bounds [of r] rect_right_bounds [of u]
      rect_bottom_bounds [of u] by (intro rect_of_span_exists) linarith+
  with assms(1) show False
    by (simp add: union_rect_def left_def upper_def right_def bottom_def)
qed

lemma union_all_eq_Some:
  "union_all acc rs = Some u \<longleftrightarrow>
     rect_left u = fold min (map rect_left rs) (rect_left acc) \<and>
     rect_top u = fold min (map rect_top rs) (rect_top acc) \<and>
     rect_right u = fold max (map rect_right rs) (rect_right acc) \<and>
     rect_bottom u = fold max (map rect_bottom rs) (rect_bottom acc)"
    (is "_ \<longleftrightarrow> ?edges acc rs")
proof (induction rs arbitrary: acc)
  case Nil
  then show ?case by (auto intro: rect_eqI)
next
  case (Cons r rs)
  show ?case
  proof (cases "union_rect acc r")
    case None
    have "\<not> ?edges acc (r # rs)"
    proof
      assume e: "?edges acc (r # rs)"
      have "rect_left u \<le> min (rect_left r) (rect_left acc)" "rect_top u \<le> min (rect_top r) (rect_top acc)"
        "max (rect_right r) (rect_right acc) \<le> rect_right u"
        "max (rect_bottom r) (rect_bottom acc) \<le> rect_bottom u"
        using e fold_min_le(1) [of "map rect_left rs" "min (rect_left r) (rect_left acc)"]
          fold_min_le(1) [of "map rect_top rs" "min (rect_top r) (rect_top acc)"]
          fold_max_ge(1) [of "max (rect_right r) (rect_right acc)" "map rect_right rs"]
          fold_max_ge(1) [of "max (rect_bottom r) (rect_bottom acc)" "map rect_bottom rs"]
        by simp_all
      then show False using union_rect_None [OF None, of u] by simp
    qed
    with None show ?thesis by simp
  next
    case (Some a)
    with Some [unfolded union_rect_eq_Some] show ?thesis
      by (simp add: Cons.IH min.commute max.commute)
  qed
qed

text \<open>the virtual desktop is the bounding box of all displays: it is reported exactly when
  there is a display and that box is representable, and no order of enumeration or intermediate
  union can lose it.\<close>

theorem virtual_bounds_hull:
  "virtual_bounds t = Some b \<longleftrightarrow> displays t \<noteq> [] \<and>
     rect_left b = Min (rect_left ` bounds ` set (displays t)) \<and>
     rect_top b = Min (rect_top ` bounds ` set (displays t)) \<and>
     rect_right b = Max (rect_right ` bounds ` set (displays t)) \<and>
     rect_bottom b = Max (rect_bottom ` bounds ` set (displays t))"
proof (cases "map bounds (displays t)")
  case Nil
  then show ?thesis by (simp add: virtual_bounds_def)
next
  case (Cons r rs)
  have img: "f ` bounds ` set (displays t) = set (f r # map f rs)" for f :: "rect \<Rightarrow> int"
    using arg_cong [OF Cons, of set] by (metis list.set_map list.simps(9))
  from Cons have "displays t \<noteq> []" by auto
  then show ?thesis
    by (simp only: virtual_bounds_def Cons list.case union_all_eq_Some img Min.set_eq_fold
        Max.set_eq_fold not_False_eq_True simp_thms)
qed

end
