(* ===== verification/CaptureTypes.thy ===== *)
theory CaptureTypes
  imports Topology
begin

section \<open>Requests, capabilities and errors of a capture\<close>

text \<open>
  The plain data of \<open>crates/captastic-core/src/capture.rs\<close> and \<open>error.rs\<close>. An \<open>Instant\<close> is
  nanoseconds since an arbitrary epoch. A native frame is a handle the core crate never looks
  into, so it is a type parameter.
\<close>

type_synonym capture_id = u64

datatype capture_mode = Fresh u64 | Latest "u64 option"

fun capture_mode_name :: "capture_mode \<Rightarrow> ustring" where
  "capture_mode_name (Fresh _) = ustr ''fresh''"
| "capture_mode_name (Latest _) = ustr ''latest''"

datatype capture_source = Display display_id | VirtualDesktop

datatype cursor_mode = Include | Exclude

record capture_request =
  req_id :: capture_id
  triggered_at :: duration
  req_source :: capture_source
  req_mode :: capture_mode
  cpu_frame_wanted :: bool
  retain_native_frame :: bool
  req_cursor :: cursor_mode

record backend_capabilities =
  display_capture :: bool
  window_capture :: bool
  virtual_desktop_capture :: bool
  fresh_mode :: bool
  latest_mode :: bool
  cursor_control :: bool
  hdr :: bool
  presentation_time :: bool
  warm_stream :: bool

datatype capture_error_kind =
    Unsupported | PermissionDenied | SourceUnavailable | DesktopUnavailable | Timeout
  | AccessLost | DeviceRemoved | TopologyChanged | BufferExhausted | WorkersExhausted
  | PointerOutsideDisplays | InvalidFrame | NativeFailure | ShuttingDown

record capture_error =
  err_kind :: capture_error_kind
  err_backend :: ustring
  err_operation :: ustring
  err_message :: ustring
  err_retryable :: bool
  err_native_code :: "int option"

definition DISPLAY_BINDING_REFUSED :: ustring where
  "DISPLAY_BINDING_REFUSED = ustr ''capture_display_binding''"

definition DISPLAY_NOT_ATTACHED :: ustring where
  "DISPLAY_NOT_ATTACHED = ustr ''resolve_display''"

text \<open>\<open>CaptureError::synthetic\<close>: a deterministic failure, never worth a retry.\<close>

definition synthetic_error :: "ustring \<Rightarrow> capture_error" where
  "synthetic_error msg =
     \<lparr>err_kind = NativeFailure, err_backend = ustr ''fake'', err_operation = ustr ''capture'',
      err_message = msg, err_retryable = False, err_native_code = None\<rparr>"

datatype frame_error =
    EmptyDimensions
  | InvalidStride u32 u32
  | SizeOverflow
  | BufferTooShort nat nat
  | EmptyCrop
  | CropOutsideSource

end
