(* ===== verification/Frame.thy ===== *)
theory Frame
  imports CaptureTypes
begin

section \<open>Frames of pixels\<close>

text \<open>
  \<open>crates/captastic-core/src/frame.rs\<close>: the pixel formats, a frame's metadata, the validated
  \<open>CpuFrame\<close>, and cropping. \<open>frame_ok\<close> is what \<open>CpuFrame::new\<close> establishes and every other
  operation relies on: the buffer holds \<open>stride\<close> bytes for each row, and a row holds \<open>width\<close>
  pixels. Slices that could panic make the result \<open>None\<close>; the theorems show a valid frame never
  gets there.
\<close>

datatype pixel_format = Bgra8Unorm | Rgba8Unorm | Rgba16Float

datatype pixel_encoding = EightBitRgba bool | HalfFloatRgba

fun bytes_per_pixel :: "pixel_format \<Rightarrow> u32" where
  "bytes_per_pixel Bgra8Unorm = 4"
| "bytes_per_pixel Rgba8Unorm = 4"
| "bytes_per_pixel Rgba16Float = 8"

fun encoding :: "pixel_format \<Rightarrow> pixel_encoding" where
  "encoding Bgra8Unorm = EightBitRgba True"
| "encoding Rgba8Unorm = EightBitRgba False"
| "encoding Rgba16Float = HalfFloatRgba"

datatype frame_origin = TopLeft

datatype color_space = Srgb | ScRgb | UnknownColorSpace

datatype frame_alpha = Opaque | Straight

datatype timing_provenance = OsPresentationTime | ArrivalTime | Synthetic | Unavailable

datatype cursor_absence =
  NotVisible | SourceCannotCompose | SuppressedForSelection | ShapeNotYetKnown | PositionNotYetKnown

datatype cursor_capture =
    Excluded
  | Composited i32 i32 u32 u32
  | Absent cursor_absence

record frame_metadata =
  meta_capture_id :: capture_id
  meta_backend :: ustring
  meta_display_id :: display_id
  source_rect :: rect
  meta_rotation_degrees :: u16
  meta_capture_mode :: capture_mode
  presentation_offset_ns :: "int option"
  meta_timing_provenance :: timing_provenance
  native_ready_offset_ns :: u64
  cpu_ready_offset_ns :: "u64 option"
  frame_age_ns :: "u64 option"
  verified_current_offset_ns :: "u64 option"
  frame_generation :: "u64 option"
  copy_count :: u32
  pool_slot :: "u16 option"
  meta_cursor :: "cursor_capture option"

record cpu_frame =
  pixels :: bytes
  width :: u32
  height :: u32
  stride_bytes :: u32
  frame_format :: pixel_format
  origin :: frame_origin
  frame_color_space :: color_space
  alpha :: frame_alpha
  metadata :: frame_metadata

definition validate_layout :: "nat \<Rightarrow> u32 \<Rightarrow> u32 \<Rightarrow> u32 \<Rightarrow> pixel_format \<Rightarrow> frame_error + nat" where
  "validate_layout actual w h stride fmt =
     (if w = 0 \<or> h = 0 then Inl EmptyDimensions
      else try_bind (ok_or SizeOverflow (u32_checked_mul w (bytes_per_pixel fmt))) (\<lambda>minimum.
        if stride < minimum then Inl (InvalidStride stride minimum)
        else try_bind (ok_or SizeOverflow (u32_checked_mul stride h)) (\<lambda>required.
          if actual < unat required then Inl (BufferTooShort actual (unat required))
          else Inr (unat required))))"

definition cpu_frame_new ::
  "bytes \<Rightarrow> u32 \<Rightarrow> u32 \<Rightarrow> u32 \<Rightarrow> pixel_format \<Rightarrow> frame_origin \<Rightarrow> color_space \<Rightarrow> frame_metadata
     \<Rightarrow> frame_error + cpu_frame" where
  "cpu_frame_new px w h stride fmt org cs meta =
     try_bind (validate_layout (length px) w h stride fmt) (\<lambda>_.
       Inr \<lparr>pixels = px, width = w, height = h, stride_bytes = stride, frame_format = fmt,
            origin = org, frame_color_space = cs, alpha = Opaque, metadata = meta\<rparr>)"

definition with_alpha :: "cpu_frame \<Rightarrow> frame_alpha \<Rightarrow> cpu_frame" where
  "with_alpha f a = f\<lparr>alpha := a\<rparr>"

text \<open>\<open>stride_bytes as usize * height as usize\<close>; two \<open>u32\<close> factors fit a \<open>usize\<close>.\<close>

definition required_bytes :: "cpu_frame \<Rightarrow> nat" where
  "required_bytes f = unat (stride_bytes f) * unat (height f)"

text \<open>\<open>detached\<close>: the same frame in a buffer of its own. The buffer is a value here, so the copy
  is the frame itself; what the copy is for, the sharing, is outside the model.\<close>

definition detached :: "cpu_frame \<Rightarrow> cpu_frame" where
  "detached f = f\<lparr>pixels := take (length (pixels f)) (pixels f)\<rparr>"

text \<open>The row loop of \<open>crop\<close> over the source rows: each is a checked offset and a slice.\<close>

fun copy_rows :: "bytes \<Rightarrow> nat \<Rightarrow> nat \<Rightarrow> nat \<Rightarrow> nat list \<Rightarrow> (frame_error + bytes) option" where
  "copy_rows px stride x_bytes row_bytes [] = Some (Inr [])"
| "copy_rows px stride x_bytes row_bytes (row # rows) =
     (case Option.bind (usize_checked_mul row stride) (\<lambda>v. usize_checked_add v x_bytes) of
        None \<Rightarrow> Some (Inl SizeOverflow)
      | Some start \<Rightarrow>
         (case slice start (start + row_bytes) px of
            None \<Rightarrow> None
          | Some bytes \<Rightarrow>
             map_option (\<lambda>r. try_bind r (\<lambda>rest. Inr (bytes @ rest)))
               (copy_rows px stride x_bytes row_bytes rows)))"

text \<open>
  \<open>selection.x - source.x\<close> is an \<open>i32\<close> subtraction, which wraps in the release profile; the
  wrapped value is what \<open>u32::try_from\<close> sees. \<open>crop_spec\<close> below shows it never wraps in a
  valid frame.
\<close>

definition crop :: "cpu_frame \<Rightarrow> rect \<Rightarrow> (frame_error + cpu_frame) option" where
  "crop f selection =
     (let source = source_rect (metadata f) in
      if rect_width selection = 0 \<or> rect_height selection = 0 then Some (Inl EmptyCrop)
      else if rect_width source \<noteq> width f \<or> rect_height source \<noteq> height f
        then Some (Inl CropOutsideSource)
      else if sint (rect_x selection) < sint (rect_x source)
          \<or> sint (rect_y selection) < sint (rect_y source)
          \<or> rect_right source < rect_right selection \<or> rect_bottom source < rect_bottom selection
        then Some (Inl CropOutsideSource)
      else
        (case (u32_try_from (sint (rect_x selection - rect_x source)),
               u32_try_from (sint (rect_y selection - rect_y source))) of
          (Some local_x, Some local_y) \<Rightarrow>
            let bpp = bytes_per_pixel (frame_format f) in
            (case u32_checked_mul (rect_width selection) bpp of
              None \<Rightarrow> Some (Inl SizeOverflow)
            | Some destination_stride \<Rightarrow>
               (case (u32_checked_mul destination_stride (rect_height selection),
                      u32_checked_mul local_x bpp) of
                 (Some destination_len, Some source_x_bytes) \<Rightarrow>
                   map_option (\<lambda>r. try_bind r (\<lambda>px.
                     let meta = (metadata f)\<lparr>source_rect := selection,
                           copy_count := sat_inc (copy_count (metadata f)), pool_slot := None\<rparr>
                     in try_bind (cpu_frame_new px (rect_width selection) (rect_height selection)
                          destination_stride (frame_format f) (origin f) (frame_color_space f) meta)
                          (\<lambda>frame. Inr (with_alpha frame (alpha f)))))
                     (copy_rows (pixels f) (unat (stride_bytes f)) (unat source_x_bytes)
                        (unat destination_stride)
                        (map (\<lambda>row. unat local_y + row) [0..<unat (rect_height selection)]))
               | _ \<Rightarrow> Some (Inl SizeOverflow)))
        | _ \<Rightarrow> Some (Inl CropOutsideSource)))"

subsection \<open>The layout invariant\<close>

definition frame_ok :: "cpu_frame \<Rightarrow> bool" where
  "frame_ok f \<longleftrightarrow> width f \<noteq> 0 \<and> height f \<noteq> 0 \<and>
     unat (width f) * unat (bytes_per_pixel (frame_format f)) \<le> unat (stride_bytes f) \<and>
     unat (stride_bytes f) * unat (height f) < 4294967296 \<and>
     unat (stride_bytes f) * unat (height f) \<le> length (pixels f)"

lemma bytes_per_pixel_pos [simp]: "0 < unat (bytes_per_pixel fmt)"
  by (cases fmt) simp_all

lemma bytes_per_pixel_ge: "4 \<le> unat (bytes_per_pixel fmt)"
  by (cases fmt) simp_all

lemma validate_layout_Inr:
  "validate_layout n w h stride fmt = Inr r \<longleftrightarrow> w \<noteq> 0 \<and> h \<noteq> 0 \<and>
     unat w * unat (bytes_per_pixel fmt) \<le> unat stride \<and>
     unat stride * unat h < 4294967296 \<and> unat stride * unat h \<le> n \<and> r = unat stride * unat h"
    (is "?l \<longleftrightarrow> ?r")
proof
  assume ?l
  then obtain m q where "w \<noteq> 0" "h \<noteq> 0" "u32_checked_mul w (bytes_per_pixel fmt) = Some m"
    "\<not> stride < m" "u32_checked_mul stride h = Some q" "unat q \<le> n" "r = unat q"
    by (auto simp: validate_layout_def split: if_splits)
  then show ?r
    using unat_u32_le [of q] by (simp add: conv_simps word_less_nat_alt)
next
  assume r: ?r
  then have "unat w * unat (bytes_per_pixel fmt) < 4294967296"
    using unat_u32_le [of stride] by linarith
  then obtain m where m: "u32_checked_mul w (bytes_per_pixel fmt) = Some m"
    by (auto simp: u32_checked_mul_def)
  obtain q where q: "u32_checked_mul stride h = Some q"
    using r by (auto simp: u32_checked_mul_def)
  have "unat m = unat w * unat (bytes_per_pixel fmt)" "unat q = unat stride * unat h"
    using m q by (simp_all add: conv_simps)
  with r show ?l
    by (simp add: validate_layout_def word_less_nat_alt m q)
qed

lemma frame_ok_layout:
  "frame_ok f \<longleftrightarrow> (\<exists>n. validate_layout (length (pixels f)) (width f) (height f) (stride_bytes f)
     (frame_format f) = Inr n)"
  by (auto simp: validate_layout_Inr frame_ok_def)

lemma cpu_frame_new_Inr:
  "cpu_frame_new px w h st fmt org cs meta = Inr f \<longleftrightarrow>
     f = \<lparr>pixels = px, width = w, height = h, stride_bytes = st, frame_format = fmt, origin = org,
          frame_color_space = cs, alpha = Opaque, metadata = meta\<rparr> \<and> frame_ok f"
  by (auto simp: cpu_frame_new_def frame_ok_layout)

lemma cpu_frame_new_ok: "cpu_frame_new px w h st fmt org cs meta = Inr f \<Longrightarrow> frame_ok f"
  using cpu_frame_new_Inr by blast

lemma with_alpha_ok [simp]: "frame_ok (with_alpha f a) = frame_ok f"
  by (simp add: frame_ok_def with_alpha_def)

lemma detached_eq [simp]: "detached f = f"
  by (simp add: detached_def)

lemma frame_ok_required: "frame_ok f \<Longrightarrow> required_bytes f \<le> length (pixels f)"
  by (simp add: frame_ok_def required_bytes_def)

text \<open>A valid frame is less than \<open>2 ^ 30\<close> pixels wide and \<open>2 ^ 30\<close> rows high.\<close>

lemma frame_ok_small:
  assumes "frame_ok f"
  shows "unat (width f) < 1073741824" "unat (height f) < 1073741824"
proof -
  from assms have w: "0 < unat (width f)" and h: "0 < unat (height f)"
    by (simp_all add: frame_ok_def unat_gt_0)
  have st: "4 * unat (width f) \<le> unat (stride_bytes f)"
  proof -
    have "4 * unat (width f) \<le> unat (bytes_per_pixel (frame_format f)) * unat (width f)"
      by (intro mult_le_mono1 bytes_per_pixel_ge)
    also have "\<dots> \<le> unat (stride_bytes f)" using assms by (simp add: frame_ok_def mult.commute)
    finally show ?thesis .
  qed
  have lt: "unat (stride_bytes f) * unat (height f) < 4294967296"
    using assms by (simp add: frame_ok_def)
  have "unat (stride_bytes f) * 1 \<le> unat (stride_bytes f) * unat (height f)"
    by (intro mult_le_mono2) (use h in simp)
  with lt st show "unat (width f) < 1073741824" by linarith
  have "4 * unat (height f) \<le> unat (stride_bytes f) * unat (height f)"
    by (intro mult_le_mono1) (use st w in linarith)
  with lt show "unat (height f) < 1073741824" by linarith
qed

lemma copy_rows_eq:
  assumes "\<And>row. row \<in> set rows \<Longrightarrow> row * stride + xb < 18446744073709551616"
    and "\<And>row. row \<in> set rows \<Longrightarrow> row * stride + xb + rb \<le> length px"
  shows "copy_rows px stride xb rb rows =
    Some (Inr (concat (map (\<lambda>row. take rb (drop (row * stride + xb) px)) rows)))"
  using assms
proof (induction rows)
  case Nil
  then show ?case by simp
next
  case (Cons r rs)
  from Cons.prems(1) [of r] have m: "usize_checked_mul r stride = Some (r * stride)"
    "usize_checked_add (r * stride) xb = Some (r * stride + xb)"
    by (auto simp: usize_checked_mul_def usize_checked_add_def)
  have s: "r * stride + xb + rb \<le> length px"
    using Cons.prems(2) by simp
  from Cons.IH Cons.prems have "copy_rows px stride xb rb rs =
      Some (Inr (concat (map (\<lambda>row. take rb (drop (row * stride + xb) px)) rs)))"
    by simp
  with m s show ?case by (simp add: slice_def)
qed

subsection \<open>Cropping\<close>

text \<open>Where a selection inside a frame's source starts, in the frame's own pixels.\<close>

definition local_x :: "cpu_frame \<Rightarrow> rect \<Rightarrow> nat" where
  "local_x f r = nat (rect_left r - rect_left (source_rect (metadata f)))"

definition local_y :: "cpu_frame \<Rightarrow> rect \<Rightarrow> nat" where
  "local_y f r = nat (rect_top r - rect_top (source_rect (metadata f)))"

abbreviation frame_bpp :: "cpu_frame \<Rightarrow> nat" where
  "frame_bpp f \<equiv> unat (bytes_per_pixel (frame_format f))"

abbreviation frame_stride :: "cpu_frame \<Rightarrow> nat" where
  "frame_stride f \<equiv> unat (stride_bytes f)"

text \<open>What a crop is meant to hold: row after row, the selected span of each source row.\<close>

definition cropped_row :: "cpu_frame \<Rightarrow> rect \<Rightarrow> nat \<Rightarrow> bytes" where
  "cropped_row f r row = take (unat (rect_width r) * frame_bpp f)
     (drop ((local_y f r + row) * frame_stride f + local_x f r * frame_bpp f) (pixels f))"

definition cropped :: "cpu_frame \<Rightarrow> rect \<Rightarrow> cpu_frame" where
  "cropped f r = f\<lparr>
     pixels := concat (map (cropped_row f r) [0..<unat (rect_height r)]),
     width := rect_width r, height := rect_height r,
     stride_bytes := rect_width r * bytes_per_pixel (frame_format f),
     metadata := (metadata f)\<lparr>source_rect := r, copy_count := sat_inc (copy_count (metadata f)),
       pool_slot := None\<rparr>\<rparr>"

lemma pixels_cropped: "pixels (cropped f r) = concat (map (cropped_row f r) [0..<unat (rect_height r)])"
  by (simp add: cropped_def)

text \<open>A selection the code accepts: not empty, and inside a source the frame covers exactly.\<close>

definition covers_source :: "cpu_frame \<Rightarrow> bool" where
  "covers_source f \<longleftrightarrow> rect_width (source_rect (metadata f)) = width f \<and>
     rect_height (source_rect (metadata f)) = height f"

definition selects :: "cpu_frame \<Rightarrow> rect \<Rightarrow> bool" where
  "selects f r \<longleftrightarrow> covers_source f \<and> rect_within r (source_rect (metadata f)) \<and>
     rect_width r \<noteq> 0 \<and> rect_height r \<noteq> 0"

lemma selects_bounds:
  assumes "frame_ok f" and "selects f r"
  shows "local_x f r + unat (rect_width r) \<le> unat (width f)"
    and "local_y f r + unat (rect_height r) \<le> unat (height f)"
    and "int (local_x f r) = rect_left r - rect_left (source_rect (metadata f))"
    and "int (local_y f r) = rect_top r - rect_top (source_rect (metadata f))"
proof -
  let ?s = "source_rect (metadata f)"
  have w: "uint (width f) = rect_right ?s - rect_left ?s" "uint (height f) = rect_bottom ?s - rect_top ?s"
    using assms(2) by (simp_all add: selects_def covers_source_def flip: rect_width_edges rect_height_edges)
  have i: "rect_left ?s \<le> rect_left r" "rect_right r \<le> rect_right ?s" "rect_top ?s \<le> rect_top r"
    "rect_bottom r \<le> rect_bottom ?s"
    using assms(2) by (simp_all add: selects_def rect_within_def)
  show "int (local_x f r) = rect_left r - rect_left ?s" "int (local_y f r) = rect_top r - rect_top ?s"
    using i by (simp_all add: local_x_def local_y_def)
  then have "int (local_x f r) + uint (rect_width r) \<le> uint (width f)"
    "int (local_y f r) + uint (rect_height r) \<le> uint (height f)"
    using i w by (simp_all add: rect_width_edges rect_height_edges)
  then show "local_x f r + unat (rect_width r) \<le> unat (width f)"
    "local_y f r + unat (rect_height r) \<le> unat (height f)"
    by (simp_all only: uint_nat of_nat_add [symmetric] of_nat_le_iff)
qed

text \<open>Every byte a crop reads lies in its source row, so in the buffer.\<close>

lemma cropped_row_inside:
  assumes "frame_ok f" and "selects f r" and "row < unat (rect_height r)"
  shows "(local_y f r + row) * frame_stride f + local_x f r * frame_bpp f
    + unat (rect_width r) * frame_bpp f \<le> frame_stride f * unat (height f)"
proof -
  have "local_x f r * frame_bpp f + unat (rect_width r) * frame_bpp f \<le> unat (width f) * frame_bpp f"
    unfolding add_mult_distrib [symmetric]
    by (intro mult_le_mono1 selects_bounds(1) [OF assms(1,2)])
  also have "\<dots> \<le> frame_stride f" using assms(1) by (simp add: frame_ok_def)
  finally have "(local_y f r + row) * frame_stride f
      + (local_x f r * frame_bpp f + unat (rect_width r) * frame_bpp f)
      \<le> Suc (local_y f r + row) * frame_stride f"
    by simp
  also have "\<dots> \<le> unat (height f) * frame_stride f"
    using selects_bounds(2) [OF assms(1,2)] assms(3) by (intro mult_le_mono1) simp
  finally show ?thesis by (simp add: mult.commute add.assoc)
qed

lemma length_cropped_row:
  assumes "frame_ok f" and "selects f r" and "row < unat (rect_height r)"
  shows "length (cropped_row f r row) = unat (rect_width r) * frame_bpp f"
  using cropped_row_inside [OF assms] assms(1) by (auto simp: cropped_row_def frame_ok_def)

lemma crop_stride:
  assumes "frame_ok f" and "selects f r"
  shows "u32_checked_mul (rect_width r) (bytes_per_pixel (frame_format f)) =
      Some (rect_width r * bytes_per_pixel (frame_format f))"
    and "unat (rect_width r * bytes_per_pixel (frame_format f)) = unat (rect_width r) * frame_bpp f"
    and "unat (rect_width r) * frame_bpp f * unat (rect_height r) < 4294967296"
proof -
  have h: "unat (rect_height r) \<le> unat (height f)" and "unat (rect_width r) \<le> unat (width f)"
    using selects_bounds(1,2) [OF assms] by linarith+
  then have "unat (rect_width r) * frame_bpp f \<le> unat (width f) * frame_bpp f" by (intro mult_le_mono1)
  also have "\<dots> \<le> frame_stride f" using assms(1) by (simp add: frame_ok_def)
  finally have le: "unat (rect_width r) * frame_bpp f \<le> frame_stride f" .
  then have lt: "unat (rect_width r) * frame_bpp f < 4294967296"
    using unat_u32_le [of "stride_bytes f"] by linarith
  then show s: "u32_checked_mul (rect_width r) (bytes_per_pixel (frame_format f)) =
      Some (rect_width r * bytes_per_pixel (frame_format f))"
    by (simp add: u32_checked_mul_def)
  then show "unat (rect_width r * bytes_per_pixel (frame_format f)) = unat (rect_width r) * frame_bpp f"
    by (simp add: conv_simps)
  have "unat (rect_width r) * frame_bpp f * unat (rect_height r) \<le> frame_stride f * unat (height f)"
    by (intro mult_le_mono le h)
  then show "unat (rect_width r) * frame_bpp f * unat (rect_height r) < 4294967296"
    using assms(1) by (simp add: frame_ok_def)
qed

lemma cropped_ok:
  assumes "frame_ok f" and "selects f r"
  shows "frame_ok (cropped f r)"
proof -
  have "length (concat (map (cropped_row f r) [0..<unat (rect_height r)])) =
      unat (rect_height r) * (unat (rect_width r) * frame_bpp f)"
    using length_cropped_row [OF assms] by (subst length_concat_rows) auto
  then show ?thesis
    using crop_stride [OF assms] assms(2)
    by (simp add: frame_ok_def cropped_def selects_def mult.commute mult.left_commute)
qed

text \<open>The code's comparisons, conversions and loop come to exactly that.\<close>

lemma crop_inside:
  assumes ok: "frame_ok f" and sel: "selects f r"
  shows "crop f r = Some (Inr (cropped f r))"
proof -
  let ?s = "source_rect (metadata f)"
  note b = selects_bounds [OF ok sel]
  note st = crop_stride [OF ok sel]
  have small: "local_x f r < 1073741824" "local_y f r < 1073741824"
    using b frame_ok_small [OF ok] by linarith+
  have dx: "sint (rect_x r - rect_x ?s) = int (local_x f r)"
    using b(3) small by (subst sint_diff_in_range) (simp_all add: rect_left_def)
  have dy: "sint (rect_y r - rect_y ?s) = int (local_y f r)"
    using b(4) small by (subst sint_diff_in_range) (simp_all add: rect_top_def)
  obtain lx where lx: "u32_try_from (int (local_x f r)) = Some lx" "unat lx = local_x f r"
    using small by (auto simp: u32_try_from_def uint_nat unat_of_nat take_bit_nat_eq_self)
  obtain ly where ly: "u32_try_from (int (local_y f r)) = Some ly" "unat ly = local_y f r"
    using small by (auto simp: u32_try_from_def uint_nat unat_of_nat take_bit_nat_eq_self)
  have "0 < unat (rect_height r)" using sel by (simp add: selects_def unat_gt_0)
  note first = cropped_row_inside [OF ok sel this]
  have fits: "frame_stride f * unat (height f) < 4294967296"
    "frame_stride f * unat (height f) \<le> length (pixels f)"
    using ok by (simp_all add: frame_ok_def)
  have "local_x f r * frame_bpp f < 4294967296" using first fits by linarith
  then obtain xb where xb: "u32_checked_mul lx (bytes_per_pixel (frame_format f)) = Some xb"
    "unat xb = local_x f r * frame_bpp f"
    using lx(2) by (auto simp: u32_checked_mul_def unat_word_ariths)
  obtain len where len: "u32_checked_mul (rect_width r * bytes_per_pixel (frame_format f))
      (rect_height r) = Some len"
    using st(2,3) by (auto simp: u32_checked_mul_def)
  have inside: "row * frame_stride f + unat xb < 18446744073709551616 \<and>
      row * frame_stride f + unat xb + unat (rect_width r * bytes_per_pixel (frame_format f))
        \<le> length (pixels f)"
    if "row \<in> set (map (\<lambda>row. unat ly + row) [0..<unat (rect_height r)])" for row
  proof -
    from that have k: "local_y f r + (row - local_y f r) = row" "row - local_y f r < unat (rect_height r)"
      by (auto simp: ly)
    from cropped_row_inside [OF ok sel k(2)] fits show ?thesis
      unfolding k(1) xb(2) st(2) by linarith
  qed
  have rows: "copy_rows (pixels f) (frame_stride f) (unat xb)
      (unat (rect_width r * bytes_per_pixel (frame_format f)))
      (map (\<lambda>row. unat ly + row) [0..<unat (rect_height r)]) =
      Some (Inr (pixels (cropped f r)))"
    by (subst copy_rows_eq)
      (use inside in \<open>auto simp: ly xb st(2) cropped_def cropped_row_def [abs_def] comp_def\<close>)
  from cropped_ok [OF ok sel] have new: "cpu_frame_new (pixels (cropped f r)) (rect_width r)
      (rect_height r) (rect_width r * bytes_per_pixel (frame_format f)) (frame_format f) (origin f)
      (frame_color_space f) (metadata (cropped f r)) = Inr ((cropped f r)\<lparr>alpha := Opaque\<rparr>)"
    by (simp add: cpu_frame_new_Inr frame_ok_def cropped_def)
  have nonempty: "rect_width r \<noteq> 0" "rect_height r \<noteq> 0" "rect_width ?s = width f"
    "rect_height ?s = height f" and within: "rect_within r ?s"
    using sel by (simp_all add: selects_def covers_source_def)
  have "\<not> (sint (rect_x r) < sint (rect_x ?s) \<or> sint (rect_y r) < sint (rect_y ?s)
      \<or> rect_right ?s < rect_right r \<or> rect_bottom ?s < rect_bottom r)"
    using within by (auto simp: rect_within_def rect_left_def rect_top_def)
  then show ?thesis
    using new nonempty
    by (simp add: crop_def Let_def dx dy lx(1) ly(1) st(1) len xb(1) rows with_alpha_def)
      (simp add: cropped_def)
qed

text \<open>The bytes of one pixel, by its place in the frame and by its place on the desktop.\<close>

definition pixel :: "cpu_frame \<Rightarrow> nat \<Rightarrow> nat \<Rightarrow> bytes" where
  "pixel f x y = take (frame_bpp f) (drop (y * frame_stride f + x * frame_bpp f) (pixels f))"

definition desktop_pixel :: "cpu_frame \<Rightarrow> int \<Rightarrow> int \<Rightarrow> bytes" where
  "desktop_pixel f x y = pixel f (nat (x - rect_left (source_rect (metadata f))))
     (nat (y - rect_top (source_rect (metadata f))))"

lemma take_drop_rows:
  assumes len: "\<And>r. r < h \<Longrightarrow> length (g r) = n" and y: "y < h" and k: "c + k \<le> n"
  shows "take k (drop (y * n + c) (concat (map g [0..<h]))) = take k (drop c (g y))"
proof (rule nth_equalityI)
  have total: "length (concat (map g [0..<h])) = h * n"
    using len by (subst length_concat_rows [where n = n]) auto
  have "y * n + n \<le> h * n" using y mult_le_mono1 [of "Suc y" h n] by simp
  then show "length (take k (drop (y * n + c) (concat (map g [0..<h])))) =
      length (take k (drop c (g y)))"
    using k len [OF y] total by simp
  fix i
  assume "i < length (take k (drop (y * n + c) (concat (map g [0..<h]))))"
  then have i: "i < k" by simp
  then have "concat (map g [0..<h]) ! (y * n + (c + i)) = g y ! (c + i)"
    using k by (intro nth_concat_rows len y) simp_all
  then show "take k (drop (y * n + c) (concat (map g [0..<h]))) ! i = take k (drop c (g y)) ! i"
    using i k len [OF y] total \<open>y * n + n \<le> h * n\<close> by (simp add: nth_drop add.assoc)
qed

text \<open>A span inside a row of a crop is that span of the source.\<close>

lemma cropped_span:
  assumes ok: "frame_ok f" and sel: "selects f r" and y: "y < unat (rect_height r)"
    and c: "c + k \<le> unat (rect_width r) * frame_bpp f"
  shows "take k (drop (y * frame_stride (cropped f r) + c) (pixels (cropped f r))) =
    take k (drop ((local_y f r + y) * frame_stride f + local_x f r * frame_bpp f + c) (pixels f))"
proof -
  have "frame_stride (cropped f r) = unat (rect_width r) * frame_bpp f"
    using crop_stride(2) [OF ok sel] by (simp add: cropped_def)
  then have "take k (drop (y * frame_stride (cropped f r) + c) (pixels (cropped f r))) =
      take k (drop c (cropped_row f r y))"
    using take_drop_rows [OF length_cropped_row [OF ok sel] y c] by (simp add: cropped_def)
  also have "\<dots> = take k (drop ((local_y f r + y) * frame_stride f + local_x f r * frame_bpp f + c)
      (pixels f))"
    using c by (simp add: cropped_row_def drop_take min_def add.commute)
  finally show ?thesis .
qed

lemma pixel_cropped:
  assumes "frame_ok f" "selects f r" "x < unat (rect_width r)" "y < unat (rect_height r)"
  shows "pixel (cropped f r) x y = pixel f (local_x f r + x) (local_y f r + y)"
proof -
  have "x * frame_bpp f + frame_bpp f \<le> unat (rect_width r) * frame_bpp f"
    using assms(3) mult_le_mono1 [of "Suc x" "unat (rect_width r)" "frame_bpp f"] by simp
  from cropped_span [OF assms(1,2,4) this] show ?thesis
    by (simp add: pixel_def cropped_def add_mult_distrib add.assoc)
qed

text \<open>C3: cropping a valid frame never panics and never overflows. The empty selection, and the one
  that does not lie inside a source the frame covers, are refused with their own error; every
  other selection yields the frame whose rows are the selected spans of the source rows.\<close>

theorem crop_spec:
  assumes "frame_ok f"
  shows "crop f r =
    Some (if rect_width r = 0 \<or> rect_height r = 0 then Inl EmptyCrop
          else if covers_source f \<and> rect_within r (source_rect (metadata f)) then Inr (cropped f r)
          else Inl CropOutsideSource)"
proof (cases "selects f r")
  case True
  with crop_inside [OF assms True] show ?thesis by (simp add: selects_def)
next
  case False
  then show ?thesis
    by (auto simp: crop_def Let_def selects_def covers_source_def rect_within_def rect_left_def
        rect_top_def not_less)
qed

lemma crop_eq_Inr:
  assumes "frame_ok f"
  shows "crop f r = Some (Inr g) \<longleftrightarrow> selects f r \<and> g = cropped f r"
proof (cases "selects f r")
  case True
  with crop_inside [OF assms True] show ?thesis by auto
next
  case False
  then have "\<exists>e. crop f r = Some (Inl e)"
    by (auto simp: crop_def Let_def selects_def covers_source_def rect_within_def rect_left_def
        rect_top_def not_less)
  with False show ?thesis by auto
qed

text \<open>A frame of two by two pixels taken from the desktop at \<open>(-1, 5)\<close>, with two bytes of padding
  in each row, for the examples.\<close>

definition sample_metadata :: "rect \<Rightarrow> frame_metadata" where
  "sample_metadata r = \<lparr>meta_capture_id = 7, meta_backend = ustr ''fake'',
     meta_display_id = primary_id, source_rect = r, meta_rotation_degrees = 0,
     meta_capture_mode = Latest None, presentation_offset_ns = None,
     meta_timing_provenance = Synthetic, native_ready_offset_ns = 0, cpu_ready_offset_ns = None,
     frame_age_ns = None, verified_current_offset_ns = None, frame_generation = None,
     copy_count = 1, pool_slot = Some 2, meta_cursor = None\<rparr>"

definition sample_frame :: cpu_frame where
  "sample_frame = \<lparr>pixels = [1, 2, 3, 4, 5, 6, 7, 8, 0, 0, 11, 12, 13, 14, 15, 16, 17, 18, 0, 0],
     width = 2, height = 2, stride_bytes = 10, frame_format = Bgra8Unorm, origin = TopLeft,
     frame_color_space = Srgb, alpha = Opaque,
     metadata = sample_metadata \<lparr>rect_x = - 1, rect_y = 5, rect_width = 2, rect_height = 2\<rparr>\<rparr>"

definition sample_selection :: rect where
  "sample_selection = \<lparr>rect_x = 0, rect_y = 5, rect_width = 1, rect_height = 2\<rparr>"

lemma sample_frame_ok: "frame_ok sample_frame"
  by (simp add: frame_ok_def sample_frame_def)

lemma sample_selects: "selects sample_frame sample_selection"
  by (simp add: selects_def covers_source_def sample_frame_def sample_metadata_def
      sample_selection_def rect_within_def edge_defs)

lemma sample_cropped:
  "pixels (cropped sample_frame sample_selection) = [5, 6, 7, 8, 15, 16, 17, 18]"
  by (simp add: cropped_def cropped_row_def local_x_def local_y_def sample_frame_def
      sample_metadata_def sample_selection_def edge_defs upt_rec)

lemma crop_spec_witness:
  "crop sample_frame sample_selection = Some (Inr (cropped sample_frame sample_selection)) \<and>
   pixels (cropped sample_frame sample_selection) = [5, 6, 7, 8, 15, 16, 17, 18]"
  using crop_spec [OF sample_frame_ok, of sample_selection] sample_selects sample_cropped
  by (simp add: selects_def)

text \<open>C4: a crop is a valid frame of the selection and shows the same picture: at every desktop
  point of the selection it holds the bytes the captured frame holds there.\<close>

theorem crop_keeps_picture:
  assumes "frame_ok f" and "crop f r = Some (Inr g)"
  shows "frame_ok g \<and> source_rect (metadata g) = r \<and> alpha g = alpha f \<and>
    (\<forall>x y. contains r x y \<longrightarrow> desktop_pixel g (sint x) (sint y) = desktop_pixel f (sint x) (sint y))"
proof -
  from assms have sel: "selects f r" and g: "g = cropped f r" by (simp_all add: crop_eq_Inr)
  have "desktop_pixel g (sint x) (sint y) = desktop_pixel f (sint x) (sint y)"
    if c: "contains r x y" for x y
  proof -
    let ?x = "nat (sint x - rect_left r)" and ?y = "nat (sint y - rect_top r)"
    have nonneg: "0 \<le> sint x - rect_left r" "0 \<le> sint y - rect_top r"
      using c by (simp_all add: contains_def)
    have "sint x - rect_left r < uint (rect_width r)" "sint y - rect_top r < uint (rect_height r)"
      using c by (simp_all add: contains_def rect_width_edges rect_height_edges)
    then have lt: "?x < unat (rect_width r)" "?y < unat (rect_height r)"
      using nonneg by (simp_all only: unat_eq_nat_uint zless_nat_conj) auto
    have "local_x f r + ?x = nat (sint x - rect_left (source_rect (metadata f)))"
      "local_y f r + ?y = nat (sint y - rect_top (source_rect (metadata f)))"
      using selects_bounds(3,4) [OF assms(1) sel] nonneg by linarith+
    with pixel_cropped [OF assms(1) sel lt] show ?thesis
      by (simp add: desktop_pixel_def g) (simp add: cropped_def)
  qed
  with cropped_ok [OF assms(1) sel] g show ?thesis by (auto simp: cropped_def)
qed

lemma crop_keeps_picture_witness:
  "frame_ok (cropped sample_frame sample_selection) \<and>
   desktop_pixel (cropped sample_frame sample_selection) 0 6 = [15, 16, 17, 18]"
proof -
  have c: "crop sample_frame sample_selection = Some (Inr (cropped sample_frame sample_selection))"
    by (simp add: crop_inside sample_frame_ok sample_selects)
  have "contains sample_selection 0 6"
    by (simp add: contains_def sample_selection_def edge_defs)
  then have "desktop_pixel (cropped sample_frame sample_selection) (sint (0 :: i32)) (sint (6 :: i32)) =
      desktop_pixel sample_frame (sint (0 :: i32)) (sint (6 :: i32))"
    using crop_keeps_picture [OF sample_frame_ok c] by blast
  also have "\<dots> = [15, 16, 17, 18]"
    by (simp add: desktop_pixel_def pixel_def sample_frame_def sample_metadata_def edge_defs)
  finally show ?thesis using crop_keeps_picture [OF sample_frame_ok c] by simp
qed

text \<open>C5: cropping in two steps is cropping once: the frame of the second selection is the same,
  down to its bytes, but for the number of copies its metadata counts.\<close>

theorem crop_crop:
  assumes ok: "frame_ok f" and "crop f a = Some (Inr g)" and "crop g b = Some (Inr h)"
  shows "\<exists>k. crop f b = Some (Inr k) \<and> h = k\<lparr>metadata := metadata h\<rparr> \<and>
    metadata h = (metadata k)\<lparr>copy_count := copy_count (metadata h)\<rparr>"
proof -
  from assms have a: "selects f a" and g: "g = cropped f a" by (simp_all add: crop_eq_Inr)
  note gok = cropped_ok [OF ok a]
  from assms have b: "selects (cropped f a) b" and h: "h = cropped (cropped f a) b"
    by (simp_all add: crop_eq_Inr gok g)
  have fb: "selects f b"
    using a b by (auto simp: selects_def covers_source_def cropped_def intro: rect_within_trans)
  have same_bpp: "frame_bpp (cropped f a) = frame_bpp f" by (simp add: cropped_def)
  have sum: "local_x f a + local_x (cropped f a) b = local_x f b"
    "local_y f a + local_y (cropped f a) b = local_y f b"
    using selects_bounds(3,4) [OF ok a] selects_bounds(3,4) [OF gok b] selects_bounds(3,4) [OF ok fb]
    by (simp_all add: cropped_def)
  have "cropped_row (cropped f a) b row = cropped_row f b row" if row: "row < unat (rect_height b)" for row
  proof -
    let ?y = "local_y (cropped f a) b + row" and ?c = "local_x (cropped f a) b * frame_bpp f"
    have y: "?y < unat (rect_height a)"
      using selects_bounds(2) [OF gok b] row by (simp add: cropped_def)
    have "?c + unat (rect_width b) * frame_bpp f \<le> unat (rect_width a) * frame_bpp f"
      using selects_bounds(1) [OF gok b] unfolding add_mult_distrib [symmetric]
      by (intro mult_le_mono1) (simp add: cropped_def)
    from cropped_span [OF ok a y this] show ?thesis
      by (simp add: cropped_row_def same_bpp flip: sum) (simp add: algebra_simps)
  qed
  then have "map (cropped_row (cropped f a) b) [0..<unat (rect_height b)] =
      map (cropped_row f b) [0..<unat (rect_height b)]"
    by (intro map_cong) simp_all
  then have "pixels (cropped (cropped f a) b) = pixels (cropped f b)"
    by (simp only: pixels_cropped)
  then have "h = (cropped f b)\<lparr>metadata := metadata h\<rparr> \<and>
      metadata h = (metadata (cropped f b))\<lparr>copy_count := copy_count (metadata h)\<rparr>"
    by (simp add: h cropped_def)
  with crop_inside [OF ok fb] show ?thesis by blast
qed

lemma crop_crop_witness:
  "\<exists>g h k. crop sample_frame (source_rect (metadata sample_frame)) = Some (Inr g) \<and>
     crop g sample_selection = Some (Inr h) \<and> crop sample_frame sample_selection = Some (Inr k) \<and>
     pixels h = pixels k"
proof -
  let ?a = "source_rect (metadata sample_frame)"
  have a: "selects sample_frame ?a"
    by (simp add: selects_def covers_source_def sample_frame_def sample_metadata_def)
  note g = crop_inside [OF sample_frame_ok a]
  have "selects (cropped sample_frame ?a) sample_selection"
    using sample_selects by (simp add: selects_def covers_source_def cropped_def)
  note h = crop_inside [OF cropped_ok [OF sample_frame_ok a] this]
  from crop_crop [OF sample_frame_ok g h] g h show ?thesis
    by (metis cpu_frame.select_convs(1) cpu_frame.surjective cpu_frame.update_convs(9))
qed

end
