(* ===== verification/Timeline.thy ===== *)
theory Timeline
  imports Prelude
begin

section \<open>The timeline of a recording, and what a review keeps of it\<close>

text \<open>
  \<open>Timeline\<close>, \<open>PixelRect\<close>, \<open>RecordingEdit\<close> and \<open>KeptFrame\<close> of
  \<open>crates/captastic-core/src/playback.rs\<close>. A \<open>PlaybackError\<close> is its message. \<open>starts[index]\<close>
  panics out of range, which is \<open>None\<close>; \<open>timeline_ok\<close> is what \<open>Timeline::new\<close> establishes, and
  with it no operation panics.
\<close>

record timeline =
  starts :: "duration list"
  tl_duration :: duration

definition timeline_new :: "duration list \<Rightarrow> duration \<Rightarrow> ustring + timeline" where
  "timeline_new ss d =
     (if (case ss of [] \<Rightarrow> True | s # _ \<Rightarrow> s \<noteq> 0)
        then Inl (ustr ''a recording's first frame must start at zero'')
      else if any_not_rising ss then Inl (ustr ''a recording's frames must start in order'')
      else if ss \<noteq> [] \<and> d \<le> last ss
        then Inl (ustr ''a recording must end after its last frame starts'')
      else Inr \<lparr>starts = ss, tl_duration = d\<rparr>)"

definition tl_len :: "timeline \<Rightarrow> nat" where
  "tl_len t = length (starts t)"

definition tl_is_empty :: "timeline \<Rightarrow> bool" where
  "tl_is_empty t \<longleftrightarrow> starts t = []"

definition tl_start :: "timeline \<Rightarrow> nat \<Rightarrow> duration option" where
  "tl_start t i = get (starts t) i"

definition tl_end :: "timeline \<Rightarrow> nat \<Rightarrow> duration" where
  "tl_end t i = (case get (starts t) (i + 1) of None \<Rightarrow> tl_duration t | Some s \<Rightarrow> s)"

definition index_at :: "timeline \<Rightarrow> duration \<Rightarrow> nat" where
  "index_at t at = max (partition_point (\<lambda>s. s \<le> at) (starts t)) 1 - 1"

definition previous_change :: "timeline \<Rightarrow> duration \<Rightarrow> duration option" where
  "previous_change t at =
     (let index = index_at t at in
      Option.bind (get (starts t) index) (\<lambda>s.
        if s < at then Some s else get (starts t) (index - 1)))"

definition next_change :: "timeline \<Rightarrow> duration \<Rightarrow> duration" where
  "next_change t at =
     max (case get (starts t) (index_at t at + 1) of None \<Rightarrow> tl_duration t | Some s \<Rightarrow> s)
       (min at (tl_duration t))"

record pixel_rect =
  px_x :: u32
  px_y :: u32
  px_width :: u32
  px_height :: u32

record recording_edit =
  edit_start :: duration
  edit_end :: duration
  edit_crop :: "pixel_rect option"

record kept_frame =
  kept_index :: nat
  kept_at :: duration

definition edit_none :: "duration \<Rightarrow> recording_edit" where
  "edit_none d = \<lparr>edit_start = 0, edit_end = d, edit_crop = None\<rparr>"

definition changes_nothing :: "recording_edit \<Rightarrow> timeline \<Rightarrow> u32 \<times> u32 \<Rightarrow> bool" where
  "changes_nothing e t dims \<longleftrightarrow>
     (let whole_crop = (case edit_crop e of None \<Rightarrow> True
        | Some c \<Rightarrow> c = \<lparr>px_x = 0, px_y = 0, px_width = fst dims, px_height = snd dims\<rparr>)
      in edit_start e = 0 \<and> tl_duration t \<le> edit_end e \<and> whole_crop)"

text \<open>\<open>saturating_sub\<close>.\<close>

definition edit_length :: "recording_edit \<Rightarrow> duration" where
  "edit_length e = edit_end e - edit_start e"

text \<open>\<open>start(index)\<close> is in range for every index the iteration visits.\<close>

definition kept_frames :: "recording_edit \<Rightarrow> timeline \<Rightarrow> kept_frame list" where
  "kept_frames e t =
     (if edit_end e \<le> edit_start e \<or> tl_is_empty t then []
      else map (\<lambda>i. \<lparr>kept_index = i, kept_at = max (starts t ! i) (edit_start e) - edit_start e\<rparr>)
        (takeWhile (\<lambda>i. starts t ! i < edit_end e) [index_at t (edit_start e)..<tl_len t]))"

definition output_size :: "recording_edit \<Rightarrow> u32 \<times> u32 \<Rightarrow> u32 \<times> u32" where
  "output_size e dims = (case edit_crop e of None \<Rightarrow> dims | Some c \<Rightarrow> (px_width c, px_height c))"

text \<open>The row slices of \<open>crop_pixels\<close>; \<open>None\<close> is the panic of a slice out of range.\<close>

fun slice_rows :: "bytes \<Rightarrow> nat \<Rightarrow> nat \<Rightarrow> nat \<Rightarrow> nat list \<Rightarrow> bytes option" where
  "slice_rows px row_bytes offset n [] = Some []"
| "slice_rows px row_bytes offset n (y # ys) =
     (case slice (y * row_bytes + offset) (y * row_bytes + offset + n) px of
        None \<Rightarrow> None
      | Some row \<Rightarrow> map_option ((@) row) (slice_rows px row_bytes offset n ys))"

text \<open>\<open>crop.y..crop.y + crop.height\<close> is a range of \<open>u32\<close>, whose end wraps in the release profile.\<close>

definition crop_pixels :: "recording_edit \<Rightarrow> bytes \<Rightarrow> u32 \<Rightarrow> bytes option" where
  "crop_pixels e px w =
     (case edit_crop e of
        None \<Rightarrow> Some px
      | Some c \<Rightarrow> slice_rows px (unat w * 4) (unat (px_x c) * 4) (unat (px_width c) * 4)
          [unat (px_y c)..<unat (px_y c + px_height c)])"

subsection \<open>Which frame is on screen\<close>

definition timeline_ok :: "timeline \<Rightarrow> bool" where
  "timeline_ok t \<longleftrightarrow> starts t \<noteq> [] \<and> starts t ! 0 = 0 \<and> sorted_wrt (<) (starts t) \<and>
     last (starts t) < tl_duration t"

lemma timeline_new_Inr:
  "timeline_new ss d = Inr t \<longleftrightarrow> t = \<lparr>starts = ss, tl_duration = d\<rparr> \<and> timeline_ok t"
  by (cases ss)
    (auto simp: timeline_new_def timeline_ok_def any_not_rising_iff not_le intro: gr0I)

lemma timeline_ok_nonempty: "timeline_ok t \<Longrightarrow> 0 < length (starts t)"
  by (simp add: timeline_ok_def)

lemma timeline_mono:
  assumes "timeline_ok t" "i \<le> j" "j < length (starts t)"
  shows "starts t ! i \<le> starts t ! j"
  using assms by (intro sorted_wrt_less_nth_mono) (simp_all add: timeline_ok_def)

lemma timeline_strict:
  assumes "timeline_ok t" "i < j" "j < length (starts t)"
  shows "starts t ! i < starts t ! j"
  using assms by (auto simp: timeline_ok_def dest: sorted_wrt_nth_less)

text \<open>The meaning of \<open>index_at\<close>: the frame that has started and whose successor has not.\<close>

definition shown_at :: "timeline \<Rightarrow> duration \<Rightarrow> nat \<Rightarrow> bool" where
  "shown_at t at i \<longleftrightarrow> i < length (starts t) \<and> starts t ! i \<le> at \<and>
     (i + 1 < length (starts t) \<longrightarrow> at < starts t ! (i + 1))"

lemma shown_at_unique:
  assumes "timeline_ok t" "shown_at t at i" "shown_at t at j"
  shows "i = j"
proof (rule ccontr)
  assume "i \<noteq> j"
  moreover have False if "shown_at t at a" "shown_at t at b" "a < b" for a b
    using that timeline_mono [OF assms(1), of "a + 1" b] by (auto simp: shown_at_def)
  ultimately show False using assms(2,3) by (cases i j rule: linorder_cases) auto
qed

lemma index_at_shown:
  assumes "timeline_ok t"
  shows "shown_at t at (index_at t at)"
proof -
  let ?k = "partition_point (\<lambda>s. s \<le> at) (starts t)"
  have "?k \<noteq> 0"
  proof
    assume "?k = 0"
    then show False
      using partition_point_at [of "\<lambda>s. s \<le> at" "starts t"] assms
      by (simp add: timeline_ok_def)
  qed
  then have k: "index_at t at = ?k - 1" "0 < ?k" by (simp_all add: index_at_def)
  have "starts t ! (?k - 1) \<le> at"
    using partition_point_before [of "?k - 1" "\<lambda>s. s \<le> at"] k by simp
  moreover have "?k < length (starts t) \<longrightarrow> at < starts t ! ?k"
    using partition_point_at [of "\<lambda>s. s \<le> at" "starts t"] by (auto simp: not_le)
  ultimately show ?thesis
    using k partition_point_le [of "\<lambda>s. s \<le> at" "starts t"] by (auto simp: shown_at_def)
qed

lemma index_at_eq_iff: "timeline_ok t \<Longrightarrow> index_at t at = i \<longleftrightarrow> shown_at t at i"
  using index_at_shown shown_at_unique by blast

lemma index_at_less: "timeline_ok t \<Longrightarrow> index_at t at < length (starts t)"
  using index_at_shown by (auto simp: shown_at_def)

lemma index_at_mono:
  assumes "timeline_ok t" "a \<le> b"
  shows "index_at t a \<le> index_at t b"
proof (rule ccontr)
  assume "\<not> ?thesis"
  then have "index_at t b + 1 \<le> index_at t a" by simp
  then have "starts t ! (index_at t b + 1) \<le> starts t ! index_at t a"
    using index_at_less [OF assms(1)] by (intro timeline_mono assms(1))
  with index_at_shown [OF assms(1), of a] index_at_shown [OF assms(1), of b] assms(2)
    \<open>index_at t b + 1 \<le> index_at t a\<close> show False
    by (auto simp: shown_at_def)
qed

subsection \<open>Stepping from change to change\<close>

lemma starts_before:
  assumes "timeline_ok t" "s \<in> set (starts t)" "s \<le> at"
  shows "s \<le> starts t ! index_at t at"
proof -
  obtain i where i: "i < length (starts t)" "starts t ! i = s"
    using assms(2) by (auto simp: in_set_conv_nth)
  have "i \<le> index_at t at"
  proof (rule ccontr)
    assume "\<not> ?thesis"
    then have "starts t ! (index_at t at + 1) \<le> s"
      using timeline_mono [OF assms(1), of "index_at t at + 1" i] i by simp
    moreover have "at < starts t ! (index_at t at + 1)"
      using index_at_shown [OF assms(1), of at] i \<open>\<not> i \<le> index_at t at\<close>
      by (auto simp: shown_at_def)
    ultimately show False using assms(3) by simp
  qed
  then show ?thesis
    using timeline_mono [OF assms(1)] index_at_less [OF assms(1)] i by blast
qed

lemma starts_after:
  assumes "timeline_ok t" "s \<in> set (starts t)" "at < s"
  shows "index_at t at + 1 < length (starts t) \<and> starts t ! (index_at t at + 1) \<le> s"
proof -
  obtain i where i: "i < length (starts t)" "starts t ! i = s"
    using assms(2) by (auto simp: in_set_conv_nth)
  have "index_at t at < i"
  proof (rule ccontr)
    assume "\<not> ?thesis"
    then have "s \<le> starts t ! index_at t at"
      using timeline_mono [OF assms(1), of i "index_at t at"] index_at_less [OF assms(1)] i by simp
    with index_at_shown [OF assms(1), of at] assms(3) show False by (auto simp: shown_at_def)
  qed
  then show ?thesis
    using timeline_mono [OF assms(1), of "index_at t at + 1" i] i by simp
qed

lemma start_index_le: "timeline_ok t \<Longrightarrow> starts t ! index_at t at \<le> at"
  using index_at_shown [of t at] by (simp add: shown_at_def)

lemma previous_change_value:
  assumes "timeline_ok t" "0 < at"
  shows "previous_change t at = Some (Max {s \<in> set (starts t). s < at})"
proof -
  define i where "i = index_at t at"
  have i: "i < length (starts t)" "starts t ! i \<le> at"
    using index_at_less [OF assms(1)] start_index_le [OF assms(1)] by (simp_all add: i_def)
  have below: "s \<le> starts t ! i" if "s \<in> set (starts t)" "s < at" for s
    using starts_before [OF assms(1), of s at] that by (simp add: i_def)
  show ?thesis
  proof (cases "starts t ! i < at")
    case True
    have "Max {s \<in> set (starts t). s < at} = starts t ! i"
      using True i below by (intro Max_eqI) auto
    with True i show ?thesis by (simp add: previous_change_def get_def i_def [symmetric])
  next
    case False
    with i have at: "starts t ! i = at" by simp
    with assms have "0 < i" by (cases i) (auto simp: timeline_ok_def)
    have less: "starts t ! (i - 1) < at"
      using timeline_strict [OF assms(1), of "i - 1" i] i at \<open>0 < i\<close> by simp
    have top: "s \<le> starts t ! (i - 1)" if s: "s \<in> set (starts t)" "s < at" for s
    proof -
      obtain j where j: "j < length (starts t)" "starts t ! j = s"
        using s(1) by (auto simp: in_set_conv_nth)
      have "j < i"
        using timeline_mono [OF assms(1), of i j] j at s(2) by (cases "j < i") auto
      then show ?thesis
        using timeline_mono [OF assms(1), of j "i - 1"] i j by simp
    qed
    have "Max {s \<in> set (starts t). s < at} = starts t ! (i - 1)"
      using less top i by (intro Max_eqI) auto
    with False i show ?thesis by (simp add: previous_change_def get_def i_def [symmetric])
  qed
qed

lemma next_change_value:
  assumes "timeline_ok t"
  shows "next_change t at =
    (if \<exists>s\<in>set (starts t). at < s then Min {s \<in> set (starts t). at < s} else tl_duration t)"
proof (cases "\<exists>s\<in>set (starts t). at < s")
  case True
  define j where "j = index_at t at + 1"
  have j: "j < length (starts t)" "at < starts t ! j"
    using True starts_after [OF assms, of _ at] index_at_shown [OF assms, of at]
    by (auto simp: j_def shown_at_def)
  have "Min {s \<in> set (starts t). at < s} = starts t ! j"
    using j starts_after [OF assms, of _ at] by (intro Min_eqI) (auto simp: j_def)
  with True j show ?thesis
    by (simp add: next_change_def get_def j_def)
next
  case False
  then have "\<not> index_at t at + 1 < length (starts t)"
    using index_at_shown [OF assms, of at] by (auto simp: shown_at_def)
  with False show ?thesis by (simp add: next_change_def get_def)
qed

text \<open>stepping through a recording in review visits every change and nothing else. From any
  time after the start, one step back goes to the latest frame start before it, without panicking;
  one step forward goes to the earliest frame start after it, and to the recording's end when
  there is none. At the start a step back stays.\<close>

theorem change_stepping:
  assumes "timeline_ok t"
  shows "previous_change t at =
      Some (if at = 0 then 0 else Max {s \<in> set (starts t). s < at}) \<and>
    next_change t at =
      (if \<exists>s\<in>set (starts t). at < s then Min {s \<in> set (starts t). at < s} else tl_duration t)"
proof
  have "index_at t 0 = 0"
    using assms timeline_strict [OF assms, of 0 1]
    by (auto simp: index_at_eq_iff shown_at_def timeline_ok_def)
  then have "previous_change t 0 = Some 0"
    using assms by (simp add: previous_change_def get_def timeline_ok_def)
  then show "previous_change t at =
      Some (if at = 0 then 0 else Max {s \<in> set (starts t). s < at})"
    using previous_change_value [OF assms, of at] by (cases "at = 0") simp_all
next
  show "next_change t at =
      (if \<exists>s\<in>set (starts t). at < s then Min {s \<in> set (starts t). at < s} else tl_duration t)"
    by (rule next_change_value [OF assms])
qed

definition sample_timeline :: timeline where
  "sample_timeline = \<lparr>starts = [0, 100, 250], tl_duration = 400\<rparr>"

lemma sample_timeline_ok: "timeline_ok sample_timeline"
  by (simp add: timeline_ok_def sample_timeline_def)

lemma change_stepping_witness:
  "previous_change sample_timeline 250 = Some (Max {s \<in> set (starts sample_timeline). s < 250}) \<and>
   previous_change sample_timeline 250 = Some 100 \<and> next_change sample_timeline 100 = 250 \<and>
   next_change sample_timeline 300 = 400"
  using change_stepping [OF sample_timeline_ok, of 250]
  by (simp add: previous_change_def next_change_def index_at_def partition_point_def get_def
      sample_timeline_def)

subsection \<open>Trimming\<close>

lemma takeWhile_upt:
  "\<exists>m. takeWhile P [a..<b] = [a..<m] \<and> a \<le> m \<and> m \<le> max a b \<and> (\<forall>i. a \<le> i \<and> i < m \<longrightarrow> P i) \<and>
    (m < b \<longrightarrow> \<not> P m)"
proof (induction "b - a" arbitrary: a)
  case 0
  then show ?case by (intro exI [of _ a]) auto
next
  case (Suc n)
  then have "a < b" by simp
  show ?case
  proof (cases "P a")
    case True
    have "n = b - Suc a" using Suc.hyps(2) by simp
    from Suc.hyps(1) [OF this]
    obtain m where m: "takeWhile P [Suc a..<b] = [Suc a..<m]" "Suc a \<le> m" "m \<le> max (Suc a) b"
      "\<forall>i. Suc a \<le> i \<and> i < m \<longrightarrow> P i" "m < b \<longrightarrow> \<not> P m"
      by blast
    have "takeWhile P [a..<b] = [a..<m]"
      using True \<open>a < b\<close> m(1,2) by (simp add: upt_conv_Cons)
    moreover have "\<forall>i. a \<le> i \<and> i < m \<longrightarrow> P i"
      using True m(4) by (metis Suc_leI le_neq_implies_less)
    ultimately show ?thesis using m \<open>a < b\<close> by (intro exI [of _ m]) auto
  next
    case False
    with \<open>a < b\<close> show ?thesis by (intro exI [of _ a]) (auto simp: upt_conv_Cons)
  qed
qed

text \<open>The frames kept are a run of consecutive ones: the frame showing at the start of the span,
  up to the first that starts at or after its end.\<close>

lemma kept_frames_run:
  assumes "timeline_ok t" "edit_start e < edit_end e"
  obtains m where "kept_frames e t =
      map (\<lambda>i. \<lparr>kept_index = i, kept_at = max (starts t ! i) (edit_start e) - edit_start e\<rparr>)
        [index_at t (edit_start e)..<m]"
    and "index_at t (edit_start e) < m" and "m \<le> length (starts t)"
    and "\<And>i. i < m \<Longrightarrow> starts t ! i < edit_end e"
    and "m < length (starts t) \<Longrightarrow> edit_end e \<le> starts t ! m"
proof -
  let ?P = "\<lambda>i. starts t ! i < edit_end e" and ?f = "index_at t (edit_start e)"
  obtain m where m: "takeWhile ?P [?f..<tl_len t] = [?f..<m]" "?f \<le> m" "m \<le> max ?f (tl_len t)"
      "\<forall>i. ?f \<le> i \<and> i < m \<longrightarrow> ?P i" "m < tl_len t \<longrightarrow> \<not> ?P m"
    using takeWhile_upt [of ?P ?f "tl_len t"] by blast
  have f: "?f < length (starts t)" "starts t ! ?f \<le> edit_start e"
    using index_at_less [OF assms(1)] start_index_le [OF assms(1)] by simp_all
  have "?f < m"
  proof (rule ccontr)
    assume "\<not> ?f < m"
    then show False using m(2,5) f assms(2) by (simp add: tl_len_def)
  qed
  moreover have "starts t ! i < edit_end e" if "i < m" for i
  proof (cases "?f \<le> i")
    case False
    then have "starts t ! i \<le> starts t ! ?f"
      using timeline_mono [OF assms(1)] f by simp
    with f assms(2) show ?thesis by simp
  qed (use that m(4) in blast)
  moreover have "kept_frames e t =
      map (\<lambda>i. \<lparr>kept_index = i, kept_at = max (starts t ! i) (edit_start e) - edit_start e\<rparr>) [?f..<m]"
    using assms m(1) by (simp add: kept_frames_def tl_is_empty_def timeline_ok_def)
  ultimately show ?thesis
    using that [of m] m(3,5) f by (auto simp: tl_len_def not_less)
qed

text \<open>C14: a trim plays what it kept. For any span that is not empty, the frames an edit keeps, at
  the times it gives them, are a valid timeline for a recording as long as the span; and at every
  moment of it the picture on screen is the one the source shows that much after the start of the
  span, even when the span begins partway through a frame or ends past the recording.\<close>

theorem kept_frames_play:
  assumes "timeline_ok t" and "edit_start e < edit_end e"
  shows "\<exists>t'. timeline_new (map kept_at (kept_frames e t)) (edit_length e) = Inr t' \<and>
    (\<forall>at < edit_length e. index_at t' at < length (kept_frames e t) \<and>
      kept_index (kept_frames e t ! index_at t' at) = index_at t (edit_start e + at))"
proof -
  let ?s = "edit_start e" and ?f = "index_at t (edit_start e)" and ?k = "kept_frames e t"
  obtain m where k: "?k = map (\<lambda>i. \<lparr>kept_index = i, kept_at = max (starts t ! i) ?s - ?s\<rparr>) [?f..<m]"
    and m: "?f < m" "m \<le> length (starts t)" "\<And>i. i < m \<Longrightarrow> starts t ! i < edit_end e"
      "m < length (starts t) \<Longrightarrow> edit_end e \<le> starts t ! m"
    by (rule kept_frames_run [OF assms]) blast
  have f: "starts t ! ?f \<le> ?s" "\<And>i. ?f < i \<Longrightarrow> i < length (starts t) \<Longrightarrow> ?s < starts t ! i"
  proof -
    show "starts t ! ?f \<le> ?s" by (rule start_index_le [OF assms(1)])
    show "?s < starts t ! i" if i: "?f < i" "i < length (starts t)" for i
      using starts_before [OF assms(1), of "starts t ! i" ?s] timeline_strict [OF assms(1) i] i(2)
      by (cases "starts t ! i \<le> ?s") auto
  qed
  define t' where "t' = \<lparr>starts = map kept_at ?k, tl_duration = edit_length e\<rparr>"
  have len: "length ?k = m - ?f" using k by simp
  have at_0: "starts t' ! 0 = 0" using k m(1) f(1) by (simp add: t'_def)
  have at_i: "starts t' ! i = starts t ! (?f + i) - ?s" if "i < m - ?f" "0 < i" for i
    using that k f(2) [of "?f + i"] m(2) by (simp add: t'_def)
  have rise: "starts t' ! i < starts t' ! j" if "i < j" "j < m - ?f" for i j
  proof (cases "i = 0")
    case True
    then show ?thesis using that at_0 at_i [of j] f(2) [of "?f + j"] m(2) by simp
  next
    case False
    then have "?s < starts t ! (?f + i)" "starts t ! (?f + i) < starts t ! (?f + j)"
      using that m(2) by (auto intro!: f(2) timeline_strict [OF assms(1)])
    then show ?thesis
      using that at_i [of j] at_i [of i] False by simp
  qed
  have ends: "last (starts t') < edit_length e"
  proof -
    have "last (starts t') = starts t' ! (m - ?f - 1)"
      using len m(1) by (subst last_conv_nth) (auto simp: t'_def)
    moreover have "starts t' ! (m - ?f - 1) < edit_length e"
      using at_0 at_i [of "m - ?f - 1"] m(1) m(3) [of "m - 1"] assms(2) f(2) [of "m - 1"] m(2)
      by (cases "m - ?f - 1 = 0") (simp_all add: edit_length_def less_diff_conv)
    ultimately show ?thesis by simp
  qed
  have ok: "timeline_ok t'"
    using at_0 ends len m(1) rise
    by (auto simp: timeline_ok_def sorted_wrt_iff_nth_less t'_def simp del: length_0_conv)
  have "index_at t' at < length ?k \<and> kept_index (?k ! index_at t' at) = index_at t (?s + at)"
    if "at < edit_length e" for at
  proof -
    define i where "i = index_at t' at"
    have i: "i < m - ?f" "starts t' ! i \<le> at" "i + 1 < m - ?f \<Longrightarrow> at < starts t' ! (i + 1)"
      using index_at_shown [OF ok, of at] len by (auto simp: shown_at_def i_def t'_def)
    have "starts t ! (?f + i) \<le> ?s + at"
      using i f at_i [of i] by (cases "i = 0") (simp_all add: le_diff_conv2)
    moreover have "?s + at < starts t ! (?f + i + 1)" if "?f + i + 1 < length (starts t)"
    proof (cases "i + 1 < m - ?f")
      case True
      then show ?thesis using i(3) at_i [of "i + 1"] by simp
    next
      case False
      then have "m = ?f + i + 1" using i(1) by simp
      then show ?thesis
        using m(4) that \<open>at < edit_length e\<close> by (simp add: edit_length_def)
    qed
    ultimately have "shown_at t (?s + at) (?f + i)"
      using i(1) m(2) by (simp add: shown_at_def)
    then have "index_at t (?s + at) = ?f + i"
      using index_at_eq_iff [OF assms(1)] by blast
    then show ?thesis using i(1) len k by (simp add: i_def)
  qed
  moreover have "timeline_new (map kept_at ?k) (edit_length e) = Inr t'"
    using ok by (simp add: timeline_new_Inr t'_def)
  ultimately show ?thesis by blast
qed

definition sample_edit :: recording_edit where
  "sample_edit = \<lparr>edit_start = 150, edit_end = 300,
     edit_crop = Some \<lparr>px_x = 1, px_y = 0, px_width = 1, px_height = 2\<rparr>\<rparr>"

lemma kept_frames_play_witness:
  "(\<exists>t'. timeline_new (map kept_at (kept_frames sample_edit sample_timeline))
      (edit_length sample_edit) = Inr t' \<and>
    (\<forall>at < edit_length sample_edit.
      index_at t' at < length (kept_frames sample_edit sample_timeline) \<and>
      kept_index (kept_frames sample_edit sample_timeline ! index_at t' at) =
        index_at sample_timeline (150 + at))) \<and>
   map kept_at (kept_frames sample_edit sample_timeline) = [0, 100]"
  using kept_frames_play [OF sample_timeline_ok, of sample_edit]
  by (simp add: sample_edit_def sample_timeline_def kept_frames_def index_at_def
      partition_point_def tl_is_empty_def tl_len_def numeral_3_eq_3 upt_rec)

subsection \<open>Cropping pixels\<close>

lemma slice_rows_eq:
  assumes "\<And>y. y \<in> set ys \<Longrightarrow> y * r + off + n \<le> length px"
  shows "slice_rows px r off n ys = Some (concat (map (\<lambda>y. take n (drop (y * r + off) px)) ys))"
  using assms by (induction ys) (simp_all add: slice_def)

definition crop_fits :: "pixel_rect \<Rightarrow> u32 \<Rightarrow> u32 \<Rightarrow> bool" where
  "crop_fits c w h \<longleftrightarrow> unat (px_x c) + unat (px_width c) \<le> unat w \<and>
     unat (px_y c) + unat (px_height c) \<le> unat h"

lemma take_drop_concat_rows:
  assumes "\<And>r. r < h \<Longrightarrow> length (f r) = n" and "r < h" and "c + k \<le> n"
  shows "take k (drop (r * n + c) (concat (map f [0..<h]))) = take k (drop c (f r))"
proof (rule nth_equalityI)
  have len: "length (concat (map f [0..<h])) = h * n"
    using assms(1) by (subst length_concat_rows [where n = n]) auto
  have "r * n + n \<le> h * n"
    using mult_le_mono1 [of "Suc r" h n] assms(2) by simp
  then have bound: "r * n + c + k \<le> h * n" using assms(3) by simp
  show "length (take k (drop (r * n + c) (concat (map f [0..<h])))) = length (take k (drop c (f r)))"
    using bound len assms by simp
  fix i assume "i < length (take k (drop (r * n + c) (concat (map f [0..<h]))))"
  then have "i < k" by simp
  then show "take k (drop (r * n + c) (concat (map f [0..<h]))) ! i = take k (drop c (f r)) ! i"
    using bound len assms nth_concat_rows [of h f n r "c + i"] by (simp add: add.assoc)
qed

lemma crop_pixels_window:
  assumes "length px = unat w * unat h * 4" and "edit_crop e = Some c" and "crop_fits c w h"
  shows "\<exists>out. crop_pixels e px w = Some out \<and>
    length out = unat (fst (output_size e (w, h))) * unat (snd (output_size e (w, h))) * 4 \<and>
    (\<forall>x < unat (px_width c). \<forall>y < unat (px_height c).
      bgra_at (unat (px_width c)) out x y =
      bgra_at (unat w) px (unat (px_x c) + x) (unat (px_y c) + y))"
proof -
  let ?W = "unat w" and ?x = "unat (px_x c)" and ?y = "unat (px_y c)"
  let ?w = "unat (px_width c)" and ?h = "unat (px_height c)"
  have fit: "?x + ?w \<le> ?W" "?y + ?h \<le> unat h"
    using assms(3) by (simp_all add: crop_fits_def)
  have "?y + ?h < 2 ^ 32" using fit(2) unat_u32_le [of h] by simp
  then have y_end: "unat (px_y c + px_height c) = ?y + ?h"
    using unat_add_lem [of "px_y c" "px_height c"] by simp
  have row_end: "y * (?W * 4) + ?x * 4 + ?w * 4 \<le> length px" if "y < unat h" for y
  proof -
    have "y * (?W * 4) + ?x * 4 + ?w * 4 \<le> y * (?W * 4) + ?W * 4" using fit(1) by simp
    also have "\<dots> \<le> unat h * (?W * 4)"
      using mult_le_mono1 [of "Suc y" "unat h" "?W * 4"] that by simp
    finally show ?thesis using assms(1) by (simp add: ac_simps)
  qed
  define row where "row y = take (?w * 4) (drop ((?y + y) * (?W * 4) + ?x * 4) px)" for y
  let ?out = "concat (map row [0..<?h])"
  have "crop_pixels e px w = Some (concat (map (\<lambda>y. take (?w * 4) (drop (y * (?W * 4) + ?x * 4) px))
      [?y..<?y + ?h]))"
    unfolding crop_pixels_def assms(2) option.case y_end
    by (rule slice_rows_eq) (use row_end fit(2) in auto)
  also have "[?y..<?y + ?h] = map ((+) ?y) [0..<?h]"
    using map_add_upt [of ?y ?h] by (simp only: add.commute [of _ ?y])
  finally have out: "crop_pixels e px w = Some ?out"
    by (simp add: row_def [abs_def] comp_def)
  have len: "length (row y) = ?w * 4" if "y < ?h" for y
    using row_end [of "?y + y"] fit(2) that by (simp add: row_def)
  have "bgra_at ?w ?out x y = bgra_at ?W px (?x + x) (?y + y)" if "x < ?w" "y < ?h" for x y
  proof -
    have "bgra_at ?w ?out x y = take 4 (drop (x * 4) (row y))"
      using take_drop_concat_rows [of ?h row "?w * 4" y "x * 4" 4] len that
      by (simp add: bgra_at_def algebra_simps)
    also have "\<dots> = bgra_at ?W px (?x + x) (?y + y)"
      using that by (simp add: row_def bgra_at_def drop_take algebra_simps min_def)
    finally show ?thesis .
  qed
  moreover have "length ?out = ?w * ?h * 4"
    using len by (subst length_concat_rows [where n = "?w * 4"]) auto
  ultimately show ?thesis
    using out assms(2) by (simp add: output_size_def)
qed

text \<open>the pixels an edit keeps. For a crop inside the picture, no row slice panics and no
  \<open>u32\<close> sum wraps; the result is a picture of exactly the size \<open>output_size\<close> names, and its pixel
  \<open>(x, y)\<close> is the source's pixel \<open>(crop.x + x, crop.y + y)\<close>.\<close>

theorem crop_pixels_spec:
  assumes "length px = unat w * unat h * 4" and "edit_crop e = Some c" and "crop_fits c w h"
  shows "\<exists>out. crop_pixels e px w = Some out \<and>
    length out = unat (fst (output_size e (w, h))) * unat (snd (output_size e (w, h))) * 4 \<and>
    (\<forall>x < unat (px_width c). \<forall>y < unat (px_height c).
      bgra_at (unat (px_width c)) out x y =
      bgra_at (unat w) px (unat (px_x c) + x) (unat (px_y c) + y))"
  by (rule crop_pixels_window [OF assms])

lemma crop_pixels_spec_witness:
  "\<exists>out. crop_pixels sample_edit [0, 1, 2, 3, 4, 5, 6, 7, 8, 9, 10, 11, 12, 13, 14, 15] 2 = Some out \<and>
    length out = 8 \<and> bgra_at 1 out 0 1 = [12, 13, 14, 15]"
  using crop_pixels_spec [of "[0, 1, 2, 3, 4, 5, 6, 7, 8, 9, 10, 11, 12, 13, 14, 15]" 2 2 sample_edit
      "\<lparr>px_x = 1, px_y = 0, px_width = 1, px_height = 2\<rparr>"]
  by (auto simp: sample_edit_def crop_fits_def output_size_def bgra_at_def dest!: spec [of _ "1 :: nat"])

end
