(* ===== verification/GifPlayback.thy ===== *)
theory GifPlayback
  imports Timeline
begin

section \<open>Reading an animated GIF back\<close>

text \<open>
  \<open>GifReader\<close> of \<open>crates/captastic-core/src/playback.rs\<close>. The \<open>gif\<close> crate is a parameter:
  \<open>parse\<close> stands for \<open>read_info\<close> and the \<open>read_next_frame\<close> calls that follow (the list is what
  they return until the first \<open>None\<close>), \<open>decode palette frame\<close> for
  \<open>decode_lzw_encoded_frame_into_buffer\<close> with the file's global palette set, its result being the
  buffer it fills; the file is of a type \<open>'f\<close> only \<open>parse\<close> reads; the buffer itself (\<open>scratch\<close>) is rewritten by every call and not part of the
  state. What a stored frame holds besides the fields the reader uses is the type \<open>'d\<close>. Sides and
  offsets of a GIF are 16 bits wide, so the \<open>u32\<close> pixel indices cannot wrap
  (\<open>65534 * 65535 + 65534 < 2 ^ 32\<close>) and are \<open>nat\<close>; an outer \<open>None\<close> is a panic.
\<close>

datatype disposal_method = DisposeAny | DisposeKeep | DisposeBackground | DisposePrevious

record 'd gif_frame =
  gf_left :: u16
  gf_top :: u16
  gf_width :: u16
  gf_height :: u16
  gf_delay :: u16
  gf_dispose :: disposal_method
  gf_data :: 'd

record ('p, 'd) gif_file =
  file_width :: u16
  file_height :: u16
  file_palette :: "'p option"
  file_frames :: "(ustring + 'd gif_frame) list"

record ('p, 'd) gif_reader =
  gr_width :: u32
  gr_height :: u32
  gr_frames :: "'d gif_frame list"
  gr_timeline :: timeline
  gr_palette :: "'p option"
  gr_canvas :: bytes
  gr_canvas_index :: "nat option"
  gr_snapshots :: "bytes option list"
  gr_spacing :: nat

definition SNAPSHOT_BUDGET_BYTES :: nat where
  "SNAPSHOT_BUDGET_BYTES = 192 * 1024 * 1024"

definition MINIMUM_SNAPSHOT_SPACING :: nat where
  "MINIMUM_SNAPSHOT_SPACING = 8"

definition millis :: "nat \<Rightarrow> duration" where
  "millis n = n * 1000000"

definition div_ceil :: "nat \<Rightarrow> nat \<Rightarrow> nat" where
  "div_ceil a b = (a + b - 1) div b"

fun opaque_black :: "nat \<Rightarrow> bytes" where
  "opaque_black (Suc (Suc (Suc (Suc n)))) = 0 # 0 # 0 # 255 # opaque_black n"
| "opaque_black n = replicate n 0"

subsection \<open>\<open>GifReader::new\<close>\<close>

definition reading_error :: "ustring \<Rightarrow> ustring" where
  "reading_error e = ustr ''reading the GIF: '' @ e"

text \<open>The loop over \<open>read_next_frame\<close>: the frames, their starts and the total in centiseconds.\<close>

fun read_frames ::
  "(ustring + 'd gif_frame) list \<Rightarrow> nat \<Rightarrow> ustring + ('d gif_frame list \<times> duration list \<times> nat)" where
  "read_frames [] elapsed_cs = Inr ([], [], elapsed_cs)"
| "read_frames (Inl e # rs) elapsed_cs = Inl (reading_error e)"
| "read_frames (Inr f # rs) elapsed_cs =
     try_bind (read_frames rs (elapsed_cs + max (unat (gf_delay f)) 1))
       (\<lambda>(fs, ss, total). Inr (f # fs, millis (elapsed_cs * 10) # ss, total))"

definition gif_reader_new ::
  "('f \<Rightarrow> ustring + ('p, 'd) gif_file) \<Rightarrow> 'f \<Rightarrow> ustring + ('p, 'd) gif_reader" where
  "gif_reader_new parse bs =
     (case parse bs of
        Inl e \<Rightarrow> Inl (reading_error e)
      | Inr file \<Rightarrow>
        try_bind (read_frames (file_frames file) 0) (\<lambda>(fs, ss, elapsed_cs).
          if fs = [] \<or> file_width file = 0 \<or> file_height file = 0
          then Inl (ustr ''the GIF has no frames'')
          else try_bind (timeline_new ss (millis (elapsed_cs * 10))) (\<lambda>tl.
            let frame_bytes = unat (file_width file) * unat (file_height file) * 4;
                spacing = max (div_ceil (length fs * frame_bytes) SNAPSHOT_BUDGET_BYTES)
                  MINIMUM_SNAPSHOT_SPACING
            in Inr \<lparr>gr_width = ucast (file_width file), gr_height = ucast (file_height file),
                 gr_frames = fs, gr_timeline = tl, gr_palette = file_palette file,
                 gr_canvas = opaque_black frame_bytes, gr_canvas_index = None,
                 gr_snapshots = replicate (div_ceil (length fs) spacing) None,
                 gr_spacing = spacing\<rparr>)))"

subsection \<open>Drawing\<close>

definition fill_rect :: "nat \<Rightarrow> nat \<Rightarrow> 'd gif_frame \<Rightarrow> bytes \<Rightarrow> bytes option" where
  "fill_rect w h f canvas =
     (let right = min (unat (gf_left f) + unat (gf_width f)) w;
          bottom = min (unat (gf_top f) + unat (gf_height f)) h
      in fold_opt (\<lambda>y. fold_opt (\<lambda>x. put_bytes ((y * w + x) * 4) [0, 0, 0, 255])
           [unat (gf_left f)..<right]) [unat (gf_top f)..<bottom] canvas)"

text \<open>The body of the two loops of \<open>apply\<close>, whose \<open>break\<close>s end the ranges early.\<close>

definition draw_pixel :: "nat \<Rightarrow> 'd gif_frame \<Rightarrow> bytes \<Rightarrow> nat \<Rightarrow> nat \<Rightarrow> bytes \<Rightarrow> bytes option" where
  "draw_pixel w f scratch y x canvas =
     (let at = (y * unat (gf_width f) + x) * 4 in
      case slice at (at + 4) scratch of
        None \<Rightarrow> None
      | Some rgba \<Rightarrow>
          if rgba ! 3 = 0 then Some canvas
          else put_bytes (((unat (gf_top f) + y) * w + (unat (gf_left f) + x)) * 4)
            [rgba ! 2, rgba ! 1, rgba ! 0, 255] canvas)"

definition draw_frame :: "nat \<Rightarrow> nat \<Rightarrow> 'd gif_frame \<Rightarrow> bytes \<Rightarrow> bytes \<Rightarrow> bytes option" where
  "draw_frame w h f scratch canvas =
     fold_opt (\<lambda>y. fold_opt (\<lambda>x. draw_pixel w f scratch y x)
         (takeWhile (\<lambda>x. unat (gf_left f) + x < w) [0..<unat (gf_width f)]))
       (takeWhile (\<lambda>y. unat (gf_top f) + y < h) [0..<unat (gf_height f)]) canvas"

subsection \<open>\<open>GifReader::apply\<close>\<close>

definition decoding_error :: "nat \<Rightarrow> ustring \<Rightarrow> ustring" where
  "decoding_error i e = ustr ''decoding GIF frame '' @ show_nat i @ ustr '': '' @ e"

definition dispose_previous :: "nat \<Rightarrow> ('p, 'd) gif_reader \<Rightarrow> ('p, 'd) gif_reader option" where
  "dispose_previous i r =
     (if i = 0 then Some r
      else case get (gr_frames r) (i - 1) of
        None \<Rightarrow> None
      | Some previous \<Rightarrow>
          if gf_dispose previous = DisposeBackground
          then map_option (\<lambda>c. r\<lparr>gr_canvas := c\<rparr>)
            (fill_rect (unat (gr_width r)) (unat (gr_height r)) previous (gr_canvas r))
          else Some r)"

definition keep_snapshot :: "nat \<Rightarrow> ('p, 'd) gif_reader \<Rightarrow> ('p, 'd) gif_reader option" where
  "keep_snapshot i r =
     (if i mod gr_spacing r = 0
      then let slot = i div gr_spacing r in
        case get (gr_snapshots r) slot of
          None \<Rightarrow> None
        | Some None \<Rightarrow> Some (r\<lparr>gr_snapshots := (gr_snapshots r)[slot := Some (gr_canvas r)]\<rparr>)
        | Some (Some _) \<Rightarrow> Some r
      else Some r)"

definition gif_apply ::
  "('p option \<Rightarrow> 'd gif_frame \<Rightarrow> ustring + bytes) \<Rightarrow> nat \<Rightarrow> ('p, 'd) gif_reader \<Rightarrow>
   ((ustring + unit) \<times> ('p, 'd) gif_reader) option" where
  "gif_apply decode i r =
     Option.bind (dispose_previous i r) (\<lambda>r.
     Option.bind (get (gr_frames r) i) (\<lambda>f.
       case decode (gr_palette r) f of
         Inl e \<Rightarrow> Some (Inl (decoding_error i e), r)
       | Inr scratch \<Rightarrow>
         Option.bind (draw_frame (unat (gr_width r)) (unat (gr_height r)) f scratch (gr_canvas r))
           (\<lambda>c. map_option (Pair (Inr ()))
             (keep_snapshot i (r\<lparr>gr_canvas := c, gr_canvas_index := Some i\<rparr>)))))"

subsection \<open>\<open>RecordingFrames::frame\<close>\<close>

definition past_the_end :: "nat \<Rightarrow> nat \<Rightarrow> ustring" where
  "past_the_end i n =
     ustr ''frame '' @ show_nat i @ ustr '' is past the GIF's '' @ show_nat n @ ustr '' frames''"

text \<open>\<open>None\<close> is the panic of \<open>snapshots[slot]\<close>; the first slot tried is the largest.\<close>

definition nearest_snapshot :: "('p, 'd) gif_reader \<Rightarrow> nat \<Rightarrow> nat option option" where
  "nearest_snapshot r i =
     (if length (gr_snapshots r) \<le> i div gr_spacing r then None
      else Some (map_option (\<lambda>slot. slot * gr_spacing r)
        (find (\<lambda>slot. gr_snapshots r ! slot \<noteq> None) (rev [0..<i div gr_spacing r + 1]))))"

definition restore :: "nat \<Rightarrow> ('p, 'd) gif_reader \<Rightarrow> ('p, 'd) gif_reader option" where
  "restore snapshot r =
     (case get (gr_snapshots r) (snapshot div gr_spacing r) of
        None \<Rightarrow> None
      | Some None \<Rightarrow> Some (r\<lparr>gr_canvas_index := Some snapshot\<rparr>)
      | Some (Some px) \<Rightarrow>
          if length px = length (gr_canvas r)
          then Some (r\<lparr>gr_canvas := px, gr_canvas_index := Some snapshot\<rparr>) else None)"

definition start_from ::
  "('p, 'd) gif_reader \<Rightarrow> nat \<Rightarrow> (nat \<times> ('p, 'd) gif_reader) option" where
  "start_from r i =
     (let resume = (case gr_canvas_index r of
        None \<Rightarrow> None | Some current \<Rightarrow> if current < i then Some current else None)
      in Option.bind (nearest_snapshot r i) (\<lambda>nearest.
        case (resume, nearest) of
          (Some current, Some snapshot) \<Rightarrow>
            if snapshot \<le> current then Some (current + 1, r)
            else map_option (Pair (snapshot + 1)) (restore snapshot r)
        | (None, Some snapshot) \<Rightarrow> map_option (Pair (snapshot + 1)) (restore snapshot r)
        | (Some current, None) \<Rightarrow> Some (current + 1, r)
        | (None, None) \<Rightarrow> Some (0, r\<lparr>gr_canvas := opaque_black (length (gr_canvas r))\<rparr>)))"

fun apply_all ::
  "('p option \<Rightarrow> 'd gif_frame \<Rightarrow> ustring + bytes) \<Rightarrow> nat list \<Rightarrow> ('p, 'd) gif_reader \<Rightarrow>
   ((ustring + unit) \<times> ('p, 'd) gif_reader) option" where
  "apply_all decode [] r = Some (Inr (), r)"
| "apply_all decode (i # is) r =
     (case gif_apply decode i r of
        None \<Rightarrow> None
      | Some (Inl e, r') \<Rightarrow> Some (Inl e, r')
      | Some (Inr _, r') \<Rightarrow> apply_all decode is r')"

definition gif_frame_at ::
  "('p option \<Rightarrow> 'd gif_frame \<Rightarrow> ustring + bytes) \<Rightarrow> nat \<Rightarrow> ('p, 'd) gif_reader \<Rightarrow>
   ((ustring + bytes) \<times> ('p, 'd) gif_reader) option" where
  "gif_frame_at decode i r =
     (if length (gr_frames r) \<le> i then Some (Inl (past_the_end i (length (gr_frames r))), r)
      else if gr_canvas_index r = Some i then Some (Inr (gr_canvas r), r)
      else Option.bind (start_from r i) (\<lambda>(start, r).
        case apply_all decode [start..<i + 1] r of
          None \<Rightarrow> None
        | Some (Inl e, r') \<Rightarrow> Some (Inl e, r')
        | Some (Inr _, r') \<Rightarrow> Some (Inr (gr_canvas r'), r')))"

definition gif_size :: "('p, 'd) gif_reader \<Rightarrow> u32 \<times> u32" where
  "gif_size r = (gr_width r, gr_height r)"

subsection \<open>What a viewer shows\<close>

text \<open>
  The reference: the picture after frame \<open>i\<close>, pixel by pixel, with no canvas, cache or order of
  access. A frame's opaque pixels cover what is under them; under frame \<open>i + 1\<close> lies the picture
  after frame \<open>i\<close>, with frame \<open>i\<close>'s rectangle blacked out when it asks to be disposed of.
\<close>

abbreviation black :: bytes where
  "black \<equiv> [0, 0, 0, 255]"

definition covers :: "'d gif_frame \<Rightarrow> nat \<Rightarrow> nat \<Rightarrow> bool" where
  "covers f x y \<longleftrightarrow> unat (gf_left f) \<le> x \<and> x < unat (gf_left f) + unat (gf_width f) \<and>
     unat (gf_top f) \<le> y \<and> y < unat (gf_top f) + unat (gf_height f)"

definition drawn :: "('d gif_frame \<Rightarrow> bytes) \<Rightarrow> 'd gif_frame \<Rightarrow> nat \<Rightarrow> nat \<Rightarrow> bytes option" where
  "drawn rgba f x y =
     (if covers f x y
      then let p = bgra_at (unat (gf_width f)) (rgba f) (x - unat (gf_left f)) (y - unat (gf_top f))
        in if p ! 3 = 0 then None else Some [p ! 2, p ! 1, p ! 0, 255]
      else None)"

fun shown_pixel :: "('d gif_frame \<Rightarrow> bytes) \<Rightarrow> 'd gif_frame list \<Rightarrow> nat \<Rightarrow> nat \<Rightarrow> nat \<Rightarrow> bytes" where
  "shown_pixel rgba fs 0 x y = (case drawn rgba (fs ! 0) x y of Some p \<Rightarrow> p | None \<Rightarrow> black)"
| "shown_pixel rgba fs (Suc i) x y =
     (case drawn rgba (fs ! Suc i) x y of
        Some p \<Rightarrow> p
      | None \<Rightarrow>
          if gf_dispose (fs ! i) = DisposeBackground \<and> covers (fs ! i) x y then black
          else shown_pixel rgba fs i x y)"

text \<open>A picture given pixel by pixel, as tightly packed bytes.\<close>

definition packed :: "nat \<Rightarrow> nat \<Rightarrow> (nat \<Rightarrow> nat \<Rightarrow> bytes) \<Rightarrow> bytes" where
  "packed w h pic = concat (map (\<lambda>y. concat (map (\<lambda>x. pic x y) [0..<w])) [0..<h])"

lemma length_packed:
  assumes "\<And>x y. x < w \<Longrightarrow> y < h \<Longrightarrow> length (pic x y) = 4"
  shows "length (packed w h pic) = w * h * 4"
proof -
  have "length (concat (map (\<lambda>x. pic x y) [0..<w])) = w * 4" if "y < h" for y
    using assms that by (subst length_concat_rows [where n = 4]) auto
  then show ?thesis
    unfolding packed_def by (subst length_concat_rows [where n = "w * 4"]) auto
qed

lemma bgra_at_packed:
  assumes "\<And>x y. x < w \<Longrightarrow> y < h \<Longrightarrow> length (pic x y) = 4" and "x < w" and "y < h"
  shows "bgra_at w (packed w h pic) x y = pic x y"
proof -
  let ?row = "\<lambda>y. concat (map (\<lambda>x. pic x y) [0..<w])"
  have "length (?row y) = w * 4" if "y < h" for y
    using assms(1) that by (subst length_concat_rows [where n = 4]) auto
  then have "take 4 (drop (y * (w * 4) + x * 4) (packed w h pic)) = take 4 (drop (x * 4) (?row y))"
    unfolding packed_def using assms(2,3)
    by (intro take_drop_concat_rows [where n = "w * 4"]) auto
  also have "\<dots> = take 4 (drop (x * 4 + 0) (?row y))" by simp
  also have "\<dots> = take 4 (drop 0 (pic x y))"
    using assms by (intro take_drop_concat_rows [where n = 4 and f = "\<lambda>x. pic x y"]) auto
  finally show ?thesis
    using assms by (simp add: bgra_at_def algebra_simps)
qed

text \<open>Bytes are a picture's pixels.\<close>

lemma eq_packed:
  assumes "length px = w * h * 4" and "\<And>x y. x < w \<Longrightarrow> y < h \<Longrightarrow> bgra_at w px x y = pic x y"
  shows "px = packed w h pic"
proof -
  have len: "length (pic x y) = 4" if "x < w" "y < h" for x y
    using assms length_bgra_at [of px w h x y] that by metis
  show ?thesis
  proof (rule nth_equalityI)
    show "length px = length (packed w h pic)"
      using assms(1) length_packed [of w h pic] len by simp
    fix i assume i: "i < length px"
    define x y k where "x = i div 4 mod w" and "y = i div 4 div w" and "k = i mod 4"
    have "w \<noteq> 0" using i assms(1) by (cases w) auto
    have "i div 4 < w * h" using i assms(1) by simp
    then have xy: "x < w" "y < h"
      using \<open>w \<noteq> 0\<close> by (simp_all add: x_def y_def less_mult_imp_div_less mult.commute)
    have i_eq: "i = (y * w + x) * 4 + k"
      by (simp add: x_def y_def k_def)
    have at: "z ! i = bgra_at w z x y ! k" if "length z = w * h * 4" for z :: bytes
    proof -
      have "k < 4" by (simp add: k_def)
      moreover have "(y * w + x) * 4 + 4 \<le> length z"
        using bgra_at_in_range [OF xy] that by simp
      ultimately show ?thesis by (simp add: bgra_at_def i_eq)
    qed
    show "px ! i = packed w h pic ! i"
      using at [OF assms(1)] at [OF length_packed [of w h pic]] len xy assms(2)
        bgra_at_packed [of w h pic x y] by simp
  qed
qed

subsection \<open>Drawing loops paint pixels\<close>

text \<open>\<open>paints w h patch c c'\<close>: \<open>c'\<close> is the picture \<open>c\<close> with the pixels \<open>patch\<close> gives.\<close>

definition paints :: "nat \<Rightarrow> nat \<Rightarrow> (nat \<Rightarrow> nat \<Rightarrow> bytes option) \<Rightarrow> bytes \<Rightarrow> bytes \<Rightarrow> bool" where
  "paints w h patch c c' \<longleftrightarrow> length c' = w * h * 4 \<and>
     (\<forall>x < w. \<forall>y < h. bgra_at w c' x y = (case patch x y of Some p \<Rightarrow> p | None \<Rightarrow> bgra_at w c x y))"

lemma paints_length: "paints w h patch c c' \<Longrightarrow> length c' = w * h * 4"
  by (simp add: paints_def)

lemma paints_cong:
  assumes "paints w h patch c c'" and "\<And>x y. x < w \<Longrightarrow> y < h \<Longrightarrow> patch x y = patch' x y"
  shows "paints w h patch' c c'"
  using assms by (simp add: paints_def)

lemma ex_paints_cong:
  assumes "\<exists>c'. e = Some c' \<and> paints w h patch c c'"
    and "\<And>x y. x < w \<Longrightarrow> y < h \<Longrightarrow> patch x y = patch' x y"
  shows "\<exists>c'. e = Some c' \<and> paints w h patch' c c'"
  using assms by (auto simp: paints_def)

lemma paints_trans:
  assumes "paints w h patch c c'" and "paints w h patch' c' c''"
  shows "paints w h (\<lambda>x y. case patch' x y of Some p \<Rightarrow> Some p | None \<Rightarrow> patch x y) c c''"
  using assms by (auto simp: paints_def split: option.split)

lemma put_bytes_paints:
  assumes "length c = w * h * 4" and "length p = 4" and "x < w" and "y < h"
  shows "\<exists>c'. put_bytes ((y * w + x) * 4) p c = Some c' \<and>
    paints w h (\<lambda>x' y'. if x' = x \<and> y' = y then Some p else None) c c'"
  using put_bytes_pixel [OF assms] by (fastforce simp: paints_def)

text \<open>A loop whose body paints the pixels with key \<open>a\<close> paints those with a key in its range.\<close>

lemma fold_paints:
  assumes body: "\<And>a c. a \<in> set xs \<Longrightarrow> length c = w * h * 4 \<Longrightarrow> \<exists>c'. body a c = Some c' \<and>
      paints w h (\<lambda>x y. if key x y = Some a then patch x y else None) c c'"
    and "length c = w * h * 4"
  shows "\<exists>c'. fold_opt body xs c = Some c' \<and>
    paints w h (\<lambda>x y. if key x y \<in> Some ` set xs then patch x y else None) c c'"
  using assms
proof (induction xs arbitrary: c)
  case Nil
  then show ?case by (simp add: paints_def)
next
  case (Cons a xs)
  obtain c1 where c1: "body a c = Some c1"
      "paints w h (\<lambda>x y. if key x y = Some a then patch x y else None) c c1"
    using Cons.prems by force
  obtain c2 where c2: "fold_opt body xs c1 = Some c2"
      "paints w h (\<lambda>x y. if key x y \<in> Some ` set xs then patch x y else None) c1 c2"
    using Cons.IH [of c1] Cons.prems paints_length [OF c1(2)] by force
  show ?case
    using c1(1) c2(1) paints_cong [OF paints_trans [OF c1(2) c2(2)]]
    by (fastforce split: option.split if_splits)
qed

lemma takeWhile_offset: "takeWhile (\<lambda>x. l + x < w) [0..<n] = [0..<min n (w - l)]" for l w n :: nat
proof (induction n)
  case (Suc n)
  show ?case
  proof (cases "l + n < w")
    case True
    then have "takeWhile (\<lambda>x. l + x < w) [0..<n] = [0..<n]"
      using Suc by (simp add: min_def)
    then show ?thesis using True by (simp add: takeWhile_append takeWhile_eq_all_conv min_def)
  next
    case False
    then have "min (Suc n) (w - l) = min n (w - l)" by simp
    moreover have "takeWhile (\<lambda>x. l + x < w) [0..<Suc n] = takeWhile (\<lambda>x. l + x < w) [0..<n]"
      using False by (simp add: takeWhile_tail)
    ultimately show ?thesis using Suc by simp
  qed
qed simp

lemma fill_rect_paints:
  assumes "length c = w * h * 4"
  shows "\<exists>c'. fill_rect w h f c = Some c' \<and>
    paints w h (\<lambda>x y. if covers f x y then Some black else None) c c'"
proof -
  let ?xs = "[unat (gf_left f)..<min (unat (gf_left f) + unat (gf_width f)) w]"
  let ?ys = "[unat (gf_top f)..<min (unat (gf_top f) + unat (gf_height f)) h]"
  have row: "\<exists>c'. fold_opt (\<lambda>x. put_bytes ((y * w + x) * 4) black) ?xs c = Some c' \<and>
      paints w h (\<lambda>x' y'. if Some y' = Some y then if x' \<in> set ?xs then Some black else None else None) c c'"
    if y: "y \<in> set ?ys" and c: "length c = w * h * 4" for y c
  proof -
    have "\<exists>c'. fold_opt (\<lambda>x. put_bytes ((y * w + x) * 4) black) ?xs c = Some c' \<and>
      paints w h (\<lambda>x' y'. if Some x' \<in> Some ` set ?xs then if y' = y then Some black else None else None) c c'"
    proof (rule fold_paints [OF _ c])
      fix x and c :: bytes
      assume x: "x \<in> set ?xs" and c: "length c = w * h * 4"
      then have "x < w" "y < h" using y by auto
      then obtain c' where "put_bytes ((y * w + x) * 4) black c = Some c'"
          "paints w h (\<lambda>x' y'. if x' = x \<and> y' = y then Some black else None) c c'"
        using put_bytes_paints [OF c, of black x y] by auto
      then show "\<exists>c'. put_bytes ((y * w + x) * 4) black c = Some c' \<and>
        paints w h (\<lambda>x' y'. if Some x' = Some x then if y' = y then Some black else None else None) c c'"
        by (auto intro: paints_cong)
    qed
    then show ?thesis by (rule ex_paints_cong) auto
  qed
  have "\<exists>c'. fold_opt (\<lambda>y. fold_opt (\<lambda>x. put_bytes ((y * w + x) * 4) black) ?xs) ?ys c = Some c' \<and>
      paints w h (\<lambda>x y. if Some y \<in> Some ` set ?ys then if x \<in> set ?xs then Some black else None else None) c c'"
    by (rule fold_paints [OF row assms]) auto
  then show ?thesis
    unfolding fill_rect_def Let_def by (rule ex_paints_cong) (auto simp: covers_def)
qed

lemma draw_pixel_paints:
  assumes "length c = w * h * 4" and "length (rgba f) = unat (gf_width f) * unat (gf_height f) * 4"
    and "x < unat (gf_width f)" and "y < unat (gf_height f)"
    and "unat (gf_left f) + x < w" and "unat (gf_top f) + y < h"
  shows "\<exists>c'. draw_pixel w f (rgba f) y x c = Some c' \<and>
    paints w h (\<lambda>x' y'. if x' = unat (gf_left f) + x \<and> y' = unat (gf_top f) + y
      then drawn rgba f x' y' else None) c c'"
proof -
  let ?p = "bgra_at (unat (gf_width f)) (rgba f) x y"
  have p: "slice ((y * unat (gf_width f) + x) * 4) ((y * unat (gf_width f) + x) * 4 + 4) (rgba f) = Some ?p"
    using bgra_at_in_range [OF assms(3,4)] assms(2) by (simp add: bgra_at_def)
  have eq: "draw_pixel w f (rgba f) y x c = (if ?p ! 3 = 0 then Some c
      else put_bytes (((unat (gf_top f) + y) * w + (unat (gf_left f) + x)) * 4)
        [?p ! 2, ?p ! 1, ?p ! 0, 255] c)"
    by (simp only: draw_pixel_def Let_def p option.case)
  have d: "drawn rgba f (unat (gf_left f) + x) (unat (gf_top f) + y) =
      (if ?p ! 3 = 0 then None else Some [?p ! 2, ?p ! 1, ?p ! 0, 255])"
    using assms(3,4) by (simp add: drawn_def covers_def Let_def)
  show ?thesis
  proof (cases "?p ! 3 = 0")
    case True
    then have "paints w h (\<lambda>x' y'. if x' = unat (gf_left f) + x \<and> y' = unat (gf_top f) + y
        then drawn rgba f x' y' else None) c c"
      using d assms(1) by (simp add: paints_def)
    with True show ?thesis by (simp add: eq)
  next
    case False
    then obtain c' where c': "put_bytes (((unat (gf_top f) + y) * w + (unat (gf_left f) + x)) * 4)
          [?p ! 2, ?p ! 1, ?p ! 0, 255] c = Some c'"
        "paints w h (\<lambda>x' y'. if x' = unat (gf_left f) + x \<and> y' = unat (gf_top f) + y
          then Some [?p ! 2, ?p ! 1, ?p ! 0, 255] else None) c c'"
      using put_bytes_paints [OF assms(1) _ assms(5,6), of "[?p ! 2, ?p ! 1, ?p ! 0, 255]"] by auto
    have "paints w h (\<lambda>x' y'. if x' = unat (gf_left f) + x \<and> y' = unat (gf_top f) + y
        then drawn rgba f x' y' else None) c c'"
      by (rule paints_cong [OF c'(2)]) (use d False in simp)
    with c'(1) False show ?thesis by (simp add: eq)
  qed
qed

lemma draw_frame_paints:
  assumes "length c = w * h * 4" and "length (rgba f) = unat (gf_width f) * unat (gf_height f) * 4"
  shows "\<exists>c'. draw_frame w h f (rgba f) c = Some c' \<and> paints w h (drawn rgba f) c c'"
proof -
  let ?l = "unat (gf_left f)" and ?t = "unat (gf_top f)"
  let ?xs = "[0..<min (unat (gf_width f)) (w - ?l)]" and ?ys = "[0..<min (unat (gf_height f)) (h - ?t)]"
  define column where "column X Y = (if ?l \<le> X then Some (X - ?l) else None)" for X Y :: nat
  define line where "line X Y = (if ?t \<le> Y then Some (Y - ?t) else None)" for X Y :: nat
  have row: "\<exists>c'. fold_opt (\<lambda>x. draw_pixel w f (rgba f) y x) ?xs c = Some c' \<and>
      paints w h (\<lambda>X Y. if line X Y = Some y
        then if column X Y \<in> Some ` set ?xs then drawn rgba f X Y else None else None) c c'"
    if y: "y \<in> set ?ys" and c: "length c = w * h * 4" for y c
  proof -
    have "\<exists>c'. fold_opt (\<lambda>x. draw_pixel w f (rgba f) y x) ?xs c = Some c' \<and>
        paints w h (\<lambda>X Y. if column X Y \<in> Some ` set ?xs
          then if line X Y = Some y then drawn rgba f X Y else None else None) c c'"
    proof (rule fold_paints [OF _ c])
      fix x and c :: bytes
      assume x: "x \<in> set ?xs" and c: "length c = w * h * 4"
      have "x < unat (gf_width f)" "y < unat (gf_height f)" "?l + x < w" "?t + y < h"
        using x y by (simp_all add: less_diff_conv add.commute)
      then obtain c' where c': "draw_pixel w f (rgba f) y x c = Some c'"
          "paints w h (\<lambda>X Y. if X = ?l + x \<and> Y = ?t + y then drawn rgba f X Y else None) c c'"
        using draw_pixel_paints [of c w h rgba f x y] assms(2) c by auto
      have "paints w h (\<lambda>X Y. if column X Y = Some x
          then if line X Y = Some y then drawn rgba f X Y else None else None) c c'"
        by (rule paints_cong [OF c'(2)]) (auto simp: column_def line_def)
      with c'(1) show "\<exists>c'. draw_pixel w f (rgba f) y x c = Some c' \<and>
          paints w h (\<lambda>X Y. if column X Y = Some x
            then if line X Y = Some y then drawn rgba f X Y else None else None) c c'" by blast
    qed
    then obtain c' where c': "fold_opt (\<lambda>x. draw_pixel w f (rgba f) y x) ?xs c = Some c'"
        "paints w h (\<lambda>X Y. if column X Y \<in> Some ` set ?xs
          then if line X Y = Some y then drawn rgba f X Y else None else None) c c'" by blast
    show ?thesis
      by (rule exI [of _ c'], rule conjI [OF c'(1)], rule paints_cong [OF c'(2)]) auto
  qed
  obtain c' where c': "fold_opt (\<lambda>y. fold_opt (\<lambda>x. draw_pixel w f (rgba f) y x) ?xs) ?ys c = Some c'"
      "paints w h (\<lambda>X Y. if line X Y \<in> Some ` set ?ys
        then if column X Y \<in> Some ` set ?xs then drawn rgba f X Y else None else None) c c'"
    using fold_paints [OF row assms(1)] by blast
  have "paints w h (drawn rgba f) c c'"
    by (rule paints_cong [OF c'(2)])
      (auto simp: column_def line_def drawn_def covers_def image_iff)
  with c'(1) show ?thesis by (auto simp: draw_frame_def takeWhile_offset)
qed

subsection \<open>The reader's caches always agree with what a viewer shows\<close>

abbreviation gr_w :: "('p, 'd) gif_reader \<Rightarrow> nat" where "gr_w r \<equiv> unat (gr_width r)"
abbreviation gr_h :: "('p, 'd) gif_reader \<Rightarrow> nat" where "gr_h r \<equiv> unat (gr_height r)"

definition frame_rgba :: "('p option \<Rightarrow> 'd gif_frame \<Rightarrow> ustring + bytes) \<Rightarrow> 'p option \<Rightarrow> 'd gif_frame \<Rightarrow> bytes" where
  "frame_rgba decode p f = (case decode p f of Inl _ \<Rightarrow> [] | Inr rgba \<Rightarrow> rgba)"

definition fails_at :: "('p option \<Rightarrow> 'd gif_frame \<Rightarrow> ustring + bytes) \<Rightarrow> ('p, 'd) gif_reader \<Rightarrow> nat \<Rightarrow> bool" where
  "fails_at decode r i \<longleftrightarrow> isl (decode (gr_palette r) (gr_frames r ! i))"

definition picture_of :: "('p option \<Rightarrow> 'd gif_frame \<Rightarrow> ustring + bytes) \<Rightarrow> ('p, 'd) gif_reader \<Rightarrow> nat \<Rightarrow> bytes" where
  "picture_of decode r i =
     packed (gr_w r) (gr_h r) (shown_pixel (frame_rgba decode (gr_palette r)) (gr_frames r) i)"

text \<open>What \<open>frame(i)\<close> should return: the picture after frame \<open>i\<close>, or the error of the first frame up
  to it that does not decode.\<close>

definition gif_shot :: "('p option \<Rightarrow> 'd gif_frame \<Rightarrow> ustring + bytes) \<Rightarrow> ('p, 'd) gif_reader \<Rightarrow> nat \<Rightarrow> ustring + bytes" where
  "gif_shot decode r i =
     (if length (gr_frames r) \<le> i then Inl (past_the_end i (length (gr_frames r)))
      else case find (fails_at decode r) [0..<i + 1] of
        Some j \<Rightarrow> Inl (decoding_error j (projl (decode (gr_palette r) (gr_frames r ! j))))
      | None \<Rightarrow> Inr (picture_of decode r i))"

text \<open>The decoder fills a buffer of the frame's size. A frame that does not decode must not follow
  one that is disposed of: \<open>apply\<close> has by then cleared the canvas it would have drawn on.\<close>

definition sound_frames :: "('p option \<Rightarrow> 'd gif_frame \<Rightarrow> ustring + bytes) \<Rightarrow> ('p, 'd) gif_reader \<Rightarrow> bool" where
  "sound_frames decode r \<longleftrightarrow>
     (\<forall>i < length (gr_frames r). case decode (gr_palette r) (gr_frames r ! i) of
        Inr rgba \<Rightarrow> length rgba = unat (gf_width (gr_frames r ! i)) * unat (gf_height (gr_frames r ! i)) * 4
      | Inl _ \<Rightarrow> i = 0 \<or> gf_dispose (gr_frames r ! (i - 1)) \<noteq> DisposeBackground)"

definition shows_frame :: "('p option \<Rightarrow> 'd gif_frame \<Rightarrow> ustring + bytes) \<Rightarrow> ('p, 'd) gif_reader \<Rightarrow> nat \<Rightarrow> bytes \<Rightarrow> bool" where
  "shows_frame decode r i px \<longleftrightarrow> i < length (gr_frames r) \<and> (\<forall>j\<le>i. \<not> fails_at decode r j) \<and>
     px = picture_of decode r i"

definition reader_base :: "('p option \<Rightarrow> 'd gif_frame \<Rightarrow> ustring + bytes) \<Rightarrow> ('p, 'd) gif_reader \<Rightarrow> bool" where
  "reader_base decode r \<longleftrightarrow> timeline_ok (gr_timeline r) \<and>
     tl_len (gr_timeline r) = length (gr_frames r) \<and> 0 < gr_spacing r \<and>
     length (gr_snapshots r) = div_ceil (length (gr_frames r)) (gr_spacing r) \<and>
     length (gr_canvas r) = gr_w r * gr_h r * 4 \<and>
     (\<forall>k px. k < length (gr_snapshots r) \<longrightarrow> gr_snapshots r ! k = Some px \<longrightarrow>
       shows_frame decode r (k * gr_spacing r) px)"

definition reader_ok :: "('p option \<Rightarrow> 'd gif_frame \<Rightarrow> ustring + bytes) \<Rightarrow> ('p, 'd) gif_reader \<Rightarrow> bool" where
  "reader_ok decode r \<longleftrightarrow> reader_base decode r \<and>
     (\<forall>i. gr_canvas_index r = Some i \<longrightarrow> shows_frame decode r i (gr_canvas r))"

definition same_gif :: "('p, 'd) gif_reader \<Rightarrow> ('p, 'd) gif_reader \<Rightarrow> bool" where
  "same_gif r r' \<longleftrightarrow> gr_width r' = gr_width r \<and> gr_height r' = gr_height r \<and>
     gr_frames r' = gr_frames r \<and> gr_timeline r' = gr_timeline r \<and>
     gr_palette r' = gr_palette r \<and> gr_spacing r' = gr_spacing r"

lemma same_gif_refl [simp]: "same_gif r r"
  by (simp add: same_gif_def)

lemma same_gif_trans: "same_gif r r' \<Longrightarrow> same_gif r' r'' \<Longrightarrow> same_gif r r''"
  by (simp add: same_gif_def)

lemma same_gif_facts:
  assumes "same_gif r r'"
  shows "fails_at decode r' = fails_at decode r" "picture_of decode r' = picture_of decode r"
    "gif_shot decode r' = gif_shot decode r" "sound_frames decode r' = sound_frames decode r"
    "shows_frame decode r' = shows_frame decode r" "gif_size r' = gif_size r"
    "gr_timeline r' = gr_timeline r"
proof -
  have eqs: "gr_width r' = gr_width r" "gr_height r' = gr_height r" "gr_frames r' = gr_frames r"
    "gr_palette r' = gr_palette r"
    using assms by (simp_all add: same_gif_def)
  show fails: "fails_at decode r' = fails_at decode r"
    using assms by (simp add: fun_eq_iff fails_at_def same_gif_def)
  show pic: "picture_of decode r' = picture_of decode r"
    using assms by (simp add: fun_eq_iff picture_of_def same_gif_def)
  show "gif_shot decode r' = gif_shot decode r"
    by (simp only: gif_shot_def [abs_def] fails pic eqs)
  show "shows_frame decode r' = shows_frame decode r"
    by (simp only: shows_frame_def [abs_def] fails pic eqs)
  show "sound_frames decode r' = sound_frames decode r"
    by (simp only: sound_frames_def eqs)
qed (use assms in \<open>simp_all add: same_gif_def gif_size_def\<close>)

lemma length_shown_pixel: "length (shown_pixel rgba fs i x y) = 4"
  by (induction i) (auto simp: drawn_def Let_def split: option.split)

lemma length_picture_of: "length (picture_of decode r i) = gr_w r * gr_h r * 4"
  unfolding picture_of_def by (rule length_packed) (rule length_shown_pixel)

lemma bgra_at_picture_of:
  "x < gr_w r \<Longrightarrow> y < gr_h r \<Longrightarrow> bgra_at (gr_w r) (picture_of decode r i) x y =
    shown_pixel (frame_rgba decode (gr_palette r)) (gr_frames r) i x y"
  unfolding picture_of_def by (rule bgra_at_packed) (simp_all add: length_shown_pixel)

lemma opaque_black_packed: "opaque_black (w * h * 4) = packed w h (\<lambda>_ _. black)"
proof -
  have black: "opaque_black (n * 4) = concat (replicate n black)" for n
  proof (induction n)
    case (Suc n)
    have "Suc n * 4 = Suc (Suc (Suc (Suc (n * 4))))" by simp
    then show ?case using Suc by (simp only: opaque_black.simps) simp
  qed simp
  have "length (opaque_black (w * h * 4)) = w * h * 4"
    by (simp only: black) (simp add: length_concat sum_list_replicate)
  moreover have "bgra_at w (opaque_black (w * h * 4)) x y = black" if "x < w" "y < h" for x y
  proof -
    have "y * w + x < w * h" using row_major_less [OF that(2,1)] by (simp add: mult.commute)
    then obtain m where "w * h = y * w + x + Suc m"
      by (metis less_imp_Suc_add add_Suc_right)
    then have "concat (replicate (w * h) black) =
        concat (replicate (y * w + x) black) @ black @ concat (replicate m black)"
      by (simp only: replicate_add replicate_Suc concat_append concat.simps)
    moreover have "length (concat (replicate (y * w + x) black)) = (y * w + x) * 4"
      by (simp add: length_concat sum_list_replicate)
    ultimately show ?thesis by (simp only: bgra_at_def black) simp
  qed
  ultimately show ?thesis by (rule eq_packed)
qed

text \<open>The canvas \<open>apply\<close> expects before it draws frame \<open>k\<close>.\<close>

definition canvas_before :: "('p option \<Rightarrow> 'd gif_frame \<Rightarrow> ustring + bytes) \<Rightarrow> ('p, 'd) gif_reader \<Rightarrow> nat \<Rightarrow> bytes" where
  "canvas_before decode r k =
     (if k = 0 then opaque_black (gr_w r * gr_h r * 4) else picture_of decode r (k - 1))"

definition ready :: "('p option \<Rightarrow> 'd gif_frame \<Rightarrow> ustring + bytes) \<Rightarrow> ('p, 'd) gif_reader \<Rightarrow> nat \<Rightarrow> bool" where
  "ready decode r k \<longleftrightarrow> reader_base decode r \<and> gr_canvas r = canvas_before decode r k \<and>
     k \<le> length (gr_frames r) \<and> (\<forall>j<k. \<not> fails_at decode r j) \<and>
     (if k = 0 then gr_canvas_index r \<noteq> None \<longrightarrow> \<not> fails_at decode r 0
      else gr_canvas_index r = Some (k - 1))"

lemma ready_ok: "ready decode r (Suc k) \<Longrightarrow> reader_ok decode r"
  by (auto simp: ready_def reader_ok_def shows_frame_def canvas_before_def)

lemma paints_picture:
  assumes "paints (gr_w r) (gr_h r) (drawn (frame_rgba decode (gr_palette r)) (gr_frames r ! k)) c c'"
    and "\<And>x y. x < gr_w r \<Longrightarrow> y < gr_h r \<Longrightarrow> bgra_at (gr_w r) c x y =
      (if k = 0 then black
       else if gf_dispose (gr_frames r ! (k - 1)) = DisposeBackground \<and> covers (gr_frames r ! (k - 1)) x y
       then black
       else shown_pixel (frame_rgba decode (gr_palette r)) (gr_frames r) (k - 1) x y)"
  shows "c' = picture_of decode r k"
  unfolding picture_of_def
proof (rule eq_packed [OF paints_length [OF assms(1)]])
  fix x y assume "x < gr_w r" "y < gr_h r"
  then show "bgra_at (gr_w r) c' x y =
      shown_pixel (frame_rgba decode (gr_palette r)) (gr_frames r) k x y"
    using assms by (cases k) (simp_all add: paints_def split: option.split)
qed

lemma dispose_previous_canvas:
  assumes "ready decode r k" and "k < length (gr_frames r)"
  shows "\<exists>c. dispose_previous k r = Some (r\<lparr>gr_canvas := c\<rparr>) \<and> length c = gr_w r * gr_h r * 4 \<and>
    (\<forall>x < gr_w r. \<forall>y < gr_h r. bgra_at (gr_w r) c x y =
      (if k = 0 then black
       else if gf_dispose (gr_frames r ! (k - 1)) = DisposeBackground \<and> covers (gr_frames r ! (k - 1)) x y
       then black
       else shown_pixel (frame_rgba decode (gr_palette r)) (gr_frames r) (k - 1) x y))"
proof -
  have canvas: "gr_canvas r = canvas_before decode r k"
    and base: "reader_base decode r"
    using assms(1) by (simp_all add: ready_def)
  then have len: "length (gr_canvas r) = gr_w r * gr_h r * 4"
    by (simp only: reader_base_def)
  show ?thesis
  proof (cases "k = 0")
    case True
    then have "gr_canvas r = packed (gr_w r) (gr_h r) (\<lambda>_ _. black)"
      using canvas by (simp add: canvas_before_def opaque_black_packed)
    then have "\<forall>x < gr_w r. \<forall>y < gr_h r. bgra_at (gr_w r) (gr_canvas r) x y = black"
      by (simp add: bgra_at_packed)
    with True len show ?thesis
      by (intro exI [of _ "gr_canvas r"]) (simp add: dispose_previous_def)
  next
    case False
    let ?f = "gr_frames r ! (k - 1)"
    have under: "\<forall>x < gr_w r. \<forall>y < gr_h r. bgra_at (gr_w r) (gr_canvas r) x y =
        shown_pixel (frame_rgba decode (gr_palette r)) (gr_frames r) (k - 1) x y"
      using canvas False by (simp add: canvas_before_def bgra_at_picture_of)
    have get: "get (gr_frames r) (k - 1) = Some ?f" using assms(2) by (simp add: get_def)
    show ?thesis
    proof (cases "gf_dispose ?f = DisposeBackground")
      case True
      obtain c where c: "fill_rect (gr_w r) (gr_h r) ?f (gr_canvas r) = Some c"
          "paints (gr_w r) (gr_h r) (\<lambda>x y. if covers ?f x y then Some black else None) (gr_canvas r) c"
        using fill_rect_paints [OF len] by blast
      then show ?thesis
        using True False get under
        by (intro exI [of _ c]) (simp add: dispose_previous_def paints_def)
    next
      case Bg: False
      then show ?thesis
        using False get under len
        by (intro exI [of _ "gr_canvas r"]) (simp add: dispose_previous_def)
    qed
  qed
qed

lemma keep_snapshot_base:
  assumes base: "reader_base decode r" and at: "gr_canvas_index r = Some k"
    and shows_k: "shows_frame decode r k (gr_canvas r)"
  shows "\<exists>r'. keep_snapshot k r = Some r' \<and> same_gif r r' \<and> gr_canvas r' = gr_canvas r \<and>
    gr_canvas_index r' = Some k \<and> reader_base decode r'"
proof (cases "k mod gr_spacing r = 0")
  case True
  define slot where "slot = k div gr_spacing r"
  have k: "slot * gr_spacing r = k" using True by (auto simp: slot_def)
  have "0 < gr_spacing r" and len: "length (gr_snapshots r) = div_ceil (length (gr_frames r)) (gr_spacing r)"
    using base by (simp_all add: reader_base_def)
  moreover have "k < length (gr_frames r)" using shows_k by (simp add: shows_frame_def)
  ultimately have "Suc slot * gr_spacing r \<le> length (gr_frames r) + gr_spacing r - 1"
    using k by simp
  then have slot: "slot < length (gr_snapshots r)"
    unfolding len div_ceil_def using \<open>0 < gr_spacing r\<close>
    by (simp add: less_eq_div_iff_mult_less_eq Suc_le_eq [symmetric] del: mult_Suc)
  show ?thesis
  proof (cases "gr_snapshots r ! slot")
    case None
    define r' where "r' = r\<lparr>gr_snapshots := (gr_snapshots r)[slot := Some (gr_canvas r)]\<rparr>"
    have same: "same_gif r r'" by (simp add: same_gif_def r'_def)
    have "reader_base decode r'"
      using base shows_k k slot unfolding reader_base_def same_gif_facts [OF same]
      by (simp add: r'_def nth_list_update)
    with same show ?thesis
      using True slot None at by (simp add: keep_snapshot_def get_def slot_def [symmetric] r'_def)
  next
    case (Some px)
    then show ?thesis
      using True slot at base by (simp add: keep_snapshot_def get_def slot_def [symmetric])
  qed
qed (use assms in \<open>simp add: keep_snapshot_def\<close>)

lemma gif_apply_decodes:
  assumes "ready decode r k" and "k < length (gr_frames r)" and "sound_frames decode r"
    and "\<not> fails_at decode r k"
  shows "\<exists>r'. gif_apply decode k r = Some (Inr (), r') \<and> same_gif r r' \<and> ready decode r' (Suc k)"
proof -
  let ?f = "gr_frames r ! k" and ?rgba = "frame_rgba decode (gr_palette r)"
  obtain rgba where dec: "decode (gr_palette r) ?f = Inr rgba"
    using assms(4) by (cases "decode (gr_palette r) ?f") (simp_all add: fails_at_def)
  have rgba: "?rgba ?f = rgba" "length rgba = unat (gf_width ?f) * unat (gf_height ?f) * 4"
    using assms(2,3) dec by (auto simp: frame_rgba_def sound_frames_def dest!: spec [of _ k])
  obtain c where c: "dispose_previous k r = Some (r\<lparr>gr_canvas := c\<rparr>)" "length c = gr_w r * gr_h r * 4"
      "\<forall>x < gr_w r. \<forall>y < gr_h r. bgra_at (gr_w r) c x y =
      (if k = 0 then black
       else if gf_dispose (gr_frames r ! (k - 1)) = DisposeBackground \<and> covers (gr_frames r ! (k - 1)) x y
       then black
       else shown_pixel ?rgba (gr_frames r) (k - 1) x y)"
    using dispose_previous_canvas [OF assms(1,2)] by blast
  obtain c' where c': "draw_frame (gr_w r) (gr_h r) ?f rgba c = Some c'"
      "paints (gr_w r) (gr_h r) (drawn ?rgba ?f) c c'"
    using draw_frame_paints [OF c(2), of ?rgba ?f] rgba by auto
  have pic: "c' = picture_of decode r k"
    using paints_picture [OF c'(2)] c(3) by blast
  define r1 where "r1 = r\<lparr>gr_canvas := c', gr_canvas_index := Some k\<rparr>"
  have same: "same_gif r r1" by (simp add: same_gif_def r1_def)
  have fine: "\<forall>j\<le>k. \<not> fails_at decode r j"
    using assms(1,4) by (auto simp: ready_def le_less)
  have "reader_base decode r1"
    using assms(1) pic unfolding ready_def reader_base_def same_gif_facts [OF same]
    by (simp add: r1_def length_picture_of)
  moreover have "shows_frame decode r1 k (gr_canvas r1)"
    unfolding same_gif_facts [OF same] using fine assms(2) pic by (simp add: shows_frame_def r1_def)
  ultimately obtain r' where r': "keep_snapshot k r1 = Some r'" "same_gif r1 r'"
      "gr_canvas r' = c'" "gr_canvas_index r' = Some k" "reader_base decode r'"
    using keep_snapshot_base [of decode r1 k] by (auto simp: r1_def)
  have same': "same_gif r r'" by (rule same_gif_trans [OF same r'(2)])
  have "ready decode r' (Suc k)"
    unfolding ready_def canvas_before_def same_gif_facts [OF same']
    using r' pic fine assms(2) same' by (auto simp: same_gif_def less_Suc_eq_le)
  moreover have "gif_apply decode k r = Some (Inr (), r')"
    using c(1) c'(1) dec r'(1) assms(2) by (simp add: gif_apply_def get_def r1_def)
  ultimately show ?thesis using same' by blast
qed

text \<open>A frame that does not decode leaves the reader as it was.\<close>

lemma gif_apply_fails:
  assumes "ready decode r k" and "k < length (gr_frames r)" and "sound_frames decode r"
    and "fails_at decode r k"
  shows "gif_apply decode k r =
      Some (Inl (decoding_error k (projl (decode (gr_palette r) (gr_frames r ! k)))), r)"
    and "reader_ok decode r"
proof -
  obtain e where dec: "decode (gr_palette r) (gr_frames r ! k) = Inl e"
    using assms(4) by (auto simp: fails_at_def isl_def)
  then have "k = 0 \<or> gf_dispose (gr_frames r ! (k - 1)) \<noteq> DisposeBackground"
    using assms(2,3) by (auto simp: sound_frames_def dest!: spec [of _ k])
  then have "dispose_previous k r = Some r"
    using assms(2) by (auto simp: dispose_previous_def get_def)
  then show "gif_apply decode k r =
      Some (Inl (decoding_error k (projl (decode (gr_palette r) (gr_frames r ! k)))), r)"
    using dec assms(2) by (simp add: gif_apply_def get_def)
  show "reader_ok decode r"
  proof (cases k)
    case 0
    then show ?thesis using assms(1,4) by (auto simp: ready_def reader_ok_def)
  next
    case (Suc n)
    then show ?thesis using ready_ok [of decode r n] assms(1) by simp
  qed
qed

lemma apply_all_run:
  assumes "ready decode r k" and "k \<le> i + 1" and "i < length (gr_frames r)" and "sound_frames decode r"
  shows "\<exists>res r'. apply_all decode [k..<i + 1] r = Some (res, r') \<and> same_gif r r' \<and>
    reader_ok decode r' \<and>
    res = (case find (fails_at decode r) [k..<i + 1] of
        Some j \<Rightarrow> Inl (decoding_error j (projl (decode (gr_palette r) (gr_frames r ! j))))
      | None \<Rightarrow> Inr ()) \<and>
    (res = Inr () \<longrightarrow> gr_canvas r' = picture_of decode r i)"
  using assms
proof (induction "i + 1 - k" arbitrary: k r)
  case 0
  then have "k = Suc i" by simp
  with 0 show ?case
    using ready_ok [of decode r i] by (simp add: ready_def canvas_before_def)
next
  case (Suc n)
  then have k: "k < length (gr_frames r)" "[k..<i + 1] = k # [Suc k..<i + 1]"
    by (simp_all add: upt_conv_Cons del: upt_Suc)
  show ?case
  proof (cases "fails_at decode r k")
    case True
    then show ?thesis
      unfolding k(2) using gif_apply_fails [OF Suc.prems(1) k(1) Suc.prems(4) True]
      by (simp del: upt_Suc)
  next
    case False
    obtain r1 where r1: "gif_apply decode k r = Some (Inr (), r1)" "same_gif r r1"
        "ready decode r1 (Suc k)"
      using gif_apply_decodes [OF Suc.prems(1) k(1) Suc.prems(4) False] by blast
    note facts = same_gif_facts [OF r1(2)]
    have same: "gr_palette r1 = gr_palette r" "gr_frames r1 = gr_frames r"
      using r1(2) by (simp_all add: same_gif_def)
    have "n = i + 1 - Suc k" "Suc k \<le> i + 1" "i < length (gr_frames r1)" "sound_frames decode r1"
      using Suc.hyps(2) Suc.prems same facts by (simp_all del: upt_Suc)
    from Suc.hyps(1) [OF this(1) r1(3) this(2-4)] obtain res r' where
      run: "apply_all decode [Suc k..<i + 1] r1 = Some (res, r')" "same_gif r1 r'" "reader_ok decode r'"
      "res = (case find (fails_at decode r) [Suc k..<i + 1] of
        Some j \<Rightarrow> Inl (decoding_error j (projl (decode (gr_palette r) (gr_frames r ! j))))
      | None \<Rightarrow> Inr ())" "res = Inr () \<longrightarrow> gr_canvas r' = picture_of decode r i"
      unfolding facts same by blast
    show ?thesis
      unfolding k(2) using r1(1) run False same_gif_trans [OF r1(2) run(2)]
      by (intro exI [of _ res] exI [of _ r']) (simp del: upt_Suc)
  qed
qed

subsection \<open>Seeking\<close>

lemma find_append: "find P (xs @ ys) = (case find P xs of None \<Rightarrow> find P ys | Some x \<Rightarrow> Some x)"
  by (induction xs) simp_all

lemma find_upt_from:
  assumes "\<forall>j<k. \<not> P j" and "k \<le> n"
  shows "find P [0..<n] = find P [k..<n]"
proof -
  have "[0..<n] = [0..<k] @ [k..<n]" using assms(2) upt_add_eq_append [of 0 k "n - k"] by simp
  moreover have "find P [0..<k] = None" using assms(1) by (simp add: find_None_iff)
  ultimately show ?thesis by (simp add: find_append)
qed

lemma nearest_snapshot_value:
  assumes "reader_base decode r" and "i < length (gr_frames r)"
  shows "nearest_snapshot r i = Some None \<or>
    (\<exists>slot px. nearest_snapshot r i = Some (Some (slot * gr_spacing r)) \<and> slot * gr_spacing r \<le> i \<and>
      slot < length (gr_snapshots r) \<and> gr_snapshots r ! slot = Some px)"
proof -
  let ?P = "\<lambda>slot. gr_snapshots r ! slot \<noteq> None" and ?n = "i div gr_spacing r"
  have sp: "0 < gr_spacing r" using assms(1) by (simp add: reader_base_def)
  have "?n < div_ceil (length (gr_frames r)) (gr_spacing r)"
  proof -
    have "Suc ?n * gr_spacing r \<le> i + gr_spacing r" using div_times_less_eq_dividend [of i "gr_spacing r"] by simp
    also have "\<dots> \<le> length (gr_frames r) + gr_spacing r - 1" using assms(2) by simp
    finally show ?thesis
      using sp by (simp add: div_ceil_def less_eq_div_iff_mult_less_eq Suc_le_eq [symmetric] del: mult_Suc)
  qed
  then have n: "?n < length (gr_snapshots r)" using assms(1) by (simp add: reader_base_def)
  show ?thesis
  proof (cases "find ?P (rev [0..<?n + 1])")
    case None
    with n show ?thesis by (simp add: nearest_snapshot_def del: upt_Suc)
  next
    case (Some slot)
    then have slot: "slot \<le> ?n" "gr_snapshots r ! slot \<noteq> None"
      by (auto simp: find_Some_iff rev_nth simp del: upt_Suc)
    have "slot * gr_spacing r \<le> ?n * gr_spacing r" using slot(1) by (rule mult_le_mono1)
    also have "\<dots> \<le> i" by simp
    finally show ?thesis
      using Some n slot by (auto simp: nearest_snapshot_def simp del: upt_Suc)
  qed
qed

lemma restore_ready:
  assumes "reader_base decode r" and "slot < length (gr_snapshots r)" and "gr_snapshots r ! slot = Some px"
  shows "\<exists>r'. restore (slot * gr_spacing r) r = Some r' \<and> same_gif r r' \<and>
    ready decode r' (slot * gr_spacing r + 1)"
proof -
  let ?k = "slot * gr_spacing r"
  have px: "shows_frame decode r ?k px" and sp: "0 < gr_spacing r"
    and len: "length (gr_canvas r) = gr_w r * gr_h r * 4"
    using assms by (auto simp: reader_base_def)
  define r' where "r' = r\<lparr>gr_canvas := px, gr_canvas_index := Some ?k\<rparr>"
  have same: "same_gif r r'" by (simp add: same_gif_def r'_def)
  have pic: "px = picture_of decode r ?k" using px by (simp add: shows_frame_def)
  have "reader_base decode r'"
    using assms(1) len pic unfolding reader_base_def same_gif_facts [OF same]
    by (simp add: r'_def length_picture_of)
  then have "ready decode r' (?k + 1)"
    using px pic unfolding ready_def canvas_before_def same_gif_facts [OF same]
    by (auto simp: r'_def shows_frame_def less_Suc_eq_le)
  moreover have "restore ?k r = Some r'"
    using assms(2,3) sp pic len by (simp add: restore_def get_def r'_def length_picture_of)
  ultimately show ?thesis using same by blast
qed

lemma start_from_ready:
  assumes ok: "reader_ok decode r" and i: "i < length (gr_frames r)"
  shows "\<exists>k r'. start_from r i = Some (k, r') \<and> same_gif r r' \<and> ready decode r' k \<and> k \<le> i + 1"
proof -
  have base: "reader_base decode r" using ok by (simp add: reader_ok_def)
  define resume where "resume = (case gr_canvas_index r of
    None \<Rightarrow> None | Some current \<Rightarrow> if current < i then Some current else None)"
  have from_canvas: "ready decode r (c + 1)" "c < i" if "resume = Some c" for c
  proof -
    have c: "gr_canvas_index r = Some c" "c < i"
      using that by (auto simp: resume_def split: option.splits if_splits)
    then show "ready decode r (c + 1)" "c < i"
      using ok i by (auto simp: ready_def reader_ok_def canvas_before_def shows_frame_def less_Suc_eq_le)
  qed
  have from_snapshot: "\<exists>k r'. map_option (Pair (s + 1)) (restore s r) = Some (k, r') \<and> same_gif r r' \<and>
      ready decode r' k \<and> k \<le> i + 1"
    if "s = slot * gr_spacing r" "s \<le> i" "slot < length (gr_snapshots r)" "gr_snapshots r ! slot = Some px"
    for s slot px
    using restore_ready [OF base that(3,4)] that(1,2) by auto
  have from_black: "ready decode (r\<lparr>gr_canvas := opaque_black (length (gr_canvas r))\<rparr>) 0"
  proof -
    let ?r' = "r\<lparr>gr_canvas := opaque_black (length (gr_canvas r))\<rparr>"
    have same: "same_gif r ?r'" by (simp add: same_gif_def)
    have len: "length (gr_canvas r) = gr_w r * gr_h r * 4" using base by (simp only: reader_base_def)
    have "length (opaque_black (gr_w r * gr_h r * 4)) = gr_w r * gr_h r * 4"
      by (simp add: opaque_black_packed length_packed)
    then have "reader_base decode ?r'"
      using base len unfolding reader_base_def same_gif_facts [OF same] by simp
    moreover have "gr_canvas_index r \<noteq> None \<longrightarrow> \<not> fails_at decode r 0"
      using ok by (auto simp: reader_ok_def shows_frame_def)
    ultimately show ?thesis
      using len unfolding ready_def canvas_before_def same_gif_facts [OF same] by simp
  qed
  have black_same: "same_gif r (r\<lparr>gr_canvas := opaque_black (length (gr_canvas r))\<rparr>)"
    by (simp add: same_gif_def)
  consider "nearest_snapshot r i = Some None"
    | slot px where "nearest_snapshot r i = Some (Some (slot * gr_spacing r))" "slot * gr_spacing r \<le> i"
        "slot < length (gr_snapshots r)" "gr_snapshots r ! slot = Some px"
    using nearest_snapshot_value [OF base i] by blast
  then show ?thesis
  proof cases
    case 1
    then show ?thesis
      unfolding start_from_def Let_def resume_def [symmetric]
      using from_canvas from_black black_same by (cases resume) (auto simp: less_imp_le)
  next
    case 2
    note snap = from_snapshot [OF refl 2(2-4)]
    show ?thesis
    proof (cases resume)
      case None
      then show ?thesis
        unfolding start_from_def Let_def resume_def [symmetric] using 2(1) snap by simp
    next
      case (Some c)
      then show ?thesis
        unfolding start_from_def Let_def resume_def [symmetric]
        using 2(1) snap from_canvas [OF Some] by (auto simp: less_imp_le)
    qed
  qed
qed

subsection \<open>Recordings that can be played back\<close>

text \<open>Reading frames one after the other, as a player or a re-encoder does.\<close>

fun read_each ::
  "(nat \<Rightarrow> 's \<Rightarrow> ((ustring + bytes) \<times> 's) option) \<Rightarrow> nat list \<Rightarrow> 's \<Rightarrow>
   ((ustring + bytes) list \<times> 's) option" where
  "read_each frame_at [] s = Some ([], s)"
| "read_each frame_at (i # is) s =
     (case frame_at i s of
        None \<Rightarrow> None
      | Some (px, s') \<Rightarrow> (case read_each frame_at is s' of None \<Rightarrow> None | Some (pxs, s'') \<Rightarrow> Some (px # pxs, s'')))"

text \<open>
  The trait \<open>RecordingFrames\<close>: \<open>shot s i\<close> is what \<open>frame(i)\<close> answers, which may depend on the
  recording but not on what was read before.
\<close>

locale recording_frames =
  fixes size_of :: "'s \<Rightarrow> u32 \<times> u32"
    and timeline_of :: "'s \<Rightarrow> timeline"
    and frame_at :: "nat \<Rightarrow> 's \<Rightarrow> ((ustring + bytes) \<times> 's) option"
    and valid :: "'s \<Rightarrow> bool"
    and shot :: "'s \<Rightarrow> nat \<Rightarrow> ustring + bytes"
  assumes timeline_valid: "valid s \<Longrightarrow> timeline_ok (timeline_of s)"
    and frame_at_shot: "valid s \<Longrightarrow> \<exists>s'. frame_at i s = Some (shot s i, s') \<and> valid s' \<and>
      size_of s' = size_of s \<and> timeline_of s' = timeline_of s \<and> shot s' = shot s"
    and shot_size: "valid s \<Longrightarrow> shot s i = Inr px \<Longrightarrow>
      length px = unat (fst (size_of s)) * unat (snd (size_of s)) * 4"
    and shot_past: "valid s \<Longrightarrow> tl_len (timeline_of s) \<le> i \<Longrightarrow> isl (shot s i)"
begin

lemma read_each_shots:
  assumes "valid s"
  shows "\<exists>s'. read_each frame_at is s = Some (map (shot s) is, s') \<and> valid s' \<and> size_of s' = size_of s \<and>
    timeline_of s' = timeline_of s \<and> shot s' = shot s"
  using assms
proof (induction "is" arbitrary: s)
  case (Cons i "is")
  obtain s1 where s1: "frame_at i s = Some (shot s i, s1)" "valid s1" "size_of s1 = size_of s"
      "timeline_of s1 = timeline_of s" "shot s1 = shot s"
    using frame_at_shot [OF Cons.prems] by blast
  with Cons.IH [OF s1(2)] show ?case by auto
qed simp

end

lemma gif_frame_at_shot:
  assumes "reader_ok decode r" and "sound_frames decode r"
  shows "\<exists>r'. gif_frame_at decode i r = Some (gif_shot decode r i, r') \<and> reader_ok decode r' \<and>
    sound_frames decode r' \<and> gif_size r' = gif_size r \<and> gr_timeline r' = gr_timeline r \<and>
    gif_shot decode r' = gif_shot decode r"
proof (cases "length (gr_frames r) \<le> i")
  case True
  then show ?thesis using assms by (simp add: gif_frame_at_def gif_shot_def)
next
  case False
  then have i: "i < length (gr_frames r)" by simp
  show ?thesis
  proof (cases "gr_canvas_index r = Some i")
    case True
    then have "shows_frame decode r i (gr_canvas r)" using assms(1) by (simp add: reader_ok_def)
    then have "gif_shot decode r i = Inr (gr_canvas r)"
      using i by (auto simp: gif_shot_def shows_frame_def find_None_iff less_Suc_eq_le
        simp del: upt_Suc split: option.split)
    then show ?thesis
      using True i assms by (simp add: gif_frame_at_def)
  next
    case no_hit: False
    obtain k r1 where k: "start_from r i = Some (k, r1)" "same_gif r r1" "ready decode r1 k" "k \<le> i + 1"
      using start_from_ready [OF assms(1) i] by blast
    note facts = same_gif_facts [OF k(2)]
    have same: "gr_palette r1 = gr_palette r" "gr_frames r1 = gr_frames r"
      using k(2) by (simp_all add: same_gif_def)
    obtain res r' where run: "apply_all decode [k..<i + 1] r1 = Some (res, r')" "same_gif r1 r'"
        "reader_ok decode r'"
        "res = (case find (fails_at decode r) [k..<i + 1] of
          Some j \<Rightarrow> Inl (decoding_error j (projl (decode (gr_palette r) (gr_frames r ! j))))
        | None \<Rightarrow> Inr ())" "res = Inr () \<longrightarrow> gr_canvas r' = picture_of decode r i"
      using apply_all_run [OF k(3,4)] i assms(2) unfolding facts same by blast
    have "\<forall>j<k. \<not> fails_at decode r j" using k(3) unfolding ready_def facts by blast
    then have find: "find (fails_at decode r) [0..<i + 1] = find (fails_at decode r) [k..<i + 1]"
      using k(4) by (rule find_upt_from)
    have "gif_frame_at decode i r = Some (gif_shot decode r i, r')"
      unfolding gif_frame_at_def gif_shot_def find using i no_hit k(1) run
      by (simp del: upt_Suc split: option.split_asm)
    then show ?thesis
      using run(3) same_gif_facts [OF same_gif_trans [OF k(2) run(2)]] assms(2) by auto
  qed
qed

lemma picture_size:
  "gif_shot decode r i = Inr px \<Longrightarrow> length px = gr_w r * gr_h r * 4"
  by (auto simp: gif_shot_def length_picture_of simp del: upt_Suc split: if_splits option.splits)

interpretation gif: recording_frames gif_size gr_timeline "gif_frame_at decode"
  "\<lambda>r. reader_ok decode r \<and> sound_frames decode r" "gif_shot decode" for decode
proof
  fix r :: "('a, 'b) gif_reader" and i and px :: bytes
  assume ok: "reader_ok decode r \<and> sound_frames decode r"
  then show "timeline_ok (gr_timeline r)" by (simp add: reader_ok_def reader_base_def)
  show "\<exists>r'. gif_frame_at decode i r = Some (gif_shot decode r i, r') \<and>
      (reader_ok decode r' \<and> sound_frames decode r') \<and> gif_size r' = gif_size r \<and>
      gr_timeline r' = gr_timeline r \<and> gif_shot decode r' = gif_shot decode r"
    using gif_frame_at_shot [of decode r i] ok by auto
  show "length px = unat (fst (gif_size r)) * unat (snd (gif_size r)) * 4"
    if "gif_shot decode r i = Inr px"
    using picture_size [OF that] by (simp add: gif_size_def)
  show "isl (gif_shot decode r i)" if "tl_len (gr_timeline r) \<le> i"
    using ok that by (auto simp: gif_shot_def reader_ok_def reader_base_def)
qed


subsection \<open>Opening a GIF\<close>

definition shown_cs :: "'d gif_frame list \<Rightarrow> nat \<Rightarrow> nat" where
  "shown_cs fs i = sum_list (map (\<lambda>f. max (unat (gf_delay f)) 1) (take i fs))"

lemma shown_cs_Cons:
  "shown_cs (f # fs) (Suc i) = max (unat (gf_delay f)) 1 + shown_cs fs i" "shown_cs fs 0 = 0"
  by (simp_all add: shown_cs_def)

lemma shown_cs_less: "i < j \<Longrightarrow> j \<le> length fs \<Longrightarrow> shown_cs fs i < shown_cs fs j"
proof (induction fs arbitrary: i j)
  case (Cons f fs)
  then obtain j' where j: "j = Suc j'" by (cases j) auto
  show ?case
  proof (cases i)
    case 0
    then show ?thesis by (simp add: j shown_cs_Cons less_max_iff_disj)
  next
    case (Suc i')
    then show ?thesis using Cons j by (simp add: shown_cs_Cons)
  qed
qed simp

lemma read_frames_Inr:
  "read_frames rs cs = Inr (fs, ss, cs') \<longleftrightarrow> rs = map Inr fs \<and>
    ss = map (\<lambda>i. millis ((cs + shown_cs fs i) * 10)) [0..<length fs] \<and>
    cs' = cs + shown_cs fs (length fs)"
proof (induction rs arbitrary: cs fs ss cs')
  case Nil
  then show ?case by (auto simp: shown_cs_def)
next
  case (Cons res rs)
  show ?case
  proof (cases res)
    case (Inl e)
    then show ?thesis by (cases fs) auto
  next
    case (Inr f)
    show ?thesis
    proof (cases fs)
      case Nil
      then show ?thesis using Inr by (auto split: prod.splits)
    next
      case (Cons g gs)
      have "map h [0..<length (g # gs)] = h 0 # map (\<lambda>i. h (Suc i)) [0..<length gs]"
        for h :: "nat \<Rightarrow> nat"
        by (simp add: map_upt_Suc del: upt_Suc)
      then show ?thesis
        using Inr Cons by (auto simp: Cons.IH shown_cs_Cons add.assoc simp del: upt_Suc split: prod.splits)
    qed
  qed
qed

definition gif_timeline :: "'d gif_frame list \<Rightarrow> timeline" where
  "gif_timeline fs = \<lparr>starts = map (\<lambda>i. millis (shown_cs fs i * 10)) [0..<length fs],
     tl_duration = millis (shown_cs fs (length fs) * 10)\<rparr>"

lemma gif_timeline_ok:
  assumes "fs \<noteq> []"
  shows "timeline_ok (gif_timeline fs)"
proof -
  have "sorted_wrt (<) (starts (gif_timeline fs))"
    using shown_cs_less [of _ _ fs]
    by (auto simp: gif_timeline_def sorted_wrt_iff_nth_less millis_def)
  moreover have "last (starts (gif_timeline fs)) < tl_duration (gif_timeline fs)"
    using shown_cs_less [of "length fs - 1" "length fs" fs] assms
    by (simp add: gif_timeline_def last_map millis_def)
  ultimately show ?thesis
    using assms by (simp add: timeline_ok_def gif_timeline_def shown_cs_Cons millis_def)
qed

lemma unat_ucast_u16: "unat (ucast (w :: u16) :: u32) = unat w"
  using unsigned_less [of w, where ?'a = nat]
  by (simp add: unsigned_ucast_eq take_bit_nat_eq_self)

lemma gif_reader_new_iff:
  fixes parse :: "'f \<Rightarrow> ustring + ('p, 'd) gif_file"
    and decode :: "'p option \<Rightarrow> 'd gif_frame \<Rightarrow> ustring + bytes"
  assumes "parse bs = Inr file"
  shows "((\<exists>r. gif_reader_new parse bs = Inr r) \<longleftrightarrow>
      (\<exists>fs. file_frames file = map Inr fs \<and> fs \<noteq> []) \<and> file_width file \<noteq> 0 \<and> file_height file \<noteq> 0) \<and>
    (\<forall>r. gif_reader_new parse bs = Inr r \<longrightarrow>
      reader_ok decode r \<and> file_frames file = map Inr (gr_frames r) \<and>
      gr_timeline r = gif_timeline (gr_frames r) \<and>
      gif_size r = (ucast (file_width file), ucast (file_height file)))"
proof -
  define open_at where "open_at fs = (let frame_bytes = unat (file_width file) * unat (file_height file) * 4;
      spacing = max (div_ceil (length fs * frame_bytes) SNAPSHOT_BUDGET_BYTES) MINIMUM_SNAPSHOT_SPACING
    in \<lparr>gr_width = ucast (file_width file), gr_height = ucast (file_height file),
      gr_frames = fs, gr_timeline = gif_timeline fs, gr_palette = file_palette file,
      gr_canvas = opaque_black frame_bytes, gr_canvas_index = None,
      gr_snapshots = replicate (div_ceil (length fs) spacing) None, gr_spacing = spacing\<rparr>)" for fs :: "'d gif_frame list"
  have new_iff: "gif_reader_new parse bs = Inr r \<longleftrightarrow>
      (\<exists>fs. file_frames file = map Inr fs \<and> fs \<noteq> [] \<and> file_width file \<noteq> 0 \<and> file_height file \<noteq> 0 \<and>
        r = open_at fs)" for r
    using gif_timeline_ok
    by (auto simp: gif_reader_new_def assms read_frames_Inr timeline_new_Inr Let_def open_at_def
        gif_timeline_def)
  have ok: "reader_ok decode (open_at fs)" if "fs \<noteq> []" for fs :: "'d gif_frame list"
  proof -
    have "0 < gr_spacing (open_at fs)"
      by (simp add: open_at_def Let_def MINIMUM_SNAPSHOT_SPACING_def less_max_iff_disj)
    moreover have "length (gr_canvas (open_at fs)) = gr_w (open_at fs) * gr_h (open_at fs) * 4"
      by (simp add: open_at_def Let_def unat_ucast_u16 opaque_black_packed length_packed)
    ultimately show ?thesis
      using gif_timeline_ok [OF that]
      by (simp add: reader_ok_def reader_base_def tl_len_def open_at_def Let_def)
        (simp add: gif_timeline_def)
  qed
  show ?thesis
    unfolding new_iff using ok by (auto simp: open_at_def Let_def gif_size_def)
qed

text \<open>opening a GIF. It is refused exactly when a frame cannot be read, there is no frame or a
  side is zero: a timeline is never the reason, since a zero delay counts as one centisecond.
  What opens has the file's size and frames, frame \<open>i\<close> starting when the delays of the frames
  before it have passed, and is ready to answer any frame (the reader's invariant holds).\<close>

theorem gif_reader_new_spec:
  fixes parse :: "'f \<Rightarrow> ustring + ('p, 'd) gif_file"
    and decode :: "'p option \<Rightarrow> 'd gif_frame \<Rightarrow> ustring + bytes"
  assumes "parse bs = Inr file"
  shows "((\<exists>r. gif_reader_new parse bs = Inr r) \<longleftrightarrow>
      (\<exists>fs. file_frames file = map Inr fs \<and> fs \<noteq> []) \<and> file_width file \<noteq> 0 \<and> file_height file \<noteq> 0) \<and>
    (\<forall>r. gif_reader_new parse bs = Inr r \<longrightarrow>
      reader_ok decode r \<and> file_frames file = map Inr (gr_frames r) \<and>
      gr_timeline r = gif_timeline (gr_frames r) \<and>
      gif_size r = (ucast (file_width file), ucast (file_height file)))"
  using gif_reader_new_iff [of parse bs "file" decode] assms by blast

definition white_dot :: "bool gif_frame" where
  "white_dot = \<lparr>gf_left = 0, gf_top = 0, gf_width = 1, gf_height = 1, gf_delay = 5,
     gf_dispose = DisposeBackground, gf_data = True\<rparr>"

text \<open>A decoder that fails on the frames marked so.\<close>

definition dot_decode :: "unit option \<Rightarrow> bool gif_frame \<Rightarrow> ustring + bytes" where
  "dot_decode p f = (if gf_data f then Inr [255, 255, 255, 255] else Inl (ustr ''truncated''))"

definition dot_file :: "bool list \<Rightarrow> (unit, bool) gif_file" where
  "dot_file marks = \<lparr>file_width = 1, file_height = 1, file_palette = None,
     file_frames = map (\<lambda>m. Inr (white_dot\<lparr>gf_data := m\<rparr>)) marks\<rparr>"

definition dot_reader :: "bool list \<Rightarrow> (unit, bool) gif_reader" where
  "dot_reader marks = projr (gif_reader_new (\<lambda>_. Inr (dot_file marks)) ())"

lemma opaque_black_4: "opaque_black 4 = black"
  by (simp add: eval_nat_numeral)

lemma dot_reader_value:
  "gif_reader_new (\<lambda>_. Inr (dot_file [True, m])) () = Inr \<lparr>gr_width = 1, gr_height = 1,
     gr_frames = [white_dot, white_dot\<lparr>gf_data := m\<rparr>],
     gr_timeline = \<lparr>starts = [0, 50000000], tl_duration = 100000000\<rparr>, gr_palette = None,
     gr_canvas = [0, 0, 0, 255], gr_canvas_index = None, gr_snapshots = [None], gr_spacing = 8\<rparr>"
  by (simp add: gif_reader_new_def dot_file_def white_dot_def timeline_new_def millis_def
      div_ceil_def SNAPSHOT_BUDGET_BYTES_def MINIMUM_SNAPSHOT_SPACING_def opaque_black_4)

lemma dot_reader_opens:
  "gif_reader_new (\<lambda>_. Inr (dot_file [True, m])) () = Inr (dot_reader [True, m])"
  by (simp add: dot_reader_def dot_reader_value)

lemma gif_reader_new_spec_witness:
  "reader_ok dot_decode (dot_reader [True, True])"
  using gif_reader_new_spec [of "\<lambda>_. Inr (dot_file [True, True])" "()" "dot_file [True, True]" dot_decode]
    dot_reader_opens [of True] by blast

lemma dot_reader_ok: "reader_ok dot_decode (dot_reader [True, True])"
  by (simp add: dot_reader_def dot_reader_value reader_ok_def reader_base_def timeline_ok_def
      tl_len_def div_ceil_def)


definition dot_after :: "bytes \<Rightarrow> (unit, bool) gif_reader" where
  "dot_after c = \<lparr>gr_width = 1, gr_height = 1,
     gr_frames = [white_dot, white_dot\<lparr>gf_data := False\<rparr>],
     gr_timeline = \<lparr>starts = [0, 50000000], tl_duration = 100000000\<rparr>, gr_palette = None,
     gr_canvas = c, gr_canvas_index = Some 0, gr_snapshots = [Some [255, 255, 255, 255]],
     gr_spacing = 8\<rparr>"

lemma dot_draws:
  "draw_frame 1 1 white_dot [255, 255, 255, 255] black = Some [255, 255, 255, 255]"
  by (simp add: draw_frame_def white_dot_def draw_pixel_def [abs_def] slice_def put_bytes_def)

lemma dot_clears: "fill_rect 1 1 white_dot [255, 255, 255, 255] = Some black"
  by (simp add: fill_rect_def white_dot_def put_bytes_def)

lemma dot_first:
  "gif_frame_at dot_decode 0 (dot_reader [True, False]) =
    Some (Inr [255, 255, 255, 255], dot_after [255, 255, 255, 255])"
  using dot_draws
  by (simp add: gif_frame_at_def dot_reader_def dot_reader_value start_from_def nearest_snapshot_def
      gif_apply_def dispose_previous_def keep_snapshot_def get_def opaque_black_4 dot_after_def
      dot_decode_def white_dot_def)

lemma dot_second:
  "gif_frame_at dot_decode 1 (dot_after [255, 255, 255, 255]) =
    Some (Inl (decoding_error 1 (ustr ''truncated'')), dot_after black)"
  using dot_clears
  by (simp add: gif_frame_at_def start_from_def nearest_snapshot_def
      gif_apply_def dispose_previous_def get_def dot_after_def dot_decode_def white_dot_def)

lemma dot_again: "gif_frame_at dot_decode 0 (dot_after c) = Some (Inr c, dot_after c)"
  by (simp add: gif_frame_at_def dot_after_def)

text \<open>where the reader's promise ends. If a frame that does not decode follows one disposed of
  to the background, \<open>apply\<close> has already cleared that rectangle when it gives up, while
  \<open>canvas_index\<close> still names the frame before: asking for that frame again then answers the
  cleared canvas as if it were the frame. Here a white dot is followed by a frame whose data is
  damaged; reading frames 0, 1, 0 answers white, an error, and black.\<close>

theorem damaged_frame_spoils_the_canvas:
  "\<exists>r'. read_each (gif_frame_at dot_decode) [0, 1, 0] (dot_reader [True, False]) =
    Some ([Inr [255, 255, 255, 255], Inl (decoding_error 1 (ustr ''truncated'')), Inr black], r') \<and>
    gif_shot dot_decode (dot_reader [True, False]) 0 = Inr [255, 255, 255, 255]"
  by (simp add: dot_first dot_second [simplified] dot_again)
    (simp add: dot_reader_def dot_reader_value gif_shot_def fails_at_def picture_of_def packed_def
      frame_rgba_def drawn_def covers_def bgra_at_def white_dot_def dot_decode_def)

end
