(* ===== verification/Animation.thy ===== *)
theory Animation
  imports GifPlayback
begin

section \<open>Writing an animated GIF\<close>

text \<open>
  \<open>GifWriter\<close> of \<open>crates/captastic-core/src/animation.rs\<close>. The \<open>gif\<close> crate's encoder is a
  parameter: \<open>create\<close> opens it for a picture's size and makes it loop, \<open>write_frame\<close> appends a
  frame, \<open>close\<close> is \<open>into_inner\<close>; \<open>quantize\<close> is \<open>Frame::from_rgba_speed\<close> with the crate's
  sampling factor, whose result but for the frame's place, delay and disposal is the frame's
  data. \<open>write_frame\<close> takes the encoder's state and may fail. Sides and positions are at most
  65535 once \<open>new\<close> has accepted them, so the \<open>u32\<close> box sides are \<open>nat\<close>; centiseconds of a
  \<open>u128\<close> of milliseconds that are narrowed to \<open>u64\<close> are \<open>nat\<close> too, which differ only after five
  billion years. An outer \<open>None\<close> is a panic.
\<close>

datatype animation_error =
    TooLarge u32 u32
  | WrongSize nat nat
  | Encoding ustring

record animation_summary =
  frames_received :: nat
  frames_written :: nat
  summary_duration :: duration

record ('e, 'd) gif_writer =
  gw_encoder :: 'e
  gw_width :: u32
  gw_height :: u32
  gw_previous :: "bytes option"
  gw_pending :: "'d gif_frame option"
  gw_written_cs :: nat
  gw_first_at :: "duration option"
  gw_summary :: animation_summary

definition MINIMUM_DELAY_CS :: nat where
  "MINIMUM_DELAY_CS = 2"

definition u16_try_from :: "nat \<Rightarrow> u16 option" where
  "u16_try_from n = (if n < 65536 then Some (of_nat n) else None)"

record gif_box =
  box_left :: nat
  box_top :: nat
  box_right :: nat
  box_bottom :: nat

definition box_width :: "gif_box \<Rightarrow> nat" where
  "box_width b = box_right b - box_left b"

definition box_height :: "gif_box \<Rightarrow> nat" where
  "box_height b = box_bottom b - box_top b"

subsection \<open>\<open>changed_box\<close>\<close>

definition pixel_differs :: "bytes \<Rightarrow> bytes \<Rightarrow> nat \<Rightarrow> bool" where
  "pixel_differs before after x \<longleftrightarrow> take 3 (drop (x * 4) before) \<noteq> take 3 (drop (x * 4) after)"

text \<open>The loop over a row: the first differing pixel, and the last one found (0 before any).\<close>

definition row_span :: "bytes \<Rightarrow> bytes \<Rightarrow> nat \<Rightarrow> nat option \<times> nat" where
  "row_span before after w =
     fold (\<lambda>x (first, latest). if pixel_differs before after x
         then (Some (case first of None \<Rightarrow> x | Some f \<Rightarrow> f), x) else (first, latest))
       [0..<w] (None, 0)"

definition grow_box :: "gif_box option \<Rightarrow> nat \<Rightarrow> nat \<Rightarrow> nat \<Rightarrow> gif_box" where
  "grow_box found first latest y =
     (case found of
        None \<Rightarrow> \<lparr>box_left = first, box_top = y, box_right = latest, box_bottom = y + 1\<rparr>
      | Some b \<Rightarrow> \<lparr>box_left = min (box_left b) first, box_top = box_top b,
          box_right = max (box_right b) latest, box_bottom = y + 1\<rparr>)"

definition changed_row :: "bytes \<Rightarrow> bytes \<Rightarrow> nat \<Rightarrow> nat \<Rightarrow> gif_box option \<Rightarrow> gif_box option option" where
  "changed_row previous current w y found =
     (let start = y * (w * 4) in
      Option.bind (slice start (start + w * 4) previous) (\<lambda>before.
      Option.bind (slice start (start + w * 4) current) (\<lambda>after.
        if before = after then Some found
        else case row_span before after w of
          (None, _) \<Rightarrow> Some found
        | (Some first, latest) \<Rightarrow> Some (Some (grow_box found first (latest + 1) y)))))"

definition changed_box :: "bytes \<Rightarrow> bytes \<Rightarrow> nat \<Rightarrow> nat \<Rightarrow> gif_box option option" where
  "changed_box previous current w h = fold_opt (changed_row previous current w) [0..<h] None"

subsection \<open>\<open>GifWriter\<close>\<close>

definition gif_writer_new ::
  "(u16 \<Rightarrow> u16 \<Rightarrow> ustring + 'e) \<Rightarrow> u32 \<Rightarrow> u32 \<Rightarrow> animation_error + ('e, 'd) gif_writer" where
  "gif_writer_new create w h =
     (case (u16_try_from (unat w), u16_try_from (unat h)) of
        (Some gif_width, Some gif_height) \<Rightarrow>
          if w = 0 \<or> h = 0 then Inl (TooLarge w h)
          else (case create gif_width gif_height of
            Inl e \<Rightarrow> Inl (Encoding e)
          | Inr encoder \<Rightarrow> Inr \<lparr>gw_encoder = encoder, gw_width = w, gw_height = h,
              gw_previous = None, gw_pending = None, gw_written_cs = 0, gw_first_at = None,
              gw_summary = \<lparr>frames_received = 0, frames_written = 0, summary_duration = 0\<rparr>\<rparr>)
      | _ \<Rightarrow> Inl (TooLarge w h))"

text \<open>The delay \<open>write\<close> gives a frame shown until \<open>until\<close>, in centiseconds.\<close>

definition delay_until :: "nat \<Rightarrow> duration \<Rightarrow> nat" where
  "delay_until written_cs until = max (until div 1000000 div 10 - written_cs) MINIMUM_DELAY_CS"

definition gif_write ::
  "('d gif_frame \<Rightarrow> 'e \<Rightarrow> ustring + 'e) \<Rightarrow> 'd gif_frame \<Rightarrow> duration \<Rightarrow> ('e, 'd) gif_writer \<Rightarrow>
   (animation_error + unit) \<times> ('e, 'd) gif_writer" where
  "gif_write write_frame pending until w =
     (let delay = delay_until (gw_written_cs w) until;
          w = w\<lparr>gw_written_cs := gw_written_cs w + delay\<rparr>;
          frame = pending\<lparr>gf_delay := (case u16_try_from delay of None \<Rightarrow> 65535 | Some d \<Rightarrow> d)\<rparr>
      in case write_frame frame (gw_encoder w) of
           Inl e \<Rightarrow> (Inl (Encoding e), w)
         | Inr encoder \<Rightarrow> (Inr (), w\<lparr>gw_encoder := encoder,
             gw_summary := (gw_summary w)\<lparr>frames_written := frames_written (gw_summary w) + 1\<rparr>\<rparr>))"

text \<open>One pixel of \<open>frame_for\<close>; the indices \<open>at\<close> to \<open>at + 2\<close> are in range when the slice is.\<close>

definition frame_pixel :: "bytes option \<Rightarrow> bytes \<Rightarrow> nat \<Rightarrow> bytes option" where
  "frame_pixel previous bgra at =
     Option.bind (slice at (at + 3) bgra) (\<lambda>now.
       case previous of
         None \<Rightarrow> Some [now ! 2, now ! 1, now ! 0, 255]
       | Some previous \<Rightarrow> Option.bind (slice at (at + 3) previous) (\<lambda>before.
           Some (if before = now then [0, 0, 0, 0] else [now ! 2, now ! 1, now ! 0, 255])))"

definition frame_pixels :: "nat \<Rightarrow> bytes option \<Rightarrow> bytes \<Rightarrow> gif_box \<Rightarrow> bytes option" where
  "frame_pixels w previous bgra region =
     fold_opt (\<lambda>y. fold_opt (\<lambda>x rgba.
         map_option ((@) rgba) (frame_pixel previous bgra ((y * w + x) * 4)))
       [box_left region..<box_right region]) [box_top region..<box_bottom region] []"

definition frame_for ::
  "(u16 \<Rightarrow> u16 \<Rightarrow> bytes \<Rightarrow> 'd) \<Rightarrow> nat \<Rightarrow> bytes option \<Rightarrow> bytes \<Rightarrow> gif_box \<Rightarrow> 'd gif_frame option" where
  "frame_for quantize w previous bgra region =
     map_option (\<lambda>rgba.
       \<lparr>gf_left = of_nat (box_left region), gf_top = of_nat (box_top region),
        gf_width = of_nat (box_width region), gf_height = of_nat (box_height region),
        gf_delay = 0, gf_dispose = DisposeKeep,
        gf_data = quantize (of_nat (box_width region)) (of_nat (box_height region)) rgba\<rparr>)
     (frame_pixels w previous bgra region)"

definition changed_region :: "('e, 'd) gif_writer \<Rightarrow> bytes \<Rightarrow> gif_box option option" where
  "changed_region w bgra =
     (case gw_previous w of
        None \<Rightarrow> Some (Some \<lparr>box_left = 0, box_top = 0,
          box_right = unat (gw_width w), box_bottom = unat (gw_height w)\<rparr>)
      | Some previous \<Rightarrow> changed_box previous bgra (unat (gw_width w)) (unat (gw_height w)))"

definition gif_push ::
  "(u16 \<Rightarrow> u16 \<Rightarrow> bytes \<Rightarrow> 'd) \<Rightarrow> ('d gif_frame \<Rightarrow> 'e \<Rightarrow> ustring + 'e) \<Rightarrow> bytes \<Rightarrow> duration \<Rightarrow>
   ('e, 'd) gif_writer \<Rightarrow> ((animation_error + unit) \<times> ('e, 'd) gif_writer) option" where
  "gif_push quantize write_frame bgra at w =
     (let expected = unat (gw_width w) * unat (gw_height w) * 4 in
      if length bgra \<noteq> expected then Some (Inl (WrongSize expected (length bgra)), w)
      else
        let w = w\<lparr>gw_summary := (gw_summary w)\<lparr>frames_received := frames_received (gw_summary w) + 1\<rparr>\<rparr>;
            first_at = (case gw_first_at w of None \<Rightarrow> at | Some f \<Rightarrow> f);
            w = w\<lparr>gw_first_at := Some first_at\<rparr>;
            shown_at = at - first_at
        in Option.bind (changed_region w bgra) (\<lambda>changed.
          case changed of
            None \<Rightarrow> Some (Inr (), w)
          | Some region \<Rightarrow>
            Option.bind (frame_for quantize (unat (gw_width w)) (gw_previous w) bgra region) (\<lambda>frame.
              let w = w\<lparr>gw_previous := Some bgra\<rparr> in
              case gw_pending w of
                None \<Rightarrow> Some (Inr (), w\<lparr>gw_pending := Some frame\<rparr>)
              | Some pending \<Rightarrow>
                  (case gif_write write_frame pending shown_at (w\<lparr>gw_pending := None\<rparr>) of
                     (Inl e, w) \<Rightarrow> Some (Inl e, w)
                   | (Inr _, w) \<Rightarrow> Some (Inr (), w\<lparr>gw_pending := Some frame\<rparr>)))))"

definition gif_finish ::
  "('d gif_frame \<Rightarrow> 'e \<Rightarrow> ustring + 'e) \<Rightarrow> ('e \<Rightarrow> ustring + 'f) \<Rightarrow> duration \<Rightarrow> ('e, 'd) gif_writer \<Rightarrow>
   animation_error + ('f \<times> animation_summary)" where
  "gif_finish write_frame close fin w =
     (let first_at = (case gw_first_at w of None \<Rightarrow> fin | Some f \<Rightarrow> f);
          fin = fin - first_at
      in case (case gw_pending w of
                 None \<Rightarrow> (Inr (), w)
               | Some pending \<Rightarrow> gif_write write_frame pending fin (w\<lparr>gw_pending := None\<rparr>)) of
           (Inl e, _) \<Rightarrow> Inl e
         | (Inr _, w) \<Rightarrow>
             (case close (gw_encoder w) of
                Inl e \<Rightarrow> Inl (Encoding e)
              | Inr file \<Rightarrow> Inr (file, (gw_summary w)\<lparr>summary_duration := fin\<rparr>)))"

text \<open>A recording: every captured frame pushed in turn, until one fails.\<close>

fun push_all ::
  "(u16 \<Rightarrow> u16 \<Rightarrow> bytes \<Rightarrow> 'd) \<Rightarrow> ('d gif_frame \<Rightarrow> 'e \<Rightarrow> ustring + 'e) \<Rightarrow> (bytes \<times> duration) list \<Rightarrow>
   ('e, 'd) gif_writer \<Rightarrow> ((animation_error + unit) \<times> ('e, 'd) gif_writer) option" where
  "push_all quantize write_frame [] w = Some (Inr (), w)"
| "push_all quantize write_frame ((bgra, at) # ps) w =
     (case gif_push quantize write_frame bgra at w of
        None \<Rightarrow> None
      | Some (Inl e, w') \<Rightarrow> Some (Inl e, w')
      | Some (Inr _, w') \<Rightarrow> push_all quantize write_frame ps w')"

subsection \<open>The box of what changed\<close>

definition colour_at :: "nat \<Rightarrow> bytes \<Rightarrow> nat \<Rightarrow> nat \<Rightarrow> bytes" where
  "colour_at w px x y = take 3 (bgra_at w px x y)"

definition differs :: "nat \<Rightarrow> bytes \<Rightarrow> bytes \<Rightarrow> nat \<Rightarrow> nat \<Rightarrow> bool" where
  "differs w a b x y \<longleftrightarrow> colour_at w a x y \<noteq> colour_at w b x y"

text \<open>The smallest box around the pixels of the rows before \<open>k\<close> for which \<open>d\<close> holds.\<close>

definition tight_box :: "nat \<Rightarrow> nat \<Rightarrow> (nat \<Rightarrow> nat \<Rightarrow> bool) \<Rightarrow> gif_box \<Rightarrow> bool" where
  "tight_box w k d b \<longleftrightarrow>
     (\<forall>x<w. \<forall>y<k. d x y \<longrightarrow> box_left b \<le> x \<and> x < box_right b \<and> box_top b \<le> y \<and> y < box_bottom b) \<and>
     box_right b \<le> w \<and> box_bottom b \<le> k \<and> 0 < box_right b \<and> 0 < box_bottom b \<and>
     (\<exists>y<k. d (box_left b) y) \<and> (\<exists>y<k. d (box_right b - 1) y) \<and>
     (\<exists>x<w. d x (box_top b)) \<and> (\<exists>x<w. d x (box_bottom b - 1)) \<and> box_left b < w \<and> box_top b < k"

lemma tight_box_order:
  "tight_box w k d b \<Longrightarrow> box_left b < box_right b \<and> box_top b < box_bottom b"
  unfolding tight_box_def by blast

lemma row_span_value:
  "row_span before after w = (None, 0) \<and> (\<forall>x<w. \<not> pixel_differs before after x) \<or>
   (\<exists>f l. row_span before after w = (Some f, l) \<and> f < w \<and> l < w \<and> pixel_differs before after f \<and>
     pixel_differs before after l \<and> (\<forall>x<w. pixel_differs before after x \<longrightarrow> f \<le> x \<and> x \<le> l))"
proof (induction w)
  case 0
  then show ?case by (simp add: row_span_def)
next
  case (Suc w)
  have step: "row_span before after (Suc w) =
      (case row_span before after w of (first, latest) \<Rightarrow>
        if pixel_differs before after w
        then (Some (case first of None \<Rightarrow> w | Some f \<Rightarrow> f), w) else (first, latest))"
    by (simp add: row_span_def)
  show ?case
  proof (cases "pixel_differs before after w")
    case True
    from Suc.IH show ?thesis
    proof (elim disjE exE conjE)
      assume "row_span before after w = (None, 0)" "\<forall>x<w. \<not> pixel_differs before after x"
      then show ?thesis using True step by (simp add: less_Suc_eq)
    next
      fix f l
      assume "row_span before after w = (Some f, l)" "f < w" "l < w" "pixel_differs before after f"
        "\<forall>x<w. pixel_differs before after x \<longrightarrow> f \<le> x \<and> x \<le> l"
      then show ?thesis using True step by (auto simp: less_Suc_eq)
    qed
  next
    case False
    from Suc.IH show ?thesis
    proof (elim disjE exE conjE)
      assume "row_span before after w = (None, 0)" "\<forall>x<w. \<not> pixel_differs before after x"
      then show ?thesis using False step by (simp add: less_Suc_eq)
    next
      fix f l
      assume "row_span before after w = (Some f, l)" "f < w" "l < w" "pixel_differs before after f"
        "pixel_differs before after l" "\<forall>x<w. pixel_differs before after x \<longrightarrow> f \<le> x \<and> x \<le> l"
      then show ?thesis using False step by (auto simp: less_Suc_eq)
    qed
  qed
qed

lemma row_pixel:
  assumes "x < w"
  shows "take 3 (drop (x * 4) (take (w * 4) (drop (y * (w * 4)) px))) = colour_at w px x y"
proof -
  have "3 \<le> w * 4 - x * 4" using assms by simp
  then show ?thesis
    by (simp add: colour_at_def bgra_at_def drop_take min_def algebra_simps)
qed

lemma changed_row_value:
  assumes "length a = w * h * 4" and "length b = w * h * 4" and "y < h"
  shows "changed_row a b w y found =
    Some (if \<exists>x<w. differs w a b x y
      then Some (grow_box found (Min {x. x < w \<and> differs w a b x y})
        (Max {x. x < w \<and> differs w a b x y} + 1) y)
      else found)"
proof -
  let ?row = "\<lambda>px. take (w * 4) (drop (y * (w * 4)) px)"
  have le: "y * (w * 4) + w * 4 \<le> w * h * 4"
    using mult_le_mono1 [of "Suc y" h "w * 4"] assms(3) by (simp add: algebra_simps)
  have d: "pixel_differs (?row a) (?row b) x \<longleftrightarrow> differs w a b x y" if "x < w" for x
    using row_pixel [OF that] by (simp add: pixel_differs_def differs_def)
  have eq: "changed_row a b w y found =
      (if ?row a = ?row b then Some found
       else case row_span (?row a) (?row b) w of
          (None, _) \<Rightarrow> Some found
        | (Some first, latest) \<Rightarrow> Some (Some (grow_box found first (latest + 1) y)))"
    using le assms by (simp add: changed_row_def slice_def Let_def)
  show ?thesis
  proof (cases "\<exists>x<w. differs w a b x y")
    case False
    then have "row_span (?row a) (?row b) w = (None, 0)"
      using row_span_value [of "?row a" "?row b" w] d by blast
    with False show ?thesis by (auto simp: eq)
  next
    case True
    then have "?row a \<noteq> ?row b" using d by (auto simp: pixel_differs_def)
    obtain f l where f: "row_span (?row a) (?row b) w = (Some f, l)" "f < w" "l < w"
        "differs w a b f y" "differs w a b l y" "\<forall>x<w. differs w a b x y \<longrightarrow> f \<le> x \<and> x \<le> l"
      using row_span_value [of "?row a" "?row b" w] d True by blast
    have "Min {x. x < w \<and> differs w a b x y} = f" using f by (intro Min_eqI) auto
    moreover have "Max {x. x < w \<and> differs w a b x y} = l" using f by (intro Max_eqI) auto
    ultimately show ?thesis using True \<open>?row a \<noteq> ?row b\<close> f(1) by (simp add: eq)
  qed
qed

lemma grow_box_tight:
  fixes d :: "nat \<Rightarrow> nat \<Rightarrow> bool"
  assumes "case found of None \<Rightarrow> \<forall>x<w. \<forall>y<k. \<not> d x y | Some b \<Rightarrow> tight_box w k d b"
    and "\<exists>x<w. d x k"
  shows "tight_box w (Suc k) d (grow_box found (Min {x. x < w \<and> d x k}) (Max {x. x < w \<and> d x k} + 1) k)"
proof -
  let ?X = "{x. x < w \<and> d x k}"
  define f l where "f = Min ?X" and "l = Max ?X"
  have X: "finite ?X" "?X \<noteq> {}" using assms(2) by auto
  have f: "f < w" "d f k" and l: "l < w" "d l k"
    using Min_in [OF X] Max_in [OF X] by (simp_all add: f_def l_def)
  have range: "f \<le> x \<and> x \<le> l" if "x < w" "d x k" for x
    using X that by (simp add: f_def l_def)
  show ?thesis
  proof (cases found)
    case None
    then show ?thesis
      unfolding f_def [symmetric] l_def [symmetric] tight_box_def grow_box_def
      using f l range assms(1) by (auto simp: less_Suc_eq_le le_less [of _ k])
  next
    case (Some b)
    then have b: "tight_box w k d b" using assms(1) by simp
    have inside: "box_left b \<le> x \<and> x < box_right b \<and> box_top b \<le> y \<and> y < box_bottom b"
      if "x < w" "y < k" "d x y" for x y
      using b that unfolding tight_box_def by blast
    have edges: "box_right b \<le> w" "box_bottom b \<le> k" "0 < box_right b"
      "\<exists>y<k. d (box_left b) y" "\<exists>y<k. d (box_right b - 1) y" "\<exists>x<w. d x (box_top b)"
      "box_left b < w" "box_top b < k"
      using b unfolding tight_box_def by blast+
    define left right where "left = min (box_left b) f" and "right = max (box_right b) (l + 1)"
    have "left \<le> x \<and> x < right \<and> box_top b \<le> y \<and> y < Suc k" if "x < w" "y < Suc k" "d x y" for x y
    proof (cases "y = k")
      case True
      then show ?thesis
        using range [of x] that edges(8) by (auto simp: left_def right_def)
    next
      case False
      then show ?thesis using inside [of x y] that by (auto simp: left_def right_def)
    qed
    moreover have "\<exists>y<Suc k. d left y"
      using edges(4) f(2) by (auto simp: left_def min_def less_Suc_eq)
    moreover have "\<exists>y<Suc k. d (right - 1) y"
      using edges(5) l(2) by (auto simp: right_def max_def less_Suc_eq)
    moreover have "left < w" "right \<le> w" "0 < right"
      using edges f l by (auto simp: left_def right_def)
    moreover have "\<exists>x<w. d x (k + 1 - 1)" "box_top b < Suc k"
      using f edges by auto
    moreover have "grow_box found f (l + 1) k =
        \<lparr>box_left = left, box_top = box_top b, box_right = right, box_bottom = k + 1\<rparr>"
      by (simp add: grow_box_def Some left_def right_def)
    ultimately show ?thesis
      unfolding f_def [symmetric] l_def [symmetric] tight_box_def
      using edges(6) by (simp only: gif_box.simps) simp
  qed
qed

lemma changed_box_value:
  assumes "length a = w * h * 4" and "length b = w * h * 4"
  shows "\<exists>found. changed_box a b w h = Some found \<and>
    (case found of None \<Rightarrow> \<forall>x<w. \<forall>y<h. \<not> differs w a b x y | Some r \<Rightarrow> tight_box w h (differs w a b) r)"
proof -
  have "\<exists>found. fold_opt (changed_row a b w) [0..<k] None = Some found \<and>
      (case found of None \<Rightarrow> \<forall>x<w. \<forall>y<k. \<not> differs w a b x y
        | Some r \<Rightarrow> tight_box w k (differs w a b) r)"
    if "k \<le> h" for k
    using that
  proof (induction k)
    case (Suc k)
    then obtain found where found: "fold_opt (changed_row a b w) [0..<k] None = Some found"
        "case found of None \<Rightarrow> \<forall>x<w. \<forall>y<k. \<not> differs w a b x y
          | Some r \<Rightarrow> tight_box w k (differs w a b) r" by auto
    have row: "changed_row a b w k found =
      Some (if \<exists>x<w. differs w a b x k
        then Some (grow_box found (Min {x. x < w \<and> differs w a b x k})
          (Max {x. x < w \<and> differs w a b x k} + 1) k) else found)"
      using changed_row_value [OF assms] Suc.prems by simp
    show ?case
    proof (cases "\<exists>x<w. differs w a b x k")
      case True
      then show ?thesis
        using found(1) row grow_box_tight [OF found(2) True] by (simp add: fold_opt_append)
    next
      case False
      have "case found of None \<Rightarrow> \<forall>x<w. \<forall>y<Suc k. \<not> differs w a b x y
          | Some r \<Rightarrow> tight_box w (Suc k) (differs w a b) r"
        using found(2) False unfolding tight_box_def
        by (cases found) (fastforce simp: less_Suc_eq)+
      then show ?thesis
        using found(1) row False by (simp add: fold_opt_append)
    qed
  qed simp
  then show ?thesis by (simp add: changed_box_def)
qed

subsection \<open>The frame for what changed\<close>

lemma fold_opt_append_loop:
  assumes "\<And>x out. x \<in> set xs \<Longrightarrow> body x out = Some (out @ f x)"
  shows "fold_opt body xs out = Some (out @ concat (map f xs))"
  using assms by (induction xs arbitrary: out) simp_all

definition sent_pixel :: "nat \<Rightarrow> bytes option \<Rightarrow> bytes \<Rightarrow> nat \<Rightarrow> nat \<Rightarrow> bytes" where
  "sent_pixel w previous bgra x y =
     (let now = colour_at w bgra x y in
      case previous of
        Some before \<Rightarrow> if colour_at w before x y = now then [0, 0, 0, 0] else [now ! 2, now ! 1, now ! 0, 255]
      | None \<Rightarrow> [now ! 2, now ! 1, now ! 0, 255])"

lemma length_sent_pixel: "length (sent_pixel w previous bgra x y) = 4"
  by (auto simp: sent_pixel_def Let_def split: option.split)

lemma colour_slice:
  assumes "length px = w * h * 4" and "x < w" and "y < h"
  shows "slice ((y * w + x) * 4) ((y * w + x) * 4 + 3) px = Some (colour_at w px x y)"
  using bgra_at_in_range [OF assms(2,3)] assms(1)
  by (simp add: colour_at_def bgra_at_def)

lemma frame_pixel_value:
  assumes "length bgra = w * h * 4" and "\<forall>p. previous = Some p \<longrightarrow> length p = w * h * 4"
    and "x < w" and "y < h"
  shows "frame_pixel previous bgra ((y * w + x) * 4) = Some (sent_pixel w previous bgra x y)"
  using colour_slice [OF assms(1,3,4)] assms(2) colour_slice [OF _ assms(3,4)]
  by (cases previous) (simp_all add: frame_pixel_def sent_pixel_def Let_def del: slice_eq_Some)

definition region_fits :: "gif_box \<Rightarrow> nat \<Rightarrow> nat \<Rightarrow> bool" where
  "region_fits r w h \<longleftrightarrow> box_left r < box_right r \<and> box_right r \<le> w \<and> box_top r < box_bottom r \<and>
     box_bottom r \<le> h"

lemma frame_pixels_value:
  assumes "length bgra = w * h * 4" and "\<forall>p. previous = Some p \<longrightarrow> length p = w * h * 4"
    and "region_fits r w h"
  shows "frame_pixels w previous bgra r = Some (packed (box_width r) (box_height r)
    (\<lambda>x y. sent_pixel w previous bgra (box_left r + x) (box_top r + y)))"
proof -
  let ?row = "\<lambda>y. concat (map (\<lambda>x. sent_pixel w previous bgra x y) [box_left r..<box_right r])"
  have shift: "[a..<b] = map ((+) a) [0..<b - a]" if "a \<le> b" for a b :: nat
  proof -
    have "(+) a = (\<lambda>i. i + a)" by (simp add: fun_eq_iff)
    then show ?thesis using map_add_upt [of a "b - a"] that by simp
  qed
  have row: "fold_opt (\<lambda>x rgba. map_option ((@) rgba) (frame_pixel previous bgra ((y * w + x) * 4)))
      [box_left r..<box_right r] out = Some (out @ ?row y)"
    if "y \<in> set [box_top r..<box_bottom r]" for y out
    using that assms(3) frame_pixel_value [OF assms(1,2)]
    by (intro fold_opt_append_loop) (simp add: region_fits_def)
  have "frame_pixels w previous bgra r = Some ([] @ concat (map ?row [box_top r..<box_bottom r]))"
    unfolding frame_pixels_def by (rule fold_opt_append_loop) (rule row)
  then show ?thesis
    using assms(3)
    by (simp add: packed_def region_fits_def box_width_def box_height_def
        shift [of "box_left r" "box_right r"] shift [of "box_top r" "box_bottom r"] comp_def)
qed

text \<open>The region pushed for a frame: all of the first, then what differs.\<close>

definition region_of :: "nat \<Rightarrow> nat \<Rightarrow> bytes option \<Rightarrow> bytes \<Rightarrow> gif_box option" where
  "region_of w h previous bgra =
     (case previous of
        None \<Rightarrow> Some \<lparr>box_left = 0, box_top = 0, box_right = w, box_bottom = h\<rparr>
      | Some p \<Rightarrow> the (changed_box p bgra w h))"

definition sized :: "nat \<Rightarrow> nat \<Rightarrow> bytes option \<Rightarrow> bool" where
  "sized w h previous \<longleftrightarrow> (\<forall>p. previous = Some p \<longrightarrow> length p = w * h * 4)"

lemma region_of_fits:
  assumes "sized w h previous" and "length bgra = w * h * 4" and "0 < w" and "0 < h"
    and "region_of w h previous bgra = Some r"
  shows "region_fits r w h"
proof (cases previous)
  case None
  then show ?thesis using assms by (auto simp: region_of_def region_fits_def)
next
  case (Some p)
  then have "length p = w * h * 4" using assms(1) by (simp add: sized_def)
  from changed_box_value [OF this assms(2)] have "tight_box w h (differs w p bgra) r"
    using assms(5) Some by (auto simp: region_of_def)
  then show ?thesis
    using tight_box_order by (auto simp: region_fits_def tight_box_def)
qed

lemma region_of_outside:
  assumes "sized w h previous" and "length bgra = w * h * 4" and "x < w" and "y < h"
    and "\<And>r. region_of w h previous bgra = Some r \<Longrightarrow>
      \<not> (box_left r \<le> x \<and> x < box_right r \<and> box_top r \<le> y \<and> y < box_bottom r)"
  shows "\<exists>p. previous = Some p \<and> colour_at w p x y = colour_at w bgra x y"
proof (cases previous)
  case None
  then show ?thesis using assms(3-5) by (auto simp: region_of_def)
next
  case (Some p)
  then have "length p = w * h * 4" using assms(1) by (simp add: sized_def)
  from changed_box_value [OF this assms(2)] obtain found where
    found: "region_of w h previous bgra = found"
      "case found of None \<Rightarrow> \<forall>x<w. \<forall>y<h. \<not> differs w p bgra x y | Some r \<Rightarrow> tight_box w h (differs w p bgra) r"
    using Some by (auto simp: region_of_def)
  have "\<not> differs w p bgra x y"
  proof (cases found)
    case None
    then show ?thesis using found(2) assms(3,4) by simp
  next
    case (Some r)
    then show ?thesis using found assms(3-5) by (fastforce simp: tight_box_def)
  qed
  then show ?thesis using Some by (simp add: differs_def)
qed

definition gif_frame_of ::
  "(u16 \<Rightarrow> u16 \<Rightarrow> bytes \<Rightarrow> 'd) \<Rightarrow> nat \<Rightarrow> bytes option \<Rightarrow> bytes \<Rightarrow> gif_box \<Rightarrow> 'd gif_frame" where
  "gif_frame_of quantize w previous bgra r =
     \<lparr>gf_left = of_nat (box_left r), gf_top = of_nat (box_top r),
      gf_width = of_nat (box_width r), gf_height = of_nat (box_height r),
      gf_delay = 0, gf_dispose = DisposeKeep,
      gf_data = quantize (of_nat (box_width r)) (of_nat (box_height r))
        (packed (box_width r) (box_height r)
          (\<lambda>x y. sent_pixel w previous bgra (box_left r + x) (box_top r + y)))\<rparr>"

lemma frame_for_value:
  assumes "length bgra = w * h * 4" and "sized w h previous" and "region_fits r w h"
  shows "frame_for quantize w previous bgra r = Some (gif_frame_of quantize w previous bgra r)"
  using frame_pixels_value [OF assms(1) _ assms(3), of previous] assms(2)
  by (simp add: frame_for_def gif_frame_of_def sized_def)

subsection \<open>What the \<open>gif\<close> crate promises\<close>

text \<open>
  \<open>near c c'\<close>: the colour \<open>c'\<close> is what quantizing may make of \<open>c\<close>. The encoder keeps the frames it
  is given, in order; parsing what it closed gives them back; and decoding a frame gives a buffer of
  its size in which a transparent pixel is transparent and an opaque one is opaque and near what
  was given. \<open>contents\<close> and \<open>extent\<close> are the encoder's frames so far and its picture size.
\<close>

definition gif_codec ::
  "(bytes \<Rightarrow> bytes \<Rightarrow> bool) \<Rightarrow> (u16 \<Rightarrow> u16 \<Rightarrow> ustring + 'e) \<Rightarrow> ('d gif_frame \<Rightarrow> 'e \<Rightarrow> ustring + 'e) \<Rightarrow>
   ('e \<Rightarrow> ustring + 'f) \<Rightarrow> ('f \<Rightarrow> ustring + ('p, 'd) gif_file) \<Rightarrow>
   ('p option \<Rightarrow> 'd gif_frame \<Rightarrow> ustring + bytes) \<Rightarrow> (u16 \<Rightarrow> u16 \<Rightarrow> bytes \<Rightarrow> 'd) \<Rightarrow>
   ('e \<Rightarrow> 'd gif_frame list) \<Rightarrow> ('e \<Rightarrow> u16 \<times> u16) \<Rightarrow> bool" where
  "gif_codec near create write_frame close parse decode quantize contents extent \<longleftrightarrow>
     (\<forall>w h e. create w h = Inr e \<longrightarrow> contents e = [] \<and> extent e = (w, h)) \<and>
     (\<forall>f e e'. write_frame f e = Inr e' \<longrightarrow> contents e' = contents e @ [f] \<and> extent e' = extent e) \<and>
     (\<forall>e file. close e = Inr file \<longrightarrow> (\<exists>g. parse file = Inr g \<and> file_frames g = map Inr (contents e) \<and>
       (file_width g, file_height g) = extent e)) \<and>
     (\<forall>f p rgba. gf_data f = quantize (gf_width f) (gf_height f) rgba \<and>
        length rgba = unat (gf_width f) * unat (gf_height f) * 4 \<longrightarrow>
       (\<exists>out. decode p f = Inr out \<and> length out = length rgba \<and>
         (\<forall>x < unat (gf_width f). \<forall>y < unat (gf_height f).
           let given = bgra_at (unat (gf_width f)) rgba x y; got = bgra_at (unat (gf_width f)) out x y in
           (given ! 3 = 0 \<longrightarrow> got ! 3 = 0) \<and>
           (given ! 3 = 255 \<longrightarrow> got ! 3 \<noteq> 0 \<and> near (rev (take 3 given)) (rev (take 3 got))))))"

lemma codec_decode:
  assumes "gif_codec near create write_frame close parse decode quantize contents extent"
    and "gf_data f = quantize (gf_width f) (gf_height f) rgba"
    and "length rgba = unat (gf_width f) * unat (gf_height f) * 4"
  shows "\<exists>out. decode p f = Inr out \<and> length out = length rgba \<and>
    (\<forall>x < unat (gf_width f). \<forall>y < unat (gf_height f).
      let given = bgra_at (unat (gf_width f)) rgba x y; got = bgra_at (unat (gf_width f)) out x y in
      (given ! 3 = 0 \<longrightarrow> got ! 3 = 0) \<and>
      (given ! 3 = 255 \<longrightarrow> got ! 3 \<noteq> 0 \<and> near (rev (take 3 given)) (rev (take 3 got))))"
proof -
  from assms(1) have "\<forall>f p rgba. gf_data f = quantize (gf_width f) (gf_height f) rgba \<and>
        length rgba = unat (gf_width f) * unat (gf_height f) * 4 \<longrightarrow>
       (\<exists>out. decode p f = Inr out \<and> length out = length rgba \<and>
         (\<forall>x < unat (gf_width f). \<forall>y < unat (gf_height f).
           let given = bgra_at (unat (gf_width f)) rgba x y; got = bgra_at (unat (gf_width f)) out x y in
           (given ! 3 = 0 \<longrightarrow> got ! 3 = 0) \<and>
           (given ! 3 = 255 \<longrightarrow> got ! 3 \<noteq> 0 \<and> near (rev (take 3 given)) (rev (take 3 got)))))"
    unfolding gif_codec_def by (elim conjE)
  then show ?thesis using assms(2,3) by blast
qed

text \<open>One decoded frame over the picture before it.\<close>

lemma drawn_frame:
  assumes codec: "gif_codec near create write_frame close parse decode quantize contents extent"
    and f: "f = (gif_frame_of quantize w previous bgra r)\<lparr>gf_delay := d\<rparr>"
    and fits: "region_fits r w h" and "w < 65536" and "h < 65536"
    and len: "length bgra = w * h * 4" and xy: "x < w" "y < h"
  shows "(covers f x y \<longleftrightarrow> box_left r \<le> x \<and> x < box_right r \<and> box_top r \<le> y \<and> y < box_bottom r) \<and>
    (\<exists>out. decode p f = Inr out \<and> length out = unat (gf_width f) * unat (gf_height f) * 4) \<and>
    (covers f x y \<longrightarrow>
      (if previous \<noteq> None \<and> colour_at w (the previous) x y = colour_at w bgra x y
       then drawn (frame_rgba decode p) f x y = None
       else \<exists>c. drawn (frame_rgba decode p) f x y = Some (c @ [255]) \<and> length c = 3 \<and>
         near (colour_at w bgra x y) c))"
proof -
  have small: "unat (of_nat n :: u16) = n" if "n < 65536" for n
    using that by (simp add: unat_of_nat)
  have r: "box_left r < box_right r" "box_right r \<le> w" "box_top r < box_bottom r" "box_bottom r \<le> h"
    using fits by (simp_all add: region_fits_def)
  have sides: "unat (gf_left f) = box_left r" "unat (gf_top f) = box_top r"
    "unat (gf_width f) = box_width r" "unat (gf_height f) = box_height r"
    using r assms(4,5) by (simp_all add: f gif_frame_of_def small box_width_def box_height_def del: of_nat_diff)
  have cov: "covers f x y \<longleftrightarrow> box_left r \<le> x \<and> x < box_right r \<and> box_top r \<le> y \<and> y < box_bottom r"
    using r by (auto simp: covers_def sides box_width_def box_height_def)
  let ?pic = "\<lambda>x y. sent_pixel w previous bgra (box_left r + x) (box_top r + y)"
  let ?rgba = "packed (box_width r) (box_height r) ?pic"
  have data: "gf_data f = quantize (gf_width f) (gf_height f) ?rgba"
    by (simp add: f gif_frame_of_def)
  have len_rgba: "length ?rgba = unat (gf_width f) * unat (gf_height f) * 4"
    unfolding sides by (rule length_packed) (rule length_sent_pixel)
  obtain out where out: "decode p f = Inr out" "length out = unat (gf_width f) * unat (gf_height f) * 4"
      "\<forall>x < box_width r. \<forall>y < box_height r.
           let given = bgra_at (box_width r) ?rgba x y; got = bgra_at (box_width r) out x y in
           (given ! 3 = 0 \<longrightarrow> got ! 3 = 0) \<and>
           (given ! 3 = 255 \<longrightarrow> got ! 3 \<noteq> 0 \<and> near (rev (take 3 given)) (rev (take 3 got)))"
    using codec_decode [OF codec data len_rgba, of p] len_rgba unfolding sides by auto
  have "if previous \<noteq> None \<and> colour_at w (the previous) x y = colour_at w bgra x y
       then drawn (frame_rgba decode p) f x y = None
       else \<exists>c. drawn (frame_rgba decode p) f x y = Some (c @ [255]) \<and> length c = 3 \<and>
         near (colour_at w bgra x y) c"
    if "covers f x y"
  proof -
    define x' y' where "x' = x - box_left r" and "y' = y - box_top r"
    have xy': "x' < box_width r" "y' < box_height r" "box_left r + x' = x" "box_top r + y' = y"
      using that cov by (auto simp: x'_def y'_def box_width_def box_height_def)
    have given: "bgra_at (box_width r) ?rgba x' y' = sent_pixel w previous bgra x y"
      using bgra_at_packed [of "box_width r" "box_height r" ?pic x' y'] xy' length_sent_pixel by simp
    define got where "got = bgra_at (box_width r) out x' y'"
    have got: "(sent_pixel w previous bgra x y ! 3 = 0 \<longrightarrow> got ! 3 = 0) \<and>
        (sent_pixel w previous bgra x y ! 3 = 255 \<longrightarrow>
          got ! 3 \<noteq> 0 \<and> near (rev (take 3 (sent_pixel w previous bgra x y))) (rev (take 3 got)))"
      using out(3) [rule_format, OF xy'(1,2)] given by (simp add: Let_def got_def)
    have d: "drawn (frame_rgba decode p) f x y =
        (if got ! 3 = 0 then None else Some [got ! 2, got ! 1, got ! 0, 255])"
      using that out(1) by (simp add: drawn_def frame_rgba_def sides Let_def got_def x'_def y'_def)
    have lc: "length (colour_at w bgra x y) = 3"
      using length_bgra_at [OF len xy] by (simp add: colour_at_def)
    have rev3: "rev (take 3 [c ! 2, c ! 1, c ! 0, 255 :: u8]) = c" if "length c = 3" for c
      using that by (auto simp: numeral_eq_Suc length_Suc_conv)
    have "length got = 4"
      using length_bgra_at [of out "box_width r" "box_height r" x' y'] out(2) xy' sides
      by (simp add: got_def)
    then have got3: "rev (take 3 got) = [got ! 2, got ! 1, got ! 0]"
      by (auto simp: numeral_eq_Suc length_Suc_conv)
    show ?thesis
    proof (cases "previous \<noteq> None \<and> colour_at w (the previous) x y = colour_at w bgra x y")
      case True
      then have "sent_pixel w previous bgra x y ! 3 = 0" by (auto simp: sent_pixel_def Let_def)
      with True got d show ?thesis by simp
    next
      case False
      then have sent: "sent_pixel w previous bgra x y =
          [colour_at w bgra x y ! 2, colour_at w bgra x y ! 1, colour_at w bgra x y ! 0, 255]"
        by (auto simp: sent_pixel_def Let_def split: option.split)
      then have "got ! 3 \<noteq> 0" "near (colour_at w bgra x y) [got ! 2, got ! 1, got ! 0]"
        using got rev3 [OF lc] got3 by (auto simp: numeral_3_eq_3)
      with False d show ?thesis by auto
    qed
  qed
  then show ?thesis using cov out by blast
qed

subsection \<open>What a finished recording holds\<close>

text \<open>The pushes that changed a pixel: the frames a recording needs.\<close>

definition changes :: "nat \<Rightarrow> nat \<Rightarrow> bytes option \<Rightarrow> bytes \<Rightarrow> bool" where
  "changes w h previous px \<longleftrightarrow>
     (case previous of None \<Rightarrow> True | Some p \<Rightarrow> \<exists>x<w. \<exists>y<h. differs w p px x y)"

fun kept_pushes :: "nat \<Rightarrow> nat \<Rightarrow> bytes option \<Rightarrow> (bytes \<times> duration) list \<Rightarrow> (bytes \<times> duration) list" where
  "kept_pushes w h previous [] = []"
| "kept_pushes w h previous ((px, at) # ps) =
     (if changes w h previous px then (px, at) # kept_pushes w h (Some px) ps
      else kept_pushes w h previous ps)"

text \<open>The delays given to frames shown until these times, and the centiseconds they add up to.\<close>

fun delays :: "nat \<Rightarrow> duration list \<Rightarrow> nat list" where
  "delays cs [] = []"
| "delays cs (u # us) = delay_until cs u # delays (cs + delay_until cs u) us"

definition written_by :: "duration list \<Rightarrow> nat" where
  "written_by us = sum_list (delays 0 us)"

lemma delays_snoc: "delays cs (us @ [u]) = delays cs us @ [delay_until (cs + sum_list (delays cs us)) u]"
  by (induction us arbitrary: cs) (simp_all add: add.assoc)

lemma written_by_snoc: "written_by (us @ [u]) = written_by us + delay_until (written_by us) u"
  by (simp add: written_by_def delays_snoc)

lemma length_delays [simp]: "length (delays cs us) = length us"
  by (induction us arbitrary: cs) simp_all

definition untils :: "(bytes \<times> duration) list \<Rightarrow> duration list" where
  "untils ks = map (\<lambda>k. snd k - snd (hd ks)) (tl ks)"

lemma untils_snoc: "ks \<noteq> [] \<Longrightarrow> untils (ks @ [k]) = untils ks @ [snd k - snd (hd ks)]"
  by (cases ks) (simp_all add: untils_def)

lemma length_untils [simp]: "length (untils ks) = length ks - 1"
  by (simp add: untils_def)

definition prev_of :: "(bytes \<times> duration) list \<Rightarrow> nat \<Rightarrow> bytes option" where
  "prev_of ks j = (if j = 0 then None else Some (fst (ks ! (j - 1))))"

definition nth_frame ::
  "(u16 \<Rightarrow> u16 \<Rightarrow> bytes \<Rightarrow> 'd) \<Rightarrow> nat \<Rightarrow> nat \<Rightarrow> (bytes \<times> duration) list \<Rightarrow> nat \<Rightarrow> 'd gif_frame" where
  "nth_frame quantize w h ks j = gif_frame_of quantize w (prev_of ks j) (fst (ks ! j))
     (the (region_of w h (prev_of ks j) (fst (ks ! j))))"

definition capped :: "nat \<Rightarrow> u16" where
  "capped d = (case u16_try_from d of None \<Rightarrow> 65535 | Some d \<Rightarrow> d)"

definition sent_frames ::
  "(u16 \<Rightarrow> u16 \<Rightarrow> bytes \<Rightarrow> 'd) \<Rightarrow> nat \<Rightarrow> nat \<Rightarrow> (bytes \<times> duration) list \<Rightarrow> duration list \<Rightarrow> 'd gif_frame list" where
  "sent_frames quantize w h ks us =
     map (\<lambda>(j, d). (nth_frame quantize w h ks j)\<lparr>gf_delay := capped d\<rparr>) (enumerate 0 (delays 0 us))"

lemma sent_frames_snoc:
  "sent_frames quantize w h ks (us @ [u]) = sent_frames quantize w h ks us @
    [(nth_frame quantize w h ks (length us))\<lparr>gf_delay := capped (delay_until (written_by us) u)\<rparr>]"
  by (simp add: sent_frames_def delays_snoc enumerate_append_eq written_by_def)

lemma nth_frame_append: "j < length ks \<Longrightarrow> nth_frame quantize w h (ks @ ks') j = nth_frame quantize w h ks j"
  by (auto simp: nth_frame_def prev_of_def nth_append)

lemma sent_frames_append:
  "length us \<le> length ks \<Longrightarrow> sent_frames quantize w h (ks @ ks') us = sent_frames quantize w h ks us"
  unfolding sent_frames_def
proof (rule map_cong [OF refl])
  fix p assume le: "length us \<le> length ks" and "p \<in> set (enumerate 0 (delays 0 us))"
  then have "fst p < length ks" by (simp add: in_set_enumerate_eq)
  then show "(case p of (j, d) \<Rightarrow> (nth_frame quantize w h (ks @ ks') j)\<lparr>gf_delay := capped d\<rparr>) =
      (case p of (j, d) \<Rightarrow> (nth_frame quantize w h ks j)\<lparr>gf_delay := capped d\<rparr>)"
    by (simp add: case_prod_unfold nth_frame_append)
qed

definition all_kept :: "nat \<Rightarrow> nat \<Rightarrow> (bytes \<times> duration) list \<Rightarrow> bool" where
  "all_kept w h ks \<longleftrightarrow> (\<forall>j<length ks. length (fst (ks ! j)) = w * h * 4 \<and> changes w h (prev_of ks j) (fst (ks ! j)))"

lemma all_kept_snoc:
  "all_kept w h (ks @ [k]) \<longleftrightarrow> all_kept w h ks \<and> length (fst k) = w * h * 4 \<and>
    changes w h (prev_of (ks @ [k]) (length ks)) (fst k)"
proof -
  have "prev_of (ks @ [k]) j = prev_of ks j" "(ks @ [k]) ! j = ks ! j" if "j < length ks" for j
    using that by (auto simp: prev_of_def nth_append)
  moreover have "(ks @ [k]) ! length ks = k" by simp
  ultimately show ?thesis
    by (auto simp: all_kept_def less_Suc_eq)
qed

lemma region_of_changes:
  assumes "sized w h previous" and "length bgra = w * h * 4"
  shows "region_of w h previous bgra = None \<longleftrightarrow> \<not> changes w h previous bgra"
proof (cases previous)
  case None
  then show ?thesis by (simp add: region_of_def changes_def)
next
  case (Some p)
  then have "length p = w * h * 4" using assms(1) by (simp add: sized_def)
  from changed_box_value [OF this assms(2)] obtain found where
    "region_of w h previous bgra = found"
    "case found of None \<Rightarrow> \<forall>x<w. \<forall>y<h. \<not> differs w p bgra x y | Some r \<Rightarrow> tight_box w h (differs w p bgra) r"
    using Some by (auto simp: region_of_def)
  then show ?thesis using Some by (cases found) (auto simp: changes_def tight_box_def)
qed

definition writer_inv ::
  "(u16 \<Rightarrow> u16 \<Rightarrow> bytes \<Rightarrow> 'd) \<Rightarrow> ('e \<Rightarrow> 'd gif_frame list) \<Rightarrow> (bytes \<times> duration) list \<Rightarrow>
   ('e, 'd) gif_writer \<Rightarrow> bool" where
  "writer_inv quantize contents ks g \<longleftrightarrow>
     (let w = unat (gw_width g); h = unat (gw_height g) in
      0 < w \<and> w < 65536 \<and> 0 < h \<and> h < 65536 \<and> all_kept w h ks \<and>
      gw_previous g = (if ks = [] then None else Some (fst (last ks))) \<and>
      gw_first_at g = (if ks = [] then None else Some (snd (hd ks))) \<and>
      gw_pending g = (if ks = [] then None else Some (nth_frame quantize w h ks (length ks - 1))) \<and>
      gw_written_cs g = written_by (untils ks) \<and>
      contents (gw_encoder g) = sent_frames quantize w h ks (untils ks) \<and>
      frames_written (gw_summary g) = length ks - 1)"

lemma writer_inv_new:
  assumes "gif_codec near create write_frame close parse decode quantize contents extent"
    and "gif_writer_new create w h = Inr g"
  shows "writer_inv quantize contents [] g \<and> gw_width g = w \<and> gw_height g = h \<and>
    extent (gw_encoder g) = (ucast w, ucast h)"
proof -
  have w: "unat w < 65536" "unat h < 65536" "w \<noteq> 0" "h \<noteq> 0"
    and new: "\<exists>e. create (of_nat (unat w)) (of_nat (unat h)) = Inr e \<and> gw_encoder g = e" and
    g: "gw_width g = w" "gw_height g = h" "gw_previous g = None" "gw_pending g = None"
      "gw_written_cs g = 0" "gw_first_at g = None" "frames_written (gw_summary g) = 0"
    using assms(2) by (auto simp: gif_writer_new_def u16_try_from_def split: if_splits sum.splits)
  have "contents (gw_encoder g) = [] \<and> extent (gw_encoder g) = (of_nat (unat w), of_nat (unat h))"
    using assms(1) new unfolding gif_codec_def by metis
  moreover have "of_nat (unat w) = (ucast w :: u16)" "of_nat (unat h) = (ucast h :: u16)"
    by simp_all
  moreover have "0 < unat w" "0 < unat h" using w by (simp_all add: unat_gt_0)
  ultimately show ?thesis
    using w g by (simp add: writer_inv_def Let_def all_kept_def untils_def written_by_def sent_frames_def)
qed

lemma gif_write_ok:
  assumes "gif_codec near create write_frame close parse decode quantize contents extent"
    and "gif_write write_frame pending until g = (Inr u, g')"
  shows "\<exists>e. write_frame (pending\<lparr>gf_delay := capped (delay_until (gw_written_cs g) until)\<rparr>) (gw_encoder g) = Inr e \<and>
    g' = g\<lparr>gw_written_cs := gw_written_cs g + delay_until (gw_written_cs g) until, gw_encoder := e,
      gw_summary := (gw_summary g)\<lparr>frames_written := frames_written (gw_summary g) + 1\<rparr>\<rparr> \<and>
    contents e = contents (gw_encoder g) @
      [pending\<lparr>gf_delay := capped (delay_until (gw_written_cs g) until)\<rparr>] \<and>
    extent e = extent (gw_encoder g)"
proof -
  let ?f = "pending\<lparr>gf_delay := capped (delay_until (gw_written_cs g) until)\<rparr>"
  obtain e where "write_frame ?f (gw_encoder g) = Inr e" and
    g': "g' = g\<lparr>gw_written_cs := gw_written_cs g + delay_until (gw_written_cs g) until, gw_encoder := e,
      gw_summary := (gw_summary g)\<lparr>frames_written := frames_written (gw_summary g) + 1\<rparr>\<rparr>"
    using assms(2) by (auto simp: gif_write_def Let_def capped_def split: sum.splits)
  moreover from this assms(1) have "contents e = contents (gw_encoder g) @ [?f] \<and> extent e = extent (gw_encoder g)"
    unfolding gif_codec_def by blast
  ultimately show ?thesis by blast
qed

lemma changed_region_update:
  "changed_region (g\<lparr>gw_summary := s, gw_first_at := f\<rparr>) = changed_region g"
  by (cases "gw_previous g") (simp_all add: changed_region_def fun_eq_iff)

lemma gif_push_inv:
  assumes codec: "gif_codec near create write_frame close parse decode quantize contents extent"
    and inv: "writer_inv quantize contents ks g"
  shows "\<exists>res g'. gif_push quantize write_frame px at g = Some (res, g') \<and>
    gw_width g' = gw_width g \<and> gw_height g' = gw_height g \<and>
    (res = Inr () \<longrightarrow> length px = unat (gw_width g) * unat (gw_height g) * 4 \<and>
      extent (gw_encoder g') = extent (gw_encoder g) \<and>
      writer_inv quantize contents
        (if changes (unat (gw_width g)) (unat (gw_height g)) (gw_previous g) px then ks @ [(px, at)] else ks) g')"
proof -
  define w h where "w = unat (gw_width g)" and "h = unat (gw_height g)"
  have i: "0 < w" "w < 65536" "0 < h" "h < 65536" "all_kept w h ks"
      "gw_previous g = (if ks = [] then None else Some (fst (last ks)))"
      "gw_first_at g = (if ks = [] then None else Some (snd (hd ks)))"
      "gw_pending g = (if ks = [] then None else Some (nth_frame quantize w h ks (length ks - 1)))"
      "gw_written_cs g = written_by (untils ks)"
      "contents (gw_encoder g) = sent_frames quantize w h ks (untils ks)"
      "frames_written (gw_summary g) = length ks - 1"
    using inv unfolding writer_inv_def Let_def w_def h_def by blast+
  show ?thesis
  proof (cases "length px = w * h * 4")
    case False
    then show ?thesis by (simp add: gif_push_def w_def h_def)
  next
    case len: True
    have prev: "gw_previous g = prev_of (ks @ [(px, at)]) (length ks)"
      using i(6) by (simp add: prev_of_def last_conv_nth nth_append)
    have sized: "sized w h (gw_previous g)"
      using i(5,6) by (auto simp: sized_def all_kept_def last_conv_nth)
    have region: "changed_region g px = Some (region_of w h (gw_previous g) px)"
    proof (cases "gw_previous g")
      case (Some p)
      then show ?thesis
        using changed_box_value [of p w h px] len sized
        by (auto simp: changed_region_def region_of_def w_def h_def sized_def)
    qed (simp add: changed_region_def region_of_def w_def h_def)
    define g1 where "g1 = g\<lparr>gw_summary := (gw_summary g)\<lparr>frames_received := frames_received (gw_summary g) + 1\<rparr>,
      gw_first_at := Some (case gw_first_at g of None \<Rightarrow> at | Some f \<Rightarrow> f)\<rparr>"
    show ?thesis
    proof (cases "region_of w h (gw_previous g) px")
      case None
      then have nc: "\<not> changes w h (gw_previous g) px"
        using region_of_changes [OF sized len] by simp
      then have "ks \<noteq> []" using i(6) by (auto simp: changes_def)
      have "gif_push quantize write_frame px at g = Some (Inr (), g1)"
        using len region None by (simp add: gif_push_def w_def h_def g1_def Let_def changed_region_update)
      moreover have "writer_inv quantize contents ks g1"
        using i \<open>ks \<noteq> []\<close> by (simp add: writer_inv_def Let_def g1_def w_def [symmetric] h_def [symmetric])
      ultimately show ?thesis
        using nc len by (auto simp: g1_def w_def [symmetric] h_def [symmetric])
    next
      case (Some r)
      let ?ks = "ks @ [(px, at)]"
      have ch: "changes w h (gw_previous g) px"
        using region_of_changes [OF sized len] Some by auto
      have fits: "region_fits r w h"
        using region_of_fits [OF sized len i(1,3) Some] .
      let ?frame = "gif_frame_of quantize w (gw_previous g) px r"
      have frame: "frame_for quantize w (gw_previous g) px r = Some ?frame"
        by (rule frame_for_value [OF len sized fits])
      have nth: "nth_frame quantize w h ?ks (length ks) = ?frame"
        using Some prev by (simp add: nth_frame_def nth_append)
      have kept: "all_kept w h ?ks"
        using i(5) len ch prev by (simp add: all_kept_snoc)
      show ?thesis
      proof (cases "ks = []")
        case True
        let ?g' = "g1\<lparr>gw_previous := Some px, gw_pending := Some ?frame\<rparr>"
        have "gif_push quantize write_frame px at g = Some (Inr (), ?g')"
          using len region Some frame True i(8)
          by (simp add: gif_push_def w_def h_def g1_def Let_def changed_region_update)
        moreover have "writer_inv quantize contents ?ks ?g'"
          using i kept nth True
          by (simp add: writer_inv_def Let_def g1_def w_def [symmetric] h_def [symmetric]
              untils_def written_by_def sent_frames_def)
        ultimately show ?thesis
          using ch len by (auto simp: g1_def w_def [symmetric] h_def [symmetric])
      next
        case False
        let ?pending = "nth_frame quantize w h ks (length ks - 1)" and ?shown = "at - snd (hd ks)"
        let ?g2 = "g1\<lparr>gw_previous := Some px, gw_pending := None\<rparr>"
        have push: "gif_push quantize write_frame px at g =
            (case gif_write write_frame ?pending ?shown ?g2 of
               (Inl e, w) \<Rightarrow> Some (Inl e, w)
             | (Inr _, w) \<Rightarrow> Some (Inr (), w\<lparr>gw_pending := Some ?frame\<rparr>))"
          using len region Some frame False i(7,8)
          by (simp add: gif_push_def w_def [symmetric] h_def [symmetric] g1_def Let_def changed_region_update)
        show ?thesis
        proof (cases "gif_write write_frame ?pending ?shown ?g2")
          case (Pair res g3)
          show ?thesis
          proof (cases res)
            case (Inl e)
            then have "gw_width g3 = gw_width g" "gw_height g3 = gw_height g"
              using Pair by (auto simp: gif_write_def Let_def g1_def split: sum.splits)
            then show ?thesis using push Pair Inl by simp
          next
            case (Inr u)
            define c where "c = written_by (untils ks)"
            have g2: "gw_written_cs ?g2 = c" "gw_encoder ?g2 = gw_encoder g"
              "frames_written (gw_summary ?g2) = length ks - 1"
              using i(9,11) by (simp_all add: g1_def c_def)
            obtain e where e: "g3 = ?g2\<lparr>gw_written_cs := c + delay_until c ?shown, gw_encoder := e,
                gw_summary := (gw_summary ?g2)\<lparr>frames_written := frames_written (gw_summary ?g2) + 1\<rparr>\<rparr>"
              "contents e = sent_frames quantize w h ks (untils ks) @ [?pending\<lparr>gf_delay := capped (delay_until c ?shown)\<rparr>]"
              "extent e = extent (gw_encoder g)"
              using gif_write_ok [OF codec Pair [unfolded Inr]] unfolding g2 i(10) by blast
            have "contents e = sent_frames quantize w h ?ks (untils ?ks)"
              using False e(2)
              by (simp add: untils_snoc sent_frames_snoc sent_frames_append nth_frame_append c_def)
            moreover have "c + delay_until c ?shown = written_by (untils ?ks)"
              using False by (simp add: untils_snoc written_by_snoc c_def)
            moreover have "frames_written (gw_summary ?g2) + 1 = length ?ks - 1"
              using False g2(3) by (cases ks) simp_all
            ultimately have "writer_inv quantize contents ?ks (g3\<lparr>gw_pending := Some ?frame\<rparr>)"
              using i(1-4,7) kept nth False
              by (simp add: writer_inv_def Let_def e(1) g1_def w_def [symmetric] h_def [symmetric])
            then show ?thesis
              using push Pair Inr ch len e(1,3) by (auto simp: g1_def w_def [symmetric] h_def [symmetric])
          qed
        qed
      qed
    qed
  qed
qed

lemma writer_inv_previous:
  "writer_inv quantize contents ks g \<Longrightarrow> gw_previous g = (if ks = [] then None else Some (fst (last ks)))"
  unfolding writer_inv_def Let_def by blast

lemma push_all_inv:
  assumes codec: "gif_codec near create write_frame close parse decode quantize contents extent"
    and "writer_inv quantize contents ks g"
    and "push_all quantize write_frame ps g = Some (Inr u, g')"
  shows "gw_width g' = gw_width g \<and> gw_height g' = gw_height g \<and>
    extent (gw_encoder g') = extent (gw_encoder g) \<and>
    writer_inv quantize contents
      (ks @ kept_pushes (unat (gw_width g)) (unat (gw_height g)) (gw_previous g) ps) g'"
  using assms(2,3)
proof (induction ps arbitrary: ks g)
  case (Cons p ps)
  obtain px at where p: "p = (px, at)" by fastforce
  obtain res g1 where g1: "gif_push quantize write_frame px at g = Some (res, g1)"
      "gw_width g1 = gw_width g" "gw_height g1 = gw_height g"
      "res = Inr () \<longrightarrow> length px = unat (gw_width g) * unat (gw_height g) * 4 \<and>
        extent (gw_encoder g1) = extent (gw_encoder g) \<and>
        writer_inv quantize contents
          (if changes (unat (gw_width g)) (unat (gw_height g)) (gw_previous g) px then ks @ [(px, at)] else ks) g1"
    using gif_push_inv [OF codec Cons.prems(1), of px at] by blast
  have res: "res = Inr ()"
    using Cons.prems(2) g1(1) p by (cases res) auto
  then have run: "push_all quantize write_frame ps g1 = Some (Inr u, g')"
    using Cons.prems(2) g1(1) p by simp
  let ?ks = "if changes (unat (gw_width g)) (unat (gw_height g)) (gw_previous g) px then ks @ [(px, at)] else ks"
  have inv: "writer_inv quantize contents ?ks g1" using g1(4) res by blast
  have "gw_previous g1 = (if changes (unat (gw_width g)) (unat (gw_height g)) (gw_previous g) px
      then Some px else gw_previous g)"
    using writer_inv_previous [OF inv] writer_inv_previous [OF Cons.prems(1)] by auto
  then show ?case
    using Cons.IH [OF inv run] g1(2-4) res p by (auto split: if_splits)
qed simp

lemma gif_finish_ok:
  assumes codec: "gif_codec near create write_frame close parse decode quantize contents extent"
    and inv: "writer_inv quantize contents ks g" and "ks \<noteq> []"
    and fin: "gif_finish write_frame close fin g = Inr (file, summary)"
  shows "\<exists>gfile. parse file = Inr gfile \<and>
    file_frames gfile = map Inr (sent_frames quantize (unat (gw_width g)) (unat (gw_height g)) ks
      (untils ks @ [fin - snd (hd ks)])) \<and>
    (file_width gfile, file_height gfile) = extent (gw_encoder g) \<and>
    frames_written summary = length ks \<and> summary_duration summary = fin - snd (hd ks)"
proof -
  define w h where "w = unat (gw_width g)" and "h = unat (gw_height g)"
  have i: "gw_first_at g = Some (snd (hd ks))"
      "gw_pending g = Some (nth_frame quantize w h ks (length ks - 1))"
      "gw_written_cs g = written_by (untils ks)"
      "contents (gw_encoder g) = sent_frames quantize w h ks (untils ks)"
      "frames_written (gw_summary g) = length ks - 1"
    using inv assms(3) unfolding writer_inv_def Let_def w_def h_def by simp_all
  let ?g = "g\<lparr>gw_pending := None\<rparr>" and ?p = "nth_frame quantize w h ks (length ks - 1)"
  let ?until = "fin - snd (hd ks)"
  obtain u g' where wr: "gif_write write_frame ?p ?until ?g = (Inr u, g')"
    and cl: "close (gw_encoder g') = Inr file" "summary = (gw_summary g')\<lparr>summary_duration := ?until\<rparr>"
    using fin i by (auto simp: gif_finish_def Let_def split: prod.splits sum.splits)
  from gif_write_ok [OF codec wr] obtain e where
    e: "g' = ?g\<lparr>gw_written_cs := gw_written_cs ?g + delay_until (gw_written_cs ?g) ?until, gw_encoder := e,
      gw_summary := (gw_summary ?g)\<lparr>frames_written := frames_written (gw_summary ?g) + 1\<rparr>\<rparr>"
      "contents e = contents (gw_encoder ?g) @ [?p\<lparr>gf_delay := capped (delay_until (gw_written_cs ?g) ?until)\<rparr>]"
      "extent e = extent (gw_encoder ?g)" by blast
  have "contents e = sent_frames quantize w h ks (untils ks @ [?until])"
    using i(3,4) e(2) by (simp add: sent_frames_snoc)
  moreover have "gw_encoder g' = e" "frames_written (gw_summary g') = length ks"
    using e(1) i(5) assms(3) by (cases ks; simp)+
  moreover have "\<exists>gfile. parse file = Inr gfile \<and> file_frames gfile = map Inr (contents (gw_encoder g')) \<and>
      (file_width gfile, file_height gfile) = extent (gw_encoder g')"
    using codec cl(1) unfolding gif_codec_def by blast
  ultimately show ?thesis
    using e(3) cl(2) by (auto simp: w_def h_def)
qed

text \<open>Each frame of the file shows its push, pixel by pixel.\<close>

lemma sent_frames_nth:
  assumes "j < length us"
  shows "sent_frames quantize w h ks us ! j =
    (nth_frame quantize w h ks j)\<lparr>gf_delay := capped (delays 0 us ! j)\<rparr>"
  using assms by (simp add: sent_frames_def nth_enumerate_eq)

lemma length_sent_frames [simp]: "length (sent_frames quantize w h ks us) = length us"
  by (simp add: sent_frames_def)

lemma all_kept_sized: "all_kept w h ks \<Longrightarrow> j < length ks \<Longrightarrow> sized w h (prev_of ks j)"
  by (auto simp: all_kept_def sized_def prev_of_def)

lemma all_kept_region:
  assumes "all_kept w h ks" and "j < length ks" and "0 < w" and "0 < h"
  obtains r where "region_of w h (prev_of ks j) (fst (ks ! j)) = Some r" and "region_fits r w h"
    and "nth_frame quantize w h ks j = gif_frame_of quantize w (prev_of ks j) (fst (ks ! j)) r"
proof -
  have len: "length (fst (ks ! j)) = w * h * 4" and ch: "changes w h (prev_of ks j) (fst (ks ! j))"
    using assms(1,2) by (simp_all add: all_kept_def)
  note sized = all_kept_sized [OF assms(1,2)]
  obtain r where r: "region_of w h (prev_of ks j) (fst (ks ! j)) = Some r"
    using region_of_changes [OF sized len] ch by (cases "region_of w h (prev_of ks j) (fst (ks ! j))") auto
  show ?thesis
    by (rule that [OF r region_of_fits [OF sized len assms(3,4) r]]) (simp add: nth_frame_def r)
qed

lemma shown_kept:
  assumes codec: "gif_codec near create write_frame close parse decode quantize contents extent"
    and kept: "all_kept w h ks" and dims: "0 < w" "w < 65536" "0 < h" "h < 65536"
    and us: "length us = length ks" and "j < length ks" and xy: "x < w" "y < h"
  shows "\<exists>c. shown_pixel (frame_rgba decode p) (sent_frames quantize w h ks us) j x y = c @ [255] \<and>
    length c = 3 \<and> near (colour_at w (fst (ks ! j)) x y) c"
  using \<open>j < length ks\<close>
proof (induction j)
  case 0
  let ?f = "sent_frames quantize w h ks us ! 0"
  obtain r where r: "region_of w h (prev_of ks 0) (fst (ks ! 0)) = Some r" "region_fits r w h"
      "nth_frame quantize w h ks 0 = gif_frame_of quantize w (prev_of ks 0) (fst (ks ! 0)) r"
    using all_kept_region [OF kept 0 dims(1,3)] .
  have len: "length (fst (ks ! 0)) = w * h * 4" using kept 0 by (simp add: all_kept_def)
  have f: "?f = (gif_frame_of quantize w (prev_of ks 0) (fst (ks ! 0)) r)\<lparr>gf_delay := capped (delays 0 us ! 0)\<rparr>"
    using sent_frames_nth [of 0 us quantize w h ks] us 0 r(3) by simp
  have "covers ?f x y"
    using drawn_frame [OF codec f r(2) dims(2,4) len xy, of p] r(1) xy
    by (auto simp: prev_of_def region_of_def)
  then show ?case
    using drawn_frame [OF codec f r(2) dims(2,4) len xy, of p] by (auto simp: prev_of_def)
next
  case (Suc j)
  let ?f = "sent_frames quantize w h ks us ! Suc j" and ?g = "sent_frames quantize w h ks us ! j"
  let ?p = "fst (ks ! j)" and ?q = "fst (ks ! Suc j)"
  have prev: "prev_of ks (Suc j) = Some ?p" by (simp add: prev_of_def)
  obtain r where r: "region_of w h (Some ?p) ?q = Some r" "region_fits r w h"
      "nth_frame quantize w h ks (Suc j) = gif_frame_of quantize w (Some ?p) ?q r"
    using all_kept_region [OF kept Suc.prems dims(1,3), unfolded prev] .
  have len: "length ?q = w * h * 4" using kept Suc.prems by (simp add: all_kept_def)
  have f: "?f = (gif_frame_of quantize w (Some ?p) ?q r)\<lparr>gf_delay := capped (delays 0 us ! Suc j)\<rparr>"
    using sent_frames_nth [of "Suc j" us quantize w h ks] us Suc.prems r(3) by simp
  obtain r' where "nth_frame quantize w h ks j = gif_frame_of quantize w (prev_of ks j) ?p r'"
    using all_kept_region [OF kept _ dims(1,3), of j] Suc.prems by auto
  then have keep: "gf_dispose ?g = DisposeKeep"
    using sent_frames_nth [of j us quantize w h ks] us Suc.prems by (simp add: gif_frame_of_def)
  note d = drawn_frame [OF codec f r(2) dims(2,4) len xy, of p]
  obtain c where c: "shown_pixel (frame_rgba decode p) (sent_frames quantize w h ks us) j x y = c @ [255]"
      "length c = 3" "near (colour_at w ?p x y) c"
    using Suc by auto
  show ?case
  proof (cases "covers ?f x y \<and> colour_at w ?p x y \<noteq> colour_at w ?q x y")
    case True
    then show ?thesis using d by auto
  next
    case False
    have same: "colour_at w ?p x y = colour_at w ?q x y"
    proof (cases "covers ?f x y")
      case out: False
      then show ?thesis
        using region_of_outside [of w h "Some ?p" ?q x y] all_kept_sized [OF kept Suc.prems, unfolded prev]
          len xy d r(1) by auto
    qed (use False in blast)
    moreover have "drawn (frame_rgba decode p) ?f x y = None"
      using d same by (cases "covers ?f x y") (auto simp: drawn_def)
    ultimately show ?thesis using c keep by (auto simp: disposal_method.distinct)
  qed
qed

lemma sent_frames_sound:
  assumes codec: "gif_codec near create write_frame close parse decode quantize contents extent"
    and kept: "all_kept w h ks" and dims: "0 < w" "w < 65536" "0 < h" "h < 65536"
    and us: "length us = length ks" and "j < length ks"
  shows "\<exists>out. decode p (sent_frames quantize w h ks us ! j) = Inr out \<and>
    length out = unat (gf_width (sent_frames quantize w h ks us ! j)) *
      unat (gf_height (sent_frames quantize w h ks us ! j)) * 4"
proof -
  let ?f = "sent_frames quantize w h ks us ! j"
  obtain r where r: "region_of w h (prev_of ks j) (fst (ks ! j)) = Some r" "region_fits r w h"
      "nth_frame quantize w h ks j = gif_frame_of quantize w (prev_of ks j) (fst (ks ! j)) r"
    using all_kept_region [OF kept assms(8) dims(1,3)] .
  have len: "length (fst (ks ! j)) = w * h * 4" using kept assms(8) by (simp add: all_kept_def)
  have f: "?f = (gif_frame_of quantize w (prev_of ks j) (fst (ks ! j)) r)\<lparr>gf_delay := capped (delays 0 us ! j)\<rparr>"
    using sent_frames_nth [of j us quantize w h ks] us assms(8) r(3) by simp
  show ?thesis using drawn_frame [OF codec f r(2) dims(2,4) len dims(1,3), of p] by blast
qed

subsection \<open>Every captured frame is shown\<close>

lemma kept_pushes_append:
  "\<exists>rest. kept_pushes w h previous (ps @ qs) = kept_pushes w h previous ps @ rest"
  by (induction w h previous ps rule: kept_pushes.induct) auto

lemma changes_sym: "\<not> changes w h (Some p) px \<Longrightarrow> x < w \<Longrightarrow> y < h \<Longrightarrow> colour_at w p x y = colour_at w px x y"
  by (auto simp: changes_def differs_def)

text \<open>A push looks like the last one kept, itself included.\<close>

lemma last_kept_colours:
  assumes "ps \<noteq> []" and "x < w" and "y < h"
  shows "case (if kept_pushes w h previous ps = [] then previous
      else Some (fst (last (kept_pushes w h previous ps)))) of
      None \<Rightarrow> False | Some p \<Rightarrow> colour_at w p x y = colour_at w (fst (last ps)) x y"
  using assms(1)
proof (induction ps arbitrary: previous)
  case (Cons q ps)
  obtain px at where q: "q = (px, at)" by fastforce
  show ?case
  proof (cases "ps = []")
    case True
    then show ?thesis
      using q changes_sym [OF _ assms(2,3), of _ px]
      by (cases previous) (auto simp: changes_def [of _ _ None])
  next
    case False
    then show ?thesis
      using q Cons.IH [of previous] Cons.IH [of "Some px"]
      by (auto split: if_splits option.splits)
  qed
qed simp

definition shown_index :: "nat \<Rightarrow> nat \<Rightarrow> (bytes \<times> duration) list \<Rightarrow> nat \<Rightarrow> nat" where
  "shown_index w h ps k = length (kept_pushes w h None (take (k + 1) ps)) - 1"

lemma shown_index_colours:
  assumes "k < length ps" and "x < w" and "y < h"
  shows "shown_index w h ps k < length (kept_pushes w h None ps) \<and>
    colour_at w (fst (kept_pushes w h None ps ! shown_index w h ps k)) x y =
    colour_at w (fst (ps ! k)) x y"
proof -
  let ?pre = "take (k + 1) ps" and ?ks = "kept_pushes w h None (take (k + 1) ps)"
  have pre: "?pre \<noteq> []" "last ?pre = ps ! k"
    using assms(1) by (auto simp: take_Suc_conv_app_nth)
  obtain rest where rest: "kept_pushes w h None ps = ?ks @ rest"
    using kept_pushes_append [of w h None ?pre "drop (k + 1) ps"] by auto
  have ks: "?ks \<noteq> []" "colour_at w (fst (last ?ks)) x y = colour_at w (fst (ps ! k)) x y"
    using last_kept_colours [OF pre(1) assms(2,3), of None] pre(2) by (auto split: if_splits)
  then have "length ?ks - 1 < length (?ks @ rest)" by (cases ?ks) simp_all
  moreover have "(?ks @ rest) ! (length ?ks - 1) = last ?ks"
    using ks(1) by (simp add: nth_append last_conv_nth)
  ultimately show ?thesis
    unfolding rest shown_index_def using ks(2) by simp
qed

lemma gif_file_opens:
  assumes codec: "gif_codec near create write_frame close parse decode quantize contents extent"
    and new: "gif_writer_new create w h = Inr g0"
    and push: "push_all quantize write_frame ps g0 = Some (Inr u, g1)"
    and fin: "gif_finish write_frame close fin g1 = Inr (file, summary)"
    and "ps \<noteq> []"
  defines "ks \<equiv> kept_pushes (unat w) (unat h) None ps"
  shows "ks \<noteq> [] \<and> all_kept (unat w) (unat h) ks \<and> 0 < unat w \<and> unat w < 65536 \<and> 0 < unat h \<and>
    unat h < 65536 \<and>
    (\<exists>gfile. parse file = Inr gfile \<and>
      file_frames gfile = map Inr (sent_frames quantize (unat w) (unat h) ks (untils ks @ [fin - snd (hd ks)])) \<and>
      file_width gfile = ucast w \<and> file_height gfile = ucast h) \<and>
    frames_written summary = length ks \<and> summary_duration summary = fin - snd (hd ks)"
proof -
  have g0: "writer_inv quantize contents [] g0" "gw_width g0 = w" "gw_height g0 = h"
      "extent (gw_encoder g0) = (ucast w, ucast h)"
    using writer_inv_new [OF codec new] by blast+
  have "gw_previous g0 = None" using writer_inv_previous [OF g0(1)] by simp
  then have g1: "writer_inv quantize contents ks g1" "gw_width g1 = w" "gw_height g1 = h"
      "extent (gw_encoder g1) = (ucast w, ucast h)"
    using push_all_inv [OF codec g0(1) push] g0 by (auto simp: ks_def)
  have "ks \<noteq> []"
    using assms(5) by (cases ps) (auto simp: ks_def changes_def)
  from gif_finish_ok [OF codec g1(1) this fin] \<open>ks \<noteq> []\<close> g1 show ?thesis
    unfolding writer_inv_def Let_def by auto
qed

lemma gif_reader_new_opens:
  assumes "parse f = Inr file" and "file_frames file = map Inr fs" and "fs \<noteq> []"
    and "file_width file \<noteq> 0" and "file_height file \<noteq> 0"
  shows "\<exists>r. gif_reader_new parse f = Inr r \<and> reader_ok decode r \<and> gr_frames r = fs \<and>
    gr_timeline r = gif_timeline fs \<and> gif_size r = (ucast (file_width file), ucast (file_height file))"
  using gif_reader_new_iff [of parse f "file" decode] assms by (auto simp: map_injective inj_def)

lemma unat_ucast_u16_back: "unat w < 65536 \<Longrightarrow> unat (ucast (w :: u32) :: u16) = unat w"
  by (simp add: unsigned_ucast_eq take_bit_nat_eq_self)

lemma gif_recording_shown:
  assumes codec: "gif_codec near create write_frame close parse decode quantize contents extent"
    and new: "gif_writer_new create w h = Inr g0"
    and push: "push_all quantize write_frame ps g0 = Some (Inr u, g1)"
    and fin: "gif_finish write_frame close fin g1 = Inr (file, summary)"
    and "ps \<noteq> []"
  shows "\<exists>r. gif_reader_new parse file = Inr r \<and> reader_ok decode r \<and> sound_frames decode r \<and>
    gif_size r = (w, h) \<and> length (gr_frames r) = frames_written summary \<and>
    (\<forall>k < length ps. \<exists>px. gif_shot decode r (shown_index (unat w) (unat h) ps k) = Inr px \<and>
      (\<forall>x < unat w. \<forall>y < unat h. \<exists>c. bgra_at (unat w) px x y = c @ [255] \<and> length c = 3 \<and>
        near (colour_at (unat w) (fst (ps ! k)) x y) c))"
proof -
  define ks where "ks = kept_pushes (unat w) (unat h) None ps"
  let ?us = "untils ks @ [fin - snd (hd ks)]"
  let ?fs = "sent_frames quantize (unat w) (unat h) ks ?us"
  obtain gfile where ks: "ks \<noteq> []" "all_kept (unat w) (unat h) ks" and
    dims: "0 < unat w" "unat w < 65536" "0 < unat h" "unat h < 65536" and
    gfile: "parse file = Inr gfile" "file_frames gfile = map Inr ?fs"
      "file_width gfile = ucast w" "file_height gfile = ucast h" and
    written: "frames_written summary = length ks"
    using gif_file_opens [OF codec new push fin assms(5)] unfolding ks_def by blast
  have us: "length ?us = length ks" using ks(1) by (cases ks) simp_all
  have uw: "ucast (ucast w :: u16) = w" "ucast (ucast h :: u16) = h"
    using dims by (auto intro!: word_unat_eq_iff [THEN iffD2] simp: unat_ucast_u16 unat_ucast_u16_back)
  then have "(ucast w :: u16) \<noteq> 0" "(ucast h :: u16) \<noteq> 0" using dims by auto
  moreover have "?fs \<noteq> []" using us ks(1) by (metis length_sent_frames length_0_conv)
  ultimately obtain r where r: "gif_reader_new parse file = Inr r" "reader_ok decode r"
      "gr_frames r = ?fs" "gif_size r = (w, h)"
    using gif_reader_new_opens [of parse "file" gfile ?fs decode] gfile uw by auto
  have fine: "\<exists>out. decode (gr_palette r) (?fs ! j) = Inr out \<and>
      length out = unat (gf_width (?fs ! j)) * unat (gf_height (?fs ! j)) * 4" if "j < length ks" for j
    by (rule sent_frames_sound [OF codec ks(2) dims us that])
  have sound: "sound_frames decode r"
    unfolding sound_frames_def r(3)
  proof (intro allI impI)
    fix i assume "i < length ?fs"
    then have "i < length ks" using us by simp
    from fine [OF this] obtain out where "decode (gr_palette r) (?fs ! i) = Inr out"
      "length out = unat (gf_width (?fs ! i)) * unat (gf_height (?fs ! i)) * 4" by blast
    then show "case decode (gr_palette r) (?fs ! i) of
        Inl _ \<Rightarrow> i = 0 \<or> gf_dispose (?fs ! (i - 1)) \<noteq> DisposeBackground
      | Inr rgba \<Rightarrow> length rgba = unat (gf_width (?fs ! i)) * unat (gf_height (?fs ! i)) * 4" by simp
  qed
  have shot: "gif_shot decode r j = Inr (picture_of decode r j)" if "j < length ks" for j
  proof -
    have "\<not> fails_at decode r i" if "i < length ks" for i
      using fine [OF that] by (auto simp: fails_at_def r(3))
    then have "find (fails_at decode r) [0..<j + 1] = None"
      using that by (simp add: find_None_iff del: upt_Suc)
    then show ?thesis using that us by (simp add: gif_shot_def r(3) del: upt_Suc)
  qed
  have "\<exists>px. gif_shot decode r (shown_index (unat w) (unat h) ps k) = Inr px \<and>
      (\<forall>x < unat w. \<forall>y < unat h. \<exists>c. bgra_at (unat w) px x y = c @ [255] \<and> length c = 3 \<and>
        near (colour_at (unat w) (fst (ps ! k)) x y) c)" if k: "k < length ps" for k
  proof -
    define j where "j = shown_index (unat w) (unat h) ps k"
    have j: "j < length ks" "\<And>x y. x < unat w \<Longrightarrow> y < unat h \<Longrightarrow>
        colour_at (unat w) (fst (ks ! j)) x y = colour_at (unat w) (fst (ps ! k)) x y"
      using shown_index_colours [OF k] dims(1,3) by (auto simp: j_def ks_def)
    have wh: "gr_w r = unat w" "gr_h r = unat h" using r(4) by (simp_all add: gif_size_def)
    have "\<exists>c. bgra_at (unat w) (picture_of decode r j) x y = c @ [255] \<and> length c = 3 \<and>
        near (colour_at (unat w) (fst (ps ! k)) x y) c" if "x < unat w" "y < unat h" for x y
      using bgra_at_picture_of [of x r y decode j] wh that j(2)
        shown_kept [OF codec ks(2) dims us j(1) that, of "gr_palette r"] by (simp add: r(3))
    then show ?thesis using shot [OF j(1)] by (auto simp: j_def [symmetric])
  qed
  then show ?thesis using r sound us written by auto
qed

text \<open>C16: a GIF recording played back shows every frame that was captured. If a recording is
  written without an error, its file opens; and for every frame that was pushed, the frame of the
  file that is on screen for it has at each pixel an opaque colour that quantizing may make of the
  pushed one, although only the box of what changed was written, with the unchanged pixels inside
  it transparent, and nothing at all for a push that changed nothing. The file has as many frames as
  the summary says.\<close>

theorem gif_recording_shows_every_frame:
  assumes codec: "gif_codec near create write_frame close parse decode quantize contents extent"
    and new: "gif_writer_new create w h = Inr g0"
    and push: "push_all quantize write_frame ps g0 = Some (Inr u, g1)"
    and fin: "gif_finish write_frame close fin g1 = Inr (file, summary)"
    and "ps \<noteq> []"
  shows "\<exists>r. gif_reader_new parse file = Inr r \<and> reader_ok decode r \<and> sound_frames decode r \<and>
    gif_size r = (w, h) \<and> length (gr_frames r) = frames_written summary \<and>
    (\<forall>k < length ps. \<exists>px. gif_shot decode r (shown_index (unat w) (unat h) ps k) = Inr px \<and>
      (\<forall>x < unat w. \<forall>y < unat h. \<exists>c. bgra_at (unat w) px x y = c @ [255] \<and> length c = 3 \<and>
        near (colour_at (unat w) (fst (ps ! k)) x y) c))"
  by (rule gif_recording_shown [OF assms])

subsection \<open>Delays never drift\<close>

lemma take_delays: "take j (delays cs us) = delays cs (take j us)"
proof (induction us arbitrary: cs j)
  case (Cons u us)
  then show ?case by (cases j) simp_all
qed simp

text \<open>When things shown last at least two centiseconds, the time written is always the time shown,
  rounded down.\<close>

lemma written_by_exact:
  assumes "\<And>j. j < length us \<Longrightarrow> (if j = 0 then 0 else us ! (j - 1)) + 20000000 \<le> us ! j"
  shows "written_by us = (if us = [] then 0 else last us div 10000000)"
  using assms
proof (induction us rule: rev_induct)
  case (snoc u us)
  have step: "(if us = [] then 0 else last us) + 20000000 \<le> u"
    using snoc.prems [of "length us"] by (cases "us = []") (simp_all add: nth_append last_conv_nth)
  have "written_by us = (if us = [] then 0 else last us) div 10000000"
  proof -
    have "(if j = 0 then 0 else us ! (j - 1)) + 20000000 \<le> us ! j" if "j < length us" for j
      using snoc.prems [of j] that by (simp add: nth_append split: if_splits)
    from snoc.IH [OF this] show ?thesis by simp
  qed
  moreover have "(p + 20000000) div 10000000 = p div 10000000 + 2" for p :: nat by simp
  ultimately have "written_by us + 2 \<le> u div 10000000"
    using div_le_mono [OF step, of 10000000] by simp
  then show ?case
    by (simp add: written_by_snoc delay_until_def MINIMUM_DELAY_CS_def div_mult2_eq [symmetric])
qed (simp add: written_by_def)

lemma shown_cs_sent:
  assumes "j \<le> length us" and "written_by us < 65536"
  shows "shown_cs (sent_frames quantize w h ks us) j = written_by (take j us)"
proof -
  have small: "2 \<le> d \<and> d < 65536" if "d \<in> set (delays 0 us)" for d
  proof -
    have "2 \<le> e" if "e \<in> set (delays cs us)" for e cs
      using that by (induction us arbitrary: cs) (auto simp: delay_until_def MINIMUM_DELAY_CS_def)
    moreover have "d \<le> written_by us" using that by (simp add: written_by_def member_le_sum_list)
    ultimately show ?thesis using that assms(2) by fastforce
  qed
  have "map (\<lambda>f. max (unat (gf_delay f)) 1) (sent_frames quantize w h ks us) = delays 0 us"
  proof (rule nth_equalityI)
    fix i assume "i < length (map (\<lambda>f. max (unat (gf_delay f)) 1) (sent_frames quantize w h ks us))"
    then have i: "i < length us" by simp
    then have "2 \<le> delays 0 us ! i \<and> delays 0 us ! i < 65536" by (simp add: small)
    then show "map (\<lambda>f. max (unat (gf_delay f)) 1) (sent_frames quantize w h ks us) ! i = delays 0 us ! i"
      using i by (simp add: sent_frames_nth capped_def u16_try_from_def unat_of_nat)
  qed simp
  then have "take j (map (\<lambda>f. max (unat (gf_delay f)) 1) (sent_frames quantize w h ks us)) = delays 0 (take j us)"
    by (simp add: take_delays)
  then show ?thesis by (simp add: shown_cs_def written_by_def take_map)
qed


text \<open>\<open>changed_box\<close> finds the smallest box of what changed. For two pictures of the same size
  it panics on none, answers \<open>None\<close> exactly when every pixel has the same colour (alpha is not
  compared), and otherwise a box inside the picture that holds every changed pixel and has one on
  each of its four sides.\<close>

theorem changed_box_spec:
  assumes "length a = w * h * 4" and "length b = w * h * 4"
  shows "\<exists>found. changed_box a b w h = Some found \<and>
    (found = None \<longleftrightarrow> (\<forall>x<w. \<forall>y<h. colour_at w a x y = colour_at w b x y)) \<and>
    (\<forall>r. found = Some r \<longrightarrow> box_right r \<le> w \<and> box_bottom r \<le> h \<and>
      (\<forall>x<w. \<forall>y<h. colour_at w a x y \<noteq> colour_at w b x y \<longrightarrow>
        box_left r \<le> x \<and> x < box_right r \<and> box_top r \<le> y \<and> y < box_bottom r) \<and>
      (\<exists>y<h. colour_at w a (box_left r) y \<noteq> colour_at w b (box_left r) y) \<and>
      (\<exists>y<h. colour_at w a (box_right r - 1) y \<noteq> colour_at w b (box_right r - 1) y) \<and>
      (\<exists>x<w. colour_at w a x (box_top r) \<noteq> colour_at w b x (box_top r)) \<and>
      (\<exists>x<w. colour_at w a x (box_bottom r - 1) \<noteq> colour_at w b x (box_bottom r - 1)))"
proof -
  obtain found where found: "changed_box a b w h = Some found"
      "case found of None \<Rightarrow> \<forall>x<w. \<forall>y<h. \<not> differs w a b x y | Some r \<Rightarrow> tight_box w h (differs w a b) r"
    using changed_box_value [OF assms] by blast
  show ?thesis
  proof (cases found)
    case None
    then show ?thesis using found by (simp add: differs_def)
  next
    case (Some r)
    then have "tight_box w h (differs w a b) r" using found(2) by simp
    then show ?thesis using found(1) Some unfolding tight_box_def differs_def by auto
  qed
qed

lemma changed_box_spec_witness:
  "\<exists>found. changed_box [1, 2, 3, 4, 5, 6, 7, 8] [1, 2, 3, 9, 5, 6, 9, 8] 2 1 = Some found \<and> found \<noteq> None"
  using changed_box_spec [of "[1, 2, 3, 4, 5, 6, 7, 8]" 2 1 "[1, 2, 3, 9, 5, 6, 9, 8]"]
  by (auto simp: colour_at_def bgra_at_def less_2_cases_iff)

subsection \<open>A codec that keeps what it is given\<close>

type_synonym plain_encoder = "(u16 \<times> u16) \<times> bytes gif_frame list"

definition plain_create :: "u16 \<Rightarrow> u16 \<Rightarrow> ustring + plain_encoder" where
  "plain_create w h = Inr ((w, h), [])"

definition plain_write :: "bytes gif_frame \<Rightarrow> plain_encoder \<Rightarrow> ustring + plain_encoder" where
  "plain_write f e = Inr (fst e, snd e @ [f])"

definition plain_parse :: "plain_encoder \<Rightarrow> ustring + (unit, bytes) gif_file" where
  "plain_parse e = Inr \<lparr>file_width = fst (fst e), file_height = snd (fst e), file_palette = None,
     file_frames = map Inr (snd e)\<rparr>"

definition plain_decode :: "unit option \<Rightarrow> bytes gif_frame \<Rightarrow> ustring + bytes" where
  "plain_decode p f = Inr (gf_data f)"

definition plain_quantize :: "u16 \<Rightarrow> u16 \<Rightarrow> bytes \<Rightarrow> bytes" where
  "plain_quantize w h rgba = rgba"

lemma plain_codec:
  "gif_codec (=) plain_create plain_write Inr plain_parse plain_decode plain_quantize snd fst"
  by (auto simp: gif_codec_def plain_create_def plain_write_def plain_parse_def plain_decode_def
      plain_quantize_def Let_def)

text \<open>A picture of one pixel: red, the same red again, then blue.\<close>

definition sample_pushes :: "(bytes \<times> duration) list" where
  "sample_pushes = [([0, 0, 255, 255], 40000000), ([0, 0, 255, 0], 80000000), ([255, 0, 0, 255], 125000000)]"

definition sample_writer :: "(plain_encoder, bytes) gif_writer" where
  "sample_writer = projr (gif_writer_new plain_create 1 1)"

definition sample_pushed :: "(plain_encoder, bytes) gif_writer" where
  "sample_pushed = snd (the (push_all plain_quantize plain_write sample_pushes sample_writer))"

lemma sample_writer_new: "gif_writer_new plain_create 1 1 = Inr sample_writer"
  by (simp add: sample_writer_def gif_writer_new_def plain_create_def u16_try_from_def)

lemmas sample_run_defs = sample_writer_def gif_writer_new_def plain_create_def u16_try_from_def
  gif_push_def changed_region_def changed_box_def changed_row_def slice_def row_span_def
  pixel_differs_def grow_box_def frame_for_def frame_pixels_def frame_pixel_def box_width_def
  box_height_def plain_quantize_def Let_def

lemma sample_pushes_run:
  "push_all plain_quantize plain_write sample_pushes sample_writer = Some (Inr (), sample_pushed)"
  unfolding sample_pushed_def
  by (simp add: sample_pushes_def sample_run_defs gif_write_def delay_until_def plain_write_def
      MINIMUM_DELAY_CS_def)

definition sample_finish :: "plain_encoder \<times> animation_summary" where
  "sample_finish = projr (gif_finish plain_write Inr 200000000 sample_pushed :: animation_error + _)"

lemma sample_finish_run:
  "gif_finish plain_write Inr 200000000 sample_pushed =
    Inr (fst sample_finish, snd sample_finish)"
proof -
  have "\<not> isl (gif_finish plain_write Inr 200000000 sample_pushed :: animation_error + plain_encoder \<times> animation_summary)"
    by (simp add: gif_finish_def gif_write_def plain_write_def Let_def split: option.split)
  then show ?thesis
    by (simp add: sample_finish_def sum.collapse(2))
qed

lemma sample_kept:
  "kept_pushes 1 1 None sample_pushes = [([0, 0, 255, 255], 40000000), ([255, 0, 0, 255], 125000000)]"
  by (simp add: sample_pushes_def changes_def differs_def colour_at_def bgra_at_def)

lemma gif_recording_shows_every_frame_witness:
  "\<exists>r. gif_reader_new plain_parse (fst sample_finish) = Inr r \<and>
    (\<exists>px. gif_shot plain_decode r (shown_index 1 1 sample_pushes 1) = Inr px \<and> bgra_at 1 px 0 0 = [0, 0, 255, 255])"
  using gif_recording_shows_every_frame [OF plain_codec sample_writer_new sample_pushes_run sample_finish_run]
  by (auto simp: sample_pushes_def colour_at_def [of _ "[0, 0, 255, 0]"] bgra_at_def [of _ "[0, 0, 255, 0]"]
      numeral_3_eq_3 less_Suc_eq dest!: spec [of _ "1 :: nat"])


end
