(* ===== verification/Reencode.thy ===== *)
theory Reencode
  imports Animation
begin

section \<open>Saving an edited recording\<close>

text \<open>
  The GIF half of \<open>encode_edited\<close> of \<open>crates/captastic-app/src/recording.rs\<close>: a recording is read
  back, the frames a trim keeps are cropped, and what is left is written as a recording of its own.
  The MP4 half has the same shape around Media Foundation's reader and writer and is not modelled.
  A \<open>RecordingError\<close> other than \<open>Encode\<close> cannot arise here. An outer \<open>None\<close> is a panic.
\<close>

datatype recording_error = RecordingEncode ustring

text \<open>The messages of \<open>AnimationError\<close>.\<close>

fun animation_error_text :: "animation_error \<Rightarrow> ustring" where
  "animation_error_text (TooLarge w h) =
     ustr ''a GIF frame is at most 65535 pixels a side, not '' @ show_nat (unat w) @ ustr ''x'' @ show_nat (unat h)"
| "animation_error_text (WrongSize wanted got) =
     ustr ''expected '' @ show_nat wanted @ ustr '' bytes of BGRA pixels, got '' @ show_nat got"
| "animation_error_text (Encoding e) = ustr ''writing the GIF failed: '' @ e"

record edited_recording =
  er_width :: u32
  er_height :: u32
  er_frames_written :: nat

fun reencode_each ::
  "('p option \<Rightarrow> 'd gif_frame \<Rightarrow> ustring + bytes) \<Rightarrow> (u16 \<Rightarrow> u16 \<Rightarrow> bytes \<Rightarrow> 'd) \<Rightarrow>
   ('d gif_frame \<Rightarrow> 'e \<Rightarrow> ustring + 'e) \<Rightarrow> recording_edit \<Rightarrow> u32 \<Rightarrow> kept_frame list \<Rightarrow>
   ('p, 'd) gif_reader \<Rightarrow> ('e, 'd) gif_writer \<Rightarrow> (recording_error + ('e, 'd) gif_writer) option" where
  "reencode_each decode quantize write_frame e w [] r g = Some (Inr g)"
| "reencode_each decode quantize write_frame e w (k # ks) r g =
     (case gif_frame_at decode (kept_index k) r of
        None \<Rightarrow> None
      | Some (Inl err, _) \<Rightarrow> Some (Inl (RecordingEncode err))
      | Some (Inr px, r') \<Rightarrow>
        Option.bind (crop_pixels e px w) (\<lambda>cropped.
        case gif_push quantize write_frame cropped (kept_at k) g of
          None \<Rightarrow> None
        | Some (Inl err, _) \<Rightarrow> Some (Inl (RecordingEncode (animation_error_text err)))
        | Some (Inr _, g') \<Rightarrow> reencode_each decode quantize write_frame e w ks r' g'))"

definition encode_edited ::
  "('f \<Rightarrow> ustring + ('p, 'd) gif_file) \<Rightarrow> ('p option \<Rightarrow> 'd gif_frame \<Rightarrow> ustring + bytes) \<Rightarrow>
   (u16 \<Rightarrow> u16 \<Rightarrow> bytes \<Rightarrow> 'd) \<Rightarrow> (u16 \<Rightarrow> u16 \<Rightarrow> ustring + 'e) \<Rightarrow> ('d gif_frame \<Rightarrow> 'e \<Rightarrow> ustring + 'e) \<Rightarrow>
   ('e \<Rightarrow> ustring + 'f) \<Rightarrow> 'f \<Rightarrow> recording_edit \<Rightarrow>
   (recording_error + ('f \<times> edited_recording)) option" where
  "encode_edited parse decode quantize create write_frame close recording e =
     (case gif_reader_new parse recording of
        Inl err \<Rightarrow> Some (Inl (RecordingEncode err))
      | Inr reader \<Rightarrow>
        let dims = gif_size reader;
            (w, h) = output_size e dims;
            kept = kept_frames e (gr_timeline reader)
        in if kept = [] then Some (Inl (RecordingEncode (ustr ''the span kept is empty'')))
        else case gif_writer_new create w h of
          Inl err \<Rightarrow> Some (Inl (RecordingEncode (animation_error_text err)))
        | Inr writer \<Rightarrow>
          Option.bind (reencode_each decode quantize write_frame e (fst dims) kept reader writer) (\<lambda>res.
            case res of
              Inl err \<Rightarrow> Some (Inl err)
            | Inr writer \<Rightarrow>
              (case gif_finish write_frame close (edit_length e) writer of
                 Inl err \<Rightarrow> Some (Inl (RecordingEncode (animation_error_text err)))
               | Inr (bytes, summary) \<Rightarrow> Some (Inr (bytes,
                   \<lparr>er_width = w, er_height = h, er_frames_written = frames_written summary\<rparr>)))))"

subsection \<open>What the saved file shows\<close>

definition crop_origin :: "recording_edit \<Rightarrow> nat \<times> nat" where
  "crop_origin e = (case edit_crop e of None \<Rightarrow> (0, 0) | Some c \<Rightarrow> (unat (px_x c), unat (px_y c)))"

definition edit_fits :: "recording_edit \<Rightarrow> u32 \<times> u32 \<Rightarrow> bool" where
  "edit_fits e dims \<longleftrightarrow> (\<forall>c. edit_crop e = Some c \<longrightarrow> crop_fits c (fst dims) (snd dims))"

lemma crop_pixels_value:
  assumes "length px = unat w * unat h * 4" and "edit_fits e (w, h)"
  shows "\<exists>out. crop_pixels e px w = Some out \<and>
    length out = unat (fst (output_size e (w, h))) * unat (snd (output_size e (w, h))) * 4 \<and>
    (\<forall>x < unat (fst (output_size e (w, h))). \<forall>y < unat (snd (output_size e (w, h))).
      bgra_at (unat (fst (output_size e (w, h)))) out x y =
      bgra_at (unat w) px (fst (crop_origin e) + x) (snd (crop_origin e) + y))"
proof (cases "edit_crop e")
  case None
  then show ?thesis using assms(1) by (simp add: crop_pixels_def output_size_def crop_origin_def)
next
  case (Some c)
  then have "crop_fits c w h" using assms(2) by (simp add: edit_fits_def)
  from crop_pixels_window [OF assms(1) Some this] show ?thesis
    by (simp add: output_size_def crop_origin_def Some)
qed

definition cropped_push ::
  "('p option \<Rightarrow> 'd gif_frame \<Rightarrow> ustring + bytes) \<Rightarrow> recording_edit \<Rightarrow> ('p, 'd) gif_reader \<Rightarrow> kept_frame \<Rightarrow>
   bytes \<times> duration" where
  "cropped_push decode e r k =
     (the (crop_pixels e (projr (gif_shot decode r (kept_index k))) (gr_width r)), kept_at k)"

text \<open>When re-encoding succeeds, every kept frame was read and its cropped picture pushed.\<close>

lemma reencode_each_pushes:
  assumes "reader_ok decode r" and "sound_frames decode r" and "edit_fits e (gif_size r)"
  shows "(\<forall>g'. reencode_each decode quantize write_frame e (gr_width r) ks r g = Some (Inr g') \<longrightarrow>
    (\<forall>k\<in>set ks. \<not> isl (gif_shot decode r (kept_index k))) \<and>
    push_all quantize write_frame (map (cropped_push decode e r) ks) g = Some (Inr (), g'))"
  using assms
proof (induction ks arbitrary: r g)
  case (Cons k ks)
  obtain r' where r': "gif_frame_at decode (kept_index k) r = Some (gif_shot decode r (kept_index k), r')"
      "reader_ok decode r'" "sound_frames decode r'" "gif_size r' = gif_size r"
      "gif_shot decode r' = gif_shot decode r"
    using gif.frame_at_shot [of decode r "kept_index k"] Cons.prems by auto
  have w': "gr_width r' = gr_width r" using r'(4) by (simp add: gif_size_def)
  have same: "cropped_push decode e r' = cropped_push decode e r"
    by (simp add: fun_eq_iff cropped_push_def r'(5) w')
  show ?case
  proof (intro allI impI)
    fix g'
    assume run: "reencode_each decode quantize write_frame e (gr_width r) (k # ks) r g = Some (Inr g')"
    then obtain px where px: "gif_shot decode r (kept_index k) = Inr px"
      using r'(1) by (auto split: sum.splits)
    obtain out where out: "crop_pixels e px (gr_width r) = Some out"
      using run r'(1) px by (auto split: bind_splits)
    obtain g1 where g1: "gif_push quantize write_frame out (kept_at k) g = Some (Inr (), g1)"
        "reencode_each decode quantize write_frame e (gr_width r) ks r' g1 = Some (Inr g')"
      using run r'(1) px out by (auto split: option.splits prod.splits sum.splits)
    have "cropped_push decode e r k = (out, kept_at k)"
      by (simp add: cropped_push_def px out)
    then show "(\<forall>k\<in>set (k # ks). \<not> isl (gif_shot decode r (kept_index k))) \<and>
        push_all quantize write_frame (map (cropped_push decode e r) (k # ks)) g = Some (Inr (), g')"
      using Cons.IH [of r' g1] r' g1 px Cons.prems(3) by (simp add: same w')
  qed
qed simp

text \<open>C22: saving an edited recording. When \<open>encode_edited\<close> succeeds on a GIF with a crop inside the
  picture, the file it makes opens, has the size the crop asks for and as many frames as reported;
  and for the \<open>n\<close>th frame the trim keeps, the picture the new file shows for it has at each pixel an
  opaque colour that quantizing may make of the source's picture at that frame, at the pixel moved
  by the crop's corner. What is read back goes through the reader's caches and what is written
  through the writer's differences, and neither shows.\<close>

theorem edited_recording_shows_kept:
  fixes quantize :: "u16 \<Rightarrow> u16 \<Rightarrow> bytes \<Rightarrow> 'd" and create :: "u16 \<Rightarrow> u16 \<Rightarrow> ustring + 'e"
  assumes codec: "gif_codec near create write_frame close parse decode quantize contents extent"
    and run: "encode_edited parse decode quantize create write_frame close recording e =
      Some (Inr (file, edited))"
    and opened: "gif_reader_new parse recording = Inr r" and ok: "reader_ok decode r"
    and sound: "sound_frames decode r" and fits: "edit_fits e (gif_size r)"
  shows "\<exists>r'. gif_reader_new parse file = Inr r' \<and> gif_size r' = output_size e (gif_size r) \<and>
    gif_size r' = (er_width edited, er_height edited) \<and>
    length (gr_frames r') = er_frames_written edited \<and>
    (\<forall>n < length (kept_frames e (gr_timeline r)). \<exists>px src.
      gif_shot decode r (kept_index (kept_frames e (gr_timeline r) ! n)) = Inr src \<and>
      gif_shot decode r' (shown_index (gr_w r') (gr_h r')
        (map (cropped_push decode e r) (kept_frames e (gr_timeline r))) n) = Inr px \<and>
      (\<forall>x < gr_w r'. \<forall>y < gr_h r'. \<exists>c. bgra_at (gr_w r') px x y = c @ [255] \<and> length c = 3 \<and>
        near (colour_at (gr_w r) src (fst (crop_origin e) + x) (snd (crop_origin e) + y)) c))"
proof -
  define w h where "w = fst (output_size e (gif_size r))" and "h = snd (output_size e (gif_size r))"
  have wh: "output_size e (gif_size r) = (w, h)" by (simp add: w_def h_def)
  let ?kept = "kept_frames e (gr_timeline r)"
  let ?ps = "map (cropped_push decode e r) ?kept"
  have dims_w: "fst (gif_size r) = gr_width r" by (simp add: gif_size_def)
  have nonempty: "?kept \<noteq> []" using run by (auto simp: encode_edited_def opened Let_def wh)
  obtain g0 :: "('e, 'd) gif_writer" where g0: "gif_writer_new create w h = Inr g0"
    using run nonempty
    by (cases "gif_writer_new create w h :: animation_error + ('e, 'd) gif_writer") (simp_all add: encode_edited_def opened Let_def wh)
  let ?res = "reencode_each decode quantize write_frame e (gr_width r) ?kept r g0"
  obtain res where res: "?res = Some res"
    using run nonempty g0 by (cases ?res) (simp_all add: encode_edited_def opened Let_def wh dims_w)
  obtain g1 where g1: "?res = Some (Inr g1)"
    using run nonempty g0 res
    by (cases res) (simp_all add: encode_edited_def opened Let_def wh dims_w)
  obtain summary where fin: "gif_finish write_frame close (edit_length e) g1 = Inr (file, summary)"
      and edited: "edited = \<lparr>er_width = w, er_height = h, er_frames_written = frames_written summary\<rparr>"
    using run nonempty g0 g1
    by (auto simp: encode_edited_def opened Let_def wh dims_w split: sum.splits)
  have shots: "\<forall>k\<in>set ?kept. \<not> isl (gif_shot decode r (kept_index k))"
    and push: "push_all quantize write_frame ?ps g0 = Some (Inr (), g1)"
    using reencode_each_pushes [OF ok sound fits] g1 by blast+
  from gif_recording_shown [OF codec g0 push fin] nonempty obtain r' where
    r': "gif_reader_new parse file = Inr r'" "gif_size r' = (w, h)"
      "length (gr_frames r') = frames_written summary"
      "\<forall>k < length ?ps. \<exists>px. gif_shot decode r' (shown_index (unat w) (unat h) ?ps k) = Inr px \<and>
      (\<forall>x < unat w. \<forall>y < unat h. \<exists>c. bgra_at (unat w) px x y = c @ [255] \<and> length c = 3 \<and>
        near (colour_at (unat w) (fst (?ps ! k)) x y) c)" by auto
  have r'_wh: "gr_w r' = unat w" "gr_h r' = unat h" using r'(2) by (simp_all add: gif_size_def)
  have "\<exists>px src. gif_shot decode r (kept_index (?kept ! n)) = Inr src \<and>
      gif_shot decode r' (shown_index (unat w) (unat h) ?ps n) = Inr px \<and>
      (\<forall>x < unat w. \<forall>y < unat h. \<exists>c. bgra_at (unat w) px x y = c @ [255] \<and> length c = 3 \<and>
        near (colour_at (gr_w r) src (fst (crop_origin e) + x) (snd (crop_origin e) + y)) c)"
    if n: "n < length ?kept" for n
  proof -
    have "?kept ! n \<in> set ?kept" using n by simp
    then obtain src where src: "gif_shot decode r (kept_index (?kept ! n)) = Inr src"
      using shots by (cases "gif_shot decode r (kept_index (?kept ! n))") auto
    obtain out where out: "crop_pixels e src (gr_width r) = Some out"
        "\<forall>x < unat w. \<forall>y < unat h. bgra_at (unat w) out x y =
          bgra_at (gr_w r) src (fst (crop_origin e) + x) (snd (crop_origin e) + y)"
      using crop_pixels_value [OF picture_size [OF src], of e] fits wh by (auto simp: gif_size_def)
    have "fst (?ps ! n) = out"
      using n src out(1) by (simp add: cropped_push_def)
    then obtain px where px: "gif_shot decode r' (shown_index (unat w) (unat h) ?ps n) = Inr px"
        "\<forall>x < unat w. \<forall>y < unat h. \<exists>c. bgra_at (unat w) px x y = c @ [255] \<and> length c = 3 \<and>
        near (colour_at (unat w) out x y) c"
      using r'(4) n by force
    show ?thesis
      using src px out(2) by (intro exI [of _ px] exI [of _ src]) (simp add: colour_at_def)
  qed
  then show ?thesis
    using r'(1-3) wh edited by (intro exI [of _ r']) (simp add: r'_wh)
qed

definition dot_recording :: plain_encoder where
  "dot_recording = ((1, 1), [\<lparr>gf_left = 0, gf_top = 0, gf_width = 1, gf_height = 1, gf_delay = 5,
     gf_dispose = DisposeKeep, gf_data = [10, 20, 30, 255]\<rparr>])"

definition dot_source :: "(unit, bytes) gif_reader" where
  "dot_source = \<lparr>gr_width = 1, gr_height = 1, gr_frames = snd dot_recording,
     gr_timeline = \<lparr>starts = [0], tl_duration = 50000000\<rparr>, gr_palette = None,
     gr_canvas = black, gr_canvas_index = None, gr_snapshots = [None], gr_spacing = 8\<rparr>"

lemma dot_source_opens: "gif_reader_new plain_parse dot_recording = Inr dot_source"
  by (simp add: gif_reader_new_def plain_parse_def dot_recording_def dot_source_def timeline_new_def
      millis_def div_ceil_def SNAPSHOT_BUDGET_BYTES_def MINIMUM_SNAPSHOT_SPACING_def opaque_black_4)

lemma dot_source_ok: "reader_ok plain_decode dot_source" "sound_frames plain_decode dot_source"
  by (simp_all add: dot_source_def dot_recording_def reader_ok_def reader_base_def timeline_ok_def
      tl_len_def div_ceil_def sound_frames_def plain_decode_def)

definition dot_edit :: recording_edit where
  "dot_edit = edit_none 50000000"

lemma dot_source_frame:
  "\<exists>r'. gif_frame_at plain_decode 0 dot_source = Some (Inr [30, 20, 10, 255], r')"
  by (simp add: gif_frame_at_def dot_source_def dot_recording_def start_from_def nearest_snapshot_def
      gif_apply_def dispose_previous_def keep_snapshot_def get_def opaque_black_4 plain_decode_def
      draw_frame_def draw_pixel_def [abs_def] slice_def put_bytes_def)

lemma dot_kept: "kept_frames dot_edit (gr_timeline dot_source) = [\<lparr>kept_index = 0, kept_at = 0\<rparr>]"
  by (simp add: kept_frames_def dot_edit_def edit_none_def dot_source_def tl_is_empty_def tl_len_def
      index_at_def partition_point_def)

lemma dot_encode:
  "\<exists>file edited. encode_edited plain_parse plain_decode plain_quantize plain_create plain_write Inr
    dot_recording dot_edit = Some (Inr (file, edited))"
proof -
  obtain r' where r': "gif_frame_at plain_decode 0 dot_source = Some (Inr [30, 20, 10, 255], r')"
    using dot_source_frame by blast
  have "gif_size dot_source = (1, 1)" "output_size dot_edit (1, 1) = (1, 1)"
    by (simp_all add: gif_size_def dot_source_def output_size_def dot_edit_def edit_none_def)
  moreover have "crop_pixels dot_edit px 1 = Some px" for px
    by (simp add: crop_pixels_def dot_edit_def edit_none_def)
  ultimately show ?thesis
    using r' sample_writer_new
    by (simp add: encode_edited_def dot_source_opens dot_kept Let_def sample_run_defs gif_finish_def
        gif_write_def plain_write_def delay_until_def MINIMUM_DELAY_CS_def)
qed

lemma edited_recording_shows_kept_witness:
  "\<exists>file edited r'. encode_edited plain_parse plain_decode plain_quantize plain_create plain_write Inr
      dot_recording dot_edit = Some (Inr (file, edited)) \<and>
    gif_reader_new plain_parse file = Inr r' \<and> gif_size r' = (1, 1)"
proof -
  obtain f edited where run: "encode_edited plain_parse plain_decode plain_quantize plain_create plain_write
      Inr dot_recording dot_edit = Some (Inr (f, edited))"
    using dot_encode by blast
  have "edit_fits dot_edit (gif_size dot_source)"
    by (simp add: edit_fits_def dot_edit_def edit_none_def)
  from edited_recording_shows_kept [OF plain_codec run dot_source_opens dot_source_ok this] run
  show ?thesis
    by (auto simp: gif_size_def dot_source_def output_size_def dot_edit_def edit_none_def)
qed

end
