(* ===== verification/Metrics.thy ===== *)
theory Metrics
  imports CaptureTypes "HOL-Library.Multiset"
begin

section \<open>Performance events and their legal orders\<close>

text \<open>
  \<open>crates/captastic-core/src/metrics.rs\<close>: the event kinds with their ranks in the two capture
  orders, \<open>EventRecorder\<close>, \<open>validate_event_order\<close> and \<open>LatencySummary\<close>. The clock's reading is
  an argument of \<open>record_event\<close>; the hash map of the validator, whose entries start at the
  default, is a total function.
\<close>

datatype perf_event_kind =
    HotkeyReceived | TriggerEnqueued | TriggerDequeued | CaptureRequested | NativeFrameReady
  | ReadbackStarted | CpuFrameReady | SelectionStarted | SelectionConfirmed | CropFinished
  | ClipboardStarted | ClipboardCommitted | EncodeStarted | EncodeFinished | FileWriteStarted
  | FileWriteFinished | AttemptFinished

datatype capture_order = CaptureFirst | SelectionFirst

fun rank :: "capture_order \<Rightarrow> perf_event_kind \<Rightarrow> nat" where
  "rank SelectionFirst HotkeyReceived = 0"
| "rank SelectionFirst TriggerEnqueued = 1"
| "rank SelectionFirst TriggerDequeued = 2"
| "rank SelectionFirst SelectionStarted = 3"
| "rank SelectionFirst SelectionConfirmed = 4"
| "rank SelectionFirst CaptureRequested = 5"
| "rank SelectionFirst NativeFrameReady = 6"
| "rank SelectionFirst ReadbackStarted = 7"
| "rank SelectionFirst CpuFrameReady = 8"
| "rank CaptureFirst HotkeyReceived = 0"
| "rank CaptureFirst TriggerEnqueued = 1"
| "rank CaptureFirst TriggerDequeued = 2"
| "rank CaptureFirst CaptureRequested = 3"
| "rank CaptureFirst NativeFrameReady = 4"
| "rank CaptureFirst ReadbackStarted = 5"
| "rank CaptureFirst CpuFrameReady = 6"
| "rank CaptureFirst SelectionStarted = 7"
| "rank CaptureFirst SelectionConfirmed = 8"
| "rank _ CropFinished = 9"
| "rank _ ClipboardStarted = 10"
| "rank _ ClipboardCommitted = 11"
| "rank _ EncodeStarted = 10"
| "rank _ EncodeFinished = 11"
| "rank _ FileWriteStarted = 12"
| "rank _ FileWriteFinished = 13"
| "rank _ AttemptFinished = 16"

fun establishes_order :: "perf_event_kind \<Rightarrow> capture_order option" where
  "establishes_order CaptureRequested = Some CaptureFirst"
| "establishes_order SelectionStarted = Some SelectionFirst"
| "establishes_order _ = None"

definition is_output :: "perf_event_kind \<Rightarrow> bool" where
  "is_output k \<longleftrightarrow> k \<in> {ClipboardStarted, ClipboardCommitted, EncodeStarted, EncodeFinished,
     FileWriteStarted, FileWriteFinished}"

fun event_label :: "perf_event_kind \<Rightarrow> string" where
  "event_label HotkeyReceived = ''hotkey_received''"
| "event_label TriggerEnqueued = ''trigger_enqueued''"
| "event_label TriggerDequeued = ''trigger_dequeued''"
| "event_label CaptureRequested = ''capture_requested''"
| "event_label NativeFrameReady = ''native_frame_ready''"
| "event_label ReadbackStarted = ''readback_started''"
| "event_label CpuFrameReady = ''cpu_frame_ready''"
| "event_label SelectionStarted = ''selection_started''"
| "event_label SelectionConfirmed = ''selection_confirmed''"
| "event_label CropFinished = ''crop_finished''"
| "event_label ClipboardStarted = ''clipboard_started''"
| "event_label ClipboardCommitted = ''clipboard_committed''"
| "event_label EncodeStarted = ''encode_started''"
| "event_label EncodeFinished = ''encode_finished''"
| "event_label FileWriteStarted = ''file_write_started''"
| "event_label FileWriteFinished = ''file_write_finished''"
| "event_label AttemptFinished = ''attempt_finished''"

record perf_event =
  event_capture :: capture_id
  event_kind :: perf_event_kind
  ticks_ns :: u64
  event_value :: u64

definition nanos_u64 :: "nat \<Rightarrow> u64" where
  "nanos_u64 v = (if v < 18446744073709551616 then of_nat v else - 1)"

subsection \<open>\<open>EventRecorder\<close>\<close>

record event_recorder =
  rec_events :: "perf_event list"
  rec_capacity :: nat
  lost_events :: u64

definition recorder_with_capacity :: "nat \<Rightarrow> event_recorder" where
  "recorder_with_capacity n = \<lparr>rec_events = [], rec_capacity = n, lost_events = 0\<rparr>"

definition record_event ::
  "nat \<Rightarrow> capture_id \<Rightarrow> perf_event_kind \<Rightarrow> u64 \<Rightarrow> event_recorder \<Rightarrow> event_recorder" where
  "record_event elapsed capture kind v r =
     (if length (rec_events r) = rec_capacity r then r\<lparr>lost_events := sat_inc (lost_events r)\<rparr>
      else r\<lparr>rec_events := rec_events r @
        [\<lparr>event_capture = capture, event_kind = kind, ticks_ns = nanos_u64 elapsed, event_value = v\<rparr>]\<rparr>)"

subsection \<open>\<open>validate_event_order\<close>\<close>

datatype metrics_error =
    EventOrderRegression capture_id nat nat
  | OutputBeforeCpuFrame capture_id string

record order_progress =
  progress_rank :: nat
  cpu_frame_ready :: bool
  progress_order :: "capture_order option"
  selection_confirmed :: bool

definition default_progress :: order_progress where
  "default_progress = \<lparr>progress_rank = 0, cpu_frame_ready = False, progress_order = None,
     selection_confirmed = False\<rparr>"

text \<open>The re-anchoring of a trace whose second capture follows a confirmed selection.\<close>

definition re_anchor :: "perf_event_kind \<Rightarrow> order_progress \<Rightarrow> order_progress" where
  "re_anchor k p =
     (if k = CaptureRequested \<and> progress_order p = Some CaptureFirst \<and> selection_confirmed p \<and>
         progress_rank p \<le> rank CaptureFirst SelectionConfirmed
      then p\<lparr>progress_order := Some SelectionFirst,
          progress_rank := rank SelectionFirst SelectionConfirmed, cpu_frame_ready := False\<rparr>
      else p)"

definition advance :: "capture_id \<Rightarrow> perf_event_kind \<Rightarrow> order_progress \<Rightarrow> metrics_error + order_progress" where
  "advance capture k p =
     (if is_output k \<and> \<not> cpu_frame_ready p then Inl (OutputBeforeCpuFrame capture (event_label k))
      else
        let p = (if progress_order p = None then p\<lparr>progress_order := establishes_order k\<rparr> else p);
            p = re_anchor k p;
            r = rank (case progress_order p of None \<Rightarrow> CaptureFirst | Some order \<Rightarrow> order) k
        in if r < progress_rank p then Inl (EventOrderRegression capture (progress_rank p) r)
           else Inr (p\<lparr>cpu_frame_ready := cpu_frame_ready p \<or> k = CpuFrameReady,
             selection_confirmed := selection_confirmed p \<or> k = SelectionConfirmed,
             progress_rank := r\<rparr>))"

fun validate_from ::
  "(capture_id \<Rightarrow> order_progress) \<Rightarrow> perf_event list \<Rightarrow> metrics_error + unit" where
  "validate_from state [] = Inr ()"
| "validate_from state (e # es) =
     (case advance (event_capture e) (event_kind e) (state (event_capture e)) of
        Inl err \<Rightarrow> Inl err
      | Inr p \<Rightarrow> validate_from (state(event_capture e := p)) es)"

definition validate_event_order :: "perf_event list \<Rightarrow> metrics_error + unit" where
  "validate_event_order es = validate_from (\<lambda>_. default_progress) es"

subsection \<open>\<open>LatencySummary\<close>\<close>

record latency_summary =
  ls_count :: nat
  min_ns :: u64
  p50_ns :: u64
  p90_ns :: u64
  p95_ns :: u64
  p99_ns :: u64
  max_ns :: u64
  mean_ns :: u64

definition usize_saturating :: "nat \<Rightarrow> nat" where
  "usize_saturating n = min n 18446744073709551615"

definition percentile :: "u64 list \<Rightarrow> nat \<Rightarrow> u64" where
  "percentile xs p =
     (let numerator = usize_saturating (usize_saturating (p * length xs) + 99);
          r = numerator div 100
      in xs ! min (r - 1) (length xs - 1))"

text \<open>The sum of 64-bit values saturates at \<open>u128::MAX\<close>.\<close>

definition u128_sum :: "u64 list \<Rightarrow> nat" where
  "u128_sum xs = fold (\<lambda>v acc. min (acc + unat v) 340282366920938463463374607431768211455) xs 0"

definition from_samples :: "u64 list \<Rightarrow> latency_summary" where
  "from_samples samples =
     (if samples = []
      then \<lparr>ls_count = 0, min_ns = 0, p50_ns = 0, p90_ns = 0, p95_ns = 0, p99_ns = 0, max_ns = 0, mean_ns = 0\<rparr>
      else
        let xs = sort samples; total = u128_sum xs in
        \<lparr>ls_count = length xs, min_ns = xs ! 0, p50_ns = percentile xs 50,
         p90_ns = percentile xs 90, p95_ns = percentile xs 95, p99_ns = percentile xs 99,
         max_ns = last xs, mean_ns = of_nat (total div length xs)\<rparr>)"

subsection \<open>The legal orders of one capture's events\<close>

text \<open>The order table of a trace: the first event that establishes one decides.\<close>

fun order_of :: "perf_event_kind list \<Rightarrow> capture_order" where
  "order_of [] = CaptureFirst"
| "order_of (k # ks) = (case establishes_order k of None \<Rightarrow> order_of ks | Some order \<Rightarrow> order)"

text \<open>Every output event has a CPU frame before it.\<close>

fun outputs_ready :: "bool \<Rightarrow> perf_event_kind list \<Rightarrow> bool" where
  "outputs_ready ready [] \<longleftrightarrow> True"
| "outputs_ready ready (k # ks) \<longleftrightarrow>
     (is_output k \<longrightarrow> ready) \<and> outputs_ready (ready \<or> k = CpuFrameReady) ks"

definition one_capture :: "capture_order \<Rightarrow> perf_event_kind list \<Rightarrow> bool" where
  "one_capture order ks \<longleftrightarrow> sorted (map (rank order) ks) \<and> outputs_ready False ks"

text \<open>A snapshot is taken and selected from; then the confirmed selection is captured anew.\<close>

definition two_captures :: "perf_event_kind list \<Rightarrow> bool" where
  "two_captures ks \<longleftrightarrow> (\<exists>lead rest. ks = lead @ CaptureRequested # rest \<and>
     order_of (lead @ [CaptureRequested]) = CaptureFirst \<and> SelectionConfirmed \<in> set lead \<and>
     one_capture CaptureFirst lead \<and> (\<forall>k\<in>set lead. rank CaptureFirst k \<le> 8) \<and>
     one_capture SelectionFirst (CaptureRequested # rest))"

definition legal_trace :: "perf_event_kind list \<Rightarrow> bool" where
  "legal_trace ks \<longleftrightarrow> one_capture (order_of ks) ks \<or> two_captures ks"

fun trace_from :: "order_progress \<Rightarrow> perf_event_kind list \<Rightarrow> bool" where
  "trace_from p [] \<longleftrightarrow> True"
| "trace_from p (k # ks) \<longleftrightarrow> (case advance 0 k p of Inl _ \<Rightarrow> False | Inr p' \<Rightarrow> trace_from p' ks)"

lemma advance_capture:
  "advance c k p = (case advance 0 k p of Inr p' \<Rightarrow> Inr p'
    | Inl (EventOrderRegression _ a b) \<Rightarrow> Inl (EventOrderRegression c a b)
    | Inl (OutputBeforeCpuFrame _ l) \<Rightarrow> Inl (OutputBeforeCpuFrame c l))"
  by (simp add: advance_def Let_def)

text \<open>Captures do not affect one another: a log is valid when each capture's own events are.\<close>

lemma validate_from_Inr:
  "validate_from state es = Inr () \<longleftrightarrow>
    (\<forall>c. trace_from (state c) (map event_kind (filter (\<lambda>e. event_capture e = c) es)))"
proof (induction es arbitrary: state)
  case (Cons e es)
  let ?c = "event_capture e" and ?k = "event_kind e"
  show ?case
  proof (cases "advance 0 ?k (state ?c)")
    case (Inl err)
    then have "\<exists>err'. advance ?c ?k (state ?c) = Inl err'"
      by (subst advance_capture) (simp split: metrics_error.split)
    then show ?thesis using Inl by (auto intro!: exI [of _ ?c])
  next
    case (Inr p)
    then have "advance ?c ?k (state ?c) = Inr p" by (subst advance_capture) simp
    then have "validate_from state (e # es) = Inr () \<longleftrightarrow>
        (\<forall>c. trace_from ((state(?c := p)) c) (map event_kind (filter (\<lambda>e. event_capture e = c) es)))"
      using Cons.IH by simp
    also have "\<dots> \<longleftrightarrow>
        (\<forall>c. trace_from (state c) (map event_kind (filter (\<lambda>e. event_capture e = c) (e # es))))"
      using Inr by (auto split: if_splits)
    finally show ?thesis .
  qed
qed simp

text \<open>Once no re-anchoring is possible, a trace is legal when its ranks do not fall.\<close>

lemma trace_from_selection:
  assumes "progress_order p = Some SelectionFirst"
  shows "trace_from p ks \<longleftrightarrow>
    sorted (progress_rank p # map (rank SelectionFirst) ks) \<and> outputs_ready (cpu_frame_ready p) ks"
  using assms
proof (induction ks arbitrary: p)
  case (Cons k ks)
  have step: "advance 0 k p = (if is_output k \<and> \<not> cpu_frame_ready p then Inl (OutputBeforeCpuFrame 0 (event_label k))
      else if rank SelectionFirst k < progress_rank p
      then Inl (EventOrderRegression 0 (progress_rank p) (rank SelectionFirst k))
      else Inr (p\<lparr>cpu_frame_ready := cpu_frame_ready p \<or> k = CpuFrameReady,
             selection_confirmed := selection_confirmed p \<or> k = SelectionConfirmed,
             progress_rank := rank SelectionFirst k\<rparr>))"
    using Cons.prems by (simp add: advance_def re_anchor_def Let_def)
  show ?case
    using Cons.prems by (auto simp: step Cons.IH)
qed simp

text \<open>The shape of a legal rest, from a state in the capture-first table.\<close>

definition re_anchored :: "perf_event_kind list \<Rightarrow> bool" where
  "re_anchored rest \<longleftrightarrow> sorted (5 # map (rank SelectionFirst) rest) \<and> outputs_ready False rest"

lemma trace_from_capture:
  assumes "progress_order p = Some CaptureFirst" and "selection_confirmed p \<longrightarrow> 8 \<le> progress_rank p"
  shows "trace_from p ks \<longleftrightarrow>
    sorted (progress_rank p # map (rank CaptureFirst) ks) \<and> outputs_ready (cpu_frame_ready p) ks \<or>
    (\<exists>lead rest. ks = lead @ CaptureRequested # rest \<and>
      sorted (progress_rank p # map (rank CaptureFirst) lead) \<and>
      outputs_ready (cpu_frame_ready p) lead \<and>
      (selection_confirmed p \<or> SelectionConfirmed \<in> set lead) \<and>
      (\<forall>k\<in>set lead. rank CaptureFirst k \<le> 8) \<and> progress_rank p \<le> 8 \<and> re_anchored rest)"
    (is "_ \<longleftrightarrow> ?plain p ks \<or> ?two p ks")
  using assms
proof (induction ks arbitrary: p)
  case (Cons k ks)
  show ?case
  proof (cases "k = CaptureRequested \<and> selection_confirmed p \<and> progress_rank p \<le> 8")
    case True
    let ?q = "p\<lparr>progress_order := Some SelectionFirst, progress_rank := 5, cpu_frame_ready := False\<rparr>"
    have "advance 0 k p = Inr ?q"
      using True Cons.prems by (simp add: advance_def re_anchor_def is_output_def Let_def)
    then have "trace_from p (k # ks) \<longleftrightarrow> re_anchored ks"
      using trace_from_selection [of ?q ks] by (simp add: re_anchored_def)
    moreover have "re_anchored ks \<longleftrightarrow> ?plain p (k # ks) \<or> ?two p (k # ks)"
    proof
      assume "re_anchored ks"
      then have "?two p (k # ks)"
        by (intro exI [of _ "[]"] exI [of _ ks]) (use True in simp)
      then show "?plain p (k # ks) \<or> ?two p (k # ks)" by blast
    next
      assume "?plain p (k # ks) \<or> ?two p (k # ks)"
      moreover have "\<not> ?plain p (k # ks)" using True Cons.prems by auto
      ultimately obtain lead rest where two: "k # ks = lead @ CaptureRequested # rest"
          "sorted (progress_rank p # map (rank CaptureFirst) lead)" "re_anchored rest" by auto
      have "lead = []"
      proof (cases lead)
        case (Cons k' os)
        then have "progress_rank p \<le> rank CaptureFirst k" using two(1,2) by simp
        then show ?thesis using True Cons.prems(2) by simp
      qed
      then show "re_anchored ks" using two by simp
    qed
    ultimately show ?thesis by blast
  next
    case False
    have step: "advance 0 k p = (if is_output k \<and> \<not> cpu_frame_ready p then Inl (OutputBeforeCpuFrame 0 (event_label k))
        else if rank CaptureFirst k < progress_rank p
        then Inl (EventOrderRegression 0 (progress_rank p) (rank CaptureFirst k))
        else Inr (p\<lparr>cpu_frame_ready := cpu_frame_ready p \<or> k = CpuFrameReady,
               selection_confirmed := selection_confirmed p \<or> k = SelectionConfirmed,
               progress_rank := rank CaptureFirst k\<rparr>))"
      using Cons.prems False by (auto simp: advance_def re_anchor_def Let_def)
    let ?q = "p\<lparr>cpu_frame_ready := cpu_frame_ready p \<or> k = CpuFrameReady,
        selection_confirmed := selection_confirmed p \<or> k = SelectionConfirmed,
        progress_rank := rank CaptureFirst k\<rparr>"
    have two_Cons: "?two p (k # ks) \<longleftrightarrow> (is_output k \<longrightarrow> cpu_frame_ready p) \<and>
        progress_rank p \<le> rank CaptureFirst k \<and> ?two ?q ks"
    proof
      assume "?two p (k # ks)"
      then obtain lead rest where o: "k # ks = lead @ CaptureRequested # rest"
          "sorted (progress_rank p # map (rank CaptureFirst) lead)"
          "outputs_ready (cpu_frame_ready p) lead"
          "selection_confirmed p \<or> SelectionConfirmed \<in> set lead"
          "\<forall>k\<in>set lead. rank CaptureFirst k \<le> 8" "progress_rank p \<le> 8" "re_anchored rest" by blast
      from o(1,4,6) False obtain os where os: "lead = k # os" "ks = os @ CaptureRequested # rest"
        by (cases lead) auto
      show "(is_output k \<longrightarrow> cpu_frame_ready p) \<and> progress_rank p \<le> rank CaptureFirst k \<and> ?two ?q ks"
      proof (intro conjI)
        show "is_output k \<longrightarrow> cpu_frame_ready p" "progress_rank p \<le> rank CaptureFirst k"
          using o(2,3) os by auto
        show "?two ?q ks"
          by (rule exI [of _ os], rule exI [of _ rest]) (use o(2-7) os in auto)
      qed
    next
      assume *: "(is_output k \<longrightarrow> cpu_frame_ready p) \<and> progress_rank p \<le> rank CaptureFirst k \<and> ?two ?q ks"
      then obtain os rest where o: "ks = os @ CaptureRequested # rest"
          "sorted (progress_rank ?q # map (rank CaptureFirst) os)"
          "outputs_ready (cpu_frame_ready ?q) os"
          "selection_confirmed ?q \<or> SelectionConfirmed \<in> set os"
          "\<forall>k\<in>set os. rank CaptureFirst k \<le> 8" "progress_rank ?q \<le> 8" "re_anchored rest" by blast
      show "?two p (k # ks)"
        by (rule exI [of _ "k # os"], rule exI [of _ rest]) (use * o in auto)
    qed
    have "selection_confirmed ?q \<longrightarrow> 8 \<le> progress_rank ?q" if "progress_rank p \<le> rank CaptureFirst k"
      using Cons.prems(2) that by auto
    then have IH: "trace_from ?q ks \<longleftrightarrow> ?plain ?q ks \<or> ?two ?q ks"
      if "progress_rank p \<le> rank CaptureFirst k"
      using Cons.IH [of ?q] Cons.prems(1) that by simp
    show ?thesis
      unfolding two_Cons using IH by (auto simp: step)
  qed
qed simp

definition after_event :: "perf_event_kind \<Rightarrow> nat \<Rightarrow> order_progress \<Rightarrow> order_progress" where
  "after_event k r p = p\<lparr>cpu_frame_ready := cpu_frame_ready p \<or> k = CpuFrameReady,
     selection_confirmed := selection_confirmed p \<or> k = SelectionConfirmed, progress_rank := r\<rparr>"

lemma after_event_fields [simp]:
  "progress_order (after_event k r p) = progress_order p" "progress_rank (after_event k r p) = r"
  "cpu_frame_ready (after_event k r p) \<longleftrightarrow> cpu_frame_ready p \<or> k = CpuFrameReady"
  "after_event k r (p\<lparr>progress_order := ord\<rparr>) = (after_event k r p)\<lparr>progress_order := ord\<rparr>"
  by (simp_all add: after_event_def)

lemma trace_from_plain:
  assumes "establishes_order k = None"
  shows "trace_from p (k # ks) \<longleftrightarrow> (is_output k \<longrightarrow> cpu_frame_ready p) \<and>
    progress_rank p \<le> rank (case progress_order p of None \<Rightarrow> CaptureFirst | Some ord \<Rightarrow> ord) k \<and>
    trace_from (after_event k (rank (case progress_order p of None \<Rightarrow> CaptureFirst | Some ord \<Rightarrow> ord) k) p) ks"
proof -
  have "(if progress_order p = None then p\<lparr>progress_order := establishes_order k\<rparr> else p) = p"
    using assms by (cases p) simp
  moreover have "re_anchor k p = p" using assms by (auto simp: re_anchor_def)
  ultimately have "advance 0 k p = (if is_output k \<and> \<not> cpu_frame_ready p then Inl (OutputBeforeCpuFrame 0 (event_label k))
      else if rank (case progress_order p of None \<Rightarrow> CaptureFirst | Some ord \<Rightarrow> ord) k < progress_rank p
      then Inl (EventOrderRegression 0 (progress_rank p) (rank (case progress_order p of None \<Rightarrow> CaptureFirst | Some ord \<Rightarrow> ord) k))
      else Inr (after_event k (rank (case progress_order p of None \<Rightarrow> CaptureFirst | Some ord \<Rightarrow> ord) k) p))"
    by (simp only: advance_def Let_def after_event_def)
  then show ?thesis by simp
qed

lemma trace_from_none_capture:
  assumes "progress_order p = None" and "order_of ks = CaptureFirst"
  shows "trace_from p ks \<longleftrightarrow> trace_from (p\<lparr>progress_order := Some CaptureFirst\<rparr>) ks"
  using assms
proof (induction ks arbitrary: p)
  case (Cons k ks)
  show ?case
  proof (cases "establishes_order k")
    case None
    then have "k \<noteq> CaptureRequested" "order_of ks = CaptureFirst" using Cons.prems(2) by auto
    then show ?thesis
      using Cons.prems(1) Cons.IH [of "after_event k (rank CaptureFirst k) p"]
      by (simp only: trace_from_plain [OF None]) simp
  next
    case (Some order)
    then have "k = CaptureRequested" using Cons.prems(2) by (cases k) auto
    then show ?thesis using Cons.prems(1) by (simp add: advance_def Let_def)
  qed
qed simp

lemma rank_early: "establishes_order k = None \<Longrightarrow>
    rank CaptureFirst k \<le> 2 \<and> rank SelectionFirst k = rank CaptureFirst k \<or>
    4 \<le> rank CaptureFirst k \<and> 4 \<le> rank SelectionFirst k"
  by (cases k) simp_all

lemma order_of_selection:
  "order_of ks = SelectionFirst \<Longrightarrow> SelectionStarted \<in> set ks"
proof (induction ks)
  case (Cons k ks)
  then show ?case by (cases k) auto
qed simp

lemma trace_from_none_late:
  assumes "progress_order p = None" and "order_of ks = SelectionFirst" and "4 \<le> progress_rank p"
  shows "\<not> trace_from p ks"
  using assms
proof (induction ks arbitrary: p)
  case (Cons k ks)
  show ?case
  proof (cases "establishes_order k")
    case None
    then have "k \<noteq> CaptureRequested" "order_of ks = SelectionFirst" using Cons.prems(2) by auto
    then show ?thesis
      using Cons.prems(1,3) Cons.IH [of "after_event k (rank CaptureFirst k) p"]
      by (simp only: trace_from_plain [OF None]) simp
  next
    case (Some order)
    then have "k = SelectionStarted" using Cons.prems(2) by (cases k) auto
    then show ?thesis using Cons.prems(1,3) by (simp add: advance_def re_anchor_def is_output_def Let_def)
  qed
qed simp

lemma trace_from_none_selection:
  assumes "progress_order p = None" and "order_of ks = SelectionFirst" and "progress_rank p \<le> 2"
  shows "trace_from p ks \<longleftrightarrow>
    sorted (progress_rank p # map (rank SelectionFirst) ks) \<and> outputs_ready (cpu_frame_ready p) ks"
  using assms
proof (induction ks arbitrary: p)
  case (Cons k ks)
  show ?case
  proof (cases "establishes_order k")
    case None
    let ?q = "after_event k (rank CaptureFirst k) p"
    have ks: "k \<noteq> CaptureRequested" "order_of ks = SelectionFirst" using Cons.prems(2) None by auto
    then have run: "trace_from p (k # ks) \<longleftrightarrow> (is_output k \<longrightarrow> cpu_frame_ready p) \<and>
        progress_rank p \<le> rank CaptureFirst k \<and> trace_from ?q ks"
      using Cons.prems(1) by (simp only: trace_from_plain [OF None]) simp
    from rank_early [OF None] show ?thesis
    proof
      assume early: "rank CaptureFirst k \<le> 2 \<and> rank SelectionFirst k = rank CaptureFirst k"
      then have "trace_from ?q ks \<longleftrightarrow> sorted (rank CaptureFirst k # map (rank SelectionFirst) ks) \<and>
          outputs_ready (cpu_frame_ready p \<or> k = CpuFrameReady) ks"
        using Cons.IH [of ?q] Cons.prems(1) ks(2) by simp
      then show ?thesis
        unfolding run using early by (simp only: list.map sorted2 outputs_ready.simps) blast
    next
      assume late: "4 \<le> rank CaptureFirst k \<and> 4 \<le> rank SelectionFirst k"
      then have "\<not> trace_from ?q ks"
        using trace_from_none_late [of ?q ks] Cons.prems(1) ks(2) by simp
      moreover have "\<not> sorted (map (rank SelectionFirst) (k # ks))"
        using late order_of_selection [OF ks(2)] by fastforce
      ultimately show ?thesis using run by auto
    qed
  next
    case (Some order)
    then have k: "k = SelectionStarted" using Cons.prems(2) by (cases k) auto
    let ?q = "p\<lparr>progress_order := Some SelectionFirst, progress_rank := 3\<rparr>"
    have "advance 0 k p = Inr ?q"
      using k Cons.prems(1,3) by (simp add: advance_def re_anchor_def is_output_def Let_def)
    then show ?thesis
      using trace_from_selection [of ?q ks] k Cons.prems(3)
      by (simp only: trace_from.simps sum.case list.map sorted2 outputs_ready.simps)
        (simp add: is_output_def)
  qed
qed simp

lemma order_of_append: "order_of (xs @ CaptureRequested # ys) = order_of (xs @ [CaptureRequested])"
  by (induction xs) (simp_all split: option.split)

lemma trace_from_default: "trace_from default_progress ks \<longleftrightarrow> legal_trace ks"
proof (cases "order_of ks")
  case SelectionFirst
  then have "\<not> two_captures ks"
    using order_of_append unfolding two_captures_def by (metis capture_order.distinct(1))
  then show ?thesis
    using trace_from_none_selection [of default_progress ks] SelectionFirst
    by (simp add: default_progress_def legal_trace_def one_capture_def)
next
  case CaptureFirst
  let ?p = "default_progress\<lparr>progress_order := Some CaptureFirst\<rparr>"
  have "trace_from default_progress ks \<longleftrightarrow> trace_from ?p ks"
    using CaptureFirst by (intro trace_from_none_capture) (simp_all add: default_progress_def)
  also have "\<dots> \<longleftrightarrow> one_capture CaptureFirst ks \<or> two_captures ks"
  proof -
    have rest: "one_capture SelectionFirst (CaptureRequested # rest) \<longleftrightarrow> re_anchored rest" for rest
      by (simp add: one_capture_def re_anchored_def is_output_def)
    have two: "two_captures ks \<longleftrightarrow> (\<exists>lead rest. ks = lead @ CaptureRequested # rest \<and>
        SelectionConfirmed \<in> set lead \<and> one_capture CaptureFirst lead \<and>
        (\<forall>k\<in>set lead. rank CaptureFirst k \<le> 8) \<and> re_anchored rest)"
    proof -
      have "order_of (lead @ [CaptureRequested]) = CaptureFirst" if "ks = lead @ CaptureRequested # rest" for lead rest
        using CaptureFirst order_of_append [of lead rest] that by simp
      then show ?thesis unfolding two_captures_def rest by blast
    qed
    have p: "progress_order ?p = Some CaptureFirst" "selection_confirmed ?p \<longrightarrow> 8 \<le> progress_rank ?p"
      "\<not> selection_confirmed ?p" "progress_rank ?p = 0" "\<not> cpu_frame_ready ?p"
      by (simp_all add: default_progress_def)
    have sorted_0: "sorted (0 # xs) \<longleftrightarrow> sorted xs" for xs :: "nat list" by simp
    show ?thesis
      unfolding trace_from_capture [OF p(1,2)] two p(4) sorted_0 one_capture_def using p(3,5)
      by (simp only: simp_thms zero_le) blast
  qed
  finally show ?thesis using CaptureFirst by (simp add: legal_trace_def)
qed

text \<open>C23: \<open>validate_event_order\<close> accepts exactly the logs in which each capture's own events, with
  those of all others left out, follow a legal order: the ranks of one table never fall and every
  output has a CPU frame before it - or, for a capture that selects from a snapshot and captures
  again, a part of the first order that ends with a confirmed selection, followed from the second
  request on by the other order with a CPU frame of its own.\<close>

theorem validate_event_order_legal:
  "validate_event_order es = Inr () \<longleftrightarrow>
    (\<forall>c. legal_trace (map event_kind (filter (\<lambda>e. event_capture e = c) es)))"
  by (simp add: validate_event_order_def validate_from_Inr trace_from_default)

lemma outputs_ready_split:
  assumes "outputs_ready ready (a @ k # b)" and "is_output k"
  shows "ready \<or> CpuFrameReady \<in> set a"
  using assms by (induction a arbitrary: ready) auto

lemma one_capture_output:
  assumes "one_capture order (a @ k # b)" and "is_output k"
  shows "\<exists>a1 a2. a = a1 @ CpuFrameReady # a2 \<and> CaptureRequested \<notin> set a2"
proof -
  have "CpuFrameReady \<in> set a"
    using assms outputs_ready_split [of False a k b] by (simp add: one_capture_def)
  then obtain a1 a2 where a: "a = a1 @ CpuFrameReady # a2" by (meson split_list)
  have "rank order CpuFrameReady \<le> rank order k'" if "k' \<in> set a2" for k'
    using assms(1) that by (auto simp: one_capture_def a sorted_append)
  then have "CaptureRequested \<notin> set a2" by (cases order) fastforce+
  with a show ?thesis by blast
qed

lemma one_capture_finished:
  assumes "one_capture order (a @ AttemptFinished # b)"
  shows "set b \<subseteq> {AttemptFinished}"
proof
  fix k assume "k \<in> set b"
  then have "16 \<le> rank order k"
    using assms by (auto simp: one_capture_def sorted_append)
  then show "k \<in> {AttemptFinished}" by (cases order; cases k) simp_all
qed

lemma two_captures_split:
  assumes "ks = a @ k # b" and "ks = lead @ CaptureRequested # rest" and "k \<notin> set lead"
    and "k \<noteq> CaptureRequested"
  shows "\<exists>c. a = lead @ CaptureRequested # c \<and> rest = c @ k # b"
  using assms by (auto simp: append_eq_append_conv2 Cons_eq_append_conv append_eq_Cons_conv)

lemma legal_trace_output:
  assumes "legal_trace (a @ k # b)" and "is_output k"
  shows "\<exists>a1 a2. a = a1 @ CpuFrameReady # a2 \<and> CaptureRequested \<notin> set a2"
  using assms(1) unfolding legal_trace_def
proof
  assume "two_captures (a @ k # b)"
  then obtain lead rest where two: "a @ k # b = lead @ CaptureRequested # rest"
      "\<forall>k\<in>set lead. rank CaptureFirst k \<le> 8" "one_capture SelectionFirst (CaptureRequested # rest)"
    unfolding two_captures_def by blast
  have "k \<notin> set lead" "k \<noteq> CaptureRequested"
    using two(2) assms(2) by (auto simp: is_output_def)
  then obtain c where c: "a = lead @ CaptureRequested # c" "rest = c @ k # b"
    using two_captures_split [OF refl two(1)] by blast
  have "one_capture SelectionFirst ((CaptureRequested # c) @ k # b)" using two(3) c(2) by simp
  from one_capture_output [OF this assms(2)] obtain a1 a2 where
    "CaptureRequested # c = a1 @ CpuFrameReady # a2" "CaptureRequested \<notin> set a2" by blast
  then show ?thesis
    using c(1) by (intro exI [of _ "lead @ a1"] exI [of _ a2]) (cases a1; simp)
qed (rule one_capture_output [OF _ assms(2)])

lemma legal_trace_finished:
  assumes "legal_trace (a @ AttemptFinished # b)"
  shows "set b \<subseteq> {AttemptFinished}"
  using assms unfolding legal_trace_def
proof
  assume "two_captures (a @ AttemptFinished # b)"
  then obtain lead rest where two: "a @ AttemptFinished # b = lead @ CaptureRequested # rest"
      "\<forall>k\<in>set lead. rank CaptureFirst k \<le> 8" "one_capture SelectionFirst (CaptureRequested # rest)"
    unfolding two_captures_def by blast
  have "AttemptFinished \<notin> set lead" using two(2) by auto
  then obtain c where "rest = c @ AttemptFinished # b"
    using two_captures_split [OF refl two(1)] by blast
  then show ?thesis
    using two(3) one_capture_finished [of SelectionFirst "CaptureRequested # c" b] by simp
qed (rule one_capture_finished)


definition sample_log :: "perf_event list" where
  "sample_log = map (\<lambda>(c, k). \<lparr>event_capture = c, event_kind = k, ticks_ns = 0, event_value = 0\<rparr>)
     [(1, TriggerDequeued), (2, CaptureRequested), (1, CaptureRequested), (1, CpuFrameReady),
      (1, SelectionStarted), (2, CpuFrameReady), (1, SelectionConfirmed), (2, ClipboardStarted),
      (1, CaptureRequested), (1, CpuFrameReady), (1, EncodeStarted), (1, AttemptFinished)]"

lemma sample_log_valid: "validate_event_order sample_log = Inr ()"
  by (simp add: validate_event_order_def sample_log_def advance_def re_anchor_def default_progress_def
      is_output_def Let_def)


subsection \<open>The recorder never grows past its capacity\<close>

fun record_all :: "(nat \<times> capture_id \<times> perf_event_kind \<times> u64) list \<Rightarrow> event_recorder \<Rightarrow> event_recorder" where
  "record_all [] r = r"
| "record_all ((elapsed, c, k, v) # es) r = record_all es (record_event elapsed c k v r)"

definition perf_event_of :: "nat \<times> capture_id \<times> perf_event_kind \<times> u64 \<Rightarrow> perf_event" where
  "perf_event_of = (\<lambda>(elapsed, c, k, v).
     \<lparr>event_capture = c, event_kind = k, ticks_ns = nanos_u64 elapsed, event_value = v\<rparr>)"

lemma unat_sat_inc: "unat (sat_inc (a :: u64)) = min (unat a + 1) 18446744073709551615"
proof (cases "a = - 1")
  case True
  have "unat (- 1 :: u64) = 18446744073709551615" 
    by (simp add: unsigned_minus_1_eq_mask mask_eq_exp_minus_1)
  then show ?thesis using True by (simp only: sat_inc_def if_True) simp
next
  case False
  then have "unat a \<noteq> unat (- 1 :: u64)" by (metis unsigned_word_eqI)
  then have "unat a \<noteq> 18446744073709551615"
    by (simp add: unsigned_minus_1_eq_mask mask_eq_exp_minus_1)
  then have "unat a < 18446744073709551615"
    using unsigned_less [of a, where ?'a = nat] by simp
  then show ?thesis using False by (simp add: sat_inc_def unat_word_ariths)
qed

lemma record_all_from_empty:
  "rec_events (record_all es (recorder_with_capacity n)) = take n (map perf_event_of es) \<and>
   unat (lost_events (record_all es (recorder_with_capacity n))) =
     min (length es - n) 18446744073709551615"
proof -
  have "rec_capacity r = n \<Longrightarrow> length (rec_events r) \<le> n \<Longrightarrow>
      rec_events (record_all es r) = take n (rec_events r @ map perf_event_of es) \<and>
      unat (lost_events (record_all es r)) =
        min (unat (lost_events r) + (length (rec_events r) + length es - n)) 18446744073709551615" for r
  proof (induction es arbitrary: r)
    case Nil
    then show ?case
      using unsigned_less [of "lost_events r", where ?'a = nat] by simp
  next
    case (Cons e es)
    obtain t c k v where e: "e = (t, c, k, v)" by (cases e)
    show ?case
    proof (cases "length (rec_events r) = n")
      case True
      then have "record_event t c k v r = r\<lparr>lost_events := sat_inc (lost_events r)\<rparr>"
        using Cons.prems by (simp add: record_event_def)
      then show ?thesis using Cons True e by (simp add: unat_sat_inc)
    next
      case False
      then have "record_event t c k v r = r\<lparr>rec_events := rec_events r @ [perf_event_of e]\<rparr>"
        using Cons.prems by (simp add: record_event_def perf_event_of_def e)
      then show ?thesis using Cons False e by (simp add: take_Cons')
    qed
  qed
  from this [of "recorder_with_capacity n"] show ?thesis by (simp add: recorder_with_capacity_def)
qed

text \<open>an \<open>EventRecorder\<close> keeps the first events up to its capacity, in order, and counts every
  one it drops (the count saturates instead of wrapping).\<close>

theorem recorder_keeps_first:
  "rec_events (record_all es (recorder_with_capacity n)) = take n (map perf_event_of es) \<and>
   unat (lost_events (record_all es (recorder_with_capacity n))) =
     min (length es - n) 18446744073709551615"
  by (rule record_all_from_empty)

subsection \<open>Percentiles are nearest ranks\<close>

text \<open>\<open>v\<close> is the smallest sample with at least \<open>p\<close> percent of the samples at or below it.\<close>

definition nearest_rank :: "u64 list \<Rightarrow> nat \<Rightarrow> u64 \<Rightarrow> bool" where
  "nearest_rank samples p v \<longleftrightarrow> v \<in> set samples \<and>
     p * length samples \<le> 100 * length (filter (\<lambda>s. s \<le> v) samples) \<and>
     100 * length (filter (\<lambda>s. s < v) samples) < p * length samples"

lemma length_filter_sort: "length (filter P (sort xs)) = length (filter P xs)"
  by (metis mset_filter mset_sort size_mset)

lemma length_filter_card: "length (filter P xs) = card {i. i < length xs \<and> P (sort xs ! i)}"
  using length_filter_conv_card [of P "sort xs"] by (simp add: length_filter_sort)

lemma sort_Nil_iff [simp]: "sort xs = [] \<longleftrightarrow> xs = []"
  by (metis length_0_conv length_sort)

lemma percentile_index:
  assumes "xs \<noteq> []" and "length xs < 144115188075855872" and "0 < p" and "p \<le> 100"
  shows "\<exists>r. percentile xs p = xs ! r \<and> r < length xs \<and> 100 * r < p * length xs \<and>
    p * length xs \<le> 100 * (r + 1) \<and> r = (p * length xs + 99) div 100 - 1"
proof -
  define n where "n = length xs"
  have n: "0 < n" "n < 144115188075855872" using assms(1,2) by (simp_all add: n_def)
  have pn: "p * n \<le> 100 * n" "0 < p * n" using assms(3,4) n by simp_all
  have "p * n \<le> 14411518807585587200" using pn(1) n(2) by linarith
  then have small: "usize_saturating (usize_saturating (p * n) + 99) = p * n + 99"
    by (simp add: usize_saturating_def)
  define r where "r = (p * n + 99) div 100"
  have "1 \<le> r" "r \<le> n" "p * n \<le> 100 * r" "100 * r < p * n + 100"
    using pn unfolding r_def by linarith+
  then have "min (r - 1) (n - 1) = r - 1" "r - 1 < n" "100 * (r - 1) < p * n" "p * n \<le> 100 * (r - 1 + 1)"
    by simp_all
  then show ?thesis
    using small by (intro exI [of _ "r - 1"]) (simp add: percentile_def Let_def n_def [symmetric] r_def)
qed

lemma percentile_nearest:
  assumes "samples \<noteq> []" and "length samples < 144115188075855872" and "0 < p" and "p \<le> 100"
  shows "nearest_rank samples p (percentile (sort samples) p)"
proof -
  let ?xs = "sort samples" and ?n = "length samples"
  obtain r where r: "percentile ?xs p = ?xs ! r" "r < ?n" "100 * r < p * ?n" "p * ?n \<le> 100 * (r + 1)"
    using percentile_index [of ?xs p] assms by auto
  let ?v = "?xs ! r"
  have "{0..r} \<subseteq> {i. i < length ?xs \<and> ?xs ! i \<le> ?v}"
    using r(2) by (auto intro: sorted_nth_mono)
  then have "card {0..r} \<le> card {i. i < length ?xs \<and> ?xs ! i \<le> ?v}" by (intro card_mono) auto
  then have "r + 1 \<le> length (filter (\<lambda>s. s \<le> ?v) samples)"
    by (simp add: length_filter_card)
  moreover have "{i. i < length ?xs \<and> ?xs ! i < ?v} \<subseteq> {0..<r}"
  proof
    fix i assume "i \<in> {i. i < length ?xs \<and> ?xs ! i < ?v}"
    then have i: "i < length ?xs" "?xs ! i < ?v" by auto
    have "i < r"
    proof (rule ccontr)
      assume "\<not> i < r"
      then have "?v \<le> ?xs ! i" using i(1) by (intro sorted_nth_mono) auto
      with i(2) show False by simp
    qed
    then show "i \<in> {0..<r}" by simp
  qed
  then have "card {i. i < length ?xs \<and> ?xs ! i < ?v} \<le> card {0..<r}" by (intro card_mono) auto
  then have "length (filter (\<lambda>s. s < ?v) samples) \<le> r"
    by (simp add: length_filter_card)
  moreover have "?v \<in> set samples" using r(2) by (metis length_sort nth_mem set_sort)
  ultimately show ?thesis using r by (simp add: nearest_rank_def)
qed

lemma percentile_mono:
  assumes "samples \<noteq> []" and "length samples < 144115188075855872" and "0 < p" and "p \<le> q" and "q \<le> 100"
  shows "percentile (sort samples) p \<le> percentile (sort samples) q"
proof -
  let ?xs = "sort samples" and ?n = "length samples"
  obtain r where r: "percentile ?xs p = ?xs ! r" "r = (p * ?n + 99) div 100 - 1"
    using percentile_index [of ?xs p] assms by auto
  obtain s where s: "percentile ?xs q = ?xs ! s" "s < ?n" "s = (q * ?n + 99) div 100 - 1"
    using percentile_index [of ?xs q] assms by auto
  have "r \<le> s" unfolding r(2) s(3)
    using assms(4) by (intro diff_le_mono div_le_mono add_right_mono mult_le_mono1)
  then show ?thesis using r(1) s(1,2) by (simp add: sorted_nth_mono)
qed

lemma u128_sum_exact:
  assumes "length xs < 144115188075855872"
  shows "u128_sum xs = sum_list (map unat xs)"
proof -
  have le: "sum_list (map unat ys) \<le> length ys * 18446744073709551615" for ys :: "u64 list"
  proof (induction ys)
    case (Cons y ys)
    then show ?case using unsigned_less [of y, where ?'a = nat] by simp
  qed simp
  have "fold (\<lambda>v acc. min (acc + unat v) 340282366920938463463374607431768211455) ys acc =
      acc + sum_list (map unat ys)"
    if "acc + sum_list (map unat ys) \<le> 340282366920938463463374607431768211455" for ys :: "u64 list" and acc
    using that by (induction ys arbitrary: acc) (simp_all add: add.assoc)
  moreover have "sum_list (map unat xs) \<le> 340282366920938463463374607431768211455"
    using le [of xs] assms by simp
  ultimately show ?thesis by (simp add: u128_sum_def)
qed

lemma sum_between:
  fixes xs :: "u64 list"
  assumes "xs \<noteq> []"
  shows "length xs * unat (Min (set xs)) \<le> sum_list (map unat xs) \<and>
    sum_list (map unat xs) \<le> length xs * unat (Max (set xs))"
proof -
  have "\<forall>x\<in>set xs. unat (Min (set xs)) \<le> unat x \<and> unat x \<le> unat (Max (set xs))"
    using assms by (simp add: word_le_nat_alt [symmetric])
  then have "\<forall>ys. set ys \<subseteq> set xs \<longrightarrow> length ys * unat (Min (set xs)) \<le> sum_list (map unat ys) \<and>
      sum_list (map unat ys) \<le> length ys * unat (Max (set xs))"
    by (intro allI, rename_tac ys, induct_tac ys) (simp_all add: add_mono)
  then show ?thesis by simp
qed

text \<open>\<open>LatencySummary::from_samples\<close>. Each percentile is the smallest sample with at least that
  share of the samples at or below it; minimum, percentiles and maximum are in order; the mean is the
  exact sum divided by the count, rounded down, and lies between minimum and maximum (no
  intermediate saturates below \<open>2 ^ 57\<close> samples, an exabyte of them).\<close>

theorem from_samples_spec:
  assumes "samples \<noteq> []" and "length samples < 144115188075855872"
  shows "let s = from_samples samples in ls_count s = length samples \<and>
    min_ns s = Min (set samples) \<and> max_ns s = Max (set samples) \<and>
    nearest_rank samples 50 (p50_ns s) \<and> nearest_rank samples 90 (p90_ns s) \<and>
    nearest_rank samples 95 (p95_ns s) \<and> nearest_rank samples 99 (p99_ns s) \<and>
    min_ns s \<le> p50_ns s \<and> p50_ns s \<le> p90_ns s \<and> p90_ns s \<le> p95_ns s \<and> p95_ns s \<le> p99_ns s \<and>
    p99_ns s \<le> max_ns s \<and>
    unat (mean_ns s) = sum_list (map unat samples) div length samples \<and>
    min_ns s \<le> mean_ns s \<and> mean_ns s \<le> max_ns s"
proof -
  let ?xs = "sort samples" and ?n = "length samples"
  have xs: "?xs \<noteq> []" using assms(1) by simp
  have sorted: "?xs ! i \<le> ?xs ! j" if "i \<le> j" "j < ?n" for i j
    using that by (intro sorted_nth_mono) auto
  have first: "?xs ! 0 = Min (set ?xs)"
    using xs sorted by (intro Min_eqI [symmetric]) (auto simp: in_set_conv_nth simp del: set_sort)
  have "last ?xs = ?xs ! (?n - 1)" using xs by (simp add: last_conv_nth)
  moreover have "\<dots> = Max (set ?xs)"
  proof (rule Max_eqI [symmetric])
    show "?xs ! (?n - 1) \<in> set ?xs" using assms(1) by (intro nth_mem) simp
    show "v \<le> ?xs ! (?n - 1)" if "v \<in> set ?xs" for v
      using that sorted assms(1) by (auto simp: in_set_conv_nth simp del: set_sort)
  qed simp
  ultimately have final: "last ?xs = Max (set ?xs)" by simp
  note near = percentile_nearest [OF assms]
  have in_range: "Min (set samples) \<le> percentile ?xs p \<and> percentile ?xs p \<le> Max (set samples)"
    if "0 < p" "p \<le> 100" for p
    using near [OF that] by (simp add: nearest_rank_def)
  have sum: "u128_sum ?xs = sum_list (map unat samples)"
    using u128_sum_exact [of ?xs] assms(2)
    by (simp add: sum_mset_sum_list [symmetric])
  have between: "unat (Min (set samples)) \<le> sum_list (map unat samples) div ?n"
      "sum_list (map unat samples) div ?n \<le> unat (Max (set samples))"
    using sum_between [OF assms(1)] assms(1)
      div_le_mono [of "?n * unat (Min (set samples))" "sum_list (map unat samples)" ?n]
      div_le_mono [of "sum_list (map unat samples)" "?n * unat (Max (set samples))" ?n] by simp_all
  have mean: "unat (of_nat (sum_list (map unat samples) div ?n) :: u64) = sum_list (map unat samples) div ?n"
    using between(2) unsigned_less [of "Max (set samples)", where ?'a = nat]
    by (simp add: unat_of_nat)
  show ?thesis
    using assms(1) near in_range [of 50] in_range [of 99] between mean
      percentile_mono [OF assms, of 50 90] percentile_mono [OF assms, of 90 95]
      percentile_mono [OF assms, of 95 99]
    by (simp add: from_samples_def Let_def first final sum word_le_nat_alt [of _ "of_nat _"]
        word_le_nat_alt [of "of_nat _"])
qed

lemma from_samples_spec_witness:
  "nearest_rank [30, 10, 20] 50 (p50_ns (from_samples [30, 10, 20])) \<and> mean_ns (from_samples [30, 10, 20]) \<le> 30"
proof -
  have "max_ns (from_samples [30, 10, 20]) = 30"
    by (simp add: from_samples_def Let_def)
  then show ?thesis using from_samples_spec [of "[30, 10, 20]"] by (simp add: Let_def)
qed

end
