(* ===== verification/Detach.thy ===== *)
theory Detach
  imports Prelude "HOL-Library.Multiset"
begin

section \<open>The ledger of detached workers\<close>

text \<open>
  \<open>crates/captastic-core/src/detach.rs\<close>. The ledger's counters are atomics that several threads
  change without a lock, so a call of \<open>detached\<close> is two steps, one \<open>fetch_add\<close> each, and the steps
  of different calls interleave; \<open>rejoined\<close> is one step. The step relation keeps, beside the
  counters, every call of \<open>detached\<close> with what it has read so far and how often workers rejoined:
  a worker rejoins only after the call that detached it has counted it. The counters are \<open>nat\<close>
  (a \<open>usize\<close> would wrap after \<open>2 ^ 64\<close> detaches).
\<close>

datatype detach_kind = WindowRender | CaptureWorker | FileOutputWorker

definition ALL_KINDS :: "detach_kind list" where
  "ALL_KINDS = [WindowRender, CaptureWorker, FileOutputWorker]"

fun ceiling :: "detach_kind \<Rightarrow> nat" where
  "ceiling WindowRender = 8"
| "ceiling CaptureWorker = 1"
| "ceiling FileOutputWorker = 1"

fun kind_label :: "detach_kind \<Rightarrow> ustring" where
  "kind_label WindowRender = ustr ''window render''"
| "kind_label CaptureWorker = ustr ''capture worker''"
| "kind_label FileOutputWorker = ustr ''file output worker''"

record detach_count =
  dc_live :: nat
  dc_total :: nat

definition at_ceiling :: "detach_count \<Rightarrow> detach_kind \<Rightarrow> bool" where
  "at_ceiling c k \<longleftrightarrow> ceiling k \<le> dc_live c"

record detach_ledger =
  led_live :: "detach_kind \<Rightarrow> nat"
  led_total :: "detach_kind \<Rightarrow> nat"

definition ledger_new :: detach_ledger where
  "ledger_new = \<lparr>led_live = (\<lambda>_. 0), led_total = (\<lambda>_. 0)\<rparr>"

text \<open>The two \<open>fetch_add\<close>s of \<open>detached\<close>, each with the value it yields, and the \<open>fetch_sub\<close>.\<close>

definition add_live :: "detach_kind \<Rightarrow> detach_ledger \<Rightarrow> nat \<times> detach_ledger" where
  "add_live k l = (led_live l k + 1, l\<lparr>led_live := (led_live l)(k := led_live l k + 1)\<rparr>)"

definition add_total :: "detach_kind \<Rightarrow> detach_ledger \<Rightarrow> nat \<times> detach_ledger" where
  "add_total k l = (led_total l k + 1, l\<lparr>led_total := (led_total l)(k := led_total l k + 1)\<rparr>)"

definition sub_live :: "detach_kind \<Rightarrow> detach_ledger \<Rightarrow> detach_ledger" where
  "sub_live k l = l\<lparr>led_live := (led_live l)(k := led_live l k - 1)\<rparr>"

text \<open>\<open>detached\<close> run without interruption, and the reads.\<close>

definition detached_worker :: "detach_kind \<Rightarrow> detach_ledger \<Rightarrow> detach_count \<times> detach_ledger" where
  "detached_worker k l =
     (let (live, l) = add_live k l; (n, l) = add_total k l in (\<lparr>dc_live = live, dc_total = n\<rparr>, l))"

definition ledger_count :: "detach_ledger \<Rightarrow> detach_kind \<Rightarrow> detach_count" where
  "ledger_count l k = \<lparr>dc_live = led_live l k, dc_total = led_total l k\<rparr>"

definition summary :: "detach_ledger \<Rightarrow> (detach_kind \<times> detach_count) list" where
  "summary l = filter (\<lambda>(_, c). 0 < dc_total c) (map (\<lambda>k. (k, ledger_count l k)) ALL_KINDS)"

definition entry_line :: "detach_kind \<times> detach_count \<Rightarrow> ustring" where
  "entry_line e = show_nat (dc_total (snd e)) @ ustr '' '' @ kind_label (fst e) @ ustr '' detached, '' @
     show_nat (dc_live (snd e)) @ ustr '' still running (ceiling '' @ show_nat (ceiling (fst e)) @ ustr '')''"

fun join :: "ustring \<Rightarrow> ustring list \<Rightarrow> ustring" where
  "join sep [] = []"
| "join sep [x] = x"
| "join sep (x # xs) = x @ sep @ join sep xs"

definition to_line :: "(detach_kind \<times> detach_count) list \<Rightarrow> ustring" where
  "to_line entries = ustr ''detached native workers: '' @ join (ustr ''; '') (map entry_line entries)"

subsection \<open>Interleaved calls\<close>

text \<open>A call of \<open>detached\<close>: its kind, the live count it got, and the total once it has got that.\<close>

record detach_call =
  call_kind :: detach_kind
  call_live :: nat
  call_total :: "nat option"

record ledger_run =
  run_ledger :: detach_ledger
  run_calls :: "detach_call list"
  run_rejoined :: "detach_kind \<Rightarrow> nat"

definition run_start :: ledger_run where
  "run_start = \<lparr>run_ledger = ledger_new, run_calls = [], run_rejoined = (\<lambda>_. 0)\<rparr>"

definition begun :: "ledger_run \<Rightarrow> detach_kind \<Rightarrow> nat" where
  "begun s k = length (filter (\<lambda>c. call_kind c = k) (run_calls s))"

inductive ledger_step :: "ledger_run \<Rightarrow> ledger_run \<Rightarrow> bool" where
  step_live: "add_live k (run_ledger s) = (live, l) \<Longrightarrow>
    ledger_step s (s\<lparr>run_ledger := l,
      run_calls := run_calls s @ [\<lparr>call_kind = k, call_live = live, call_total = None\<rparr>]\<rparr>)"
| step_total: "i < length (run_calls s) \<Longrightarrow> call_total (run_calls s ! i) = None \<Longrightarrow>
    add_total (call_kind (run_calls s ! i)) (run_ledger s) = (n, l) \<Longrightarrow>
    ledger_step s (s\<lparr>run_ledger := l,
      run_calls := (run_calls s)[i := (run_calls s ! i)\<lparr>call_total := Some n\<rparr>]\<rparr>)"
| step_rejoin: "run_rejoined s k < begun s k \<Longrightarrow>
    ledger_step s (s\<lparr>run_ledger := sub_live k (run_ledger s),
      run_rejoined := (run_rejoined s)(k := run_rejoined s k + 1)\<rparr>)"

inductive ledger_reachable :: "ledger_run \<Rightarrow> bool" where
  reach_start: "ledger_reachable run_start"
| reach_step: "ledger_reachable s \<Longrightarrow> ledger_step s s' \<Longrightarrow> ledger_reachable s'"

inductive_cases ledger_start_stepE: "ledger_step run_start s'"

text \<open>The first thing to happen is that some detach counts itself live.\<close>

lemma ledger_first_step:
  assumes "ledger_step run_start s'"
  shows "\<exists>k. run_calls s' = [\<lparr>call_kind = k, call_live = 1, call_total = None\<rparr>]"
  using assms
  by (rule ledger_start_stepE) (auto simp: run_start_def ledger_new_def add_live_def begun_def)

subsection \<open>What the counters mean, whatever the interleaving\<close>

definition finished_totals :: "ledger_run \<Rightarrow> detach_kind \<Rightarrow> nat list" where
  "finished_totals s k =
     concat (map (\<lambda>c. if call_kind c = k then (case call_total c of None \<Rightarrow> [] | Some n \<Rightarrow> [n]) else [])
       (run_calls s))"

definition ledger_inv :: "ledger_run \<Rightarrow> bool" where
  "ledger_inv s \<longleftrightarrow> (\<forall>k. led_live (run_ledger s) k + run_rejoined s k = begun s k \<and>
     mset (finished_totals s k) = mset (map Suc [0..<led_total (run_ledger s) k]))"

lemma ledger_inv_start: "ledger_inv run_start"
  by (simp add: ledger_inv_def run_start_def begun_def finished_totals_def ledger_new_def)

lemma begun_update:
  assumes "i < length (run_calls s)"
  shows "begun (s\<lparr>run_ledger := l, run_calls := (run_calls s)[i := (run_calls s ! i)\<lparr>call_total := t\<rparr>]\<rparr>) k =
    begun s k"
proof -
  have "filter (\<lambda>c. call_kind c = k) (xs[i := (xs ! i)\<lparr>call_total := t\<rparr>]) =
      (if call_kind (xs ! i) = k
       then filter (\<lambda>c. call_kind c = k) (take i xs) @ (xs ! i)\<lparr>call_total := t\<rparr> # filter (\<lambda>c. call_kind c = k) (drop (Suc i) xs)
       else filter (\<lambda>c. call_kind c = k) (take i xs) @ filter (\<lambda>c. call_kind c = k) (drop (Suc i) xs))"
    if "i < length xs" for xs :: "detach_call list"
    using that by (simp add: upd_conv_take_nth_drop)
  moreover have "filter (\<lambda>c. call_kind c = k) xs =
      (if call_kind (xs ! i) = k
       then filter (\<lambda>c. call_kind c = k) (take i xs) @ xs ! i # filter (\<lambda>c. call_kind c = k) (drop (Suc i) xs)
       else filter (\<lambda>c. call_kind c = k) (take i xs) @ filter (\<lambda>c. call_kind c = k) (drop (Suc i) xs))"
    if "i < length xs" for xs :: "detach_call list"
    using that by (subst id_take_nth_drop [OF that]) simp
  ultimately show ?thesis using assms by (simp add: begun_def)
qed

lemma finished_update:
  assumes "i < length (run_calls s)" and "call_total (run_calls s ! i) = None"
  shows "mset (finished_totals (s\<lparr>run_ledger := l,
      run_calls := (run_calls s)[i := (run_calls s ! i)\<lparr>call_total := Some n\<rparr>]\<rparr>) k) =
    mset (finished_totals s k) + (if call_kind (run_calls s ! i) = k then {#n#} else {#})"
proof -
  let ?f = "\<lambda>c. if call_kind c = k then (case call_total c of None \<Rightarrow> [] | Some n \<Rightarrow> [n]) else []"
  have "mset (concat (map ?f (xs[i := (xs ! i)\<lparr>call_total := Some n\<rparr>]))) =
      mset (concat (map ?f xs)) + (if call_kind (xs ! i) = k then {#n#} else {#})"
    if "i < length xs" "call_total (xs ! i) = None" for xs :: "detach_call list"
    by (subst (2) id_take_nth_drop [OF that(1)]) (simp add: upd_conv_take_nth_drop that)
  then show ?thesis using assms by (simp add: finished_totals_def)
qed

lemma ledger_inv_step:
  assumes "ledger_step s s'" and "ledger_inv s"
  shows "ledger_inv s'"
  using assms(1)
proof cases
  case (step_live k live l)
  then show ?thesis
    using assms(2) by (auto simp: ledger_inv_def add_live_def begun_def finished_totals_def)
next
  case (step_total i n l)
  then show ?thesis
    using assms(2) begun_update [OF step_total(2)] finished_update [OF step_total(2,3)]
    by (auto simp: ledger_inv_def add_total_def simp del: mset_upt)
next
  case (step_rejoin k)
  have live: "led_live (run_ledger s) j + run_rejoined s j = begun s j" for j
    using assms(2) by (simp add: ledger_inv_def)
  have same: "begun s' j = begun s j" "finished_totals s' j = finished_totals s j" for j
    by (simp_all add: step_rejoin(1) begun_def finished_totals_def)
  have "led_live (run_ledger s') j + run_rejoined s' j = begun s j" for j
    using live [of j] step_rejoin(2) by (cases "j = k") (simp_all add: step_rejoin(1) sub_live_def)
  moreover have "led_total (run_ledger s') = led_total (run_ledger s)"
    by (simp add: step_rejoin(1) sub_live_def)
  ultimately show ?thesis
    using assms(2) by (simp add: ledger_inv_def same)
qed

lemma ledger_reachable_inv: "ledger_reachable s \<Longrightarrow> ledger_inv s"
  by (induction rule: ledger_reachable.induct) (auto intro: ledger_inv_start ledger_inv_step)

lemma finished_length: "length (finished_totals s k) \<le> begun s k"
proof -
  have "length (concat (map (\<lambda>c. if call_kind c = k then (case call_total c of None \<Rightarrow> [] | Some n \<Rightarrow> [n]) else []) xs))
      \<le> length (filter (\<lambda>c. call_kind c = k) xs)" for xs :: "detach_call list"
    by (induction xs) (auto split: option.split)
  then show ?thesis by (simp add: finished_totals_def begun_def)
qed


text \<open>Two calls whose steps cross: the first counts itself live, then the second runs to its end.\<close>

definition crossed :: ledger_run where
  "crossed = \<lparr>run_ledger = \<lparr>led_live = (\<lambda>_. 0)(WindowRender := 2), led_total = (\<lambda>_. 0)(WindowRender := 1)\<rparr>,
     run_calls = [\<lparr>call_kind = WindowRender, call_live = 1, call_total = None\<rparr>,
       \<lparr>call_kind = WindowRender, call_live = 2, call_total = Some 1\<rparr>],
     run_rejoined = (\<lambda>_. 0)\<rparr>"

lemma crossed_reachable: "ledger_reachable crossed"
proof -
  let ?c1 = "\<lparr>call_kind = WindowRender, call_live = 1, call_total = None\<rparr>"
  let ?c2 = "\<lparr>call_kind = WindowRender, call_live = 2, call_total = None\<rparr>"
  let ?s1 = "\<lparr>run_ledger = \<lparr>led_live = (\<lambda>_. 0)(WindowRender := 1), led_total = (\<lambda>_. 0)\<rparr>,
    run_calls = [?c1], run_rejoined = (\<lambda>_. 0)\<rparr>"
  let ?s2 = "\<lparr>run_ledger = \<lparr>led_live = (\<lambda>_. 0)(WindowRender := 2), led_total = (\<lambda>_. 0)\<rparr>,
    run_calls = [?c1, ?c2], run_rejoined = (\<lambda>_. 0)\<rparr>"
  have "ledger_step run_start ?s1"
    using step_live [of WindowRender run_start] by (simp add: add_live_def run_start_def ledger_new_def)
  moreover have "ledger_step ?s1 ?s2"
    using step_live [of WindowRender ?s1] by (simp add: add_live_def numeral_2_eq_2)
  moreover have "ledger_step ?s2 crossed"
    using step_total [of 1 ?s2] by (simp add: add_total_def crossed_def)
  ultimately show ?thesis by (meson reach_start reach_step)
qed


text \<open>what \<open>detached\<close> returns need not be the counts as they stood after it. The two counters are
  bumped one after the other, so when another detach falls between, a call can be handed a live
  count above its own total, a pair the ledger never held at rest.\<close>

theorem detached_pair_can_cross:
  "\<exists>s c. ledger_reachable s \<and> c \<in> set (run_calls s) \<and> call_total c = Some 1 \<and> call_live c = 2"
  by (rule exI [of _ crossed], rule exI [of _ "run_calls crossed ! 1"])
    (simp add: crossed_reachable, simp add: crossed_def)

end
