(* ===== verification/FakeBackend.thy ===== *)
theory FakeBackend
  imports Frame Metrics
begin

section \<open>Capture backends, and the deterministic one\<close>

text \<open>
  The trait \<open>CaptureBackend\<close> of \<open>crates/captastic-core/src/capture.rs\<close> as a locale, and
  \<open>FakeBackend\<close> of \<open>fake.rs\<close>, which stands in for the platform backends and mirrors their
  refusals. The clock is an argument: \<open>clock n\<close> is the \<open>n\<close>th reading a capture takes, from the
  recorder's origin or from the trigger as the code has it. Sleeping only moves the clock.
\<close>

record 'n capture_outcome =
  out_metadata :: frame_metadata
  out_frame :: "cpu_frame option"
  out_native_frame :: "'n option"

record fake_failure =
  fail_attempt :: u64
  fail_kind :: capture_error_kind
  fail_operation :: ustring
  fail_message :: ustring
  fail_retryable :: bool

text \<open>The derived \<open>Debug\<close> of a fieldless enumeration prints the variant's name.\<close>

fun kind_debug :: "capture_error_kind \<Rightarrow> string" where
  "kind_debug Unsupported = ''Unsupported''"
| "kind_debug PermissionDenied = ''PermissionDenied''"
| "kind_debug SourceUnavailable = ''SourceUnavailable''"
| "kind_debug DesktopUnavailable = ''DesktopUnavailable''"
| "kind_debug Timeout = ''Timeout''"
| "kind_debug AccessLost = ''AccessLost''"
| "kind_debug DeviceRemoved = ''DeviceRemoved''"
| "kind_debug TopologyChanged = ''TopologyChanged''"
| "kind_debug BufferExhausted = ''BufferExhausted''"
| "kind_debug WorkersExhausted = ''WorkersExhausted''"
| "kind_debug PointerOutsideDisplays = ''PointerOutsideDisplays''"
| "kind_debug InvalidFrame = ''InvalidFrame''"
| "kind_debug NativeFailure = ''NativeFailure''"
| "kind_debug ShuttingDown = ''ShuttingDown''"

definition fake_failure_new :: "u64 \<Rightarrow> capture_error_kind \<Rightarrow> bool \<Rightarrow> fake_failure" where
  "fake_failure_new attempt kind retryable =
     \<lparr>fail_attempt = attempt, fail_kind = kind, fail_operation = ustr ''capture'',
      fail_message = ustr ''scripted '' @ ustr (kind_debug kind) @ ustr '' failure on attempt '' @
        show_nat (unat attempt),
      fail_retryable = retryable\<rparr>"

record fake_config =
  cfg_width :: u32
  cfg_height :: u32
  native_delay :: duration
  readback_delay :: duration
  frame_age :: duration
  fail_every :: "u64 option"
  failure_script :: "fake_failure list"
  stale_display_configuration :: bool
  cfg_capabilities :: backend_capabilities

definition default_capabilities :: backend_capabilities where
  "default_capabilities =
     \<lparr>display_capture = True, window_capture = False, virtual_desktop_capture = False,
      fresh_mode = True, latest_mode = True, cursor_control = True, hdr = False,
      presentation_time = True, warm_stream = True\<rparr>"

definition default_config :: fake_config where
  "default_config =
     \<lparr>cfg_width = 64, cfg_height = 64, native_delay = 250000, readback_delay = 250000,
      frame_age = 1000000, fail_every = None, failure_script = [],
      stale_display_configuration = False, cfg_capabilities = default_capabilities\<rparr>"

record fake_backend =
  fb_config :: fake_config
  fb_capabilities :: backend_capabilities
  fb_displays :: "display_info list"
  fb_attempts :: u64

definition fake_with_displays :: "fake_config \<Rightarrow> display_info list \<Rightarrow> fake_backend" where
  "fake_with_displays c ds =
     \<lparr>fb_config = c, fb_capabilities = cfg_capabilities c, fb_displays = ds, fb_attempts = 0\<rparr>"

text \<open>\<open>1.0\<close> as its bits.\<close>

definition fake_new :: "fake_config \<Rightarrow> fake_backend" where
  "fake_new c = fake_with_displays c
     [\<lparr>display_id = primary_id, display_name = ustr ''Synthetic Display'',
       bounds = \<lparr>rect_x = 0, rect_y = 0, rect_width = cfg_width c, rect_height = cfg_height c\<rparr>,
       scale_factor = 0x3F800000, rotation_degrees = 0, is_primary = True\<rparr>]"

subsection \<open>Refusals\<close>

definition fake_error :: "capture_error_kind \<Rightarrow> ustring \<Rightarrow> ustring \<Rightarrow> bool \<Rightarrow> capture_error" where
  "fake_error kind operation message retryable =
     \<lparr>err_kind = kind, err_backend = ustr ''fake'', err_operation = operation,
      err_message = message, err_retryable = retryable, err_native_code = None\<rparr>"

definition requested_display :: "fake_backend \<Rightarrow> capture_source \<Rightarrow> capture_error + display_info" where
  "requested_display b source =
     (case source of
        VirtualDesktop \<Rightarrow> Inl (fake_error Unsupported (ustr ''resolve_display'')
          (ustr ''virtual-desktop capture is not supported by the fake backend'') False)
      | Display wanted \<Rightarrow>
          ok_or (fake_error SourceUnavailable DISPLAY_NOT_ATTACHED
              (ustr ''display '' @ id_text wanted @ ustr '' is not attached'') False)
            (if is_primary_alias wanted
             then (case find is_primary (fb_displays b) of
                 Some d \<Rightarrow> Some d
               | None \<Rightarrow> (case fb_displays b of [] \<Rightarrow> None | d # _ \<Rightarrow> Some d))
             else find (\<lambda>d. display_id d = wanted) (fb_displays b)))"

definition enforce_capture_mode :: "fake_backend \<Rightarrow> capture_request \<Rightarrow> capture_error + unit" where
  "enforce_capture_mode b request =
     (case req_mode request of
        Fresh timeout_ms \<Rightarrow>
          if unat timeout_ms * 1000000 < native_delay (fb_config b)
          then Inl (fake_error Timeout (ustr ''acquire_next_frame'')
            (ustr ''no post-trigger frame arrived within '' @ show_nat (unat timeout_ms) @
             ustr '' ms; the configured native delay is '' @
             show_nat (native_delay (fb_config b) div 1000000) @ ustr '' ms'') True)
          else Inr ()
      | Latest None \<Rightarrow> Inr ()
      | Latest (Some max_age_ms) \<Rightarrow>
          let age_ms = frame_age (fb_config b) div 1000000 in
          if unat max_age_ms < age_ms
          then Inl (fake_error Timeout (ustr ''capture_latest'')
            (ustr ''retained frame age '' @ show_nat age_ms @ ustr '' ms exceeds the configured maximum of '' @
             show_nat (unat max_age_ms) @ ustr '' ms'') True)
          else Inr ())"

definition fake_unsupported :: "ustring \<Rightarrow> ustring \<Rightarrow> capture_error" where
  "fake_unsupported operation message = fake_error Unsupported operation message False"

definition validate_request_capabilities :: "fake_backend \<Rightarrow> capture_request \<Rightarrow> capture_error + unit" where
  "validate_request_capabilities b request =
     (let supported = (case req_mode request of
        Fresh _ \<Rightarrow> fresh_mode (fb_capabilities b) | Latest _ \<Rightarrow> latest_mode (fb_capabilities b))
      in if \<not> supported
         then Inl (fake_unsupported (ustr ''capture_mode'')
           (capture_mode_name (req_mode request) @ ustr '' mode is disabled by the fake backend capabilities''))
         else if req_cursor request = Include \<and> \<not> cursor_control (fb_capabilities b)
         then Inl (fake_unsupported (ustr ''cursor'')
           (ustr ''cursor inclusion is disabled by the fake backend capabilities''))
         else Inr ())"

definition stale_error :: "fake_backend \<Rightarrow> ustring \<Rightarrow> capture_error option" where
  "stale_error b operation =
     (if stale_display_configuration (fb_config b)
      then Some (fake_error TopologyChanged operation
        (ustr ''display configuration changed; recreate the capture backend'') True)
      else None)"

definition fake_validate_displays :: "fake_backend \<Rightarrow> capture_error + unit" where
  "fake_validate_displays b =
     (case stale_error b (ustr ''validate_display_configuration'') of None \<Rightarrow> Inr () | Some e \<Rightarrow> Inl e)"

subsection \<open>\<open>capture\<close>\<close>

text \<open>The messages of \<open>FrameError\<close>.\<close>

fun frame_error_text :: "frame_error \<Rightarrow> ustring" where
  "frame_error_text EmptyDimensions = ustr ''frame dimensions must be non-zero''"
| "frame_error_text (InvalidStride stride minimum) = ustr ''stride '' @ show_nat (unat stride) @
     ustr '' is smaller than the minimum row size '' @ show_nat (unat minimum)"
| "frame_error_text SizeOverflow = ustr ''frame byte-size calculation overflowed''"
| "frame_error_text (BufferTooShort actual required) = ustr ''pixel buffer contains '' @ show_nat actual @
     ustr '' bytes but requires at least '' @ show_nat required"
| "frame_error_text EmptyCrop = ustr ''crop rectangle must have nonzero dimensions''"
| "frame_error_text CropOutsideSource = ustr ''crop rectangle lies outside the captured source''"

definition i64_clip :: "nat \<Rightarrow> int" where
  "i64_clip n = min (int n) 9223372036854775807"

definition fake_metadata ::
  "fake_backend \<Rightarrow> capture_request \<Rightarrow> display_info \<Rightarrow> u64 \<Rightarrow> frame_metadata" where
  "fake_metadata b request d native_ready_ns =
     (let age = frame_age (fb_config b) in
      \<lparr>meta_capture_id = req_id request, meta_backend = ustr ''fake'',
       meta_display_id = display_id d, source_rect = bounds d,
       meta_rotation_degrees = rotation_degrees d, meta_capture_mode = req_mode request,
       presentation_offset_ns = Some (case req_mode request of
           Latest _ \<Rightarrow> - i64_clip age | Fresh _ \<Rightarrow> i64_clip (unat native_ready_ns)),
       meta_timing_provenance = Synthetic, native_ready_offset_ns = native_ready_ns,
       cpu_ready_offset_ns = None,
       frame_age_ns = Some (case req_mode request of Latest _ \<Rightarrow> nanos_u64 age | Fresh _ \<Rightarrow> 0),
       verified_current_offset_ns = None, frame_generation = Some (fb_attempts b), copy_count = 0,
       pool_slot = Some (of_nat (unat (fb_attempts b) mod 3)), meta_cursor = None\<rparr>)"

text \<open>The CPU frame: \<open>None\<close> for the metadata is the error path. The recorder's last event is
  recorded only once the frame is built.\<close>

definition fake_cpu_frame ::
  "(nat \<Rightarrow> nat) \<Rightarrow> capture_request \<Rightarrow> display_info \<Rightarrow> frame_metadata \<Rightarrow> event_recorder \<Rightarrow>
   (capture_error + (frame_metadata \<times> cpu_frame)) \<times> event_recorder" where
  "fake_cpu_frame clock request d md recorder =
     (let recorder = record_event (clock 3) (req_id request) ReadbackStarted 0 recorder;
          cpu_ready_ns = nanos_u64 (clock 4);
          md = md\<lparr>cpu_ready_offset_ns := Some cpu_ready_ns, copy_count := 1\<rparr>;
          w = rect_width (bounds d); h = rect_height (bounds d)
      in case u32_checked_mul w (bytes_per_pixel Bgra8Unorm) of
           None \<Rightarrow> (Inl (synthetic_error (ustr ''fake frame stride overflow'')), recorder)
         | Some stride \<Rightarrow>
           (case usize_checked_mul (unat stride) (unat h) of
              None \<Rightarrow> (Inl (synthetic_error (ustr ''fake frame size overflow'')), recorder)
            | Some len \<Rightarrow>
              (case cpu_frame_new (replicate len (ucast (req_id request))) w h stride Bgra8Unorm
                  TopLeft Srgb md of
                 Inl e \<Rightarrow> (Inl (synthetic_error (frame_error_text e)), recorder)
               | Inr f \<Rightarrow> (Inr (md, f),
                   record_event (clock 5) (req_id request) CpuFrameReady cpu_ready_ns recorder))))"

text \<open>From the acquired frame on: what a request that passed every check is answered with.\<close>

definition fake_deliver ::
  "(nat \<Rightarrow> nat) \<Rightarrow> capture_request \<Rightarrow> display_info \<Rightarrow> event_recorder \<Rightarrow> fake_backend \<Rightarrow>
   (capture_error + 'n capture_outcome) \<times> event_recorder \<times> fake_backend" where
  "fake_deliver clock request d recorder b =
     (let native_ready_ns = nanos_u64 (clock 1);
          recorder = record_event (clock 2) (req_id request) NativeFrameReady native_ready_ns recorder;
          md = fake_metadata b request d native_ready_ns
      in if cpu_frame_wanted request
         then (case fake_cpu_frame clock request d md recorder of
             (Inl e, recorder) \<Rightarrow> (Inl e, recorder, b)
           | (Inr (md, f), recorder) \<Rightarrow>
               (Inr \<lparr>out_metadata = md, out_frame = Some f, out_native_frame = None\<rparr>, recorder, b))
         else (Inr \<lparr>out_metadata = md, out_frame = None, out_native_frame = None\<rparr>, recorder, b))"

definition fake_capture ::
  "(nat \<Rightarrow> nat) \<Rightarrow> capture_request \<Rightarrow> event_recorder \<Rightarrow> fake_backend \<Rightarrow>
   (capture_error + 'n capture_outcome) \<times> event_recorder \<times> fake_backend" where
  "fake_capture clock request recorder b =
     (case stale_error b (ustr ''capture'') of
        Some e \<Rightarrow> (Inl e, recorder, b)
      | None \<Rightarrow>
      if \<not> display_capture (fb_capabilities b)
      then (Inl (fake_unsupported (ustr ''capture_display'')
        (ustr ''display capture is disabled by the fake backend capabilities'')), recorder, b)
      else case validate_request_capabilities b request of
        Inl e \<Rightarrow> (Inl e, recorder, b)
      | Inr _ \<Rightarrow>
      let b = b\<lparr>fb_attempts := sat_inc (fb_attempts b)\<rparr>;
          recorder = record_event (clock 0) (req_id request) CaptureRequested 0 recorder
      in case find (\<lambda>f. fail_attempt f = fb_attempts b) (failure_script (fb_config b)) of
        Some f \<Rightarrow> (Inl (fake_error (fail_kind f) (fail_operation f) (fail_message f) (fail_retryable f)),
          recorder, b)
      | None \<Rightarrow>
      (case requested_display b (req_source request) of
        Inl e \<Rightarrow> (Inl e, recorder, b)
      | Inr d \<Rightarrow>
      if (case fail_every (fb_config b) of None \<Rightarrow> False
          | Some n \<Rightarrow> n \<noteq> 0 \<and> unat (fb_attempts b) mod unat n = 0)
      then (Inl (synthetic_error (ustr ''configured deterministic failure'')), recorder, b)
      else case enforce_capture_mode b request of
        Inl e \<Rightarrow> (Inl e, recorder, b)
      | Inr _ \<Rightarrow>
      fake_deliver clock request d recorder b))"

subsection \<open>The contract of \<open>CaptureBackend\<close>\<close>

text \<open>
  What every caller of a backend relies on: a capture records stages of its own request, in
  order, and all of them when it succeeds; the outcome answers the request that was made; and a
  backend whose display list is stale refuses both entry points for the same reason.
\<close>

definition capture_stages :: "perf_event_kind list" where
  "capture_stages = [CaptureRequested, NativeFrameReady, ReadbackStarted, CpuFrameReady]"

definition success_stages :: "capture_request \<Rightarrow> perf_event_kind list" where
  "success_stages request = (if cpu_frame_wanted request then capture_stages else take 2 capture_stages)"

type_synonym event_spec = "nat \<times> capture_id \<times> perf_event_kind \<times> u64"

definition spec_capture :: "event_spec \<Rightarrow> capture_id" where
  "spec_capture e = fst (snd e)"

definition spec_kind :: "event_spec \<Rightarrow> perf_event_kind" where
  "spec_kind e = fst (snd (snd e))"

definition records_stages ::
  "capture_request \<Rightarrow> bool \<Rightarrow> event_spec list \<Rightarrow> event_recorder \<Rightarrow> event_recorder \<Rightarrow> bool" where
  "records_stages request success es r r' \<longleftrightarrow>
     r' = record_all es r \<and> (\<forall>e\<in>set es. spec_capture e = req_id request) \<and>
     (\<exists>n. map spec_kind es = take n capture_stages) \<and>
     (success \<longrightarrow> map spec_kind es = success_stages request)"

text \<open>What \<open>CaptureMode\<close> promises of the frame it returns.\<close>

definition mode_kept :: "capture_mode \<Rightarrow> frame_metadata \<Rightarrow> bool" where
  "mode_kept mode m \<longleftrightarrow>
     (case mode of
        Fresh _ \<Rightarrow> frame_age_ns m = Some 0
      | Latest None \<Rightarrow> True
      | Latest (Some max_age_ms) \<Rightarrow>
          (\<exists>age. frame_age_ns m = Some age \<and> unat age div 1000000 \<le> unat max_age_ms))"

definition outcome_answers :: "capture_request \<Rightarrow> 'n capture_outcome \<Rightarrow> bool" where
  "outcome_answers request out \<longleftrightarrow>
     meta_capture_id (out_metadata out) = req_id request \<and>
     meta_capture_mode (out_metadata out) = req_mode request \<and>
     mode_kept (req_mode request) (out_metadata out) \<and>
     (out_frame out = None \<longleftrightarrow> \<not> cpu_frame_wanted request) \<and>
     (\<forall>f. out_frame out = Some f \<longrightarrow>
        metadata f = out_metadata out \<and> width f = rect_width (source_rect (out_metadata out)) \<and>
        height f = rect_height (source_rect (out_metadata out)) \<and>
        frame_ok f)"

lemma record_all_append: "record_all (xs @ ys) r = record_all ys (record_all xs r)"
  by (induction xs arbitrary: r) auto

locale capture_backend =
  fixes validate_displays :: "'b \<Rightarrow> capture_error + unit"
    and capture :: "(nat \<Rightarrow> nat) \<Rightarrow> capture_request \<Rightarrow> event_recorder \<Rightarrow> 'b \<Rightarrow>
      (capture_error + 'n capture_outcome) \<times> event_recorder \<times> 'b"
  assumes capture_records: "capture clock request r b = (res, r', b') \<Longrightarrow>
      \<exists>es. records_stages request (\<not> isl res) es r r'"
    and capture_answers: "capture clock request r b = (Inr out, r', b') \<Longrightarrow> outcome_answers request out"
    and capture_stale: "validate_displays b = Inl e \<Longrightarrow>
      \<exists>e'. capture clock request r b = (Inl e', r, b) \<and> err_kind e' = err_kind e"

subsection \<open>\<open>FakeBackend\<close> keeps it\<close>

lemma fake_cpu_frame_cases:
  assumes "fake_cpu_frame clock request d md r = (res, r')"
  shows "(\<exists>e. res = Inl e \<and> r' = record_all [(clock 3, req_id request, ReadbackStarted, 0)] r) \<or>
    (\<exists>m f. res = Inr (m, f) \<and>
      r' = record_all [(clock 3, req_id request, ReadbackStarted, 0),
        (clock 5, req_id request, CpuFrameReady, nanos_u64 (clock 4))] r \<and>
      m = md\<lparr>cpu_ready_offset_ns := Some (nanos_u64 (clock 4)), copy_count := 1\<rparr> \<and>
      metadata f = m \<and> width f = rect_width (bounds d) \<and> height f = rect_height (bounds d) \<and> frame_ok f)"
proof -
  let ?w = "rect_width (bounds d)" and ?h = "rect_height (bounds d)"
  show ?thesis
  proof (cases "u32_checked_mul ?w (bytes_per_pixel Bgra8Unorm)")
    case None
    then show ?thesis using assms by (auto simp: fake_cpu_frame_def)
  next
    case stride: (Some stride)
    show ?thesis
    proof (cases "usize_checked_mul (unat stride) (unat ?h)")
      case None
      then show ?thesis using assms stride by (auto simp: fake_cpu_frame_def)
    next
      case len: (Some len)
      show ?thesis
        using assms stride len
        by (auto simp: fake_cpu_frame_def Let_def cpu_frame_new_Inr split: sum.splits)
    qed
  qed
qed

lemma enforced_mode_kept:
  assumes "enforce_capture_mode b request = Inr ()"
    and "frame_age_ns m = frame_age_ns (fake_metadata b request d t)"
  shows "mode_kept (req_mode request) m"
proof (cases "req_mode request")
  case (Latest limit)
  show ?thesis
  proof (cases limit)
    case (Some n)
    have "unat (nanos_u64 (frame_age (fb_config b))) \<le> frame_age (fb_config b)"
      by (auto simp: nanos_u64_def take_bit_nat_eq_self unsigned_of_nat unsigned_minus_1_eq_mask mask_eq_exp_minus_1)
    then have "unat (nanos_u64 (frame_age (fb_config b))) div 1000000 \<le> frame_age (fb_config b) div 1000000"
      by (rule div_le_mono)
    then show ?thesis
      using assms Some Latest
      by (simp add: mode_kept_def enforce_capture_mode_def fake_metadata_def Let_def split: if_splits)
  qed (simp add: mode_kept_def Latest)
qed (use assms in \<open>simp add: mode_kept_def fake_metadata_def Let_def\<close>)

text \<open>How a capture on the fake backend ends: refused, failed after some stages, or answered.\<close>

lemma records_failed:
  assumes "r' = record_all es r" "map spec_kind es = take n capture_stages"
    and "\<forall>x\<in>set es. spec_capture x = req_id request"
  shows "records_stages request False es r r'"
  using assms unfolding records_stages_def by blast

lemmas stage_simps = spec_kind_def spec_capture_def capture_stages_def success_stages_def

lemma refused_records: "r' = r \<Longrightarrow> records_stages request False [] r r'"
  by (rule records_failed [where n = 0]) simp_all

lemma requested_records:
  "r' = record_event t (req_id request) CaptureRequested v r \<Longrightarrow>
   records_stages request False [(t, req_id request, CaptureRequested, v)] r r'"
  by (rule records_failed [where n = 1]) (simp_all add: stage_simps)

lemma fake_capture_records:
  assumes "fake_capture clock request r b = (res, r', b')"
  shows "\<exists>es. records_stages request (\<not> isl res) es r r' \<and>
    (\<forall>out. res = Inr out \<longrightarrow> outcome_answers request out)"
proof (cases "stale_error b (ustr ''capture'') \<noteq> None \<or> \<not> display_capture (fb_capabilities b) \<or>
    validate_request_capabilities b request \<noteq> Inr ()")
  case True
  then have "\<exists>e. res = Inl e \<and> r' = r"
    using assms by (auto simp: fake_capture_def Let_def split: option.splits sum.splits if_splits)
  then have "records_stages request (\<not> isl res) [] r r'" "\<forall>out. res \<noteq> Inr out"
    using refused_records by auto
  then show ?thesis by blast
next
  case allowed: False
  define b1 where "b1 = b\<lparr>fb_attempts := sat_inc (fb_attempts b)\<rparr>"
  define r1 where "r1 = record_event (clock 0) (req_id request) CaptureRequested 0 r"
  show ?thesis
  proof (cases "(\<exists>e. res = Inl e) \<and> r' = r1")
    case True
    then have "records_stages request (\<not> isl res) [(clock 0, req_id request, CaptureRequested, 0)] r r'"
      "\<forall>out. res \<noteq> Inr out"
      using requested_records unfolding r1_def by auto
    then show ?thesis by blast
  next
    case went_on: False
    define r2 where "r2 = record_event (clock 2) (req_id request) NativeFrameReady (nanos_u64 (clock 1)) r1"
    obtain d where d: "requested_display b1 (req_source request) = Inr d"
      and kept: "enforce_capture_mode b1 request = Inr ()"
      and eq: "fake_deliver clock request d r1 b1 = (res, r', b')"
      using assms allowed went_on
      by (auto simp: fake_capture_def Let_def b1_def [symmetric] r1_def [symmetric]
          split: option.splits sum.splits if_splits)
    define md where "md = fake_metadata b1 request d (nanos_u64 (clock 1))"
    let ?e0 = "(clock 0, req_id request, CaptureRequested, 0 :: u64)"
    let ?e1 = "(clock 2, req_id request, NativeFrameReady, nanos_u64 (clock 1))"
    have r2: "record_all es r2 = record_all (?e0 # ?e1 # es) r" for es
      by (simp add: r2_def r1_def)
    have ids: "meta_capture_id md = req_id request" "meta_capture_mode md = req_mode request"
      by (simp_all add: md_def fake_metadata_def Let_def)
    show ?thesis
    proof (cases "cpu_frame_wanted request")
      case False
      then have "res = Inr \<lparr>out_metadata = md, out_frame = None, out_native_frame = None\<rparr>" "r' = r2"
        using eq by (auto simp: fake_deliver_def Let_def md_def r2_def)
      moreover have "mode_kept (req_mode request) md"
        by (rule enforced_mode_kept [OF kept]) (simp add: md_def)
      moreover have "records_stages request True [?e0, ?e1] r r2"
        using r2 [of "[]"] False
        by (auto simp: records_stages_def stage_simps intro!: exI [of _ 2])
      ultimately show ?thesis
        using False ids by (auto simp: outcome_answers_def)
    next
      case True
      obtain res' where cpu: "fake_cpu_frame clock request d md r2 = (res', r')"
        and res: "res = (case res' of Inl e \<Rightarrow> Inl e
          | Inr (m, f) \<Rightarrow> Inr \<lparr>out_metadata = m, out_frame = Some f, out_native_frame = None\<rparr>)"
        using eq True
        by (auto simp: fake_deliver_def Let_def md_def r2_def split: prod.splits sum.splits)
      show ?thesis
        using fake_cpu_frame_cases [OF cpu]
      proof (elim disjE exE conjE)
        fix e
        assume "res' = Inl e" and r': "r' = record_all [(clock 3, req_id request, ReadbackStarted, 0)] r2"
        have "records_stages request False [?e0, ?e1, (clock 3, req_id request, ReadbackStarted, 0)] r r'"
          unfolding r' r2 by (rule records_failed [where n = 3]) (simp_all add: stage_simps)
        then show ?thesis using res \<open>res' = Inl e\<close> by auto
      next
        fix m f
        assume f: "res' = Inr (m, f)" "metadata f = m" "width f = rect_width (bounds d)"
            "height f = rect_height (bounds d)" "frame_ok f"
          and m: "m = md\<lparr>cpu_ready_offset_ns := Some (nanos_u64 (clock 4)), copy_count := 1\<rparr>"
          and r': "r' = record_all [(clock 3, req_id request, ReadbackStarted, 0),
            (clock 5, req_id request, CpuFrameReady, nanos_u64 (clock 4))] r2"
        have "records_stages request True [?e0, ?e1, (clock 3, req_id request, ReadbackStarted, 0),
            (clock 5, req_id request, CpuFrameReady, nanos_u64 (clock 4))] r r'"
          unfolding r' r2 using True
          by (auto simp: records_stages_def stage_simps intro!: exI [of _ 4])
        moreover have "mode_kept (req_mode request) m"
          by (rule enforced_mode_kept [OF kept]) (simp add: md_def m)
        moreover have "source_rect md = bounds d"
          by (simp add: md_def fake_metadata_def Let_def)
        ultimately show ?thesis
          using f m ids res True by (auto simp: outcome_answers_def)
      qed
    qed
  qed
qed

interpretation fake: capture_backend fake_validate_displays fake_capture
proof
  fix clock request r b and res :: "capture_error + 'n capture_outcome" and r' b'
  assume "fake_capture clock request r b = (res, r', b')"
  then show "\<exists>es. records_stages request (\<not> isl res) es r r'"
    using fake_capture_records by blast
next
  fix clock request r b and out :: "'n capture_outcome" and r' b'
  assume "fake_capture clock request r b = (Inr out, r', b')"
  then show "outcome_answers request out"
    using fake_capture_records by blast
next
  fix e clock request r b
  assume "fake_validate_displays b = Inl e"
  then show "\<exists>e'. fake_capture clock request r b = (Inl e', r, b) \<and> err_kind e' = err_kind e"
    by (auto simp: fake_validate_displays_def fake_capture_def stale_error_def fake_error_def
        split: if_splits)
qed


definition small_config :: fake_config where
  "small_config = default_config\<lparr>cfg_width := 1, cfg_height := 1\<rparr>"

definition sample_request :: capture_request where
  "sample_request = \<lparr>req_id = 1, triggered_at = 0, req_source = Display primary_id,
     req_mode = Latest (Some 5), cpu_frame_wanted = True, retain_native_frame = False,
     req_cursor = Exclude\<rparr>"

abbreviation sample_capture ::
  "(capture_error + unit capture_outcome) \<times> event_recorder \<times> fake_backend" where
  "sample_capture \<equiv> fake_capture (\<lambda>_. 0) sample_request (recorder_with_capacity 4) (fake_new small_config)"

definition sample_outcome :: "unit capture_outcome" where
  "sample_outcome = projr (fst sample_capture)"

lemma sample_answered: "\<not> isl (fst sample_capture)"
  by (simp add: fake_capture_def fake_new_def fake_with_displays_def small_config_def default_config_def
      default_capabilities_def stale_error_def validate_request_capabilities_def sample_request_def
      requested_display_def enforce_capture_mode_def fake_deliver_def fake_cpu_frame_def Let_def
      is_primary_alias_def u32_checked_mul_def usize_checked_mul_def cpu_frame_new_def
      validate_layout_def fake_metadata_def nanos_u64_def)

lemma sample_capture_eq:
  "sample_capture = (Inr sample_outcome, fst (snd sample_capture), snd (snd sample_capture))"
  using sample_answered by (simp add: sample_outcome_def prod_eq_iff)


end
