(* ===== verification/Benchmark.thy ===== *)
theory Benchmark
  imports FakeBackend
begin

section \<open>The capture benchmark\<close>

text \<open>
  \<open>run_with_backend\<close> of \<open>crates/captastic-app/src/benchmark.rs\<close> over any capture backend: the
  warm-up, the trigger queue, the timed captures with their samples and tallies, and the check the
  run makes of its own event log. The backend's \<open>capture\<close> is an argument, as the code takes a
  \<open>dyn CaptureBackend\<close>; clock readings are arguments too. The environment fingerprint of the
  report describes the host and is left out.
\<close>

datatype app_error =
    InvalidArgument ustring
  | BackendUnavailable ustring
  | WriteFailed ustring
  | CaptureFailed capture_error
  | MetricsFailed metrics_error
  | ConfigFailed ustring
  | JsonFailed ustring

fun exit_code :: "app_error \<Rightarrow> int" where
  "exit_code (InvalidArgument _) = 2"
| "exit_code (ConfigFailed _) = 2"
| "exit_code (JsonFailed _) = 2"
| "exit_code (BackendUnavailable _) = 4"
| "exit_code (CaptureFailed e) = (if err_kind e = Unsupported then 4 else 6)"
| "exit_code (MetricsFailed _) = 10"
| "exit_code (WriteFailed _) = 8"

record benchmark_options =
  opt_iterations :: nat
  opt_warmup :: nat
  opt_mode :: capture_mode
  opt_cpu_frame :: bool
  opt_source :: capture_source
  trigger_queue_capacity :: nat
  metrics_capacity :: nat
  opt_cursor :: cursor_mode
  opt_fake :: fake_config

definition bench_request :: "duration \<Rightarrow> u64 \<Rightarrow> benchmark_options \<Rightarrow> capture_request" where
  "bench_request now capture opts =
     \<lparr>req_id = capture, triggered_at = now, req_source = opt_source opts, req_mode = opt_mode opts,
      cpu_frame_wanted = opt_cpu_frame opts, retain_native_frame = False, req_cursor = opt_cursor opts\<rparr>"

text \<open>A \<open>sync_channel\<close>: a queue that refuses what does not fit, and an empty one that yields nothing.\<close>

definition try_send :: "nat \<Rightarrow> 'a list \<Rightarrow> 'a \<Rightarrow> 'a list option" where
  "try_send capacity queue a = (if length queue < capacity then Some (queue @ [a]) else None)"

definition try_recv :: "'a list \<Rightarrow> ('a \<times> 'a list) option" where
  "try_recv queue = (case queue of [] \<Rightarrow> None | a # rest \<Rightarrow> Some (a, rest))"

fun cursor_outcome_label :: "cursor_capture option \<Rightarrow> string" where
  "cursor_outcome_label None = ''not_recorded''"
| "cursor_outcome_label (Some Excluded) = ''excluded''"
| "cursor_outcome_label (Some (Composited _ _ _ _)) = ''composited''"
| "cursor_outcome_label (Some (Absent NotVisible)) = ''absent_not_visible''"
| "cursor_outcome_label (Some (Absent SourceCannotCompose)) = ''absent_source_cannot_compose''"
| "cursor_outcome_label (Some (Absent SuppressedForSelection)) = ''absent_suppressed_for_selection''"
| "cursor_outcome_label (Some (Absent ShapeNotYetKnown)) = ''absent_shape_not_yet_known''"
| "cursor_outcome_label (Some (Absent PositionNotYetKnown)) = ''absent_position_not_yet_known''"

fun capture_error_kind_label :: "capture_error_kind \<Rightarrow> string" where
  "capture_error_kind_label Unsupported = ''unsupported''"
| "capture_error_kind_label PermissionDenied = ''permission_denied''"
| "capture_error_kind_label SourceUnavailable = ''source_unavailable''"
| "capture_error_kind_label DesktopUnavailable = ''desktop_unavailable''"
| "capture_error_kind_label Timeout = ''timeout''"
| "capture_error_kind_label AccessLost = ''access_lost''"
| "capture_error_kind_label DeviceRemoved = ''device_removed''"
| "capture_error_kind_label TopologyChanged = ''topology_changed''"
| "capture_error_kind_label BufferExhausted = ''buffer_exhausted''"
| "capture_error_kind_label WorkersExhausted = ''workers_exhausted''"
| "capture_error_kind_label PointerOutsideDisplays = ''pointer_outside_displays''"
| "capture_error_kind_label InvalidFrame = ''invalid_frame''"
| "capture_error_kind_label NativeFailure = ''native_failure''"
| "capture_error_kind_label ShuttingDown = ''shutting_down''"

text \<open>\<open>*map.entry(label).or_insert(0) += 1\<close>\<close>

definition tally :: "string \<Rightarrow> (string \<Rightarrow> nat option) \<Rightarrow> (string \<Rightarrow> nat option)" where
  "tally l m = m(l \<mapsto> (case m l of None \<Rightarrow> 0 | Some n \<Rightarrow> n) + 1)"

record bench_state =
  queue :: "capture_request list"
  log :: event_recorder
  native_samples :: "u64 list"
  cpu_samples :: "u64 list"
  readback_samples :: "u64 list"
  dequeue_samples :: "u64 list"
  frame_age_samples :: "u64 list"
  failures :: nat
  timeouts :: nat
  failures_by_kind :: "string \<Rightarrow> nat option"
  cursor_outcomes :: "string \<Rightarrow> nat option"
  successful_ids :: "capture_id list"

definition bench_start :: "benchmark_options \<Rightarrow> bench_state" where
  "bench_start opts =
     \<lparr>queue = [], log = recorder_with_capacity (metrics_capacity opts), native_samples = [],
      cpu_samples = [], readback_samples = [], dequeue_samples = [], frame_age_samples = [],
      failures = 0, timeouts = 0, failures_by_kind = Map.empty, cursor_outcomes = Map.empty,
      successful_ids = []\<rparr>"

text \<open>The two arms of the \<open>match\<close> on a capture's result.\<close>

definition note_success :: "capture_id \<Rightarrow> frame_metadata \<Rightarrow> bench_state \<Rightarrow> bench_state" where
  "note_success capture m st =
     (let st = st\<lparr>successful_ids := successful_ids st @ [capture],
          cursor_outcomes := tally (cursor_outcome_label (meta_cursor m)) (cursor_outcomes st),
          native_samples := native_samples st @ [native_ready_offset_ns m]\<rparr>;
          st = (case cpu_ready_offset_ns m of None \<Rightarrow> st
            | Some v \<Rightarrow> st\<lparr>cpu_samples := cpu_samples st @ [v],
                readback_samples := readback_samples st @
                  [if v \<le> native_ready_offset_ns m then 0 else v - native_ready_offset_ns m]\<rparr>)
      in case frame_age_ns m of None \<Rightarrow> st
         | Some v \<Rightarrow> st\<lparr>frame_age_samples := frame_age_samples st @ [v]\<rparr>)"

definition note_failure :: "capture_error \<Rightarrow> bench_state \<Rightarrow> bench_state" where
  "note_failure e st =
     st\<lparr>failures := usize_saturating (failures st + 1),
        timeouts := (if err_kind e = Timeout then usize_saturating (timeouts st + 1) else timeouts st),
        failures_by_kind := tally (capture_error_kind_label (err_kind e)) (failures_by_kind st)\<rparr>"

text \<open>
  What one iteration reads from the clock: \<open>outside\<close> in the loop itself, \<open>inside\<close> by the capture.
\<close>

record iteration_clock =
  outside :: "nat \<Rightarrow> nat"
  inside :: "nat \<Rightarrow> nat"

type_synonym ('n, 'b) capture_fun =
  "(nat \<Rightarrow> nat) \<Rightarrow> capture_request \<Rightarrow> event_recorder \<Rightarrow> 'b \<Rightarrow>
   (capture_error + 'n capture_outcome) \<times> event_recorder \<times> 'b"

fun warm_up :: "('n, 'b) capture_fun \<Rightarrow> benchmark_options \<Rightarrow> (nat \<Rightarrow> iteration_clock) \<Rightarrow>
    nat list \<Rightarrow> event_recorder \<Rightarrow> 'b \<Rightarrow> 'b" where
  "warm_up capture opts clk [] r b = b"
| "warm_up capture opts clk (i # is) r b =
     (case capture (inside (clk i)) (bench_request (outside (clk i) 0) (of_nat i) opts) r b of
        (_, r, b) \<Rightarrow> warm_up capture opts clk is r b)"

definition bench_iteration ::
  "('n, 'b) capture_fun \<Rightarrow> benchmark_options \<Rightarrow> iteration_clock \<Rightarrow> nat \<Rightarrow> bench_state \<times> 'b \<Rightarrow>
   app_error + (bench_state \<times> 'b)" where
  "bench_iteration capture opts clk i = (\<lambda>(st, b).
     let capture_id = of_nat i + 1;
         t = outside clk;
         st = st\<lparr>log := record_event (t 0) capture_id HotkeyReceived 0 (log st)\<rparr>;
         request = bench_request (t 1) capture_id opts
     in case try_send (trigger_queue_capacity opts) (queue st) request of
          None \<Rightarrow> Inl (InvalidArgument (ustr ''benchmark trigger queue rejected input: sending on a full channel''))
        | Some q \<Rightarrow>
          let enqueued_ns = nanos_u64 (t 2);
              st = st\<lparr>queue := q, log := record_event (t 3) capture_id TriggerEnqueued enqueued_ns (log st)\<rparr>
          in case try_recv q of
               None \<Rightarrow> Inl (InvalidArgument
                 (ustr ''benchmark trigger queue lost input: receiving on an empty channel''))
             | Some (request, q) \<Rightarrow>
               let dequeued_ns = nanos_u64 (t 4);
                   st = st\<lparr>queue := q,
                     log := record_event (t 5) capture_id TriggerDequeued dequeued_ns (log st),
                     dequeue_samples := dequeue_samples st @ [dequeued_ns]\<rparr>
               in case capture (inside clk) request (log st) b of
                    (result, r, b) \<Rightarrow>
                      let st = st\<lparr>log := r\<rparr>;
                          st = (case result of
                              Inr out \<Rightarrow> note_success capture_id (out_metadata out) st
                            | Inl e \<Rightarrow> note_failure e st)
                      in Inr (st\<lparr>log := record_event (t 6) capture_id AttemptFinished 0 (log st)\<rparr>, b))"

fun bench_loop ::
  "('n, 'b) capture_fun \<Rightarrow> benchmark_options \<Rightarrow> (nat \<Rightarrow> iteration_clock) \<Rightarrow> nat list \<Rightarrow>
   bench_state \<times> 'b \<Rightarrow> app_error + (bench_state \<times> 'b)" where
  "bench_loop capture opts clk [] s = Inr s"
| "bench_loop capture opts clk (i # is) s =
     try_bind (bench_iteration capture opts (clk i) i s) (bench_loop capture opts clk is)"

definition has_complete_capture_path :: "perf_event list \<Rightarrow> capture_id \<Rightarrow> bool \<Rightarrow> bool" where
  "has_complete_capture_path events capture cpu_frame =
     (let kinds = set (map event_kind (filter (\<lambda>e. event_capture e = capture) events))
      in list_all (\<lambda>k. k \<in> kinds)
           [HotkeyReceived, TriggerEnqueued, TriggerDequeued, CaptureRequested, NativeFrameReady,
            AttemptFinished] \<and>
         (\<not> cpu_frame \<or> ReadbackStarted \<in> kinds \<and> CpuFrameReady \<in> kinds))"

record benchmark_report =
  schema_version :: u32
  rep_cursor :: string
  rep_backend :: ustring
  rep_mode :: ustring
  synthetic :: bool
  warmup_iterations :: nat
  timed_iterations :: nat
  successes :: nat
  rep_failures :: nat
  rep_timeouts :: nat
  rep_failures_by_kind :: "string \<Rightarrow> nat option"
  rep_cursor_outcomes :: "string \<Rightarrow> nat option"
  trigger_to_dequeue_latency :: latency_summary
  native_frame_latency :: latency_summary
  cpu_frame_latency :: "latency_summary option"
  readback_latency :: "latency_summary option"
  frame_age_summary :: latency_summary
  lost_metric_events :: u64
  critical_path_order_verified :: bool

record benchmark_run =
  run_report :: benchmark_report
  run_events :: "perf_event list"

definition bench_report :: "ustring \<Rightarrow> benchmark_options \<Rightarrow> bench_state \<Rightarrow> benchmark_report" where
  "bench_report name opts st =
     \<lparr>schema_version = 3,
      rep_cursor = (case opt_cursor opts of Include \<Rightarrow> ''include'' | Exclude \<Rightarrow> ''exclude''),
      rep_backend = name, rep_mode = capture_mode_name (opt_mode opts),
      synthetic = (name = ustr ''fake''),
      warmup_iterations = opt_warmup opts, timed_iterations = opt_iterations opts,
      successes = opt_iterations opts - failures st, rep_failures = failures st,
      rep_timeouts = timeouts st, rep_failures_by_kind = failures_by_kind st,
      rep_cursor_outcomes = cursor_outcomes st,
      trigger_to_dequeue_latency = from_samples (dequeue_samples st),
      native_frame_latency = from_samples (native_samples st),
      cpu_frame_latency = (if opt_cpu_frame opts then Some (from_samples (cpu_samples st)) else None),
      readback_latency = (if opt_cpu_frame opts then Some (from_samples (readback_samples st)) else None),
      frame_age_summary = from_samples (frame_age_samples st),
      lost_metric_events = lost_events (log st),
      critical_path_order_verified = (lost_events (log st) = 0 \<and>
        list_all (\<lambda>i. has_complete_capture_path (rec_events (log st)) i (opt_cpu_frame opts))
          (successful_ids st))\<rparr>"

definition run_with_backend ::
  "('n, 'b) capture_fun \<Rightarrow> ustring \<Rightarrow> benchmark_options \<Rightarrow> (nat \<Rightarrow> iteration_clock) \<Rightarrow>
   (nat \<Rightarrow> iteration_clock) \<Rightarrow> 'b \<Rightarrow> app_error + benchmark_run" where
  "run_with_backend capture name opts warm_clk clk b =
     (if opt_iterations opts = 0
      then Inl (InvalidArgument (ustr ''iterations must be greater than zero''))
      else
        let b = warm_up capture opts warm_clk [0..<opt_warmup opts]
              (recorder_with_capacity (usize_saturating (opt_warmup opts * 10))) b
        in if trigger_queue_capacity opts = 0
           then Inl (InvalidArgument (ustr ''benchmark trigger queue capacity must be greater than zero''))
           else try_bind (bench_loop capture opts clk [0..<opt_iterations opts] (bench_start opts, b)) (\<lambda>(st, b).
             case validate_event_order (rec_events (log st)) of
               Inl e \<Rightarrow> Inl (MetricsFailed e)
             | Inr _ \<Rightarrow> Inr \<lparr>run_report = bench_report name opts st, run_events = rec_events (log st)\<rparr>))"

definition bench_run ::
  "benchmark_options \<Rightarrow> (nat \<Rightarrow> iteration_clock) \<Rightarrow> (nat \<Rightarrow> iteration_clock) \<Rightarrow> app_error + benchmark_run" where
  "bench_run opts warm_clk clk =
     run_with_backend (fake_capture :: (unit, fake_backend) capture_fun) (ustr ''fake'') opts warm_clk clk
       (fake_new (opt_fake opts))"

subsection \<open>What one iteration leaves in the log\<close>

definition iteration_kinds :: "perf_event_kind list \<Rightarrow> perf_event_kind list" where
  "iteration_kinds ks = [HotkeyReceived, TriggerEnqueued, TriggerDequeued] @ ks @ [AttemptFinished]"

definition segment :: "bool \<Rightarrow> capture_id \<Rightarrow> bool \<Rightarrow> event_spec list \<Rightarrow> bool" where
  "segment cpu c success es \<longleftrightarrow>
     (\<forall>e\<in>set es. spec_capture e = c) \<and>
     (\<exists>n. map spec_kind es = iteration_kinds (take n capture_stages)) \<and>
     (success \<longrightarrow> map spec_kind es = iteration_kinds (if cpu then capture_stages else take 2 capture_stages))"

lemma note_success_fields [simp]:
  "queue (note_success c m st) = queue st" "log (note_success c m st) = log st"
  "failures (note_success c m st) = failures st" "timeouts (note_success c m st) = timeouts st"
  "failures_by_kind (note_success c m st) = failures_by_kind st"
  "successful_ids (note_success c m st) = successful_ids st @ [c]"
  by (simp_all add: note_success_def Let_def split: option.split)

lemma note_failure_fields [simp]:
  "queue (note_failure e st) = queue st" "log (note_failure e st) = log st"
  "failures (note_failure e st) = usize_saturating (failures st + 1)"
  "successful_ids (note_failure e st) = successful_ids st"
  by (simp_all add: note_failure_def)

text \<open>The state after \<open>k\<close> iterations.\<close>

definition bench_inv :: "benchmark_options \<Rightarrow> nat \<Rightarrow> bench_state \<Rightarrow> bool" where
  "bench_inv opts k st \<longleftrightarrow> queue st = [] \<and>
     length (successful_ids st) + failures st = k \<and> timeouts st \<le> failures st \<and>
     set (successful_ids st) \<subseteq> (\<lambda>i. of_nat i + 1) ` {..<k} \<and>
     (\<exists>segs. length segs = k \<and>
        log st = record_all (concat segs) (recorder_with_capacity (metrics_capacity opts)) \<and>
        (\<forall>i<k. segment (opt_cpu_frame opts) (of_nat i + 1) (of_nat i + 1 \<in> set (successful_ids st)) (segs ! i)))"

lemma bench_inv_start: "bench_inv opts 0 (bench_start opts)"
  by (simp add: bench_inv_def bench_start_def)

lemma capture_id_inject:
  assumes "i < 18446744073709551616" "j < 18446744073709551616"
  shows "(of_nat i + 1 :: u64) = of_nat j + 1 \<longleftrightarrow> i = j"
proof -
  have "(of_nat i :: u64) = of_nat j \<longleftrightarrow> i = j"
    using assms by (simp add: word_of_nat_eq_iff take_bit_nat_eq_self)
  then show ?thesis by simp
qed

context capture_backend begin

lemma bench_iteration_segment:
  assumes "queue st = []" "0 < trigger_queue_capacity opts"
  shows "\<exists>es st' b'. bench_iteration capture opts clk i (st, b) = Inr (st', b') \<and> queue st' = [] \<and>
    log st' = record_all es (log st) \<and>
    ((successful_ids st' = successful_ids st @ [of_nat i + 1] \<and> failures st' = failures st \<and>
      timeouts st' = timeouts st \<and> segment (opt_cpu_frame opts) (of_nat i + 1) True es) \<or>
     (successful_ids st' = successful_ids st \<and> failures st' = usize_saturating (failures st + 1) \<and>
      timeouts st' \<in> {timeouts st, usize_saturating (timeouts st + 1)} \<and>
      segment (opt_cpu_frame opts) (of_nat i + 1) False es))"
proof -
  let ?c = "of_nat i + 1 :: u64" and ?t = "outside clk"
  let ?request = "bench_request (?t 1) ?c opts"
  let ?es0 = "[(?t 0, ?c, HotkeyReceived, 0), (?t 3, ?c, TriggerEnqueued, nanos_u64 (?t 2)),
    (?t 5, ?c, TriggerDequeued, nanos_u64 (?t 4))]"
  let ?e1 = "(?t 6, ?c, AttemptFinished, 0 :: u64)"
  define r0 where "r0 = record_all ?es0 (log st)"
  obtain res r' b' where cap: "capture (inside clk) ?request r0 b = (res, r', b')"
    by (cases "capture (inside clk) ?request r0 b")
  obtain es where es: "records_stages ?request (\<not> isl res) es r0 r'"
    using capture_records [OF cap] by blast
  define st1 where "st1 = st\<lparr>queue := [], dequeue_samples := dequeue_samples st @ [nanos_u64 (?t 4)], log := r'\<rparr>"
  define st2 where "st2 = (case res of Inr out \<Rightarrow> note_success ?c (out_metadata out) st1
    | Inl e \<Rightarrow> note_failure e st1)"
  have "bench_iteration capture opts clk i (st, b) =
      Inr (st2\<lparr>log := record_event (?t 6) ?c AttemptFinished 0 (log st2)\<rparr>, b')"
    using assms cap
    by (cases res) (simp_all add: bench_iteration_def try_send_def try_recv_def Let_def r0_def st1_def st2_def)
  moreover have "log st2 = r'"
    by (simp add: st2_def st1_def split: sum.split)
  moreover have "record_event (?t 6) ?c AttemptFinished 0 r' = record_all (?es0 @ es @ [?e1]) (log st)"
    using es by (simp add: records_stages_def r0_def record_all_append)
  moreover have "segment (opt_cpu_frame opts) ?c (\<not> isl res) (?es0 @ es @ [?e1])"
    using es
    by (auto simp: records_stages_def segment_def iteration_kinds_def spec_kind_def spec_capture_def
        success_stages_def bench_request_def)
  ultimately show ?thesis
    by (intro exI [of _ "?es0 @ es @ [?e1]"] exI [of _ "st2\<lparr>log := record_all (?es0 @ es @ [?e1]) (log st)\<rparr>"]
        exI [of _ b']) (auto simp: st2_def st1_def note_failure_def split: sum.splits)
qed

lemma bench_inv_step:
  assumes inv: "bench_inv opts k st" and "0 < trigger_queue_capacity opts" "Suc k < 18446744073709551616"
  shows "\<exists>st' b'. bench_iteration capture opts clk k (st, b) = Inr (st', b') \<and> bench_inv opts (Suc k) st'"
proof -
  obtain segs where n: "length (successful_ids st) + failures st = k" "timeouts st \<le> failures st" "queue st = []"
    and ids: "set (successful_ids st) \<subseteq> (\<lambda>i. of_nat i + 1) ` {..<k}"
    and segs: "length segs = k"
      "log st = record_all (concat segs) (recorder_with_capacity (metrics_capacity opts))"
      "\<forall>i<k. segment (opt_cpu_frame opts) (of_nat i + 1) (of_nat i + 1 \<in> set (successful_ids st)) (segs ! i)"
    using inv by (auto simp: bench_inv_def)
  obtain es st' b' where step: "bench_iteration capture opts clk k (st, b) = Inr (st', b')"
    and st': "queue st' = []" "log st' = record_all es (log st)"
    and how: "(successful_ids st' = successful_ids st @ [of_nat k + 1] \<and> failures st' = failures st \<and>
        timeouts st' = timeouts st \<and> segment (opt_cpu_frame opts) (of_nat k + 1) True es) \<or>
      (successful_ids st' = successful_ids st \<and> failures st' = usize_saturating (failures st + 1) \<and>
        timeouts st' \<in> {timeouts st, usize_saturating (timeouts st + 1)} \<and>
        segment (opt_cpu_frame opts) (of_nat k + 1) False es)"
    using bench_iteration_segment [OF n(3) assms(2)] by blast
  have fresh: "(of_nat k + 1 :: u64) \<notin> set (successful_ids st)"
    using ids assms(3) capture_id_inject by fastforce
  have sat: "usize_saturating (failures st + 1) = failures st + 1" "usize_saturating (timeouts st + 1) = timeouts st + 1"
    using n assms(3) by (simp_all add: usize_saturating_def)
  have "(of_nat i + 1 \<in> set (successful_ids st') \<longleftrightarrow> of_nat i + 1 \<in> set (successful_ids st))" if "i < k" for i
    using how that assms(3) capture_id_inject [of i k] by auto
  then have "\<forall>i<Suc k. segment (opt_cpu_frame opts) (of_nat i + 1) (of_nat i + 1 \<in> set (successful_ids st'))
      ((segs @ [es]) ! i)"
    using segs(1,3) how fresh by (auto simp: nth_append less_Suc_eq)
  moreover have "log st' = record_all (concat (segs @ [es])) (recorder_with_capacity (metrics_capacity opts))"
    by (simp add: st' segs(2) record_all_append)
  moreover have "length (successful_ids st') + failures st' = Suc k \<and> timeouts st' \<le> failures st'"
    using how n sat by auto
  moreover have "set (successful_ids st') \<subseteq> (\<lambda>i. of_nat i + 1) ` {..<Suc k}"
    using how ids by (auto simp: lessThan_Suc)
  ultimately have "bench_inv opts (Suc k) st'"
    unfolding bench_inv_def using st'(1) segs(1)
    by (intro conjI exI [of _ "segs @ [es]"]) simp_all
  with step show ?thesis by blast
qed

lemma bench_loop_inv:
  assumes "bench_inv opts k st" "0 < trigger_queue_capacity opts" "k + m < 18446744073709551616"
  shows "\<exists>st' b'. bench_loop capture opts clk [k..<k + m] (st, b) = Inr (st', b') \<and> bench_inv opts (k + m) st'"
  using assms
proof (induction m arbitrary: k st b)
  case (Suc m)
  obtain st1 b1 where step: "bench_iteration capture opts (clk k) k (st, b) = Inr (st1, b1)"
    and inv: "bench_inv opts (Suc k) st1"
    using bench_inv_step [OF Suc.prems(1,2)] Suc.prems(3) by fastforce
  have "[k..<k + Suc m] = k # [Suc k..<Suc k + m]"
    by (subst upt_conv_Cons) simp_all
  then show ?case
    using Suc.IH [OF inv Suc.prems(2)] Suc.prems(3) step by simp
qed simp

end

subsection \<open>The log of a run is in order\<close>

lemma stage_trace: "trace_from default_progress (iteration_kinds (take n capture_stages))"
proof -
  obtain m where "take n capture_stages = take m capture_stages" "m \<in> {0, 1, 2, 3, 4}"
    by (cases "n \<le> 4") (auto simp: capture_stages_def intro: that [of n] that [of 4])
  moreover have "trace_from default_progress (iteration_kinds (take m capture_stages))" if "m \<in> {0, 1, 2, 3, 4}" for m
    using that
    by (auto simp: iteration_kinds_def capture_stages_def default_progress_def advance_def is_output_def
        re_anchor_def Let_def)
  ultimately show ?thesis by simp
qed

lemma trace_from_take: "trace_from p ks \<Longrightarrow> trace_from p (take n ks)"
  by (induction ks arbitrary: p n) (auto simp: take_Cons' split: sum.splits)

lemma perf_event_of_simps [simp]:
  "event_capture (perf_event_of e) = spec_capture e" "event_kind (perf_event_of e) = spec_kind e"
  by (simp_all add: perf_event_of_def spec_capture_def spec_kind_def split: prod.splits)

lemma concat_single:
  "j < k \<Longrightarrow> concat (map (\<lambda>i. if i = j then f i else []) [0..<k]) = f j"
  by (induction k) (auto simp: less_Suc_eq concat_eq_Nil_conv)

lemma segment_of_capture:
  assumes "length segs = k" "k < 18446744073709551616" "j < k"
    and "\<forall>i<k. \<forall>e\<in>set (segs ! i). spec_capture e = of_nat i + 1"
  shows "filter (\<lambda>e. spec_capture e = of_nat j + 1) (concat segs) = segs ! j"
proof -
  have "filter (\<lambda>e. spec_capture e = of_nat j + 1) (segs ! i) = (if i = j then segs ! i else [])" if "i < k" for i
    using assms that capture_id_inject [of i j] by (auto simp: filter_id_conv filter_empty_conv)
  then have "map (filter (\<lambda>e. spec_capture e = of_nat j + 1)) segs =
      map (\<lambda>i. if i = j then segs ! i else []) [0..<k]"
    using assms(1) by (intro nth_equalityI) simp_all
  then show ?thesis
    using concat_single [OF assms(3), of "(!) segs"] by (simp add: filter_concat)
qed

lemma no_segment_of_capture:
  assumes "length segs = k" "\<forall>i<k. c \<noteq> of_nat i + 1"
    and "\<forall>i<k. \<forall>e\<in>set (segs ! i). spec_capture e = of_nat i + 1"
  shows "filter (\<lambda>e. spec_capture e = c) (concat segs) = []"
proof -
  have "spec_capture e \<noteq> c" if "e \<in> set s" "s \<in> set segs" for e s
    using that assms unfolding in_set_conv_nth [of s] by metis
  then show ?thesis by (auto simp: filter_empty_conv)
qed

lemma filter_take_prefix: "\<exists>m. filter P (take n xs) = take m (filter P xs)"
proof -
  have "filter P xs = filter P (take n xs) @ filter P (drop n xs)"
    by (simp flip: filter_append)
  then show ?thesis by (metis append_eq_conv_conj)
qed

lemma bench_inv_valid:
  assumes "bench_inv opts k st" "k < 18446744073709551616"
  shows "validate_event_order (rec_events (log st)) = Inr ()"
proof -
  obtain segs where segs: "length segs = k"
      "log st = record_all (concat segs) (recorder_with_capacity (metrics_capacity opts))"
      "\<forall>i<k. segment (opt_cpu_frame opts) (of_nat i + 1) (of_nat i + 1 \<in> set (successful_ids st)) (segs ! i)"
    using assms(1) by (auto simp: bench_inv_def)
  have events: "rec_events (log st) = map perf_event_of (take (metrics_capacity opts) (concat segs))"
    by (simp add: segs(2) record_all_from_empty take_map)
  have "trace_from default_progress
      (map event_kind (filter (\<lambda>e. event_capture e = c) (rec_events (log st))))" for c
  proof -
    have "trace_from default_progress (map spec_kind (filter (\<lambda>e. spec_capture e = c) (concat segs)))"
    proof (cases "\<exists>i<k. c = of_nat i + 1")
      case True
      then obtain i where i: "i < k" "c = of_nat i + 1" by blast
      then have "filter (\<lambda>e. spec_capture e = c) (concat segs) = segs ! i"
        using segment_of_capture [OF segs(1) assms(2) i(1)] segs(3) by (simp add: segment_def)
      moreover have "\<exists>n. map spec_kind (segs ! i) = iteration_kinds (take n capture_stages)"
        using segs(3) i(1) unfolding segment_def by blast
      ultimately show ?thesis using stage_trace by auto
    next
      case False
      then have "filter (\<lambda>e. spec_capture e = c) (concat segs) = []"
        using segs(3) by (intro no_segment_of_capture [OF segs(1)]) (auto simp: segment_def)
      then show ?thesis by simp
    qed
    then have "trace_from default_progress (map spec_kind (filter (\<lambda>e. spec_capture e = c)
        (take (metrics_capacity opts) (concat segs))))"
      using filter_take_prefix [of "\<lambda>e. spec_capture e = c" "metrics_capacity opts" "concat segs"]
      by (auto simp: trace_from_take simp flip: take_map)
    then show ?thesis
      by (simp add: events filter_map o_def)
  qed
  then show ?thesis
    unfolding validate_event_order_def validate_from_Inr by blast
qed

lemma bench_inv_complete:
  assumes "bench_inv opts k st" "k < 18446744073709551616" "lost_events (log st) = 0"
    and "c \<in> set (successful_ids st)"
  shows "has_complete_capture_path (rec_events (log st)) c (opt_cpu_frame opts)"
proof -
  obtain segs where segs: "length segs = k"
      "log st = record_all (concat segs) (recorder_with_capacity (metrics_capacity opts))"
      "\<forall>i<k. segment (opt_cpu_frame opts) (of_nat i + 1) (of_nat i + 1 \<in> set (successful_ids st)) (segs ! i)"
    and "set (successful_ids st) \<subseteq> (\<lambda>i. of_nat i + 1) ` {..<k}"
    using assms(1) by (auto simp: bench_inv_def)
  then obtain i where i: "i < k" "c = of_nat i + 1" using assms(4) by auto
  have "min (length (concat segs) - metrics_capacity opts) 18446744073709551615 = 0"
    using record_all_from_empty [of "concat segs" "metrics_capacity opts"] assms(3) segs(2) by simp
  then have "rec_events (log st) = map perf_event_of (concat segs)"
    by (simp add: segs(2) record_all_from_empty)
  then have "map event_kind (filter (\<lambda>e. event_capture e = c) (rec_events (log st))) = map spec_kind (segs ! i)"
    using segment_of_capture [OF segs(1) assms(2) i(1)] segs(3) i(2)
    by (simp add: segment_def filter_map o_def)
  moreover have "map spec_kind (segs ! i) =
      iteration_kinds (if opt_cpu_frame opts then capture_stages else take 2 capture_stages)"
    using segs(3) i assms(4) by (simp add: segment_def)
  ultimately show ?thesis
    by (simp add: has_complete_capture_path_def iteration_kinds_def capture_stages_def Let_def
        split: if_splits)
qed

lemma segment_length:
  assumes "segment cpu c success es"
  shows "length es \<le> 8"
proof -
  obtain n where "map spec_kind es = iteration_kinds (take n capture_stages)"
    using assms by (auto simp: segment_def)
  then have "length es = length (iteration_kinds (take n capture_stages))"
    by (metis length_map)
  then show ?thesis by (simp add: iteration_kinds_def capture_stages_def)
qed

lemma bench_inv_lost:
  assumes "bench_inv opts k st" "8 * k \<le> metrics_capacity opts"
  shows "lost_events (log st) = 0"
proof -
  obtain segs where segs: "length segs = k"
      "log st = record_all (concat segs) (recorder_with_capacity (metrics_capacity opts))"
      "\<forall>i<k. segment (opt_cpu_frame opts) (of_nat i + 1) (of_nat i + 1 \<in> set (successful_ids st)) (segs ! i)"
    using assms(1) by (auto simp: bench_inv_def)
  have "length (segs ! i) \<le> 8" if "i < k" for i
    using segs(3) that segment_length by blast
  then have "\<forall>s\<in>set segs. length s \<le> 8" using segs(1) by (metis in_set_conv_nth)
  then have "length (concat segs) \<le> 8 * length segs"
    by (induction segs) simp_all
  then have "unat (lost_events (log st)) = 0"
    using record_all_from_empty [of "concat segs" "metrics_capacity opts"] assms(2) segs(1,2) by simp
  then show ?thesis by (simp add: unsigned_eq_0_iff)
qed

context capture_backend begin

lemma benchmark_accounts:
  assumes "0 < opt_iterations opts" "0 < trigger_queue_capacity opts" "opt_iterations opts < 18446744073709551616"
  shows "\<exists>run. run_with_backend capture name opts warm_clk clk b = Inr run \<and>
    successes (run_report run) + rep_failures (run_report run) = opt_iterations opts \<and>
    rep_timeouts (run_report run) \<le> rep_failures (run_report run) \<and>
    (critical_path_order_verified (run_report run) \<longleftrightarrow> lost_metric_events (run_report run) = 0) \<and>
    (8 * opt_iterations opts \<le> metrics_capacity opts \<longrightarrow> lost_metric_events (run_report run) = 0)"
proof -
  let ?n = "opt_iterations opts"
  define b1 where "b1 = warm_up capture opts warm_clk [0..<opt_warmup opts]
    (recorder_with_capacity (usize_saturating (opt_warmup opts * 10))) b"
  obtain st b' where loop: "bench_loop capture opts clk [0..<?n] (bench_start opts, b1) = Inr (st, b')"
    and inv: "bench_inv opts ?n st"
    using bench_loop_inv [OF bench_inv_start assms(2), of ?n clk b1] assms(3) by auto
  have "run_with_backend capture name opts warm_clk clk b =
      Inr \<lparr>run_report = bench_report name opts st, run_events = rec_events (log st)\<rparr>"
    using assms loop bench_inv_valid [OF inv assms(3)]
    by (simp add: run_with_backend_def b1_def Let_def)
  moreover have "length (successful_ids st) + failures st = ?n" "timeouts st \<le> failures st"
    using inv by (simp_all add: bench_inv_def)
  moreover have "lost_events (log st) = 0 \<Longrightarrow> critical_path_order_verified (bench_report name opts st)"
    using bench_inv_complete [OF inv assms(3)] by (simp add: bench_report_def list_all_iff)
  moreover have "8 * ?n \<le> metrics_capacity opts \<Longrightarrow> lost_events (log st) = 0"
    by (rule bench_inv_lost [OF inv])
  ultimately show ?thesis
    by (intro exI [of _ "\<lparr>run_report = bench_report name opts st, run_events = rec_events (log st)\<rparr>"])
       (auto simp: bench_report_def)
qed

end

text \<open>C27: a benchmark run on a backend that keeps the capture contract always finishes (its trigger
  queue never refuses or loses a trigger and its event log always passes its own order check), its
  successes and failures add up to its iterations, and the critical path is reported verified
  exactly when the recorder dropped nothing, which eight events of capacity per iteration ensure.\<close>

theorem benchmark_run_accounts:
  assumes "0 < opt_iterations opts" "0 < trigger_queue_capacity opts" "opt_iterations opts < 18446744073709551616"
  shows "\<exists>run. run_with_backend fake_capture name opts warm_clk clk b = Inr run \<and>
    successes (run_report run) + rep_failures (run_report run) = opt_iterations opts \<and>
    rep_timeouts (run_report run) \<le> rep_failures (run_report run) \<and>
    (critical_path_order_verified (run_report run) \<longleftrightarrow> lost_metric_events (run_report run) = 0) \<and>
    (8 * opt_iterations opts \<le> metrics_capacity opts \<longrightarrow> lost_metric_events (run_report run) = 0)"
  by (rule fake.benchmark_accounts [OF assms])

definition sample_options :: benchmark_options where
  "sample_options = \<lparr>opt_iterations = 3, opt_warmup = 1, opt_mode = Latest None, opt_cpu_frame = True,
     opt_source = Display primary_id, trigger_queue_capacity = 1, metrics_capacity = 24,
     opt_cursor = Exclude, opt_fake = small_config\<rparr>"

lemma benchmark_run_accounts_witness:
  "\<exists>run. run_with_backend (fake_capture :: (unit, fake_backend) capture_fun) (ustr ''fake'') sample_options
       (\<lambda>_. \<lparr>outside = id, inside = id\<rparr>) (\<lambda>_. \<lparr>outside = id, inside = id\<rparr>) (fake_new small_config) = Inr run \<and>
     successes (run_report run) + rep_failures (run_report run) = 3 \<and>
     critical_path_order_verified (run_report run)"
  using benchmark_run_accounts [of sample_options "ustr ''fake''" "\<lambda>_. \<lparr>outside = id, inside = id\<rparr>"
      "\<lambda>_. \<lparr>outside = id, inside = id\<rparr>" "fake_new small_config"]
  by (auto simp: sample_options_def)

end
