(* ===== verification/Snap.thy ===== *)
theory Snap
  imports Geometry
begin

section \<open>Edge snapping for the region tool\<close>

text \<open>
  \<open>crates/captastic-windows/src/overlay/snap.rs\<close>: the inventory of edges a region can be pulled
  onto, and the arithmetic that pulls it. Positions are \<open>i64\<close> sums of an \<open>i32\<close> and a \<open>u32\<close>,
  which cannot overflow, so they are \<open>int\<close>; a pair of options is the code's \<open>[Option<_>; 2]\<close>
  indexed by axis. \<open>ResizeHandle\<close> is declared in \<open>machine.rs\<close>.
\<close>

definition SNAP_THRESHOLD_DIP :: i32 where
  "SNAP_THRESHOLD_DIP = 8"

datatype resize_handle =
  NorthWest | North | NorthEast | East | SouthEast | South | SouthWest | West

datatype snap_target_kind = WindowTarget | WorkAreaTarget | DisplayTarget

record snap_target =
  target_rect :: rect
  target_kind :: snap_target_kind

type_synonym snap_targets = "snap_target list"

datatype snap_axis = AxisX | AxisY

type_synonym 'a per_axis = "'a \<times> 'a"

text \<open>\<open>values[axis.index()]\<close>, read and written.\<close>

fun at_axis :: "snap_axis \<Rightarrow> 'a per_axis \<Rightarrow> 'a" where
  "at_axis AxisX v = fst v"
| "at_axis AxisY v = snd v"

fun set_axis :: "snap_axis \<Rightarrow> 'a \<Rightarrow> 'a per_axis \<Rightarrow> 'a per_axis" where
  "set_axis AxisX a v = (a, snd v)"
| "set_axis AxisY a v = (fst v, a)"

record snap_guide =
  guide_axis :: snap_axis
  guide_position :: i32
  guide_span :: "i32 \<times> i32"
  guide_trailing :: bool

type_synonym active_snaps = "snap_guide option per_axis"

definition NO_SNAPS :: active_snaps where
  "NO_SNAPS = (None, None)"

record rect_edges =
  edge_left :: int
  edge_top :: int
  edge_right :: int
  edge_bottom :: int

definition edges_of :: "rect \<Rightarrow> rect_edges" where
  "edges_of r = \<lparr>edge_left = sint (rect_x r), edge_top = sint (rect_y r),
     edge_right = rect_right r, edge_bottom = rect_bottom r\<rparr>"

record edge_mask =
  mask_left :: bool
  mask_top :: bool
  mask_right :: bool
  mask_bottom :: bool

definition ALL_EDGES :: edge_mask where
  "ALL_EDGES = \<lparr>mask_left = True, mask_top = True, mask_right = True, mask_bottom = True\<rparr>"

fun for_handle :: "resize_handle \<Rightarrow> edge_mask" where
  "for_handle NorthWest = \<lparr>mask_left = True, mask_top = True, mask_right = False, mask_bottom = False\<rparr>"
| "for_handle North = \<lparr>mask_left = False, mask_top = True, mask_right = False, mask_bottom = False\<rparr>"
| "for_handle NorthEast = \<lparr>mask_left = False, mask_top = True, mask_right = True, mask_bottom = False\<rparr>"
| "for_handle East = \<lparr>mask_left = False, mask_top = False, mask_right = True, mask_bottom = False\<rparr>"
| "for_handle SouthEast = \<lparr>mask_left = False, mask_top = False, mask_right = True, mask_bottom = True\<rparr>"
| "for_handle South = \<lparr>mask_left = False, mask_top = False, mask_right = False, mask_bottom = True\<rparr>"
| "for_handle SouthWest = \<lparr>mask_left = True, mask_top = False, mask_right = False, mask_bottom = True\<rparr>"
| "for_handle West = \<lparr>mask_left = True, mask_top = False, mask_right = False, mask_bottom = False\<rparr>"

fun mask_covers :: "edge_mask \<Rightarrow> snap_axis \<Rightarrow> bool" where
  "mask_covers m AxisX = (mask_left m \<or> mask_right m)"
| "mask_covers m AxisY = (mask_top m \<or> mask_bottom m)"

record snap_hit =
  hit_position :: int
  hit_span :: "int \<times> int"

subsection \<open>The nearest edge\<close>

fun target_edges :: "rect \<Rightarrow> snap_axis \<Rightarrow> (int \<times> int \<times> int) list" where
  "target_edges r AxisX =
     (let spn = (sint (rect_y r), rect_bottom r) in [(sint (rect_x r), spn), (rect_right r, spn)])"
| "target_edges r AxisY =
     (let spn = (sint (rect_x r), rect_right r) in [(sint (rect_y r), spn), (rect_bottom r, spn)])"

text \<open>One candidate of the scan: nearer than the best so far, and within the threshold.\<close>

definition consider_edge ::
  "int \<Rightarrow> int \<Rightarrow> int \<times> int \<times> int \<Rightarrow> (int \<times> snap_hit) option \<Rightarrow> (int \<times> snap_hit) option" where
  "consider_edge v threshold = (\<lambda>(position, spn) best.
     let distance = \<bar>position - v\<bar> in
     if distance > threshold then best
     else if (case best of None \<Rightarrow> True | Some (closest, _) \<Rightarrow> distance < closest)
     then Some (distance, \<lparr>hit_position = position, hit_span = spn\<rparr>)
     else best)"

definition snap_coordinate :: "int \<Rightarrow> snap_targets \<Rightarrow> snap_axis \<Rightarrow> int \<Rightarrow> snap_hit option" where
  "snap_coordinate v targets axis threshold =
     map_option snd (fold (\<lambda>t. fold (consider_edge v threshold) (target_edges (target_rect t) axis))
       targets None)"

definition snap_point ::
  "int \<Rightarrow> int \<Rightarrow> snap_targets \<Rightarrow> int \<Rightarrow> (int \<times> int) \<times> snap_hit option per_axis" where
  "snap_point x y targets threshold =
     (let horizontal = snap_coordinate x targets AxisX threshold;
          vertical = snap_coordinate y targets AxisY threshold
      in ((case horizontal of None \<Rightarrow> x | Some hit \<Rightarrow> hit_position hit,
           case vertical of None \<Rightarrow> y | Some hit \<Rightarrow> hit_position hit), (horizontal, vertical)))"

text \<open>The nearer of an axis's two masked edges; \<open>True\<close> marks the trailing one.\<close>

definition edge_winner ::
  "int \<Rightarrow> int \<Rightarrow> bool \<Rightarrow> bool \<Rightarrow> snap_targets \<Rightarrow> snap_axis \<Rightarrow> int \<Rightarrow> (int \<times> bool \<times> snap_hit) option" where
  "edge_winner leading trailing leading_allowed trailing_allowed targets axis threshold =
     (let leading_hit = map_option (\<lambda>hit. (\<bar>hit_position hit - leading\<bar>, False, hit))
            (if leading_allowed then snap_coordinate leading targets axis threshold else None);
          trailing_hit = map_option (\<lambda>hit. (\<bar>hit_position hit - trailing\<bar>, True, hit))
            (if trailing_allowed then snap_coordinate trailing targets axis threshold else None)
      in case leading_hit of
           None \<Rightarrow> trailing_hit
         | Some l \<Rightarrow>
             (case trailing_hit of
                None \<Rightarrow> Some l
              | Some t \<Rightarrow> Some (if fst t < fst l then t else l)))"

fun move_edge :: "snap_axis \<Rightarrow> bool \<Rightarrow> int \<Rightarrow> rect_edges \<Rightarrow> rect_edges" where
  "move_edge AxisX False p e = e\<lparr>edge_left := p\<rparr>"
| "move_edge AxisX True p e = e\<lparr>edge_right := p\<rparr>"
| "move_edge AxisY False p e = e\<lparr>edge_top := p\<rparr>"
| "move_edge AxisY True p e = e\<lparr>edge_bottom := p\<rparr>"

definition snap_edges ::
  "rect_edges \<Rightarrow> edge_mask \<Rightarrow> snap_targets \<Rightarrow> int \<Rightarrow> rect_edges \<times> snap_hit option per_axis" where
  "snap_edges edges moves targets threshold =
     fold (\<lambda>(axis, leading, trailing, leading_allowed, trailing_allowed) (snapped, hits).
         case edge_winner leading trailing leading_allowed trailing_allowed targets axis threshold of
           None \<Rightarrow> (snapped, hits)
         | Some (_, is_trailing, hit) \<Rightarrow>
             (move_edge axis is_trailing (hit_position hit) snapped, set_axis axis (Some hit) hits))
       [(AxisX, edge_left edges, edge_right edges, mask_left moves, mask_right moves),
        (AxisY, edge_top edges, edge_bottom edges, mask_top moves, mask_bottom moves)]
       (edges, (None, None))"

fun translation_on :: "int \<Rightarrow> int \<Rightarrow> rect_edges \<Rightarrow> snap_axis \<Rightarrow> int" where
  "translation_on leading trailing snapped AxisX =
     (if edge_left snapped = leading then edge_right snapped - trailing else edge_left snapped - leading)"
| "translation_on leading trailing snapped AxisY =
     (if edge_top snapped = leading then edge_bottom snapped - trailing else edge_top snapped - leading)"

definition snap_translation ::
  "rect_edges \<Rightarrow> snap_targets \<Rightarrow> int \<Rightarrow> (int \<times> snap_hit) option per_axis" where
  "snap_translation edges targets threshold =
     (case snap_edges edges ALL_EDGES targets threshold of
        (snapped, hits) \<Rightarrow>
          (map_option (\<lambda>hit. (translation_on (edge_left edges) (edge_right edges) snapped AxisX, hit))
             (at_axis AxisX hits),
           map_option (\<lambda>hit. (translation_on (edge_top edges) (edge_bottom edges) snapped AxisY, hit))
             (at_axis AxisY hits)))"

subsection \<open>Guides\<close>

definition guide_for :: "snap_hit option \<Rightarrow> snap_axis \<Rightarrow> int \<Rightarrow> int \<Rightarrow> snap_guide option" where
  "guide_for hit axis leading trailing =
     do {
       hit \<leftarrow> hit;
       is_trailing \<leftarrow> (if hit_position hit = leading then Some False
         else if hit_position hit = trailing then Some True else None);
       position \<leftarrow> i32_try_from (hit_position hit);
       lo \<leftarrow> i32_try_from (fst (hit_span hit));
       hi \<leftarrow> i32_try_from (snd (hit_span hit));
       Some \<lparr>guide_axis = axis, guide_position = position, guide_span = (lo, hi),
         guide_trailing = is_trailing\<rparr>
     }"

definition guides_for :: "rect \<Rightarrow> snap_hit option per_axis \<Rightarrow> active_snaps" where
  "guides_for r hits =
     (let edges = edges_of r in
      (guide_for (at_axis AxisX hits) AxisX (edge_left edges) (edge_right edges),
       guide_for (at_axis AxisY hits) AxisY (edge_top edges) (edge_bottom edges)))"

subsection \<open>The scan keeps the first of the nearest edges\<close>

lemma at_set_axis [simp]: "at_axis a (set_axis b x v) = (if a = b then x else at_axis a v)"
  by (cases a; cases b) simp_all

text \<open>Every edge of the inventory on one axis, front to rear.\<close>

definition all_edges :: "snap_targets \<Rightarrow> snap_axis \<Rightarrow> (int \<times> int \<times> int) list" where
  "all_edges targets axis = concat (map (\<lambda>t. target_edges (target_rect t) axis) targets)"

definition near :: "int \<Rightarrow> int \<Rightarrow> int \<times> int \<times> int \<Rightarrow> bool" where
  "near v threshold e \<longleftrightarrow> \<bar>fst e - v\<bar> \<le> threshold"

text \<open>\<open>e\<close> is the first edge in range that no edge in range is nearer than.\<close>

definition first_nearest :: "int \<Rightarrow> int \<Rightarrow> (int \<times> int \<times> int) list \<Rightarrow> int \<times> int \<times> int \<Rightarrow> bool" where
  "first_nearest v threshold es e \<longleftrightarrow>
     (\<exists>front rear. es = front @ e # rear \<and> near v threshold e \<and>
        (\<forall>x\<in>set front. \<bar>fst e - v\<bar> < \<bar>fst x - v\<bar>) \<and> (\<forall>x\<in>set rear. \<bar>fst e - v\<bar> \<le> \<bar>fst x - v\<bar>))"

definition scan_inv :: "int \<Rightarrow> int \<Rightarrow> (int \<times> int \<times> int) list \<Rightarrow> (int \<times> snap_hit) option \<Rightarrow> bool" where
  "scan_inv v threshold es best \<longleftrightarrow>
     (case best of
        None \<Rightarrow> \<forall>e\<in>set es. \<not> near v threshold e
      | Some (d, hit) \<Rightarrow> first_nearest v threshold es (hit_position hit, hit_span hit) \<and> d = \<bar>hit_position hit - v\<bar>)"

lemma scan_inv_step:
  assumes "scan_inv v threshold es best"
  shows "scan_inv v threshold (es @ [e]) (consider_edge v threshold e best)"
proof (cases best)
  case None
  have "first_nearest v threshold (es @ [e]) e" if "near v threshold e"
    unfolding first_nearest_def
    by (intro exI [of _ es] exI [of _ "[]"]) (use assms None that in \<open>auto simp: scan_inv_def near_def not_le\<close>)
  then show ?thesis
    using assms None
    by (auto simp: scan_inv_def consider_edge_def near_def Let_def split: prod.splits)
next
  case (Some b)
  obtain d hit where b: "b = (d, hit)" by (cases b)
  let ?h = "(hit_position hit, hit_span hit)"
  obtain front rear where split: "es = front @ ?h # rear" "near v threshold ?h" "d = \<bar>hit_position hit - v\<bar>"
    "\<forall>x\<in>set front. \<bar>fst ?h - v\<bar> < \<bar>fst x - v\<bar>" "\<forall>x\<in>set rear. \<bar>fst ?h - v\<bar> \<le> \<bar>fst x - v\<bar>"
    using assms Some b by (auto simp: scan_inv_def first_nearest_def)
  show ?thesis
  proof (cases "near v threshold e \<and> \<bar>fst e - v\<bar> < d")
    case True
    have "first_nearest v threshold (es @ [e]) e"
      unfolding first_nearest_def
      by (intro exI [of _ es] exI [of _ "[]"]) (use split True in \<open>auto simp: near_def\<close>)
    then show ?thesis
      using True Some b by (auto simp: scan_inv_def consider_edge_def near_def Let_def split: prod.splits)
  next
    case False
    have "first_nearest v threshold (es @ [e]) ?h"
      unfolding first_nearest_def
      by (intro exI [of _ front] exI [of _ "rear @ [e]"]) (use split False in \<open>auto simp: near_def\<close>)
    then show ?thesis
      using False Some b split(3) by (auto simp: scan_inv_def consider_edge_def near_def Let_def split: prod.splits)
  qed
qed

lemma scan_inv_fold: "scan_inv v threshold es (fold (consider_edge v threshold) es None)"
proof (induction es rule: rev_induct)
  case Nil
  show ?case by (simp add: scan_inv_def)
next
  case (snoc e es)
  then show ?case using scan_inv_step by simp
qed

lemma snap_coordinate_scan:
  "snap_coordinate v targets axis threshold =
     map_option snd (fold (consider_edge v threshold) (all_edges targets axis) None)"
proof -
  have "fold (\<lambda>t. fold (consider_edge v threshold) (target_edges (target_rect t) axis)) targets b =
      fold (consider_edge v threshold) (all_edges targets axis) b" for b
    by (induction targets arbitrary: b) (simp_all add: all_edges_def)
  then show ?thesis by (simp add: snap_coordinate_def)
qed

lemma snap_coordinate_None:
  "snap_coordinate v targets axis threshold = None \<longleftrightarrow>
     (\<forall>e\<in>set (all_edges targets axis). \<not> near v threshold e)"
  using scan_inv_fold [of v threshold "all_edges targets axis"]
  by (auto simp: snap_coordinate_scan scan_inv_def first_nearest_def split: option.splits)

lemma first_nearest_unique:
  assumes "first_nearest v threshold es e" "first_nearest v threshold es e'"
  shows "e = e'"
proof -
  obtain f b where s: "es = f @ e # b" "\<forall>x\<in>set f. \<bar>fst e - v\<bar> < \<bar>fst x - v\<bar>" "\<forall>x\<in>set b. \<bar>fst e - v\<bar> \<le> \<bar>fst x - v\<bar>"
    using assms(1) unfolding first_nearest_def by blast
  obtain f' b' where s': "es = f' @ e' # b'" "\<forall>x\<in>set f'. \<bar>fst e' - v\<bar> < \<bar>fst x - v\<bar>" "\<forall>x\<in>set b'. \<bar>fst e' - v\<bar> \<le> \<bar>fst x - v\<bar>"
    using assms(2) unfolding first_nearest_def by blast
  have "f @ e # b = f' @ e' # b'" using s(1) s'(1) by simp
  then obtain us where "f = f' @ us \<and> us @ e # b = e' # b' \<or> f @ us = f' \<and> e # b = us @ e' # b'"
    by (auto simp: append_eq_append_conv2)
  then show ?thesis
    using s(2,3) s'(2,3) by (cases us) (auto simp: not_le [symmetric])
qed

lemma snap_coordinate_Some:
  "snap_coordinate v targets axis threshold = Some h \<longleftrightarrow>
     first_nearest v threshold (all_edges targets axis) (hit_position h, hit_span h)"
proof
  assume "snap_coordinate v targets axis threshold = Some h"
  then show "first_nearest v threshold (all_edges targets axis) (hit_position h, hit_span h)"
    using scan_inv_fold [of v threshold "all_edges targets axis"]
    by (auto simp: snap_coordinate_scan scan_inv_def split: option.splits)
next
  assume f: "first_nearest v threshold (all_edges targets axis) (hit_position h, hit_span h)"
  then have "snap_coordinate v targets axis threshold \<noteq> None"
    unfolding snap_coordinate_None by (auto simp: first_nearest_def)
  then obtain h' where h': "snap_coordinate v targets axis threshold = Some h'" by blast
  then have "first_nearest v threshold (all_edges targets axis) (hit_position h', hit_span h')"
    using scan_inv_fold [of v threshold "all_edges targets axis"]
    by (auto simp: snap_coordinate_scan scan_inv_def split: option.splits)
  from first_nearest_unique [OF f this] have "h = h'" by simp
  with h' show "snap_coordinate v targets axis threshold = Some h" by simp
qed

text \<open>\<open>snap_coordinate\<close> answers an edge exactly when some target edge lies within the
  threshold, and then the first, in the inventory's front-to-back order, of those no edge is nearer
  than: a tie goes to the topmost window.\<close>

theorem snap_coordinate_first_nearest:
  "(snap_coordinate v targets axis threshold = None \<longleftrightarrow>
      (\<forall>e\<in>set (all_edges targets axis). threshold < \<bar>fst e - v\<bar>)) \<and>
   (snap_coordinate v targets axis threshold = Some h \<longleftrightarrow>
      first_nearest v threshold (all_edges targets axis) (hit_position h, hit_span h))"
  by (simp add: snap_coordinate_None snap_coordinate_Some near_def not_le)

definition sample_targets :: snap_targets where
  "sample_targets =
     [\<lparr>target_rect = \<lparr>rect_x = 100, rect_y = 50, rect_width = 200, rect_height = 100\<rparr>, target_kind = WindowTarget\<rparr>,
      \<lparr>target_rect = \<lparr>rect_x = 0, rect_y = 0, rect_width = 1000, rect_height = 800\<rparr>, target_kind = DisplayTarget\<rparr>]"

lemma snap_coordinate_first_nearest_witness:
  "first_nearest 104 8 (all_edges sample_targets AxisX) (100, 50, 150)"
proof -
  have "snap_coordinate 104 sample_targets AxisX 8 = Some \<lparr>hit_position = 100, hit_span = (50, 150)\<rparr>"
    by (simp add: snap_coordinate_def sample_targets_def consider_edge_def rect_right_def rect_bottom_def Let_def)
  with snap_coordinate_first_nearest [of 104 sample_targets AxisX 8 "\<lparr>hit_position = 100, hit_span = (50, 150)\<rparr>"]
  show ?thesis by simp
qed

subsection \<open>Moving a rectangle onto an edge\<close>

lemma nearest_bound:
  assumes "snap_coordinate v targets axis threshold = Some h"
  shows "(hit_position h, hit_span h) \<in> set (all_edges targets axis)" "\<bar>hit_position h - v\<bar> \<le> threshold"
    "\<forall>e\<in>set (all_edges targets axis). \<bar>hit_position h - v\<bar> \<le> \<bar>fst e - v\<bar>"
  using assms unfolding snap_coordinate_Some first_nearest_def near_def by fastforce+

lemma edge_winner_None:
  "edge_winner l t True True targets axis threshold = None \<longleftrightarrow>
     snap_coordinate l targets axis threshold = None \<and> snap_coordinate t targets axis threshold = None"
  by (auto simp: edge_winner_def Let_def split: option.splits)

lemma edge_winner_Some:
  assumes "edge_winner l t True True targets axis threshold = Some (d, is_trailing, h)"
  shows "d = \<bar>hit_position h - (if is_trailing then t else l)\<bar>" "d \<le> threshold"
    "(hit_position h, hit_span h) \<in> set (all_edges targets axis)"
    "\<forall>e\<in>set (all_edges targets axis). d \<le> \<bar>fst e - l\<bar> \<and> d \<le> \<bar>fst e - t\<bar>"
proof -
  let ?near = "\<lambda>v. snap_coordinate v targets axis threshold"
  consider (leading) "?near l = Some h" "\<not> is_trailing" "d = \<bar>hit_position h - l\<bar>"
      "\<forall>h'. ?near t = Some h' \<longrightarrow> d \<le> \<bar>hit_position h' - t\<bar>"
    | (trailing) "?near t = Some h" "is_trailing" "d = \<bar>hit_position h - t\<bar>"
      "\<forall>h'. ?near l = Some h' \<longrightarrow> d < \<bar>hit_position h' - l\<bar>"
    using assms by (auto simp: edge_winner_def Let_def not_less split: option.splits if_splits)
  then have "d = \<bar>hit_position h - (if is_trailing then t else l)\<bar> \<and> d \<le> threshold \<and>
    (hit_position h, hit_span h) \<in> set (all_edges targets axis) \<and>
    (\<forall>e\<in>set (all_edges targets axis). d \<le> \<bar>fst e - l\<bar> \<and> d \<le> \<bar>fst e - t\<bar>)"
  proof cases
    case leading
    have "d \<le> \<bar>fst e - t\<bar>" if e: "e \<in> set (all_edges targets axis)" for e
    proof (cases "?near t")
      case None
      then show ?thesis
        using nearest_bound(2) [OF leading(1)] leading(3) e by (auto simp: snap_coordinate_None near_def)
    next
      case (Some h')
      then show ?thesis using leading(4) nearest_bound(3) [OF Some] e by fastforce
    qed
    then show ?thesis using leading nearest_bound [OF leading(1)] by simp
  next
    case trailing
    have "d \<le> \<bar>fst e - l\<bar>" if e: "e \<in> set (all_edges targets axis)" for e
    proof (cases "?near l")
      case None
      then show ?thesis
        using nearest_bound(2) [OF trailing(1)] trailing(3) e by (auto simp: snap_coordinate_None near_def)
    next
      case (Some h')
      then show ?thesis using trailing(4) nearest_bound(3) [OF Some] e by fastforce
    qed
    then show ?thesis using trailing nearest_bound [OF trailing(1)] by simp
  qed
  then show "d = \<bar>hit_position h - (if is_trailing then t else l)\<bar>" "d \<le> threshold"
    "(hit_position h, hit_span h) \<in> set (all_edges targets axis)"
    "\<forall>e\<in>set (all_edges targets axis). d \<le> \<bar>fst e - l\<bar> \<and> d \<le> \<bar>fst e - t\<bar>"
    by blast+
qed

text \<open>One axis of \<open>snap_translation\<close>, for the two sides it may land.\<close>

definition axis_snapped ::
  "int \<Rightarrow> int \<Rightarrow> snap_targets \<Rightarrow> snap_axis \<Rightarrow> int \<Rightarrow> (int \<times> snap_hit) option \<Rightarrow> bool" where
  "axis_snapped l t targets axis threshold result \<longleftrightarrow>
     (case result of
        None \<Rightarrow> \<forall>e\<in>set (all_edges targets axis). threshold < \<bar>fst e - l\<bar> \<and> threshold < \<bar>fst e - t\<bar>
      | Some (delta, h) \<Rightarrow>
          (l + delta = hit_position h \<or> t + delta = hit_position h) \<and> \<bar>delta\<bar> \<le> threshold \<and>
          (hit_position h, hit_span h) \<in> set (all_edges targets axis) \<and>
          (\<forall>e\<in>set (all_edges targets axis). \<bar>delta\<bar> \<le> \<bar>fst e - l\<bar> \<and> \<bar>delta\<bar> \<le> \<bar>fst e - t\<bar>))"

lemma axis_snapped_winner:
  assumes "w = edge_winner l t True True targets axis threshold"
    and "result = map_option (\<lambda>(d, is_trailing, h). (hit_position h - (if is_trailing then t else l), h)) w"
  shows "axis_snapped l t targets axis threshold result"
proof (cases w)
  case None
  then show ?thesis
    using assms edge_winner_None [of l t targets axis threshold]
    by (auto simp: axis_snapped_def snap_coordinate_None near_def)
next
  case (Some x)
  obtain d tr h where x: "x = (d, tr, h)" by (cases x)
  note win = edge_winner_Some [OF assms(1) [symmetric, unfolded Some x]]
  show ?thesis using win unfolding assms(2) Some x by (auto simp: axis_snapped_def)
qed

fun landed :: "int \<Rightarrow> int \<Rightarrow> (int \<times> bool \<times> snap_hit) option \<Rightarrow> int \<times> int" where
  "landed l t None = (l, t)"
| "landed l t (Some (_, False, h)) = (hit_position h, t)"
| "landed l t (Some (_, True, h)) = (l, hit_position h)"

lemma snap_edges_all:
  assumes "wx = edge_winner (edge_left e) (edge_right e) True True targets AxisX threshold"
    and "wy = edge_winner (edge_top e) (edge_bottom e) True True targets AxisY threshold"
  shows "\<exists>moved. snap_edges e ALL_EDGES targets threshold =
      (moved, (map_option (snd \<circ> snd) wx, map_option (snd \<circ> snd) wy)) \<and>
    (edge_left moved, edge_right moved) = landed (edge_left e) (edge_right e) wx \<and>
    (edge_top moved, edge_bottom moved) = landed (edge_top e) (edge_bottom e) wy"
  using assms
  by (cases "(edge_left e, edge_right e, wx)" rule: landed.cases; cases "(edge_top e, edge_bottom e, wy)" rule: landed.cases)
     (simp_all add: snap_edges_def ALL_EDGES_def)

lemma landed_translation:
  assumes "(a, b) = landed l t w"
  shows "map_option (\<lambda>h. (if a = l then b - t else a - l, h)) (map_option (snd \<circ> snd) w) =
    map_option (\<lambda>(d, is_trailing, h). (hit_position h - (if is_trailing then t else l), h)) w"
  using assms by (cases "(l, t, w)" rule: landed.cases) auto

text \<open>\<open>snap_translation\<close> moves a rectangle on each axis by the smallest distance that puts one of
  its two sides on a target edge, and only when that distance is within the threshold; otherwise it
  does not move it on that axis.\<close>

theorem snap_translation_lands:
  "axis_snapped (edge_left e) (edge_right e) targets AxisX threshold (fst (snap_translation e targets threshold)) \<and>
   axis_snapped (edge_top e) (edge_bottom e) targets AxisY threshold (snd (snap_translation e targets threshold))"
proof -
  define wx where "wx = edge_winner (edge_left e) (edge_right e) True True targets AxisX threshold"
  define wy where "wy = edge_winner (edge_top e) (edge_bottom e) True True targets AxisY threshold"
  obtain moved where snapped: "snap_edges e ALL_EDGES targets threshold =
      (moved, (map_option (snd \<circ> snd) wx, map_option (snd \<circ> snd) wy))"
    and x: "(edge_left moved, edge_right moved) = landed (edge_left e) (edge_right e) wx"
    and y: "(edge_top moved, edge_bottom moved) = landed (edge_top e) (edge_bottom e) wy"
    using snap_edges_all [OF wx_def wy_def] by blast
  have "fst (snap_translation e targets threshold) =
      map_option (\<lambda>(d, is_trailing, h). (hit_position h - (if is_trailing then edge_right e else edge_left e), h)) wx"
    "snd (snap_translation e targets threshold) =
      map_option (\<lambda>(d, is_trailing, h). (hit_position h - (if is_trailing then edge_bottom e else edge_top e), h)) wy"
    using landed_translation [OF x] landed_translation [OF y]
    by (simp_all add: snap_translation_def snapped)
  then show ?thesis
    using axis_snapped_winner [OF wx_def] axis_snapped_winner [OF wy_def] by blast
qed

end
