(* ===== verification/UiLayout.thy ===== *)
theory UiLayout
  imports Geometry
begin

section \<open>Layout of the overlay's chrome\<close>

text \<open>
  \<open>crates/captastic-windows/src/overlay/layout.rs\<close>: the DPI-scaled toolbar and its options menu,
  the magnifier, and the dimension label. Coordinates are \<open>i32\<close>; plain \<open>+\<close>, \<open>-\<close> and \<open>*\<close>
  wrap as they do in a release build, the \<open>saturating_\<close> operations clip, and comparisons are
  signed. A \<open>POINT\<close> is the Win32 structure of two \<open>i32\<close>s.
\<close>

record point =
  pt_x :: i32
  pt_y :: i32

subsection \<open>Signed 32-bit operations\<close>

definition smin :: "i32 \<Rightarrow> i32 \<Rightarrow> i32" where
  "smin a b = (if sint b < sint a then b else a)"

definition smax :: "i32 \<Rightarrow> i32 \<Rightarrow> i32" where
  "smax a b = (if sint a < sint b then b else a)"

definition sclamp :: "i32 \<Rightarrow> i32 \<Rightarrow> i32 \<Rightarrow> i32" where
  "sclamp v lo hi = (if sint v < sint lo then lo else if sint hi < sint v then hi else v)"

definition sadd :: "i32 \<Rightarrow> i32 \<Rightarrow> i32" where
  "sadd a b = clamp_to_i32 (sint a + sint b)"

definition ssub :: "i32 \<Rightarrow> i32 \<Rightarrow> i32" where
  "ssub a b = clamp_to_i32 (sint a - sint b)"

definition smul :: "i32 \<Rightarrow> i32 \<Rightarrow> i32" where
  "smul a b = clamp_to_i32 (sint a * sint b)"

text \<open>Division by a positive constant rounds towards zero.\<close>

definition quot :: "int \<Rightarrow> int \<Rightarrow> int" where
  "quot a b = (if a < 0 then - ((- a) div b) else a div b)"

definition half :: "i32 \<Rightarrow> i32" where
  "half a = word_of_int (quot (sint a) 2)"

subsection \<open>Data\<close>

definition TOOLBAR_WIDTH :: i32 where "TOOLBAR_WIDTH = 558"
definition TOOLBAR_HEIGHT :: i32 where "TOOLBAR_HEIGHT = 56"
definition TOOLBAR_BOTTOM_MARGIN :: i32 where "TOOLBAR_BOTTOM_MARGIN = 24"
definition MENU_WIDTH :: i32 where "MENU_WIDTH = 248"
definition MENU_HEIGHT :: i32 where "MENU_HEIGHT = 332"

datatype toolbar_control =
    Background | FullDisplayControl | WindowControl | RegionControl | Options | Pin | Edit | Record
  | Capture | DimBackground | SnapToWindows | RegionZoomControl | PreviewViewControl
  | ClipboardDestination | FileOutputDestination | RecordFormat | Cancel

record ui_rect =
  ui_left :: i32
  ui_top :: i32
  ui_right :: i32
  ui_bottom :: i32

definition ui_contains :: "ui_rect \<Rightarrow> point \<Rightarrow> bool" where
  "ui_contains r p \<longleftrightarrow> sint (ui_left r) \<le> sint (pt_x p) \<and> sint (pt_x p) < sint (ui_right r) \<and>
     sint (ui_top r) \<le> sint (pt_y p) \<and> sint (pt_y p) < sint (ui_bottom r)"

definition ui_width :: "ui_rect \<Rightarrow> i32" where
  "ui_width r = smax (ui_right r - ui_left r) 1"

definition ui_height :: "ui_rect \<Rightarrow> i32" where
  "ui_height r = smax (ui_bottom r - ui_top r) 1"

definition intersects :: "ui_rect \<Rightarrow> ui_rect \<Rightarrow> bool" where
  "intersects r other \<longleftrightarrow> sint (ui_left r) < sint (ui_right other) \<and>
     sint (ui_left other) < sint (ui_right r) \<and> sint (ui_top r) < sint (ui_bottom other) \<and>
     sint (ui_top other) < sint (ui_bottom r)"

definition intersection_area :: "ui_rect \<Rightarrow> ui_rect \<Rightarrow> int" where
  "intersection_area r other =
     (let w = smax (smin (ui_right r) (ui_right other) - smax (ui_left r) (ui_left other)) 0;
          h = smax (smin (ui_bottom r) (ui_bottom other) - smax (ui_top r) (ui_top other)) 0
      in sint w * sint h)"

record ui_size =
  size_width :: i32
  size_height :: i32

datatype label_placement = Inside | PlaceTop | PlaceBottom | PlaceLeft | PlaceRight

record label_layout =
  label_bounds :: ui_rect
  placement :: label_placement

subsection \<open>Scaling\<close>

record ui_metrics =
  dpi :: u32

definition BASE_DPI :: u32 where "BASE_DPI = 96"

definition metrics_new :: "u32 \<Rightarrow> ui_metrics" where
  "metrics_new d = \<lparr>dpi = (if d = 0 then BASE_DPI else d)\<rparr>"

definition px :: "ui_metrics \<Rightarrow> i32 \<Rightarrow> i32" where
  "px m dip =
     (let scaled = sint dip * uint (dpi m) + uint (BASE_DPI div 2) in
      case i32_try_from (quot scaled (uint BASE_DPI)) of None \<Rightarrow> 2147483647 | Some v \<Rightarrow> v)"

record region_tokens =
  region_label_font_height :: i32
  label_padding_x :: i32
  label_padding_y :: i32
  label_corner_radius :: i32
  handle_hit_radius :: i32
  handle_outer_radius :: i32
  handle_inner_radius :: i32
  label_inset :: i32
  selection_gap :: i32
  handle_clearance :: i32
  inside_hysteresis :: i32

definition region_tokens_new :: "ui_metrics \<Rightarrow> region_tokens" where
  "region_tokens_new m =
     \<lparr>region_label_font_height = px m 15, label_padding_x = px m 10, label_padding_y = px m 5,
      label_corner_radius = px m 8, handle_hit_radius = px m 9, handle_outer_radius = px m 6,
      handle_inner_radius = px m 3, label_inset = px m 8, selection_gap = px m 8,
      handle_clearance = px m 12, inside_hysteresis = px m 8\<rparr>"

record toolbar_tokens =
  font_height :: i32
  toolbar_corner_radius :: i32
  control_corner_radius :: i32
  menu_corner_radius :: i32
  tooltip_corner_radius :: i32
  icon_size :: i32
  icon_stroke :: i32
  text_padding :: i32
  tooltip_padding_x :: i32
  tooltip_padding_y :: i32
  menu_check_offset :: i32
  menu_text_offset :: i32
  grip_dot_size :: i32
  grip_dot_gap :: i32

definition toolbar_tokens_new :: "ui_metrics \<Rightarrow> toolbar_tokens" where
  "toolbar_tokens_new m =
     \<lparr>font_height = px m 16, toolbar_corner_radius = px m 12, control_corner_radius = px m 8,
      menu_corner_radius = px m 10, tooltip_corner_radius = px m 8, icon_size = px m 22,
      icon_stroke = smax (px m 2) 1, text_padding = px m 8, tooltip_padding_x = px m 12,
      tooltip_padding_y = px m 7, menu_check_offset = px m 16, menu_text_offset = px m 36,
      grip_dot_size = smax (px m 4) 2, grip_dot_gap = px m 6\<rparr>"

record overview_tokens =
  margin_x :: i32
  overview_top :: i32
  bottom_reserve :: i32
  overview_gap :: i32
  min_available_width :: i32
  min_available_height :: i32
  min_row_height :: i32
  min_window_size :: i32
  empty_state_bottom :: i32

definition overview_tokens_new :: "ui_metrics \<Rightarrow> overview_tokens" where
  "overview_tokens_new m =
     \<lparr>margin_x = px m 70, overview_top = px m 64, bottom_reserve = px m 160, overview_gap = px m 28,
      min_available_width = px m 200, min_available_height = px m 160, min_row_height = px m 60,
      min_window_size = px m 40, empty_state_bottom = px m 118\<rparr>"

definition toolbar_width :: "ui_metrics \<Rightarrow> i32" where
  "toolbar_width m = px m TOOLBAR_WIDTH"

definition toolbar_height :: "ui_metrics \<Rightarrow> i32" where
  "toolbar_height m = px m TOOLBAR_HEIGHT"

subsection \<open>The magnifier\<close>

definition LOUPE_SOURCE_SPAN :: i32 where "LOUPE_SOURCE_SPAN = 31"
definition LOUPE_SOURCE_HALF :: i32 where "LOUPE_SOURCE_HALF = 15"

record loupe_tokens =
  zoom :: i32
  loupe_gap :: i32
  loupe_padding :: i32
  corner_radius :: i32
  label_height :: i32
  label_font_height :: i32
  edge_stroke :: i32
  loupe_inset :: i32

definition loupe_tokens_new :: "ui_metrics \<Rightarrow> loupe_tokens" where
  "loupe_tokens_new m =
     \<lparr>zoom = smax (px m 6) 2, loupe_gap = px m 24, loupe_padding = px m 6, corner_radius = px m 10,
      label_height = px m 20, label_font_height = px m 13, edge_stroke = smax (px m 2) 1,
      loupe_inset = px m 8\<rparr>"

definition view_span :: "loupe_tokens \<Rightarrow> i32" where
  "view_span t = LOUPE_SOURCE_SPAN * zoom t"

definition outer_width :: "loupe_tokens \<Rightarrow> i32" where
  "outer_width t = view_span t + loupe_padding t * 2"

definition outer_height :: "loupe_tokens \<Rightarrow> i32" where
  "outer_height t = view_span t + loupe_padding t * 2 + label_height t"

record loupe_layout =
  loupe_bounds :: ui_rect
  loupe_view :: ui_rect
  loupe_label :: ui_rect
  loupe_source :: ui_rect
  loupe_layout_tokens :: loupe_tokens

definition clamp_coordinate :: "i32 \<Rightarrow> i32 \<Rightarrow> i32 \<Rightarrow> i32" where
  "clamp_coordinate v minimum maximum =
     (if sint maximum \<le> sint minimum then minimum else sclamp v minimum maximum)"

text \<open>The magnifier's corner: the first side of the source square with room, clamped to the monitor.\<close>

definition loupe_corner :: "ui_rect \<Rightarrow> ui_rect \<Rightarrow> loupe_tokens \<Rightarrow> i32 \<times> i32" where
  "loupe_corner safe source t =
     (let w = outer_width t;
          h = outer_height t;
          right_of = sadd (ui_right source) (loupe_gap t);
          left_of = ssub (ssub (ui_left source) (loupe_gap t)) w;
          below = sadd (ui_bottom source) (loupe_gap t);
          above = ssub (ssub (ui_top source) (loupe_gap t)) h;
          horizontal = (\<lambda>left. clamp_coordinate left (ui_left safe) (ssub (ui_right safe) w));
          vertical = (\<lambda>upper. clamp_coordinate upper (ui_top safe) (ssub (ui_bottom safe) h))
      in if sint (sadd right_of w) \<le> sint (ui_right safe) then (horizontal right_of, vertical below)
         else if sint (ui_left safe) \<le> sint left_of then (horizontal left_of, vertical below)
         else if sint (sadd below h) \<le> sint (ui_bottom safe)
         then (horizontal (ui_left source), vertical below)
         else if sint (ui_top safe) \<le> sint above then (horizontal (ui_left source), vertical above)
         else (horizontal right_of, vertical below))"

definition layout_loupe :: "ui_rect \<Rightarrow> point \<Rightarrow> loupe_tokens \<Rightarrow> loupe_layout" where
  "layout_loupe monitor pointer t =
     (let source = \<lparr>ui_left = ssub (pt_x pointer) LOUPE_SOURCE_HALF,
            ui_top = ssub (pt_y pointer) LOUPE_SOURCE_HALF,
            ui_right = sadd (sadd (pt_x pointer) LOUPE_SOURCE_HALF) 1,
            ui_bottom = sadd (sadd (pt_y pointer) LOUPE_SOURCE_HALF) 1\<rparr>;
          safe = \<lparr>ui_left = sadd (ui_left monitor) (loupe_inset t),
            ui_top = sadd (ui_top monitor) (loupe_inset t),
            ui_right = ssub (ui_right monitor) (loupe_inset t),
            ui_bottom = ssub (ui_bottom monitor) (loupe_inset t)\<rparr>;
          corner = loupe_corner safe source t;
          left = fst corner;
          upper = snd corner;
          bounds = \<lparr>ui_left = left, ui_top = upper, ui_right = sadd left (outer_width t),
            ui_bottom = sadd upper (outer_height t)\<rparr>;
          view = \<lparr>ui_left = sadd (ui_left bounds) (loupe_padding t),
            ui_top = sadd (ui_top bounds) (loupe_padding t),
            ui_right = sadd (sadd (ui_left bounds) (loupe_padding t)) (view_span t),
            ui_bottom = sadd (sadd (ui_top bounds) (loupe_padding t)) (view_span t)\<rparr>
      in \<lparr>loupe_bounds = bounds, loupe_view = view,
          loupe_label = \<lparr>ui_left = ui_left bounds, ui_top = ssub (ui_bottom bounds) (label_height t),
            ui_right = ui_right bounds, ui_bottom = ui_bottom bounds\<rparr>,
          loupe_source = source, loupe_layout_tokens = t\<rparr>)"

record loupe_edge_line =
  vertical_line :: bool
  line_position :: i32

definition loupe_edge_lines :: "ui_rect \<Rightarrow> loupe_layout \<Rightarrow> loupe_edge_line list" where
  "loupe_edge_lines selection l =
     (let view = loupe_view l; source = loupe_source l; t = loupe_layout_tokens l in
      map (\<lambda>edge. \<lparr>vertical_line = True, line_position = ui_left view + (edge - ui_left source) * zoom t\<rparr>)
        (filter (\<lambda>edge. sint (ui_left source) \<le> sint edge \<and> sint edge < sint (ui_right source))
          [ui_left selection, ui_right selection]) @
      map (\<lambda>edge. \<lparr>vertical_line = False, line_position = ui_top view + (edge - ui_top source) * zoom t\<rparr>)
        (filter (\<lambda>edge. sint (ui_top source) \<le> sint edge \<and> sint edge < sint (ui_bottom source))
          [ui_top selection, ui_bottom selection]))"

subsection \<open>Reading the signed operations\<close>

named_theorems signed_simps \<open>signed operations read as integers\<close>

lemma sint_smin [signed_simps]: "sint (smin a b) = min (sint a) (sint b)"
  by (simp add: smin_def)

lemma sint_smax [signed_simps]: "sint (smax a b) = max (sint a) (sint b)"
  by (simp add: smax_def)

lemma sint_sclamp [signed_simps]: "sint (sclamp v lo hi) = clamp (sint v) (sint lo) (sint hi)"
  by (simp add: sclamp_def clamp_def)

lemma sint_sadd [signed_simps]: "sint (sadd a b) = clamp (sint a + sint b) (- 2147483648) 2147483647"
  by (simp add: sadd_def sint_clamp_to_i32)

lemma sint_ssub [signed_simps]: "sint (ssub a b) = clamp (sint a - sint b) (- 2147483648) 2147483647"
  by (simp add: ssub_def sint_clamp_to_i32)

lemma sint_smul [signed_simps]: "sint (smul a b) = clamp (sint a * sint b) (- 2147483648) 2147483647"
  by (simp add: smul_def sint_clamp_to_i32)

lemma sint_clamp_coordinate [signed_simps]:
  "sint (clamp_coordinate v lo hi) =
     (if sint hi \<le> sint lo then sint lo else clamp (sint v) (sint lo) (sint hi))"
  by (simp add: clamp_coordinate_def signed_simps)

text \<open>A word that is small: sums of a few of these stay in range.\<close>

definition small :: "int \<Rightarrow> i32 \<Rightarrow> bool" where
  "small n a \<longleftrightarrow> - n \<le> sint a \<and> sint a \<le> n"

lemma sint_plus:
  assumes "- 2147483648 \<le> sint a + sint b" "sint a + sint b \<le> 2147483647"
  shows "sint (a + b :: i32) = sint a + sint b"
proof -
  have "a + b = word_of_int (sint a + sint b)" by simp
  then show ?thesis using sint_i32_of_int [OF assms] by simp
qed

lemma sint_times:
  assumes "- 2147483648 \<le> sint a * sint b" "sint a * sint b \<le> 2147483647"
  shows "sint (a * b :: i32) = sint a * sint b"
proof -
  have "a * b = word_of_int (sint a * sint b)" by simp
  then show ?thesis using sint_i32_of_int [OF assms] by simp
qed

lemma sint_half [signed_simps]: "sint (half a) = quot (sint a) 2"
proof -
  have "- 2147483648 \<le> quot (sint a) 2" "quot (sint a) 2 \<le> 2147483647"
    using sint_i32_ge [of a] sint_i32_le [of a] by (auto simp: quot_def)
  then show ?thesis unfolding half_def by (rule sint_i32_of_int)
qed

subsection \<open>Scaled lengths\<close>

text \<open>A display's DPI; at this bound a toolbar is still under half a million pixels wide.\<close>

definition dpi_ok :: "ui_metrics \<Rightarrow> bool" where
  "dpi_ok m \<longleftrightarrow> 0 < uint (dpi m) \<and> uint (dpi m) \<le> 65535"

definition scaled :: "ui_metrics \<Rightarrow> int \<Rightarrow> int" where
  "scaled m dip = (dip * uint (dpi m) + 48) div 96"

lemma sint_px:
  assumes "dpi_ok m" "0 \<le> sint d" "sint d \<le> 1000"
  shows "sint (px m d) = scaled m (sint d)"
proof -
  let ?s = "sint d * uint (dpi m) + 48"
  have "sint d * uint (dpi m) \<le> 1000 * 65535"
    using assms by (intro mult_mono) (auto simp: dpi_ok_def)
  moreover have "0 \<le> sint d * uint (dpi m)" using assms by (simp add: dpi_ok_def)
  ultimately have "0 \<le> ?s div 96" "?s div 96 \<le> 2147483647" "quot ?s 96 = ?s div 96"
    by (simp_all add: quot_def)
  then show ?thesis
    by (simp add: px_def BASE_DPI_def scaled_def i32_try_from_def sint_i32_of_int Let_def)
qed

lemma scaled_mono: "0 < uint (dpi m) \<Longrightarrow> a \<le> b \<Longrightarrow> scaled m a \<le> scaled m b"
  unfolding scaled_def by (intro zdiv_mono1 add_mono mult_right_mono) simp_all

lemma scaled_nonneg: "0 \<le> a \<Longrightarrow> 0 \<le> scaled m a"
  by (simp add: scaled_def pos_imp_zdiv_nonneg_iff)

lemma scaled_le: "dpi_ok m \<Longrightarrow> 0 \<le> a \<Longrightarrow> a \<le> 1000 \<Longrightarrow> scaled m a \<le> 682657"
proof -
  assume "dpi_ok m" "0 \<le> a" "a \<le> 1000"
  then have "a * uint (dpi m) \<le> 1000 * 65535" by (intro mult_mono) (auto simp: dpi_ok_def)
  then have "(a * uint (dpi m) + 48) div 96 \<le> (1000 * 65535 + 48) div 96"
    by (intro zdiv_mono1) simp_all
  then show ?thesis by (simp add: scaled_def)
qed

subsection \<open>The magnifier never covers what it magnifies\<close>

lemma loupe_sizes:
  assumes "dpi_ok m"
  defines "t \<equiv> loupe_tokens_new m"
  shows "sint (view_span t) = 31 * max (scaled m 6) 2"
    and "sint (outer_width t) = 31 * max (scaled m 6) 2 + 2 * scaled m 6"
    and "sint (outer_height t) = 31 * max (scaled m 6) 2 + 2 * scaled m 6 + scaled m 20"
    and "sint (loupe_gap t) = scaled m 24" and "sint (loupe_padding t) = scaled m 6"
    and "sint (loupe_inset t) = scaled m 8" and "sint (label_height t) = scaled m 20"
proof -
  have le: "0 \<le> scaled m a" "scaled m a \<le> 682657" if "0 \<le> a" "a \<le> 1000" for a
    using that assms(1) scaled_nonneg scaled_le by auto
  have px: "sint (px m 6) = scaled m 6" "sint (px m 24) = scaled m 24" "sint (px m 8) = scaled m 8"
    "sint (px m 20) = scaled m 20"
    by (simp_all add: sint_px [OF assms(1)])
  have z: "sint (zoom t) = max (scaled m 6) 2"
    by (simp add: t_def loupe_tokens_new_def signed_simps px)
  show v: "sint (view_span t) = 31 * max (scaled m 6) 2"
    unfolding view_span_def LOUPE_SOURCE_SPAN_def
    using le [of 6] by (subst sint_times) (simp_all add: z)
  have p: "sint (loupe_padding t * 2) = 2 * scaled m 6"
    using le [of 6] by (subst sint_times) (simp_all add: t_def loupe_tokens_new_def px)
  show w: "sint (outer_width t) = 31 * max (scaled m 6) 2 + 2 * scaled m 6"
    unfolding outer_width_def using le [of 6] by (subst sint_plus) (simp_all add: v p)
  have l: "sint (label_height t) = scaled m 20"
    by (simp add: t_def loupe_tokens_new_def px)
  then show "sint (label_height t) = scaled m 20" .
  show "sint (outer_height t) = 31 * max (scaled m 6) 2 + 2 * scaled m 6 + scaled m 20"
    using w unfolding outer_height_def outer_width_def using le [of 6] le [of 20] l
    by (subst sint_plus) simp_all
  show "sint (loupe_gap t) = scaled m 24" "sint (loupe_padding t) = scaled m 6"
    "sint (loupe_inset t) = scaled m 8"
    by (simp_all add: t_def loupe_tokens_new_def px)
qed

text \<open>Some side of the sampled square has room for the magnifier inside the inset monitor.\<close>

definition loupe_room :: "ui_rect \<Rightarrow> point \<Rightarrow> loupe_tokens \<Rightarrow> bool" where
  "loupe_room monitor p t \<longleftrightarrow>
     (let w = sint (outer_width t); h = sint (outer_height t); gap = sint (loupe_gap t);
          inset = sint (loupe_inset t); x = sint (pt_x p); y = sint (pt_y p)
      in x + 16 + gap + w \<le> sint (ui_right monitor) - inset \<or>
         sint (ui_left monitor) + inset \<le> x - 15 - gap - w \<or>
         y + 16 + gap + h \<le> sint (ui_bottom monitor) - inset \<or>
         sint (ui_top monitor) + inset \<le> y - 15 - gap - h)"

definition small_rect :: "int \<Rightarrow> ui_rect \<Rightarrow> bool" where
  "small_rect n r \<longleftrightarrow> small n (ui_left r) \<and> small n (ui_top r) \<and> small n (ui_right r) \<and> small n (ui_bottom r)"

lemma sadd_exact: "- 2147483648 \<le> sint a + sint b \<Longrightarrow> sint a + sint b \<le> 2147483647 \<Longrightarrow>
    sint (sadd a b) = sint a + sint b"
  by (simp add: sint_sadd clamp_id)

lemma ssub_exact: "- 2147483648 \<le> sint a - sint b \<Longrightarrow> sint a - sint b \<le> 2147483647 \<Longrightarrow>
    sint (ssub a b) = sint a - sint b"
  by (simp add: sint_ssub clamp_id)

text \<open>The corner's choice over integers: no operation of it saturates for coordinates this small.\<close>

definition clamped :: "int \<Rightarrow> int \<Rightarrow> int \<Rightarrow> int" where
  "clamped v lo hi = (if hi \<le> lo then lo else clamp v lo hi)"

definition corner_choice :: "int \<Rightarrow> int \<Rightarrow> int \<Rightarrow> int \<times> int \<times> int \<times> int \<Rightarrow> int \<times> int \<times> int \<times> int \<Rightarrow> int \<times> int" where
  "corner_choice w h g = (\<lambda>(sl, st, sr, sb) (ql, qt, qr, qb).
     let horizontal = (\<lambda>v. clamped v sl (sr - w)); vertical = (\<lambda>v. clamped v st (sb - h)) in
     if qr + g + w \<le> sr then (horizontal (qr + g), vertical (qb + g))
     else if sl \<le> ql - g - w then (horizontal (ql - g - w), vertical (qb + g))
     else if qb + g + h \<le> sb then (horizontal ql, vertical (qb + g))
     else if st \<le> qt - g - h then (horizontal ql, vertical (qt - g - h))
     else (horizontal (qr + g), vertical (qb + g)))"
lemma loupe_corner_ints:
  assumes "small_rect 1100000000 safe" "small_rect 1100000000 source"
    and "0 \<le> sint (outer_width t)" "sint (outer_width t) \<le> 30000000"
    and "0 \<le> sint (outer_height t)" "sint (outer_height t) \<le> 30000000"
    and "0 \<le> sint (loupe_gap t)" "sint (loupe_gap t) \<le> 1000000"
  defines "w \<equiv> sint (outer_width t)" and "h \<equiv> sint (outer_height t)" and "g \<equiv> sint (loupe_gap t)"
  defines "right_of \<equiv> sint (ui_right source) + g" and "left_of \<equiv> sint (ui_left source) - g - w"
    and "below \<equiv> sint (ui_bottom source) + g" and "over \<equiv> sint (ui_top source) - g - h"
  shows "map_prod sint sint (loupe_corner safe source t) = corner_choice w h g
    (sint (ui_left safe), sint (ui_top safe), sint (ui_right safe), sint (ui_bottom safe))
    (sint (ui_left source), sint (ui_top source), sint (ui_right source), sint (ui_bottom source))"
proof -
  note s = assms(1,2) [unfolded small_rect_def small_def]
  have r: "sint (sadd (ui_right source) (loupe_gap t)) = right_of"
    using s assms(7,8) unfolding right_of_def g_def by (intro sadd_exact) linarith+
  have l0: "sint (ssub (ui_left source) (loupe_gap t)) = sint (ui_left source) - g"
    using s assms(7,8) unfolding g_def by (intro ssub_exact) linarith+
  have l: "sint (ssub (ssub (ui_left source) (loupe_gap t)) (outer_width t)) = left_of"
    using s assms(3,4,7,8) l0 unfolding left_of_def g_def w_def by (subst ssub_exact) linarith+
  have b: "sint (sadd (ui_bottom source) (loupe_gap t)) = below"
    using s assms(7,8) unfolding below_def g_def by (intro sadd_exact) linarith+
  have a0: "sint (ssub (ui_top source) (loupe_gap t)) = sint (ui_top source) - g"
    using s assms(7,8) unfolding g_def by (intro ssub_exact) linarith+
  have a: "sint (ssub (ssub (ui_top source) (loupe_gap t)) (outer_height t)) = over"
    using s assms(5-8) a0 unfolding over_def g_def h_def by (subst ssub_exact) linarith+
  have rw: "sint (sadd (sadd (ui_right source) (loupe_gap t)) (outer_width t)) = right_of + w"
    using s assms(3,4,7,8) r unfolding right_of_def g_def w_def by (subst sadd_exact) linarith+
  have bh: "sint (sadd (sadd (ui_bottom source) (loupe_gap t)) (outer_height t)) = below + h"
    using s assms(5-8) b unfolding below_def g_def h_def by (subst sadd_exact) linarith+
  have hi: "sint (ssub (ui_right safe) (outer_width t)) = sint (ui_right safe) - w"
    "sint (ssub (ui_bottom safe) (outer_height t)) = sint (ui_bottom safe) - h"
    using s assms(3-6) unfolding w_def h_def by (intro ssub_exact; linarith)+
  show ?thesis
    by (simp add: loupe_corner_def corner_choice_def Let_def r l b a rw bh hi sint_clamp_coordinate
        clamped_def right_of_def left_of_def below_def over_def)
qed

definition loupe_safe :: "ui_rect \<Rightarrow> loupe_tokens \<Rightarrow> ui_rect" where
  "loupe_safe monitor t =
     \<lparr>ui_left = sadd (ui_left monitor) (loupe_inset t), ui_top = sadd (ui_top monitor) (loupe_inset t),
      ui_right = ssub (ui_right monitor) (loupe_inset t), ui_bottom = ssub (ui_bottom monitor) (loupe_inset t)\<rparr>"

definition loupe_square :: "point \<Rightarrow> ui_rect" where
  "loupe_square p =
     \<lparr>ui_left = ssub (pt_x p) LOUPE_SOURCE_HALF, ui_top = ssub (pt_y p) LOUPE_SOURCE_HALF,
      ui_right = sadd (sadd (pt_x p) LOUPE_SOURCE_HALF) 1, ui_bottom = sadd (sadd (pt_y p) LOUPE_SOURCE_HALF) 1\<rparr>"

lemma loupe_square_ints:
  assumes "small 1000000000 (pt_x p)" "small 1000000000 (pt_y p)"
  shows "sint (ui_left (loupe_square p)) = sint (pt_x p) - 15" "sint (ui_top (loupe_square p)) = sint (pt_y p) - 15"
    "sint (ui_right (loupe_square p)) = sint (pt_x p) + 16" "sint (ui_bottom (loupe_square p)) = sint (pt_y p) + 16"
  using assms
  by (simp_all add: loupe_square_def signed_simps clamp_def LOUPE_SOURCE_HALF_def small_def)

lemma loupe_safe_ints:
  assumes "small_rect 1000000000 monitor" "0 \<le> sint (loupe_inset t)" "sint (loupe_inset t) \<le> 1000000"
  shows "sint (ui_left (loupe_safe monitor t)) = sint (ui_left monitor) + sint (loupe_inset t)"
    "sint (ui_top (loupe_safe monitor t)) = sint (ui_top monitor) + sint (loupe_inset t)"
    "sint (ui_right (loupe_safe monitor t)) = sint (ui_right monitor) - sint (loupe_inset t)"
    "sint (ui_bottom (loupe_safe monitor t)) = sint (ui_bottom monitor) - sint (loupe_inset t)"
  using assms
  by (simp_all add: loupe_safe_def sint_sadd sint_ssub clamp_def small_rect_def small_def)

lemma layout_loupe_bounds:
  "loupe_bounds (layout_loupe monitor p t) =
    (let c = loupe_corner (loupe_safe monitor t) (loupe_square p) t in
     \<lparr>ui_left = fst c, ui_top = snd c, ui_right = sadd (fst c) (outer_width t),
      ui_bottom = sadd (snd c) (outer_height t)\<rparr>)"
  "loupe_source (layout_loupe monitor p t) = loupe_square p"
  by (simp_all add: layout_loupe_def Let_def loupe_safe_def loupe_square_def)

lemma clamped_cases:
  "clamped v lo hi = v \<and> lo \<le> v \<or> clamped v lo hi = lo \<and> (v < lo \<or> hi \<le> lo) \<or>
   clamped v lo hi = hi \<and> lo < hi \<and> hi < v"
  by (auto simp: clamped_def clamp_def)

lemma clamped_within: "lo \<le> hi \<Longrightarrow> lo \<le> clamped v lo hi \<and> clamped v lo hi \<le> hi"
  by (auto simp: clamped_def clamp_def)

lemma clamped_le: "v \<le> hi \<Longrightarrow> v \<le> clamped v lo hi"
  by (auto simp: clamped_def clamp_def)

lemma clamped_ge: "lo \<le> v \<Longrightarrow> clamped v lo hi \<le> v"
  by (auto simp: clamped_def clamp_def)

text \<open>A side with room keeps the box beyond that side of the square, whatever the clamp does.\<close>

lemma corner_choice_avoids:
  assumes "corner_choice w h g (sl, st, sr, sb) (ql, qt, qr, qb) = (x, y)" "0 \<le> g" "0 < w" "0 < h"
    and "qr + g + w \<le> sr \<or> sl \<le> ql - g - w \<or> qb + g + h \<le> sb \<or> st \<le> qt - g - h"
  shows "qr \<le> x \<or> x + w \<le> ql \<or> qb \<le> y \<or> y + h \<le> qt"
proof (cases "qr + g + w \<le> sr")
  case True
  then have "x = clamped (qr + g) sl (sr - w)" using assms(1) by (simp add: corner_choice_def)
  then show ?thesis using clamped_le [of "qr + g" "sr - w" sl] True assms(2) by linarith
next
  case right: False
  show ?thesis
  proof (cases "sl \<le> ql - g - w")
    case True
    then have "x = clamped (ql - g - w) sl (sr - w)" using assms(1) right by (simp add: corner_choice_def)
    then show ?thesis using clamped_ge [of sl "ql - g - w" "sr - w"] True assms(2) by linarith
  next
    case left: False
    show ?thesis
    proof (cases "qb + g + h \<le> sb")
      case True
      then have "y = clamped (qb + g) st (sb - h)" using assms(1) right left by (simp add: corner_choice_def)
      then show ?thesis using clamped_le [of "qb + g" "sb - h" st] True assms(2) by linarith
    next
      case False
      then have "y = clamped (qt - g - h) st (sb - h)"
        using assms(1,5) right left by (simp add: corner_choice_def)
      then show ?thesis using clamped_ge [of st "qt - g - h" "sb - h"] False right left assms(2,5) by linarith
    qed
  qed
qed

lemma clamped_small:
  "\<bar>v\<bar> \<le> n \<Longrightarrow> \<bar>lo\<bar> \<le> n \<Longrightarrow> \<bar>hi\<bar> \<le> n \<Longrightarrow> \<bar>clamped v lo hi\<bar> \<le> n"
  by (simp add: clamped_def clamp_def)

lemma corner_choice_small:
  assumes "corner_choice w h g (sl, st, sr, sb) (ql, qt, qr, qb) = (x, y)"
    and "\<bar>sl\<bar> \<le> n" "\<bar>st\<bar> \<le> n" "\<bar>sr\<bar> \<le> n" "\<bar>sb\<bar> \<le> n" "\<bar>ql\<bar> \<le> n" "\<bar>qt\<bar> \<le> n" "\<bar>qr\<bar> \<le> n" "\<bar>qb\<bar> \<le> n"
    and "0 \<le> g" "0 < w" "0 < h"
  shows "\<bar>x\<bar> \<le> n + g + w" and "\<bar>y\<bar> \<le> n + g + h"
proof -
  obtain u v where u: "x = clamped u sl (sr - w)" "u \<in> {qr + g, ql - g - w, ql}"
    and v: "y = clamped v st (sb - h)" "v \<in> {qb + g, qt - g - h}"
    using assms(1) unfolding corner_choice_def Let_def by (auto split: if_splits)
  have "\<bar>qr + g\<bar> \<le> n + g + w" "\<bar>ql - g - w\<bar> \<le> n + g + w" "\<bar>ql\<bar> \<le> n + g + w"
    "\<bar>qb + g\<bar> \<le> n + g + h" "\<bar>qt - g - h\<bar> \<le> n + g + h"
    using assms(2-) by linarith+
  then have "\<bar>u\<bar> \<le> n + g + w" "\<bar>v\<bar> \<le> n + g + h" using u(2) v(2) by auto
  moreover have "\<bar>sl\<bar> \<le> n + g + w" "\<bar>sr - w\<bar> \<le> n + g + w" "\<bar>st\<bar> \<le> n + g + h" "\<bar>sb - h\<bar> \<le> n + g + h"
    using assms(2-) by linarith+
  ultimately show "\<bar>x\<bar> \<le> n + g + w" "\<bar>y\<bar> \<le> n + g + h"
    unfolding u(1) v(1) by (blast intro: clamped_small)+
qed

lemma corner_choice_within:
  assumes "corner_choice w h g (sl, st, sr, sb) (ql, qt, qr, qb) = (x, y)"
  shows "w \<le> sr - sl \<Longrightarrow> sl \<le> x \<and> x + w \<le> sr" and "h \<le> sb - st \<Longrightarrow> st \<le> y \<and> y + h \<le> sb"
proof -
  have x: "\<exists>v. x = clamped v sl (sr - w)" and y: "\<exists>v. y = clamped v st (sb - h)"
    using assms by (auto simp: corner_choice_def Let_def split: if_splits)
  show "sl \<le> x \<and> x + w \<le> sr" if "w \<le> sr - sl"
  proof -
    have "sl \<le> sr - w" using that by linarith
    then show ?thesis using x clamped_within [of sl "sr - w"] by (metis le_diff_eq)
  qed
  show "st \<le> y \<and> y + h \<le> sb" if "h \<le> sb - st"
  proof -
    have "st \<le> sb - h" using that by linarith
    then show ?thesis using y clamped_within [of st "sb - h"] by (metis le_diff_eq)
  qed
qed

lemma loupe_layout_core:
  assumes "dpi_ok m" "small_rect 1000000000 monitor" "small 1000000000 (pt_x p)" "small 1000000000 (pt_y p)"
  defines "t \<equiv> loupe_tokens_new m"
  defines "b \<equiv> loupe_bounds (layout_loupe monitor p t)" and "safe \<equiv> loupe_safe monitor t"
  shows "loupe_room monitor p t \<Longrightarrow> \<not> intersects b (loupe_square p)"
    and "sint (outer_width t) \<le> sint (ui_right safe) - sint (ui_left safe) \<Longrightarrow>
      sint (ui_left safe) \<le> sint (ui_left b) \<and> sint (ui_right b) \<le> sint (ui_right safe)"
    and "sint (outer_height t) \<le> sint (ui_bottom safe) - sint (ui_top safe) \<Longrightarrow>
      sint (ui_top safe) \<le> sint (ui_top b) \<and> sint (ui_bottom b) \<le> sint (ui_bottom safe)"
    and "sint (ui_right b) = sint (ui_left b) + sint (outer_width t)"
    and "sint (ui_bottom b) = sint (ui_top b) + sint (outer_height t)"
proof -
  have le: "0 \<le> scaled m a" "scaled m a \<le> 682657" if "0 \<le> a" "a \<le> 1000" for a
    using that assms(1) scaled_nonneg scaled_le by auto
  note sizes = loupe_sizes [OF assms(1), folded t_def]
  define w where "w = sint (outer_width t)"
  define h where "h = sint (outer_height t)"
  define g where "g = sint (loupe_gap t)"
  define i where "i = sint (loupe_inset t)"
  have w: "0 < w" "w \<le> 30000000" and h: "0 < h" "h \<le> 30000000"
    and g: "0 \<le> g" "g \<le> 1000000" and i: "0 \<le> i" "i \<le> 1000000"
    using le [of 6] le [of 20] le [of 24] le [of 8] by (simp_all add: w_def h_def g_def i_def sizes)
  have m: "- 1000000000 \<le> sint (ui_left monitor)" "sint (ui_left monitor) \<le> 1000000000"
    "- 1000000000 \<le> sint (ui_top monitor)" "sint (ui_top monitor) \<le> 1000000000"
    "- 1000000000 \<le> sint (ui_right monitor)" "sint (ui_right monitor) \<le> 1000000000"
    "- 1000000000 \<le> sint (ui_bottom monitor)" "sint (ui_bottom monitor) \<le> 1000000000"
    using assms(2) by (simp_all add: small_rect_def small_def)
  have q: "- 1000000000 \<le> sint (pt_x p)" "sint (pt_x p) \<le> 1000000000"
    "- 1000000000 \<le> sint (pt_y p)" "sint (pt_y p) \<le> 1000000000"
    using assms(3,4) by (simp_all add: small_def)
  note safe_ints = loupe_safe_ints [OF assms(2), of t, folded safe_def i_def, OF i]
  note sq = loupe_square_ints [OF assms(3,4)]
  have "small_rect 1100000000 safe" "small_rect 1100000000 (loupe_square p)"
    using m q i by (simp_all add: small_rect_def small_def safe_ints sq)
  note corner = loupe_corner_ints [OF this, of t, folded w_def h_def g_def, OF less_imp_le [OF w(1)] w(2)
      less_imp_le [OF h(1)] h(2) g]
  define c where "c = loupe_corner safe (loupe_square p) t"
  have choice: "corner_choice w h g
      (sint (ui_left safe), sint (ui_top safe), sint (ui_right safe), sint (ui_bottom safe))
      (sint (pt_x p) - 15, sint (pt_y p) - 15, sint (pt_x p) + 16, sint (pt_y p) + 16) =
      (sint (fst c), sint (snd c))"
    using corner by (simp add: sq c_def map_prod_def split_beta)
  have b: "ui_left b = fst c" "ui_top b = snd c" "ui_right b = sadd (fst c) (outer_width t)"
    "ui_bottom b = sadd (snd c) (outer_height t)"
    by (simp_all add: b_def c_def layout_loupe_bounds safe_def Let_def)
  have lim: "\<bar>sint (ui_left safe)\<bar> \<le> 1100000000" "\<bar>sint (ui_top safe)\<bar> \<le> 1100000000"
    "\<bar>sint (ui_right safe)\<bar> \<le> 1100000000" "\<bar>sint (ui_bottom safe)\<bar> \<le> 1100000000"
    "\<bar>sint (pt_x p) - 15\<bar> \<le> 1100000000" "\<bar>sint (pt_y p) - 15\<bar> \<le> 1100000000"
    "\<bar>sint (pt_x p) + 16\<bar> \<le> 1100000000" "\<bar>sint (pt_y p) + 16\<bar> \<le> 1100000000"
    unfolding safe_ints using m q i by (simp_all add: abs_le_iff)
  have "\<bar>sint (fst c)\<bar> \<le> 1100000000 + g + w" "\<bar>sint (snd c)\<bar> \<le> 1100000000 + g + h"
    using corner_choice_small [OF choice lim g(1) w(1) h(1)] by simp_all
  then have "- 2147483648 \<le> sint (fst c) + w" "sint (fst c) + w \<le> 2147483647"
    "- 2147483648 \<le> sint (snd c) + h" "sint (snd c) + h \<le> 2147483647"
    using w h g unfolding abs_le_iff by linarith+
  then have x: "sint (ui_right b) = sint (ui_left b) + w" and y: "sint (ui_bottom b) = sint (ui_top b) + h"
    by (simp_all add: b sadd_exact w_def h_def)
  then show "sint (ui_right b) = sint (ui_left b) + sint (outer_width t)"
    "sint (ui_bottom b) = sint (ui_top b) + sint (outer_height t)"
    by (simp_all add: w_def h_def)
  show "sint (outer_width t) \<le> sint (ui_right safe) - sint (ui_left safe) \<Longrightarrow>
      sint (ui_left safe) \<le> sint (ui_left b) \<and> sint (ui_right b) \<le> sint (ui_right safe)"
    using corner_choice_within(1) [OF choice] x by (simp add: b w_def)
  show "sint (outer_height t) \<le> sint (ui_bottom safe) - sint (ui_top safe) \<Longrightarrow>
      sint (ui_top safe) \<le> sint (ui_top b) \<and> sint (ui_bottom b) \<le> sint (ui_bottom safe)"
    using corner_choice_within(2) [OF choice] y by (simp add: b h_def)
  show "\<not> intersects b (loupe_square p)" if "loupe_room monitor p t"
  proof -
    have "sint (pt_x p) + 16 + g + w \<le> sint (ui_right safe) \<or> sint (ui_left safe) \<le> sint (pt_x p) - 15 - g - w \<or>
        sint (pt_y p) + 16 + g + h \<le> sint (ui_bottom safe) \<or> sint (ui_top safe) \<le> sint (pt_y p) - 15 - g - h"
      using that by (simp add: loupe_room_def Let_def safe_ints w_def h_def g_def i_def)
    from corner_choice_avoids [OF choice g(1) w(1) h(1) this]
    show ?thesis by (auto simp: intersects_def sq x y) (simp_all add: b)
  qed
qed

definition ui_within :: "ui_rect \<Rightarrow> ui_rect \<Rightarrow> bool" where
  "ui_within r s \<longleftrightarrow> sint (ui_left s) \<le> sint (ui_left r) \<and> sint (ui_top s) \<le> sint (ui_top r) \<and>
     sint (ui_right r) \<le> sint (ui_right s) \<and> sint (ui_bottom r) \<le> sint (ui_bottom s)"

definition loupe_fits :: "ui_rect \<Rightarrow> loupe_tokens \<Rightarrow> bool" where
  "loupe_fits safe t \<longleftrightarrow>
     sint (outer_width t) \<le> sint (ui_right safe) - sint (ui_left safe) \<and>
     sint (outer_height t) \<le> sint (ui_bottom safe) - sint (ui_top safe)"

text \<open>C28: for a pointer anywhere, on the monitor or off it, the magnifier does not overlap the square
  of pixels it magnifies whenever one side of that square has room for it inside the inset monitor
  (the final clamp never brings an overlap back), and it stays inside the inset monitor whenever it
  fits there at all.\<close>

theorem loupe_avoids_its_source:
  assumes "dpi_ok m" "small_rect 1000000000 monitor" "small 1000000000 (pt_x p)" "small 1000000000 (pt_y p)"
  shows "(loupe_room monitor p (loupe_tokens_new m) \<longrightarrow>
      \<not> intersects (loupe_bounds (layout_loupe monitor p (loupe_tokens_new m)))
          (loupe_source (layout_loupe monitor p (loupe_tokens_new m)))) \<and>
    (loupe_fits (loupe_safe monitor (loupe_tokens_new m)) (loupe_tokens_new m) \<longrightarrow>
      ui_within (loupe_bounds (layout_loupe monitor p (loupe_tokens_new m)))
        (loupe_safe monitor (loupe_tokens_new m)))"
  using loupe_layout_core(1-3) [OF assms]
  by (simp add: loupe_fits_def ui_within_def layout_loupe_bounds(2))

definition sample_monitor :: ui_rect where
  "sample_monitor = \<lparr>ui_left = 0, ui_top = 0, ui_right = 1920, ui_bottom = 1080\<rparr>"

definition sample_metrics :: ui_metrics where
  "sample_metrics = metrics_new 144"

lemma loupe_avoids_its_source_witness:
  "loupe_room sample_monitor \<lparr>pt_x = 1900, pt_y = 1070\<rparr> (loupe_tokens_new sample_metrics) \<and>
   \<not> intersects (loupe_bounds (layout_loupe sample_monitor \<lparr>pt_x = 1900, pt_y = 1070\<rparr>
         (loupe_tokens_new sample_metrics)))
       (loupe_source (layout_loupe sample_monitor \<lparr>pt_x = 1900, pt_y = 1070\<rparr> (loupe_tokens_new sample_metrics)))"
proof -
  have ok: "dpi_ok sample_metrics" by (simp add: dpi_ok_def sample_metrics_def metrics_new_def)
  have room: "loupe_room sample_monitor \<lparr>pt_x = 1900, pt_y = 1070\<rparr> (loupe_tokens_new sample_metrics)"
    by (simp add: loupe_room_def loupe_sizes [OF ok] scaled_def Let_def)
       (simp add: sample_monitor_def sample_metrics_def metrics_new_def)
  then show ?thesis
    using loupe_avoids_its_source [OF ok, of sample_monitor "\<lparr>pt_x = 1900, pt_y = 1070\<rparr>"]
    by (simp add: small_rect_def small_def sample_monitor_def)
qed

end
