(* ===== verification/Toolbar.thy ===== *)
theory Toolbar
  imports UiLayout
begin

section \<open>The toolbar and its options menu\<close>

text \<open>
  \<open>ToolbarLayout\<close> of \<open>crates/captastic-windows/src/overlay/layout.rs\<close>: where the toolbar rests,
  where each control and menu row is, and which of them a point is on.
\<close>

record display_environment =
  work_area :: ui_rect
  metrics :: ui_metrics

record toolbar_layout =
  tl_bounds :: ui_rect
  drag_handle :: ui_rect
  full_display :: ui_rect
  tl_window :: ui_rect
  tl_region :: ui_rect
  tl_options :: ui_rect
  tl_pin :: ui_rect
  tl_edit :: ui_rect
  tl_record :: ui_rect
  tl_capture :: ui_rect
  menu :: ui_rect
  row_dim_background :: ui_rect
  row_snap_to_windows :: ui_rect
  row_region_zoom :: ui_rect
  row_preview_view :: ui_rect
  row_clipboard :: ui_rect
  row_file_output :: ui_rect
  row_record_format :: ui_rect
  row_cancel :: ui_rect

definition clamp_origin :: "display_environment \<Rightarrow> point \<Rightarrow> point" where
  "clamp_origin env p =
     (let wa = work_area env; m = metrics env; inset = px m 8 in
      \<lparr>pt_x = sclamp (pt_x p) (ui_left wa + inset)
         (smax (ui_right wa - toolbar_width m - inset) (ui_left wa + inset)),
       pt_y = sclamp (pt_y p) (ui_top wa + inset)
         (smax (ui_bottom wa - toolbar_height m - inset) (ui_top wa + inset))\<rparr>)"

definition default_origin :: "display_environment \<Rightarrow> point" where
  "default_origin env =
     (let wa = work_area env; m = metrics env in
      clamp_origin env
        \<lparr>pt_x = ui_left wa + half (ui_width wa - toolbar_width m),
         pt_y = ui_bottom wa - toolbar_height m - px m TOOLBAR_BOTTOM_MARGIN\<rparr>)"

text \<open>Where the menu's top goes: above the toolbar, below it, or the roomier side, clamped.\<close>

definition menu_top :: "display_environment \<Rightarrow> ui_rect \<Rightarrow> i32" where
  "menu_top env bar =
     (let wa = work_area env; m = metrics env; menu_height = px m MENU_HEIGHT; inset = px m 8;
          gap = px m 8; above = ui_top bar - gap - menu_height; below = ui_bottom bar + gap
      in if sint (ui_top wa + inset) \<le> sint above then above
         else if sint (below + menu_height) \<le> sint (ui_bottom wa - inset) then below
         else clamp_coordinate
           (if sint (ui_bottom wa - ui_bottom bar) \<le> sint (ui_top bar - ui_top wa) then above else below)
           (ui_top wa + inset) (ui_bottom wa - menu_height - inset))"

definition toolbar_new :: "display_environment \<Rightarrow> point \<Rightarrow> toolbar_layout" where
  "toolbar_new env origin =
     (let m = metrics env; wa = work_area env; origin = clamp_origin env origin;
          left = pt_x origin; upper = pt_y origin;
          bar = \<lparr>ui_left = left, ui_top = upper, ui_right = left + toolbar_width m,
            ui_bottom = upper + toolbar_height m\<rparr>;
          control_top = upper + px m 6; control_bottom = upper + px m 50;
          control = (\<lambda>a b. \<lparr>ui_left = left + px m a, ui_top = control_top,
            ui_right = left + px m b, ui_bottom = control_bottom\<rparr>);
          options = control 184 284;
          menu_width = px m MENU_WIDTH; menu_height = px m MENU_HEIGHT; inset = px m 8;
          menu_left = sclamp (half (ui_left options + ui_right options - menu_width))
            (ui_left wa + inset) (smax (ui_right wa - menu_width - inset) (ui_left wa + inset));
          menu_upper = menu_top env bar;
          menu_rect = \<lparr>ui_left = menu_left, ui_top = menu_upper, ui_right = menu_left + menu_width,
            ui_bottom = menu_upper + menu_height\<rparr>;
          row = (\<lambda>a b. \<lparr>ui_left = ui_left menu_rect + px m 6, ui_top = ui_top menu_rect + px m a,
            ui_right = ui_right menu_rect - px m 6, ui_bottom = ui_top menu_rect + px m b\<rparr>)
      in \<lparr>tl_bounds = bar, drag_handle = control 6 30, full_display = control 34 78,
          tl_window = control 78 122, tl_region = control 122 166, tl_options = options,
          tl_pin = control 292 336, tl_edit = control 336 380, tl_record = control 380 424,
          tl_capture = control 432 552, menu = menu_rect,
          row_dim_background = row 6 46, row_snap_to_windows = row 46 86, row_region_zoom = row 86 126,
          row_preview_view = row 126 166, row_clipboard = row 166 206, row_file_output = row 206 246,
          row_record_format = row 246 286, row_cancel = row 286 326\<rparr>)"

definition hit_test :: "toolbar_layout \<Rightarrow> point \<Rightarrow> bool \<Rightarrow> toolbar_control option" where
  "hit_test l p options_open =
     (if options_open \<and> ui_contains (menu l) p then
        (if ui_contains (row_dim_background l) p then Some DimBackground
         else if ui_contains (row_snap_to_windows l) p then Some SnapToWindows
         else if ui_contains (row_region_zoom l) p then Some RegionZoomControl
         else if ui_contains (row_preview_view l) p then Some PreviewViewControl
         else if ui_contains (row_clipboard l) p then Some ClipboardDestination
         else if ui_contains (row_file_output l) p then Some FileOutputDestination
         else if ui_contains (row_record_format l) p then Some RecordFormat
         else if ui_contains (row_cancel l) p then Some Cancel
         else Some Background)
      else if \<not> ui_contains (tl_bounds l) p then None
      else if ui_contains (full_display l) p then Some FullDisplayControl
      else if ui_contains (tl_window l) p then Some WindowControl
      else if ui_contains (tl_region l) p then Some RegionControl
      else if ui_contains (tl_options l) p then Some Options
      else if ui_contains (tl_pin l) p then Some Pin
      else if ui_contains (tl_edit l) p then Some Edit
      else if ui_contains (tl_record l) p then Some Record
      else if ui_contains (tl_capture l) p then Some Capture
      else Some Background)"

subsection \<open>Reading the layout as integers\<close>

definition env_ok :: "display_environment \<Rightarrow> bool" where
  "env_ok env \<longleftrightarrow> dpi_ok (metrics env) \<and> small_rect 1000000000 (work_area env)"

lemma scaled_literals:
  assumes "dpi_ok m"
  shows "sint (px m 6) = scaled m 6" "sint (px m 8) = scaled m 8" "sint (px m 24) = scaled m 24"
    "sint (toolbar_width m) = scaled m 558" "sint (toolbar_height m) = scaled m 56"
    "sint (px m MENU_WIDTH) = scaled m 248" "sint (px m MENU_HEIGHT) = scaled m 332"
  by (simp_all add: sint_px [OF assms] toolbar_width_def toolbar_height_def TOOLBAR_WIDTH_def
      TOOLBAR_HEIGHT_def MENU_WIDTH_def MENU_HEIGHT_def)

lemma scaled_range:
  assumes "dpi_ok m" "0 \<le> a" "a \<le> 1000"
  shows "0 \<le> scaled m a" "scaled m a \<le> 682657"
  using assms scaled_nonneg scaled_le by auto

lemma small_plus: "small n a \<Longrightarrow> small k b \<Longrightarrow> n + k \<le> 2147483647 \<Longrightarrow> sint (a + b) = sint a + sint b"
  unfolding small_def by (rule sint_plus) linarith+

lemma small_minus: "small n a \<Longrightarrow> small k b \<Longrightarrow> n + k \<le> 2147483647 \<Longrightarrow> sint (a - b) = sint a - sint b"
  unfolding small_def by (rule sint_diff_in_range) linarith+

lemma small_px: "dpi_ok m \<Longrightarrow> 0 \<le> sint d \<Longrightarrow> sint d \<le> 1000 \<Longrightarrow> small 682657 (px m d)"
  using scaled_range [of m "sint d"] by (simp add: small_def sint_px)

lemma small_mono: "small n a \<Longrightarrow> n \<le> k \<Longrightarrow> small k a"
  by (simp add: small_def)

definition bar_x :: "display_environment \<Rightarrow> point \<Rightarrow> int" where
  "bar_x env p = sint (pt_x (clamp_origin env p))"

definition bar_y :: "display_environment \<Rightarrow> point \<Rightarrow> int" where
  "bar_y env p = sint (pt_y (clamp_origin env p))"

lemma clamp_origin_ints:
  assumes "env_ok env"
  defines "wa \<equiv> work_area env" and "m \<equiv> metrics env"
  shows "bar_x env p = clamp (sint (pt_x p)) (sint (ui_left wa) + scaled m 8)
      (max (sint (ui_right wa) - scaled m 558 - scaled m 8) (sint (ui_left wa) + scaled m 8))"
    and "bar_y env p = clamp (sint (pt_y p)) (sint (ui_top wa) + scaled m 8)
      (max (sint (ui_bottom wa) - scaled m 56 - scaled m 8) (sint (ui_top wa) + scaled m 8))"
proof -
  have m: "dpi_ok m" and wa: "small 1000000000 (ui_left wa)" "small 1000000000 (ui_top wa)"
    "small 1000000000 (ui_right wa)" "small 1000000000 (ui_bottom wa)"
    using assms by (simp_all add: env_ok_def small_rect_def)
  have s: "small 682657 (px m 8)" "small 682657 (toolbar_width m)" "small 682657 (toolbar_height m)"
    using m by (simp_all add: small_px toolbar_width_def toolbar_height_def TOOLBAR_WIDTH_def TOOLBAR_HEIGHT_def)
  have d: "small 1000682657 (ui_right wa - toolbar_width m)" "small 1000682657 (ui_bottom wa - toolbar_height m)"
    using wa(3,4) s(2,3) by (simp_all add: small_def small_minus [OF wa(3) s(2)] small_minus [OF wa(4) s(3)])
  show "bar_x env p = clamp (sint (pt_x p)) (sint (ui_left wa) + scaled m 8)
      (max (sint (ui_right wa) - scaled m 558 - scaled m 8) (sint (ui_left wa) + scaled m 8))"
    and "bar_y env p = clamp (sint (pt_y p)) (sint (ui_top wa) + scaled m 8)
      (max (sint (ui_bottom wa) - scaled m 56 - scaled m 8) (sint (ui_top wa) + scaled m 8))"
    using scaled_literals [OF m]
    by (simp_all add: bar_x_def bar_y_def clamp_origin_def Let_def signed_simps wa_def [symmetric] m_def [symmetric]
        small_plus [OF wa(1) s(1)] small_plus [OF wa(2) s(1)] small_minus [OF d(1) s(1)]
        small_minus [OF d(2) s(1)] small_minus [OF wa(3) s(2)] small_minus [OF wa(4) s(3)])
qed

lemma clamp_origin_small:
  assumes "env_ok env"
  shows "small 1001365314 (pt_x (clamp_origin env p))" "small 1001365314 (pt_y (clamp_origin env p))"
proof -
  have m: "dpi_ok (metrics env)" and wa: "small_rect 1000000000 (work_area env)"
    using assms by (simp_all add: env_ok_def)
  show "small 1001365314 (pt_x (clamp_origin env p))" "small 1001365314 (pt_y (clamp_origin env p))"
    using clamp_origin_ints [OF assms, of p] wa scaled_range [OF m, of 8] scaled_range [OF m, of 558]
      scaled_range [OF m, of 56]
    by (auto simp: small_def small_rect_def bar_x_def bar_y_def clamp_def max_def)
qed

lemma sint_bar:
  assumes "env_ok env" "0 \<le> sint d" "sint d \<le> 1000"
  shows "sint (pt_x (clamp_origin env p) + px (metrics env) d) = bar_x env p + scaled (metrics env) (sint d)"
    and "sint (pt_y (clamp_origin env p) + px (metrics env) d) = bar_y env p + scaled (metrics env) (sint d)"
proof -
  have m: "dpi_ok (metrics env)" using assms(1) by (simp add: env_ok_def)
  note d = small_px [OF m assms(2,3)]
  show "sint (pt_x (clamp_origin env p) + px (metrics env) d) = bar_x env p + scaled (metrics env) (sint d)"
    using small_plus [OF clamp_origin_small(1) [OF assms(1)] d] sint_px [OF m assms(2,3)]
    by (simp add: bar_x_def)
  show "sint (pt_y (clamp_origin env p) + px (metrics env) d) = bar_y env p + scaled (metrics env) (sint d)"
    using small_plus [OF clamp_origin_small(2) [OF assms(1)] d] sint_px [OF m assms(2,3)]
    by (simp add: bar_y_def)
qed

text \<open>A control spans a range of the bar, a row a range of the menu.\<close>

definition in_control :: "display_environment \<Rightarrow> point \<Rightarrow> int \<Rightarrow> int \<Rightarrow> point \<Rightarrow> bool" where
  "in_control env origin a b p \<longleftrightarrow>
     (let m = metrics env; x = sint (pt_x p) - bar_x env origin; y = sint (pt_y p) - bar_y env origin in
      scaled m a \<le> x \<and> x < scaled m b \<and> scaled m 6 \<le> y \<and> y < scaled m 50)"

lemma bar_controls:
  fixes origin
  assumes "env_ok env"
  defines "l \<equiv> toolbar_new env origin"
  shows "ui_contains (full_display l) p \<longleftrightarrow> in_control env origin 34 78 p"
    "ui_contains (tl_window l) p \<longleftrightarrow> in_control env origin 78 122 p"
    "ui_contains (tl_region l) p \<longleftrightarrow> in_control env origin 122 166 p"
    "ui_contains (tl_options l) p \<longleftrightarrow> in_control env origin 184 284 p"
    "ui_contains (tl_pin l) p \<longleftrightarrow> in_control env origin 292 336 p"
    "ui_contains (tl_edit l) p \<longleftrightarrow> in_control env origin 336 380 p"
    "ui_contains (tl_record l) p \<longleftrightarrow> in_control env origin 380 424 p"
    "ui_contains (tl_capture l) p \<longleftrightarrow> in_control env origin 432 552 p"
  by (auto simp: l_def toolbar_new_def Let_def ui_contains_def in_control_def sint_bar [OF assms(1)])

lemma bar_bounds:
  assumes "env_ok env"
  shows "ui_contains (tl_bounds (toolbar_new env origin)) p \<longleftrightarrow>
    (let m = metrics env; x = sint (pt_x p) - bar_x env origin; y = sint (pt_y p) - bar_y env origin in
     0 \<le> x \<and> x < scaled m 558 \<and> 0 \<le> y \<and> y < scaled m 56)"
  using sint_bar [OF assms, of TOOLBAR_WIDTH] sint_bar [OF assms, of TOOLBAR_HEIGHT]
  by (auto simp: toolbar_new_def Let_def ui_contains_def toolbar_width_def toolbar_height_def
      TOOLBAR_WIDTH_def TOOLBAR_HEIGHT_def bar_x_def bar_y_def)

subsection \<open>Every control answers on exactly its own rectangle\<close>

text \<open>The control or row a point is on, among labelled ranges.\<close>

type_synonym spans = "(toolbar_control \<times> int \<times> int) list"

definition on_span :: "(int \<Rightarrow> int \<Rightarrow> bool) \<Rightarrow> spans \<Rightarrow> toolbar_control" where
  "on_span inside xs =
     (case find (\<lambda>(c, a, b). inside a b) xs of None \<Rightarrow> Background | Some (c, _) \<Rightarrow> c)"

lemma on_span_eq:
  assumes "sorted_wrt (\<lambda>(_, a, b) (_, a', b'). b \<le> a') xs" "distinct (Background # map fst xs)"
    and disjoint: "\<And>a b a' b'. b \<le> a' \<Longrightarrow> inside a b \<Longrightarrow> \<not> inside a' b'"
    and x: "(c, a, b) \<in> set xs"
  shows "on_span inside xs = c \<longleftrightarrow> inside a b"
proof
  assume c: "on_span inside xs = c"
  have "c \<noteq> Background" using assms(2) x by force
  with c obtain a' b' where "find (\<lambda>(c, a, b). inside a b) xs = Some (c, a', b')"
    by (auto simp: on_span_def split: option.splits)
  then have "(c, a', b') \<in> set xs" "inside a' b'"
    by (auto simp: find_Some_iff in_set_conv_nth)
  moreover have "distinct (map fst xs)" using assms(2) by simp
  ultimately show "inside a b"
    using x by (metis Pair_inject eq_key_imp_eq_value)
next
  assume i: "inside a b"
  then obtain c' a' b' where f: "find (\<lambda>(c, a, b). inside a b) xs = Some (c', a', b')"
    using x by (cases "find (\<lambda>(c, a, b). inside a b) xs") (auto simp: find_None_iff)
  then have "(c', a', b') \<in> set xs" and i': "inside a' b'"
    by (auto simp: find_Some_iff in_set_conv_nth)
  then obtain j k where "j < length xs" "xs ! j = (c, a, b)" "k < length xs" "xs ! k = (c', a', b')"
    using x by (metis in_set_conv_nth)
  moreover have "\<not> j < k" "\<not> k < j"
    using assms(1) disjoint i i' calculation unfolding sorted_wrt_iff_nth_less by fastforce+
  ultimately have "(c', a', b') = (c, a, b)" by (metis linorder_neqE_nat)
  then show "on_span inside xs = c" using f by (simp add: on_span_def)
qed

definition bar_spans :: spans where
  "bar_spans = [(FullDisplayControl, 34, 78), (WindowControl, 78, 122), (RegionControl, 122, 166),
     (Options, 184, 284), (Pin, 292, 336), (Edit, 336, 380), (Record, 380, 424), (Capture, 432, 552)]"

definition bar_buttons :: "toolbar_layout \<Rightarrow> (toolbar_control \<times> ui_rect) list" where
  "bar_buttons l =
     [(FullDisplayControl, full_display l), (WindowControl, tl_window l), (RegionControl, tl_region l),
      (Options, tl_options l), (Pin, tl_pin l), (Edit, tl_edit l), (Record, tl_record l),
      (Capture, tl_capture l)]"

lemma hit_test_bar:
  assumes "env_ok env"
  shows "hit_test (toolbar_new env origin) p False =
    (if ui_contains (tl_bounds (toolbar_new env origin)) p
     then Some (on_span (\<lambda>a b. in_control env origin a b p) bar_spans) else None)"
  by (simp add: hit_test_def bar_controls [OF assms] on_span_def bar_spans_def)

lemma in_control_disjoint:
  assumes "env_ok env" "b \<le> a'" "in_control env origin a b p"
  shows "\<not> in_control env origin a' b' p"
  using assms(3) scaled_mono [of "metrics env" b a'] assms(1,2)
  by (auto simp: in_control_def Let_def env_ok_def dpi_ok_def)

lemma in_control_bounds:
  assumes "env_ok env" "in_control env origin a b p" "0 \<le> a" "b \<le> 558"
  shows "ui_contains (tl_bounds (toolbar_new env origin)) p"
proof -
  have d: "0 < uint (dpi (metrics env))" using assms(1) by (simp add: env_ok_def dpi_ok_def)
  have "0 \<le> scaled (metrics env) a" "scaled (metrics env) b \<le> scaled (metrics env) 558"
    "scaled (metrics env) 50 \<le> scaled (metrics env) 56" "0 \<le> scaled (metrics env) 6"
    using scaled_nonneg scaled_mono [OF d] assms(3,4) by simp_all
  then show ?thesis
    using assms(2) unfolding bar_bounds [OF assms(1)] in_control_def Let_def by linarith
qed

lemma list_all2_member: "list_all2 P xs ys \<Longrightarrow> x \<in> set xs \<Longrightarrow> \<exists>y\<in>set ys. P x y"
  by (metis in_set_conv_nth list_all2_conv_all_nth)

lemma bar_hit:
  assumes "env_ok env" "(c, r) \<in> set (bar_buttons (toolbar_new env origin))"
  shows "hit_test (toolbar_new env origin) p False = Some c \<longleftrightarrow> ui_contains r p"
proof -
  have "list_all2 (\<lambda>(c, r) (c', a, b). c = c' \<and> (ui_contains r p \<longleftrightarrow> in_control env origin a b p))
      (bar_buttons (toolbar_new env origin)) bar_spans"
    by (simp add: bar_buttons_def bar_spans_def bar_controls [OF assms(1)])
  then obtain a b where x: "(c, a, b) \<in> set bar_spans" and r: "ui_contains r p \<longleftrightarrow> in_control env origin a b p"
    using list_all2_member [OF _ assms(2)] by blast
  have "0 \<le> a \<and> b \<le> 558" using x unfolding bar_spans_def by force
  moreover have "on_span (\<lambda>a b. in_control env origin a b p) bar_spans = c \<longleftrightarrow> in_control env origin a b p"
    by (rule on_span_eq [OF _ _ _ x]) (use in_control_disjoint [OF assms(1)] in \<open>auto simp: bar_spans_def\<close>)
  ultimately show ?thesis
    using in_control_bounds [OF assms(1), of origin a b p] by (auto simp: hit_test_bar [OF assms(1)] r)
qed

subsection \<open>The options menu\<close>

lemma clamp_coordinate_small:
  "small n v \<Longrightarrow> small n lo \<Longrightarrow> small n hi \<Longrightarrow> small n (clamp_coordinate v lo hi)"
  by (auto simp: small_def sint_clamp_coordinate clamp_def)

lemma menu_corner_small:
  assumes "env_ok env"
  shows "small 1100000000 (ui_left (menu (toolbar_new env origin)))"
    and "small 1100000000 (ui_top (menu (toolbar_new env origin)))"
proof -
  let ?m = "metrics env" and ?wa = "work_area env"
  have m: "dpi_ok ?m" and wa: "small 1000000000 (ui_left ?wa)" "small 1000000000 (ui_top ?wa)"
    "small 1000000000 (ui_right ?wa)" "small 1000000000 (ui_bottom ?wa)"
    using assms by (simp_all add: env_ok_def small_rect_def)
  have s: "small 682657 (px ?m 8)" "small 682657 (px ?m MENU_WIDTH)" "small 682657 (px ?m MENU_HEIGHT)"
    "small 682657 (toolbar_height ?m)"
    using m by (simp_all add: small_px MENU_WIDTH_def MENU_HEIGHT_def toolbar_height_def TOOLBAR_HEIGHT_def)
  have add: "small (n + k) (a + b)" if "small n a" "small k b" "n + k \<le> 2147483647" for n k and a b :: i32
    using that small_plus [OF that] by (simp add: small_def)
  have sub: "small (n + k) (a - b)" if "small n a" "small k b" "n + k \<le> 2147483647" for n k and a b :: i32
    using that small_minus [OF that] by (simp add: small_def)
  let ?y = "pt_y (clamp_origin env origin)"
  note y = clamp_origin_small(2) [OF assms, of origin]
  have lo: "small 1000682657 (ui_left ?wa + px ?m 8)" "small 1000682657 (ui_top ?wa + px ?m 8)"
    using add [OF wa(1) s(1)] add [OF wa(2) s(1)] by simp_all
  have hi: "small 1001365314 (ui_right ?wa - px ?m MENU_WIDTH - px ?m 8)"
    "small 1001365314 (ui_bottom ?wa - px ?m MENU_HEIGHT - px ?m 8)"
    using sub [OF sub [OF wa(3) s(2)] s(1)] sub [OF sub [OF wa(4) s(3)] s(1)] by simp_all
  have over: "small 1002730628 (?y - px ?m 8 - px ?m MENU_HEIGHT)"
    and below: "small 1002730628 (?y + toolbar_height ?m + px ?m 8)"
    using sub [OF sub [OF y s(1)] s(3)] add [OF add [OF y s(4)] s(1)] by simp_all
  have "\<exists>v. sint (ui_left (menu (toolbar_new env origin))) = clamp v (sint (ui_left ?wa + px ?m 8))
      (max (sint (ui_right ?wa - px ?m MENU_WIDTH - px ?m 8)) (sint (ui_left ?wa + px ?m 8)))"
    by (simp add: toolbar_new_def Let_def signed_simps) blast
  then have "sint (ui_left ?wa + px ?m 8) \<le> sint (ui_left (menu (toolbar_new env origin)))"
    "sint (ui_left (menu (toolbar_new env origin))) \<le>
      max (sint (ui_right ?wa - px ?m MENU_WIDTH - px ?m 8)) (sint (ui_left ?wa + px ?m 8))"
    by (metis clamp_bounds max.cobounded2)+
  then show "small 1100000000 (ui_left (menu (toolbar_new env origin)))"
    using lo(1) hi(1) unfolding small_def by linarith
  have "ui_top (menu (toolbar_new env origin)) \<in>
      {?y - px ?m 8 - px ?m MENU_HEIGHT, ?y + toolbar_height ?m + px ?m 8,
       clamp_coordinate (?y - px ?m 8 - px ?m MENU_HEIGHT) (ui_top ?wa + px ?m 8)
         (ui_bottom ?wa - px ?m MENU_HEIGHT - px ?m 8),
       clamp_coordinate (?y + toolbar_height ?m + px ?m 8) (ui_top ?wa + px ?m 8)
         (ui_bottom ?wa - px ?m MENU_HEIGHT - px ?m 8)}"
    by (simp add: toolbar_new_def Let_def menu_top_def)
  moreover have "small 1100000000 (clamp_coordinate v (ui_top ?wa + px ?m 8)
      (ui_bottom ?wa - px ?m MENU_HEIGHT - px ?m 8))" if "small 1002730628 v" for v
    using lo(2) hi(2) that by (intro clamp_coordinate_small) (auto elim: small_mono)
  ultimately show "small 1100000000 (ui_top (menu (toolbar_new env origin)))"
    using over below small_mono [OF over, of 1100000000] small_mono [OF below, of 1100000000] by auto
qed

definition in_row :: "display_environment \<Rightarrow> point \<Rightarrow> int \<Rightarrow> int \<Rightarrow> point \<Rightarrow> bool" where
  "in_row env origin a b p \<longleftrightarrow>
     (let m = metrics env; corner = menu (toolbar_new env origin);
          x = sint (pt_x p) - sint (ui_left corner); y = sint (pt_y p) - sint (ui_top corner) in
      scaled m 6 \<le> x \<and> x < scaled m 248 - scaled m 6 \<and> scaled m a \<le> y \<and> y < scaled m b)"

lemma sint_menu:
  fixes origin
  assumes "env_ok env" "0 \<le> sint d" "sint d \<le> 1000"
  defines "c \<equiv> menu (toolbar_new env origin)"
  shows "sint (ui_left c + px (metrics env) d) = sint (ui_left c) + scaled (metrics env) (sint d)"
    and "sint (ui_top c + px (metrics env) d) = sint (ui_top c) + scaled (metrics env) (sint d)"
proof -
  have m: "dpi_ok (metrics env)" using assms(1) by (simp add: env_ok_def)
  note d = small_px [OF m assms(2,3)]
  show "sint (ui_left c + px (metrics env) d) = sint (ui_left c) + scaled (metrics env) (sint d)"
    using small_plus [OF menu_corner_small(1) [OF assms(1)] d] sint_px [OF m assms(2,3)] by (simp add: c_def)
  show "sint (ui_top c + px (metrics env) d) = sint (ui_top c) + scaled (metrics env) (sint d)"
    using small_plus [OF menu_corner_small(2) [OF assms(1)] d] sint_px [OF m assms(2,3)] by (simp add: c_def)
qed

lemma menu_sides:
  fixes origin
  assumes "env_ok env"
  defines "c \<equiv> menu (toolbar_new env origin)" and "m \<equiv> metrics env"
  shows "sint (ui_right c) = sint (ui_left c) + scaled m 248" "sint (ui_bottom c) = sint (ui_top c) + scaled m 332"
    "sint (ui_right c - px m 6) = sint (ui_left c) + scaled m 248 - scaled m 6"
proof -
  have c: "ui_right c = ui_left c + px m MENU_WIDTH" "ui_bottom c = ui_top c + px m MENU_HEIGHT"
    by (simp_all add: c_def m_def toolbar_new_def Let_def)
  show r: "sint (ui_right c) = sint (ui_left c) + scaled m 248" "sint (ui_bottom c) = sint (ui_top c) + scaled m 332"
    using sint_menu [OF assms(1), of MENU_WIDTH origin] sint_menu [OF assms(1), of MENU_HEIGHT origin]
    unfolding c by (simp_all add: c_def m_def MENU_WIDTH_def MENU_HEIGHT_def)
  have ok: "dpi_ok m" using assms(1) by (simp add: env_ok_def m_def)
  have right: "small 1100682657 (ui_right c)"
    using menu_corner_small(1) [OF assms(1), of origin] r(1) scaled_range [OF ok, of 248]
    by (simp add: small_def c_def)
  have "small 682657 (px m 6)" using small_px [OF ok, of 6] by simp
  from small_minus [OF right this]
  show "sint (ui_right c - px m 6) = sint (ui_left c) + scaled m 248 - scaled m 6"
    using r(1) scaled_literals(1) [OF ok] by simp
qed

lemma menu_rows_ints:
  fixes origin
  assumes "env_ok env"
  defines "l \<equiv> toolbar_new env origin"
  shows "ui_contains (row_dim_background l) p \<longleftrightarrow> in_row env origin 6 46 p"
    "ui_contains (row_snap_to_windows l) p \<longleftrightarrow> in_row env origin 46 86 p"
    "ui_contains (row_region_zoom l) p \<longleftrightarrow> in_row env origin 86 126 p"
    "ui_contains (row_preview_view l) p \<longleftrightarrow> in_row env origin 126 166 p"
    "ui_contains (row_clipboard l) p \<longleftrightarrow> in_row env origin 166 206 p"
    "ui_contains (row_file_output l) p \<longleftrightarrow> in_row env origin 206 246 p"
    "ui_contains (row_record_format l) p \<longleftrightarrow> in_row env origin 246 286 p"
    "ui_contains (row_cancel l) p \<longleftrightarrow> in_row env origin 286 326 p"
proof -
  let ?c = "menu l" and ?m = "metrics env"
  define row where "row = (\<lambda>a b. \<lparr>ui_left = ui_left ?c + px ?m 6, ui_top = ui_top ?c + px ?m a,
     ui_right = ui_right ?c - px ?m 6, ui_bottom = ui_top ?c + px ?m b\<rparr>)"
  have rows: "row_dim_background l = row 6 46" "row_snap_to_windows l = row 46 86"
    "row_region_zoom l = row 86 126" "row_preview_view l = row 126 166" "row_clipboard l = row 166 206"
    "row_file_output l = row 206 246" "row_record_format l = row 246 286" "row_cancel l = row 286 326"
    by (simp_all add: row_def l_def toolbar_new_def Let_def)
  have "ui_contains (row a b) p \<longleftrightarrow> in_row env origin (sint a) (sint b) p"
    if "0 \<le> sint a" "sint a \<le> 1000" "0 \<le> sint b" "sint b \<le> 1000" for a b
    using sint_menu [OF assms(1), of 6 origin] sint_menu [OF assms(1) that(1,2), of origin]
      sint_menu [OF assms(1) that(3,4), of origin] menu_sides(3) [OF assms(1), of origin]
    by (auto simp: row_def ui_contains_def in_row_def Let_def l_def)
  from this [of 6 46] this [of 46 86] this [of 86 126] this [of 126 166] this [of 166 206]
    this [of 206 246] this [of 246 286] this [of 286 326]
  show "ui_contains (row_dim_background l) p \<longleftrightarrow> in_row env origin 6 46 p"
    "ui_contains (row_snap_to_windows l) p \<longleftrightarrow> in_row env origin 46 86 p"
    "ui_contains (row_region_zoom l) p \<longleftrightarrow> in_row env origin 86 126 p"
    "ui_contains (row_preview_view l) p \<longleftrightarrow> in_row env origin 126 166 p"
    "ui_contains (row_clipboard l) p \<longleftrightarrow> in_row env origin 166 206 p"
    "ui_contains (row_file_output l) p \<longleftrightarrow> in_row env origin 206 246 p"
    "ui_contains (row_record_format l) p \<longleftrightarrow> in_row env origin 246 286 p"
    "ui_contains (row_cancel l) p \<longleftrightarrow> in_row env origin 286 326 p"
    by (simp_all add: rows)
qed

definition row_spans :: spans where
  "row_spans = [(DimBackground, 6, 46), (SnapToWindows, 46, 86), (RegionZoomControl, 86, 126),
     (PreviewViewControl, 126, 166), (ClipboardDestination, 166, 206), (FileOutputDestination, 206, 246),
     (RecordFormat, 246, 286), (Cancel, 286, 326)]"

definition menu_rows :: "toolbar_layout \<Rightarrow> (toolbar_control \<times> ui_rect) list" where
  "menu_rows l =
     [(DimBackground, row_dim_background l), (SnapToWindows, row_snap_to_windows l),
      (RegionZoomControl, row_region_zoom l), (PreviewViewControl, row_preview_view l),
      (ClipboardDestination, row_clipboard l), (FileOutputDestination, row_file_output l),
      (RecordFormat, row_record_format l), (Cancel, row_cancel l)]"

lemma hit_test_menu:
  assumes "env_ok env"
  shows "hit_test (toolbar_new env origin) p True =
    (if ui_contains (menu (toolbar_new env origin)) p
     then Some (on_span (\<lambda>a b. in_row env origin a b p) row_spans)
     else hit_test (toolbar_new env origin) p False)"
  by (simp add: hit_test_def menu_rows_ints [OF assms] on_span_def row_spans_def)

lemma in_row_disjoint:
  assumes "env_ok env" "b \<le> a'" "in_row env origin a b p"
  shows "\<not> in_row env origin a' b' p"
  using assms(3) scaled_mono [of "metrics env" b a'] assms(1,2)
  by (auto simp: in_row_def Let_def env_ok_def dpi_ok_def)

lemma in_row_menu:
  assumes "env_ok env" "in_row env origin a b p" "0 \<le> a" "b \<le> 332"
  shows "ui_contains (menu (toolbar_new env origin)) p"
proof -
  have d: "0 < uint (dpi (metrics env))" using assms(1) by (simp add: env_ok_def dpi_ok_def)
  have "0 \<le> scaled (metrics env) a" "scaled (metrics env) b \<le> scaled (metrics env) 332" "0 \<le> scaled (metrics env) 6"
    using scaled_nonneg scaled_mono [OF d] assms(3,4) by simp_all
  then show ?thesis
    using assms(2) unfolding ui_contains_def menu_sides [OF assms(1)] in_row_def Let_def by linarith
qed

lemma on_span_member: "on_span inside xs \<in> insert Background (fst ` set xs)"
  by (auto simp: on_span_def find_Some_iff split: option.splits) (metis fst_conv image_eqI nth_mem)

lemma menu_hit:
  assumes "env_ok env" "(c, r) \<in> set (menu_rows (toolbar_new env origin))"
  shows "hit_test (toolbar_new env origin) p True = Some c \<longleftrightarrow> ui_contains r p"
proof -
  have "list_all2 (\<lambda>(c, r) (c', a, b). c = c' \<and> (ui_contains r p \<longleftrightarrow> in_row env origin a b p))
      (menu_rows (toolbar_new env origin)) row_spans"
    by (simp add: menu_rows_def row_spans_def menu_rows_ints [OF assms(1)])
  then obtain a b where x: "(c, a, b) \<in> set row_spans" and r: "ui_contains r p \<longleftrightarrow> in_row env origin a b p"
    using list_all2_member [OF _ assms(2)] by blast
  have "0 \<le> a \<and> b \<le> 332" using x unfolding row_spans_def by force
  moreover have "on_span (\<lambda>a b. in_row env origin a b p) row_spans = c \<longleftrightarrow> in_row env origin a b p"
    by (rule on_span_eq [OF _ _ _ x]) (use in_row_disjoint [OF assms(1)] in \<open>auto simp: row_spans_def\<close>)
  moreover have "hit_test (toolbar_new env origin) p False \<noteq> Some c"
  proof -
    have "c \<notin> insert Background (fst ` set bar_spans)"
      using x unfolding row_spans_def bar_spans_def by force
    then show ?thesis
      using on_span_member [of "\<lambda>a b. in_control env origin a b p" bar_spans]
      by (auto simp: hit_test_bar [OF assms(1)])
  qed
  ultimately show ?thesis
    using in_row_menu [OF assms(1), of origin a b p] by (auto simp: hit_test_menu [OF assms(1)] r)
qed

text \<open>C29: on any display (coordinates within a thousand million, DPI within 16 bits) every toolbar
  button answers a click exactly when the click is inside its own rectangle, every row of the open
  options menu does too, and a point outside the toolbar with the menu closed is on no control:
  rounding to pixels never makes two controls overlap or pushes one outside its bar or menu.\<close>

theorem controls_answer_their_rectangles:
  assumes "env_ok env"
  shows "(\<forall>(c, r)\<in>set (bar_buttons (toolbar_new env origin)).
      hit_test (toolbar_new env origin) p False = Some c \<longleftrightarrow> ui_contains r p) \<and>
    (\<forall>(c, r)\<in>set (menu_rows (toolbar_new env origin)).
      hit_test (toolbar_new env origin) p True = Some c \<longleftrightarrow> ui_contains r p) \<and>
    (hit_test (toolbar_new env origin) p False = None \<longleftrightarrow>
      \<not> ui_contains (tl_bounds (toolbar_new env origin)) p)"
proof (intro conjI ballI)
  fix x
  assume "x \<in> set (bar_buttons (toolbar_new env origin))"
  then show "case x of (c, r) \<Rightarrow>
      hit_test (toolbar_new env origin) p False = Some c \<longleftrightarrow> ui_contains r p"
    using bar_hit [OF assms, of "fst x" "snd x"] by (simp add: split_beta)
next
  fix x
  assume "x \<in> set (menu_rows (toolbar_new env origin))"
  then show "case x of (c, r) \<Rightarrow>
      hit_test (toolbar_new env origin) p True = Some c \<longleftrightarrow> ui_contains r p"
    using menu_hit [OF assms, of "fst x" "snd x"] by (simp add: split_beta)
next
  show "hit_test (toolbar_new env origin) p False = None \<longleftrightarrow>
      \<not> ui_contains (tl_bounds (toolbar_new env origin)) p"
    by (simp add: hit_test_bar [OF assms])
qed

definition sample_env :: display_environment where
  "sample_env = \<lparr>work_area = sample_monitor, metrics = sample_metrics\<rparr>"

lemma controls_answer_their_rectangles_witness:
  "hit_test (toolbar_new sample_env \<lparr>pt_x = 100, pt_y = 900\<rparr>) \<lparr>pt_x = 1500, pt_y = 930\<rparr> False = Some Capture \<longleftrightarrow>
   ui_contains (tl_capture (toolbar_new sample_env \<lparr>pt_x = 100, pt_y = 900\<rparr>)) \<lparr>pt_x = 1500, pt_y = 930\<rparr>"
proof -
  have "env_ok sample_env"
    by (simp add: env_ok_def sample_env_def sample_metrics_def metrics_new_def dpi_ok_def small_rect_def
        small_def sample_monitor_def)
  from controls_answer_their_rectangles [OF this] show ?thesis by (simp add: bar_buttons_def)
qed

end
