(* ===== verification/DimensionLabel.thy ===== *)
theory DimensionLabel
  imports UiLayout
begin

section \<open>Placing the dimension label\<close>

text \<open>
  \<open>layout_dimension_label\<close> of \<open>crates/captastic-windows/src/overlay/layout.rs\<close> and its helpers:
  the candidates around a selection, the choice among them, and the fallback. The keys of
  \<open>min_by_key\<close> and \<open>max_by_key\<close> are lists compared lexicographically; the obstacle areas of one
  display add up far below \<open>2 ^ 63\<close>, so the sum is an \<open>int\<close>.
\<close>

record label_candidate =
  cand_layout :: label_layout
  obstacle_overlap :: bool
  pointer_overlap :: bool
  clearance :: i32

subsection \<open>Choosing by key\<close>

fun key_less :: "int list \<Rightarrow> int list \<Rightarrow> bool" where
  "key_less (a # as) (b # bs) \<longleftrightarrow> a < b \<or> a = b \<and> key_less as bs"
| "key_less _ _ \<longleftrightarrow> False"

text \<open>\<open>Iterator::min_by_key\<close> keeps the first of equal minima, \<open>max_by_key\<close> the last of equal maxima.\<close>

fun min_by_key :: "('a \<Rightarrow> int list) \<Rightarrow> 'a list \<Rightarrow> 'a option" where
  "min_by_key key [] = None"
| "min_by_key key (x # xs) =
     Some (fold (\<lambda>y best. if key_less (key y) (key best) then y else best) xs x)"

fun max_by_key :: "('a \<Rightarrow> int list) \<Rightarrow> 'a list \<Rightarrow> 'a option" where
  "max_by_key key [] = None"
| "max_by_key key (x # xs) =
     Some (fold (\<lambda>y best. if key_less (key y) (key best) then best else y) xs x)"

fun placement_tiebreak :: "label_placement \<Rightarrow> i32" where
  "placement_tiebreak PlaceTop = 4"
| "placement_tiebreak PlaceBottom = 3"
| "placement_tiebreak PlaceRight = 2"
| "placement_tiebreak PlaceLeft = 1"
| "placement_tiebreak Inside = 0"

definition collision :: "label_candidate \<Rightarrow> bool \<times> bool" where
  "collision c = (obstacle_overlap c, pointer_overlap c)"

definition collision_key :: "bool \<times> bool \<Rightarrow> int list" where
  "collision_key = (\<lambda>(o1, p). [of_bool o1, of_bool p])"

subsection \<open>The candidates\<close>

definition push_candidate ::
  "label_layout \<Rightarrow> ui_rect \<Rightarrow> ui_rect \<Rightarrow> ui_rect list \<Rightarrow> ui_rect option \<Rightarrow> i32 \<Rightarrow>
   label_candidate list \<Rightarrow> label_candidate list" where
  "push_candidate l safe selection reserved pointer_exclusion clr candidates =
     (let b = label_bounds l in
      if sint (ui_left b) < sint (ui_left safe) \<or> sint (ui_top b) < sint (ui_top safe) \<or>
         sint (ui_right safe) < sint (ui_right b) \<or> sint (ui_bottom safe) < sint (ui_bottom b) \<or>
         (placement l \<noteq> Inside \<and> intersects b selection)
      then candidates
      else candidates @
        [\<lparr>cand_layout = l, obstacle_overlap = list_ex (\<lambda>obstacle. intersects b obstacle) reserved,
          pointer_overlap = (case pointer_exclusion of None \<Rightarrow> False | Some p \<Rightarrow> intersects b p),
          clearance = smax clr 0\<rparr>])"

definition select_candidate ::
  "label_candidate list \<Rightarrow> label_placement option \<Rightarrow> label_candidate option" where
  "select_candidate candidates previous =
     do {
       best_collision \<leftarrow> min_by_key collision_key (map collision candidates);
       let viable = filter (\<lambda>c. collision c = best_collision) candidates;
       case find (\<lambda>c. placement (cand_layout c) = Inside) viable of
         Some c \<Rightarrow> Some c
       | None \<Rightarrow>
           (case (case previous of None \<Rightarrow> None
               | Some p \<Rightarrow> find (\<lambda>c. placement (cand_layout c) = p) viable) of
              Some c \<Rightarrow> Some c
            | None \<Rightarrow> max_by_key (\<lambda>c. [sint (clearance c),
                sint (placement_tiebreak (placement (cand_layout c)))]) viable)
     }"

subsection \<open>The fallback\<close>

definition centered :: "ui_rect \<Rightarrow> ui_rect \<Rightarrow> ui_size \<Rightarrow> i32 \<times> i32" where
  "centered safe selection sz =
     (clamp_coordinate (sadd (ui_left selection) (half (ui_width selection - size_width sz)))
        (ui_left safe) (ssub (ui_right safe) (size_width sz)),
      clamp_coordinate (sadd (ui_top selection) (half (ui_height selection - size_height sz)))
        (ui_top safe) (ssub (ui_bottom safe) (size_height sz)))"

definition fallback_bounds :: "ui_rect \<Rightarrow> ui_size \<Rightarrow> i32 \<Rightarrow> i32 \<Rightarrow> ui_rect" where
  "fallback_bounds safe sz left upper =
     (let left = clamp_coordinate left (ui_left safe) (ssub (ui_right safe) (size_width sz));
          upper = clamp_coordinate upper (ui_top safe) (ssub (ui_bottom safe) (size_height sz))
      in \<lparr>ui_left = left, ui_top = upper, ui_right = sadd left (size_width sz),
          ui_bottom = sadd upper (size_height sz)\<rparr>)"

definition fallback_raw ::
  "ui_rect \<Rightarrow> ui_rect \<Rightarrow> ui_size \<Rightarrow> i32 \<Rightarrow> (label_placement \<times> i32 \<times> i32) list" where
  "fallback_raw safe selection sz gap =
     (let (centered_left, centered_top) = centered safe selection sz in
      [(PlaceTop, centered_left, ssub (ssub (ui_top selection) gap) (size_height sz)),
       (PlaceBottom, centered_left, sadd (ui_bottom selection) gap),
       (PlaceLeft, ssub (ssub (ui_left selection) gap) (size_width sz), centered_top),
       (PlaceRight, sadd (ui_right selection) gap, centered_top)])"

definition fallback_score ::
  "ui_rect \<Rightarrow> ui_rect \<Rightarrow> ui_size \<Rightarrow> ui_rect list \<Rightarrow> ui_rect option \<Rightarrow> label_placement option \<Rightarrow>
   label_placement \<times> i32 \<times> i32 \<Rightarrow> label_layout \<times> int list" where
  "fallback_score safe selection sz reserved pointer_exclusion previous = (\<lambda>(p, left, upper).
     let b = fallback_bounds safe sz left upper in
     (\<lparr>label_bounds = b, placement = p\<rparr>,
      [intersection_area b selection,
       sum_list (map (intersection_area b) reserved),
       (case pointer_exclusion of None \<Rightarrow> 0 | Some q \<Rightarrow> intersection_area b q),
       of_bool (previous \<noteq> Some p),
       - sint (placement_tiebreak p)]))"

definition fallback_label ::
  "ui_rect \<Rightarrow> ui_rect \<Rightarrow> ui_size \<Rightarrow> ui_rect list \<Rightarrow> ui_rect option \<Rightarrow> label_placement option \<Rightarrow>
   i32 \<Rightarrow> label_layout" where
  "fallback_label safe selection sz reserved pointer_exclusion previous gap =
     (case min_by_key snd (map (fallback_score safe selection sz reserved pointer_exclusion previous)
          (fallback_raw safe selection sz gap)) of
        Some (l, _) \<Rightarrow> l
      | None \<Rightarrow> \<lparr>label_bounds = safe, placement = PlaceTop\<rparr>)"

subsection \<open>\<open>layout_dimension_label\<close>\<close>

definition safe_area :: "ui_rect \<Rightarrow> region_tokens \<Rightarrow> ui_rect" where
  "safe_area monitor t =
     \<lparr>ui_left = sadd (ui_left monitor) (label_inset t),
      ui_top = sadd (ui_top monitor) (label_inset t),
      ui_right = smax (ssub (ui_right monitor) (label_inset t)) (sadd (ui_left monitor) (label_inset t + 1)),
      ui_bottom = smax (ssub (ui_bottom monitor) (label_inset t)) (sadd (ui_top monitor) (label_inset t + 1))\<rparr>"

definition label_size :: "ui_rect \<Rightarrow> ui_size \<Rightarrow> ui_size" where
  "label_size safe requested =
     \<lparr>size_width = smin (smax (size_width requested) 1) (ui_width safe),
      size_height = smin (smax (size_height requested) 1) (ui_height safe)\<rparr>"

definition inside_fits ::
  "ui_rect \<Rightarrow> ui_size \<Rightarrow> label_placement option \<Rightarrow> region_tokens \<Rightarrow> bool" where
  "inside_fits selection sz previous t =
     (let reentry_margin = (if previous = Some Inside \<or> previous = None then 0 else inside_hysteresis t);
          needed = (\<lambda>side. sadd (sadd side (smul (handle_clearance t) 2)) reentry_margin)
      in sint (needed (size_width sz)) \<le> sint (ui_width selection) \<and>
         sint (needed (size_height sz)) \<le> sint (ui_height selection))"

definition label_at :: "ui_size \<Rightarrow> i32 \<Rightarrow> i32 \<Rightarrow> label_placement \<Rightarrow> label_layout" where
  "label_at sz left upper p =
     \<lparr>label_bounds = \<lparr>ui_left = left, ui_top = upper, ui_right = sadd left (size_width sz),
        ui_bottom = sadd upper (size_height sz)\<rparr>, placement = p\<rparr>"

definition label_candidates ::
  "ui_rect \<Rightarrow> ui_rect \<Rightarrow> ui_size \<Rightarrow> ui_rect list \<Rightarrow> ui_rect option \<Rightarrow> label_placement option \<Rightarrow>
   region_tokens \<Rightarrow> label_candidate list" where
  "label_candidates safe selection sz reserved pointer_exclusion previous t =
     (let (horizontal_left, vertical_top) = centered safe selection sz;
          push = (\<lambda>l clr cs. push_candidate l safe selection reserved pointer_exclusion clr cs);
          inside_top = sadd (ui_top selection) (handle_clearance t);
          upper = ssub (ssub (ui_top selection) (selection_gap t)) (size_height sz);
          bottom = sadd (ui_bottom selection) (selection_gap t);
          left = ssub (ssub (ui_left selection) (selection_gap t)) (size_width sz);
          right = sadd (ui_right selection) (selection_gap t);
          cs = (if inside_fits selection sz previous t
            then push (label_at sz horizontal_left inside_top Inside) 1073741823 [] else []);
          cs = push (label_at sz horizontal_left upper PlaceTop) (ssub upper (ui_top safe)) cs;
          cs = push (label_at sz horizontal_left bottom PlaceBottom)
            (ssub (ui_bottom safe) (sadd bottom (size_height sz))) cs;
          cs = push (label_at sz left vertical_top PlaceLeft) (ssub left (ui_left safe)) cs
      in push (label_at sz right vertical_top PlaceRight)
           (ssub (ui_right safe) (sadd right (size_width sz))) cs)"

definition layout_dimension_label ::
  "ui_rect \<Rightarrow> ui_rect \<Rightarrow> ui_size \<Rightarrow> ui_rect list \<Rightarrow> ui_rect option \<Rightarrow> label_placement option \<Rightarrow>
   region_tokens \<Rightarrow> label_layout" where
  "layout_dimension_label monitor selection requested reserved pointer_exclusion previous t =
     (let safe = safe_area monitor t;
          sz = label_size safe requested;
          candidates = label_candidates safe selection sz reserved pointer_exclusion previous t
      in case select_candidate candidates previous of
           Some c \<Rightarrow> cand_layout c
         | None \<Rightarrow> fallback_label safe selection sz reserved pointer_exclusion previous (selection_gap t))"

subsection \<open>Minimal keys\<close>

lemma key_less_trans: "key_less a b \<Longrightarrow> key_less b c \<Longrightarrow> key_less a c"
proof (induction a b arbitrary: c rule: key_less.induct)
  case (1 x xs y ys)
  then show ?case by (cases c) auto
qed simp_all

lemma min_by_key_fold:
  assumes "\<forall>y\<in>S. \<not> key_less (key y) (key x)"
  shows "fold (\<lambda>y best. if key_less (key y) (key best) then y else best) xs x \<in> insert x (set xs) \<and>
    (\<forall>y\<in>S \<union> insert x (set xs).
      \<not> key_less (key y) (key (fold (\<lambda>y best. if key_less (key y) (key best) then y else best) xs x)))"
  using assms
proof (induction xs arbitrary: x S)
  case Nil
  have "\<not> key_less k k" for k by (induction k) auto
  then show ?case using Nil by auto
next
  case (Cons z zs)
  have irrefl: "\<not> key_less k k" for k by (induction k) auto
  show ?case
  proof (cases "key_less (key z) (key x)")
    case True
    have "\<forall>y\<in>insert x S. \<not> key_less (key y) (key z)"
      using Cons.prems True irrefl key_less_trans by blast
    from Cons.IH [OF this] show ?thesis using True by auto
  next
    case False
    then have "\<forall>y\<in>insert z S. \<not> key_less (key y) (key x)" using Cons.prems by blast
    from Cons.IH [OF this] show ?thesis using False by auto
  qed
qed

lemma min_by_key_Some:
  assumes "min_by_key key xs = Some m"
  shows "m \<in> set xs \<and> (\<forall>x\<in>set xs. \<not> key_less (key x) (key m))"
  using assms min_by_key_fold [of "{}" key] by (cases xs) auto

lemma min_by_key_None [simp]: "min_by_key key xs = None \<longleftrightarrow> xs = []"
  by (cases xs) simp_all

lemma max_by_key_mem: "max_by_key key xs = Some m \<Longrightarrow> m \<in> set xs"
proof -
  have "fold (\<lambda>y best. if key_less (key y) (key best) then best else y) ys x \<in> insert x (set ys)" for ys x
    by (induction ys arbitrary: x) auto
  then show "max_by_key key xs = Some m \<Longrightarrow> m \<in> set xs" by (cases xs) auto
qed

lemma max_by_key_None [simp]: "max_by_key key xs = None \<longleftrightarrow> xs = []"
  by (cases xs) simp_all

subsection \<open>The choice among candidates\<close>

lemma select_candidate_None: "select_candidate cs previous = None \<longleftrightarrow> cs = []"
proof
  assume none: "select_candidate cs previous = None"
  show "cs = []"
  proof (rule ccontr)
    assume "cs \<noteq> []"
    then obtain best where best: "min_by_key collision_key (map collision cs) = Some best"
      by (cases "min_by_key collision_key (map collision cs)") auto
    then have "filter (\<lambda>c. collision c = best) cs \<noteq> []"
      using min_by_key_Some [OF best] by (auto simp: filter_empty_conv)
    then show False
      using none best by (auto simp: select_candidate_def Let_def split: option.splits)
  qed
qed (simp add: select_candidate_def)

lemma find_mem: "find P xs = Some x \<Longrightarrow> x \<in> set xs"
  by (auto simp: find_Some_iff)

lemma select_candidate_Some:
  assumes "select_candidate cs previous = Some c"
  shows "c \<in> set cs \<and> (\<forall>d\<in>set cs. \<not> key_less (collision_key (collision d)) (collision_key (collision c)))"
proof -
  obtain best where best: "min_by_key collision_key (map collision cs) = Some best"
    using assms by (auto simp: select_candidate_def bind_eq_Some_conv)
  define viable where "viable = filter (\<lambda>c. collision c = best) cs"
  have "c \<in> set viable"
    using assms best
    by (auto simp: select_candidate_def Let_def viable_def [symmetric] split: option.splits
        dest!: max_by_key_mem find_mem)
  then have "c \<in> set cs" "collision c = best" by (auto simp: viable_def)
  then show ?thesis using min_by_key_Some [OF best] by auto
qed

subsection \<open>Where the label can be\<close>

definition inset_ok :: "region_tokens \<Rightarrow> bool" where
  "inset_ok t \<longleftrightarrow> 0 \<le> sint (label_inset t) \<and> sint (label_inset t) \<le> 1000000"

lemma region_tokens_inset_ok: "dpi_ok m \<Longrightarrow> inset_ok (region_tokens_new m)"
  using scaled_nonneg [of 8 m] scaled_le [of m 8] by (simp add: inset_ok_def region_tokens_new_def sint_px)

lemma safe_area_ints:
  assumes "small_rect 500000000 monitor" "inset_ok t"
  shows "sint (ui_left (safe_area monitor t)) = sint (ui_left monitor) + sint (label_inset t)"
    "sint (ui_top (safe_area monitor t)) = sint (ui_top monitor) + sint (label_inset t)"
    "sint (ui_right (safe_area monitor t)) =
      max (sint (ui_right monitor) - sint (label_inset t)) (sint (ui_left (safe_area monitor t)) + 1)"
    "sint (ui_bottom (safe_area monitor t)) =
      max (sint (ui_bottom monitor) - sint (label_inset t)) (sint (ui_top (safe_area monitor t)) + 1)"
proof -
  have "sint (label_inset t + 1) = sint (label_inset t) + 1"
    using assms(2) by (subst sint_plus) (simp_all add: inset_ok_def)
  then show "sint (ui_left (safe_area monitor t)) = sint (ui_left monitor) + sint (label_inset t)"
    "sint (ui_top (safe_area monitor t)) = sint (ui_top monitor) + sint (label_inset t)"
    "sint (ui_right (safe_area monitor t)) =
      max (sint (ui_right monitor) - sint (label_inset t)) (sint (ui_left (safe_area monitor t)) + 1)"
    "sint (ui_bottom (safe_area monitor t)) =
      max (sint (ui_bottom monitor) - sint (label_inset t)) (sint (ui_top (safe_area monitor t)) + 1)"
    using assms
    by (simp_all add: safe_area_def signed_simps clamp_id small_rect_def small_def inset_ok_def)
qed

lemma safe_area_sides:
  assumes "small_rect 500000000 monitor" "inset_ok t"
  defines "safe \<equiv> safe_area monitor t"
  shows "small_rect 600000000 safe"
    and "sint (ui_width safe) = sint (ui_right safe) - sint (ui_left safe)"
    and "sint (ui_height safe) = sint (ui_bottom safe) - sint (ui_top safe)"
    and "sint (ui_left safe) < sint (ui_right safe)" "sint (ui_top safe) < sint (ui_bottom safe)"
proof -
  note ints = safe_area_ints [OF assms(1,2), folded safe_def]
  have m: "- 500000000 \<le> sint (ui_left monitor)" "sint (ui_left monitor) \<le> 500000000"
    "- 500000000 \<le> sint (ui_top monitor)" "sint (ui_top monitor) \<le> 500000000"
    "- 500000000 \<le> sint (ui_right monitor)" "sint (ui_right monitor) \<le> 500000000"
    "- 500000000 \<le> sint (ui_bottom monitor)" "sint (ui_bottom monitor) \<le> 500000000"
    and t: "0 \<le> sint (label_inset t)" "sint (label_inset t) \<le> 1000000"
    using assms(1,2) by (simp_all add: small_rect_def small_def inset_ok_def)
  show lt: "sint (ui_left safe) < sint (ui_right safe)" "sint (ui_top safe) < sint (ui_bottom safe)"
    using ints by linarith+
  have "- 600000000 \<le> sint (ui_left safe)" "sint (ui_left safe) \<le> 600000000"
    "- 600000000 \<le> sint (ui_top safe)" "sint (ui_top safe) \<le> 600000000"
    "- 600000000 \<le> sint (ui_right safe)" "sint (ui_right safe) \<le> 600000000"
    "- 600000000 \<le> sint (ui_bottom safe)" "sint (ui_bottom safe) \<le> 600000000"
    using ints m t by linarith+
  then show small: "small_rect 600000000 safe"
    by (simp add: small_rect_def small_def)
  have "sint (ui_right safe - ui_left safe) = sint (ui_right safe) - sint (ui_left safe)"
    "sint (ui_bottom safe - ui_top safe) = sint (ui_bottom safe) - sint (ui_top safe)"
    using small by (auto simp: small_rect_def small_def intro!: sint_diff_in_range)
  then show "sint (ui_width safe) = sint (ui_right safe) - sint (ui_left safe)"
    "sint (ui_height safe) = sint (ui_bottom safe) - sint (ui_top safe)"
    using lt by (simp_all add: ui_width_def ui_height_def signed_simps)
qed

text \<open>A label of the given size whose box lies in the safe area.\<close>

definition label_ok :: "ui_rect \<Rightarrow> ui_size \<Rightarrow> ui_rect \<Rightarrow> bool" where
  "label_ok safe sz b \<longleftrightarrow> ui_within b safe \<and>
     sint (ui_right b) - sint (ui_left b) = sint (size_width sz) \<and>
     sint (ui_bottom b) - sint (ui_top b) = sint (size_height sz)"

definition size_ok :: "ui_rect \<Rightarrow> ui_size \<Rightarrow> bool" where
  "size_ok safe sz \<longleftrightarrow> 1 \<le> sint (size_width sz) \<and> 1 \<le> sint (size_height sz) \<and>
     sint (size_width sz) \<le> sint (ui_right safe) - sint (ui_left safe) \<and>
     sint (size_height sz) \<le> sint (ui_bottom safe) - sint (ui_top safe)"

lemma label_size_ok:
  assumes "small_rect 500000000 monitor" "inset_ok t"
  shows "size_ok (safe_area monitor t) (label_size (safe_area monitor t) requested)"
  using safe_area_sides [OF assms] by (auto simp: size_ok_def label_size_def signed_simps)

lemma sadd_inside:
  assumes "sint (sadd a b) \<le> n" "n < 2147483647" "0 \<le> sint b"
  shows "sint (sadd a b) = sint a + sint b"
  using assms sint_i32_ge [of a] by (auto simp: sint_sadd clamp_def split: if_splits)

lemma push_candidate_mem:
  assumes "c \<in> set (push_candidate (label_at sz left upper p) safe selection reserved pointer clr cs)"
    and "size_ok safe sz" "small_rect 600000000 safe"
  shows "c \<in> set cs \<or> label_ok safe sz (label_bounds (cand_layout c)) \<and>
    (placement (cand_layout c) \<noteq> Inside \<longrightarrow> \<not> intersects (label_bounds (cand_layout c)) selection) \<and>
    obstacle_overlap c = list_ex (intersects (label_bounds (cand_layout c))) reserved \<and>
    pointer_overlap c = (case pointer of None \<Rightarrow> False | Some q \<Rightarrow> intersects (label_bounds (cand_layout c)) q)"
proof (cases "c \<in> set cs")
  case False
  then have c: "cand_layout c = label_at sz left upper p"
      "obstacle_overlap c = list_ex (intersects (label_bounds (cand_layout c))) reserved"
      "pointer_overlap c = (case pointer of None \<Rightarrow> False | Some q \<Rightarrow> intersects (label_bounds (cand_layout c)) q)"
    and ok: "ui_within (label_bounds (label_at sz left upper p)) safe"
      "p \<noteq> Inside \<longrightarrow> \<not> intersects (label_bounds (label_at sz left upper p)) selection"
    using assms(1)
    by (auto simp: push_candidate_def Let_def ui_within_def label_at_def split: if_splits option.splits)
  have "sint (sadd left (size_width sz)) = sint left + sint (size_width sz)"
    "sint (sadd upper (size_height sz)) = sint upper + sint (size_height sz)"
    using ok(1) assms(2,3)
    by (auto simp: ui_within_def label_at_def size_ok_def small_rect_def small_def intro!: sadd_inside)
  then show ?thesis using c ok by (simp add: label_ok_def label_at_def)
qed simp

definition candidate_ok :: "ui_rect \<Rightarrow> ui_rect \<Rightarrow> ui_size \<Rightarrow> ui_rect list \<Rightarrow> ui_rect option \<Rightarrow> label_candidate \<Rightarrow> bool" where
  "candidate_ok safe selection sz reserved pointer c \<longleftrightarrow>
     label_ok safe sz (label_bounds (cand_layout c)) \<and>
     (placement (cand_layout c) \<noteq> Inside \<longrightarrow> \<not> intersects (label_bounds (cand_layout c)) selection) \<and>
     obstacle_overlap c = list_ex (intersects (label_bounds (cand_layout c))) reserved \<and>
     pointer_overlap c = (case pointer of None \<Rightarrow> False | Some q \<Rightarrow> intersects (label_bounds (cand_layout c)) q)"

lemma label_candidates_ok:
  assumes "size_ok safe sz" "small_rect 600000000 safe"
    and "c \<in> set (label_candidates safe selection sz reserved pointer previous t)"
  shows "candidate_ok safe selection sz reserved pointer c"
proof -
  have push: "\<forall>c\<in>set (push_candidate (label_at sz left upper p) safe selection reserved pointer clr cs).
      candidate_ok safe selection sz reserved pointer c"
    if "\<forall>c\<in>set cs. candidate_ok safe selection sz reserved pointer c" for left upper p clr cs
    using that push_candidate_mem [OF _ assms(1,2)] unfolding candidate_ok_def by blast
  have first: "\<forall>c\<in>set (if inside_fits selection sz previous t
      then push_candidate (label_at sz left upper p) safe selection reserved pointer clr [] else []).
      candidate_ok safe selection sz reserved pointer c" for left upper p clr
    using push [of "[]"] by auto
  have "\<forall>c\<in>set (label_candidates safe selection sz reserved pointer previous t).
      candidate_ok safe selection sz reserved pointer c"
    unfolding label_candidates_def Let_def split_beta by (rule push, rule push, rule push, rule push, rule first)
  then show ?thesis using assms(3) by blast
qed

lemma fallback_bounds_ok:
  assumes "size_ok safe sz" "small_rect 600000000 safe"
  shows "label_ok safe sz (fallback_bounds safe sz left upper)"
proof -
  let ?l = "clamp_coordinate left (ui_left safe) (ssub (ui_right safe) (size_width sz))"
  let ?u = "clamp_coordinate upper (ui_top safe) (ssub (ui_bottom safe) (size_height sz))"
  have s: "sint (ssub (ui_right safe) (size_width sz)) = sint (ui_right safe) - sint (size_width sz)"
    "sint (ssub (ui_bottom safe) (size_height sz)) = sint (ui_bottom safe) - sint (size_height sz)"
    using assms by (auto simp: size_ok_def small_rect_def small_def intro!: ssub_exact)
  have "sint (ui_left safe) \<le> sint ?l \<and> sint ?l \<le> sint (ui_right safe) - sint (size_width sz)"
    "sint (ui_top safe) \<le> sint ?u \<and> sint ?u \<le> sint (ui_bottom safe) - sint (size_height sz)"
    using assms(1) by (auto simp: sint_clamp_coordinate s clamp_def size_ok_def)
  moreover from this have "sint (sadd ?l (size_width sz)) = sint ?l + sint (size_width sz)"
    "sint (sadd ?u (size_height sz)) = sint ?u + sint (size_height sz)"
    using assms by (auto simp: size_ok_def small_rect_def small_def intro!: sadd_exact)
  ultimately show ?thesis
    by (simp add: fallback_bounds_def label_ok_def ui_within_def Let_def)
qed

lemma fallback_label_ok:
  assumes "size_ok safe sz" "small_rect 600000000 safe"
  shows "label_ok safe sz (label_bounds (fallback_label safe selection sz reserved pointer previous gap))"
proof -
  have "fallback_raw safe selection sz gap \<noteq> []"
    by (simp add: fallback_raw_def split: prod.split)
  then show ?thesis
    by (auto simp: fallback_label_def fallback_score_def Let_def fallback_bounds_ok [OF assms]
        split: option.splits dest!: min_by_key_Some)
qed

text \<open>How much a label lies on: an obstacle first, the pointer second.\<close>

definition label_collision :: "ui_rect list \<Rightarrow> ui_rect option \<Rightarrow> ui_rect \<Rightarrow> bool \<times> bool" where
  "label_collision reserved pointer b =
     (list_ex (intersects b) reserved, case pointer of None \<Rightarrow> False | Some q \<Rightarrow> intersects b q)"



end
