(* ===== verification/RegionGeometry.thy ===== *)
theory RegionGeometry
  imports Snap Toolbar
begin

section \<open>The geometry of a region\<close>

text \<open>
  The pure functions at the end of \<open>crates/captastic-windows/src/overlay/machine.rs\<close>: the rectangle
  a rubber band, a resize, a move or an arrow key makes of a region, the handle under a point, and
  the region a run starts with. Edges are \<open>i64\<close> in the code and \<open>int\<close> here; \<open>as\<close> casts back
  into 32 bits wrap.
\<close>

definition DRAG_THRESHOLD :: int where "DRAG_THRESHOLD = 4"
definition MIN_REGION_SIZE :: int where "MIN_REGION_SIZE = 8"

datatype selection_kind = DisplayKind | RegionKind | WindowKind

datatype capture_tool = FullDisplayTool | WindowTool | RegionTool

fun from_selection_kind :: "selection_kind \<Rightarrow> capture_tool" where
  "from_selection_kind DisplayKind = FullDisplayTool"
| "from_selection_kind RegionKind = RegionTool"
| "from_selection_kind WindowKind = WindowTool"

definition rect_of_edges :: "int \<Rightarrow> int \<Rightarrow> int \<Rightarrow> int \<Rightarrow> rect" where
  "rect_of_edges left upper right bottom =
     \<lparr>rect_x = word_of_int left, rect_y = word_of_int upper,
      rect_width = word_of_int (right - left), rect_height = word_of_int (bottom - upper)\<rparr>"

definition local_point :: "rect \<Rightarrow> point \<Rightarrow> point" where
  "local_point src p = \<lparr>pt_x = ssub (pt_x p) (rect_x src), pt_y = ssub (pt_y p) (rect_y src)\<rparr>"

definition default_region_for_source :: "rect \<Rightarrow> rect" where
  "default_region_for_source src =
     (let w = max (rect_width src div 2) 1; h = max (rect_height src div 2) 1 in
      \<lparr>rect_x = sadd (rect_x src) (ucast (min ((rect_width src - w) div 2) 2147483647)),
       rect_y = sadd (rect_y src) (ucast (min ((rect_height src - h) div 2) 2147483647)),
       rect_width = w, rect_height = h\<rparr>)"

definition fit_region_to_source :: "rect \<Rightarrow> rect \<Rightarrow> rect" where
  "fit_region_to_source region src = clamp_within region src"

fun initial_selection :: "capture_tool \<Rightarrow> rect option \<Rightarrow> rect \<Rightarrow> rect option \<times> selection_kind option" where
  "initial_selection FullDisplayTool _ src = (Some src, Some DisplayKind)"
| "initial_selection WindowTool _ _ = (None, None)"
| "initial_selection RegionTool last_region src =
     (let region = (case last_region of
          Some region \<Rightarrow> fit_region_to_source region src
        | None \<Rightarrow> default_region_for_source src)
      in (Some region, Some RegionKind))"

definition latest_interaction_region ::
  "capture_tool \<Rightarrow> rect option \<Rightarrow> selection_kind option \<Rightarrow> rect option \<Rightarrow> rect option" where
  "latest_interaction_region t selection kind last_region =
     (if t = RegionTool \<and> kind = Some RegionKind
      then (case selection of None \<Rightarrow> last_region | Some r \<Rightarrow> Some r) else last_region)"

definition rect_from_points :: "rect \<Rightarrow> point \<Rightarrow> point \<Rightarrow> rect option" where
  "rect_from_points src first second =
     (let source_right = rect_right src; source_bottom = rect_bottom src;
          left = clamp (sint (smin (pt_x first) (pt_x second))) (rect_left src) source_right;
          upper = clamp (sint (smin (pt_y first) (pt_y second))) (rect_top src) source_bottom;
          right = clamp (sint (smax (pt_x first) (pt_x second))) (rect_left src) source_right;
          bottom = clamp (sint (smax (pt_y first) (pt_y second))) (rect_top src) source_bottom
      in if left < right \<and> upper < bottom then Some (rect_of_edges left upper right bottom) else None)"

definition rect_contains :: "rect \<Rightarrow> point \<Rightarrow> bool" where
  "rect_contains r p \<longleftrightarrow> rect_left r \<le> sint (pt_x p) \<and> rect_top r \<le> sint (pt_y p) \<and>
     sint (pt_x p) < rect_right r \<and> sint (pt_y p) < rect_bottom r"

definition hit_test_resize_handle :: "rect \<Rightarrow> point \<Rightarrow> ui_metrics \<Rightarrow> resize_handle option" where
  "hit_test_resize_handle r p m =
     (let left = rect_left r; upper = rect_top r; right = rect_right r; bottom = rect_bottom r;
          x = sint (pt_x p); y = sint (pt_y p);
          radius = sint (handle_hit_radius (region_tokens_new m));
          near_left = \<bar>x - left\<bar> \<le> radius; near_right = \<bar>x - right\<bar> \<le> radius;
          near_top = \<bar>y - upper\<bar> \<le> radius; near_bottom = \<bar>y - bottom\<bar> \<le> radius
      in if near_left \<and> near_top then Some NorthWest
         else if near_right \<and> near_top then Some NorthEast
         else if near_right \<and> near_bottom then Some SouthEast
         else if near_left \<and> near_bottom then Some SouthWest
         else if near_top \<and> left \<le> x \<and> x \<le> right then Some North
         else if near_right \<and> upper \<le> y \<and> y \<le> bottom then Some East
         else if near_bottom \<and> left \<le> x \<and> x \<le> right then Some South
         else if near_left \<and> upper \<le> y \<and> y \<le> bottom then Some West
         else None)"

definition resize_region :: "rect \<Rightarrow> resize_handle \<Rightarrow> point \<Rightarrow> rect \<Rightarrow> rect" where
  "resize_region original handle p src =
     (let left = rect_left original; upper = rect_top original;
          right = rect_right original; bottom = rect_bottom original;
          x = sint (pt_x p); y = sint (pt_y p);
          left = (if handle \<in> {NorthWest, West, SouthWest}
            then clamp x (rect_left src) (max (right - MIN_REGION_SIZE) (rect_left src)) else left);
          right = (if handle \<in> {NorthEast, East, SouthEast}
            then clamp x (min (left + MIN_REGION_SIZE) (rect_right src)) (rect_right src) else right);
          upper = (if handle \<in> {NorthWest, North, NorthEast}
            then clamp y (rect_top src) (max (bottom - MIN_REGION_SIZE) (rect_top src)) else upper);
          bottom = (if handle \<in> {SouthWest, South, SouthEast}
            then clamp y (min (upper + MIN_REGION_SIZE) (rect_bottom src)) (rect_bottom src) else bottom)
      in rect_of_edges left upper right bottom)"

text \<open>\<open>saturating_sub\<close> on \<open>u32\<close>.\<close>

definition u32_sat_sub :: "u32 \<Rightarrow> u32 \<Rightarrow> u32" where
  "u32_sat_sub a b = (if a < b then 0 else a - b)"

definition move_region :: "rect \<Rightarrow> point \<Rightarrow> point \<Rightarrow> rect \<Rightarrow> rect" where
  "move_region original pointer_origin p src =
     (let delta_x = sint (pt_x p) - sint (pt_x pointer_origin);
          delta_y = sint (pt_y p) - sint (pt_y pointer_origin);
          maximum_x = rect_left src + uint (u32_sat_sub (rect_width src) (rect_width original));
          maximum_y = rect_top src + uint (u32_sat_sub (rect_height src) (rect_height original))
      in \<lparr>rect_x = word_of_int (clamp (rect_left original + delta_x) (rect_left src) maximum_x),
          rect_y = word_of_int (clamp (rect_top original + delta_y) (rect_top src) maximum_y),
          rect_width = rect_width original, rect_height = rect_height original\<rparr>)"

definition resize_region_by :: "rect \<Rightarrow> i32 \<Rightarrow> i32 \<Rightarrow> rect \<Rightarrow> rect" where
  "resize_region_by region dx dy src =
     (let left = rect_left region; upper = rect_top region;
          minimum_right = min (left + MIN_REGION_SIZE) (rect_right src);
          minimum_bottom = min (upper + MIN_REGION_SIZE) (rect_bottom src);
          right = clamp (rect_right region + sint dx) minimum_right (rect_right src);
          bottom = clamp (rect_bottom region + sint dy) minimum_bottom (rect_bottom src)
      in case from_edges left upper right bottom of None \<Rightarrow> region | Some r \<Rightarrow> r)"

definition as_i32_clamped :: "int \<Rightarrow> i32" where
  "as_i32_clamped v =
     (case i32_try_from v of Some w \<Rightarrow> w | None \<Rightarrow> if v < 0 then - 2147483648 else 2147483647)"

definition as_point :: "int \<Rightarrow> int \<Rightarrow> point" where
  "as_point x y = \<lparr>pt_x = as_i32_clamped x, pt_y = as_i32_clamped y\<rparr>"

subsection \<open>Every rectangle it makes is a region of the source\<close>

text \<open>
  A source display is not empty (the caller refuses one that is) and ends inside the 32-bit
  desktop; a region of it is a rectangle with content that lies inside.
\<close>

definition source_ok :: "rect \<Rightarrow> bool" where
  "source_ok src \<longleftrightarrow> rect_left src < rect_right src \<and> rect_top src < rect_bottom src \<and>
     rect_right src \<le> 2147483648 \<and> rect_bottom src \<le> 2147483648"

definition region_in :: "rect \<Rightarrow> rect \<Rightarrow> bool" where
  "region_in src r \<longleftrightarrow> rect_within r src \<and> rect_left r < rect_right r \<and> rect_top r < rect_bottom r"

lemmas region_simps = region_in_def rect_within_def

lemma region_in_self: "source_ok src \<Longrightarrow> region_in src src"
  by (simp add: source_ok_def region_simps)

lemma rect_of_edges_edges:
  assumes "- 2147483648 \<le> left" "left \<le> 2147483647" "- 2147483648 \<le> upper" "upper \<le> 2147483647"
    and "left \<le> right" "right \<le> left + 4294967295" "upper \<le> bottom" "bottom \<le> upper + 4294967295"
  shows "rect_left (rect_of_edges left upper right bottom) = left"
    "rect_top (rect_of_edges left upper right bottom) = upper"
    "rect_right (rect_of_edges left upper right bottom) = right"
    "rect_bottom (rect_of_edges left upper right bottom) = bottom"
  using assms uint_u32_of_int [of "right - left"] uint_u32_of_int [of "bottom - upper"]
  by (simp_all add: edge_defs rect_of_edges_def sint_i32_of_int)

text \<open>Edges in order inside the source survive the casts.\<close>

lemma rect_of_edges_in:
  assumes "source_ok src" "rect_left src \<le> left" "left < right" "right \<le> rect_right src"
    and "rect_top src \<le> upper" "upper < bottom" "bottom \<le> rect_bottom src"
  shows "rect_left (rect_of_edges left upper right bottom) = left"
    "rect_top (rect_of_edges left upper right bottom) = upper"
    "rect_right (rect_of_edges left upper right bottom) = right"
    "rect_bottom (rect_of_edges left upper right bottom) = bottom"
    "region_in src (rect_of_edges left upper right bottom)"
proof -
  have "- 2147483648 \<le> left" "left \<le> 2147483647" "- 2147483648 \<le> upper" "upper \<le> 2147483647"
    "right \<le> left + 4294967295" "bottom \<le> upper + 4294967295"
    using assms edge_bounds [of src] unfolding source_ok_def by linarith+
  note e = rect_of_edges_edges [OF this(1-4) less_imp_le [OF assms(3)] this(5) less_imp_le [OF assms(6)] this(6)]
  show "rect_left (rect_of_edges left upper right bottom) = left"
    "rect_top (rect_of_edges left upper right bottom) = upper"
    "rect_right (rect_of_edges left upper right bottom) = right"
    "rect_bottom (rect_of_edges left upper right bottom) = bottom" by (rule e)+
  show "region_in src (rect_of_edges left upper right bottom)"
    using assms by (simp add: region_simps e)
qed

lemma rect_from_points_in:
  assumes "source_ok src" and "rect_from_points src p q = Some r"
  shows "region_in src r"
proof -
  have b: "rect_left src \<le> rect_right src" "rect_top src \<le> rect_bottom src"
    using assms(1) by (auto simp: source_ok_def)
  show ?thesis
    using assms(2) unfolding rect_from_points_def Let_def
    by (auto split: if_splits intro!: rect_of_edges_in(5) [OF assms(1)] clamp_bounds [THEN conjunct1]
        clamp_bounds [THEN conjunct2] b)
qed

text \<open>One dragged edge: it keeps the least extent its fixed edge left it, inside the source.\<close>

lemma leading_edge:
  fixes a b lo x :: int
  assumes "lo \<le> a" "a < b"
  defines "v \<equiv> clamp x lo (max (b - MIN_REGION_SIZE) lo)"
  shows "lo \<le> v" "v < b" "min MIN_REGION_SIZE (b - a) \<le> b - v"
    and "lo \<le> x \<Longrightarrow> x + MIN_REGION_SIZE \<le> b \<Longrightarrow> v = x"
  using assms by (auto simp: clamp_def MIN_REGION_SIZE_def)

lemma trailing_edge:
  fixes a b hi x :: int
  assumes "b \<le> hi" "a < b"
  defines "v \<equiv> clamp x (min (a + MIN_REGION_SIZE) hi) hi"
  shows "v \<le> hi" "a < v" "min MIN_REGION_SIZE (b - a) \<le> v - a"
    and "a + MIN_REGION_SIZE \<le> x \<Longrightarrow> x \<le> hi \<Longrightarrow> v = x"
  using assms by (auto simp: clamp_def MIN_REGION_SIZE_def)

text \<open>The edge a resize leaves an axis with: the leading one, the trailing one, or neither moves.\<close>

definition dragged_axis :: "bool \<Rightarrow> bool \<Rightarrow> int \<Rightarrow> int \<Rightarrow> int \<Rightarrow> int \<Rightarrow> int \<Rightarrow> int \<times> int" where
  "dragged_axis lead trail lo hi x a b =
     (if lead then clamp x lo (max (b - MIN_REGION_SIZE) lo) else a,
      if trail then clamp x (min (a + MIN_REGION_SIZE) hi) hi else b)"

lemma dragged_axis_ok:
  assumes "lo \<le> a" "a < b" "b \<le> hi" "\<not> (lead \<and> trail)" "dragged_axis lead trail lo hi x a b = (v, w)"
  shows "lo \<le> v" "v < w" "w \<le> hi" "min MIN_REGION_SIZE (b - a) \<le> w - v"
    and "\<not> lead \<Longrightarrow> v = a" "\<not> trail \<Longrightarrow> w = b"
    and "lead \<Longrightarrow> lo \<le> x \<Longrightarrow> x + MIN_REGION_SIZE \<le> b \<Longrightarrow> v = x"
    and "trail \<Longrightarrow> a + MIN_REGION_SIZE \<le> x \<Longrightarrow> x \<le> hi \<Longrightarrow> w = x"
  using assms leading_edge [of lo a b x] trailing_edge [of b hi a x]
  by (auto simp: dragged_axis_def split: if_splits)

lemma resize_region_axes:
  "resize_region original handle p src =
     (case dragged_axis (mask_left (for_handle handle)) (mask_right (for_handle handle))
         (rect_left src) (rect_right src) (sint (pt_x p)) (rect_left original) (rect_right original) of
        (left, right) \<Rightarrow>
      (case dragged_axis (mask_top (for_handle handle)) (mask_bottom (for_handle handle))
         (rect_top src) (rect_bottom src) (sint (pt_y p)) (rect_top original) (rect_bottom original) of
        (upper, bottom) \<Rightarrow> rect_of_edges left upper right bottom))"
  by (cases handle) (simp_all add: resize_region_def dragged_axis_def Let_def)

lemma for_handle_one_side:
  "\<not> (mask_left (for_handle h) \<and> mask_right (for_handle h))"
  "\<not> (mask_top (for_handle h) \<and> mask_bottom (for_handle h))"
  by (cases h; simp)+

text \<open>What a resize does to the two axes, with every cast exact.\<close>

lemma resize_region_edges:
  assumes "source_ok src" "region_in src original" "r = resize_region original handle p src"
  shows "dragged_axis (mask_left (for_handle handle)) (mask_right (for_handle handle)) (rect_left src)
      (rect_right src) (sint (pt_x p)) (rect_left original) (rect_right original) = (rect_left r, rect_right r)"
    "dragged_axis (mask_top (for_handle handle)) (mask_bottom (for_handle handle)) (rect_top src)
      (rect_bottom src) (sint (pt_y p)) (rect_top original) (rect_bottom original) = (rect_top r, rect_bottom r)"
    "region_in src r"
proof -
  obtain a b where x: "dragged_axis (mask_left (for_handle handle)) (mask_right (for_handle handle)) (rect_left src)
      (rect_right src) (sint (pt_x p)) (rect_left original) (rect_right original) = (a, b)" by fastforce
  obtain c d where y: "dragged_axis (mask_top (for_handle handle)) (mask_bottom (for_handle handle)) (rect_top src)
      (rect_bottom src) (sint (pt_y p)) (rect_top original) (rect_bottom original) = (c, d)" by fastforce
  have r: "r = rect_of_edges a c b d" using assms(3) by (simp add: resize_region_axes x y)
  have o: "rect_left src \<le> rect_left original" "rect_left original < rect_right original"
    "rect_right original \<le> rect_right src" "rect_top src \<le> rect_top original"
    "rect_top original < rect_bottom original" "rect_bottom original \<le> rect_bottom src"
    using assms(2) by (auto simp: region_simps)
  note X = dragged_axis_ok [OF o(1-3) for_handle_one_side(1) x] and Y = dragged_axis_ok [OF o(4-6) for_handle_one_side(2) y]
  note e = rect_of_edges_in [OF assms(1) X(1-3) Y(1-3), folded r]
  show "dragged_axis (mask_left (for_handle handle)) (mask_right (for_handle handle)) (rect_left src)
      (rect_right src) (sint (pt_x p)) (rect_left original) (rect_right original) = (rect_left r, rect_right r)"
    "dragged_axis (mask_top (for_handle handle)) (mask_bottom (for_handle handle)) (rect_top src)
      (rect_bottom src) (sint (pt_y p)) (rect_top original) (rect_bottom original) = (rect_top r, rect_bottom r)"
    "region_in src r" using x y e by simp_all
qed

text \<open>A move keeps the size and stops at the source's edges.\<close>

lemma u32_sat_sub_edges: "b \<le> a \<Longrightarrow> uint (u32_sat_sub a b) = uint a - uint b"
  by (auto simp: u32_sat_sub_def word_le_def word_less_def uint_sub_if')

lemma move_region_edges:
  assumes "source_ok src" "region_in src original" "r = move_region original o' p src"
  defines "w \<equiv> rect_right original - rect_left original" and "h \<equiv> rect_bottom original - rect_top original"
  shows "rect_left r = clamp (rect_left original + (sint (pt_x p) - sint (pt_x o'))) (rect_left src) (rect_right src - w)"
    "rect_top r = clamp (rect_top original + (sint (pt_y p) - sint (pt_y o'))) (rect_top src) (rect_bottom src - h)"
    "rect_right r = rect_left r + w" "rect_bottom r = rect_top r + h"
    "region_in src r"
proof -
  define vx where "vx = clamp (rect_left original + (sint (pt_x p) - sint (pt_x o'))) (rect_left src) (rect_right src - w)"
  define vy where "vy = clamp (rect_top original + (sint (pt_y p) - sint (pt_y o'))) (rect_top src) (rect_bottom src - h)"
  have o: "rect_left src \<le> rect_right src - w" "rect_top src \<le> rect_bottom src - h" "0 < w" "0 < h"
    "rect_right src - w \<le> 2147483647" "rect_bottom src - h \<le> 2147483647"
    using assms(1,2) unfolding w_def h_def source_ok_def region_simps by linarith+
  have x: "rect_left src \<le> vx" "vx \<le> rect_right src - w" using clamp_bounds [OF o(1)] unfolding vx_def by blast+
  have y: "rect_top src \<le> vy" "vy \<le> rect_bottom src - h" using clamp_bounds [OF o(2)] unfolding vy_def by blast+
  have "rect_width original \<le> rect_width src" "rect_height original \<le> rect_height src"
    using o(1,2) by (simp_all add: word_le_def rect_width_edges rect_height_edges w_def h_def)
  then have m: "rect_left src + uint (u32_sat_sub (rect_width src) (rect_width original)) = rect_right src - w"
    "rect_top src + uint (u32_sat_sub (rect_height src) (rect_height original)) = rect_bottom src - h"
    by (simp_all add: u32_sat_sub_edges rect_width_edges rect_height_edges w_def h_def)
  have r: "r = \<lparr>rect_x = word_of_int vx, rect_y = word_of_int vy,
      rect_width = rect_width original, rect_height = rect_height original\<rparr>"
    by (simp add: assms(3) move_region_def Let_def m vx_def vy_def)
  have s: "sint (word_of_int vx :: i32) = vx" "sint (word_of_int vy :: i32) = vy"
    using x y o(5,6) rect_left_bounds [of src] rect_top_bounds [of src] by (intro sint_i32_of_int; linarith)+
  have e: "rect_left r = vx" "rect_top r = vy" "rect_right r = rect_left r + w" "rect_bottom r = rect_top r + h"
    by (simp_all only: r) (simp_all add: rect_left_def rect_top_def rect_right_def rect_bottom_def s w_def h_def)
  then show "rect_left r = clamp (rect_left original + (sint (pt_x p) - sint (pt_x o'))) (rect_left src) (rect_right src - w)"
    "rect_top r = clamp (rect_top original + (sint (pt_y p) - sint (pt_y o'))) (rect_top src) (rect_bottom src - h)"
    "rect_right r = rect_left r + w" "rect_bottom r = rect_top r + h" by (simp_all add: vx_def vy_def)
  show "region_in src r"
    using x y o(3,4) unfolding region_simps e(3,4) by (simp add: e(1,2))
qed

lemma clamp_within_in:
  assumes "source_ok src" "rect_left r < rect_right r" "rect_top r < rect_bottom r"
  shows "region_in src (clamp_within r src)"
proof -
  have "0 < min (uint (rect_width r)) (uint (rect_width src))" "0 < min (uint (rect_height r)) (uint (rect_height src))"
    using assms by (simp_all add: source_ok_def rect_width_edges rect_height_edges)
  then show ?thesis
    using clamp_within_within [of r src] by (simp add: region_in_def clamp_within_edges)
qed

lemma translated_size: "rect_right (translated r dx dy) - rect_left (translated r dx dy) = rect_right r - rect_left r"
  "rect_bottom (translated r dx dy) - rect_top (translated r dx dy) = rect_bottom r - rect_top r"
  by (simp_all add: translated_def edge_defs)

lemma clamp_translated_in:
  assumes "source_ok src" "region_in src r"
  shows "region_in src (clamp_within (translated r dx dy) src)"
  using assms(2) translated_size [of r dx dy] by (intro clamp_within_in [OF assms(1)]) (auto simp: region_in_def)

lemma resize_region_by_nonempty:
  assumes "rect_left r < rect_right r" "rect_top r < rect_bottom r"
  shows "rect_left (resize_region_by r dx dy src) < rect_right (resize_region_by r dx dy src)"
    "rect_top (resize_region_by r dx dy src) < rect_bottom (resize_region_by r dx dy src)"
  using assms by (auto simp: resize_region_by_def Let_def conv_simps split: option.split)

lemma default_region_in:
  assumes "source_ok src"
  shows "region_in src (default_region_for_source src)"
proof -
  let ?w = "max (rect_width src div 2) 1" and ?h = "max (rect_height src div 2) 1"
  have axis: "sint a \<le> sint (sadd a (ucast (min ((n - max (n div 2) 1) div 2) 2147483647))) \<and>
      sint (sadd a (ucast (min ((n - max (n div 2) 1) div 2) 2147483647))) + uint (max (n div 2) 1) \<le> sint a + uint n
      \<and> 0 < uint (max (n div 2) 1)" if n: "0 < uint n" for a :: i32 and n :: u32
  proof -
    define half where "half = max (uint n div 2) 1"
    have m: "uint (max (n div 2) 1) = half"
      by (simp add: half_def max_def word_le_def uint_div)
    have hn: "1 \<le> half" "half \<le> uint n" using n by (auto simp: half_def)
    then have "uint (n - max (n div 2) 1) = uint n - half"
      by (simp add: uint_sub_if' m)
    then have d: "uint ((n - max (n div 2) 1) div 2) = (uint n - half) div 2" by (simp add: uint_div)
    have "(uint n - half) div 2 \<le> 2147483647" using uint_u32_le [of n] hn by linarith
    then have u: "uint (min ((n - max (n div 2) 1) div 2) 2147483647) = (uint n - half) div 2"
      by (simp add: uint_min d)
    have "0 \<le> (uint n - half) div 2" using hn by simp
    then have "sint (word_of_int ((uint n - half) div 2) :: i32) = (uint n - half) div 2"
      using \<open>(uint n - half) div 2 \<le> 2147483647\<close> by (intro sint_i32_of_int) linarith+
    then have "sint (ucast (min ((n - max (n div 2) 1) div 2) 2147483647) :: i32) = (uint n - half) div 2"
      by (simp flip: u)
    then show ?thesis
      using hn width_bounds(1,2) [of a] uint_u32_le [of n] by (simp add: m sint_sadd clamp_def) presburger
  qed
  show ?thesis
    using axis [of "rect_width src" "rect_x src"] axis [of "rect_height src" "rect_y src"] assms
    by (simp add: source_ok_def region_simps default_region_for_source_def Let_def edge_defs)
qed

lemma initial_selection_in:
  assumes "source_ok src" "initial_selection t last_region src = (Some r, kind)"
    and "\<And>q. last_region = Some q \<Longrightarrow> rect_left q < rect_right q \<and> rect_top q < rect_bottom q"
  shows "region_in src r"
  using assms
  by (cases t) (auto simp: fit_region_to_source_def region_in_self default_region_in clamp_within_in
      split: option.splits)

subsection \<open>What the drags promise\<close>

text \<open>Resizing a region by a handle keeps it a non-empty region of the source, leaves every edge the
  handle does not carry where it was, puts a carried edge under the pointer wherever that leaves the
  minimum size inside the source, and never shrinks a side below the minimum size (or below what it
  was, when that is less).\<close>

theorem resize_region_spec:
  assumes "source_ok src" and "region_in src original" and "r = resize_region original handle p src"
  shows "region_in src r \<and>
    (mask_left (for_handle handle) \<or> rect_left r = rect_left original) \<and>
    (mask_right (for_handle handle) \<or> rect_right r = rect_right original) \<and>
    (mask_top (for_handle handle) \<or> rect_top r = rect_top original) \<and>
    (mask_bottom (for_handle handle) \<or> rect_bottom r = rect_bottom original) \<and>
    min MIN_REGION_SIZE (rect_right original - rect_left original) \<le> rect_right r - rect_left r \<and>
    min MIN_REGION_SIZE (rect_bottom original - rect_top original) \<le> rect_bottom r - rect_top r \<and>
    (mask_left (for_handle handle) \<and> rect_left src \<le> sint (pt_x p) \<and>
       sint (pt_x p) + MIN_REGION_SIZE \<le> rect_right original \<longrightarrow> rect_left r = sint (pt_x p)) \<and>
    (mask_right (for_handle handle) \<and> rect_left original + MIN_REGION_SIZE \<le> sint (pt_x p) \<and>
       sint (pt_x p) \<le> rect_right src \<longrightarrow> rect_right r = sint (pt_x p)) \<and>
    (mask_top (for_handle handle) \<and> rect_top src \<le> sint (pt_y p) \<and>
       sint (pt_y p) + MIN_REGION_SIZE \<le> rect_bottom original \<longrightarrow> rect_top r = sint (pt_y p)) \<and>
    (mask_bottom (for_handle handle) \<and> rect_top original + MIN_REGION_SIZE \<le> sint (pt_y p) \<and>
       sint (pt_y p) \<le> rect_bottom src \<longrightarrow> rect_bottom r = sint (pt_y p))"
proof -
  have o: "rect_left src \<le> rect_left original" "rect_left original < rect_right original"
    "rect_right original \<le> rect_right src" "rect_top src \<le> rect_top original"
    "rect_top original < rect_bottom original" "rect_bottom original \<le> rect_bottom src"
    using assms(2) by (auto simp: region_simps)
  note e = resize_region_edges [OF assms]
  note x = dragged_axis_ok [OF o(1-3) for_handle_one_side(1) e(1)]
    and y = dragged_axis_ok [OF o(4-6) for_handle_one_side(2) e(2)]
  show ?thesis using e(3) x(4-8) y(4-8) by blast
qed

definition sample_source :: rect where
  "sample_source = \<lparr>rect_x = 0, rect_y = 0, rect_width = 1920, rect_height = 1080\<rparr>"

definition sample_region :: rect where
  "sample_region = \<lparr>rect_x = 100, rect_y = 80, rect_width = 400, rect_height = 300\<rparr>"

lemma resize_region_spec_witness:
  "resize_region sample_region NorthWest \<lparr>pt_x = 498, pt_y = 20\<rparr> sample_source =
     \<lparr>rect_x = 492, rect_y = 20, rect_width = 8, rect_height = 360\<rparr> \<and>
   region_in sample_source (resize_region sample_region NorthWest \<lparr>pt_x = 498, pt_y = 20\<rparr> sample_source)"
proof
  show "resize_region sample_region NorthWest \<lparr>pt_x = 498, pt_y = 20\<rparr> sample_source =
     \<lparr>rect_x = 492, rect_y = 20, rect_width = 8, rect_height = 360\<rparr>" by code_simp
  have "source_ok sample_source" "region_in sample_source sample_region" by code_simp+
  then show "region_in sample_source (resize_region sample_region NorthWest \<lparr>pt_x = 498, pt_y = 20\<rparr> sample_source)"
    using resize_region_spec [of sample_source sample_region _ NorthWest "\<lparr>pt_x = 498, pt_y = 20\<rparr>"] by blast
qed

text \<open>Moving a region keeps its size and keeps it inside the source, and shifts it by exactly the
  pointer's displacement, stopped at the source's edges.\<close>

theorem move_region_spec:
  assumes "source_ok src" and "region_in src original" and "r = move_region original start p src"
  shows "region_in src r \<and> rect_width r = rect_width original \<and> rect_height r = rect_height original \<and>
    rect_left r = clamp (rect_left original + (sint (pt_x p) - sint (pt_x start)))
      (rect_left src) (rect_right src - uint (rect_width original)) \<and>
    rect_top r = clamp (rect_top original + (sint (pt_y p) - sint (pt_y start)))
      (rect_top src) (rect_bottom src - uint (rect_height original))"
  using move_region_edges [OF assms]
  by (simp add: rect_width_edges rect_height_edges) (simp add: assms(3) move_region_def Let_def)

lemma move_region_spec_witness:
  "region_in sample_source (move_region sample_region \<lparr>pt_x = 110, pt_y = 90\<rparr> \<lparr>pt_x = 2000, pt_y = 91\<rparr> sample_source) \<and>
   move_region sample_region \<lparr>pt_x = 110, pt_y = 90\<rparr> \<lparr>pt_x = 2000, pt_y = 91\<rparr> sample_source =
     \<lparr>rect_x = 1520, rect_y = 81, rect_width = 400, rect_height = 300\<rparr>"
proof
  have "source_ok sample_source" "region_in sample_source sample_region" by code_simp+
  then show "region_in sample_source (move_region sample_region \<lparr>pt_x = 110, pt_y = 90\<rparr> \<lparr>pt_x = 2000, pt_y = 91\<rparr> sample_source)"
    using move_region_spec [of sample_source sample_region _ "\<lparr>pt_x = 110, pt_y = 90\<rparr>" "\<lparr>pt_x = 2000, pt_y = 91\<rparr>"] by blast
  show "move_region sample_region \<lparr>pt_x = 110, pt_y = 90\<rparr> \<lparr>pt_x = 2000, pt_y = 91\<rparr> sample_source =
     \<lparr>rect_x = 1520, rect_y = 81, rect_width = 400, rect_height = 300\<rparr>" by code_simp
qed

end
