(* ===== verification/OverlayMachine.thy ===== *)
theory OverlayMachine
  imports RegionGeometry
begin

section \<open>The overlay's product-state machine\<close>

text \<open>
  \<open>crates/captastic-windows/src/overlay/machine.rs\<close>: the state the overlay owns, the inputs the
  window shell translates messages into, the effects it applies, and \<open>transition\<close> with every
  handler. A handler takes the model and returns the updated model with its effects, in order.
  Window handles are the shell's own values, hence a type parameter \<open>'w\<close>; the reason of an
  invalidation is a string.
\<close>

subsection \<open>Data\<close>

definition NUDGE_STEP :: i32 where "NUDGE_STEP = 1"
definition NUDGE_COARSE_STEP :: i32 where "NUDGE_COARSE_STEP = 10"
definition LOUPE_SLOW_DIP_PER_SECOND :: i32 where "LOUPE_SLOW_DIP_PER_SECOND = 150"
definition LOUPE_FAST_DIP_PER_SECOND :: i32 where "LOUPE_FAST_DIP_PER_SECOND = 600"
definition LOUPE_SLOW_SUSTAIN_MS :: u32 where "LOUPE_SLOW_SUSTAIN_MS = 120"
definition LOUPE_MIN_SAMPLE_MS :: u32 where "LOUPE_MIN_SAMPLE_MS = 8"

datatype preview_view = Live | Frozen

datatype confirm_intent_kind = IntentCapture | IntentPin | IntentEdit | IntentRecord

datatype recording_format = Gif | Mp4

record resize_drag =
  rd_handle :: resize_handle
  rd_original :: rect

record move_drag =
  md_original :: rect
  md_pointer_origin :: point

datatype loupe_mode = LoupeAuto | LoupeKey | LoupeOff

fun next_mode :: "loupe_mode \<Rightarrow> loupe_mode" where
  "next_mode LoupeAuto = LoupeKey"
| "next_mode LoupeKey = LoupeOff"
| "next_mode LoupeOff = LoupeAuto"

fun mode_label :: "loupe_mode \<Rightarrow> string" where
  "mode_label LoupeAuto = ''Zoom: Auto''"
| "mode_label LoupeKey = ''Zoom: Hold Z''"
| "mode_label LoupeOff = ''Zoom: Off''"

record loupe_state =
  loupe_mode_of :: loupe_mode
  key_held :: bool
  auto_visible :: bool
  last_sample :: "(point \<times> u32) option"
  slow_since :: "u32 option"

definition loupe_new :: "loupe_mode \<Rightarrow> loupe_state" where
  "loupe_new mode = \<lparr>loupe_mode_of = mode, key_held = False, auto_visible = False,
     last_sample = None, slow_since = None\<rparr>"

definition forget_motion :: "loupe_state \<Rightarrow> loupe_state" where
  "forget_motion l = l\<lparr>last_sample := None, slow_since := None, auto_visible := False\<rparr>"

record 'w window_candidate =
  cand_handle :: 'w
  cand_frame :: rect

record 'w overlay_model =
  om_source :: rect
  om_environment :: display_environment
  om_view :: preview_view
  om_initial_view :: preview_view
  om_view_toggle_available :: bool
  om_tool :: capture_tool
  om_selection :: "rect option"
  om_selection_kind :: "selection_kind option"
  om_selected_window :: "'w option"
  om_anchor :: "point option"
  om_dragging :: bool
  om_resizing :: "resize_drag option"
  om_moving_region :: "move_drag option"
  om_hovered_handle :: "resize_handle option"
  om_last_region :: "rect option"
  om_toolbar_position :: point
  om_toolbar_drag :: "point option"
  om_options_open :: bool
  om_dim_background :: bool
  om_clipboard_enabled :: bool
  om_file_output_enabled :: bool
  om_file_output_switchable :: bool
  om_pin_available :: bool
  om_edit_available :: bool
  om_record_format :: "recording_format option"
  om_record_armed :: bool
  om_hovered_control :: "toolbar_control option"
  om_pointer_local :: "point option"
  om_hovered :: "'w window_candidate option"
  om_snap_to_windows :: bool
  om_snap_targets :: "snap_targets option"
  om_loupe :: loupe_state
  om_active_snaps :: active_snaps

record modifiers =
  ctrl :: bool
  shift :: bool

definition nudge_step :: "modifiers \<Rightarrow> i32" where
  "nudge_step held = (if shift held then NUDGE_COARSE_STEP else NUDGE_STEP)"

datatype 'w overlay_input =
    PointerMoved point "'w window_candidate option" modifiers u32
  | PointerDown point "'w option" u32 modifiers
  | PointerUp point modifiers
  | DoubleClicked point modifiers
  | PointerCaptureLost
  | WindowPreviewResolved "rect option" confirm_intent_kind
  | SnapTargetsReady snap_targets
  | LoupeKeyChanged bool
  | Tick u32
  | ToggleView
  | Nudge i32 i32 bool
  | ConfirmRequested confirm_intent_kind
  | CancelRequested
  | DisplayConfigurationInvalidated string

datatype cursor_intent = ArrowCursor | MoveCursor | CrosshairCursor | ResizeCursor resize_handle

datatype 'w close_outcome =
    Confirmed rect selection_kind "'w option" confirm_intent_kind
  | Cancelled
  | ConfigurationInvalidated string

datatype 'w overlay_effect =
    SetCursor cursor_intent
  | Invalidate
  | CapturePointer
  | ReleasePointer
  | ClearDimensionLabel
  | ClearSelectedWindowFrame
  | RefreshWindowChrome
  | ClearLiveThumbnails
  | HideLiveThumbnails
  | RebuildOverviewCache
  | BuildWindowOverview
  | BuildSnapTargets
  | UpdateWindowPreview "'w option"
  | PersistToolbarCenter point
  | PersistInteraction "rect option"
  | PersistSnapPreference bool
  | PersistRegionZoom loupe_mode
  | RequestRecordingFormat recording_format
  | RequestFileOutput bool
  | Close "'w close_outcome"

type_synonym 'w handled = "'w overlay_model \<times> 'w overlay_effect list"

subsection \<open>Queries\<close>

definition region_drag_active :: "'w overlay_model \<Rightarrow> bool" where
  "region_drag_active m \<longleftrightarrow> om_resizing m \<noteq> None \<or> om_moving_region m \<noteq> None \<or> om_anchor m \<noteq> None"

definition view_tag_visible :: "'w overlay_model \<Rightarrow> bool" where
  "view_tag_visible m \<longleftrightarrow> om_view m = Frozen \<and> om_tool m \<noteq> WindowTool \<and> om_hovered_control m = None"

definition view_toggle_enabled :: "'w overlay_model \<Rightarrow> bool" where
  "view_toggle_enabled m \<longleftrightarrow> om_view_toggle_available m \<and> om_tool m \<noteq> WindowTool"

definition loupe_visible :: "'w overlay_model \<Rightarrow> bool" where
  "loupe_visible m \<longleftrightarrow>
     (if om_tool m \<noteq> RegionTool \<or> loupe_mode_of (om_loupe m) = LoupeOff \<or> om_pointer_local m = None \<or>
         om_hovered_control m \<noteq> None
      then False
      else key_held (om_loupe m) \<or>
        (loupe_mode_of (om_loupe m) = LoupeAuto \<and> auto_visible (om_loupe m) \<and> region_drag_active m))"

definition loupe_timer_wanted :: "'w overlay_model \<Rightarrow> bool" where
  "loupe_timer_wanted m \<longleftrightarrow>
     om_tool m = RegionTool \<and> loupe_mode_of (om_loupe m) = LoupeAuto \<and> region_drag_active m"

fun cursor_for_handle :: "resize_handle option \<Rightarrow> cursor_intent" where
  "cursor_for_handle (Some handle) = ResizeCursor handle"
| "cursor_for_handle None = CrosshairCursor"

definition confirm_intent :: "modifiers \<Rightarrow> confirm_intent_kind" where
  "confirm_intent held = (if ctrl held then IntentEdit else if shift held then IntentPin else IntentCapture)"

definition request_snap_targets :: "'w overlay_model \<Rightarrow> 'w overlay_effect list" where
  "request_snap_targets m =
     (if om_snap_to_windows m \<and> om_tool m = RegionTool \<and> om_snap_targets m = None
      then [BuildSnapTargets] else [])"

subsection \<open>Snapped geometry\<close>

definition snap_threshold :: "'w overlay_model \<Rightarrow> int" where
  "snap_threshold m = sint (px (metrics (om_environment m)) SNAP_THRESHOLD_DIP)"

definition active_targets :: "'w overlay_model \<Rightarrow> modifiers \<Rightarrow> snap_targets option" where
  "active_targets m held = (if om_snap_to_windows m \<and> \<not> ctrl held then om_snap_targets m else None)"

definition snap_anchor :: "'w overlay_model \<Rightarrow> point \<Rightarrow> modifiers \<Rightarrow> point" where
  "snap_anchor m anchor held =
     (case active_targets m held of
        None \<Rightarrow> anchor
      | Some targets \<Rightarrow>
          (case snap_point (sint (pt_x anchor)) (sint (pt_y anchor)) targets (snap_threshold m) of
             ((x, y), _) \<Rightarrow> as_point x y))"

text \<open>One axis of the rubber band's free corner: its position and the hit that stands.\<close>

definition free_corner :: "int \<Rightarrow> int \<Rightarrow> snap_hit option \<Rightarrow> int \<times> snap_hit option" where
  "free_corner fixed pointer hit =
     (case hit of
        None \<Rightarrow> (pointer, None)
      | Some h \<Rightarrow> if hit_position h = fixed then (pointer, None) else (hit_position h, Some h))"

definition or_hit :: "'a option \<Rightarrow> 'a option \<Rightarrow> 'a option" where
  "or_hit a b = (case a of None \<Rightarrow> b | Some x \<Rightarrow> Some x)"

definition rect_from_points_snapped ::
  "'w overlay_model \<Rightarrow> point \<Rightarrow> point \<Rightarrow> modifiers \<Rightarrow> rect option \<times> active_snaps" where
  "rect_from_points_snapped m anchor pointer held =
     (case active_targets m held of
        None \<Rightarrow> (rect_from_points (om_source m) anchor pointer, NO_SNAPS)
      | Some targets \<Rightarrow>
          let threshold = snap_threshold m;
              anchor_hits = snd (snap_point (sint (pt_x anchor)) (sint (pt_y anchor)) targets threshold);
              pointer_hits = snd (snap_point (sint (pt_x pointer)) (sint (pt_y pointer)) targets threshold);
              (corner_x, hit_x) = free_corner (sint (pt_x anchor)) (sint (pt_x pointer)) (fst pointer_hits);
              (corner_y, hit_y) = free_corner (sint (pt_y anchor)) (sint (pt_y pointer)) (snd pointer_hits);
              r = rect_from_points (om_source m) anchor (as_point corner_x corner_y);
              guides = (or_hit hit_x (fst anchor_hits), or_hit hit_y (snd anchor_hits))
          in (r, case r of None \<Rightarrow> NO_SNAPS | Some r \<Rightarrow> guides_for r guides))"

text \<open>The pointer's coordinate on one axis of a resize, snapped when the handle moves that axis.\<close>

definition resize_axis ::
  "edge_mask \<Rightarrow> snap_axis \<Rightarrow> int \<Rightarrow> snap_targets \<Rightarrow> int \<Rightarrow> int \<times> snap_hit option" where
  "resize_axis edges axis v targets threshold =
     (if \<not> mask_covers edges axis then (v, None)
      else case snap_coordinate v targets axis threshold of
             None \<Rightarrow> (v, None)
           | Some hit \<Rightarrow> (hit_position hit, Some hit))"

definition resize_region_snapped ::
  "'w overlay_model \<Rightarrow> resize_drag \<Rightarrow> point \<Rightarrow> modifiers \<Rightarrow> rect \<times> active_snaps" where
  "resize_region_snapped m drag pointer held =
     (case active_targets m held of
        None \<Rightarrow> (resize_region (rd_original drag) (rd_handle drag) pointer (om_source m), NO_SNAPS)
      | Some targets \<Rightarrow>
          let threshold = snap_threshold m;
              edges = for_handle (rd_handle drag);
              (x, hit_x) = resize_axis edges AxisX (sint (pt_x pointer)) targets threshold;
              (y, hit_y) = resize_axis edges AxisY (sint (pt_y pointer)) targets threshold;
              r = resize_region (rd_original drag) (rd_handle drag) (as_point x y) (om_source m)
          in (r, guides_for r (hit_x, hit_y)))"

definition move_region_snapped ::
  "'w overlay_model \<Rightarrow> move_drag \<Rightarrow> point \<Rightarrow> modifiers \<Rightarrow> rect \<times> active_snaps" where
  "move_region_snapped m drag pointer held =
     (let moved = move_region (md_original drag) (md_pointer_origin drag) pointer (om_source m) in
      case active_targets m held of
        None \<Rightarrow> (moved, NO_SNAPS)
      | Some targets \<Rightarrow>
          let (tx, ty) = snap_translation (edges_of moved) targets (snap_threshold m);
              snapped = clamp_within (translated moved
                (word_of_int (case tx of None \<Rightarrow> 0 | Some (delta, _) \<Rightarrow> delta))
                (word_of_int (case ty of None \<Rightarrow> 0 | Some (delta, _) \<Rightarrow> delta))) (om_source m)
          in (snapped, guides_for snapped (map_option snd tx, map_option snd ty)))"

subsection \<open>Pointer speed\<close>

text \<open>\<open>abs\<close> on \<open>i32\<close>, which wraps for the least value.\<close>

definition i32_abs :: "i32 \<Rightarrow> i32" where
  "i32_abs a = (if sint a < 0 then - a else a)"

definition i64_saturating_mul :: "int \<Rightarrow> int \<Rightarrow> int" where
  "i64_saturating_mul a b = clamp (a * b) (- 9223372036854775808) 9223372036854775807"

definition pointer_speed :: "point \<Rightarrow> point \<Rightarrow> u32 \<Rightarrow> int" where
  "pointer_speed p previous elapsed =
     (let distance = max (sint (i32_abs (ssub (pt_x p) (pt_x previous))))
          (sint (i32_abs (ssub (pt_y p) (pt_y previous))))
      in quot (i64_saturating_mul distance 1000) (uint elapsed))"

definition observe_motion :: "ui_metrics \<Rightarrow> point \<Rightarrow> u32 \<Rightarrow> loupe_state \<Rightarrow> loupe_state" where
  "observe_motion metric p time_ms l =
     (let slow = sint (px metric LOUPE_SLOW_DIP_PER_SECOND);
          fast = sint (px metric LOUPE_FAST_DIP_PER_SECOND)
      in case last_sample l of
           None \<Rightarrow> l\<lparr>last_sample := Some (p, time_ms)\<rparr>
         | Some (previous_point, previous_time) \<Rightarrow>
             let elapsed = time_ms - previous_time in
             if elapsed < LOUPE_MIN_SAMPLE_MS then l
             else
               let speed = pointer_speed p previous_point elapsed;
                   l = l\<lparr>last_sample := Some (p, time_ms)\<rparr>
               in if fast < speed then l\<lparr>auto_visible := False, slow_since := None\<rparr>
                  else if speed < slow
                  then (case slow_since l of
                      Some since \<Rightarrow>
                        if LOUPE_SLOW_SUSTAIN_MS \<le> time_ms - since then l\<lparr>auto_visible := True\<rparr> else l
                    | None \<Rightarrow> l\<lparr>slow_since := Some time_ms\<rparr>)
                  else l)"

definition observe_pointer_motion :: "'w overlay_model \<Rightarrow> point \<Rightarrow> u32 \<Rightarrow> 'w overlay_model" where
  "observe_pointer_motion m p time_ms =
     m\<lparr>om_loupe := observe_motion (metrics (om_environment m)) p time_ms (om_loupe m)\<rparr>"

definition forget_pointer_motion :: "'w overlay_model \<Rightarrow> 'w overlay_model" where
  "forget_pointer_motion m = m\<lparr>om_loupe := forget_motion (om_loupe m)\<rparr>"

definition loupe_key_changed :: "'w overlay_model \<Rightarrow> bool \<Rightarrow> 'w handled" where
  "loupe_key_changed m held =
     (if key_held (om_loupe m) = held then (m, [])
      else
        let m' = m\<lparr>om_loupe := (om_loupe m)\<lparr>key_held := held\<rparr>\<rparr> in
        if loupe_visible m' = loupe_visible m then (m', []) else (m', [Invalidate]))"

definition loupe_tick :: "'w overlay_model \<Rightarrow> u32 \<Rightarrow> 'w handled" where
  "loupe_tick m time_ms =
     (case last_sample (om_loupe m) of
        None \<Rightarrow>
          (m\<lparr>om_loupe := (om_loupe m)\<lparr>last_sample := Some
             (case om_pointer_local m of
                None \<Rightarrow> \<lparr>pt_x = 0, pt_y = 0\<rparr>
              | Some l \<Rightarrow> \<lparr>pt_x = sadd (pt_x l) (rect_x (om_source m)),
                  pt_y = sadd (pt_y l) (rect_y (om_source m))\<rparr>, time_ms)\<rparr>\<rparr>, [])
      | Some (p, _) \<Rightarrow>
          let m' = observe_pointer_motion m p time_ms in
          if loupe_visible m' = loupe_visible m then (m', []) else (m', [Invalidate]))"

subsection \<open>Confirming, cancelling and the view\<close>

definition persist_interaction :: "'w overlay_model \<Rightarrow> 'w handled" where
  "persist_interaction m =
     (let region = latest_interaction_region (om_tool m) (om_selection m) (om_selection_kind m) (om_last_region m)
      in (m\<lparr>om_last_region := region\<rparr>, [PersistInteraction region]))"

definition intent_available :: "'w overlay_model \<Rightarrow> confirm_intent_kind \<Rightarrow> bool" where
  "intent_available m intent =
     (case intent of
        IntentCapture \<Rightarrow> True
      | IntentPin \<Rightarrow> om_pin_available m
      | IntentEdit \<Rightarrow> om_edit_available m
      | IntentRecord \<Rightarrow> om_record_format m \<noteq> None)"

definition confirm :: "'w overlay_model \<Rightarrow> confirm_intent_kind \<Rightarrow> 'w handled" where
  "confirm m intent =
     (case (om_selection m, om_selection_kind m) of
        (Some r, Some kind) \<Rightarrow>
          if \<not> intent_available m intent then (m, [])
          else case persist_interaction m of
            (m, effects) \<Rightarrow> (m, effects @ [Close (Confirmed r kind (om_selected_window m) intent)])
      | _ \<Rightarrow> (m, []))"

definition confirm_or_capture :: "'w overlay_model \<Rightarrow> confirm_intent_kind \<Rightarrow> 'w handled" where
  "confirm_or_capture m intent =
     (case confirm m intent of
        (m, effects) \<Rightarrow>
          if effects = [] \<and> intent \<noteq> IntentCapture then confirm m IntentCapture else (m, effects))"

definition cancel :: "'w overlay_model \<Rightarrow> 'w handled" where
  "cancel m = (case persist_interaction m of (m, effects) \<Rightarrow> (m, effects @ [Close Cancelled]))"

definition toggle_view :: "'w overlay_model \<Rightarrow> 'w handled" where
  "toggle_view m =
     (if \<not> view_toggle_enabled m then (m, [])
      else (m\<lparr>om_view := (case om_view m of Live \<Rightarrow> Frozen | Frozen \<Rightarrow> Live)\<rparr>, [Invalidate]))"

definition window_preview_resolved ::
  "'w overlay_model \<Rightarrow> rect option \<Rightarrow> confirm_intent_kind \<Rightarrow> 'w handled" where
  "window_preview_resolved m r intent =
     (let m = m\<lparr>om_selection := r, om_selection_kind := map_option (\<lambda>_. WindowKind) r\<rparr> in
      if om_selection m \<noteq> None
      then confirm_or_capture m (if om_record_armed m then IntentRecord else intent)
      else (m, [RebuildOverviewCache, Invalidate]))"

definition double_clicked :: "'w overlay_model \<Rightarrow> point \<Rightarrow> modifiers \<Rightarrow> 'w handled" where
  "double_clicked m p held =
     (let l = toolbar_new (om_environment m) (om_toolbar_position m) in
      if hit_test l (local_point (om_source m) p) (om_options_open m) \<noteq> None then (m, [])
      else confirm_or_capture m (confirm_intent held))"

definition pointer_capture_lost :: "'w overlay_model \<Rightarrow> 'w handled" where
  "pointer_capture_lost m =
     (let toolbar_dragging = om_toolbar_drag m \<noteq> None;
          m = forget_pointer_motion (m\<lparr>om_toolbar_drag := None, om_resizing := None,
            om_moving_region := None, om_anchor := None, om_dragging := False,
            om_hovered_handle := None, om_active_snaps := NO_SNAPS\<rparr>)
      in (m, (if toolbar_dragging \<and> om_tool m = WindowTool then [RefreshWindowChrome] else []) @
           [SetCursor ArrowCursor, Invalidate]))"

definition nudge :: "'w overlay_model \<Rightarrow> i32 \<Rightarrow> i32 \<Rightarrow> bool \<Rightarrow> 'w handled" where
  "nudge m dx dy resize =
     (if om_tool m \<noteq> RegionTool \<or> om_selection_kind m \<noteq> Some RegionKind \<or> om_options_open m \<or>
         om_anchor m \<noteq> None \<or> om_resizing m \<noteq> None \<or> om_moving_region m \<noteq> None
      then (m, [])
      else case om_selection m of
        None \<Rightarrow> (m, [])
      | Some region \<Rightarrow>
          let adjusted = clamp_within
                (if resize then resize_region_by region dx dy (om_source m)
                 else translated region (scast dx) (scast dy)) (om_source m);
              had_guides = (om_active_snaps m \<noteq> NO_SNAPS);
              m = m\<lparr>om_active_snaps := NO_SNAPS\<rparr>
          in if adjusted = region \<and> \<not> had_guides then (m, [])
             else (m\<lparr>om_selection := Some adjusted\<rparr>, [Invalidate]))"

subsection \<open>Tools and the toolbar\<close>

definition window_sources_pruned :: "'w overlay_model \<Rightarrow> 'w list \<Rightarrow> 'w handled" where
  "window_sources_pruned m dead =
     (let m = (case om_hovered m of
            Some c \<Rightarrow> if cand_handle c \<in> set dead then m\<lparr>om_hovered := None\<rparr> else m
          | None \<Rightarrow> m)
      in case om_selected_window m of
           Some handle \<Rightarrow>
             if handle \<in> set dead then (m\<lparr>om_selected_window := None\<rparr>, [ClearSelectedWindowFrame]) else (m, [])
         | None \<Rightarrow> (m, []))"

text \<open>The part of \<open>activate_tool\<close> that runs only when the tool changes.\<close>

definition leave_tool :: "'w overlay_model \<Rightarrow> 'w handled" where
  "leave_tool m =
     (m\<lparr>om_last_region := latest_interaction_region (om_tool m) (om_selection m) (om_selection_kind m)
          (om_last_region m),
        om_selection := None, om_selection_kind := None, om_selected_window := None,
        om_hovered_handle := None, om_hovered := None\<rparr>,
      [ClearDimensionLabel, ClearSelectedWindowFrame])"

text \<open>The match of \<open>activate_tool\<close> on the tool being entered.\<close>

definition enter_tool :: "'w overlay_model \<Rightarrow> capture_tool \<Rightarrow> bool \<Rightarrow> 'w handled" where
  "enter_tool m t tool_changed =
     (case t of
        FullDisplayTool \<Rightarrow>
          (m\<lparr>om_selection := Some (om_source m), om_selection_kind := Some DisplayKind,
             om_selected_window := None\<rparr>, [ClearSelectedWindowFrame])
      | WindowTool \<Rightarrow> (m, [BuildWindowOverview])
      | RegionTool \<Rightarrow>
          if tool_changed
          then (case initial_selection RegionTool (om_last_region m) (om_source m) of
              (selection, kind) \<Rightarrow> (m\<lparr>om_selection := selection, om_selection_kind := kind\<rparr>, []))
          else (m, []))"

definition activate_tool :: "'w overlay_model \<Rightarrow> capture_tool \<Rightarrow> 'w handled" where
  "activate_tool m t =
     (let m = forget_pointer_motion (m\<lparr>om_anchor := None, om_dragging := False, om_resizing := None,
            om_moving_region := None, om_active_snaps := NO_SNAPS, om_record_armed := False\<rparr>);
          tool_changed = (om_tool m \<noteq> t);
          (m, left) = (if tool_changed then leave_tool m else (m, []));
          m = m\<lparr>om_tool := t, om_options_open := False\<rparr>;
          (m, entered) = enter_tool m t tool_changed
      in (m, left @ entered @ request_snap_targets m @ (if t \<noteq> WindowTool then [HideLiveThumbnails] else [])))"

fun next_format :: "recording_format \<Rightarrow> recording_format" where
  "next_format Gif = Mp4"
| "next_format Mp4 = Gif"

text \<open>The toolbar drag a press on the bar's background begins.\<close>

definition start_toolbar_drag :: "'w overlay_model \<Rightarrow> point \<Rightarrow> 'w handled" where
  "start_toolbar_drag m l =
     (let m = m\<lparr>om_options_open := False\<rparr> in
      (m\<lparr>om_toolbar_drag := Some \<lparr>pt_x = ssub (pt_x l) (pt_x (om_toolbar_position m)),
           pt_y = ssub (pt_y l) (pt_y (om_toolbar_position m))\<rparr>\<rparr>,
       (if om_tool m = WindowTool then [ClearLiveThumbnails, RebuildOverviewCache] else []) @ [CapturePointer]))"

definition refresh_if_window :: "'w overlay_model \<Rightarrow> 'w overlay_effect list" where
  "refresh_if_window m = (if om_tool m = WindowTool then [RefreshWindowChrome] else [])"

text \<open>
  The arms of the control match: \<open>Inr\<close> is an arm that falls through to the cursor and the repaint
  after the match, \<open>Inl\<close> one that returns.
\<close>

definition press_control ::
  "'w overlay_model \<Rightarrow> toolbar_control \<Rightarrow> bool \<Rightarrow> point \<Rightarrow> modifiers \<Rightarrow> 'w handled + 'w handled" where
  "press_control m control in_toolbar_bounds l held =
     (case control of
        Background \<Rightarrow> if in_toolbar_bounds then Inr (start_toolbar_drag m l) else Inr (m, [])
      | FullDisplayControl \<Rightarrow> Inr (activate_tool m FullDisplayTool)
      | WindowControl \<Rightarrow> Inr (activate_tool m WindowTool)
      | RegionControl \<Rightarrow> Inr (activate_tool m RegionTool)
      | Options \<Rightarrow> Inr (m\<lparr>om_options_open := \<not> om_options_open m\<rparr>, refresh_if_window m)
      | Capture \<Rightarrow> Inl (confirm_or_capture m (confirm_intent held))
      | Pin \<Rightarrow> Inl (confirm m IntentPin)
      | Edit \<Rightarrow> Inl (confirm m IntentEdit)
      | Record \<Rightarrow>
          if om_tool m = WindowTool \<and> om_selection m = None \<and> om_record_format m \<noteq> None
          then Inr (m\<lparr>om_record_armed := \<not> om_record_armed m\<rparr>, [RefreshWindowChrome])
          else Inl (confirm m IntentRecord)
      | DimBackground \<Rightarrow> Inr (m\<lparr>om_dim_background := \<not> om_dim_background m\<rparr>, [])
      | SnapToWindows \<Rightarrow>
          let m = m\<lparr>om_snap_to_windows := \<not> om_snap_to_windows m, om_active_snaps := NO_SNAPS\<rparr> in
          Inr (m, request_snap_targets m @ [PersistSnapPreference (om_snap_to_windows m)])
      | RegionZoomControl \<Rightarrow>
          let mode = next_mode (loupe_mode_of (om_loupe m));
              m = forget_pointer_motion (m\<lparr>om_loupe := (om_loupe m)\<lparr>loupe_mode_of := mode\<rparr>\<rparr>)
          in Inr (m, [PersistRegionZoom mode])
      | PreviewViewControl \<Rightarrow> Inr (toggle_view m)
      | ClipboardDestination \<Rightarrow> Inr (m, [])
      | FileOutputDestination \<Rightarrow>
          if om_file_output_switchable m
          then let m = m\<lparr>om_file_output_enabled := \<not> om_file_output_enabled m\<rparr>
               in Inr (m, [RequestFileOutput (om_file_output_enabled m)])
          else Inr (m, [])
      | RecordFormat \<Rightarrow>
          (case om_record_format m of
             Some f \<Rightarrow> Inr (m\<lparr>om_record_format := Some (next_format f)\<rparr>, [RequestRecordingFormat (next_format f)])
           | None \<Rightarrow> Inr (m, []))
      | Cancel \<Rightarrow> Inl (cancel m))"

definition toolbar_control_pressed ::
  "'w overlay_model \<Rightarrow> toolbar_control \<Rightarrow> bool \<Rightarrow> point \<Rightarrow> modifiers \<Rightarrow> 'w handled" where
  "toolbar_control_pressed m control in_toolbar_bounds l held =
     (let m = m\<lparr>om_anchor := None, om_dragging := False, om_resizing := None, om_moving_region := None,
          om_hovered_control := Some control\<rparr>
      in case press_control m control in_toolbar_bounds l held of
           Inl handled \<Rightarrow> handled
         | Inr (m, effects) \<Rightarrow> (m, effects @ [SetCursor ArrowCursor, Invalidate]))"

subsection \<open>The pointer\<close>

text \<open>\<open>toolbar_drag\<close> is in hand: the toolbar follows the pointer inside the work area.\<close>

definition drag_toolbar :: "'w overlay_model \<Rightarrow> point \<Rightarrow> point \<Rightarrow> 'w handled" where
  "drag_toolbar m l offset =
     (m\<lparr>om_toolbar_position := clamp_origin (om_environment m)
          \<lparr>pt_x = ssub (pt_x l) (pt_x offset), pt_y = ssub (pt_y l) (pt_y offset)\<rparr>,
        om_hovered_control := Some Background, om_hovered_handle := None, om_hovered := None\<rparr>,
      [SetCursor ArrowCursor, Invalidate])"

definition past_threshold :: "point \<Rightarrow> point \<Rightarrow> bool" where
  "past_threshold p anchor \<longleftrightarrow>
     DRAG_THRESHOLD \<le> sint (i32_abs (pt_x p - pt_x anchor)) \<or>
     DRAG_THRESHOLD \<le> sint (i32_abs (pt_y p - pt_y anchor))"

text \<open>A press that may become, or already is, a rubber band.\<close>

definition drag_anchor :: "'w overlay_model \<Rightarrow> point \<Rightarrow> point \<Rightarrow> modifiers \<Rightarrow> 'w handled" where
  "drag_anchor m anchor p held =
     (let m = (if past_threshold p anchor \<and> \<not> om_dragging m
            then m\<lparr>om_anchor := Some (snap_anchor m anchor held), om_dragging := True\<rparr> else m);
          m = (if om_dragging m
            then case rect_from_points_snapped m (case om_anchor m of Some a \<Rightarrow> a | None \<Rightarrow> anchor) p held of
              (r, snaps) \<Rightarrow> m\<lparr>om_selection := r, om_active_snaps := snaps,
                om_selection_kind := Some RegionKind, om_selected_window := None, om_hovered := None\<rparr>
            else m)
      in (m\<lparr>om_hovered_handle := None\<rparr>, [SetCursor CrosshairCursor]))"

text \<open>The pointer over a region at rest, and over nothing.\<close>

definition hover_region :: "'w overlay_model \<Rightarrow> point \<Rightarrow> 'w handled" where
  "hover_region m p =
     (let handle = (case om_selection m of None \<Rightarrow> None
            | Some selection \<Rightarrow> hit_test_resize_handle selection p (metrics (om_environment m)));
          m = m\<lparr>om_hovered_handle := handle, om_hovered := None\<rparr>
      in if handle = None \<and> (case om_selection m of None \<Rightarrow> False | Some selection \<Rightarrow> rect_contains selection p)
         then (m, [SetCursor MoveCursor])
         else (m, [SetCursor (cursor_for_handle handle)]))"

definition move_pointer ::
  "'w overlay_model \<Rightarrow> point \<Rightarrow> point \<Rightarrow> 'w window_candidate option \<Rightarrow> modifiers \<Rightarrow> 'w handled" where
  "move_pointer m l p window_hover held =
     (let layout = toolbar_new (om_environment m) (om_toolbar_position m);
          m = m\<lparr>om_hovered_control := (if \<not> region_drag_active m
            then hit_test layout l (om_options_open m) else None)\<rparr>
      in if om_hovered_control m \<noteq> None then (m\<lparr>om_hovered := None\<rparr>, [SetCursor ArrowCursor])
         else case om_resizing m of
           Some drag \<Rightarrow>
             (case resize_region_snapped m drag p held of
                (r, snaps) \<Rightarrow>
                  (m\<lparr>om_selection := Some r, om_active_snaps := snaps,
                     om_hovered_handle := Some (rd_handle drag)\<rparr>, [SetCursor (ResizeCursor (rd_handle drag))]))
         | None \<Rightarrow>
           (case om_moving_region m of
              Some drag \<Rightarrow>
                (case move_region_snapped m drag p held of
                   (r, snaps) \<Rightarrow>
                     (m\<lparr>om_selection := Some r, om_active_snaps := snaps, om_hovered_handle := None\<rparr>,
                      [SetCursor MoveCursor]))
            | None \<Rightarrow>
              (case om_anchor m of
                 Some anchor \<Rightarrow> drag_anchor m anchor p held
               | None \<Rightarrow>
                   if om_tool m = RegionTool \<and> om_selection_kind m = Some RegionKind then hover_region m p
                   else if om_tool m = WindowTool
                   then (m\<lparr>om_hovered := window_hover, om_hovered_handle := None\<rparr>, [SetCursor ArrowCursor])
                   else (m\<lparr>om_hovered := None, om_hovered_handle := None\<rparr>,
                     [SetCursor (if om_tool m = RegionTool then CrosshairCursor else ArrowCursor)]))))"

definition pointer_moved ::
  "'w overlay_model \<Rightarrow> point \<Rightarrow> 'w window_candidate option \<Rightarrow> modifiers \<Rightarrow> u32 \<Rightarrow> 'w handled" where
  "pointer_moved m p window_hover held time_ms =
     (let l = local_point (om_source m) p;
          m = observe_pointer_motion (m\<lparr>om_pointer_local := Some l\<rparr>) p time_ms
      in case om_toolbar_drag m of
           Some offset \<Rightarrow> drag_toolbar m l offset
         | None \<Rightarrow>
             (case move_pointer m l p window_hover held of
                (m, effects) \<Rightarrow> (m, effects @ (if om_tool m \<noteq> WindowTool then [Invalidate] else []))))"

text \<open>A press under the Region tool: on a handle, inside the region, or for a new one.\<close>

definition press_region :: "'w overlay_model \<Rightarrow> point \<Rightarrow> 'w handled" where
  "press_region m p =
     (let existing = (if om_selection_kind m = Some RegionKind then om_selection m else None);
          handle = (case existing of None \<Rightarrow> None
            | Some selection \<Rightarrow> hit_test_resize_handle selection p (metrics (om_environment m)))
      in case (existing, handle) of
           (Some original, Some handle) \<Rightarrow>
             (m\<lparr>om_resizing := Some \<lparr>rd_handle = handle, rd_original = original\<rparr>, om_moving_region := None,
                om_hovered_handle := Some handle, om_anchor := None, om_dragging := False\<rparr>,
              [SetCursor (ResizeCursor handle), CapturePointer, Invalidate])
         | _ \<Rightarrow>
             if (case existing of None \<Rightarrow> False | Some selection \<Rightarrow> rect_contains selection p)
             then (m\<lparr>om_moving_region := map_option (\<lambda>original. \<lparr>md_original = original, md_pointer_origin = p\<rparr>) existing,
                     om_anchor := None, om_dragging := False, om_hovered_handle := None\<rparr>,
                   [SetCursor MoveCursor, CapturePointer, Invalidate])
             else (m\<lparr>om_anchor := Some p, om_dragging := False, om_resizing := None, om_moving_region := None,
                     om_selection := None, om_selection_kind := None, om_selected_window := None,
                     om_hovered_handle := None, om_hovered := None\<rparr>,
                   [ClearDimensionLabel, SetCursor CrosshairCursor, CapturePointer, Invalidate]))"

definition pointer_down ::
  "'w overlay_model \<Rightarrow> point \<Rightarrow> 'w option \<Rightarrow> u32 \<Rightarrow> modifiers \<Rightarrow> 'w handled" where
  "pointer_down m p window_slot time_ms held =
     (let l = local_point (om_source m) p;
          layout = toolbar_new (om_environment m) (om_toolbar_position m)
      in case hit_test layout l (om_options_open m) of
           Some control \<Rightarrow> toolbar_control_pressed m control (ui_contains (tl_bounds layout) l) l held
         | None \<Rightarrow>
             let m = m\<lparr>om_loupe := (forget_motion (om_loupe m))\<lparr>last_sample := Some (p, time_ms)\<rparr>,
                   om_active_snaps := NO_SNAPS, om_hovered_control := None\<rparr>;
                 options_were_open = om_options_open m;
                 m = m\<lparr>om_options_open := False\<rparr>
             in (case om_tool m of
                   WindowTool \<Rightarrow>
                     (m\<lparr>om_selected_window := window_slot\<rparr>,
                      (if options_were_open then [RefreshWindowChrome] else []) @ [UpdateWindowPreview window_slot])
                 | FullDisplayTool \<Rightarrow> (m, [Invalidate])
                 | RegionTool \<Rightarrow>
                     (case press_region m p of (m, effects) \<Rightarrow> (m, effects @ request_snap_targets m))))"

text \<open>What a release commits, and where the pointer is afterwards.\<close>

definition commit_region :: "'w overlay_model \<Rightarrow> rect option \<Rightarrow> 'w overlay_model" where
  "commit_region m r = m\<lparr>om_selection := r, om_selection_kind := Some RegionKind, om_selected_window := None\<rparr>"

definition release_region :: "'w overlay_model \<Rightarrow> point \<Rightarrow> modifiers \<Rightarrow> 'w overlay_model" where
  "release_region m p held =
     (case om_resizing m of
        Some drag \<Rightarrow> let m = m\<lparr>om_resizing := None\<rparr> in
          commit_region m (Some (fst (resize_region_snapped m drag p held)))
      | None \<Rightarrow>
        (case om_moving_region m of
           Some drag \<Rightarrow> let m = m\<lparr>om_moving_region := None\<rparr> in
             commit_region m (Some (fst (move_region_snapped m drag p held)))
         | None \<Rightarrow>
           (case om_anchor m of
              Some anchor \<Rightarrow> let m = m\<lparr>om_anchor := None\<rparr> in
                if om_dragging m then commit_region m (fst (rect_from_points_snapped m anchor p held)) else m
            | None \<Rightarrow> m)))"

definition pointer_up :: "'w overlay_model \<Rightarrow> point \<Rightarrow> modifiers \<Rightarrow> 'w handled" where
  "pointer_up m p held =
     (if om_toolbar_drag m \<noteq> None
      then let m = m\<lparr>om_toolbar_drag := None\<rparr> in
        (m\<lparr>om_hovered_control := Some Background\<rparr>,
         [ReleasePointer, PersistToolbarCenter (om_toolbar_position m)] @ refresh_if_window m @
         [SetCursor ArrowCursor, Invalidate])
      else if om_tool m \<noteq> RegionTool then (m, [ReleasePointer])
      else
        let m = forget_pointer_motion ((release_region m p held)\<lparr>om_active_snaps := NO_SNAPS\<rparr>);
            m = m\<lparr>om_dragging := False,
              om_hovered_handle := (if om_selection_kind m = Some RegionKind
                then case om_selection m of None \<Rightarrow> None
                  | Some selection \<Rightarrow> hit_test_resize_handle selection p (metrics (om_environment m))
                else None)\<rparr>
        in (m, [ReleasePointer,
              SetCursor (if om_hovered_handle m = None \<and>
                  (case om_selection m of None \<Rightarrow> False | Some selection \<Rightarrow> rect_contains selection p)
                then MoveCursor else cursor_for_handle (om_hovered_handle m)),
              Invalidate]))"

subsection \<open>\<open>transition\<close>\<close>

fun transition :: "'w overlay_model \<Rightarrow> 'w overlay_input \<Rightarrow> 'w handled" where
  "transition m (PointerMoved p window_hover held time_ms) = pointer_moved m p window_hover held time_ms"
| "transition m (PointerDown p window_slot time_ms held) = pointer_down m p window_slot time_ms held"
| "transition m (WindowPreviewResolved r intent) = window_preview_resolved m r intent"
| "transition m (SnapTargetsReady targets) = (m\<lparr>om_snap_targets := Some targets\<rparr>, [])"
| "transition m (PointerUp p held) = pointer_up m p held"
| "transition m (DoubleClicked p held) = double_clicked m p held"
| "transition m PointerCaptureLost = pointer_capture_lost m"
| "transition m (LoupeKeyChanged held) = loupe_key_changed m held"
| "transition m (Tick time_ms) = loupe_tick m time_ms"
| "transition m ToggleView = toggle_view m"
| "transition m (Nudge dx dy resize) = nudge m dx dy resize"
| "transition m (ConfirmRequested intent) = confirm m intent"
| "transition m CancelRequested = cancel m"
| "transition m (DisplayConfigurationInvalidated reason) = (m, [Close (ConfigurationInvalidated reason)])"

end
