(* ===== verification/Overview.thy ===== *)
theory Overview
  imports Prelude
begin

section \<open>Building the window chooser\<close>

text \<open>
  The incremental build of the window chooser in \<open>crates/captastic-windows/src/overlay.rs\<close>: one tile
  per window, drawn live by the compositor where it can be, and rendered in batches where it cannot.
  A batch is one message the overlay posts to itself. Which windows report a size, which the
  compositor shows uncovered by the toolbar, and how a render ends are Windows' answers, arguments
  here; a surface is whether the tile has pixels.
\<close>

subsection \<open>The queue\<close>

definition MAX_IN_FLIGHT_WINDOW_RENDERS :: nat where "MAX_IN_FLIGHT_WINDOW_RENDERS = 2"
definition WINDOW_THUMBNAIL_RENDER_BATCH :: nat where
  "WINDOW_THUMBNAIL_RENDER_BATCH = MAX_IN_FLIGHT_WINDOW_RENDERS - 1"

record 'w overview_queue =
  oq_generation :: "64 word"
  oq_pending :: "('w \<times> u32) list"

definition queue_new :: "64 word \<Rightarrow> 'w list \<Rightarrow> 'w overview_queue" where
  "queue_new generation handles = \<lparr>oq_generation = generation, oq_pending = map (\<lambda>h. (h, 0)) handles\<rparr>"

definition accepts :: "'w overview_queue \<Rightarrow> 64 word \<Rightarrow> bool" where
  "accepts q generation \<longleftrightarrow> oq_generation q = generation"

definition take_batch :: "'w overview_queue \<Rightarrow> nat \<Rightarrow> ('w \<times> u32) list \<times> 'w overview_queue" where
  "take_batch q wanted =
     (let n = min (max wanted 1) (length (oq_pending q)) in
      (take n (oq_pending q), q\<lparr>oq_pending := drop n (oq_pending q)\<rparr>))"

definition requeue :: "'w overview_queue \<Rightarrow> 'w \<Rightarrow> u32 \<Rightarrow> bool \<times> 'w overview_queue" where
  "requeue q handle attempt =
     (if attempt = 0 then (True, q\<lparr>oq_pending := oq_pending q @ [(handle, 1)]\<rparr>) else (False, q))"

definition enqueue :: "'w \<Rightarrow> 'w overview_queue \<Rightarrow> 'w overview_queue" where
  "enqueue handle q =
     (if handle \<in> fst ` set (oq_pending q) then q
      else q\<lparr>oq_pending := oq_pending q @ [(handle, 0)]\<rparr>)"

definition is_done :: "'w overview_queue \<Rightarrow> bool" where
  "is_done q \<longleftrightarrow> oq_pending q = []"

subsection \<open>The chooser\<close>

record 'w tile =
  tile_handle :: 'w
  tile_drawn :: bool

record 'w chooser =
  ch_tiles :: "'w tile list"
  ch_live :: "'w list"
  ch_build :: "'w overview_queue option"
  ch_generation :: "64 word"
  ch_posted :: "64 word list"

datatype render_outcome = Rendered | RetryableFailure | RenderFailed

record 'w tile_answers =
  ta_sized :: "'w \<Rightarrow> bool"
  ta_shown :: "'w \<Rightarrow> bool"
  ta_render :: "'w \<Rightarrow> render_outcome"

definition chooser_new :: "'w chooser" where
  "chooser_new = \<lparr>ch_tiles = [], ch_live = [], ch_build = None, ch_generation = 0, ch_posted = []\<rparr>"

definition post_overview_batch :: "64 word \<Rightarrow> 'w chooser \<Rightarrow> 'w chooser" where
  "post_overview_batch generation c = c\<lparr>ch_posted := ch_posted c @ [generation]\<rparr>"

definition ensure_overview_batch_posted :: "'w chooser \<Rightarrow> 'w chooser" where
  "ensure_overview_batch_posted c =
     (case ch_build c of None \<Rightarrow> c | Some q \<Rightarrow> post_overview_batch (oq_generation q) c)"

definition seed_window_tiles :: "bool \<Rightarrow> 'w tile_answers \<Rightarrow> 'w list \<Rightarrow> 'w chooser \<Rightarrow> 'w list \<times> 'w chooser" where
  "seed_window_tiles layered a handles c =
     (let sized = filter (ta_sized a) handles in
      (if layered then [] else sized,
       c\<lparr>ch_tiles := ch_tiles c @ map (\<lambda>h. \<lparr>tile_handle = h, tile_drawn = False\<rparr>) sized\<rparr>))"

definition uncovered :: "'w chooser \<Rightarrow> 'w list" where
  "uncovered c = filter (\<lambda>h. h \<notin> set (ch_live c)) (map tile_handle (filter (\<lambda>t. \<not> tile_drawn t) (ch_tiles c)))"

definition start_queue :: "'w list \<Rightarrow> 'w chooser \<Rightarrow> 'w chooser" where
  "start_queue handles c =
     (let generation = ch_generation c + 1 in
      c\<lparr>ch_generation := generation, ch_build := Some (queue_new generation handles)\<rparr>)"

definition queue_uncovered_window_tiles :: "'w chooser \<Rightarrow> 'w chooser" where
  "queue_uncovered_window_tiles c =
     (if uncovered c = [] then c
      else case ch_build c of
        Some q \<Rightarrow> c\<lparr>ch_build := Some (fold enqueue (uncovered c) q)\<rparr>
      | None \<Rightarrow> start_queue (uncovered c) c)"

definition refresh_live_window_thumbnails :: "bool \<Rightarrow> bool \<Rightarrow> 'w tile_answers \<Rightarrow> 'w chooser \<Rightarrow> 'w chooser" where
  "refresh_live_window_thumbnails layered window_tool a c =
     (if \<not> layered \<or> \<not> window_tool then c\<lparr>ch_live := []\<rparr>
      else queue_uncovered_window_tiles (c\<lparr>ch_live := filter (ta_shown a) (map tile_handle (ch_tiles c))\<rparr>))"

definition start_window_overview_build ::
  "bool \<Rightarrow> bool \<Rightarrow> 'w tile_answers \<Rightarrow> 'w list \<Rightarrow> 'w chooser \<Rightarrow> 'w chooser" where
  "start_window_overview_build layered window_tool a handles c =
     (let c = (if ch_build c = None \<and> ch_tiles c = []
            then case seed_window_tiles layered a handles c of
              (needs_render, c) \<Rightarrow> if needs_render = [] then c else start_queue needs_render c
            else c)
      in ensure_overview_batch_posted (refresh_live_window_thumbnails layered window_tool a c))"

text \<open>The outcomes of a batch, in its order: what is put back in the queue, and what got pixels.\<close>

fun settle :: "'w tile_answers \<Rightarrow> ('w \<times> u32) list \<Rightarrow> 'w overview_queue \<Rightarrow> 'w overview_queue \<times> 'w list" where
  "settle a [] q = (q, [])"
| "settle a ((handle, attempt) # batch) q =
     (case ta_render a handle of
        Rendered \<Rightarrow> (case settle a batch q of (q, drawn) \<Rightarrow> (q, handle # drawn))
      | RetryableFailure \<Rightarrow> settle a batch (snd (requeue q handle attempt))
      | RenderFailed \<Rightarrow> settle a batch q)"

text \<open>A render replaces the tile of its window, or adds one.\<close>

fun put_tile :: "'w \<Rightarrow> 'w tile list \<Rightarrow> 'w tile list" where
  "put_tile handle [] = [\<lparr>tile_handle = handle, tile_drawn = True\<rparr>]"
| "put_tile handle (t # tiles) =
     (if tile_handle t = handle then \<lparr>tile_handle = handle, tile_drawn = True\<rparr> # tiles
      else t # put_tile handle tiles)"

definition render_overview_batch ::
  "bool \<Rightarrow> bool \<Rightarrow> 'w tile_answers \<Rightarrow> 64 word \<Rightarrow> 'w chooser \<Rightarrow> 'w chooser" where
  "render_overview_batch layered window_tool a generation c =
     (if \<not> window_tool then c
      else case ch_build c of
        None \<Rightarrow> c
      | Some q \<Rightarrow>
          if \<not> accepts q generation then c
          else case take_batch q WINDOW_THUMBNAIL_RENDER_BATCH of
            (batch, q) \<Rightarrow>
              (case settle a batch q of
                 (q, drawn) \<Rightarrow>
                   let c = c\<lparr>ch_build := Some q, ch_tiles := fold put_tile drawn (ch_tiles c)\<rparr> in
                   if is_done q
                   then ensure_overview_batch_posted
                     (refresh_live_window_thumbnails layered window_tool a (c\<lparr>ch_build := None\<rparr>))
                   else post_overview_batch generation c))"

text \<open>\<open>prune_dead_window_sources\<close> on the tiles and the live previews.\<close>

definition prune_tiles :: "'w list \<Rightarrow> 'w chooser \<Rightarrow> 'w chooser" where
  "prune_tiles dead c =
     c\<lparr>ch_tiles := filter (\<lambda>t. tile_handle t \<notin> set dead) (ch_tiles c),
       ch_live := filter (\<lambda>h. h \<notin> set dead) (ch_live c)\<rparr>"

subsection \<open>How a build runs\<close>

text \<open>Delivering the message a build is waiting for, under the Window tool.\<close>

definition deliver :: "bool \<Rightarrow> 'w tile_answers \<Rightarrow> 'w chooser \<Rightarrow> 'w chooser" where
  "deliver layered a c =
     (case ch_build c of None \<Rightarrow> c | Some q \<Rightarrow> render_overview_batch layered True a (oq_generation q) c)"

lemma set_put_tile:
  "t \<in> set (put_tile h tiles) \<Longrightarrow> t \<in> set tiles \<or> t = \<lparr>tile_handle = h, tile_drawn = True\<rparr>"
  by (induction tiles) (auto split: if_splits)

lemma put_tile_keeps: "t \<in> set tiles \<Longrightarrow> tile_handle t \<noteq> h \<Longrightarrow> t \<in> set (put_tile h tiles)"
  by (induction tiles) auto

lemma put_tile_distinct:
  "distinct (map tile_handle tiles) \<Longrightarrow>
     distinct (map tile_handle (put_tile h tiles)) \<and> tile_handle ` set (put_tile h tiles) = insert h (tile_handle ` set tiles)"
  by (induction tiles) (auto simp: image_iff)

lemma put_tile_undrawn:
  "distinct (map tile_handle tiles) \<Longrightarrow> t \<in> set (put_tile h tiles) \<Longrightarrow> \<not> tile_drawn t \<Longrightarrow> t \<in> set tiles \<and> tile_handle t \<noteq> h"
  by (induction tiles) (auto split: if_splits simp: image_iff)

lemma fold_put_tile_distinct:
  "distinct (map tile_handle tiles) \<Longrightarrow> distinct (map tile_handle (fold put_tile hs tiles))"
  by (induction hs arbitrary: tiles) (simp_all add: put_tile_distinct)

lemma fold_put_tile_undrawn:
  "distinct (map tile_handle tiles) \<Longrightarrow> t \<in> set (fold put_tile hs tiles) \<Longrightarrow> \<not> tile_drawn t \<Longrightarrow>
     t \<in> set tiles \<and> tile_handle t \<notin> set hs"
proof (induction hs arbitrary: tiles)
  case (Cons h hs)
  have "t \<in> set (put_tile h tiles)" "tile_handle t \<notin> set hs"
    using Cons.IH [of "put_tile h tiles"] Cons.prems put_tile_distinct [OF Cons.prems(1), of h] by auto
  then show ?case using put_tile_undrawn [OF Cons.prems(1)] Cons.prems(3) by auto
qed simp

lemma fold_put_tile_keeps:
  "t \<in> set tiles \<Longrightarrow> tile_handle t \<notin> set hs \<Longrightarrow> t \<in> set (fold put_tile hs tiles)"
  by (induction hs arbitrary: tiles) (simp_all add: put_tile_keeps)

lemma settle_drawn: "h \<in> set (snd (settle a batch q)) \<longleftrightarrow> (\<exists>attempt. (h, attempt) \<in> set batch) \<and> ta_render a h = Rendered"
  by (induction a batch q rule: settle.induct) (auto split: render_outcome.splits prod.splits)

lemma settle_generation [simp]: "oq_generation (fst (settle a batch q)) = oq_generation q"
  by (induction a batch q rule: settle.induct) (auto simp: requeue_def split: render_outcome.splits prod.splits)

text \<open>A window in the queue costs two renders, one once it has failed.\<close>

definition weight :: "'w overview_queue \<Rightarrow> nat" where
  "weight q = sum_list (map (\<lambda>(h, attempt). if attempt = 0 then 2 else 1) (oq_pending q))"

definition batch_weight :: "('w \<times> u32) list \<Rightarrow> nat" where
  "batch_weight batch = sum_list (map (\<lambda>(h, attempt). if attempt = 0 then 2 else 1) batch)"

lemma settle_weight: "weight (fst (settle a batch q)) + length batch \<le> weight q + batch_weight batch"
proof (induction a batch q rule: settle.induct)
  case (2 a handle attempt batch q)
  then show ?case
    by (cases "ta_render a handle") (auto simp: weight_def batch_weight_def requeue_def split: prod.splits)
qed (simp add: batch_weight_def)

lemma settle_pending:
  "set (oq_pending q) \<subseteq> set (oq_pending (fst (settle a batch q)))"
  by (induction a batch q rule: settle.induct) (auto simp: requeue_def split: render_outcome.splits prod.splits)

lemma batch_one: "take_batch q WINDOW_THUMBNAIL_RENDER_BATCH = (take 1 (oq_pending q), q\<lparr>oq_pending := drop 1 (oq_pending q)\<rparr>)"
  by (cases "oq_pending q") (simp_all add: take_batch_def WINDOW_THUMBNAIL_RENDER_BATCH_def MAX_IN_FLIGHT_WINDOW_RENDERS_def)

text \<open>One delivered batch, unfolded.\<close>

lemma deliver_step:
  fixes c layered a
  assumes "ch_build c = Some q"
  defines "settled \<equiv> settle a (take 1 (oq_pending q)) (q\<lparr>oq_pending := drop 1 (oq_pending q)\<rparr>)"
  defines "c1 \<equiv> c\<lparr>ch_build := Some (fst settled), ch_tiles := fold put_tile (snd settled) (ch_tiles c)\<rparr>"
  shows "deliver layered a c =
    (if is_done (fst settled)
     then ensure_overview_batch_posted (refresh_live_window_thumbnails layered True a (c1\<lparr>ch_build := None\<rparr>))
     else post_overview_batch (oq_generation q) c1)"
  using assms(1) unfolding settled_def c1_def
  by (simp add: deliver_def render_overview_batch_def accepts_def batch_one split_beta Let_def)

lemma deliver_weight:
  assumes "\<not> is_done (fst (settle a (take 1 (oq_pending q)) (q\<lparr>oq_pending := drop 1 (oq_pending q)\<rparr>)))"
  shows "weight (fst (settle a (take 1 (oq_pending q)) (q\<lparr>oq_pending := drop 1 (oq_pending q)\<rparr>))) < weight q"
proof (cases "oq_pending q")
  case Nil
  then show ?thesis using assms by (simp add: is_done_def)
next
  case (Cons p ps)
  then show ?thesis
    using settle_weight [of a "[p]" "q\<lparr>oq_pending := ps\<rparr>"] by (simp add: weight_def batch_weight_def)
qed

subsection \<open>A build that can finish does\<close>

text \<open>Every tile has pixels, a live preview, or a render that succeeds.\<close>

definition tiles_renderable :: "bool \<Rightarrow> 'w tile_answers \<Rightarrow> 'w chooser \<Rightarrow> bool" where
  "tiles_renderable layered a c \<longleftrightarrow> distinct (map tile_handle (ch_tiles c)) \<and>
     (\<forall>t\<in>set (ch_tiles c). tile_drawn t \<or> ta_shown a (tile_handle t) \<or> ta_render a (tile_handle t) = Rendered \<or> \<not> layered)"

text \<open>The tiles with neither pixels nor, once refreshed, a live preview.\<close>

definition bare :: "'w tile_answers \<Rightarrow> 'w chooser \<Rightarrow> 'w list" where
  "bare a c = filter (\<lambda>h. \<not> ta_shown a h) (map tile_handle (filter (\<lambda>t. \<not> tile_drawn t) (ch_tiles c)))"

lemma refresh_finished:
  "ch_build c = None \<Longrightarrow> ensure_overview_batch_posted (refresh_live_window_thumbnails layered True a c) =
     (if layered \<and> bare a c \<noteq> []
      then post_overview_batch (ch_generation c + 1)
        (start_queue (bare a c) (c\<lparr>ch_live := filter (ta_shown a) (map tile_handle (ch_tiles c))\<rparr>))
      else c\<lparr>ch_live := (if layered then filter (ta_shown a) (map tile_handle (ch_tiles c)) else [])\<rparr>)"
proof -
  have "uncovered (c\<lparr>ch_live := filter (ta_shown a) (map tile_handle (ch_tiles c))\<rparr>) = bare a c"
    by (auto simp: uncovered_def bare_def intro!: filter_cong)
  then show "ch_build c = None \<Longrightarrow> ?thesis"
    by (simp add: refresh_live_window_thumbnails_def queue_uncovered_window_tiles_def ensure_overview_batch_posted_def
        start_queue_def Let_def queue_new_def)
qed

lemma fold_put_renderable:
  assumes "tiles_renderable layered a c"
  shows "tiles_renderable layered a (c\<lparr>ch_build := b, ch_tiles := fold put_tile hs (ch_tiles c)\<rparr>)"
proof -
  have d: "distinct (map tile_handle (ch_tiles c))" using assms by (simp add: tiles_renderable_def)
  have "t \<in> set (ch_tiles c)" if "t \<in> set (fold put_tile hs (ch_tiles c))" "\<not> tile_drawn t" for t
    using fold_put_tile_undrawn [OF d that] by blast
  then show ?thesis using assms fold_put_tile_distinct [OF d] unfolding tiles_renderable_def by auto
qed

definition finished :: "bool \<Rightarrow> 'w tile_answers \<Rightarrow> 'w chooser \<Rightarrow> bool" where
  "finished layered a c \<longleftrightarrow> ch_build c = None \<and>
     (layered \<longrightarrow> (\<forall>t\<in>set (ch_tiles c). tile_drawn t \<or> tile_handle t \<in> set (ch_live c)))"

lemma covered_build_finishes:
  assumes "ch_build c = Some q" "tiles_renderable layered a c" "layered \<Longrightarrow> set (bare a c) \<subseteq> fst ` set (oq_pending q)"
  shows "\<exists>n. finished layered a ((deliver layered a ^^ n) c)"
  using assms
proof (induction "weight q" arbitrary: c q rule: less_induct)
  case less
  define settled where "settled = settle a (take 1 (oq_pending q)) (q\<lparr>oq_pending := drop 1 (oq_pending q)\<rparr>)"
  define c1 where "c1 = c\<lparr>ch_build := Some (fst settled), ch_tiles := fold put_tile (snd settled) (ch_tiles c)\<rparr>"
  note step = deliver_step [OF less.prems(1), of layered a, folded settled_def, folded c1_def]
  have ok: "tiles_renderable layered a c1" unfolding c1_def by (rule fold_put_renderable [OF less.prems(2)])
  have cov: "set (bare a c1) \<subseteq> fst ` set (oq_pending (fst settled))" if layered
  proof
    fix h assume "h \<in> set (bare a c1)"
    then obtain t where t: "t \<in> set (ch_tiles c1)" "\<not> tile_drawn t" "h = tile_handle t" "\<not> ta_shown a h"
      by (auto simp: bare_def)
    have d: "distinct (map tile_handle (ch_tiles c))" using less.prems(2) by (simp add: tiles_renderable_def)
    have old: "t \<in> set (ch_tiles c)" "h \<notin> set (snd settled)"
      using fold_put_tile_undrawn [OF d, of t "snd settled"] t by (auto simp: c1_def)
    then have "h \<in> set (bare a c)" "ta_render a h = Rendered"
      using t less.prems(2) that by (auto simp: bare_def tiles_renderable_def)
    then have "h \<in> fst ` set (take 1 (oq_pending q)) \<union> fst ` set (drop 1 (oq_pending q))"
      using less.prems(3) [OF that] by (metis (no_types, lifting) append_take_drop_id image_Un set_append subsetD)
    moreover have "h \<notin> fst ` set (take 1 (oq_pending q))"
      using old(2) \<open>ta_render a h = Rendered\<close> by (auto simp: settled_def settle_drawn)
    ultimately show "h \<in> fst ` set (oq_pending (fst settled))"
      using settle_pending [of "q\<lparr>oq_pending := drop 1 (oq_pending q)\<rparr>" a "take 1 (oq_pending q)"]
      by (auto simp: settled_def)
  qed
  show ?case
  proof (cases "is_done (fst settled)")
    case True
    have "bare a (c1\<lparr>ch_build := None\<rparr>) = []" if layered
      using cov [OF that] True by (auto simp: is_done_def bare_def)
    then have "finished layered a (deliver layered a c)"
      using True step refresh_finished [of "c1\<lparr>ch_build := None\<rparr>" layered a]
      by (auto simp: finished_def bare_def filter_empty_conv)
    then show ?thesis by (intro exI [of _ 1]) simp
  next
    case False
    let ?c = "post_overview_batch (oq_generation q) c1"
    have "weight (fst settled) < weight q" using deliver_weight False unfolding settled_def by blast
    moreover have "ch_build ?c = Some (fst settled)" by (simp add: post_overview_batch_def c1_def)
    moreover have "tiles_renderable layered a ?c" using ok by (simp add: tiles_renderable_def post_overview_batch_def)
    moreover have "layered \<Longrightarrow> set (bare a ?c) \<subseteq> fst ` set (oq_pending (fst settled))"
      using cov by (simp add: bare_def post_overview_batch_def)
    ultimately obtain n where "finished layered a ((deliver layered a ^^ n) ?c)" using less.hyps by blast
    then show ?thesis using False step by (intro exI [of _ "Suc n"]) (simp add: funpow_Suc_right del: funpow.simps)
  qed
qed

lemma build_finishes:
  assumes "ch_build c = Some q" "tiles_renderable layered a c"
  shows "\<exists>n. finished layered a ((deliver layered a ^^ n) c)"
  using assms
proof (induction "weight q" arbitrary: c q rule: less_induct)
  case less
  define settled where "settled = settle a (take 1 (oq_pending q)) (q\<lparr>oq_pending := drop 1 (oq_pending q)\<rparr>)"
  define c1 where "c1 = c\<lparr>ch_build := Some (fst settled), ch_tiles := fold put_tile (snd settled) (ch_tiles c)\<rparr>"
  note step = deliver_step [OF less.prems(1), of layered a, folded settled_def, folded c1_def]
  have ok: "tiles_renderable layered a c1" unfolding c1_def by (rule fold_put_renderable [OF less.prems(2)])
  show ?case
  proof (cases "is_done (fst settled)")
    case False
    let ?c = "post_overview_batch (oq_generation q) c1"
    have "weight (fst settled) < weight q" using deliver_weight False unfolding settled_def by blast
    moreover have "ch_build ?c = Some (fst settled)" by (simp add: post_overview_batch_def c1_def)
    moreover have "tiles_renderable layered a ?c" using ok by (simp add: tiles_renderable_def post_overview_batch_def)
    ultimately obtain n where "finished layered a ((deliver layered a ^^ n) ?c)" using less.hyps by blast
    then show ?thesis using False step by (intro exI [of _ "Suc n"]) (simp add: funpow_Suc_right del: funpow.simps)
  next
    case True
    let ?c0 = "c1\<lparr>ch_build := None\<rparr>"
    have d: "deliver layered a c = ensure_overview_batch_posted (refresh_live_window_thumbnails layered True a ?c0)"
      using True step by simp
    show ?thesis
    proof (cases "layered \<and> bare a ?c0 \<noteq> []")
      case again: True
      let ?c = "deliver layered a c"
      have "ch_build ?c = Some (queue_new (ch_generation c1 + 1) (bare a ?c0))"
        "ch_tiles ?c = ch_tiles c1"
        unfolding d using again by (simp_all add: bare_def refresh_finished post_overview_batch_def start_queue_def Let_def)
      moreover have "bare a ?c = bare a ?c0" using calculation(2) by (simp add: bare_def)
      moreover have "tiles_renderable layered a ?c" using ok calculation(2) by (simp add: tiles_renderable_def)
      ultimately obtain n where "finished layered a ((deliver layered a ^^ n) ?c)"
        using covered_build_finishes [of ?c _ layered a] by (auto simp: queue_new_def image_image)
      then show ?thesis by (intro exI [of _ "Suc n"]) (simp add: funpow_Suc_right del: funpow.simps)
    next
      case False
      then have "finished layered a (deliver layered a c)"
        by (auto simp: d refresh_finished finished_def bare_def filter_empty_conv)
      then show ?thesis by (intro exI [of _ 1]) simp
    qed
  qed
qed

text \<open>C35: The chooser's build finishes: when every tile has pixels, a live preview or a render that
  succeeds, finitely many batches leave nothing queued and every tile drawn one way or the other,
  whatever else was queued and however often it fails; without the compositor it finishes always.\<close>

theorem overview_build_finishes:
  assumes "ch_build c \<noteq> None" and "tiles_renderable layered a c"
  shows "\<exists>n. finished layered a ((deliver layered a ^^ n) c)"
  using assms build_finishes by blast

definition sample_tile_answers :: "nat tile_answers" where
  "sample_tile_answers = \<lparr>ta_sized = (\<lambda>_. True), ta_shown = (\<lambda>h. h = 2),
     ta_render = (\<lambda>h. if h = 3 then Rendered else RetryableFailure)\<rparr>"

definition sample_chooser :: "nat chooser" where
  "sample_chooser = start_window_overview_build True True sample_tile_answers [2, 3] chooser_new"

lemma overview_build_finishes_witness:
  "\<exists>n. finished True sample_tile_answers ((deliver True sample_tile_answers ^^ n) sample_chooser)"
proof -
  have "ch_build sample_chooser \<noteq> None" "tiles_renderable True sample_tile_answers sample_chooser" by code_simp+
  then show ?thesis by (rule overview_build_finishes)
qed

text \<open>C36: A tile that has no live preview and whose render keeps failing is rendered for ever: although a
  failed window is retried once at most within a build, every build that ends starts the next, so the
  overlay posts itself a batch for as long as the window chooser is open.\<close>

theorem failing_tile_never_finishes:
  assumes "ch_build c \<noteq> None" and "distinct (map tile_handle (ch_tiles c))"
    and "t \<in> set (ch_tiles c)" "\<not> tile_drawn t"
    and "\<not> ta_shown a (tile_handle t)" "ta_render a (tile_handle t) \<noteq> Rendered"
  shows "ch_build ((deliver True a ^^ n) c) \<noteq> None \<and>
    length (ch_posted ((deliver True a ^^ n) c)) = length (ch_posted c) + n"
  using assms
proof (induction n arbitrary: c)
  case (Suc n)
  obtain q where q: "ch_build c = Some q" using Suc.prems(1) by blast
  define settled where "settled = settle a (take 1 (oq_pending q)) (q\<lparr>oq_pending := drop 1 (oq_pending q)\<rparr>)"
  define c1 where "c1 = c\<lparr>ch_build := Some (fst settled), ch_tiles := fold put_tile (snd settled) (ch_tiles c)\<rparr>"
  note step = deliver_step [OF q, of True a, folded settled_def, folded c1_def]
  have t: "t \<in> set (ch_tiles c1)" "distinct (map tile_handle (ch_tiles c1))"
    using Suc.prems fold_put_tile_distinct unfolding c1_def
    by (auto simp: settled_def settle_drawn intro!: fold_put_tile_keeps)
  then have "bare a (c1\<lparr>ch_build := None\<rparr>) \<noteq> []"
    using Suc.prems by (auto simp: bare_def filter_empty_conv)
  then have d: "ch_build (deliver True a c) \<noteq> None" "ch_tiles (deliver True a c) = ch_tiles c1"
    "length (ch_posted (deliver True a c)) = length (ch_posted c) + 1"
    using step refresh_finished [of "c1\<lparr>ch_build := None\<rparr>" True a]
    by (auto simp: post_overview_batch_def start_queue_def Let_def c1_def)
  then show ?case
    using Suc.IH [of "deliver True a c"] Suc.prems t by (simp add: funpow_Suc_right del: funpow.simps)
qed simp

definition failing_tile_answers :: "nat tile_answers" where
  "failing_tile_answers = \<lparr>ta_sized = (\<lambda>_. True), ta_shown = (\<lambda>_. False), ta_render = (\<lambda>_. RenderFailed)\<rparr>"

lemma failing_tile_never_finishes_witness:
  "\<forall>n. ch_build ((deliver True failing_tile_answers ^^ n)
     (start_window_overview_build True True failing_tile_answers [7] chooser_new)) \<noteq> None"
proof -
  let ?c = "start_window_overview_build True True failing_tile_answers [7] chooser_new"
  have "ch_build ?c \<noteq> None" "distinct (map tile_handle (ch_tiles ?c))"
    "\<lparr>tile_handle = 7, tile_drawn = False\<rparr> \<in> set (ch_tiles ?c)" by code_simp+
  from failing_tile_never_finishes [OF this] show ?thesis by (simp add: failing_tile_answers_def)
qed

end
