(* ===== verification/OverlayShell.thy ===== *)
theory OverlayShell
  imports OverlayMachine Overview
begin

section \<open>The overlay's window procedure\<close>

text \<open>
  The part of \<open>crates/captastic-windows/src/overlay.rs\<close> between the messages of the overlay window
  and the machine: which input a message becomes, how \<open>apply_overlay_effects\<close> carries effects out,
  feeding the snap inventory and the window preview back as further inputs, and what a run reports
  when its window is gone. What Windows answers while a message is handled (held keys, clock, the
  thumbnail under a point, a window's capture, which windows died) is a record of arguments. Drawing
  is not modelled: the effects that only draw or save are logged in the order they are carried out.
\<close>

subsection \<open>State\<close>

datatype presenter = Layered | Opaque

text \<open>The cached outcome of capturing one window; a frame is its source rectangle here.\<close>

datatype 'w window_preview_state = Ready 'w rect | Unavailable 'w

record 'w overlay_selection =
  sel_rect :: rect
  sel_kind :: selection_kind
  sel_intent :: confirm_intent_kind
  sel_window :: "'w option"
  sel_view :: preview_view
  sel_view_switched :: bool

datatype 'w selection_outcome =
    Selected "'w overlay_selection"
  | RunCancelled
  | DisplayConfigurationChanged string

record 'w overlay_shell =
  sh_model :: "'w overlay_model"
  sh_presenter :: presenter
  sh_view_switched :: bool
  sh_releasing :: bool
  sh_loupe_timer :: bool
  sh_windows :: "'w window_candidate list option"
  sh_chooser :: "'w chooser"
  sh_preview :: "'w window_preview_state option"
  sh_window_frame :: "rect option"
  sh_result :: "'w overlay_selection option"
  sh_display_change :: "string option"
  sh_closed :: bool
  sh_log :: "'w overlay_effect list"

text \<open>What Windows answers while one message is handled.\<close>

record 'w answers =
  an_held :: modifiers
  an_time :: u32
  an_z_down :: bool
  an_windows :: "'w window_candidate list"
  an_tiles :: "'w tile_answers"
  an_slot :: "point \<Rightarrow> nat option"
  an_capture :: "'w \<Rightarrow> rect option"
  an_dead :: "'w \<Rightarrow> bool"

datatype virtual_key =
  VkReturn | VkEscape | VkZ | VkF | VkLeft | VkRight | VkUp | VkDown | OtherKey

datatype display_setting = SetWorkArea | SetLogicalDpiOverride | OtherSetting

datatype window_message =
    DpiChanged
  | DisplayChange
  | SettingChange display_setting
  | MouseMove "64 word"
  | LButtonDown "64 word"
  | LButtonUp "64 word"
  | LButtonDoubleClick "64 word"
  | KeyDown virtual_key "64 word"
  | KeyUp virtual_key
  | SetFocus
  | KillFocus
  | Timer nat
  | CaptureChanged
  | OverviewBatch "64 word"
  | RButtonDown
  | CloseMessage
  | Paint
  | OtherMessage

definition LOUPE_TIMER_ID :: nat where "LOUPE_TIMER_ID = 1"

subsection \<open>Reading a message\<close>

text \<open>\<open>screen_point\<close> of \<open>overlay/shell.rs\<close>: two packed \<open>i16\<close> halves, relative to the source.\<close>

definition screen_point :: "rect \<Rightarrow> 64 word \<Rightarrow> point" where
  "screen_point src lparam =
     (let packed = ucast lparam :: u32;
          x = scast (ucast packed :: 16 word) :: i32;
          y = scast (ucast (drop_bit 16 packed) :: 16 word) :: i32
      in \<lparr>pt_x = sadd (rect_x src) x, pt_y = sadd (rect_y src) y\<rparr>)"

definition key_is_autorepeat :: "64 word \<Rightarrow> bool" where
  "key_is_autorepeat lparam \<longleftrightarrow> bit lparam 30"

definition loupe_key_after_focus_change :: "'w answers \<Rightarrow> bool \<Rightarrow> bool" where
  "loupe_key_after_focus_change a gained_focus \<longleftrightarrow> gained_focus \<and> an_z_down a"

fun arrow_direction :: "virtual_key \<Rightarrow> (i32 \<times> i32) option" where
  "arrow_direction VkLeft = Some (- 1, 0)"
| "arrow_direction VkRight = Some (1, 0)"
| "arrow_direction VkUp = Some (0, - 1)"
| "arrow_direction VkDown = Some (0, 1)"
| "arrow_direction _ = None"

fun latch_view_switch :: "bool \<Rightarrow> preview_view \<Rightarrow> preview_view \<Rightarrow> bool" where
  "latch_view_switch switched Live Live = switched"
| "latch_view_switch switched Frozen Frozen = switched"
| "latch_view_switch switched _ _ = True"

subsection \<open>Snap inventory and window preview\<close>

definition ensure_window_inventory :: "'w answers \<Rightarrow> 'w overlay_shell \<Rightarrow> 'w overlay_shell" where
  "ensure_window_inventory a s =
     (case sh_windows s of None \<Rightarrow> s\<lparr>sh_windows := Some (an_windows a)\<rparr> | Some _ \<Rightarrow> s)"

text \<open>The chooser's tiles, under the Window tool and on the presenter the run has.\<close>

definition on_chooser :: "(bool \<Rightarrow> bool \<Rightarrow> 'w chooser \<Rightarrow> 'w chooser) \<Rightarrow> 'w overlay_shell \<Rightarrow> 'w overlay_shell" where
  "on_chooser f s =
     s\<lparr>sh_chooser := f (sh_presenter s = Layered) (om_tool (sh_model s) = WindowTool) (sh_chooser s)\<rparr>"

definition window_handles :: "'w overlay_shell \<Rightarrow> 'w list" where
  "window_handles s = map cand_handle (case sh_windows s of None \<Rightarrow> [] | Some ws \<Rightarrow> ws)"

definition build_window_overview :: "'w answers \<Rightarrow> 'w overlay_shell \<Rightarrow> 'w overlay_shell" where
  "build_window_overview a s =
     (let s = ensure_window_inventory a s in
      on_chooser (\<lambda>layered window_tool.
        start_window_overview_build layered window_tool (an_tiles a) (window_handles s)) s)"

definition refresh_window_chrome :: "'w answers \<Rightarrow> 'w overlay_shell \<Rightarrow> 'w overlay_shell" where
  "refresh_window_chrome a =
     on_chooser (\<lambda>layered window_tool c.
       ensure_overview_batch_posted (refresh_live_window_thumbnails layered window_tool (an_tiles a) c))"

definition render_batch :: "'w answers \<Rightarrow> 64 word \<Rightarrow> 'w overlay_shell \<Rightarrow> 'w overlay_shell" where
  "render_batch a generation =
     on_chooser (\<lambda>layered window_tool. render_overview_batch layered window_tool (an_tiles a) generation)"

text \<open>\<open>hit_test_window_thumbnail\<close>: the layout's first slot holding the point, and the tile in it.\<close>

definition thumbnail_at :: "'w answers \<Rightarrow> 'w overlay_shell \<Rightarrow> point \<Rightarrow> 'w option" where
  "thumbnail_at a s l =
     do {
       slot \<leftarrow> an_slot a l;
       tile \<leftarrow> get (ch_tiles (sh_chooser s)) slot;
       Some (tile_handle tile)
     }"

definition snap_targets_from :: "rect list \<Rightarrow> rect option \<Rightarrow> rect \<Rightarrow> snap_targets" where
  "snap_targets_from frames work src =
     map (\<lambda>r. \<lparr>target_rect = r, target_kind = WindowTarget\<rparr>)
       (List.map_filter (\<lambda>frame. intersection frame src) frames) @
     (case Option.bind work (\<lambda>r. intersection r src) of
        None \<Rightarrow> []
      | Some r \<Rightarrow> if r \<noteq> src then [\<lparr>target_rect = r, target_kind = WorkAreaTarget\<rparr>] else []) @
     [\<lparr>target_rect = src, target_kind = DisplayTarget\<rparr>]"

definition build_snap_targets :: "'w answers \<Rightarrow> 'w overlay_shell \<Rightarrow> 'w overlay_shell \<times> snap_targets" where
  "build_snap_targets a s =
     (let s = ensure_window_inventory a s;
          src = om_source (sh_model s);
          local_area = work_area (om_environment (sh_model s));
          work = from_edges (sint (ui_left local_area) + sint (rect_x src)) (sint (ui_top local_area) + sint (rect_y src))
            (sint (ui_right local_area) + sint (rect_x src)) (sint (ui_bottom local_area) + sint (rect_y src))
      in (s, snap_targets_from (map cand_frame (case sh_windows s of None \<Rightarrow> [] | Some ws \<Rightarrow> ws)) work src))"

fun satisfies :: "'w window_preview_state \<Rightarrow> 'w \<Rightarrow> bool" where
  "satisfies (Ready h _) handle = (h = handle)"
| "satisfies (Unavailable _) handle = False"

definition update_window_preview :: "'w answers \<Rightarrow> 'w overlay_shell \<Rightarrow> 'w option \<Rightarrow> 'w overlay_shell" where
  "update_window_preview a s target =
     (case target of
        None \<Rightarrow> s
      | Some handle \<Rightarrow>
          if (case sh_preview s of None \<Rightarrow> False | Some cached \<Rightarrow> satisfies cached handle) then s
          else s\<lparr>sh_preview := Some (case an_capture a handle of
              Some r \<Rightarrow> Ready handle r | None \<Rightarrow> Unavailable handle)\<rparr>)"

definition ready_window_preview :: "'w overlay_shell \<Rightarrow> 'w option \<Rightarrow> rect option" where
  "ready_window_preview s target =
     do {
       handle \<leftarrow> target;
       cached \<leftarrow> sh_preview s;
       (case cached of Ready h r \<Rightarrow> if h = handle then Some r else None | Unavailable _ \<Rightarrow> None)
     }"

subsection \<open>Effects\<close>

text \<open>\<open>consume_self_initiated_capture_change\<close>: read the flag and clear it.\<close>

definition consume_capture_change :: "'w overlay_shell \<Rightarrow> bool \<times> 'w overlay_shell" where
  "consume_capture_change s = (sh_releasing s, s\<lparr>sh_releasing := False\<rparr>)"

definition build_overlay_selection ::
  "'w overlay_shell \<Rightarrow> rect \<Rightarrow> selection_kind \<Rightarrow> confirm_intent_kind \<Rightarrow> 'w option \<Rightarrow> 'w overlay_selection" where
  "build_overlay_selection s r kind intent window =
     \<lparr>sel_rect = r, sel_kind = kind, sel_intent = intent, sel_window = window,
      sel_view = om_view (sh_model s), sel_view_switched = sh_view_switched s\<rparr>"

fun close_run :: "'w overlay_shell \<Rightarrow> 'w close_outcome \<Rightarrow> 'w overlay_shell" where
  "close_run s (Confirmed r kind window intent) =
     (let frame = (if kind = WindowKind then sh_window_frame s else None);
          r = (case frame of None \<Rightarrow> r | Some source_rect \<Rightarrow> source_rect)
      in s\<lparr>sh_result := Some (build_overlay_selection s r kind intent window), sh_closed := True\<rparr>)"
| "close_run s Cancelled = s\<lparr>sh_closed := True\<rparr>"
| "close_run s (ConfigurationInvalidated reason) = s\<lparr>sh_display_change := Some reason, sh_closed := True\<rparr>"

text \<open>The effects that touch only the shell and the desktop.\<close>

fun plain_effect :: "'w answers \<Rightarrow> 'w overlay_shell \<Rightarrow> 'w overlay_effect \<Rightarrow> 'w overlay_shell" where
  "plain_effect a s CapturePointer =
     (if loupe_timer_wanted (sh_model s) then s\<lparr>sh_loupe_timer := True\<rparr> else s)"
| "plain_effect a s ReleasePointer =
     (let s = s\<lparr>sh_loupe_timer := False, sh_releasing := True\<rparr>;
          s = snd (consume_capture_change s)
      in s\<lparr>sh_releasing := False\<rparr>)"
| "plain_effect a s ClearSelectedWindowFrame = s\<lparr>sh_window_frame := None\<rparr>"
| "plain_effect a s ClearLiveThumbnails = s\<lparr>sh_chooser := (sh_chooser s)\<lparr>ch_live := []\<rparr>\<rparr>"
| "plain_effect a s BuildWindowOverview = build_window_overview a s"
| "plain_effect a s RefreshWindowChrome = refresh_window_chrome a s"
| "plain_effect a s _ = s"

definition logged :: "'w overlay_shell \<Rightarrow> 'w overlay_effect \<Rightarrow> 'w overlay_shell" where
  "logged s e = s\<lparr>sh_log := sh_log s @ [e]\<rparr>"

text \<open>How many effects an effect can stand for: a window preview feeds back at most two more.\<close>

fun effect_weight :: "'w overlay_effect \<Rightarrow> nat" where
  "effect_weight (UpdateWindowPreview _) = 3"
| "effect_weight _ = 1"

lemma sum_effect_weight_one:
  "(\<And>w. UpdateWindowPreview w \<notin> set effects) \<Longrightarrow> sum_list (map effect_weight effects) = length effects"
proof (induction effects)
  case (Cons e es)
  then show ?case by (cases e) (auto simp: list.set_intros)
qed simp

lemma confirm_effects:
  "snd (confirm m intent) = [] \<or> (\<exists>region outcome. snd (confirm m intent) = [PersistInteraction region, Close outcome])"
  by (auto simp: confirm_def persist_interaction_def Let_def split: option.splits)

lemma confirm_or_capture_effects:
  "snd (confirm_or_capture m intent) = [] \<or>
     (\<exists>region outcome. snd (confirm_or_capture m intent) = [PersistInteraction region, Close outcome])"
  using confirm_effects [of m intent] confirm_effects [of "fst (confirm m intent)" IntentCapture]
  by (auto simp: confirm_or_capture_def split: prod.splits)

lemma preview_feedback_weight:
  "sum_list (map effect_weight (snd (window_preview_resolved m r intent))) < 3"
  using confirm_or_capture_effects
    [of "m\<lparr>om_selection := r, om_selection_kind := map_option (\<lambda>_. WindowKind) r\<rparr>"
        "if om_record_armed m then IntentRecord else intent"]
  by (auto simp: window_preview_resolved_def Let_def)

lemma preview_feedback_less:
  "(m', feedback) = window_preview_resolved m r intent \<Longrightarrow> sum_list (map effect_weight feedback) < 3 + n"
  using preview_feedback_weight [of m r intent] by (metis snd_conv trans_less_add1)

text \<open>
  \<open>apply_overlay_effects\<close>. A close ends its own list; a list that was feeding back into another
  leaves the outer one to go on, as in the code.
\<close>

function apply_effects :: "'w answers \<Rightarrow> 'w overlay_shell \<Rightarrow> 'w overlay_effect list \<Rightarrow> 'w overlay_shell" where
  "apply_effects a s [] = s"
| "apply_effects a s (e # effects) =
     (let s = logged s e in
      case e of
        BuildSnapTargets \<Rightarrow>
          (case build_snap_targets a s of
             (s, targets) \<Rightarrow>
               (case transition (sh_model s) (SnapTargetsReady targets) of
                  (m, feedback) \<Rightarrow> apply_effects a (apply_effects a (s\<lparr>sh_model := m\<rparr>) feedback) effects))
      | UpdateWindowPreview window \<Rightarrow>
          let s = update_window_preview a s window;
              s = s\<lparr>sh_window_frame := ready_window_preview s window\<rparr>
          in (case transition (sh_model s) (WindowPreviewResolved (sh_window_frame s) (confirm_intent (an_held a))) of
                (m, feedback) \<Rightarrow> apply_effects a (apply_effects a (s\<lparr>sh_model := m\<rparr>) feedback) effects)
      | Close outcome \<Rightarrow> close_run s outcome
      | _ \<Rightarrow> apply_effects a (plain_effect a s e) effects)"
  by pat_completeness auto
termination
  by (relation "measure (\<lambda>(a, s, effects). sum_list (map effect_weight effects))")
    (auto dest: preview_feedback_less)

definition run_machine :: "'w answers \<Rightarrow> 'w overlay_shell \<Rightarrow> 'w overlay_input \<Rightarrow> 'w overlay_shell" where
  "run_machine a s input =
     (let view_before = om_view (sh_model s) in
      case transition (sh_model s) input of
        (m, effects) \<Rightarrow>
          apply_effects a
            (s\<lparr>sh_model := m, sh_view_switched := latch_view_switch (sh_view_switched s) view_before (om_view m)\<rparr>)
            effects)"

subsection \<open>Messages\<close>

text \<open>\<open>prune_dead_window_sources\<close> and the clearing its caller does; only the Window tool's paint runs it.\<close>

definition prune_dead :: "'w answers \<Rightarrow> 'w overlay_shell \<Rightarrow> 'w overlay_shell" where
  "prune_dead a s =
     (let dead = filter (an_dead a) (map tile_handle (ch_tiles (sh_chooser s)));
          died = (case sh_preview s of
              None \<Rightarrow> False | Some (Ready h _) \<Rightarrow> h \<in> set dead | Some (Unavailable h) \<Rightarrow> h \<in> set dead)
      in if om_tool (sh_model s) \<noteq> WindowTool \<or> dead = [] then s
         else case window_sources_pruned (sh_model s) dead of
           (m, effects) \<Rightarrow>
             s\<lparr>sh_chooser := prune_tiles dead (sh_chooser s),
               sh_windows := map_option (filter (\<lambda>c. cand_handle c \<notin> set dead)) (sh_windows s),
               sh_preview := (if died then None else sh_preview s),
               sh_model := m,
               sh_window_frame := (if effects = [] then sh_window_frame s else None)\<rparr>)"

definition thumbnail_candidate :: "'w answers \<Rightarrow> 'w overlay_shell \<Rightarrow> point \<Rightarrow> 'w window_candidate option" where
  "thumbnail_candidate a s l =
     do {
       handle \<leftarrow> thumbnail_at a s l;
       windows \<leftarrow> sh_windows s;
       List.find (\<lambda>c. cand_handle c = handle) windows
     }"

definition mouse_moved :: "'w answers \<Rightarrow> 'w overlay_shell \<Rightarrow> 64 word \<Rightarrow> 'w overlay_shell" where
  "mouse_moved a s lparam =
     (let p = screen_point (om_source (sh_model s)) lparam;
          window_pass = (om_tool (sh_model s) = WindowTool \<and> om_toolbar_drag (sh_model s) = None)
      in if \<not> window_pass then run_machine a s (PointerMoved p None (an_held a) (an_time a))
         else
           let l = local_point (om_source (sh_model s)) p;
               previous = (map_option cand_handle (om_hovered (sh_model s)), om_hovered_control (sh_model s));
               s = run_machine a s (PointerMoved p (thumbnail_candidate a s l) (an_held a) (an_time a))
           in if previous = (map_option cand_handle (om_hovered (sh_model s)), om_hovered_control (sh_model s)) then s
              else logged s Invalidate)"

definition key_down :: "'w answers \<Rightarrow> 'w overlay_shell \<Rightarrow> virtual_key \<Rightarrow> 64 word \<Rightarrow> 'w overlay_shell" where
  "key_down a s key lparam =
     (case key of
        VkReturn \<Rightarrow> run_machine a s (ConfirmRequested (confirm_intent (an_held a)))
      | VkEscape \<Rightarrow> run_machine a s CancelRequested
      | VkZ \<Rightarrow> if key_is_autorepeat lparam then s else run_machine a s (LoupeKeyChanged True)
      | VkF \<Rightarrow> if key_is_autorepeat lparam then s else run_machine a s ToggleView
      | _ \<Rightarrow>
          (case arrow_direction key of
             None \<Rightarrow> s
           | Some (x, y) \<Rightarrow>
               let step = nudge_step (an_held a) in
               run_machine a s (Nudge (x * step) (y * step) (ctrl (an_held a)))))"

definition window_proc :: "'w answers \<Rightarrow> 'w overlay_shell \<Rightarrow> window_message \<Rightarrow> 'w overlay_shell" where
  "window_proc a s message =
     (if sh_closed s then s
      else case message of
        DpiChanged \<Rightarrow> run_machine a s (DisplayConfigurationInvalidated ''overlay_dpi_changed'')
      | DisplayChange \<Rightarrow> run_machine a s (DisplayConfigurationInvalidated ''overlay_display_changed'')
      | SettingChange setting \<Rightarrow>
          if setting = SetWorkArea \<or> setting = SetLogicalDpiOverride
          then run_machine a s (DisplayConfigurationInvalidated ''overlay_display_setting_changed'') else s
      | MouseMove lparam \<Rightarrow> mouse_moved a s lparam
      | LButtonDown lparam \<Rightarrow>
          let p = screen_point (om_source (sh_model s)) lparam;
              l = local_point (om_source (sh_model s)) p;
              slot = (if om_tool (sh_model s) = WindowTool then thumbnail_at a s l else None)
          in run_machine a s (PointerDown p slot (an_time a) (an_held a))
      | LButtonUp lparam \<Rightarrow>
          run_machine a s (PointerUp (screen_point (om_source (sh_model s)) lparam) (an_held a))
      | LButtonDoubleClick lparam \<Rightarrow>
          run_machine a s (DoubleClicked (screen_point (om_source (sh_model s)) lparam) (an_held a))
      | KeyDown key lparam \<Rightarrow> key_down a s key lparam
      | KeyUp key \<Rightarrow> if key = VkZ then run_machine a s (LoupeKeyChanged False) else s
      | SetFocus \<Rightarrow> run_machine a s (LoupeKeyChanged (loupe_key_after_focus_change a True))
      | KillFocus \<Rightarrow> run_machine a s (LoupeKeyChanged (loupe_key_after_focus_change a False))
      | Timer timer \<Rightarrow> if timer = LOUPE_TIMER_ID then run_machine a s (Tick (an_time a)) else s
      | CaptureChanged \<Rightarrow>
          (case consume_capture_change s of
             (self_initiated, s) \<Rightarrow>
               if self_initiated then s
               else run_machine a (s\<lparr>sh_loupe_timer := False\<rparr>) PointerCaptureLost)
      | OverviewBatch generation \<Rightarrow> render_batch a generation s
      | RButtonDown \<Rightarrow> run_machine a s CancelRequested
      | CloseMessage \<Rightarrow> run_machine a s CancelRequested
      | Paint \<Rightarrow> prune_dead a s
      | OtherMessage \<Rightarrow> s)"

subsection \<open>Opening a run and its outcome\<close>

text \<open>
  A remembered region comes back relative to the display it was drawn on. When that display's size or
  rotation is known, the code places the region's centre in \<open>f64\<close> arithmetic: \<open>locate\<close> stands for
  those lines, and the rest is translated.
\<close>

record region_source =
  rs_width :: u32
  rs_height :: u32
  rs_rotation :: "16 word"

type_synonym locate = "rect \<Rightarrow> region_source \<Rightarrow> rect \<Rightarrow> 16 word \<Rightarrow> i32 \<times> i32"

definition restore_region_for_display_change ::
  "locate \<Rightarrow> rect \<Rightarrow> region_source \<Rightarrow> rect \<Rightarrow> 16 word \<Rightarrow> rect" where
  "restore_region_for_display_change locate region previous src rotation =
     (let rotation_delta = (ucast rotation + 360 - ucast (rs_rotation previous) :: u32) mod 360;
          (width, height) = (if rotation_delta = 90 \<or> rotation_delta = 270
            then (rect_height region, rect_width region) else (rect_width region, rect_height region));
          width = min width (rect_width src);
          height = min height (rect_height src);
          (local_x, local_y) = locate region previous src rotation
      in fit_region_to_source
           \<lparr>rect_x = sadd (rect_x src) local_x, rect_y = sadd (rect_y src) local_y,
            rect_width = width, rect_height = height\<rparr> src)"

definition remembered_last_region ::
  "locate \<Rightarrow> rect option \<Rightarrow> region_source option \<Rightarrow> bool \<Rightarrow> rect \<Rightarrow> 16 word \<Rightarrow> rect option" where
  "remembered_last_region locate region previous display_local src rotation =
     map_option (\<lambda>region.
       case (display_local, previous) of
         (True, Some previous) \<Rightarrow> restore_region_for_display_change locate region previous src rotation
       | _ \<Rightarrow>
           fit_region_to_source
             \<lparr>rect_x = (if display_local then sadd (rect_x src) (rect_x region) else rect_x region),
              rect_y = (if display_local then sadd (rect_y src) (rect_y region) else rect_y region),
              rect_width = rect_width region, rect_height = rect_height region\<rparr> src) region"

lemma fit_region_in:
  assumes "source_ok src" "0 < uint (rect_width r)" "0 < uint (rect_height r)"
  shows "region_in src (fit_region_to_source r src)"
  unfolding fit_region_to_source_def
  by (rule clamp_within_in) (use assms in \<open>simp_all add: edge_defs\<close>)

lemma restore_region_in:
  assumes "source_ok src" "0 < uint (rect_width region)" "0 < uint (rect_height region)"
  shows "region_in src (restore_region_for_display_change locate region previous src rotation)"
proof -
  let ?delta = "(ucast rotation + 360 - ucast (rs_rotation previous) :: u32) mod 360"
  obtain x y where l: "locate region previous src rotation = (x, y)" by fastforce
  have "0 < uint (rect_width src)" "0 < uint (rect_height src)"
    using assms(1) by (simp_all add: source_ok_def edge_defs)
  then show ?thesis
    using assms
    by (cases "?delta = 90 \<or> ?delta = 270")
      (auto simp: restore_region_for_display_change_def l uint_min intro!: fit_region_in)
qed

lemma remembered_last_region_in:
  assumes "source_ok src" "remembered_last_region locate region previous display_local src rotation = Some r"
    and "\<And>q. region = Some q \<Longrightarrow> rect_left q < rect_right q \<and> rect_top q < rect_bottom q"
  shows "region_in src r"
proof -
  obtain q where q: "region = Some q" "0 < uint (rect_width q)" "0 < uint (rect_height q)"
    using assms(2,3) by (fastforce simp: remembered_last_region_def edge_defs)
  then show ?thesis
    using assms(1,2) restore_region_in [OF assms(1) q(2,3)]
    by (cases display_local; cases previous)
      (auto simp: remembered_last_region_def intro!: fit_region_in)
qed

record run_setup =
  ru_source :: rect
  ru_environment :: display_environment
  ru_initial_view :: preview_view
  ru_snapshot :: bool
  ru_require_layered :: bool
  ru_tool :: capture_tool
  ru_region :: "rect option"
  ru_region_source :: "region_source option"
  ru_region_local :: bool
  ru_rotation :: "16 word"
  ru_toolbar_position :: "point option"
  ru_clipboard :: bool
  ru_file_output :: bool
  ru_file_output_switchable :: bool
  ru_pin_available :: bool
  ru_edit_available :: bool
  ru_record_format :: "recording_format option"
  ru_snap_to_windows :: "bool option"
  ru_region_zoom :: "loupe_mode option"

definition resolved_initial_view :: "run_setup \<Rightarrow> preview_view" where
  "resolved_initial_view u = (if ru_snapshot u then ru_initial_view u else Live)"

definition open_model :: "locate \<Rightarrow> run_setup \<Rightarrow> 'w overlay_model" where
  "open_model locate u =
     (let src = ru_source u;
          last_region = (case remembered_last_region locate (ru_region u) (ru_region_source u) (ru_region_local u)
              src (ru_rotation u) of None \<Rightarrow> default_region_for_source src | Some r \<Rightarrow> r);
          (selection, kind) = initial_selection (ru_tool u) (Some last_region) src
      in \<lparr>om_source = src, om_environment = ru_environment u,
          om_view = resolved_initial_view u, om_initial_view = resolved_initial_view u,
          om_view_toggle_available = ru_snapshot u, om_tool = ru_tool u,
          om_selection = selection, om_selection_kind = kind, om_selected_window = None,
          om_anchor = None, om_dragging = False, om_resizing = None, om_moving_region = None,
          om_hovered_handle = None, om_last_region = Some last_region,
          om_toolbar_position = (case ru_toolbar_position u of
              None \<Rightarrow> default_origin (ru_environment u) | Some p \<Rightarrow> p),
          om_toolbar_drag = None, om_options_open = False, om_dim_background = True,
          om_clipboard_enabled = ru_clipboard u, om_file_output_enabled = ru_file_output u,
          om_file_output_switchable = ru_file_output_switchable u, om_pin_available = ru_pin_available u,
          om_edit_available = ru_edit_available u, om_record_format = ru_record_format u,
          om_record_armed = False, om_hovered_control = None, om_pointer_local = None, om_hovered = None,
          om_snap_to_windows = (case ru_snap_to_windows u of None \<Rightarrow> True | Some b \<Rightarrow> b),
          om_snap_targets = None,
          om_loupe = loupe_new (case ru_region_zoom u of None \<Rightarrow> LoupeAuto | Some mode \<Rightarrow> mode),
          om_active_snaps = NO_SNAPS\<rparr>)"

definition open_shell :: "locate \<Rightarrow> run_setup \<Rightarrow> 'w overlay_shell" where
  "open_shell locate u =
     \<lparr>sh_model = open_model locate u, sh_presenter = Layered, sh_view_switched = False, sh_releasing = False,
      sh_loupe_timer = False, sh_windows = None, sh_chooser = chooser_new, sh_preview = None,
      sh_window_frame = None, sh_result = None, sh_display_change = None, sh_closed = False, sh_log = []\<rparr>"

text \<open>\<open>run_overlay\<close>, once the presenter has settled.\<close>

definition start_shell :: "'w answers \<Rightarrow> 'w overlay_shell \<Rightarrow> 'w overlay_shell" where
  "start_shell a s = (if om_tool (sh_model s) = WindowTool then build_window_overview a s else s)"

text \<open>The opaque window a run with a snapshot falls back to shows the snapshot only.\<close>

definition presenter_fallback :: "'w overlay_shell \<Rightarrow> 'w overlay_shell" where
  "presenter_fallback s =
     s\<lparr>sh_presenter := Opaque,
       sh_model := (sh_model s)\<lparr>om_view := Frozen, om_initial_view := Frozen, om_view_toggle_available := False\<rparr>\<rparr>"

fun from_run :: "'w overlay_selection option \<Rightarrow> string option \<Rightarrow> 'w selection_outcome" where
  "from_run (Some selection) _ = Selected selection"
| "from_run None (Some reason) = DisplayConfigurationChanged reason"
| "from_run None None = RunCancelled"

definition run_outcome :: "'w overlay_shell \<Rightarrow> 'w selection_outcome" where
  "run_outcome s = from_run (sh_result s) (sh_display_change s)"

definition focus_after_run :: "'w selection_outcome \<Rightarrow> 'w option" where
  "focus_after_run outcome =
     (case outcome of
        Selected selection \<Rightarrow>
          if sel_intent selection = IntentRecord \<and> sel_kind selection = WindowKind then sel_window selection else None
      | _ \<Rightarrow> None)"

text \<open>The caller refuses an empty source, Windows' 32-bit desktop ends the right and bottom edges, and the
  configuration refuses a remembered region without pixels.\<close>

definition setup_ok :: "run_setup \<Rightarrow> bool" where
  "setup_ok u \<longleftrightarrow> source_ok (ru_source u) \<and>
     (case ru_region u of None \<Rightarrow> True
      | Some r \<Rightarrow> rect_left r < rect_right r \<and> rect_top r < rect_bottom r)"

inductive reachable :: "locate \<Rightarrow> run_setup \<Rightarrow> 'w overlay_shell \<Rightarrow> bool" for locate u where
  opened: "setup_ok u \<Longrightarrow> reachable locate u (start_shell a (open_shell locate u))"
| fell_back: "setup_ok u \<Longrightarrow> ru_snapshot u \<Longrightarrow> \<not> ru_require_layered u \<Longrightarrow>
    reachable locate u (start_shell a (presenter_fallback (open_shell locate u)))"
| message: "reachable locate u s \<Longrightarrow> reachable locate u (window_proc a s msg)"

end
