(* ===== verification/OverlayInvariant.thy ===== *)
theory OverlayInvariant
  imports OverlayShell
begin


section \<open>What holds in every state of an overlay run\<close>

text \<open>
  The invariant of the overlay's model, kept by every handler of
  \<open>crates/captastic-windows/src/overlay/machine.rs\<close> and by every message the window procedure
  handles, and what it says of the selections a run can end with.
\<close>

subsection \<open>The invariant\<close>

fun selection_ok :: "rect \<Rightarrow> rect option \<Rightarrow> selection_kind option \<Rightarrow> bool" where
  "selection_ok src None kind = True"
| "selection_ok src (Some r) None = False"
| "selection_ok src (Some r) (Some DisplayKind) = (r = src)"
| "selection_ok src (Some r) (Some RegionKind) = region_in src r"
| "selection_ok src (Some r) (Some WindowKind) = True"

fun kind_ok :: "capture_tool \<Rightarrow> selection_kind option \<Rightarrow> bool" where
  "kind_ok t None = True"
| "kind_ok t (Some kind) = (t = from_selection_kind kind)"

text \<open>Every guide line runs along an edge of the selection.\<close>

definition guides_on :: "rect \<Rightarrow> active_snaps \<Rightarrow> bool" where
  "guides_on r snaps \<longleftrightarrow>
     (\<forall>g. fst snaps = Some g \<longrightarrow> guide_axis g = AxisX \<and>
        sint (guide_position g) = (if guide_trailing g then rect_right r else rect_left r)) \<and>
     (\<forall>g. snd snaps = Some g \<longrightarrow> guide_axis g = AxisY \<and>
        sint (guide_position g) = (if guide_trailing g then rect_bottom r else rect_top r))"

definition snaps_ok :: "rect option \<Rightarrow> active_snaps \<Rightarrow> bool" where
  "snaps_ok selection snaps \<longleftrightarrow> snaps = NO_SNAPS \<or> (\<exists>r. selection = Some r \<and> guides_on r snaps)"

fun resizing_ok :: "rect \<Rightarrow> resize_drag option \<Rightarrow> bool" where
  "resizing_ok src None = True"
| "resizing_ok src (Some d) = region_in src (rd_original d)"

fun moving_ok :: "rect \<Rightarrow> move_drag option \<Rightarrow> bool" where
  "moving_ok src None = True"
| "moving_ok src (Some d) = region_in src (md_original d)"

fun last_ok :: "rect \<Rightarrow> rect option \<Rightarrow> bool" where
  "last_ok src None = True"
| "last_ok src (Some r) = region_in src r"

text \<open>
  The selection fits the source and its kind the tool; drags start from regions of the source; drags
  and guides belong to the Region tool, a chosen window and an armed Record to the Window tool.
\<close>

definition model_ok :: "'w overlay_model \<Rightarrow> bool" where
  "model_ok m \<longleftrightarrow> source_ok (om_source m) \<and>
     selection_ok (om_source m) (om_selection m) (om_selection_kind m) \<and>
     kind_ok (om_tool m) (om_selection_kind m) \<and>
     snaps_ok (om_selection m) (om_active_snaps m) \<and>
     resizing_ok (om_source m) (om_resizing m) \<and> moving_ok (om_source m) (om_moving_region m) \<and>
     last_ok (om_source m) (om_last_region m) \<and>
     (om_anchor m = None \<or> om_tool m = RegionTool) \<and>
     (om_resizing m = None \<or> om_selection_kind m = Some RegionKind) \<and>
     (om_moving_region m = None \<or> om_selection_kind m = Some RegionKind) \<and>
     (om_active_snaps m = NO_SNAPS \<or> om_tool m = RegionTool) \<and>
     (om_selected_window m = None \<or> om_tool m = WindowTool) \<and>
     (\<not> om_record_armed m \<or> om_tool m = WindowTool \<and> om_record_format m \<noteq> None)"

lemma snaps_ok_none [simp]: "snaps_ok selection NO_SNAPS"
  by (simp add: snaps_ok_def)

lemma snaps_ok_Some [simp]: "snaps_ok (Some r) snaps \<longleftrightarrow> snaps = NO_SNAPS \<or> guides_on r snaps"
  by (simp add: snaps_ok_def)

subsection \<open>Snapped geometry stays inside the source, and its guides on its edges\<close>

lemma guide_for_Some:
  "guide_for hit axis leading trailing = Some g \<Longrightarrow>
     guide_axis g = axis \<and> sint (guide_position g) = (if guide_trailing g then trailing else leading)"
  by (auto simp: guide_for_def bind_eq_Some_conv conv_simps split: if_splits)

lemma guides_for_on: "guides_on r (guides_for r hits)"
  unfolding guides_on_def guides_for_def Let_def
  by (auto dest!: guide_for_Some simp: edges_of_def edge_defs)

lemma guides_on_none [simp]: "guides_on r NO_SNAPS"
  by (simp add: guides_on_def NO_SNAPS_def)

lemma snapped_band_ok:
  assumes "source_ok (om_source m)" "rect_from_points_snapped m a p held = (r, snaps)"
  shows "case r of None \<Rightarrow> snaps = NO_SNAPS | Some q \<Rightarrow> region_in (om_source m) q \<and> guides_on q snaps"
  using assms rect_from_points_in [OF assms(1)]
  by (auto simp: rect_from_points_snapped_def Let_def guides_for_on split: option.splits prod.splits)

lemma snapped_resize_ok:
  assumes "source_ok (om_source m)" "region_in (om_source m) (rd_original d)"
    "resize_region_snapped m d p held = (r, snaps)"
  shows "region_in (om_source m) r" "guides_on r snaps"
  using assms resize_region_edges(3) [OF assms(1,2) refl]
  by (auto simp: resize_region_snapped_def Let_def guides_for_on split: option.splits prod.splits)

lemma snapped_move_ok:
  assumes "source_ok (om_source m)" "region_in (om_source m) (md_original d)"
    "move_region_snapped m d p held = (r, snaps)"
  shows "region_in (om_source m) r" "guides_on r snaps"
  using assms move_region_edges(5) [OF assms(1,2) refl] clamp_translated_in [OF assms(1)]
  by (auto simp: move_region_snapped_def Let_def guides_for_on split: option.splits prod.splits)

subsection \<open>Every handler keeps it\<close>

lemma ok_irrelevant [simp]:
  "model_ok (forget_pointer_motion m) = model_ok m"
  "model_ok (observe_pointer_motion m p time_ms) = model_ok m"
  "model_ok (m\<lparr>om_pointer_local := pl\<rparr>) = model_ok m"
  "model_ok (m\<lparr>om_hovered := h\<rparr>) = model_ok m"
  "model_ok (m\<lparr>om_hovered_handle := hh\<rparr>) = model_ok m"
  "model_ok (m\<lparr>om_hovered_control := hc\<rparr>) = model_ok m"
  "model_ok (m\<lparr>om_toolbar_drag := td\<rparr>) = model_ok m"
  "model_ok (m\<lparr>om_toolbar_position := tp\<rparr>) = model_ok m"
  "model_ok (m\<lparr>om_options_open := oo\<rparr>) = model_ok m"
  "model_ok (m\<lparr>om_dim_background := db\<rparr>) = model_ok m"
  "model_ok (m\<lparr>om_file_output_enabled := fo\<rparr>) = model_ok m"
  "model_ok (m\<lparr>om_loupe := l\<rparr>) = model_ok m"
  "model_ok (m\<lparr>om_view := v\<rparr>) = model_ok m"
  "model_ok (m\<lparr>om_snap_targets := ts\<rparr>) = model_ok m"
  "model_ok (m\<lparr>om_snap_to_windows := sw\<rparr>) = model_ok m"
  "model_ok (m\<lparr>om_dragging := dr\<rparr>) = model_ok m"
  by (simp_all add: model_ok_def forget_pointer_motion_def observe_pointer_motion_def)

lemma ok_no_snaps: "model_ok m \<Longrightarrow> model_ok (m\<lparr>om_active_snaps := NO_SNAPS\<rparr>)"
  by (simp add: model_ok_def)

lemma ok_no_drag:
  "model_ok m \<Longrightarrow> model_ok (m\<lparr>om_anchor := None, om_dragging := d, om_resizing := None, om_moving_region := None\<rparr>)"
  by (simp add: model_ok_def)

lemma latest_region_ok:
  "model_ok m \<Longrightarrow>
     last_ok (om_source m) (latest_interaction_region (om_tool m) (om_selection m) (om_selection_kind m) (om_last_region m))"
  by (auto simp: model_ok_def latest_interaction_region_def split: option.splits)

lemma persist_ok: "model_ok m \<Longrightarrow> model_ok (fst (persist_interaction m))"
  using latest_region_ok [of m] by (auto simp: persist_interaction_def Let_def model_ok_def)

lemma confirm_ok: "model_ok m \<Longrightarrow> model_ok (fst (confirm m intent))"
  using persist_ok [of m] by (auto simp: confirm_def split: option.splits prod.splits)

lemma confirm_or_capture_ok: "model_ok m \<Longrightarrow> model_ok (fst (confirm_or_capture m intent))"
  using confirm_ok [of m intent] confirm_ok [of "fst (confirm m intent)" IntentCapture]
  by (auto simp: confirm_or_capture_def split: prod.splits)

lemma cancel_ok: "model_ok m \<Longrightarrow> model_ok (fst (cancel m))"
  using persist_ok [of m] by (auto simp: cancel_def split: prod.splits)

lemma toggle_view_ok: "model_ok m \<Longrightarrow> model_ok (fst (toggle_view m))"
  by (auto simp: toggle_view_def)

lemma preview_resolved_ok:
  assumes "model_ok m" "om_tool m = WindowTool"
  shows "model_ok (fst (window_preview_resolved m r intent))"
proof -
  have "model_ok (m\<lparr>om_selection := r, om_selection_kind := map_option (\<lambda>_. WindowKind) r\<rparr>)"
    using assms by (cases r) (auto simp: model_ok_def)
  from confirm_or_capture_ok [OF this] this show ?thesis
    by (auto simp: window_preview_resolved_def Let_def)
qed

lemma capture_lost_ok: "model_ok m \<Longrightarrow> model_ok (fst (pointer_capture_lost m))"
  by (auto simp: pointer_capture_lost_def Let_def model_ok_def forget_pointer_motion_def)

lemma adjusted_in:
  assumes "source_ok src" "region_in src region"
  shows "region_in src (clamp_within (if resize then resize_region_by region dx dy src
      else translated region x y) src)"
  using assms resize_region_by_nonempty [of region dx dy src]
  by (cases resize) (simp_all add: clamp_translated_in clamp_within_in region_in_def [of _ region])

lemma nudge_ok:
  assumes "model_ok m"
  shows "model_ok (fst (nudge m dx dy resize))"
proof (cases "om_tool m \<noteq> RegionTool \<or> om_selection_kind m \<noteq> Some RegionKind \<or> om_options_open m \<or>
         om_anchor m \<noteq> None \<or> om_resizing m \<noteq> None \<or> om_moving_region m \<noteq> None \<or> om_selection m = None")
  case True
  then show ?thesis using assms by (auto simp: nudge_def)
next
  case False
  then obtain region where g: "om_tool m = RegionTool" "om_selection_kind m = Some RegionKind"
    "\<not> om_options_open m" "om_anchor m = None" "om_resizing m = None" "om_moving_region m = None"
    "om_selection m = Some region" by auto
  define adjusted where "adjusted = clamp_within (if resize then resize_region_by region dx dy (om_source m)
      else translated region (scast dx) (scast dy)) (om_source m)"
  have "region_in (om_source m) adjusted"
    unfolding adjusted_def using assms g by (intro adjusted_in) (auto simp: model_ok_def)
  then show ?thesis
    using assms g unfolding nudge_def Let_def adjusted_def [symmetric]
    by (simp add: adjusted_def [symmetric]) (auto simp: model_ok_def)
qed

lemma leave_tool_ok:
  assumes "model_ok m" "om_active_snaps m = NO_SNAPS" "\<not> region_drag_active m" "\<not> om_record_armed m"
  shows "model_ok (fst (leave_tool m)\<lparr>om_tool := t\<rparr>)"
  using assms latest_region_ok [OF assms(1)] by (auto simp: leave_tool_def model_ok_def region_drag_active_def)

lemma activate_ok: "model_ok m \<Longrightarrow> model_ok (fst (activate_tool m t))"
proof -
  assume ok: "model_ok m"
  define m1 where "m1 = forget_pointer_motion (m\<lparr>om_anchor := None, om_dragging := False, om_resizing := None,
            om_moving_region := None, om_active_snaps := NO_SNAPS, om_record_armed := False\<rparr>)"
  have ok1: "model_ok m1" and e: "om_active_snaps m1 = NO_SNAPS" "\<not> region_drag_active m1" "\<not> om_record_armed m1"
    using ok by (auto simp: m1_def model_ok_def forget_pointer_motion_def region_drag_active_def)
  define left where "left = (if om_tool m1 \<noteq> t then leave_tool m1 else (m1, []))"
  define m2 where "m2 = (fst left)\<lparr>om_tool := t, om_options_open := False\<rparr>"
  have ok2: "model_ok m2"
    using leave_tool_ok [OF ok1 e, of t] ok1 by (auto simp: m2_def left_def model_ok_def)
  have e2: "om_active_snaps m2 = NO_SNAPS" "om_tool m2 = t" "om_anchor m2 = None" "om_resizing m2 = None"
    "om_moving_region m2 = None" "\<not> om_record_armed m2" "om_tool m1 \<noteq> t \<longrightarrow> om_selected_window m2 = None"
    using e by (auto simp: m2_def left_def leave_tool_def region_drag_active_def)
  obtain region where i: "initial_selection RegionTool (om_last_region m2) (om_source m2) = (Some region, Some RegionKind)"
    by (simp add: Let_def)
  have r: "region_in (om_source m2) region"
  proof (rule initial_selection_in [OF _ i])
    show "source_ok (om_source m2)" using ok2 by (simp add: model_ok_def)
    show "rect_left q < rect_right q \<and> rect_top q < rect_bottom q" if "om_last_region m2 = Some q" for q
      using ok2 that by (simp add: model_ok_def region_in_def)
  qed
  have m: "fst (activate_tool m t) = fst (enter_tool m2 t (om_tool m1 \<noteq> t))"
    by (simp only: activate_tool_def Let_def split_beta fst_conv m2_def left_def m1_def)
  show ?thesis
  proof (cases t)
    case FullDisplayTool
    then show ?thesis
      unfolding m enter_tool_def using ok2 e2 region_in_self [of "om_source m2"] by (simp add: model_ok_def)
  next
    case WindowTool
    then show ?thesis unfolding m enter_tool_def using ok2 by simp
  next
    case RegionTool
    show ?thesis
      unfolding m enter_tool_def using ok2 e2 r RegionTool by (simp add: i del: initial_selection.simps) (auto simp: model_ok_def)
  qed
qed

lemma request_ok_model: "model_ok m \<Longrightarrow> model_ok (m\<lparr>om_snap_to_windows := sw, om_active_snaps := NO_SNAPS\<rparr>)"
  by (simp add: model_ok_def)

definition handled_of :: "'w handled + 'w handled \<Rightarrow> 'w handled" where
  "handled_of h = (case h of Inl h \<Rightarrow> h | Inr h \<Rightarrow> h)"

lemma handled_of_simps [simp]: "handled_of (Inl h) = h" "handled_of (Inr h) = h"
  by (simp_all add: handled_of_def)

lemma press_control_ok:
  assumes "model_ok m"
  shows "model_ok (fst (handled_of (press_control m control in_bounds l held)))"
proof (cases control)
  case Record
  have "model_ok (m\<lparr>om_record_armed := \<not> om_record_armed m\<rparr>)" if "om_tool m = WindowTool" "om_record_format m \<noteq> None"
    using assms that by (simp add: model_ok_def)
  then show ?thesis using Record confirm_ok [OF assms] by (simp add: press_control_def)
next
  case RecordFormat
  then show ?thesis
    using assms by (cases "om_record_format m") (simp_all add: press_control_def model_ok_def)
next
  case SnapToWindows
  then show ?thesis using assms by (simp add: press_control_def Let_def ok_no_snaps request_ok_model)
next
  case Capture
  then show ?thesis using confirm_or_capture_ok [OF assms] by (simp add: press_control_def)
next
  case Pin
  then show ?thesis using confirm_ok [OF assms] by (simp add: press_control_def)
next
  case Edit
  then show ?thesis using confirm_ok [OF assms] by (simp add: press_control_def)
next
  case Cancel
  then show ?thesis using cancel_ok [OF assms] by (simp add: press_control_def)
next
  case PreviewViewControl
  then show ?thesis using toggle_view_ok [OF assms] by (simp add: press_control_def)
next
  case FullDisplayControl
  then show ?thesis using activate_ok [OF assms] by (simp add: press_control_def)
next
  case WindowControl
  then show ?thesis using activate_ok [OF assms] by (simp add: press_control_def)
next
  case RegionControl
  then show ?thesis using activate_ok [OF assms] by (simp add: press_control_def)
qed (use assms in \<open>simp_all add: press_control_def start_toolbar_drag_def Let_def\<close>)

lemma toolbar_pressed_ok:
  assumes "model_ok m"
  shows "model_ok (fst (toolbar_control_pressed m control in_bounds l held))"
proof -
  define m1 where "m1 = m\<lparr>om_anchor := None, om_dragging := False, om_resizing := None, om_moving_region := None,
          om_hovered_control := Some control\<rparr>"
  have "model_ok m1" using assms by (simp add: m1_def model_ok_def)
  from press_control_ok [OF this, of control in_bounds l held] show ?thesis
    unfolding toolbar_control_pressed_def Let_def m1_def [symmetric]
    by (cases "press_control m1 control in_bounds l held") (simp_all add: split_beta)
qed

lemma drag_anchor_ok:
  assumes "model_ok m" "om_anchor m = Some anchor"
  shows "model_ok (fst (drag_anchor m anchor p held))"
proof -
  define m1 where "m1 = (if past_threshold p anchor \<and> \<not> om_dragging m
            then m\<lparr>om_anchor := Some (snap_anchor m anchor held), om_dragging := True\<rparr> else m)"
  have ok1: "model_ok m1" and t: "om_tool m1 = RegionTool" using assms by (auto simp: m1_def model_ok_def)
  obtain r snaps where b: "rect_from_points_snapped m1 (case om_anchor m1 of Some a \<Rightarrow> a | None \<Rightarrow> anchor) p held = (r, snaps)"
    by (rule prod.exhaust)
  have "source_ok (om_source m1)" using ok1 by (simp add: model_ok_def)
  from snapped_band_ok [OF this b] show ?thesis
    unfolding drag_anchor_def Let_def m1_def [symmetric]
    using ok1 t b by (cases r) (auto simp: model_ok_def)
qed

lemma ok_band: 
  assumes "model_ok m" "om_tool m = RegionTool" "region_in (om_source m) r" "guides_on r snaps"
    "om_selection_kind m = Some RegionKind"
  shows "model_ok (m\<lparr>om_selection := Some r, om_active_snaps := snaps\<rparr>)"
  using assms by (simp add: model_ok_def)

lemma move_pointer_ok:
  assumes "model_ok m"
  shows "model_ok (fst (move_pointer m l p window_hover held))"
proof -
  define m1 where "m1 = m\<lparr>om_hovered_control := (if \<not> region_drag_active m
            then hit_test (toolbar_new (om_environment m) (om_toolbar_position m)) l (om_options_open m) else None)\<rparr>"
  have ok1: "model_ok m1" using assms by (simp add: m1_def)
  then have src: "source_ok (om_source m1)" by (simp add: model_ok_def)
  note d = move_pointer_def Let_def m1_def [symmetric]
  consider (control) "om_hovered_control m1 \<noteq> None"
    | (resizing) drag where "om_hovered_control m1 = None" "om_resizing m1 = Some drag"
    | (moving) drag where "om_hovered_control m1 = None" "om_resizing m1 = None" "om_moving_region m1 = Some drag"
    | (anchor) a where "om_hovered_control m1 = None" "om_resizing m1 = None" "om_moving_region m1 = None" "om_anchor m1 = Some a"
    | (rest) "om_hovered_control m1 = None" "om_resizing m1 = None" "om_moving_region m1 = None" "om_anchor m1 = None"
    by fastforce
  then show ?thesis
  proof cases
    case control
    then show ?thesis unfolding d using ok1 by simp
  next
    case (resizing drag)
    obtain r snaps where b: "resize_region_snapped m1 drag p held = (r, snaps)" by (rule prod.exhaust)
    have "region_in (om_source m1) (rd_original drag)" using ok1 resizing by (simp add: model_ok_def)
    from snapped_resize_ok [OF src this b] show ?thesis
      unfolding d using ok1 resizing b by (auto simp: model_ok_def)
  next
    case (moving drag)
    obtain r snaps where b: "move_region_snapped m1 drag p held = (r, snaps)" by (rule prod.exhaust)
    have "region_in (om_source m1) (md_original drag)" using ok1 moving by (simp add: model_ok_def)
    from snapped_move_ok [OF src this b] show ?thesis
      unfolding d using ok1 moving b by (auto simp: model_ok_def)
  next
    case (anchor a)
    from drag_anchor_ok [OF ok1 anchor(4)] show ?thesis unfolding d using anchor by simp
  next
    case rest
    then show ?thesis unfolding d using ok1 by (simp add: hover_region_def Let_def)
  qed
qed

lemma drag_toolbar_ok: "model_ok m \<Longrightarrow> model_ok (fst (drag_toolbar m l offset))"
  by (simp add: drag_toolbar_def)

lemma pointer_moved_ok:
  assumes "model_ok m"
  shows "model_ok (fst (pointer_moved m p window_hover held time_ms))"
  using assms by (simp add: pointer_moved_def Let_def split_beta drag_toolbar_ok move_pointer_ok split: option.split)

lemma press_region_ok:
  assumes "model_ok m" "om_tool m = RegionTool" "om_active_snaps m = NO_SNAPS"
  shows "model_ok (fst (press_region m p))"
proof -
  define existing where "existing = (if om_selection_kind m = Some RegionKind then om_selection m else None)"
  define handle where "handle = (case existing of None \<Rightarrow> None
            | Some selection \<Rightarrow> hit_test_resize_handle selection p (metrics (om_environment m)))"
  note d = press_region_def Let_def existing_def [symmetric] handle_def [symmetric]
  show ?thesis
  proof (cases existing)
    case None
    then have "handle = None" by (simp add: handle_def)
    with None show ?thesis unfolding d using assms by (simp add: model_ok_def)
  next
    case (Some original)
    then have k: "om_selection_kind m = Some RegionKind" "om_selection m = Some original"
      by (auto simp: existing_def split: if_splits)
    then have r: "region_in (om_source m) original" using assms by (simp add: model_ok_def)
    show ?thesis
    proof (cases handle)
      case None
      show ?thesis unfolding d unfolding Some None using assms k r by (simp add: model_ok_def)
    next
      case h: (Some h)
      show ?thesis unfolding d unfolding Some h using assms k r by (simp add: model_ok_def)
    qed
  qed
qed

lemma pointer_down_ok:
  assumes "model_ok m"
  shows "model_ok (fst (pointer_down m p window_slot time_ms held))"
proof (cases "hit_test (toolbar_new (om_environment m) (om_toolbar_position m)) (local_point (om_source m) p)
    (om_options_open m)")
  case (Some control)
  then show ?thesis using toolbar_pressed_ok [OF assms] by (simp add: pointer_down_def Let_def)
next
  case None
  define m1 where "m1 = m\<lparr>om_loupe := (forget_motion (om_loupe m))\<lparr>last_sample := Some (p, time_ms)\<rparr>,
      om_active_snaps := NO_SNAPS, om_hovered_control := None, om_options_open := False\<rparr>"
  have m1: "model_ok m1" "om_active_snaps m1 = NO_SNAPS" "om_tool m1 = om_tool m" using assms by (simp_all add: m1_def model_ok_def)
  have w: "model_ok (m1\<lparr>om_selected_window := window_slot\<rparr>)" if "om_tool m = WindowTool"
    using m1 that by (simp add: model_ok_def)
  show ?thesis
    using None m1 w press_region_ok [OF m1(1) _ m1(2), of p]
    by (cases "om_tool m") (simp_all add: pointer_down_def Let_def split_beta m1_def)
qed

lemma release_region_ok:
  assumes "model_ok m" "om_tool m = RegionTool"
  shows "model_ok ((release_region m p held)\<lparr>om_active_snaps := NO_SNAPS\<rparr>)"
    and "om_tool (release_region m p held) = RegionTool"
proof -
  have src: "source_ok (om_source m)" using assms(1) by (simp add: model_ok_def)
  consider (resizing) drag where "om_resizing m = Some drag"
    | (moving) drag where "om_resizing m = None" "om_moving_region m = Some drag"
    | (anchor) a where "om_resizing m = None" "om_moving_region m = None" "om_anchor m = Some a"
    | (rest) "om_resizing m = None" "om_moving_region m = None" "om_anchor m = None"
    by fastforce
  then have "model_ok ((release_region m p held)\<lparr>om_active_snaps := NO_SNAPS\<rparr>) \<and>
      om_tool (release_region m p held) = RegionTool"
  proof cases
    case (resizing drag)
    obtain r snaps where b: "resize_region_snapped (m\<lparr>om_resizing := None\<rparr>) drag p held = (r, snaps)"
      by (rule prod.exhaust)
    have "region_in (om_source m) r"
      using snapped_resize_ok [OF _ _ b] assms resizing src by (simp add: model_ok_def)
    then show ?thesis
      using assms resizing b by (simp add: release_region_def commit_region_def model_ok_def Let_def)
  next
    case (moving drag)
    obtain r snaps where b: "move_region_snapped (m\<lparr>om_moving_region := None\<rparr>) drag p held = (r, snaps)"
      by (rule prod.exhaust)
    have "region_in (om_source m) r"
      using snapped_move_ok [OF _ _ b] assms moving src by (simp add: model_ok_def)
    then show ?thesis
      using assms moving b by (simp add: release_region_def commit_region_def model_ok_def Let_def)
  next
    case (anchor a)
    obtain r snaps where b: "rect_from_points_snapped (m\<lparr>om_anchor := None\<rparr>) a p held = (r, snaps)"
      by (rule prod.exhaust)
    show ?thesis
      using assms anchor b snapped_band_ok [OF _ b] src
      by (cases r; cases "om_dragging m") (simp_all add: release_region_def commit_region_def model_ok_def Let_def)
  next
    case rest
    then show ?thesis using assms by (simp add: release_region_def ok_no_snaps)
  qed
  then show "model_ok ((release_region m p held)\<lparr>om_active_snaps := NO_SNAPS\<rparr>)"
    "om_tool (release_region m p held) = RegionTool" by blast+
qed

lemma pointer_up_ok:
  assumes "model_ok m"
  shows "model_ok (fst (pointer_up m p held))"
proof (cases "om_toolbar_drag m \<noteq> None \<or> om_tool m \<noteq> RegionTool")
  case True
  then show ?thesis using assms by (auto simp: pointer_up_def Let_def)
next
  case False
  then have "model_ok ((release_region m p held)\<lparr>om_active_snaps := NO_SNAPS\<rparr>)"
    using release_region_ok [OF assms] by simp
  then show ?thesis using False by (simp add: pointer_up_def Let_def)
qed

lemma sources_pruned_ok:
  assumes "model_ok m"
  shows "model_ok (fst (window_sources_pruned m dead))"
proof -
  define m1 where "m1 = (case om_hovered m of
            Some c \<Rightarrow> if cand_handle c \<in> set dead then m\<lparr>om_hovered := None\<rparr> else m
          | None \<Rightarrow> m)"
  have "model_ok m1" using assms by (simp add: m1_def split: option.split)
  moreover from this have "model_ok (m1\<lparr>om_selected_window := None\<rparr>)" by (simp add: model_ok_def)
  ultimately show ?thesis
    unfolding window_sources_pruned_def Let_def m1_def [symmetric] by (simp split: option.split)
qed

lemma loupe_ok:
  "model_ok m \<Longrightarrow> model_ok (fst (loupe_key_changed m held))"
  "model_ok m \<Longrightarrow> model_ok (fst (loupe_tick m time_ms))"
  by (auto simp: loupe_key_changed_def loupe_tick_def Let_def split: option.split prod.split)

text \<open>The one input that is an answer and not a message, the resolved preview, comes under the Window tool.\<close>

fun input_fits :: "'w overlay_model \<Rightarrow> 'w overlay_input \<Rightarrow> bool" where
  "input_fits m (WindowPreviewResolved r intent) = (om_tool m = WindowTool)"
| "input_fits m _ = True"

lemma transition_ok:
  assumes "model_ok m" "input_fits m input"
  shows "model_ok (fst (transition m input))"
proof (cases input)
  case (DoubleClicked p held)
  then show ?thesis
    using assms confirm_or_capture_ok [OF assms(1)] by (simp add: double_clicked_def Let_def)
qed (use assms in \<open>simp_all add: pointer_moved_ok pointer_down_ok pointer_up_ok capture_lost_ok preview_resolved_ok
    loupe_ok toggle_view_ok nudge_ok confirm_ok cancel_ok\<close>)


subsection \<open>The effects of a handler\<close>

text \<open>
  A handler asks for a window preview only as its last effect, for the window it has just chosen; it
  closes only as its last effect, and a confirmation closes with the selection the model holds.
\<close>

fun is_calm :: "'w overlay_effect \<Rightarrow> bool" where
  "is_calm (UpdateWindowPreview _) = False"
| "is_calm (Close _) = False"
| "is_calm _ = True"

fun close_fits :: "'w overlay_model \<Rightarrow> 'w close_outcome \<Rightarrow> bool" where
  "close_fits m (Confirmed r kind window intent) =
     (om_selection m = Some r \<and> om_selection_kind m = Some kind \<and> om_selected_window m = window \<and>
      intent_available m intent)"
| "close_fits m _ = True"

fun effects_fit :: "'w overlay_model \<Rightarrow> 'w overlay_effect list \<Rightarrow> bool" where
  "effects_fit m [] = True"
| "effects_fit m (UpdateWindowPreview w # effects) =
     (effects = [] \<and> om_tool m = WindowTool \<and> om_selected_window m = w)"
| "effects_fit m (Close outcome # effects) = (effects = [] \<and> close_fits m outcome)"
| "effects_fit m (e # effects) = effects_fit m effects"

lemma effects_fit_append: "list_all is_calm xs \<Longrightarrow> effects_fit m (xs @ ys) = effects_fit m ys"
proof (induction xs)
  case (Cons e xs)
  then show ?case by (cases e) simp_all
qed simp

lemma effects_fit_calm: "list_all is_calm xs \<Longrightarrow> effects_fit m xs"
  using effects_fit_append [of xs m "[]"] by simp

lemma request_calm [simp]: "list_all is_calm (request_snap_targets m)"
  by (simp add: request_snap_targets_def)

lemma refresh_calm [simp]: "list_all is_calm (refresh_if_window m)"
  by (simp add: refresh_if_window_def)

lemma confirm_fit: "effects_fit (fst (confirm m intent)) (snd (confirm m intent))"
  by (auto simp: confirm_def persist_interaction_def Let_def intent_available_def
      split: option.splits confirm_intent_kind.splits)

lemma confirm_or_capture_fit: "effects_fit (fst (confirm_or_capture m intent)) (snd (confirm_or_capture m intent))"
  using confirm_fit [of m intent] confirm_fit [of "fst (confirm m intent)" IntentCapture]
  by (auto simp: confirm_or_capture_def split: prod.splits)

lemma cancel_fit: "effects_fit (fst (cancel m)) (snd (cancel m))"
  by (simp add: cancel_def persist_interaction_def Let_def)

lemma activate_calm: "list_all is_calm (snd (activate_tool m t))"
proof -
  have "list_all is_calm (snd (enter_tool m t c))" for m :: "'a overlay_model" and t c
    by (auto simp: enter_tool_def split: capture_tool.split prod.split)
  then show ?thesis
    by (auto simp: activate_tool_def Let_def leave_tool_def split_beta)
qed

lemma press_control_fit:
  "case press_control m control in_bounds l held of
     Inl (m', effects) \<Rightarrow> effects_fit m' effects | Inr (m', effects) \<Rightarrow> list_all is_calm effects"
  by (cases control)
    (use activate_calm [of m] confirm_fit [of m] confirm_or_capture_fit [of m] cancel_fit [of m] in
      \<open>auto simp: press_control_def Let_def start_toolbar_drag_def toggle_view_def split_beta split: option.split\<close>)

lemma toolbar_pressed_fit:
  "effects_fit (fst (toolbar_control_pressed m control in_bounds l held)) (snd (toolbar_control_pressed m control in_bounds l held))"
proof -
  define m1 where "m1 = m\<lparr>om_anchor := None, om_dragging := False, om_resizing := None, om_moving_region := None,
          om_hovered_control := Some control\<rparr>"
  from press_control_fit [of m1 control in_bounds l held] show ?thesis
    unfolding toolbar_control_pressed_def Let_def m1_def [symmetric]
    by (auto simp: effects_fit_append split: sum.splits)
qed

lemma move_pointer_calm: "list_all is_calm (snd (move_pointer m l p window_hover held))"
  by (auto simp: move_pointer_def Let_def drag_anchor_def hover_region_def split: option.split prod.split)

lemma pointer_moved_calm: "list_all is_calm (snd (pointer_moved m p window_hover held time_ms))"
  using move_pointer_calm by (auto simp: pointer_moved_def Let_def drag_toolbar_def split_beta split: option.split)

lemma press_region_calm: "list_all is_calm (snd (press_region m p))"
  by (auto simp: press_region_def Let_def split: option.split prod.split)

lemma pointer_down_fit:
  "effects_fit (fst (pointer_down m p window_slot time_ms held)) (snd (pointer_down m p window_slot time_ms held))"
proof (cases "hit_test (toolbar_new (om_environment m) (om_toolbar_position m)) (local_point (om_source m) p)
    (om_options_open m)")
  case (Some control)
  then show ?thesis using toolbar_pressed_fit by (simp add: pointer_down_def Let_def)
next
  case None
  then show ?thesis
    by (cases "om_tool m")
      (simp_all add: pointer_down_def Let_def split_beta effects_fit_append effects_fit_calm press_region_calm)
qed

lemma pointer_up_calm: "list_all is_calm (snd (pointer_up m p held))"
  by (auto simp: pointer_up_def Let_def)

lemma transition_fit:
  assumes "input_fits m input"
  shows "effects_fit (fst (transition m input)) (snd (transition m input))"
proof (cases input)
  case (DoubleClicked p held)
  then show ?thesis using confirm_or_capture_fit by (auto simp: double_clicked_def Let_def)
next
  case (WindowPreviewResolved r intent)
  then show ?thesis using confirm_or_capture_fit by (auto simp: window_preview_resolved_def Let_def)
next
  case (Nudge dx dy resize)
  then show ?thesis by (auto simp: nudge_def Let_def split: option.split)
next
  case (LoupeKeyChanged held)
  then show ?thesis by (auto simp: loupe_key_changed_def Let_def)
next
  case (Tick time_ms)
  then show ?thesis by (auto simp: loupe_tick_def Let_def split: option.split)
next
  case PointerCaptureLost
  then show ?thesis by (auto simp: pointer_capture_lost_def Let_def)
next
  case ToggleView
  then show ?thesis by (auto simp: toggle_view_def)
qed (simp_all add: effects_fit_calm pointer_moved_calm pointer_up_calm pointer_down_fit confirm_fit cancel_fit)

subsection \<open>Carrying effects out\<close>

lemma preview_resolved_none:
  "window_preview_resolved m None intent =
     (m\<lparr>om_selection := None, om_selection_kind := None\<rparr>, [RebuildOverviewCache, Invalidate])"
  by (simp add: window_preview_resolved_def)

lemma intent_available_update [simp]:
  "intent_available (m\<lparr>om_selection := r\<rparr>) intent = intent_available m intent"
  "intent_available (m\<lparr>om_selection_kind := kind\<rparr>) intent = intent_available m intent"
  "intent_available (m\<lparr>om_last_region := region\<rparr>) intent = intent_available m intent"
  by (cases intent; simp add: intent_available_def)+

text \<open>A window whose preview resolved is confirmed at once: capturing is always available.\<close>

lemma preview_resolved_some:
  obtains m' region intent' where
    "window_preview_resolved m (Some r) intent =
       (m', [PersistInteraction region, Close (Confirmed r WindowKind (om_selected_window m) intent')])"
    "m' = m\<lparr>om_selection := Some r, om_selection_kind := Some WindowKind, om_last_region := region\<rparr>"
    "intent_available m intent'"
proof -
  define m1 where "m1 = m\<lparr>om_selection := Some r, om_selection_kind := Some WindowKind\<rparr>"
  define i where "i = (if om_record_armed m then IntentRecord else intent)"
  define i' where "i' = (if intent_available m i then i else IntentCapture)"
  have c: "intent_available m i'" by (simp add: i'_def intent_available_def)
  have k: "confirm m1 j = (m1\<lparr>om_last_region := om_last_region m1\<rparr>, [PersistInteraction (om_last_region m1),
      Close (Confirmed r WindowKind (om_selected_window m) j)])" if "intent_available m j" for j
    using that by (simp add: confirm_def m1_def persist_interaction_def latest_interaction_region_def)
  have z: "confirm m1 j = (m1, [])" if "\<not> intent_available m j" for j
    using that by (simp add: confirm_def m1_def)
  have "confirm_or_capture m1 i = confirm m1 i'"
  proof (cases "intent_available m i")
    case True
    then show ?thesis by (simp add: confirm_or_capture_def i'_def k)
  next
    case False
    then have "i \<noteq> IntentCapture" by (auto simp: intent_available_def)
    then show ?thesis using False by (simp add: confirm_or_capture_def i'_def z)
  qed
  then have "window_preview_resolved m (Some r) intent = confirm m1 i'"
    by (simp add: window_preview_resolved_def Let_def m1_def i_def)
  with k [OF c] have "window_preview_resolved m (Some r) intent =
      (m1\<lparr>om_last_region := om_last_region m1\<rparr>, [PersistInteraction (om_last_region m1),
      Close (Confirmed r WindowKind (om_selected_window m) i')])" by simp
  moreover have "m1\<lparr>om_last_region := om_last_region m1\<rparr> =
      m\<lparr>om_selection := Some r, om_selection_kind := Some WindowKind, om_last_region := om_last_region m1\<rparr>"
    by (simp add: m1_def)
  ultimately show ?thesis using c that by auto
qed

text \<open>What a selection the run ends with is worth.\<close>

definition result_ok :: "'w overlay_shell \<Rightarrow> 'w overlay_selection \<Rightarrow> bool" where
  "result_ok s sel \<longleftrightarrow>
     om_tool (sh_model s) = from_selection_kind (sel_kind sel) \<and>
     intent_available (sh_model s) (sel_intent sel) \<and>
     sel_view sel = om_view (sh_model s) \<and> sel_view_switched sel = sh_view_switched s \<and>
     (case sel_kind sel of
        DisplayKind \<Rightarrow> sel_rect sel = om_source (sh_model s) \<and> sel_window sel = None
      | RegionKind \<Rightarrow> region_in (om_source (sh_model s)) (sel_rect sel) \<and> sel_window sel = None
      | WindowKind \<Rightarrow> (\<exists>handle. sel_window sel = Some handle \<and> sh_preview s = Some (Ready handle (sel_rect sel))))"

definition not_closing :: "'w overlay_effect list \<Rightarrow> bool" where
  "not_closing effects \<longleftrightarrow> (\<forall>outcome. Close outcome \<notin> set effects)"

text \<open>A run that closed carried out one close, as its last effect, and reports what that close said.\<close>

definition closed_as :: "'w overlay_shell \<Rightarrow> 'w close_outcome \<Rightarrow> bool" where
  "closed_as s outcome \<longleftrightarrow>
     (\<exists>earlier. sh_log s = earlier @ [Close outcome] \<and> not_closing earlier) \<and>
     (case outcome of
        Confirmed r kind window intent \<Rightarrow>
          \<exists>sel. sh_result s = Some sel \<and> sh_display_change s = None \<and> sel_rect sel = r \<and> sel_kind sel = kind \<and>
            sel_window sel = window \<and> sel_intent sel = intent \<and> result_ok s sel
      | Cancelled \<Rightarrow> sh_result s = None \<and> sh_display_change s = None
      | ConfigurationInvalidated reason \<Rightarrow> sh_result s = None \<and> sh_display_change s = Some reason)"

definition shell_ok :: "'w overlay_shell \<Rightarrow> bool" where
  "shell_ok s \<longleftrightarrow> model_ok (sh_model s) \<and> \<not> sh_releasing s \<and>
     (sh_view_switched s \<or> om_view (sh_model s) = om_initial_view (sh_model s)) \<and>
     (if sh_closed s then \<exists>outcome. closed_as s outcome
      else sh_result s = None \<and> sh_display_change s = None \<and> not_closing (sh_log s) \<and>
        om_selection_kind (sh_model s) \<noteq> Some WindowKind)"

lemma not_closing_simps [simp]:
  "not_closing []" "not_closing (xs @ ys) \<longleftrightarrow> not_closing xs \<and> not_closing ys"
  "not_closing (e # xs) \<longleftrightarrow> (\<forall>outcome. e \<noteq> Close outcome) \<and> not_closing xs"
  by (auto simp: not_closing_def)

definition open_ok :: "'w overlay_shell \<Rightarrow> bool" where
  "open_ok s \<longleftrightarrow> shell_ok s \<and> \<not> sh_closed s"

lemma open_ok_def':
  "open_ok s \<longleftrightarrow> model_ok (sh_model s) \<and> \<not> sh_releasing s \<and>
     (sh_view_switched s \<or> om_view (sh_model s) = om_initial_view (sh_model s)) \<and>
     sh_result s = None \<and> sh_display_change s = None \<and> not_closing (sh_log s) \<and>
     om_selection_kind (sh_model s) \<noteq> Some WindowKind \<and> \<not> sh_closed s"
  by (auto simp: open_ok_def shell_ok_def)

lemma plain_effect_model [simp]: "sh_model (plain_effect a s e) = sh_model s"
  by (cases "(a, s, e)" rule: plain_effect.cases)
    (simp_all add: consume_capture_change_def build_window_overview_def refresh_window_chrome_def on_chooser_def
      ensure_window_inventory_def Let_def split: option.split)

lemma plain_effect_ok: "is_calm e \<Longrightarrow> open_ok s \<Longrightarrow> open_ok (plain_effect a (logged s e) e)"
  by (cases e) (auto simp: open_ok_def' logged_def consume_capture_change_def build_window_overview_def refresh_window_chrome_def on_chooser_def
      ensure_window_inventory_def Let_def
      split: option.split)

lemma inventory_ok: "open_ok s \<Longrightarrow> open_ok (ensure_window_inventory a s)" "sh_model (ensure_window_inventory a s) = sh_model s"
  by (simp_all add: open_ok_def' ensure_window_inventory_def split: option.split)

lemma on_chooser_ok: "open_ok s \<Longrightarrow> open_ok (on_chooser f s)" "sh_model (on_chooser f s) = sh_model s"
  by (simp_all add: on_chooser_def open_ok_def')

lemma build_overview_ok:
  "open_ok s \<Longrightarrow> open_ok (build_window_overview a s)" "sh_model (build_window_overview a s) = sh_model s"
  by (simp_all add: build_window_overview_def on_chooser_ok inventory_ok Let_def)

lemma effects_fit_targets: "effects_fit (m\<lparr>om_snap_targets := ts\<rparr>) effects = effects_fit m effects"
proof (induction effects)
  case (Cons e effects)
  have "close_fits (m\<lparr>om_snap_targets := ts\<rparr>) outcome = close_fits m outcome" for outcome
    by (cases outcome) (simp_all add: intent_available_def split: confirm_intent_kind.split)
  with Cons show ?case by (cases e) simp_all
qed simp

text \<open>A close with the selection of an open run that holds no window.\<close>

lemma close_ok:
  assumes "open_ok s" "close_fits (sh_model s) outcome"
  shows "closed_as (close_run (logged s (Close outcome)) outcome) outcome"
    and "shell_ok (close_run (logged s (Close outcome)) outcome)"
proof -
  let ?s = "close_run (logged s (Close outcome)) outcome"
  have m: "sh_model ?s = sh_model s" "sh_closed ?s" "sh_releasing ?s = sh_releasing s"
    "sh_view_switched ?s = sh_view_switched s" "sh_log ?s = sh_log s @ [Close outcome]"
    by (cases outcome; simp add: logged_def Let_def)+
  show c: "closed_as ?s outcome"
  proof (cases outcome)
    case (Confirmed r kind window intent)
    then have k: "om_selection (sh_model s) = Some r" "om_selection_kind (sh_model s) = Some kind"
      "om_selected_window (sh_model s) = window" "intent_available (sh_model s) intent" "kind \<noteq> WindowKind"
      using assms by (auto simp: open_ok_def')
    have "model_ok (sh_model s)" using assms(1) by (simp add: open_ok_def')
    then have "om_tool (sh_model s) = from_selection_kind kind"
      "kind = DisplayKind \<longrightarrow> r = om_source (sh_model s)" "kind = RegionKind \<longrightarrow> region_in (om_source (sh_model s)) r"
      "window = None"
      using k by (cases kind; auto simp: model_ok_def)+
    then show ?thesis
      using assms(1) k Confirmed
      by (cases kind) (auto simp: closed_as_def result_ok_def open_ok_def' logged_def build_overlay_selection_def)
  qed (use assms(1) in \<open>auto simp: closed_as_def open_ok_def' logged_def\<close>)
  then show "shell_ok ?s"
    using assms(1) m by (auto simp: shell_ok_def open_ok_def')
qed

lemma update_preview_model [simp]: "sh_model (update_window_preview a s w) = sh_model s"
  by (simp add: update_window_preview_def split: option.split)

lemma update_preview_ok: "open_ok s \<Longrightarrow> open_ok (update_window_preview a s w)"
  by (auto simp: open_ok_def' update_window_preview_def split: option.split)

lemma ready_preview_Some:
  "ready_window_preview s w = Some r \<Longrightarrow> \<exists>handle. w = Some handle \<and> sh_preview s = Some (Ready handle r)"
  by (cases w; cases "sh_preview s") (auto simp: ready_window_preview_def split: window_preview_state.splits if_splits)

text \<open>A chosen window: no preview leaves the run open, a preview closes it with that window.\<close>

lemma preview_effect_ok:
  assumes "open_ok s" "om_tool (sh_model s) = WindowTool" "om_selected_window (sh_model s) = w"
  shows "shell_ok (apply_effects a s [UpdateWindowPreview w])"
proof -
  define s1 where "s1 = update_window_preview a (logged s (UpdateWindowPreview w)) w"
  define s2 where "s2 = s1\<lparr>sh_window_frame := ready_window_preview s1 w\<rparr>"
  have ok1: "open_ok s1" unfolding s1_def by (rule update_preview_ok) (use assms(1) in \<open>simp add: open_ok_def' logged_def\<close>)
  then have ok2: "open_ok s2" by (simp add: s2_def open_ok_def')
  have m: "sh_model s2 = sh_model s" "sh_preview s2 = sh_preview s1" by (simp_all add: s2_def s1_def logged_def)
  have e: "apply_effects a s [UpdateWindowPreview w] =
      (case window_preview_resolved (sh_model s2) (sh_window_frame s2) (confirm_intent (an_held a)) of
        (m, feedback) \<Rightarrow> apply_effects a (s2\<lparr>sh_model := m\<rparr>) feedback)"
    unfolding s2_def s1_def by (simp only: apply_effects.simps overlay_effect.case transition.simps Let_def)
  show ?thesis
  proof (cases "sh_window_frame s2")
    case None
    have "model_ok ((sh_model s2)\<lparr>om_selection := None, om_selection_kind := None\<rparr>)"
      using preview_resolved_ok [of "sh_model s2" None] ok2 assms(2) m
      by (simp add: open_ok_def' preview_resolved_none)
    then show ?thesis
      using ok2 None unfolding e by (simp add: preview_resolved_none logged_def open_ok_def' shell_ok_def)
  next
    case (Some r)
    then obtain handle where h: "w = Some handle" "sh_preview s2 = Some (Ready handle r)"
      using ready_preview_Some [of s1 w r] by (auto simp: s2_def)
    obtain m' region intent' where p:
      "window_preview_resolved (sh_model s2) (Some r) (confirm_intent (an_held a)) =
        (m', [PersistInteraction region, Close (Confirmed r WindowKind (om_selected_window (sh_model s2)) intent')])"
      "m' = (sh_model s2)\<lparr>om_selection := Some r, om_selection_kind := Some WindowKind, om_last_region := region\<rparr>"
      "intent_available (sh_model s2) intent'" by (rule preview_resolved_some)
    have ok: "model_ok m'"
      using preview_resolved_ok [of "sh_model s2" "Some r" "confirm_intent (an_held a)"] ok2 assms(2) m p(1)
      by (simp add: open_ok_def')
    define s3 where "s3 = apply_effects a (s2\<lparr>sh_model := m'\<rparr>) [PersistInteraction region,
      Close (Confirmed r WindowKind (om_selected_window (sh_model s2)) intent')]"
    have "closed_as s3 (Confirmed r WindowKind w intent')"
      using ok2 assms(2,3) m h p(2,3) Some
      by (simp add: s3_def closed_as_def result_ok_def logged_def open_ok_def' build_overlay_selection_def Let_def)
    moreover have "model_ok (sh_model s3)" "\<not> sh_releasing s3" "sh_closed s3"
      "sh_view_switched s3 \<or> om_view (sh_model s3) = om_initial_view (sh_model s3)"
      using ok ok2 p(2) by (simp_all add: s3_def logged_def open_ok_def' Let_def)
    ultimately have "shell_ok s3" by (auto simp: shell_ok_def)
    then show ?thesis unfolding e s3_def using p(1) Some by simp
  qed
qed

lemma apply_effects_ok:
  assumes "open_ok s" "effects_fit (sh_model s) effects"
  shows "shell_ok (apply_effects a s effects)"
  using assms
proof (induction effects arbitrary: s)
  case Nil
  then show ?case by (simp add: open_ok_def)
next
  case (Cons e effects)
  show ?case
  proof (cases "is_calm e")
    case True
    show ?thesis
    proof (cases "e = BuildSnapTargets")
      case b: True
      obtain s1 targets where t: "build_snap_targets a (logged s e) = (s1, targets)" by (rule prod.exhaust)
      have "open_ok (logged s e)" using Cons.prems(1) b by (simp add: open_ok_def' logged_def)
      then have "open_ok s1" "sh_model s1 = sh_model s"
        using inventory_ok [where s = "logged s e" and a = a] t by (auto simp: build_snap_targets_def Let_def logged_def)
      then have "open_ok (s1\<lparr>sh_model := (sh_model s1)\<lparr>om_snap_targets := Some targets\<rparr>\<rparr>)"
        by (simp add: open_ok_def')
      from Cons.IH [OF this] show ?thesis
        using Cons.prems(2) t b \<open>sh_model s1 = sh_model s\<close> by (simp add: effects_fit_targets)
    next
      case False
      have "effects_fit (sh_model s) effects" using Cons.prems(2) True by (cases e) simp_all
      then have "shell_ok (apply_effects a (plain_effect a (logged s e) e) effects)"
        by (intro Cons.IH plain_effect_ok [OF True Cons.prems(1)]) (simp add: logged_def)
      then show ?thesis using True False by (cases e) (simp_all add: Let_def)
    qed
  next
    case False
    then show ?thesis
      using Cons.prems close_ok [OF Cons.prems(1)] preview_effect_ok [OF Cons.prems(1)] by (cases e) auto
  qed
qed

end
