(* ===== verification/OverlayRun.thy ===== *)
theory OverlayRun
  imports OverlayInvariant
begin

section \<open>Overlay runs\<close>

text \<open>
  Runs of the window procedure of \<open>crates/captastic-windows/src/overlay.rs\<close>: every message keeps
  the invariant, and what the runs promise: the selection they end with, that they close once, and
  that they can always be left.
\<close>


subsection \<open>What no handler changes\<close>

text \<open>
  The source and the view the run opened in never change, and only a resolved preview selects a window.
\<close>

definition steady :: "'w overlay_model \<Rightarrow> 'w overlay_model \<Rightarrow> bool" where
  "steady m m' \<longleftrightarrow> om_source m' = om_source m \<and> om_initial_view m' = om_initial_view m \<and>
     (om_selection_kind m' = Some WindowKind \<longrightarrow> om_selection_kind m = Some WindowKind)"

lemma steady_refl [simp]: "steady m m"
  by (simp add: steady_def)

lemma steady_trans: "steady m m' \<Longrightarrow> steady m' m'' \<Longrightarrow> steady m m''"
  by (auto simp: steady_def)

lemma steady_forget [simp]: "steady m (forget_pointer_motion m)"
  by (simp add: steady_def forget_pointer_motion_def)

lemma steady_confirm: "steady m (fst (confirm m intent))"
  by (auto simp: steady_def confirm_def persist_interaction_def Let_def split: option.split)

lemma steady_confirm_or_capture: "steady m (fst (confirm_or_capture m intent))"
  using steady_confirm [of m intent] steady_trans [OF steady_confirm [of m intent] steady_confirm]
  by (auto simp: confirm_or_capture_def split: prod.splits)

lemma steady_cancel: "steady m (fst (cancel m))"
  by (simp add: steady_def cancel_def persist_interaction_def Let_def)

lemma steady_toggle: "steady m (fst (toggle_view m))"
  by (simp add: steady_def toggle_view_def)

lemma steady_initial_region:
  "snd (initial_selection RegionTool last_region src) = Some RegionKind"
  by (simp add: Let_def)

lemma steady_activate: "steady m (fst (activate_tool m t))"
proof -
  have e: "steady m (fst (enter_tool m t c))" for m :: "'a overlay_model" and t c
    by (cases t) (simp_all add: enter_tool_def steady_def split_beta steady_initial_region del: initial_selection.simps)
  have l: "steady m (fst (leave_tool m))" for m :: "'a overlay_model"
    by (simp add: leave_tool_def steady_def)
  define m1 where "m1 = forget_pointer_motion (m\<lparr>om_anchor := None, om_dragging := False, om_resizing := None,
            om_moving_region := None, om_active_snaps := NO_SNAPS, om_record_armed := False\<rparr>)"
  define left where "left = (if om_tool m1 \<noteq> t then leave_tool m1 else (m1, []))"
  define m2 where "m2 = (fst left)\<lparr>om_tool := t, om_options_open := False\<rparr>"
  have "fst (activate_tool m t) = fst (enter_tool m2 t (om_tool m1 \<noteq> t))"
    by (simp only: activate_tool_def Let_def split_beta fst_conv m2_def left_def m1_def)
  moreover have "steady m m1" by (simp add: m1_def steady_def forget_pointer_motion_def)
  moreover have "steady m1 (fst left)" using l by (simp add: left_def)
  moreover have "steady (fst left) m2" by (simp add: m2_def steady_def)
  ultimately show ?thesis using e steady_trans by metis
qed

lemma steady_press_control: "steady m (fst (handled_of (press_control m control in_bounds l held)))"
  by (cases control)
    (use steady_activate [of m] steady_confirm [of m] steady_confirm_or_capture [of m] steady_cancel [of m]
       steady_toggle [of m] in
      \<open>auto simp: press_control_def Let_def start_toolbar_drag_def steady_def forget_pointer_motion_def split: option.split\<close>)

lemma steady_pressed: "steady m (fst (toolbar_control_pressed m control in_bounds l held))"
proof -
  define m1 where "m1 = m\<lparr>om_anchor := None, om_dragging := False, om_resizing := None, om_moving_region := None,
          om_hovered_control := Some control\<rparr>"
  have "steady m m1" by (simp add: m1_def steady_def)
  from steady_trans [OF this steady_press_control [of m1 control in_bounds l held]] show ?thesis
    unfolding toolbar_control_pressed_def Let_def m1_def [symmetric]
    by (cases "press_control m1 control in_bounds l held") (simp_all add: split_beta)
qed

lemma steady_drag_anchor: "steady m (fst (drag_anchor m anchor p held))"
  by (auto simp: drag_anchor_def Let_def steady_def split_beta split: option.split)

lemma steady_move_pointer: "steady m (fst (move_pointer m l p window_hover held))"
proof -
  define m1 where "m1 = m\<lparr>om_hovered_control := (if \<not> region_drag_active m
            then hit_test (toolbar_new (om_environment m) (om_toolbar_position m)) l (om_options_open m) else None)\<rparr>"
  have "steady m m1" by (simp add: m1_def steady_def)
  moreover have "steady m1 (fst (move_pointer m l p window_hover held))"
    unfolding move_pointer_def Let_def m1_def [symmetric]
    by (auto simp: steady_drag_anchor hover_region_def Let_def split: option.split prod.split)
      (auto simp: steady_def)
  ultimately show ?thesis by (rule steady_trans)
qed

lemma steady_pointer_moved: "steady m (fst (pointer_moved m p window_hover held time_ms))"
proof -
  define m1 where "m1 = observe_pointer_motion (m\<lparr>om_pointer_local := Some (local_point (om_source m) p)\<rparr>) p time_ms"
  have "steady m m1" by (simp add: m1_def steady_def observe_pointer_motion_def)
  moreover have "steady m1 (fst (pointer_moved m p window_hover held time_ms))"
    unfolding pointer_moved_def Let_def m1_def [symmetric]
    by (auto simp: drag_toolbar_def split_beta steady_move_pointer split: option.split) (simp add: steady_def)
  ultimately show ?thesis by (rule steady_trans)
qed

lemma steady_press_region: "steady m (fst (press_region m p))"
  by (auto simp: press_region_def Let_def steady_def split: option.split prod.split)

lemma steady_pointer_down: "steady m (fst (pointer_down m p window_slot time_ms held))"
proof (cases "hit_test (toolbar_new (om_environment m) (om_toolbar_position m)) (local_point (om_source m) p)
    (om_options_open m)")
  case (Some control)
  then show ?thesis using steady_pressed by (simp add: pointer_down_def Let_def)
next
  case None
  define m1 where "m1 = m\<lparr>om_loupe := (forget_motion (om_loupe m))\<lparr>last_sample := Some (p, time_ms)\<rparr>,
      om_active_snaps := NO_SNAPS, om_hovered_control := None, om_options_open := False\<rparr>"
  have "steady m m1" by (simp add: m1_def steady_def)
  moreover have "steady m1 (fst (pointer_down m p window_slot time_ms held))"
    using None steady_press_region [of m1 p]
    by (cases "om_tool m") (simp_all add: pointer_down_def Let_def split_beta m1_def steady_def)
  ultimately show ?thesis by (rule steady_trans)
qed

lemma steady_release: "steady m (release_region m p held)"
  by (auto simp: release_region_def commit_region_def Let_def steady_def split: option.split)

lemma steady_pointer_up: "steady m (fst (pointer_up m p held))"
  using steady_release [of m p held] by (auto simp: pointer_up_def Let_def steady_def forget_pointer_motion_def)

lemma steady_sources_pruned: "steady m (fst (window_sources_pruned m dead))"
  by (auto simp: window_sources_pruned_def Let_def steady_def split: option.split)

lemma steady_loupe: "steady m (fst (loupe_key_changed m held))" "steady m (fst (loupe_tick m time_ms))"
  by (auto simp: loupe_key_changed_def loupe_tick_def observe_pointer_motion_def Let_def steady_def split: option.split)

lemma steady_nudge: "steady m (fst (nudge m dx dy resize))"
  by (simp add: nudge_def Let_def steady_def split: option.split)

lemma steady_capture_lost: "steady m (fst (pointer_capture_lost m))"
  by (simp add: pointer_capture_lost_def Let_def steady_def forget_pointer_motion_def)

lemma steady_transition:
  "(\<And>r intent. input \<noteq> WindowPreviewResolved r intent) \<Longrightarrow> steady m (fst (transition m input))"
proof (cases input)
  case (DoubleClicked p held)
  then show ?thesis using steady_confirm_or_capture [of m] by (simp add: double_clicked_def Let_def)
next
  case (SnapTargetsReady targets)
  then show ?thesis by (simp add: steady_def)
next
  case (WindowPreviewResolved r intent)
  then show "(\<And>r intent. input \<noteq> WindowPreviewResolved r intent) \<Longrightarrow> ?thesis" by blast
qed (simp_all add: steady_pointer_moved steady_pointer_down steady_pointer_up steady_capture_lost steady_loupe
    steady_toggle steady_nudge steady_confirm steady_cancel)

subsection \<open>Every message keeps the run in order\<close>

lemma preview_resolved_source: "om_source (fst (window_preview_resolved m r intent)) = om_source m"
proof -
  define m1 where "m1 = m\<lparr>om_selection := r, om_selection_kind := map_option (\<lambda>_. WindowKind) r\<rparr>"
  have "om_source m1 = om_source m" by (simp add: m1_def)
  moreover have "om_source (fst (confirm_or_capture m1 i)) = om_source m1" for i
    using steady_confirm_or_capture [of m1 i] by (simp add: steady_def)
  ultimately show ?thesis by (simp add: window_preview_resolved_def Let_def m1_def [symmetric])
qed

lemma apply_update_preview:
  fixes w s a
  defines "s1 \<equiv> update_window_preview a (logged s (UpdateWindowPreview w)) w"
  defines "s2 \<equiv> s1\<lparr>sh_window_frame := ready_window_preview s1 w\<rparr>"
  defines "h \<equiv> window_preview_resolved (sh_model s2) (sh_window_frame s2) (confirm_intent (an_held a))"
  shows "apply_effects a s (UpdateWindowPreview w # effects) =
    apply_effects a (apply_effects a (s2\<lparr>sh_model := fst h\<rparr>) (snd h)) effects"
  unfolding h_def s2_def s1_def
  by (simp only: apply_effects.simps overlay_effect.case transition.simps Let_def split_beta)

lemma apply_build_targets:
  fixes s a
  defines "b \<equiv> build_snap_targets a (logged s BuildSnapTargets)"
  shows "apply_effects a s (BuildSnapTargets # effects) =
    apply_effects a ((fst b)\<lparr>sh_model := (sh_model (fst b))\<lparr>om_snap_targets := Some (snd b)\<rparr>\<rparr>) effects"
  unfolding b_def
  by (simp only: apply_effects.simps overlay_effect.case transition.simps Let_def split_beta fst_conv snd_conv)

lemma build_targets_model [simp]: "sh_model (fst (build_snap_targets a s)) = sh_model s"
  by (simp add: build_snap_targets_def Let_def ensure_window_inventory_def split: option.split)

lemma close_run_model [simp]: "sh_model (close_run s outcome) = sh_model s"
  by (cases outcome) (simp_all add: Let_def)

lemma logged_model [simp]: "sh_model (logged s e) = sh_model s"
  by (simp add: logged_def)

lemma apply_plain:
  "(\<And>w. e \<noteq> UpdateWindowPreview w) \<Longrightarrow> e \<noteq> BuildSnapTargets \<Longrightarrow> (\<And>outcome. e \<noteq> Close outcome) \<Longrightarrow>
     apply_effects a s (e # effects) = apply_effects a (plain_effect a (logged s e) e) effects"
  by (cases e) (auto simp: Let_def)

lemma feedback_source:
  "om_source (sh_model (apply_effects a s (snd (window_preview_resolved m r intent)))) = om_source (sh_model s)"
proof (cases r)
  case None
  then show ?thesis by (simp add: preview_resolved_none)
next
  case (Some q)
  obtain m' region intent' where "window_preview_resolved m (Some q) intent =
      (m', [PersistInteraction region, Close (Confirmed q WindowKind (om_selected_window m) intent')])"
    by (rule preview_resolved_some)
  then show ?thesis using Some by (simp add: Let_def del: close_run.simps)
qed

lemma apply_effects_source: "om_source (sh_model (apply_effects a s effects)) = om_source (sh_model s)"
proof (induction effects arbitrary: s)
  case (Cons e effects)
  consider (preview) w where "e = UpdateWindowPreview w" | (targets) "e = BuildSnapTargets"
    | (close) outcome where "e = Close outcome"
    | (plain) "\<And>w. e \<noteq> UpdateWindowPreview w" "e \<noteq> BuildSnapTargets" "\<And>outcome. e \<noteq> Close outcome"
    by (cases e) auto
  then show ?case
  proof cases
    case preview
    then show ?thesis by (simp add: Cons apply_update_preview feedback_source preview_resolved_source del: apply_effects.simps)
  next
    case targets
    then show ?thesis by (simp add: Cons apply_build_targets del: apply_effects.simps)
  next
    case close
    then show ?thesis by (simp add: Let_def del: close_run.simps)
  next
    case plain
    then show ?thesis by (simp add: Cons apply_plain del: apply_effects.simps)
  qed
qed simp

lemma plain_effect_closed: "sh_closed (plain_effect a s e) = sh_closed s"
  by (cases "(a, s, e)" rule: plain_effect.cases)
    (simp_all add: consume_capture_change_def build_window_overview_def refresh_window_chrome_def on_chooser_def
      ensure_window_inventory_def Let_def split: option.split)

lemma apply_calm_closed: "list_all is_calm effects \<Longrightarrow> sh_closed (apply_effects a s effects) = sh_closed s"
proof (induction effects arbitrary: s)
  case (Cons e effects)
  show ?case
  proof (cases "e = BuildSnapTargets")
    case True
    then show ?thesis
      using Cons by (simp add: apply_build_targets build_snap_targets_def Let_def ensure_window_inventory_def logged_def
        del: apply_effects.simps split: option.split)
  next
    case False
    then have "apply_effects a s (e # effects) = apply_effects a (plain_effect a (logged s e) e) effects"
      using Cons.prems by (intro apply_plain) auto
    then show ?thesis using Cons by (simp add: plain_effect_closed logged_def del: apply_effects.simps)
  qed
qed simp

lemma latch_iff: "latch_view_switch switched v v' \<longleftrightarrow> switched \<or> v \<noteq> v'"
  by (cases v; cases v') simp_all

lemma open_after_transition:
  assumes "open_ok s" "\<And>r intent. input \<noteq> WindowPreviewResolved r intent"
  shows "open_ok (s\<lparr>sh_model := fst (transition (sh_model s) input), sh_view_switched :=
      latch_view_switch (sh_view_switched s) (om_view (sh_model s)) (om_view (fst (transition (sh_model s) input)))\<rparr>)"
proof -
  have "input_fits (sh_model s) input" using assms(2) by (cases input) auto
  moreover have "steady (sh_model s) (fst (transition (sh_model s) input))"
    using assms(2) by (rule steady_transition)
  ultimately show ?thesis
    using assms(1) transition_ok [of "sh_model s" input] by (auto simp: open_ok_def' latch_iff steady_def)
qed

lemma run_machine_ok:
  assumes "open_ok s" "\<And>r intent. input \<noteq> WindowPreviewResolved r intent"
  shows "shell_ok (run_machine a s input)" "om_source (sh_model (run_machine a s input)) = om_source (sh_model s)"
    and "list_all is_calm (snd (transition (sh_model s) input)) \<Longrightarrow> open_ok (run_machine a s input)"
proof -
  let ?s = "s\<lparr>sh_model := fst (transition (sh_model s) input), sh_view_switched :=
      latch_view_switch (sh_view_switched s) (om_view (sh_model s)) (om_view (fst (transition (sh_model s) input)))\<rparr>"
  have r: "run_machine a s input = apply_effects a ?s (snd (transition (sh_model s) input))"
    by (simp add: run_machine_def Let_def split_beta)
  have o: "open_ok ?s" using open_after_transition [OF assms] .
  have f: "input_fits (sh_model s) input" using assms(2) by (cases input) auto
  show k: "shell_ok (run_machine a s input)"
    unfolding r by (rule apply_effects_ok [OF o]) (use transition_fit [OF f] in simp)
  show "om_source (sh_model (run_machine a s input)) = om_source (sh_model s)"
    using steady_transition [of input "sh_model s"] assms(2) by (simp add: r apply_effects_source steady_def)
  show "open_ok (run_machine a s input)" if "list_all is_calm (snd (transition (sh_model s) input))"
    using k o that by (simp add: r apply_calm_closed open_ok_def)
qed

lemma prune_dead_ok:
  assumes "open_ok s"
  shows "open_ok (prune_dead a s)" "om_source (sh_model (prune_dead a s)) = om_source (sh_model s)"
proof -
  have "model_ok (fst (window_sources_pruned (sh_model s) dead))" for dead
    using assms by (simp add: open_ok_def' sources_pruned_ok)
  moreover have "steady (sh_model s) (fst (window_sources_pruned (sh_model s) dead))" for dead
    by (rule steady_sources_pruned)
  moreover have "om_view (fst (window_sources_pruned m dead)) = om_view m" for m :: "'a overlay_model" and dead
    by (simp add: window_sources_pruned_def Let_def split: option.split)
  ultimately show "open_ok (prune_dead a s)" "om_source (sh_model (prune_dead a s)) = om_source (sh_model s)"
    using assms by (auto simp: prune_dead_def Let_def open_ok_def' steady_def split_beta)
qed

lemma mouse_moved_ok:
  assumes "open_ok s"
  shows "open_ok (mouse_moved a s lparam)" "om_source (sh_model (mouse_moved a s lparam)) = om_source (sh_model s)"
proof -
  have o: "open_ok (run_machine a s (PointerMoved p h held time_ms))"
    "om_source (sh_model (run_machine a s (PointerMoved p h held time_ms))) = om_source (sh_model s)" for p h held time_ms
    using run_machine_ok [OF assms, of "PointerMoved p h held time_ms"] by (simp_all add: pointer_moved_calm)
  moreover have "open_ok s' \<Longrightarrow> open_ok (logged s' Invalidate)" for s' :: "'a overlay_shell"
    by (simp add: open_ok_def' logged_def)
  ultimately show "open_ok (mouse_moved a s lparam)"
      "om_source (sh_model (mouse_moved a s lparam)) = om_source (sh_model s)"
    by (simp_all add: mouse_moved_def Let_def)
qed

lemma key_down_ok:
  assumes "open_ok s"
  shows "shell_ok (key_down a s key lparam)" "om_source (sh_model (key_down a s key lparam)) = om_source (sh_model s)"
  using assms run_machine_ok [OF assms]
  by (cases key; simp add: key_down_def open_ok_def Let_def)+

lemma window_proc_ok:
  assumes "shell_ok s"
  shows "shell_ok (window_proc a s msg)" "om_source (sh_model (window_proc a s msg)) = om_source (sh_model s)"
proof -
  have "shell_ok (window_proc a s msg) \<and> om_source (sh_model (window_proc a s msg)) = om_source (sh_model s)"
  proof (cases "sh_closed s")
    case True
    then show ?thesis using assms by (simp add: window_proc_def)
  next
    case False
    then have o: "open_ok s" using assms by (simp add: open_ok_def)
    note run = run_machine_ok(1,2) [OF o]
    show ?thesis
    proof (cases msg)
      case CaptureChanged
      have "open_ok (s\<lparr>sh_releasing := False, sh_loupe_timer := False\<rparr>)" using o by (simp add: open_ok_def')
      moreover have "sh_releasing s = False" using o by (simp add: open_ok_def')
      ultimately show ?thesis
        using False CaptureChanged run_machine_ok(1,2) [of "s\<lparr>sh_releasing := False, sh_loupe_timer := False\<rparr>" PointerCaptureLost]
        by (simp add: window_proc_def consume_capture_change_def)
    next
      case (MouseMove lparam)
      then show ?thesis using False mouse_moved_ok [OF o] by (simp add: window_proc_def open_ok_def)
    next
      case (KeyDown key lparam)
      then show ?thesis using False key_down_ok [OF o] by (simp add: window_proc_def)
    next
      case (OverviewBatch generation)
      then show ?thesis
        using False on_chooser_ok(1) [OF o] by (simp add: window_proc_def render_batch_def on_chooser_ok(2) open_ok_def)
    next
      case Paint
      then show ?thesis using False prune_dead_ok [OF o] by (simp add: window_proc_def open_ok_def)
    qed (use False assms run in \<open>simp_all add: window_proc_def Let_def\<close>)
  qed
  then show "shell_ok (window_proc a s msg)" "om_source (sh_model (window_proc a s msg)) = om_source (sh_model s)"
    by blast+
qed

lemma open_last_in:
  assumes "setup_ok u"
  shows "region_in (ru_source u) (case remembered_last_region locate (ru_region u) (ru_region_source u) (ru_region_local u)
    (ru_source u) (ru_rotation u) of None \<Rightarrow> default_region_for_source (ru_source u) | Some r \<Rightarrow> r)"
proof (cases "remembered_last_region locate (ru_region u) (ru_region_source u) (ru_region_local u)
    (ru_source u) (ru_rotation u)")
  case None
  then show ?thesis using assms by (simp add: setup_ok_def default_region_in)
next
  case (Some r)
  have "region_in (ru_source u) r"
    by (rule remembered_last_region_in [OF _ Some]) (use assms in \<open>auto simp: setup_ok_def\<close>)
  with Some show ?thesis by simp
qed

lemma open_model_ok:
  assumes "setup_ok u"
  shows "model_ok (open_model locate u)" "om_selection_kind (open_model locate u) \<noteq> Some WindowKind"
    "om_view (open_model locate u) = om_initial_view (open_model locate u)"
    "om_source (open_model locate u) = ru_source u"
proof -
  define q where "q = (case remembered_last_region locate (ru_region u) (ru_region_source u) (ru_region_local u)
    (ru_source u) (ru_rotation u) of None \<Rightarrow> default_region_for_source (ru_source u) | Some r \<Rightarrow> r)"
  have q: "region_in (ru_source u) q" unfolding q_def by (rule open_last_in [OF assms])
  have src: "source_ok (ru_source u)" using assms by (simp add: setup_ok_def)
  have fit: "region_in (ru_source u) (fit_region_to_source q (ru_source u))"
    using q unfolding fit_region_to_source_def by (intro clamp_within_in [OF src]) (simp_all add: region_in_def)
  note d = open_model_def Let_def q_def [symmetric]
  show "model_ok (open_model locate u)" "om_selection_kind (open_model locate u) \<noteq> Some WindowKind"
    "om_view (open_model locate u) = om_initial_view (open_model locate u)"
    "om_source (open_model locate u) = ru_source u"
    unfolding d using q fit src by (cases "ru_tool u"; simp add: model_ok_def)+
qed

lemma model_ok_view:
  "model_ok (m\<lparr>om_view := v, om_initial_view := v', om_view_toggle_available := b\<rparr>) = model_ok m"
  by (simp add: model_ok_def)

lemma open_shell_ok:
  assumes "setup_ok u"
  shows "open_ok (open_shell locate u)" "om_source (sh_model (open_shell locate u)) = ru_source u"
    "open_ok (presenter_fallback (open_shell locate u))"
    "om_source (sh_model (presenter_fallback (open_shell locate u))) = ru_source u"
proof -
  note o = open_model_ok [OF assms]
  show "open_ok (open_shell locate u)" "om_source (sh_model (open_shell locate u)) = ru_source u"
    "open_ok (presenter_fallback (open_shell locate u))"
    "om_source (sh_model (presenter_fallback (open_shell locate u))) = ru_source u"
    by (simp_all add: o open_shell_def presenter_fallback_def open_ok_def' model_ok_view)
qed

lemma start_shell_ok:
  assumes "open_ok s"
  shows "open_ok (start_shell a s)" "sh_model (start_shell a s) = sh_model s"
  using assms build_overview_ok [where s = s and a = a] by (simp_all add: start_shell_def)

lemma reachable_ok:
  "reachable locate u s \<Longrightarrow> shell_ok s \<and> om_source (sh_model s) = ru_source u"
proof (induction rule: reachable.induct)
  case (opened a)
  then show ?case
    using open_shell_ok(2) [OF opened, of locate] start_shell_ok [OF open_shell_ok(1) [OF opened], of a locate]
    by (simp add: open_ok_def)
next
  case (fell_back a)
  then show ?case
    using open_shell_ok(4) [OF fell_back(1), of locate] start_shell_ok [OF open_shell_ok(3) [OF fell_back(1)], of a locate]
    by (simp add: open_ok_def)
next
  case (message s a msg)
  then show ?case using window_proc_ok [of s] by simp
qed

subsection \<open>What a run promises\<close>

text \<open>C31: In every state a run can reach, whatever messages arrive in whatever order: the selection fits
  the tool (the whole display under the Full display tool, a non-empty region inside the source under
  the Region tool, nothing but a window under the Window tool), every drag starts from a region inside
  the source, every snap guide runs along an edge of the selection, the region to remember lies inside
  the source, and the source itself never changes. An open run shows the view it opened in until the
  user has switched it.\<close>

theorem overlay_invariant:
  assumes "reachable locate u s"
  shows "model_ok (sh_model s) \<and> om_source (sh_model s) = ru_source u \<and>
    (sh_view_switched s \<or> om_view (sh_model s) = om_initial_view (sh_model s))"
  using reachable_ok [OF assms] by (simp add: shell_ok_def)

definition sample_setup :: run_setup where
  "sample_setup =
     \<lparr>ru_source = sample_source, ru_environment = sample_env, ru_initial_view = Frozen, ru_snapshot = True,
      ru_require_layered = False, ru_tool = RegionTool, ru_region = Some sample_region, ru_region_source = None,
      ru_region_local = True, ru_rotation = 0, ru_toolbar_position = None, ru_clipboard = True,
      ru_file_output = True, ru_file_output_switchable = True, ru_pin_available = True, ru_edit_available = True,
      ru_record_format = Some Gif, ru_snap_to_windows = None, ru_region_zoom = None\<rparr>"

definition sample_answers :: "nat answers" where
  "sample_answers =
     \<lparr>an_held = \<lparr>ctrl = False, shift = True\<rparr>, an_time = 0, an_z_down = False, an_windows = [],
      an_tiles = \<lparr>ta_sized = (\<lambda>_. True), ta_shown = (\<lambda>_. True), ta_render = (\<lambda>_. Rendered)\<rparr>,
      an_slot = (\<lambda>_. None), an_capture = (\<lambda>_. None), an_dead = (\<lambda>_. False)\<rparr>"

definition sample_locate :: locate where
  "sample_locate = (\<lambda>_ _ _ _. (0, 0))"

definition sample_shell :: "nat overlay_shell" where
  "sample_shell = start_shell sample_answers (open_shell sample_locate sample_setup)"

lemma sample_setup_ok: "setup_ok sample_setup"
  by code_simp

lemma sample_reachable: "reachable sample_locate sample_setup sample_shell"
  unfolding sample_shell_def by (rule reachable.opened) (rule sample_setup_ok)

lemma overlay_invariant_witness:
  "om_selection (sh_model (window_proc sample_answers sample_shell (KeyDown VkLeft 0))) =
     Some \<lparr>rect_x = 90, rect_y = 80, rect_width = 400, rect_height = 300\<rparr> \<and>
   model_ok (sh_model (window_proc sample_answers sample_shell (KeyDown VkLeft 0)))"
proof
  show "om_selection (sh_model (window_proc sample_answers sample_shell (KeyDown VkLeft 0))) =
     Some \<lparr>rect_x = 90, rect_y = 80, rect_width = 400, rect_height = 300\<rparr>" by code_simp
  show "model_ok (sh_model (window_proc sample_answers sample_shell (KeyDown VkLeft 0)))"
    using overlay_invariant [OF reachable.message [OF sample_reachable]] by blast
qed

text \<open>C32: A selection a run reports is one the caller can act on: the whole source, a non-empty region
  inside it, or, for a window, the very window chosen with the rectangle its capture had; the tool on
  screen and the intent's availability agree with it, and it carries the view that was on screen.\<close>

theorem confirmed_selection:
  assumes "reachable locate u s" and "run_outcome s = Selected sel"
  shows "sh_closed s \<and> om_tool (sh_model s) = from_selection_kind (sel_kind sel) \<and>
    intent_available (sh_model s) (sel_intent sel) \<and> sel_view sel = om_view (sh_model s) \<and>
    (sel_view_switched sel \<or> sel_view sel = om_initial_view (sh_model s)) \<and>
    (case sel_kind sel of
       DisplayKind \<Rightarrow> sel_rect sel = ru_source u \<and> sel_window sel = None
     | RegionKind \<Rightarrow> region_in (ru_source u) (sel_rect sel) \<and> sel_window sel = None
     | WindowKind \<Rightarrow> \<exists>handle. sel_window sel = Some handle \<and> ready_window_preview s (Some handle) = Some (sel_rect sel))"
proof -
  have ok: "shell_ok s" "om_source (sh_model s) = ru_source u" using reachable_ok [OF assms(1)] by simp_all
  have r: "sh_result s = Some sel"
    using assms(2) by (cases "sh_result s"; cases "sh_display_change s") (simp_all add: run_outcome_def)
  then have c: "sh_closed s" using ok(1) by (auto simp: shell_ok_def split: if_splits)
  then obtain outcome where "closed_as s outcome" using ok(1) by (auto simp: shell_ok_def)
  then have "result_ok s sel" using r by (auto simp: closed_as_def split: close_outcome.splits)
  then show ?thesis
    using ok c unfolding result_ok_def shell_ok_def
    by (cases "sel_kind sel") (auto simp: ready_window_preview_def)
qed

lemma confirmed_selection_witness:
  "\<exists>sel. run_outcome (window_proc sample_answers sample_shell (KeyDown VkReturn 0)) = Selected sel \<and>
     sel_intent sel = IntentPin \<and> region_in sample_source (sel_rect sel)"
proof -
  let ?s = "window_proc sample_answers sample_shell (KeyDown VkReturn 0)"
  let ?sel = "\<lparr>sel_rect = sample_region, sel_kind = RegionKind, sel_intent = IntentPin, sel_window = None,
    sel_view = Frozen, sel_view_switched = False\<rparr>"
  have o: "run_outcome ?s = Selected ?sel" by code_simp
  from confirmed_selection [OF reachable.message [OF sample_reachable] o] have "region_in (ru_source sample_setup) (sel_rect ?sel)"
    by simp
  with o show ?thesis by (intro exI [of _ ?sel]) (simp add: sample_setup_def)
qed

text \<open>C33: A run closes once: what it carried out ends with its only close, nothing after it, and what
  the run reports is what that close said.\<close>

theorem overlay_closes_once:
  assumes "reachable locate u s" and "sh_closed s"
  shows "\<exists>earlier outcome. sh_log s = earlier @ [Close outcome] \<and> not_closing earlier \<and>
    (case outcome of
       Confirmed r kind window intent \<Rightarrow>
         \<exists>sel. run_outcome s = Selected sel \<and> sel_rect sel = r \<and> sel_kind sel = kind \<and>
           sel_window sel = window \<and> sel_intent sel = intent
     | Cancelled \<Rightarrow> run_outcome s = RunCancelled
     | ConfigurationInvalidated reason \<Rightarrow> run_outcome s = DisplayConfigurationChanged reason)"
proof -
  have "shell_ok s" using reachable_ok [OF assms(1)] by simp
  then obtain outcome where c: "closed_as s outcome" using assms(2) by (auto simp: shell_ok_def)
  then obtain earlier where e: "sh_log s = earlier @ [Close outcome]" "not_closing earlier"
    by (auto simp: closed_as_def)
  have "case outcome of
       Confirmed r kind window intent \<Rightarrow>
         \<exists>sel. run_outcome s = Selected sel \<and> sel_rect sel = r \<and> sel_kind sel = kind \<and>
           sel_window sel = window \<and> sel_intent sel = intent
     | Cancelled \<Rightarrow> run_outcome s = RunCancelled
     | ConfigurationInvalidated reason \<Rightarrow> run_outcome s = DisplayConfigurationChanged reason"
    using c by (cases outcome) (auto simp: closed_as_def run_outcome_def)
  with e show ?thesis by blast
qed

lemma overlay_closes_once_witness:
  "sh_closed (window_proc sample_answers sample_shell DisplayChange) \<and>
   (\<exists>earlier outcome. sh_log (window_proc sample_answers sample_shell DisplayChange) = earlier @ [Close outcome])"
proof
  show c: "sh_closed (window_proc sample_answers sample_shell DisplayChange)" by code_simp
  show "\<exists>earlier outcome. sh_log (window_proc sample_answers sample_shell DisplayChange) = earlier @ [Close outcome]"
    using overlay_closes_once [OF reachable.message [OF sample_reachable] c] by blast
qed

text \<open>C34: A run can be left from every state it can reach: Escape, the right button and a close message
  end it as a cancellation, a changed display configuration ends it as that, and Return ends it with
  the selection, when there is one and the asked intent is available, or changes nothing.\<close>

theorem overlay_can_be_left:
  assumes "reachable locate u s" and "\<not> sh_closed s"
  shows "run_outcome (window_proc a s (KeyDown VkEscape lparam)) = RunCancelled \<and>
    sh_closed (window_proc a s (KeyDown VkEscape lparam)) \<and>
    run_outcome (window_proc a s RButtonDown) = RunCancelled \<and> sh_closed (window_proc a s RButtonDown) \<and>
    run_outcome (window_proc a s CloseMessage) = RunCancelled \<and> sh_closed (window_proc a s CloseMessage) \<and>
    run_outcome (window_proc a s DisplayChange) = DisplayConfigurationChanged ''overlay_display_changed'' \<and>
    sh_closed (window_proc a s DisplayChange) \<and>
    (if om_selection (sh_model s) \<noteq> None \<and> intent_available (sh_model s) (confirm_intent (an_held a))
     then \<exists>sel. run_outcome (window_proc a s (KeyDown VkReturn lparam)) = Selected sel \<and>
       om_selection (sh_model s) = Some (sel_rect sel) \<and> sel_intent sel = confirm_intent (an_held a)
     else window_proc a s (KeyDown VkReturn lparam) = s)"
proof -
  have o: "open_ok s" using reachable_ok [OF assms(1)] assms(2) by (simp add: open_ok_def)
  then have none: "sh_result s = None" "sh_display_change s = None" by (simp_all add: open_ok_def')
  have cancel: "run_outcome (run_machine a s CancelRequested) = RunCancelled" "sh_closed (run_machine a s CancelRequested)"
    using none by (simp_all add: run_machine_def cancel_def persist_interaction_def run_outcome_def logged_def Let_def)
  have change: "run_outcome (run_machine a s (DisplayConfigurationInvalidated reason)) = DisplayConfigurationChanged reason"
    "sh_closed (run_machine a s (DisplayConfigurationInvalidated reason))" for reason
    using none by (simp_all add: run_machine_def run_outcome_def logged_def Let_def)
  have kind: "om_selection (sh_model s) = Some r \<Longrightarrow> \<exists>kind. om_selection_kind (sh_model s) = Some kind \<and> kind \<noteq> WindowKind" for r
    using o by (cases "om_selection_kind (sh_model s)") (auto simp: open_ok_def' model_ok_def)
  have same: "run_machine a s (ConfirmRequested intent) = s" if "confirm (sh_model s) intent = (sh_model s, [])" for intent
    using that by (simp add: run_machine_def latch_iff)
  have confirmed: "\<exists>sel. run_outcome (run_machine a s (ConfirmRequested intent)) = Selected sel \<and>
      om_selection (sh_model s) = Some (sel_rect sel) \<and> sel_intent sel = intent"
    if r: "om_selection (sh_model s) = Some r" and i: "intent_available (sh_model s) intent" for r intent
  proof -
    obtain kind where k: "om_selection_kind (sh_model s) = Some kind" "kind \<noteq> WindowKind" using kind [OF r] by blast
    have "confirm (sh_model s) intent = (fst (persist_interaction (sh_model s)),
        snd (persist_interaction (sh_model s)) @ [Close (Confirmed r kind (om_selected_window (sh_model s)) intent)])"
      using r i k by (simp add: confirm_def persist_interaction_def Let_def)
    then show ?thesis
      using r k by (simp add: run_machine_def persist_interaction_def run_outcome_def logged_def
          build_overlay_selection_def Let_def)
  qed
  have unchanged: "run_machine a s (ConfirmRequested intent) = s"
    if "om_selection (sh_model s) = None \<or> \<not> intent_available (sh_model s) intent" for intent
    using that by (intro same) (auto simp: confirm_def split: option.split)
  show ?thesis
    using assms(2) cancel change confirmed unchanged by (auto simp: window_proc_def key_down_def)
qed

lemma overlay_can_be_left_witness:
  "run_outcome (window_proc sample_answers sample_shell (KeyDown VkEscape 0)) = RunCancelled \<and>
   sh_closed (window_proc sample_answers sample_shell RButtonDown)"
proof -
  have "\<not> sh_closed sample_shell" by code_simp
  from overlay_can_be_left [OF sample_reachable this, of sample_answers 0] show ?thesis by simp
qed

end
