(* ===== verification/Loupe.thy ===== *)
theory Loupe
  imports OverlayRun
begin


section \<open>The magnifier under a resting pointer\<close>

text \<open>
  How \<open>observe_motion\<close> and the rest timer's ticks of \<open>crates/captastic-windows/src/overlay/machine.rs\<close>
  bring the automatic magnifier up. The clock is 32 bits and intervals are wrapping differences.
\<close>

lemma speed_at_rest: "pointer_speed p p elapsed = 0"
  by (simp add: pointer_speed_def i64_saturating_mul_def clamp_def sint_ssub i32_abs_def quot_def)

text \<open>One tick over a pointer that has not moved since its last sample.\<close>

lemma observe_rest:
  assumes "dpi_ok metric" "last_sample l = Some (p, t)" "8 \<le> time_ms - t"
  shows "observe_motion metric p time_ms l =
    (case slow_since l of
       None \<Rightarrow> l\<lparr>last_sample := Some (p, time_ms), slow_since := Some time_ms\<rparr>
     | Some since \<Rightarrow> l\<lparr>last_sample := Some (p, time_ms),
         auto_visible := (auto_visible l \<or> 120 \<le> time_ms - since)\<rparr>)"
proof -
  have s: "0 < sint (px metric LOUPE_SLOW_DIP_PER_SECOND)" "0 \<le> sint (px metric LOUPE_FAST_DIP_PER_SECOND)"
  proof -
    have "150 * uint (dpi metric) + 48 \<ge> 96" using assms(1) by (simp add: dpi_ok_def)
    then have "1 \<le> scaled metric 150"
      using zdiv_mono1 [of 96 "150 * uint (dpi metric) + 48" 96] by (simp add: scaled_def)
    then show "0 < sint (px metric LOUPE_SLOW_DIP_PER_SECOND)"
      using sint_px [OF assms(1), of LOUPE_SLOW_DIP_PER_SECOND] by (simp add: LOUPE_SLOW_DIP_PER_SECOND_def)
    show "0 \<le> sint (px metric LOUPE_FAST_DIP_PER_SECOND)"
      using sint_px [OF assms(1), of LOUPE_FAST_DIP_PER_SECOND] by (simp add: LOUPE_FAST_DIP_PER_SECOND_def scaled_nonneg)
  qed
  have e: "\<not> time_ms - t < LOUPE_MIN_SAMPLE_MS" using assms(3) by (simp add: LOUPE_MIN_SAMPLE_MS_def not_less)
  show ?thesis
    unfolding LOUPE_SLOW_SUSTAIN_MS_def [symmetric] using assms(2) s e
    by (cases "slow_since l") (simp_all add: observe_motion_def Let_def speed_at_rest not_less)
qed

text \<open>Where a run of ticks over a resting pointer leaves the magnifier's state.\<close>

definition rest_state :: "point \<Rightarrow> u32 \<Rightarrow> nat \<Rightarrow> nat \<Rightarrow> loupe_state \<Rightarrow> bool" where
  "rest_state p t first d l \<longleftrightarrow> last_sample l = Some (p, t + of_nat d) \<and> slow_since l = Some (t + of_nat first) \<and>
     (first + 120 \<le> d \<longrightarrow> auto_visible l)"

lemma elapsed_nat:
  fixes t :: u32
  assumes "a \<le> b" "b < 4294967296"
  shows "unat ((t + of_nat b) - (t + of_nat a)) = b - a"
proof -
  have "of_nat (b - a) = (t + of_nat b) - (t + of_nat a)" using assms(1) by (simp add: of_nat_diff)
  then show ?thesis by (rule of_nat_inverse) (use assms in simp)
qed

lemma elapsed_le:
  fixes t :: u32
  assumes "a \<le> b" "b < 4294967296" "n \<le> 4294967295"
  shows "of_nat n \<le> (t + of_nat b) - (t + of_nat a) \<longleftrightarrow> n \<le> b - a"
  using elapsed_nat [OF assms(1,2), of t] assms(3)
  by (simp add: word_le_nat_alt unat_of_nat)

lemma rest_state_step:
  assumes "dpi_ok metric" "rest_state p t first d l" "d + 8 \<le> d'" "d' < 4294967296" "first \<le> d"
  shows "rest_state p t first d' (observe_motion metric p (t + of_nat d') l)"
proof -
  have "8 \<le> (t + of_nat d') - (t + of_nat d)" using elapsed_le [of d d' 8 t] assms by simp
  moreover have "120 \<le> (t + of_nat d') - (t + of_nat first) \<longleftrightarrow> 120 \<le> d' - first"
    using elapsed_le [of first d' 120 t] assms by simp
  ultimately show ?thesis
    using observe_rest [OF assms(1), of l p "t + of_nat d" "t + of_nat d'"] assms by (auto simp: rest_state_def)
qed

definition tick :: "u32 \<Rightarrow> nat \<Rightarrow> 'w overlay_model \<Rightarrow> 'w overlay_model" where
  "tick t d m = fst (transition m (Tick (t + of_nat d)))"

lemma tick_loupe:
  assumes "last_sample (om_loupe m) = Some (p, t')"
  shows "tick t d m = m\<lparr>om_loupe := observe_motion (metrics (om_environment m)) p (t + of_nat d) (om_loupe m)\<rparr>"
  using assms by (simp add: tick_def loupe_tick_def observe_pointer_motion_def Let_def)

lemma ticks_rest:
  assumes "dpi_ok (metrics (om_environment m))" "rest_state p t first d (om_loupe m)" "first \<le> d"
    and "sorted_wrt (\<lambda>a b. a + 8 \<le> b) (d # ds)" "last (d # ds) < 4294967296"
  shows "\<exists>l. fold (tick t) ds m = m\<lparr>om_loupe := l\<rparr> \<and> rest_state p t first (last (d # ds)) l \<and>
    loupe_mode_of l = loupe_mode_of (om_loupe m)"
  using assms
proof (induction ds arbitrary: m d)
  case Nil
  then show ?case by (intro exI [of _ "om_loupe m"]) simp
next
  case (Cons d' ds)
  define l where "l = observe_motion (metrics (om_environment m)) p (t + of_nat d') (om_loupe m)"
  have mode: "loupe_mode_of l = loupe_mode_of (om_loupe m)"
    by (auto simp: l_def observe_motion_def Let_def split: option.split prod.split)
  have step: "tick t d' m = m\<lparr>om_loupe := l\<rparr>"
    using Cons.prems(2) unfolding l_def by (intro tick_loupe) (auto simp: rest_state_def)
  have "last (d' # ds) < 4294967296" using Cons.prems(5) by simp
  moreover have "d' \<le> last (d' # ds)" using Cons.prems(4) by (cases ds) (auto dest: bspec [OF _ last_in_set])
  ultimately have "rest_state p t first d' l"
    unfolding l_def using Cons.prems by (intro rest_state_step [of _ _ _ _ d]) auto
  from Cons.IH [of "m\<lparr>om_loupe := l\<rparr>" d'] this Cons.prems obtain l' where
    "fold (tick t) ds (m\<lparr>om_loupe := l\<rparr>) = m\<lparr>om_loupe := l'\<rparr>" "rest_state p t first (last (d' # ds)) l'"
    "loupe_mode_of l' = loupe_mode_of l" by auto
  then show ?case using step mode by (intro exI [of _ l']) simp
qed

text \<open>While a region is being drawn, resized or moved in the automatic mode, a pointer that rests
  brings the magnifier up: whatever the ticks' times, as long as they are 8 ms apart and reach 120 ms
  past the first one, and also across the clock's wrap-around.\<close>

theorem resting_pointer_shows_loupe:
  assumes "dpi_ok (metrics (om_environment m))" and "om_tool m = RegionTool" and "region_drag_active m"
    and "loupe_mode_of (om_loupe m) = LoupeAuto" and "om_pointer_local m \<noteq> None" and "om_hovered_control m = None"
    and "last_sample (om_loupe m) = Some (p, t)" and "slow_since (om_loupe m) = None"
    and "8 \<le> d" and "sorted_wrt (\<lambda>a b. a + 8 \<le> b) (d # ds)"
    and "d + 120 \<le> last (d # ds)" and "last (d # ds) < 4294967296"
  shows "loupe_visible (fold (tick t) (d # ds) m)"
proof -
  define l where "l = (om_loupe m)\<lparr>last_sample := Some (p, t + of_nat d), slow_since := Some (t + of_nat d)\<rparr>"
  have "d < 4294967296" using assms(11,12) by linarith
  then have "8 \<le> t + of_nat d - t" using elapsed_le [of 0 d 8 t] assms(9) by simp
  then have "tick t d m = m\<lparr>om_loupe := l\<rparr>"
    using observe_rest [OF assms(1,7)] assms(8) unfolding l_def by (simp add: tick_loupe [OF assms(7)])
  moreover have "rest_state p t d d l" by (simp add: rest_state_def l_def)
  ultimately obtain l' where "fold (tick t) (d # ds) m = m\<lparr>om_loupe := l'\<rparr>" "rest_state p t d (last (d # ds)) l'"
    "loupe_mode_of l' = LoupeAuto"
    using ticks_rest [of "m\<lparr>om_loupe := l\<rparr>" p t d d ds] assms by (auto simp: l_def)
  then show ?thesis using assms by (simp add: loupe_visible_def rest_state_def region_drag_active_def)
qed

definition sample_drag :: "nat overlay_model" where
  "sample_drag = sh_model (window_proc sample_answers
     (window_proc sample_answers sample_shell (MouseMove 13107500)) (LButtonDown 13107500))"

lemma resting_pointer_shows_loupe_witness:
  "\<not> loupe_visible sample_drag \<and> loupe_visible (fold (tick 0) [8, 128] sample_drag)"
proof
  show "\<not> loupe_visible sample_drag" by code_simp
  have f: "dpi_ok (metrics (om_environment sample_drag))" "om_tool sample_drag = RegionTool"
    "region_drag_active sample_drag" "loupe_mode_of (om_loupe sample_drag) = LoupeAuto"
    "om_pointer_local sample_drag \<noteq> None" "om_hovered_control sample_drag = None"
    "last_sample (om_loupe sample_drag) = Some (\<lparr>pt_x = 300, pt_y = 200\<rparr>, 0)"
    "slow_since (om_loupe sample_drag) = None" by code_simp+
  show "loupe_visible (fold (tick 0) [8, 128] sample_drag)"
    by (rule resting_pointer_shows_loupe [OF f]) simp_all
qed

end
