(* ===== verification/Marks.thy ===== *)
theory Marks
  imports Frame
begin

section \<open>Marks on a capture, and painting them\<close>

text \<open>
  The marks of \<open>crates/captastic-core/src/edit.rs\<close>: redactions, box outlines, strokes, arrows and
  text, the pixels each can change, and \<open>paint_mark\<close>. The \<open>f32\<close> arithmetic of the processor is a
  parameter \<open>F\<close>: every expression of the code is kept, and only what one addition, comparison or
  conversion answers is left to \<open>F\<close>, so the theorems hold however it rounds. A \<open>None\<close> of a painting function is
  the panic of an index or slice out of range; \<open>paint_mark_pixels\<close> shows there is none, and that
  painting is, pixel by pixel, the function \<open>mark_pixel\<close>.
\<close>

subsection \<open>\<open>f32\<close>\<close>

text \<open>
  \<open>fnum F p q\<close> is the literal \<open>p / q\<close>, \<open>fint F\<close> the conversion \<open>as f32\<close> of an integer, \<open>ffloor F\<close>
  and \<open>fceil F\<close> are \<open>floor\<close> and \<open>ceil\<close> followed by \<open>as i64\<close>, \<open>fbyte F\<close> is the saturating \<open>as u8\<close>.
\<close>

record 'f float_ops =
  fadd :: "'f \<Rightarrow> 'f \<Rightarrow> 'f"
  fsub :: "'f \<Rightarrow> 'f \<Rightarrow> 'f"
  fmul :: "'f \<Rightarrow> 'f \<Rightarrow> 'f"
  fdiv :: "'f \<Rightarrow> 'f \<Rightarrow> 'f"
  fneg :: "'f \<Rightarrow> 'f"
  fabs :: "'f \<Rightarrow> 'f"
  fsqrt :: "'f \<Rightarrow> 'f"
  fround :: "'f \<Rightarrow> 'f"
  fmin :: "'f \<Rightarrow> 'f \<Rightarrow> 'f"
  fmax :: "'f \<Rightarrow> 'f \<Rightarrow> 'f"
  flt :: "'f \<Rightarrow> 'f \<Rightarrow> bool"
  fle :: "'f \<Rightarrow> 'f \<Rightarrow> bool"
  feq :: "'f \<Rightarrow> 'f \<Rightarrow> bool"
  fnum :: "int \<Rightarrow> int \<Rightarrow> 'f"
  fint :: "int \<Rightarrow> 'f"
  ffloor :: "'f \<Rightarrow> int"
  fceil :: "'f \<Rightarrow> int"
  fbyte :: "'f \<Rightarrow> u8"
  f_MAX :: 'f
  f_MIN :: 'f
  f_EPSILON :: 'f

definition fclamp :: "'f float_ops \<Rightarrow> 'f \<Rightarrow> 'f \<Rightarrow> 'f \<Rightarrow> 'f" where
  "fclamp F x lo hi = (if flt F x lo then lo else if flt F hi x then hi else x)"

definition clamp_unit :: "'f float_ops \<Rightarrow> 'f \<Rightarrow> 'f" where
  "clamp_unit F x = fclamp F x (fnum F 0 1) (fnum F 1 1)"

definition fsquare :: "'f float_ops \<Rightarrow> 'f \<Rightarrow> 'f" where
  "fsquare F x = fmul F x x"

type_synonym 'f fpoint = "'f \<times> 'f"

subsection \<open>Data\<close>

definition REDACTION_EIGHT_BIT :: bytes where "REDACTION_EIGHT_BIT = [0, 0, 0, 255]"
definition REDACTION_HALF_FLOAT :: bytes where "REDACTION_HALF_FLOAT = [0, 0, 0, 0, 0, 0, 0, 0x3C]"

definition HIGHLIGHTER_STRENGTH :: "'f float_ops \<Rightarrow> 'f" where
  "HIGHLIGHTER_STRENGTH F = fnum F 85 100"

record color =
  red :: u8
  green :: u8
  blue :: u8

record glyph_mask =
  mask_width :: u32
  mask_height :: u32
  mask_coverage :: bytes

definition glyph_mask_new :: "u32 \<Rightarrow> u32 \<Rightarrow> bytes \<Rightarrow> glyph_mask option" where
  "glyph_mask_new w h coverage =
     Option.bind (usize_checked_mul (unat w) (unat h)) (\<lambda>expected.
       if length coverage = expected
       then Some \<lparr>mask_width = w, mask_height = h, mask_coverage = coverage\<rparr> else None)"

definition is_blank :: "glyph_mask \<Rightarrow> bool" where
  "is_blank m \<longleftrightarrow> list_all (\<lambda>v. v = 0) (mask_coverage m)"

datatype stroke_style = Ink | Highlighter

datatype 'f mark =
    Redaction rect
  | Rectangle rect color u32 'f
  | Stroke "'f fpoint list" color 'f stroke_style
  | Arrow "'f fpoint" "'f fpoint" color 'f
  | TextMark "i32 \<times> i32" ustring u32 color glyph_mask

text \<open>The derived \<open>PartialEq\<close>, which compares \<open>f32\<close> values as \<open>f32\<close> does.\<close>

definition fpoint_eq :: "'f float_ops \<Rightarrow> 'f fpoint \<Rightarrow> 'f fpoint \<Rightarrow> bool" where
  "fpoint_eq F p q \<longleftrightarrow> feq F (fst p) (fst q) \<and> feq F (snd p) (snd q)"

fun mark_eq :: "'f float_ops \<Rightarrow> 'f mark \<Rightarrow> 'f mark \<Rightarrow> bool" where
  "mark_eq F (Redaction r) (Redaction s) \<longleftrightarrow> r = s"
| "mark_eq F (Rectangle r c w b) (Rectangle r' c' w' b') \<longleftrightarrow> r = r' \<and> c = c' \<and> w = w' \<and> feq F b b'"
| "mark_eq F (Stroke ps c w st) (Stroke ps' c' w' st') \<longleftrightarrow>
     list_all2 (fpoint_eq F) ps ps' \<and> c = c' \<and> feq F w w' \<and> st = st'"
| "mark_eq F (Arrow p q c w) (Arrow p' q' c' w') \<longleftrightarrow>
     fpoint_eq F p p' \<and> fpoint_eq F q q' \<and> c = c' \<and> feq F w w'"
| "mark_eq F (TextMark at t sz c m) (TextMark at' t' sz' c' m') \<longleftrightarrow>
     at = at' \<and> t = t' \<and> sz = sz' \<and> c = c' \<and> m = m'"
| "mark_eq F _ _ \<longleftrightarrow> False"

subsection \<open>Arrows and distances\<close>

record 'f arrow_shape =
  tail_point :: "'f fpoint"
  base_point :: "'f fpoint"
  shaft_radius :: 'f
  head_points :: "'f fpoint list"

definition arrow_shape_new :: "'f float_ops \<Rightarrow> 'f fpoint \<Rightarrow> 'f fpoint \<Rightarrow> 'f \<Rightarrow> 'f arrow_shape option" where
  "arrow_shape_new F from to w =
     (let dx = fsub F (fst to) (fst from); dy = fsub F (snd to) (snd from);
          len = fsqrt F (fadd F (fmul F dx dx) (fmul F dy dy))
      in if \<not> (fle F (fnum F 1 1) len \<and> flt F (fnum F 0 1) w) then None
      else
        let direction = (fdiv F dx len, fdiv F dy len);
            across = (fneg F (snd direction), fst direction);
            head_length = fmin F (fadd F (fmul F w (fnum F 7 2)) (fnum F 6 1)) (fmul F len (fnum F 6 10));
            hlf = fmax F (fmul F head_length (fnum F 55 100)) w;
            base = (fsub F (fst to) (fmul F (fst direction) head_length),
                    fsub F (snd to) (fmul F (snd direction) head_length))
        in Some \<lparr>tail_point = from, base_point = base, shaft_radius = fdiv F w (fnum F 2 1),
             head_points =
               [to,
                (fadd F (fst base) (fmul F (fst across) hlf), fadd F (snd base) (fmul F (snd across) hlf)),
                (fsub F (fst base) (fmul F (fst across) hlf), fsub F (snd base) (fmul F (snd across) hlf))]\<rparr>)"

definition distance_to_segment :: "'f float_ops \<Rightarrow> 'f fpoint \<Rightarrow> 'f fpoint \<Rightarrow> 'f fpoint \<Rightarrow> 'f" where
  "distance_to_segment F p start stop =
     (let dx = fsub F (fst stop) (fst start); dy = fsub F (snd stop) (snd start);
          length_squared = fadd F (fmul F dx dx) (fmul F dy dy);
          along = (if flt F (fnum F 0 1) length_squared
            then clamp_unit F (fdiv F (fadd F (fmul F (fsub F (fst p) (fst start)) dx)
                   (fmul F (fsub F (snd p) (snd start)) dy)) length_squared)
            else fnum F 0 1);
          nearest_x = fadd F (fst start) (fmul F along dx);
          nearest_y = fadd F (snd start) (fmul F along dy)
      in fsqrt F (fadd F (fsquare F (fsub F (fst p) nearest_x)) (fsquare F (fsub F (snd p) nearest_y))))"

text \<open>The body of the loop over the three edges of an arrow's head.\<close>

definition head_edge :: "'f float_ops \<Rightarrow> 'f fpoint list \<Rightarrow> 'f fpoint \<Rightarrow> 'f fpoint \<Rightarrow> nat \<Rightarrow> 'f \<Rightarrow> 'f" where
  "head_edge F head centre p i outside =
     (let start = head ! i; stop = head ! ((i + 1) mod 3);
          ex = fsub F (fst stop) (fst start); ey = fsub F (snd stop) (snd start);
          len = fmax F (fsqrt F (fadd F (fmul F ex ex) (fmul F ey ey))) (f_EPSILON F);
          normal = (fdiv F ey len, fdiv F (fneg F ex) len);
          normal = (if flt F (fnum F 0 1)
              (fadd F (fmul F (fsub F (fst centre) (fst start)) (fst normal))
                 (fmul F (fsub F (snd centre) (snd start)) (snd normal)))
            then (fneg F (fst normal), fneg F (snd normal)) else normal)
      in fmax F outside (fadd F (fmul F (fsub F (fst p) (fst start)) (fst normal))
           (fmul F (fsub F (snd p) (snd start)) (snd normal))))"

definition arrow_coverage :: "'f float_ops \<Rightarrow> 'f arrow_shape \<Rightarrow> 'f fpoint \<Rightarrow> 'f" where
  "arrow_coverage F s p =
     (let shaft = clamp_unit F (fsub F (fadd F (shaft_radius s) (fnum F 1 2))
            (distance_to_segment F p (tail_point s) (base_point s)));
          head = head_points s;
          centre = (fdiv F (fadd F (fadd F (fst (head ! 0)) (fst (head ! 1))) (fst (head ! 2))) (fnum F 3 1),
                    fdiv F (fadd F (fadd F (snd (head ! 0)) (snd (head ! 1))) (snd (head ! 2))) (fnum F 3 1));
          outside = fold (head_edge F head centre p) [0, 1, 2] (f_MIN F)
      in fmax F shaft (clamp_unit F (fsub F (fnum F 1 2) outside)))"

definition box_outline_coverage :: "'f float_ops \<Rightarrow> rect \<Rightarrow> 'f \<Rightarrow> 'f \<Rightarrow> int \<Rightarrow> int \<Rightarrow> 'f" where
  "box_outline_coverage F r w rad x y =
     (let half_width = fdiv F (fint F (uint (rect_width r))) (fnum F 2 1);
          half_height = fdiv F (fint F (uint (rect_height r))) (fnum F 2 1);
          rad = fclamp F rad (fnum F 0 1) (fmin F half_width half_height);
          centre = (fadd F (fint F (rect_left r)) half_width, fadd F (fint F (rect_top r)) half_height);
          p = (fsub F (fadd F (fint F x) (fnum F 1 2)) (fst centre),
               fsub F (fadd F (fint F y) (fnum F 1 2)) (snd centre));
          q = (fsub F (fabs F (fst p)) (fsub F half_width rad),
               fsub F (fabs F (snd p)) (fsub F half_height rad));
          outside = fsqrt F (fadd F (fsquare F (fmax F (fst q) (fnum F 0 1)))
            (fsquare F (fmax F (snd q) (fnum F 0 1))));
          distance = fsub F (fadd F outside (fmin F (fmax F (fst q) (snd q)) (fnum F 0 1))) rad;
          within_outer = clamp_unit F (fsub F (fnum F 1 2) distance);
          beyond_inner = clamp_unit F (fadd F (fadd F distance w) (fnum F 1 2))
      in fmin F within_outer beyond_inner)"

subsection \<open>\<open>Mark::bounds\<close>\<close>

text \<open>The running minimum and maximum of points' coordinates: left, top, right, bottom.\<close>

definition widen :: "'f float_ops \<Rightarrow> 'f fpoint \<Rightarrow> 'f \<times> 'f \<times> 'f \<times> 'f \<Rightarrow> 'f \<times> 'f \<times> 'f \<times> 'f" where
  "widen F p = (\<lambda>(left, upper, right, bottom).
     (fmin F left (fst p), fmin F upper (snd p), fmax F right (fst p), fmax F bottom (snd p)))"

definition reach_edges :: "'f float_ops \<Rightarrow> 'f \<Rightarrow> 'f \<times> 'f \<times> 'f \<times> 'f \<Rightarrow> rect option" where
  "reach_edges F reach = (\<lambda>(left, upper, right, bottom).
     from_edges (ffloor F (fsub F left reach)) (ffloor F (fsub F upper reach))
       (fceil F (fadd F right reach)) (fceil F (fadd F bottom reach)))"

definition pen_reach :: "'f float_ops \<Rightarrow> 'f \<Rightarrow> 'f" where
  "pen_reach F w = fadd F (fdiv F w (fnum F 2 1)) (fnum F 1 1)"

definition nonempty_rect :: "rect \<Rightarrow> rect option" where
  "nonempty_rect r = (if 0 < rect_width r \<and> 0 < rect_height r then Some r else None)"

fun mark_bounds :: "'f float_ops \<Rightarrow> 'f mark \<Rightarrow> rect option" where
  "mark_bounds F (Redaction r) = nonempty_rect r"
| "mark_bounds F (Rectangle r c w b) = nonempty_rect r"
| "mark_bounds F (TextMark at t sz c m) =
     nonempty_rect \<lparr>rect_x = fst at, rect_y = snd at, rect_width = mask_width m, rect_height = mask_height m\<rparr>"
| "mark_bounds F (Arrow from to c w) =
     Option.bind (arrow_shape_new F from to w) (\<lambda>shape.
       reach_edges F (pen_reach F w) (fold (widen F) (head_points shape)
         (fmin F (fst from) (fst to), fmin F (snd from) (snd to),
          fmax F (fst from) (fst to), fmax F (snd from) (snd to))))"
| "mark_bounds F (Stroke ps c w st) =
     (if ps = [] \<or> fle F w (fnum F 0 1) then None
      else reach_edges F (pen_reach F w) (fold (widen F) ps (f_MAX F, f_MAX F, f_MIN F, f_MIN F)))"

subsection \<open>\<open>paint_mark\<close>\<close>

text \<open>
  \<open>as_i32\<close> is the cast \<open>as i32\<close> of an \<open>i64\<close>; \<open>i32_offset a b\<close> is \<open>(a - b) as usize\<close> on \<open>i32\<close>, whose
  difference wraps and whose negative values become huge.
\<close>

definition as_i32 :: "int \<Rightarrow> int" where
  "as_i32 v = sint (word_of_int v :: i32)"

definition as_usize :: "int \<Rightarrow> nat" where
  "as_usize v = nat (v mod 18446744073709551616)"

definition i32_offset :: "int \<Rightarrow> int \<Rightarrow> nat" where
  "i32_offset a b = as_usize (as_i32 (a - b))"

definition pixel_offset :: "rect \<Rightarrow> nat \<Rightarrow> nat \<Rightarrow> int \<Rightarrow> int \<Rightarrow> nat" where
  "pixel_offset ar stride bpp x y =
     i32_offset y (rect_top ar) * stride + i32_offset x (rect_left ar) * bpp"

text \<open>\<open>for y in r.y..(r.bottom() as i32) { for x in r.x..(r.right() as i32) { body } }\<close>\<close>

definition columns_of :: "rect \<Rightarrow> int list" where
  "columns_of r = [rect_left r..as_i32 (rect_right r) - 1]"

definition rows_of :: "rect \<Rightarrow> int list" where
  "rows_of r = [rect_top r..as_i32 (rect_bottom r) - 1]"

definition each_pixel :: "rect \<Rightarrow> (int \<Rightarrow> int \<Rightarrow> 's \<Rightarrow> 's option) \<Rightarrow> 's \<Rightarrow> 's option" where
  "each_pixel r body = fold_opt (\<lambda>y. fold_opt (\<lambda>x. body x y) (columns_of r)) (rows_of r)"

text \<open>\<open>f(&mut pixels[at..at + 4])\<close>\<close>

definition change_pixel :: "nat \<Rightarrow> (bytes \<Rightarrow> bytes) \<Rightarrow> bytes \<Rightarrow> bytes option" where
  "change_pixel at f px = Option.bind (slice at (at + 4) px) (\<lambda>p. put_bytes at (f p) px)"

definition ordered :: "color \<Rightarrow> bool \<Rightarrow> bytes" where
  "ordered c blue_first = (if blue_first then [blue c, green c, red c, 255] else [red c, green c, blue c, 255])"

definition fu8 :: "'f float_ops \<Rightarrow> u8 \<Rightarrow> 'f" where
  "fu8 F v = fint F (uint v)"

definition round_byte :: "'f float_ops \<Rightarrow> 'f \<Rightarrow> u8" where
  "round_byte F v = fbyte F (fclamp F (fround F v) (fnum F 0 1) (fnum F 255 1))"

definition mix :: "'f float_ops \<Rightarrow> u8 \<Rightarrow> u8 \<Rightarrow> 'f \<Rightarrow> u8" where
  "mix F old new amount =
     round_byte F (fadd F (fmul F (fu8 F old) (fsub F (fnum F 1 1) amount)) (fmul F (fu8 F new) amount))"

fun blend_over :: "'f float_ops \<Rightarrow> bytes \<Rightarrow> 'f \<Rightarrow> frame_alpha \<Rightarrow> bytes \<Rightarrow> bytes" where
  "blend_over F ink cover Opaque p = map (\<lambda>i. mix F (p ! i) (ink ! i) cover) [0, 1, 2] @ [255]"
| "blend_over F ink cover Straight p =
     (let below = fdiv F (fu8 F (p ! 3)) (fnum F 255 1);
          rest = fsub F (fnum F 1 1) cover;
          result = fadd F cover (fmul F below rest)
      in if fle F result (fnum F 0 1) then p
      else map (\<lambda>i. round_byte F (fdiv F (fadd F (fmul F (fu8 F (ink ! i)) cover)
             (fmul F (fmul F (fu8 F (p ! i)) below) rest)) result)) [0, 1, 2] @
           [fbyte F (fround F (fmul F result (fnum F 255 1)))])"

definition tint :: "'f float_ops \<Rightarrow> bytes \<Rightarrow> 'f \<Rightarrow> bytes \<Rightarrow> bytes" where
  "tint F ink amount p =
     map (\<lambda>i. let factor = fsub F (fnum F 1 1)
              (fmul F amount (fsub F (fnum F 1 1) (fdiv F (fu8 F (ink ! i)) (fnum F 255 1))))
            in round_byte F (fmul F (fu8 F (p ! i)) factor)) [0, 1, 2] @ [p ! 3]"

definition fill_span :: "rect \<Rightarrow> (int \<Rightarrow> int \<Rightarrow> nat) \<Rightarrow> nat \<Rightarrow> bytes \<Rightarrow> bytes \<Rightarrow> bytes option" where
  "fill_span r offset bpp v =
     fold_opt (\<lambda>y px. let start = offset (rect_left r) y; n = unat (rect_width r) in
       Option.bind (slice start (start + n * bpp) px) (\<lambda>_.
         put_bytes start (concat (replicate n v)) px)) (rows_of r)"

subsection \<open>Strokes\<close>

definition segments :: "'f fpoint list \<Rightarrow> ('f fpoint \<times> 'f fpoint) list" where
  "segments ps = zip ps (tl ps) @ (if length ps = 1 then [(hd ps, hd ps)] else [])"

text \<open>The pixels one segment visits: left, top, right and bottom, before they are cut to the area.\<close>

definition segment_span :: "'f float_ops \<Rightarrow> 'f \<Rightarrow> 'f fpoint \<times> 'f fpoint \<Rightarrow> int \<times> int \<times> int \<times> int" where
  "segment_span F rad = (\<lambda>(start, stop).
     (ffloor F (fsub F (fsub F (fmin F (fst start) (fst stop)) rad) (fnum F 1 1)),
      ffloor F (fsub F (fsub F (fmin F (snd start) (snd stop)) rad) (fnum F 1 1)),
      fceil F (fadd F (fadd F (fmax F (fst start) (fst stop)) rad) (fnum F 1 1)),
      fceil F (fadd F (fadd F (fmax F (snd start) (snd stop)) rad) (fnum F 1 1))))"

definition pixel_middle :: "'f float_ops \<Rightarrow> int \<Rightarrow> int \<Rightarrow> 'f fpoint" where
  "pixel_middle F x y = (fadd F (fint F x) (fnum F 1 2), fadd F (fint F y) (fnum F 1 2))"

definition segment_cover :: "'f float_ops \<Rightarrow> 'f \<Rightarrow> 'f fpoint \<times> 'f fpoint \<Rightarrow> int \<Rightarrow> int \<Rightarrow> 'f" where
  "segment_cover F rad s x y =
     clamp_unit F (fsub F (fadd F rad (fnum F 1 2))
       (distance_to_segment F (pixel_middle F x y) (fst s) (snd s)))"

definition raise_cover ::
  "'f float_ops \<Rightarrow> 'f \<Rightarrow> rect \<Rightarrow> 'f fpoint \<times> 'f fpoint \<Rightarrow> int \<Rightarrow> int \<Rightarrow> 'f list \<Rightarrow> 'f list option" where
  "raise_cover F rad ar s x y coverage =
     (let cover = segment_cover F rad s x y;
          i = nat (y - rect_top ar) * unat (rect_width ar) + nat (x - rect_left ar)
      in Option.bind (get coverage i) (\<lambda>old.
           Some (if flt F old cover then coverage[i := cover] else coverage)))"

definition stroke_coverage :: "'f float_ops \<Rightarrow> 'f fpoint list \<Rightarrow> 'f \<Rightarrow> rect \<Rightarrow> 'f list option" where
  "stroke_coverage F ps w ar =
     (let rad = fdiv F w (fnum F 2 1) in
      fold_opt (\<lambda>s. case segment_span F rad s of (left, upper, right, bottom) \<Rightarrow>
          fold_opt (\<lambda>y. fold_opt (\<lambda>x. raise_cover F rad ar s x y)
              [max left (rect_left ar)..min right (rect_right ar) - 1])
            [max upper (rect_top ar)..min bottom (rect_bottom ar) - 1])
        (segments ps) (replicate (unat (rect_width ar) * unat (rect_height ar)) (fnum F 0 1)))"

text \<open>The body of the stroke's loop, at column \<open>x\<close> and row \<open>y\<close> of the reach.\<close>

definition stroke_ink :: "'f float_ops \<Rightarrow> stroke_style \<Rightarrow> bytes \<Rightarrow> 'f \<Rightarrow> frame_alpha \<Rightarrow> bytes \<Rightarrow> bytes" where
  "stroke_ink F st ink cover al =
     (case st of Ink \<Rightarrow> blend_over F ink cover al
      | Highlighter \<Rightarrow> tint F ink (fmul F cover (HIGHLIGHTER_STRENGTH F)))"

definition stroke_pixel ::
  "'f float_ops \<Rightarrow> rect \<Rightarrow> (int \<Rightarrow> int \<Rightarrow> nat) \<Rightarrow> 'f list \<Rightarrow> stroke_style \<Rightarrow> bytes \<Rightarrow> frame_alpha \<Rightarrow>
   nat \<Rightarrow> nat \<Rightarrow> bytes \<Rightarrow> bytes option" where
  "stroke_pixel F reach offset coverage st ink al x y px =
     Option.bind (get coverage (y * unat (rect_width reach) + x)) (\<lambda>cover.
       if fle F cover (fnum F 0 1) then Some px
       else change_pixel (offset (as_i32 (rect_left reach + int x)) (as_i32 (rect_top reach + int y)))
         (stroke_ink F st ink cover al) px)"

text \<open>The body of the text's loop.\<close>

definition text_pixel ::
  "'f float_ops \<Rightarrow> (int \<Rightarrow> int \<Rightarrow> nat) \<Rightarrow> i32 \<times> i32 \<Rightarrow> glyph_mask \<Rightarrow> bytes \<Rightarrow> frame_alpha \<Rightarrow>
   int \<Rightarrow> int \<Rightarrow> bytes \<Rightarrow> bytes option" where
  "text_pixel F offset at m ink al x y px =
     Option.bind (get (mask_coverage m)
         (i32_offset y (sint (snd at)) * unat (mask_width m) + i32_offset x (sint (fst at)))) (\<lambda>v.
       if 0 < v then change_pixel (offset x y) (blend_over F ink (fdiv F (fu8 F v) (fnum F 255 1)) al) px
       else Some px)"

definition covered_pixel ::
  "'f float_ops \<Rightarrow> (int \<Rightarrow> int \<Rightarrow> nat) \<Rightarrow> bytes \<Rightarrow> frame_alpha \<Rightarrow> (int \<Rightarrow> int \<Rightarrow> 'f) \<Rightarrow>
   int \<Rightarrow> int \<Rightarrow> bytes \<Rightarrow> bytes option" where
  "covered_pixel F offset ink al cover x y px =
     (if flt F (fnum F 0 1) (cover x y) then change_pixel (offset x y) (blend_over F ink (cover x y) al) px
      else Some px)"

fun paint_eight_bit ::
  "'f float_ops \<Rightarrow> 'f mark \<Rightarrow> rect \<Rightarrow> (int \<Rightarrow> int \<Rightarrow> nat) \<Rightarrow> bool \<Rightarrow> frame_alpha \<Rightarrow> bytes \<Rightarrow> bytes option" where
  "paint_eight_bit F (Redaction r) reach offset blue_first al px =
     fill_span reach offset 4 REDACTION_EIGHT_BIT px"
| "paint_eight_bit F (Rectangle r c w b) reach offset blue_first al px =
     each_pixel reach (covered_pixel F offset (ordered c blue_first) al
       (box_outline_coverage F r (fint F (uint w)) b)) px"
| "paint_eight_bit F (Stroke ps c w st) reach offset blue_first al px =
     Option.bind (stroke_coverage F ps w reach) (\<lambda>coverage.
       fold_opt (\<lambda>y. fold_opt (\<lambda>x. stroke_pixel F reach offset coverage st (ordered c blue_first) al x y)
         [0..<unat (rect_width reach)]) [0..<unat (rect_height reach)] px)"
| "paint_eight_bit F (TextMark at t sz c m) reach offset blue_first al px =
     each_pixel reach (text_pixel F offset at m (ordered c blue_first) al) px"
| "paint_eight_bit F (Arrow from to c w) reach offset blue_first al px =
     (case arrow_shape_new F from to w of
        None \<Rightarrow> Some px
      | Some shape \<Rightarrow> each_pixel reach (covered_pixel F offset (ordered c blue_first) al
          (\<lambda>x y. arrow_coverage F shape (pixel_middle F x y))) px)"

definition paint_mark ::
  "'f float_ops \<Rightarrow> 'f mark \<Rightarrow> nat \<Rightarrow> rect \<Rightarrow> pixel_format \<Rightarrow> frame_alpha \<Rightarrow> bytes \<Rightarrow> bytes option" where
  "paint_mark F m stride ar fmt al px =
     (case Option.bind (mark_bounds F m) (\<lambda>b. intersection b ar) of
        None \<Rightarrow> Some px
      | Some reach \<Rightarrow>
          let bpp = unat (bytes_per_pixel fmt); offset = pixel_offset ar stride bpp in
          case encoding fmt of
            HalfFloatRgba \<Rightarrow>
              (case m of Redaction _ \<Rightarrow> fill_span reach offset bpp REDACTION_HALF_FLOAT px | _ \<Rightarrow> Some px)
          | EightBitRgba blue_first \<Rightarrow> paint_eight_bit F m reach offset blue_first al px)"

subsection \<open>Painting, pixel by pixel\<close>

text \<open>
  The specification: what a mark makes of the one pixel \<open>(x, y)\<close> whose bytes are \<open>p\<close>, with no
  buffer, no area and no loop.
\<close>

definition in_rect :: "rect \<Rightarrow> int \<Rightarrow> int \<Rightarrow> bool" where
  "in_rect r x y \<longleftrightarrow> rect_left r \<le> x \<and> x < rect_right r \<and> rect_top r \<le> y \<and> y < rect_bottom r"

definition widest :: "'f float_ops \<Rightarrow> 'f \<Rightarrow> int \<Rightarrow> int \<Rightarrow> 'f fpoint \<times> 'f fpoint \<Rightarrow> 'f \<Rightarrow> 'f" where
  "widest F rad x y s cover =
     (case segment_span F rad s of (left, upper, right, bottom) \<Rightarrow>
        if left \<le> x \<and> x < right \<and> upper \<le> y \<and> y < bottom \<and> flt F cover (segment_cover F rad s x y)
        then segment_cover F rad s x y else cover)"

definition stroke_cover :: "'f float_ops \<Rightarrow> 'f fpoint list \<Rightarrow> 'f \<Rightarrow> int \<Rightarrow> int \<Rightarrow> 'f" where
  "stroke_cover F ps w x y =
     fold (widest F (fdiv F w (fnum F 2 1)) x y) (segments ps) (fnum F 0 1)"

definition cover_ink :: "'f float_ops \<Rightarrow> bytes \<Rightarrow> frame_alpha \<Rightarrow> 'f \<Rightarrow> bytes \<Rightarrow> bytes" where
  "cover_ink F ink al cover p = (if flt F (fnum F 0 1) cover then blend_over F ink cover al p else p)"

definition glyph_at :: "i32 \<times> i32 \<Rightarrow> glyph_mask \<Rightarrow> int \<Rightarrow> int \<Rightarrow> u8" where
  "glyph_at at m x y =
     mask_coverage m ! (nat (y - sint (snd at)) * unat (mask_width m) + nat (x - sint (fst at)))"

fun eight_bit_pixel ::
  "'f float_ops \<Rightarrow> 'f mark \<Rightarrow> bool \<Rightarrow> frame_alpha \<Rightarrow> int \<Rightarrow> int \<Rightarrow> bytes \<Rightarrow> bytes" where
  "eight_bit_pixel F (Redaction r) bf al x y p = REDACTION_EIGHT_BIT"
| "eight_bit_pixel F (Rectangle r c w b) bf al x y p =
     cover_ink F (ordered c bf) al (box_outline_coverage F r (fint F (uint w)) b x y) p"
| "eight_bit_pixel F (Stroke ps c w st) bf al x y p =
     (let cover = stroke_cover F ps w x y in
      if fle F cover (fnum F 0 1) then p else stroke_ink F st (ordered c bf) cover al p)"
| "eight_bit_pixel F (TextMark at t sz c m) bf al x y p =
     (let v = glyph_at at m x y in
      if 0 < v then blend_over F (ordered c bf) (fdiv F (fu8 F v) (fnum F 255 1)) al p else p)"
| "eight_bit_pixel F (Arrow from to c w) bf al x y p =
     (case arrow_shape_new F from to w of
        None \<Rightarrow> p
      | Some shape \<Rightarrow> cover_ink F (ordered c bf) al (arrow_coverage F shape (pixel_middle F x y)) p)"

definition mark_pixel ::
  "'f float_ops \<Rightarrow> 'f mark \<Rightarrow> pixel_format \<Rightarrow> frame_alpha \<Rightarrow> int \<Rightarrow> int \<Rightarrow> bytes \<Rightarrow> bytes" where
  "mark_pixel F m fmt al x y p =
     (case mark_bounds F m of
        None \<Rightarrow> p
      | Some b \<Rightarrow>
          if \<not> in_rect b x y then p
          else case encoding fmt of
            HalfFloatRgba \<Rightarrow> (case m of Redaction _ \<Rightarrow> REDACTION_HALF_FLOAT | _ \<Rightarrow> p)
          | EightBitRgba bf \<Rightarrow> eight_bit_pixel F m bf al x y p)"

subsection \<open>Loops over the pixels of an area\<close>

text \<open>
  A buffer of pixels, and a buffer of coverages, are both a state \<open>s\<close> read at the slot of a pixel
  by \<open>look\<close>. \<open>touched\<close> says that \<open>s'\<close> is \<open>s\<close> with every pixel of the area changed by \<open>g\<close>.
\<close>

definition slot :: "rect \<Rightarrow> int \<Rightarrow> int \<Rightarrow> nat" where
  "slot ar x y = nat (y - rect_top ar) * unat (rect_width ar) + nat (x - rect_left ar)"

definition touched ::
  "('s \<Rightarrow> nat \<Rightarrow> 'c) \<Rightarrow> ('s \<Rightarrow> bool) \<Rightarrow> rect \<Rightarrow> (int \<Rightarrow> int \<Rightarrow> 'c \<Rightarrow> 'c) \<Rightarrow> 's \<Rightarrow> 's \<Rightarrow> bool" where
  "touched look valid ar g s s' \<longleftrightarrow> valid s' \<and>
     (\<forall>x y. in_rect ar x y \<longrightarrow> look s' (slot ar x y) = g x y (look s (slot ar x y)))"

lemma touched_refl: "valid s \<Longrightarrow> touched look valid ar (\<lambda>_ _ c. c) s s"
  by (simp add: touched_def)

lemma touched_trans:
  "touched look valid ar g s s' \<Longrightarrow> touched look valid ar g' s' s'' \<Longrightarrow>
    touched look valid ar (\<lambda>x y c. g' x y (g x y c)) s s''"
  by (simp add: touched_def)

lemma touched_cong:
  "touched look valid ar g s s' \<Longrightarrow> (\<And>x y c. in_rect ar x y \<Longrightarrow> g x y c = g' x y c) \<Longrightarrow>
    touched look valid ar g' s s'"
  by (simp add: touched_def)

lemma ex_touched_cong:
  "\<exists>s'. e = Some s' \<and> touched look valid ar g s s' \<Longrightarrow>
    (\<And>x y c. in_rect ar x y \<Longrightarrow> g x y c = g' x y c) \<Longrightarrow>
    \<exists>s'. e = Some s' \<and> touched look valid ar g' s s'"
  by (auto simp: touched_def)

text \<open>A loop whose body changes the pixels with key \<open>a\<close> changes those with a key in its range, once.\<close>

lemma fold_touched:
  assumes "\<And>a s. a \<in> set xs \<Longrightarrow> valid s \<Longrightarrow> \<exists>s'. body a s = Some s' \<and>
      touched look valid ar (\<lambda>x y c. if key x y = Some a then g x y c else c) s s'"
    and "valid s" and "distinct xs"
  shows "\<exists>s'. fold_opt body xs s = Some s' \<and>
    touched look valid ar (\<lambda>x y c. if key x y \<in> Some ` set xs then g x y c else c) s s'"
  using assms
proof (induction xs arbitrary: s)
  case Nil
  then show ?case by (simp add: touched_refl)
next
  case (Cons a xs)
  from Cons.prems obtain s1 where s1: "body a s = Some s1"
      "touched look valid ar (\<lambda>x y c. if key x y = Some a then g x y c else c) s s1"
    by (meson list.set_intros(1))
  then have "valid s1" by (simp add: touched_def)
  with Cons.IH [of s1] Cons.prems obtain s2 where s2: "fold_opt body xs s1 = Some s2"
      "touched look valid ar (\<lambda>x y c. if key x y \<in> Some ` set xs then g x y c else c) s1 s2"
    by auto
  have "touched look valid ar (\<lambda>x y c. if key x y \<in> Some ` set (a # xs) then g x y c else c) s s2"
    by (rule touched_cong [OF touched_trans [OF s1(2) s2(2)]]) (use Cons.prems(3) in auto)
  with s1(1) s2(1) show ?case by simp
qed

text \<open>Two nested loops; \<open>kx\<close> and \<open>ky\<close> say which index of each loop a pixel belongs to.\<close>

lemma loops_touched:
  assumes body: "\<And>a b s. a \<in> set xs \<Longrightarrow> b \<in> set ys \<Longrightarrow> valid s \<Longrightarrow> \<exists>s'. body a b s = Some s' \<and>
      touched look valid ar (\<lambda>x y c. if kx x = Some a \<and> ky y = Some b then g x y c else c) s s'"
    and "valid s" and "distinct xs" and "distinct ys"
  shows "\<exists>s'. fold_opt (\<lambda>b. fold_opt (\<lambda>a. body a b) xs) ys s = Some s' \<and>
    touched look valid ar
      (\<lambda>x y c. if kx x \<in> Some ` set xs \<and> ky y \<in> Some ` set ys then g x y c else c) s s'"
proof -
  have row: "\<exists>s'. fold_opt (\<lambda>a. body a b) xs s = Some s' \<and> touched look valid ar
      (\<lambda>x y c. if ky y = Some b then if kx x \<in> Some ` set xs then g x y c else c else c) s s'"
    if b: "b \<in> set ys" and s: "valid s" for b s
  proof (rule ex_touched_cong)
    show "\<exists>s'. fold_opt (\<lambda>a. body a b) xs s = Some s' \<and> touched look valid ar
        (\<lambda>x y c. if kx x \<in> Some ` set xs then if ky y = Some b then g x y c else c else c) s s'"
    proof (rule fold_touched)
      show "valid s" "distinct xs" by (fact s assms(3))+
      fix a s
      assume "a \<in> set xs" "valid s"
      then show "\<exists>s'. body a b s = Some s' \<and> touched look valid ar
          (\<lambda>x y c. if kx x = Some a then if ky y = Some b then g x y c else c else c) s s'"
        by (rule ex_touched_cong [OF body [OF _ b]]) simp
    qed
  qed simp
  show ?thesis
  proof (rule ex_touched_cong)
    show "\<exists>s'. fold_opt (\<lambda>b. fold_opt (\<lambda>a. body a b) xs) ys s = Some s' \<and> touched look valid ar
        (\<lambda>x y c. if ky y \<in> Some ` set ys then if kx x \<in> Some ` set xs then g x y c else c else c) s s'"
      by (rule fold_touched) (use row assms(2,4) in blast)+
  qed simp
qed

lemma set_columns_of: "rect_right r < 2147483648 \<Longrightarrow> set (columns_of r) = {rect_left r..<rect_right r}"
  using edge_bounds [of r] by (auto simp: columns_of_def as_i32_def sint_i32_of_int)

lemma set_rows_of: "rect_bottom r < 2147483648 \<Longrightarrow> set (rows_of r) = {rect_top r..<rect_bottom r}"
  using edge_bounds [of r] by (auto simp: rows_of_def as_i32_def sint_i32_of_int)

lemma each_pixel_touched:
  assumes body: "\<And>x y s. in_rect r x y \<Longrightarrow> valid s \<Longrightarrow> \<exists>s'. body x y s = Some s' \<and>
      touched look valid ar (\<lambda>x' y' c. if x' = x \<and> y' = y then g x' y' c else c) s s'"
    and "valid s" and small: "rect_right r < 2147483648" "rect_bottom r < 2147483648"
  shows "\<exists>s'. each_pixel r body s = Some s' \<and>
    touched look valid ar (\<lambda>x y c. if in_rect r x y then g x y c else c) s s'"
proof (rule ex_touched_cong)
  show "\<exists>s'. each_pixel r body s = Some s' \<and> touched look valid ar
      (\<lambda>x y c. if Some x \<in> Some ` set (columns_of r) \<and> Some y \<in> Some ` set (rows_of r) then g x y c else c) s s'"
    unfolding each_pixel_def
  proof (rule loops_touched)
    fix a b s
    assume "a \<in> set (columns_of r)" "b \<in> set (rows_of r)" "valid s"
    then have "in_rect r a b" "valid s"
      by (auto simp: set_columns_of set_rows_of small in_rect_def)
    from body [OF this] show "\<exists>s'. body a b s = Some s' \<and>
        touched look valid ar (\<lambda>x y c. if Some x = Some a \<and> Some y = Some b then g x y c else c) s s'"
      by simp
  qed (simp_all add: assms(2) columns_of_def rows_of_def)
qed (auto simp: set_columns_of set_rows_of small in_rect_def inj_image_mem_iff)

subsection \<open>Pixels in a buffer\<close>

text \<open>The areas painted on: no farther than \<open>i32\<close> reaches, and packed tightly.\<close>

definition area_ok :: "rect \<Rightarrow> bool" where
  "area_ok ar \<longleftrightarrow> rect_right ar < 2147483648 \<and> rect_bottom ar < 2147483648 \<and>
     uint (rect_width ar) < 2147483648 \<and> uint (rect_height ar) < 2147483648"

definition cell :: "nat \<Rightarrow> bytes \<Rightarrow> nat \<Rightarrow> bytes" where
  "cell n px i = take n (drop (i * n) px)"

definition packed_area :: "nat \<Rightarrow> rect \<Rightarrow> bytes \<Rightarrow> bool" where
  "packed_area n ar px \<longleftrightarrow> length px = unat (rect_width ar) * unat (rect_height ar) * n"

lemma in_rect_slot:
  assumes "in_rect ar x y"
  shows "nat (x - rect_left ar) < unat (rect_width ar)" "nat (y - rect_top ar) < unat (rect_height ar)"
proof -
  have "int (unat (rect_width ar)) = rect_right ar - rect_left ar"
    "int (unat (rect_height ar)) = rect_bottom ar - rect_top ar"
    by (simp_all add: edge_defs)
  then show "nat (x - rect_left ar) < unat (rect_width ar)" "nat (y - rect_top ar) < unat (rect_height ar)"
    using assms unfolding in_rect_def by linarith+
qed

lemma slot_less: "in_rect ar x y \<Longrightarrow> slot ar x y < unat (rect_width ar) * unat (rect_height ar)"
  unfolding slot_def using row_major_less [OF in_rect_slot(2,1)] by (simp add: mult.commute)

lemma slot_inject:
  assumes "in_rect ar x y" "in_rect ar x' y'" "slot ar x y = slot ar x' y'"
  shows "x = x' \<and> y = y'"
  using row_major_inject [OF assms(3) [unfolded slot_def] in_rect_slot(1) [OF assms(1)] in_rect_slot(1) [OF assms(2)]]
    assms(1,2) by (auto simp: in_rect_def)

lemma slot_inside:
  assumes "packed_area n ar px" "in_rect ar x y"
  shows "slot ar x y * n + n \<le> length px"
proof -
  have "Suc (slot ar x y) \<le> unat (rect_width ar) * unat (rect_height ar)"
    using slot_less [OF assms(2)] by (rule Suc_leI)
  then have "Suc (slot ar x y) * n \<le> length px"
    unfolding assms(1) [unfolded packed_area_def] by (rule mult_le_mono1)
  then show ?thesis by simp
qed

lemma length_cell: "i * n + n \<le> length px \<Longrightarrow> length (cell n px i) = n"
  by (simp add: cell_def)

text \<open>Writing \<open>k\<close> whole cells from cell \<open>i\<close> on replaces those cells and no others.\<close>

lemma put_cells:
  assumes "length bs = k * n" and "i * n + k * n \<le> length px"
  shows "\<exists>px'. put_bytes (i * n) bs px = Some px' \<and> length px' = length px \<and>
    (\<forall>j. j * n + n \<le> length px \<longrightarrow>
      cell n px' j = (if i \<le> j \<and> j < i + k then cell n bs (j - i) else cell n px j))"
proof -
  let ?px' = "take (i * n) px @ bs @ drop (i * n + length bs) px"
  have "cell n ?px' j = (if i \<le> j \<and> j < i + k then cell n bs (j - i) else cell n px j)"
    if "j * n + n \<le> length px" for j
  proof -
    consider "j < i" | "i \<le> j" "j < i + k" | "i + k \<le> j" by linarith
    then show ?thesis
    proof cases
      case 1
      then have "Suc j * n \<le> i * n" by (intro mult_le_mono1) simp
      then show ?thesis using 1 assms replaced_before [of "i * n" bs px "j * n" n] by (simp add: cell_def)
    next
      case 2
      then have "Suc (j - i) * n \<le> k * n" by (intro mult_le_mono1) simp
      then have "(j - i) * n + n \<le> length bs" using assms(1) by simp
      moreover have "j * n = i * n + (j - i) * n" using 2 by (simp add: add_mult_distrib [symmetric])
      ultimately show ?thesis using 2 assms(2) by (simp add: cell_def)
    next
      case 3
      then have "(i + k) * n \<le> j * n" by (intro mult_le_mono1) simp
      then have "i * n + length bs \<le> j * n" using assms(1) by (simp add: add_mult_distrib)
      then show ?thesis using 3 assms replaced_after [of "i * n" bs px "j * n"] by (simp add: cell_def)
    qed
  qed
  then show ?thesis
    using assms by (intro exI [of _ ?px']) (simp add: put_bytes_def)
qed

lemma i32_offset_eq: "0 \<le> a - b \<Longrightarrow> a - b < 2147483648 \<Longrightarrow> i32_offset a b = nat (a - b)"
  by (simp add: i32_offset_def as_usize_def as_i32_def sint_i32_of_int del: of_int_diff)

lemma pixel_offset_slot:
  assumes "area_ok ar" "in_rect ar x y"
  shows "pixel_offset ar (unat (rect_width ar) * n) n x y = slot ar x y * n"
proof -
  have "0 \<le> x - rect_left ar" "0 \<le> y - rect_top ar" "x - rect_left ar < 2147483648" "y - rect_top ar < 2147483648"
    using assms by (auto simp: area_ok_def in_rect_def edge_defs)
  then show ?thesis by (simp add: pixel_offset_def slot_def i32_offset_eq algebra_simps)
qed

lemma change_pixel_touched:
  assumes "packed_area 4 ar px" and "in_rect ar x y" and "\<And>p. length p = 4 \<Longrightarrow> length (f p) = 4"
  shows "\<exists>px'. change_pixel (slot ar x y * 4) f px = Some px' \<and>
    touched (cell 4) (packed_area 4 ar) ar (\<lambda>x' y' p. if x' = x \<and> y' = y then f p else p) px px'"
proof -
  let ?i = "slot ar x y"
  note inside = slot_inside [OF assms(1,2)]
  have len: "length (f (cell 4 px ?i)) = 1 * 4" using assms(3) length_cell [OF inside] by simp
  obtain px' where px': "put_bytes (?i * 4) (f (cell 4 px ?i)) px = Some px'" "length px' = length px"
      "\<And>j. j * 4 + 4 \<le> length px \<Longrightarrow>
        cell 4 px' j = (if j = ?i then cell 4 (f (cell 4 px ?i)) 0 else cell 4 px j)"
    using put_cells [OF len, of ?i px] inside by (fastforce simp: less_Suc_eq_le)
  have "cell 4 (f (cell 4 px ?i)) 0 = f (cell 4 px ?i)" using len by (simp add: cell_def)
  then have "touched (cell 4) (packed_area 4 ar) ar (\<lambda>x' y' p. if x' = x \<and> y' = y then f p else p) px px'"
    using px'(2,3) assms(1) slot_inside [OF assms(1)] slot_inject [OF _ assms(2)]
    by (auto simp: touched_def packed_area_def)
  with px'(1) inside show ?thesis by (simp add: change_pixel_def slice_def cell_def)
qed

subsection \<open>Each kind of mark\<close>

lemma blend_over_length [simp]: "length p = 4 \<Longrightarrow> length (blend_over F ink cover al p) = 4"
  by (cases al) (simp_all add: Let_def)

lemma tint_length [simp]: "length (tint F ink amount p) = 4"
  by (simp add: tint_def)

lemma stroke_ink_length [simp]: "length p = 4 \<Longrightarrow> length (stroke_ink F st ink cover al p) = 4"
  by (cases st) (simp_all add: stroke_ink_def)

lemma intersection_area:
  assumes "intersection b ar = Some reach"
  shows "in_rect reach x y \<longleftrightarrow> in_rect b x y \<and> in_rect ar x y"
    and "rect_right reach \<le> rect_right ar" "rect_bottom reach \<le> rect_bottom ar"
  using assms by (auto simp: intersection_eq_Some in_rect_def)

text \<open>The bytes of the pixels of an area are changed; a pixel of the reach by \<open>g\<close>, the others not at all.\<close>

abbreviation repaints ::
  "nat \<Rightarrow> rect \<Rightarrow> rect \<Rightarrow> (int \<Rightarrow> int \<Rightarrow> bytes \<Rightarrow> bytes) \<Rightarrow> bytes option \<Rightarrow> bytes \<Rightarrow> bool" where
  "repaints n ar reach g e px \<equiv> \<exists>px'. e = Some px' \<and>
     touched (cell n) (packed_area n ar) ar (\<lambda>x y p. if in_rect reach x y then g x y p else p) px px'"

lemma covered_pixel_touched:
  assumes "area_ok ar" "in_rect ar x y" "packed_area 4 ar px"
  shows "\<exists>px'. covered_pixel F (pixel_offset ar (unat (rect_width ar) * 4) 4) ink al cover x y px = Some px' \<and>
    touched (cell 4) (packed_area 4 ar) ar
      (\<lambda>x' y' p. if x' = x \<and> y' = y then cover_ink F ink al (cover x' y') p else p) px px'"
proof (cases "flt F (fnum F 0 1) (cover x y)")
  case True
  have "\<exists>px'. change_pixel (slot ar x y * 4) (blend_over F ink (cover x y) al) px = Some px' \<and>
    touched (cell 4) (packed_area 4 ar) ar
      (\<lambda>x' y' p. if x' = x \<and> y' = y then blend_over F ink (cover x y) al p else p) px px'"
    by (rule change_pixel_touched) (simp_all add: assms)
  then have "\<exists>px'. change_pixel (slot ar x y * 4) (blend_over F ink (cover x y) al) px = Some px' \<and>
    touched (cell 4) (packed_area 4 ar) ar
      (\<lambda>x' y' p. if x' = x \<and> y' = y then cover_ink F ink al (cover x' y') p else p) px px'"
    by (rule ex_touched_cong) (simp add: cover_ink_def True)
  then show ?thesis
    by (simp add: covered_pixel_def True pixel_offset_slot assms(1,2))
next
  case False
  have "touched (cell 4) (packed_area 4 ar) ar
      (\<lambda>x' y' p. if x' = x \<and> y' = y then cover_ink F ink al (cover x' y') p else p) px px"
    using assms(3) by (simp add: touched_def cover_ink_def False)
  then show ?thesis by (simp add: covered_pixel_def False)
qed

lemma covered_area_repaints:
  assumes "area_ok ar" "intersection b ar = Some reach" "packed_area 4 ar px"
  shows "repaints 4 ar reach (\<lambda>x y. cover_ink F ink al (cover x y))
    (each_pixel reach (covered_pixel F (pixel_offset ar (unat (rect_width ar) * 4) 4) ink al cover) px) px"
proof (rule each_pixel_touched)
  show "rect_right reach < 2147483648" "rect_bottom reach < 2147483648"
    using intersection_area(2,3) [OF assms(2)] assms(1) by (auto simp: area_ok_def)
qed (use assms intersection_area(1) [OF assms(2)] in \<open>auto intro!: covered_pixel_touched\<close>)

text \<open>A row of a fill is one write of \<open>width\<close> cells.\<close>

lemma cell_replicate: "length v = n \<Longrightarrow> j < k \<Longrightarrow> cell n (concat (replicate k v)) j = v"
proof (induction k arbitrary: j)
  case (Suc k)
  then show ?case by (cases j) (simp_all add: cell_def)
qed simp

lemma slot_row:
  assumes "intersection b ar = Some reach" "in_rect ar x y"
    and "rect_top reach \<le> yr" "yr < rect_bottom reach"
  shows "slot ar (rect_left reach) yr \<le> slot ar x y \<and> slot ar x y < slot ar (rect_left reach) yr + unat (rect_width reach) \<longleftrightarrow>
    y = yr \<and> in_rect reach x y"
proof -
  let ?w = "unat (rect_width ar)"
  have r: "rect_left ar \<le> rect_left reach" "rect_right reach \<le> rect_right ar" "rect_top ar \<le> rect_top reach"
    "rect_bottom reach \<le> rect_bottom ar" "rect_left reach < rect_right reach"
    using assms(1) by (auto simp: intersection_eq_Some)
  have w: "int (unat (rect_width reach)) = rect_right reach - rect_left reach"
    "int ?w = rect_right ar - rect_left ar"
    by (simp_all add: edge_defs)
  define c where "c = nat (x - rect_left ar)"
  define i where "i = nat (y - rect_top ar)"
  define l where "l = nat (rect_left reach - rect_left ar)"
  define j where "j = nat (yr - rect_top ar)"
  have c: "c < ?w" unfolding c_def by (rule in_rect_slot(1) [OF assms(2)])
  have l: "l + unat (rect_width reach) \<le> ?w" using r w unfolding l_def by linarith
  have "slot ar (rect_left reach) yr \<le> slot ar x y \<and> slot ar x y < slot ar (rect_left reach) yr + unat (rect_width reach) \<longleftrightarrow>
      i = j \<and> l \<le> c \<and> c < l + unat (rect_width reach)"
  proof (cases "i = j")
    case False
    then consider "Suc i \<le> j" | "Suc j \<le> i" by linarith
    then show ?thesis
    proof cases
      case 1
      then have "i * ?w + ?w \<le> j * ?w" using mult_le_mono1 [OF 1, of ?w] by simp
      then show ?thesis using c False unfolding slot_def c_def [symmetric] i_def [symmetric] l_def [symmetric] j_def [symmetric] by linarith
    next
      case 2
      then have "j * ?w + ?w \<le> i * ?w" using mult_le_mono1 [OF 2, of ?w] by simp
      then show ?thesis using l False unfolding slot_def c_def [symmetric] i_def [symmetric] l_def [symmetric] j_def [symmetric] by linarith
    qed
  qed (simp add: slot_def c_def i_def l_def j_def)
  also have "\<dots> \<longleftrightarrow> y = yr \<and> in_rect reach x y"
  proof -
    define k where "k = unat (rect_width reach)"
    have k: "int k = rect_right reach - rect_left reach" unfolding k_def by (rule w(1))
    show ?thesis
      using assms(2-4) r k unfolding i_def j_def l_def c_def in_rect_def k_def [symmetric] by auto
  qed
  finally show ?thesis .
qed

lemma fill_repaints:
  assumes "area_ok ar" "intersection b ar = Some reach" "packed_area n ar px" "length v = n"
  shows "repaints n ar reach (\<lambda>_ _ _. v)
    (fill_span reach (pixel_offset ar (unat (rect_width ar) * n) n) n v px) px"
proof -
  let ?offset = "pixel_offset ar (unat (rect_width ar) * n) n"
  let ?k = "unat (rect_width reach)"
  define body where "body y px = Option.bind (slice (?offset (rect_left reach) y) (?offset (rect_left reach) y + ?k * n) px)
    (\<lambda>_. put_bytes (?offset (rect_left reach) y) (concat (replicate ?k v)) px)" for y px
  have small: "rect_bottom reach < 2147483648"
    using intersection_area(3) [OF assms(2)] assms(1) by (auto simp: area_ok_def)
  have row: "\<exists>px'. body y px = Some px' \<and> touched (cell n) (packed_area n ar) ar
      (\<lambda>x' y' p. if Some y' = Some y then if in_rect reach x' y' then v else p else p) px px'"
    if y: "y \<in> set (rows_of reach)" and px: "packed_area n ar px" for y px
  proof -
    have yr: "rect_top reach \<le> y" "y < rect_bottom reach" using y by (simp_all add: set_rows_of [OF small])
    have "in_rect reach (rect_left reach) y" "in_rect reach (rect_right reach - 1) y"
      using yr intersection_nonempty [OF assms(2)] by (simp_all add: in_rect_def)
    then have ends: "in_rect ar (rect_left reach) y" "in_rect ar (rect_right reach - 1) y"
      using intersection_area(1) [OF assms(2)] by blast+
    let ?i = "slot ar (rect_left reach) y"
    have "?i + ?k = Suc (slot ar (rect_right reach - 1) y)"
    proof -
      have "int ?k = rect_right reach - rect_left reach" by (simp add: edge_defs)
      then have "nat (rect_left reach - rect_left ar) + ?k = Suc (nat (rect_right reach - 1 - rect_left ar))"
        using ends unfolding in_rect_def by linarith
      then show ?thesis by (simp add: slot_def)
    qed
    then have inside: "?i * n + ?k * n \<le> length px"
      using slot_inside [OF px ends(2)] by (simp add: add_mult_distrib [symmetric] add.commute)
    obtain px' where px': "put_bytes (?i * n) (concat (replicate ?k v)) px = Some px'" "length px' = length px"
        "\<And>j. j * n + n \<le> length px \<Longrightarrow>
          cell n px' j = (if ?i \<le> j \<and> j < ?i + ?k then cell n (concat (replicate ?k v)) (j - ?i) else cell n px j)"
      using put_cells [of "concat (replicate ?k v)" ?k n ?i px] inside assms(4)
      by (auto simp: length_concat sum_list_replicate)
    have "cell n px' (slot ar x y') = (if y' = y \<and> in_rect reach x y' then v else cell n px (slot ar x y'))"
      if "in_rect ar x y'" for x y'
      using px'(3) [OF slot_inside [OF px that]] slot_row [OF assms(2) that yr] cell_replicate [OF assms(4)]
      by auto
    then have "touched (cell n) (packed_area n ar) ar
        (\<lambda>x' y' p. if Some y' = Some y then if in_rect reach x' y' then v else p else p) px px'"
      using px px'(2) by (auto simp: touched_def packed_area_def)
    moreover have "body y px = Some px'"
      using px'(1) inside by (simp add: body_def pixel_offset_slot [OF assms(1) ends(1)] slice_def)
    ultimately show ?thesis by blast
  qed
  show ?thesis
  proof (rule ex_touched_cong)
    show "\<exists>px'. fill_span reach ?offset n v px = Some px' \<and> touched (cell n) (packed_area n ar) ar
        (\<lambda>x' y' p. if Some y' \<in> Some ` set (rows_of reach) then if in_rect reach x' y' then v else p else p) px px'"
      unfolding fill_span_def Let_def body_def [abs_def, symmetric]
      by (rule fold_touched) (use row assms(3) in \<open>simp_all add: rows_of_def\<close>)
  qed (auto simp: set_rows_of [OF small] in_rect_def)
qed

text \<open>Text: every pixel of the reach has its byte of coverage.\<close>

fun mark_ok :: "'f mark \<Rightarrow> bool" where
  "mark_ok (TextMark at t sz c m) \<longleftrightarrow>
     length (mask_coverage m) = unat (mask_width m) * unat (mask_height m) \<and>
     uint (mask_width m) < 2147483648 \<and> uint (mask_height m) < 2147483648"
| "mark_ok _ \<longleftrightarrow> True"

lemma glyph_index:
  assumes "mark_ok (TextMark at t sz c m)"
    and "in_rect \<lparr>rect_x = fst at, rect_y = snd at, rect_width = mask_width m, rect_height = mask_height m\<rparr> x y"
  shows "get (mask_coverage m)
    (i32_offset y (sint (snd at)) * unat (mask_width m) + i32_offset x (sint (fst at))) = Some (glyph_at at m x y)"
proof -
  let ?r = "\<lparr>rect_x = fst at, rect_y = snd at, rect_width = mask_width m, rect_height = mask_height m\<rparr>"
  have "0 \<le> x - sint (fst at)" "x - sint (fst at) < 2147483648"
    "0 \<le> y - sint (snd at)" "y - sint (snd at) < 2147483648"
    using assms by (auto simp: in_rect_def edge_defs)
  moreover have "nat (y - sint (snd at)) * unat (mask_width m) + nat (x - sint (fst at)) < length (mask_coverage m)"
    using slot_less [OF assms(2)] assms(1) by (simp add: slot_def edge_defs)
  ultimately show ?thesis by (simp add: i32_offset_eq get_def glyph_at_def)
qed

definition glyph_ink :: "'f float_ops \<Rightarrow> bytes \<Rightarrow> frame_alpha \<Rightarrow> u8 \<Rightarrow> bytes \<Rightarrow> bytes" where
  "glyph_ink F ink al v p = (if 0 < v then blend_over F ink (fdiv F (fu8 F v) (fnum F 255 1)) al p else p)"

lemma text_pixel_touched:
  assumes "area_ok ar" "in_rect ar x y" "packed_area 4 ar px" "mark_ok (TextMark at t sz c m)"
    and "in_rect \<lparr>rect_x = fst at, rect_y = snd at, rect_width = mask_width m, rect_height = mask_height m\<rparr> x y"
  shows "\<exists>px'. text_pixel F (pixel_offset ar (unat (rect_width ar) * 4) 4) at m ink al x y px = Some px' \<and>
    touched (cell 4) (packed_area 4 ar) ar
      (\<lambda>x' y' p. if x' = x \<and> y' = y then glyph_ink F ink al (glyph_at at m x' y') p else p) px px'"
proof (cases "0 < glyph_at at m x y")
  case True
  let ?f = "blend_over F ink (fdiv F (fu8 F (glyph_at at m x y)) (fnum F 255 1)) al"
  have "\<exists>px'. change_pixel (slot ar x y * 4) ?f px = Some px' \<and> touched (cell 4) (packed_area 4 ar) ar
      (\<lambda>x' y' p. if x' = x \<and> y' = y then ?f p else p) px px'"
    by (rule change_pixel_touched) (simp_all add: assms)
  then have "\<exists>px'. change_pixel (slot ar x y * 4) ?f px = Some px' \<and> touched (cell 4) (packed_area 4 ar) ar
      (\<lambda>x' y' p. if x' = x \<and> y' = y then glyph_ink F ink al (glyph_at at m x' y') p else p) px px'"
    by (rule ex_touched_cong) (simp add: glyph_ink_def True)
  then show ?thesis
    by (simp add: text_pixel_def glyph_index [OF assms(4,5)] True pixel_offset_slot assms(1,2))
next
  case False
  then show ?thesis
    using assms(3) by (simp add: text_pixel_def glyph_index [OF assms(4,5)] touched_def glyph_ink_def)
qed

text \<open>A stroke's coverage: the largest any segment that visits the pixel gives it.\<close>

lemma raise_cover_touched:
  assumes "in_rect ar x y" "length c = unat (rect_width ar) * unat (rect_height ar)"
  shows "\<exists>c'. raise_cover F rad ar s x y c = Some c' \<and>
    touched (!) (\<lambda>c. length c = unat (rect_width ar) * unat (rect_height ar)) ar
      (\<lambda>x' y' v. if x' = x \<and> y' = y then
         (if flt F v (segment_cover F rad s x' y') then segment_cover F rad s x' y' else v) else v) c c'"
  using slot_less [OF assms(1)] slot_less [where ar = ar] slot_inject [OF _ assms(1)] assms
  by (auto simp: raise_cover_def Let_def get_def slot_def [symmetric] touched_def nth_list_update)

lemma segment_touched:
  assumes "length c = unat (rect_width ar) * unat (rect_height ar)" "segment_span F rad s = (left, upper, right, bottom)"
  shows "\<exists>c'. fold_opt (\<lambda>y. fold_opt (\<lambda>x. raise_cover F rad ar s x y)
      [max left (rect_left ar)..min right (rect_right ar) - 1])
      [max upper (rect_top ar)..min bottom (rect_bottom ar) - 1] c = Some c' \<and>
    touched (!) (\<lambda>c. length c = unat (rect_width ar) * unat (rect_height ar)) ar (\<lambda>x y. widest F rad x y s) c c'"
proof (rule ex_touched_cong)
  let ?xs = "[max left (rect_left ar)..min right (rect_right ar) - 1]"
  let ?ys = "[max upper (rect_top ar)..min bottom (rect_bottom ar) - 1]"
  show "\<exists>c'. fold_opt (\<lambda>y. fold_opt (\<lambda>x. raise_cover F rad ar s x y) ?xs) ?ys c = Some c' \<and>
    touched (!) (\<lambda>c. length c = unat (rect_width ar) * unat (rect_height ar)) ar
      (\<lambda>x y v. if Some x \<in> Some ` set ?xs \<and> Some y \<in> Some ` set ?ys then
        (if flt F v (segment_cover F rad s x y) then segment_cover F rad s x y else v) else v) c c'"
  proof (rule loops_touched)
    fix a b and c :: "'a list"
    assume "a \<in> set ?xs" "b \<in> set ?ys" and c: "length c = unat (rect_width ar) * unat (rect_height ar)"
    then have "in_rect ar a b" by (simp add: in_rect_def)
    from raise_cover_touched [OF this c, of F rad s]
    show "\<exists>c'. raise_cover F rad ar s a b c = Some c' \<and>
      touched (!) (\<lambda>c. length c = unat (rect_width ar) * unat (rect_height ar)) ar
        (\<lambda>x y v. if Some x = Some a \<and> Some y = Some b then
          (if flt F v (segment_cover F rad s x y) then segment_cover F rad s x y else v) else v) c c'"
      by simp
  qed (simp_all add: assms(1))
  fix x y c
  assume "in_rect ar x y"
  then show "(if Some x \<in> Some ` set ?xs \<and> Some y \<in> Some ` set ?ys then
        (if flt F c (segment_cover F rad s x y) then segment_cover F rad s x y else c) else c) = widest F rad x y s c"
    by (auto simp: widest_def assms(2) in_rect_def inj_image_mem_iff)
qed

lemma segments_touched:
  assumes "length c = unat (rect_width ar) * unat (rect_height ar)"
  shows "\<exists>c'. fold_opt (\<lambda>s. case segment_span F rad s of (left, upper, right, bottom) \<Rightarrow>
        fold_opt (\<lambda>y. fold_opt (\<lambda>x. raise_cover F rad ar s x y)
            [max left (rect_left ar)..min right (rect_right ar) - 1])
          [max upper (rect_top ar)..min bottom (rect_bottom ar) - 1]) ss c = Some c' \<and>
    touched (!) (\<lambda>c. length c = unat (rect_width ar) * unat (rect_height ar)) ar
      (\<lambda>x y. fold (widest F rad x y) ss) c c'"
  using assms
proof (induction ss arbitrary: c)
  case Nil
  then show ?case by (simp add: touched_def)
next
  case (Cons s ss)
  obtain left upper right bottom where span: "segment_span F rad s = (left, upper, right, bottom)"
    by (rule prod_cases4)
  obtain c1 where c1: "fold_opt (\<lambda>y. fold_opt (\<lambda>x. raise_cover F rad ar s x y)
        [max left (rect_left ar)..min right (rect_right ar) - 1])
        [max upper (rect_top ar)..min bottom (rect_bottom ar) - 1] c = Some c1"
      "touched (!) (\<lambda>c. length c = unat (rect_width ar) * unat (rect_height ar)) ar (\<lambda>x y. widest F rad x y s) c c1"
    using segment_touched [OF Cons.prems span] by blast
  then have "length c1 = unat (rect_width ar) * unat (rect_height ar)" by (simp add: touched_def)
  from Cons.IH [OF this] c1 show ?case
    by (auto simp: span dest: touched_trans)
qed

lemma stroke_coverage_eq:
  "\<exists>c. stroke_coverage F ps w ar = Some c \<and> length c = unat (rect_width ar) * unat (rect_height ar) \<and>
    (\<forall>x y. in_rect ar x y \<longrightarrow> c ! slot ar x y = stroke_cover F ps w x y)"
proof -
  let ?zeros = "replicate (unat (rect_width ar) * unat (rect_height ar)) (fnum F 0 1)"
  have "length ?zeros = unat (rect_width ar) * unat (rect_height ar)" by simp
  from segments_touched [OF this, of F "fdiv F w (fnum F 2 1)" "segments ps"]
  show ?thesis
    by (auto simp: stroke_coverage_def stroke_cover_def touched_def slot_less)
qed

definition stroke_dab :: "'f float_ops \<Rightarrow> stroke_style \<Rightarrow> bytes \<Rightarrow> frame_alpha \<Rightarrow> 'f \<Rightarrow> bytes \<Rightarrow> bytes" where
  "stroke_dab F st ink al cover p =
     (if fle F cover (fnum F 0 1) then p else stroke_ink F st ink cover al p)"

definition index_from :: "int \<Rightarrow> int \<Rightarrow> int \<Rightarrow> nat option" where
  "index_from lo hi x = (if lo \<le> x \<and> x < hi then Some (nat (x - lo)) else None)"

lemma index_from_Some: "index_from lo hi x = Some i \<longleftrightarrow> x = lo + int i \<and> x < hi"
  by (auto simp: index_from_def)

lemma index_from_upto: "int n = hi - lo \<Longrightarrow> index_from lo hi x \<in> Some ` set [0..<n] \<longleftrightarrow> lo \<le> x \<and> x < hi"
  by (auto simp: index_from_def image_iff)

lemma stroke_pixel_touched:
  assumes "area_ok ar" "intersection b ar = Some reach" "packed_area 4 ar px"
    and cov: "length cov = unat (rect_width reach) * unat (rect_height reach)"
      "\<forall>x y. in_rect reach x y \<longrightarrow> cov ! slot reach x y = cover x y"
    and xy: "x < unat (rect_width reach)" "y < unat (rect_height reach)"
  shows "\<exists>px'. stroke_pixel F reach (pixel_offset ar (unat (rect_width ar) * 4) 4) cov st ink al x y px = Some px' \<and>
    touched (cell 4) (packed_area 4 ar) ar
      (\<lambda>x' y' p. if index_from (rect_left reach) (rect_right reach) x' = Some x \<and>
           index_from (rect_top reach) (rect_bottom reach) y' = Some y
         then stroke_dab F st ink al (cover x' y') p else p) px px'"
proof -
  let ?x = "rect_left reach + int x" and ?y = "rect_top reach + int y"
  have sides: "int (unat (rect_width reach)) = rect_right reach - rect_left reach"
    "int (unat (rect_height reach)) = rect_bottom reach - rect_top reach"
    by (simp_all add: edge_defs)
  have edge: "?x < rect_right reach" "?y < rect_bottom reach" using xy sides by linarith+
  then have here: "in_rect reach ?x ?y" by (simp add: in_rect_def)
  then have ar: "in_rect ar ?x ?y" using intersection_area(1) [OF assms(2)] by blast
  have small: "as_i32 ?x = ?x" "as_i32 ?y = ?y"
    using edge intersection_area(2,3) [OF assms(2)] assms(1) edge_bounds [of reach]
    by (auto simp: as_i32_def area_ok_def sint_i32_of_int simp del: of_int_add)
  have keys: "index_from (rect_left reach) (rect_right reach) x' = Some x \<and>
      index_from (rect_top reach) (rect_bottom reach) y' = Some y \<longleftrightarrow> x' = ?x \<and> y' = ?y" for x' y'
    using edge by (auto simp: index_from_Some)
  have "slot reach ?x ?y = y * unat (rect_width reach) + x" by (simp add: slot_def)
  with slot_less [OF here] cov(2) here
  have "y * unat (rect_width reach) + x < length cov" "cov ! (y * unat (rect_width reach) + x) = cover ?x ?y"
    using cov(1) by metis+
  then have look: "get cov (y * unat (rect_width reach) + x) = Some (cover ?x ?y)"
    by (simp add: get_def)
  show ?thesis
  proof (cases "fle F (cover ?x ?y) (fnum F 0 1)")
    case True
    then show ?thesis
      using assms(3) by (auto simp: stroke_pixel_def look touched_def keys stroke_dab_def)
  next
    case False
    let ?f = "stroke_ink F st ink (cover ?x ?y) al"
    have "\<exists>px'. change_pixel (slot ar ?x ?y * 4) ?f px = Some px' \<and> touched (cell 4) (packed_area 4 ar) ar
        (\<lambda>x' y' p. if x' = ?x \<and> y' = ?y then ?f p else p) px px'"
      by (rule change_pixel_touched) (simp_all add: assms(3) ar)
    then have "\<exists>px'. change_pixel (slot ar ?x ?y * 4) ?f px = Some px' \<and> touched (cell 4) (packed_area 4 ar) ar
        (\<lambda>x' y' p. if x' = ?x \<and> y' = ?y then stroke_dab F st ink al (cover x' y') p else p) px px'"
      by (rule ex_touched_cong) (simp add: stroke_dab_def False)
    then show ?thesis
      by (simp add: stroke_pixel_def look False small pixel_offset_slot [OF assms(1) ar] keys)
  qed
qed

lemma stroke_repaints:
  assumes "area_ok ar" "intersection b ar = Some reach" "packed_area 4 ar px"
    and cov: "length cov = unat (rect_width reach) * unat (rect_height reach)"
      "\<forall>x y. in_rect reach x y \<longrightarrow> cov ! slot reach x y = cover x y"
  shows "repaints 4 ar reach (\<lambda>x y. stroke_dab F st ink al (cover x y))
    (fold_opt (\<lambda>y. fold_opt (\<lambda>x.
        stroke_pixel F reach (pixel_offset ar (unat (rect_width ar) * 4) 4) cov st ink al x y)
      [0..<unat (rect_width reach)]) [0..<unat (rect_height reach)] px) px"
proof (rule ex_touched_cong)
  let ?xs = "[0..<unat (rect_width reach)]" and ?ys = "[0..<unat (rect_height reach)]"
  let ?kx = "index_from (rect_left reach) (rect_right reach)"
  let ?ky = "index_from (rect_top reach) (rect_bottom reach)"
  show "\<exists>px'. fold_opt (\<lambda>y. fold_opt (\<lambda>x.
        stroke_pixel F reach (pixel_offset ar (unat (rect_width ar) * 4) 4) cov st ink al x y) ?xs) ?ys px = Some px' \<and>
    touched (cell 4) (packed_area 4 ar) ar (\<lambda>x y p. if ?kx x \<in> Some ` set ?xs \<and> ?ky y \<in> Some ` set ?ys
      then stroke_dab F st ink al (cover x y) p else p) px px'"
  proof (rule loops_touched)
    fix x y and px :: bytes
    assume "x \<in> set ?xs" "y \<in> set ?ys" "packed_area 4 ar px"
    then show "\<exists>px'. stroke_pixel F reach (pixel_offset ar (unat (rect_width ar) * 4) 4) cov st ink al x y px = Some px' \<and>
      touched (cell 4) (packed_area 4 ar) ar (\<lambda>x' y' p. if ?kx x' = Some x \<and> ?ky y' = Some y
        then stroke_dab F st ink al (cover x' y') p else p) px px'"
      by (intro stroke_pixel_touched [OF assms(1,2) _ cov]) simp_all
  qed (simp_all add: assms(3))
  have "int (unat (rect_width reach)) = rect_right reach - rect_left reach"
    "int (unat (rect_height reach)) = rect_bottom reach - rect_top reach"
    by (simp_all add: edge_defs)
  note keys = this [THEN index_from_upto]
  show "(if ?kx x \<in> Some ` set ?xs \<and> ?ky y \<in> Some ` set ?ys
      then stroke_dab F st ink al (cover x y) p else p) =
    (if in_rect reach x y then stroke_dab F st ink al (cover x y) p else p)" for x y p
    unfolding keys by (auto simp: in_rect_def)
qed

text \<open>All of \<open>paint_mark\<close>: it does not panic, and each pixel of the area becomes \<open>mark_pixel\<close> of it.\<close>

lemma eight_bit_repaints:
  assumes "area_ok ar" "mark_ok m" "mark_bounds F m = Some b" "intersection b ar = Some reach" "packed_area 4 ar px"
  shows "repaints 4 ar reach (eight_bit_pixel F m bf al)
    (paint_eight_bit F m reach (pixel_offset ar (unat (rect_width ar) * 4) 4) bf al px) px"
proof (cases m)
  case (Redaction r)
  have "repaints 4 ar reach (\<lambda>_ _ _. REDACTION_EIGHT_BIT)
      (fill_span reach (pixel_offset ar (unat (rect_width ar) * 4) 4) 4 REDACTION_EIGHT_BIT px) px"
    by (rule fill_repaints [OF assms(1,4,5)]) (simp add: REDACTION_EIGHT_BIT_def)
  then show ?thesis unfolding Redaction paint_eight_bit.simps eight_bit_pixel.simps .
next
  case (Rectangle r c w rad)
  show ?thesis
    using covered_area_repaints [OF assms(1,4,5), of F "ordered c bf" al "box_outline_coverage F r (fint F (uint w)) rad"]
    unfolding Rectangle paint_eight_bit.simps eight_bit_pixel.simps .
next
  case (Stroke ps c w st)
  obtain cov where cov: "stroke_coverage F ps w reach = Some cov"
      "length cov = unat (rect_width reach) * unat (rect_height reach)"
      "\<forall>x y. in_rect reach x y \<longrightarrow> cov ! slot reach x y = stroke_cover F ps w x y"
    using stroke_coverage_eq [of F ps w reach] by blast
  from stroke_repaints [OF assms(1,4,5) cov(2,3), of F st "ordered c bf" al]
  show ?thesis
    unfolding Stroke paint_eight_bit.simps eight_bit_pixel.simps cov(1) Let_def stroke_dab_def by simp
next
  case (TextMark at t sz c g)
  let ?r = "\<lparr>rect_x = fst at, rect_y = snd at, rect_width = mask_width g, rect_height = mask_height g\<rparr>"
  have b: "b = ?r" using assms(3) by (simp add: TextMark nonempty_rect_def split: if_splits)
  have small: "rect_right reach < 2147483648" "rect_bottom reach < 2147483648"
    using intersection_area(2,3) [OF assms(4)] assms(1) by (auto simp: area_ok_def)
  have "repaints 4 ar reach (\<lambda>x y. glyph_ink F (ordered c bf) al (glyph_at at g x y))
      (each_pixel reach (text_pixel F (pixel_offset ar (unat (rect_width ar) * 4) 4) at g (ordered c bf) al) px) px"
  proof (rule each_pixel_touched)
    show "packed_area 4 ar px" "rect_right reach < 2147483648" "rect_bottom reach < 2147483648"
      using assms(5) small by simp_all
    fix x y and px :: bytes
    assume "in_rect reach x y" and px: "packed_area 4 ar px"
    then have "in_rect ar x y" "in_rect ?r x y"
      using intersection_area(1) [OF assms(4)] b by blast+
    then show "\<exists>px'. text_pixel F (pixel_offset ar (unat (rect_width ar) * 4) 4) at g (ordered c bf) al x y px = Some px' \<and>
      touched (cell 4) (packed_area 4 ar) ar (\<lambda>x' y' p. if x' = x \<and> y' = y
        then glyph_ink F (ordered c bf) al (glyph_at at g x' y') p else p) px px'"
      using text_pixel_touched [OF assms(1) _ px, of x y at t sz c g F "ordered c bf" al] assms(2)
      by (simp add: TextMark)
  qed
  then show ?thesis
    unfolding TextMark paint_eight_bit.simps eight_bit_pixel.simps Let_def glyph_ink_def .
next
  case (Arrow start stop c w)
  with assms(3) obtain shape where shape: "arrow_shape_new F start stop w = Some shape"
    by (cases "arrow_shape_new F start stop w") auto
  show ?thesis
    using covered_area_repaints [OF assms(1,4,5), of F "ordered c bf" al "\<lambda>x y. arrow_coverage F shape (pixel_middle F x y)"]
    unfolding Arrow paint_eight_bit.simps eight_bit_pixel.simps shape option.case .
qed

lemma paint_mark_pixels:
  assumes "area_ok ar" "mark_ok m" "packed_area (unat (bytes_per_pixel fmt)) ar px"
  shows "\<exists>px'. paint_mark F m (unat (rect_width ar) * unat (bytes_per_pixel fmt)) ar fmt al px = Some px' \<and>
    touched (cell (unat (bytes_per_pixel fmt))) (packed_area (unat (bytes_per_pixel fmt)) ar) ar
      (mark_pixel F m fmt al) px px'"
proof (cases "mark_bounds F m")
  case None
  then show ?thesis using assms(3) by (simp add: paint_mark_def touched_def mark_pixel_def)
next
  case (Some b)
  show ?thesis
  proof (cases "intersection b ar")
    case None
    then have "\<not> (in_rect b x y \<and> in_rect ar x y)" for x y
      unfolding intersection_None_iff in_rect_def by linarith
    then show ?thesis
      using assms(3) by (auto simp: paint_mark_def Some None touched_def mark_pixel_def)
  next
    case reach: (Some reach)
    note within = intersection_area(1) [OF reach]
    show ?thesis
    proof (cases "encoding fmt")
      case (EightBitRgba bf)
      then have four: "unat (bytes_per_pixel fmt) = 4" by (cases fmt) simp_all
      have "repaints 4 ar reach (eight_bit_pixel F m bf al)
          (paint_eight_bit F m reach (pixel_offset ar (unat (rect_width ar) * 4) 4) bf al px) px"
        by (rule eight_bit_repaints [OF assms(1,2) Some reach]) (use assms(3) four in simp)
      then have "\<exists>px'. paint_eight_bit F m reach (pixel_offset ar (unat (rect_width ar) * 4) 4) bf al px = Some px' \<and>
          touched (cell 4) (packed_area 4 ar) ar (mark_pixel F m fmt al) px px'"
        by (rule ex_touched_cong) (simp add: mark_pixel_def Some within EightBitRgba)
      then show ?thesis by (simp add: paint_mark_def Some reach four EightBitRgba)
    next
      case HalfFloatRgba
      then have eight: "unat (bytes_per_pixel fmt) = 8" by (cases fmt) simp_all
      show ?thesis
      proof (cases "\<exists>r. m = Redaction r")
        case True
        have "repaints 8 ar reach (\<lambda>_ _ _. REDACTION_HALF_FLOAT)
            (fill_span reach (pixel_offset ar (unat (rect_width ar) * 8) 8) 8 REDACTION_HALF_FLOAT px) px"
          by (rule fill_repaints [OF assms(1) reach]) (use assms(3) eight in \<open>simp_all add: REDACTION_HALF_FLOAT_def\<close>)
        then have "\<exists>px'. fill_span reach (pixel_offset ar (unat (rect_width ar) * 8) 8) 8 REDACTION_HALF_FLOAT px = Some px' \<and>
            touched (cell 8) (packed_area 8 ar) ar (mark_pixel F m fmt al) px px'"
          by (rule ex_touched_cong) (use True Some in \<open>auto simp: mark_pixel_def within HalfFloatRgba\<close>)
        then show ?thesis using True Some by (auto simp: paint_mark_def reach eight HalfFloatRgba)
      next
        case False
        then have other: "(case m of Redaction _ \<Rightarrow> a | _ \<Rightarrow> b) = b" for a b :: 'z
          by (cases m) auto
        have "paint_mark F m (unat (rect_width ar) * unat (bytes_per_pixel fmt)) ar fmt al px = Some px"
          by (simp add: paint_mark_def Some reach HalfFloatRgba Let_def other)
        moreover have "mark_pixel F m fmt al x y p = p" for x y p
          by (simp add: mark_pixel_def Some HalfFloatRgba other)
        ultimately show ?thesis using assms(3) by (simp add: touched_def)
      qed
    qed
  qed
qed

end
