(* ===== verification/CaptureEdit.thy ===== *)
theory CaptureEdit
  imports Marks Timeline
begin

section \<open>Editing a capture\<close>

text \<open>
  \<open>Edit\<close> of \<open>crates/captastic-core/src/edit.rs\<close>: a capture, its crop and marks, the undo and redo
  stacks, and \<open>render\<close>, the image that is published. A stack is a list whose head is the last step
  pushed. A \<open>None\<close> is a panic (an index, an insertion or a removal out of range); \<open>edit_ok\<close> is
  what every sequence of operations keeps, and with it there is none.
\<close>

datatype 'f edit_change =
    CropStep rect rect
  | MarkStep "'f mark"
  | ReplaceStep nat "'f mark" "'f mark option"

record 'f edit =
  ed_source :: cpu_frame
  ed_crop :: rect
  ed_marks :: "'f mark list"
  ed_undo :: "'f edit_change list"
  ed_redo :: "'f edit_change list"

definition full_bounds :: "cpu_frame \<Rightarrow> rect" where
  "full_bounds f = \<lparr>rect_x = 0, rect_y = 0, rect_width = width f, rect_height = height f\<rparr>"

definition edit_new :: "cpu_frame \<Rightarrow> 'f edit" where
  "edit_new f = \<lparr>ed_source = f, ed_crop = full_bounds f, ed_marks = [], ed_undo = [], ed_redo = []\<rparr>"

definition ed_bounds :: "'f edit \<Rightarrow> rect" where
  "ed_bounds e = full_bounds (ed_source e)"

subsection \<open>Steps\<close>

fun apply_change :: "'f edit_change \<Rightarrow> 'f edit \<Rightarrow> 'f edit option" where
  "apply_change (CropStep b a) e = Some (e\<lparr>ed_crop := a\<rparr>)"
| "apply_change (MarkStep m) e = Some (e\<lparr>ed_marks := ed_marks e @ [m]\<rparr>)"
| "apply_change (ReplaceStep i b (Some m)) e =
     (if i < length (ed_marks e) then Some (e\<lparr>ed_marks := (ed_marks e)[i := m]\<rparr>) else None)"
| "apply_change (ReplaceStep i b None) e =
     (if i < length (ed_marks e) then Some (e\<lparr>ed_marks := take i (ed_marks e) @ drop (i + 1) (ed_marks e)\<rparr>)
      else None)"

definition record_change :: "'f edit_change \<Rightarrow> 'f edit \<Rightarrow> 'f edit option" where
  "record_change s e = map_option (\<lambda>e. e\<lparr>ed_undo := s # ed_undo e, ed_redo := []\<rparr>) (apply_change s e)"

fun take_back :: "'f edit_change \<Rightarrow> 'f edit \<Rightarrow> 'f edit option" where
  "take_back (CropStep b a) e = Some (e\<lparr>ed_crop := b\<rparr>)"
| "take_back (MarkStep m) e = Some (e\<lparr>ed_marks := butlast (ed_marks e)\<rparr>)"
| "take_back (ReplaceStep i b (Some a)) e =
     (if i < length (ed_marks e) then Some (e\<lparr>ed_marks := (ed_marks e)[i := b]\<rparr>) else None)"
| "take_back (ReplaceStep i b None) e =
     (if i \<le> length (ed_marks e) then Some (e\<lparr>ed_marks := take i (ed_marks e) @ b # drop i (ed_marks e)\<rparr>)
      else None)"

definition undo_edit :: "'f edit \<Rightarrow> (bool \<times> 'f edit) option" where
  "undo_edit e =
     (case ed_undo e of
        [] \<Rightarrow> Some (False, e)
      | s # rest \<Rightarrow> map_option (\<lambda>e. (True, e\<lparr>ed_redo := s # ed_redo e\<rparr>)) (take_back s (e\<lparr>ed_undo := rest\<rparr>)))"

definition redo_edit :: "'f edit \<Rightarrow> (bool \<times> 'f edit) option" where
  "redo_edit e =
     (case ed_redo e of
        [] \<Rightarrow> Some (False, e)
      | s # rest \<Rightarrow> map_option (\<lambda>e. (True, e\<lparr>ed_undo := s # ed_undo e\<rparr>)) (apply_change s (e\<lparr>ed_redo := rest\<rparr>)))"

subsection \<open>Operations\<close>

definition set_crop :: "rect \<Rightarrow> 'f edit \<Rightarrow> (bool \<times> 'f edit) option" where
  "set_crop r e =
     (case intersection r (ed_bounds e) of
        None \<Rightarrow> Some (False, e)
      | Some after \<Rightarrow>
          if after = ed_crop e then Some (False, e)
          else map_option (Pair True) (record_change (CropStep (ed_crop e) after) e))"

definition drawable :: "'f float_ops \<Rightarrow> 'f mark \<Rightarrow> bool" where
  "drawable F m =
     (case m of
        Rectangle r c w b \<Rightarrow> 0 < w
      | Stroke ps c w st \<Rightarrow> flt F (fnum F 0 1) w
      | Arrow a b c w \<Rightarrow> True
      | TextMark at t sz c g \<Rightarrow> \<not> is_blank g
      | Redaction r \<Rightarrow> True)"

definition eight_bit :: "pixel_format \<Rightarrow> bool" where
  "eight_bit fmt = (case encoding fmt of EightBitRgba _ \<Rightarrow> True | HalfFloatRgba \<Rightarrow> False)"

definition accept :: "'f float_ops \<Rightarrow> 'f edit \<Rightarrow> 'f mark \<Rightarrow> 'f mark option" where
  "accept F e m =
     (case m of
        Redaction r \<Rightarrow> map_option Redaction (intersection r (ed_bounds e))
      | drawn \<Rightarrow>
          let visible = (Option.bind (mark_bounds F drawn) (\<lambda>reach. intersection reach (ed_bounds e)) \<noteq> None)
          in if \<not> eight_bit (frame_format (ed_source e)) \<or> \<not> visible \<or> \<not> drawable F drawn then None
             else Some drawn)"

definition add_mark :: "'f float_ops \<Rightarrow> 'f mark \<Rightarrow> 'f edit \<Rightarrow> (bool \<times> 'f edit) option" where
  "add_mark F m e =
     (case accept F e m of
        None \<Rightarrow> Some (False, e)
      | Some m \<Rightarrow> map_option (Pair True) (record_change (MarkStep m) e))"

definition redact :: "'f float_ops \<Rightarrow> rect \<Rightarrow> 'f edit \<Rightarrow> (bool \<times> 'f edit) option" where
  "redact F r e = add_mark F (Redaction r) e"

definition replace_mark ::
  "'f float_ops \<Rightarrow> nat \<Rightarrow> 'f mark option \<Rightarrow> 'f edit \<Rightarrow> (bool \<times> 'f edit) option" where
  "replace_mark F i m e =
     (case get (ed_marks e) i of
        None \<Rightarrow> Some (False, e)
      | Some before \<Rightarrow>
          (case m of
             None \<Rightarrow> map_option (Pair True) (record_change (ReplaceStep i before None) e)
           | Some m \<Rightarrow>
               (case accept F e m of
                  None \<Rightarrow> Some (False, e)
                | Some m \<Rightarrow>
                    if mark_eq F m before then Some (False, e)
                    else map_option (Pair True) (record_change (ReplaceStep i before (Some m)) e))))"

definition last_changed :: "'f edit \<Rightarrow> nat option" where
  "last_changed e =
     (case ed_undo e of
        MarkStep m # _ \<Rightarrow> if length (ed_marks e) = 0 then None else Some (length (ed_marks e) - 1)
      | ReplaceStep i b (Some a) # _ \<Rightarrow> Some i
      | _ \<Rightarrow> None)"

definition can_undo :: "'f edit \<Rightarrow> bool" where
  "can_undo e \<longleftrightarrow> ed_undo e \<noteq> []"

definition can_redo :: "'f edit \<Rightarrow> bool" where
  "can_redo e \<longleftrightarrow> ed_redo e \<noteq> []"

definition is_modified :: "'f edit \<Rightarrow> bool" where
  "is_modified e \<longleftrightarrow> ed_crop e \<noteq> ed_bounds e \<or> ed_marks e \<noteq> []"

subsection \<open>\<open>render\<close>\<close>

text \<open>
  The rows of the crop are copied as slices (\<open>chunks_exact_mut\<close> panics on an empty row), the marks
  are painted on them in order, and the result becomes a frame with the capture's metadata.
\<close>

definition render :: "'f float_ops \<Rightarrow> 'f edit \<Rightarrow> (frame_error + cpu_frame) option" where
  "render F e =
     (let source = ed_source e; bpp = unat (bytes_per_pixel (frame_format source)); cr = ed_crop e;
          row_bytes = unat (rect_width cr) * bpp;
          left = as_usize (sint (rect_x cr)) * bpp
      in if row_bytes = 0 then None
         else
           Option.bind (slice_rows (pixels source) (unat (stride_bytes source)) left row_bytes
               (map (\<lambda>row. as_usize (sint (rect_y cr)) + row) [0..<unat (rect_height cr)])) (\<lambda>px.
           Option.bind (fold_opt (\<lambda>m. paint_mark F m row_bytes cr (frame_format source) (alpha source))
               (ed_marks e) px) (\<lambda>px.
             let at = source_rect (metadata source);
                 meta = (metadata source)\<lparr>source_rect :=
                     \<lparr>rect_x = clamp_to_i32 (sint (rect_x at) + sint (rect_x cr)),
                      rect_y = clamp_to_i32 (sint (rect_y at) + sint (rect_y cr)),
                      rect_width = rect_width cr, rect_height = rect_height cr\<rparr>,
                   copy_count := sat_inc (copy_count (metadata source)), pool_slot := None\<rparr>
             in Some (try_bind (cpu_frame_new px (rect_width cr) (rect_height cr) (of_nat row_bytes)
                  (frame_format source) (origin source) (frame_color_space source) meta)
                  (\<lambda>f. Inr (with_alpha f (alpha source)))))))"

subsection \<open>What an editor does\<close>

datatype 'f edit_call =
    SetCrop rect
  | AddMark "'f mark"
  | ReplaceMark nat "'f mark option"
  | UndoCall
  | RedoCall

fun perform :: "'f float_ops \<Rightarrow> 'f edit_call \<Rightarrow> 'f edit \<Rightarrow> (bool \<times> 'f edit) option" where
  "perform F (SetCrop r) e = set_crop r e"
| "perform F (AddMark m) e = add_mark F m e"
| "perform F (ReplaceMark i m) e = replace_mark F i m e"
| "perform F UndoCall e = undo_edit e"
| "perform F RedoCall e = redo_edit e"

text \<open>The masks an editor lays have the bytes their sides say, and sides \<open>i32\<close> coordinates reach.\<close>

fun call_ok :: "'f edit_call \<Rightarrow> bool" where
  "call_ok (AddMark m) \<longleftrightarrow> mark_ok m"
| "call_ok (ReplaceMark i (Some m)) \<longleftrightarrow> mark_ok m"
| "call_ok _ \<longleftrightarrow> True"

inductive edited :: "'f float_ops \<Rightarrow> cpu_frame \<Rightarrow> 'f edit \<Rightarrow> bool" for F f where
  edited_new: "edited F f (edit_new f)"
| edited_call: "edited F f e \<Longrightarrow> call_ok c \<Longrightarrow> perform F c e = Some (changed, e') \<Longrightarrow> edited F f e'"

subsection \<open>History\<close>

text \<open>
  What an edit shows is its crop and marks. \<open>makes s a b\<close>: the step \<open>s\<close> leads from \<open>a\<close> to \<open>b\<close>.
  \<open>past\<close> and \<open>future\<close>: the undo stack leads here from the capture as taken, and the redo stack
  leads on from here, through what \<open>P\<close> holds of throughout.
\<close>

type_synonym 'f edit_view = "rect \<times> 'f mark list"

definition view :: "'f edit \<Rightarrow> 'f edit_view" where
  "view e = (ed_crop e, ed_marks e)"

fun makes :: "'f edit_change \<Rightarrow> 'f edit_view \<Rightarrow> 'f edit_view \<Rightarrow> bool" where
  "makes (CropStep b a) (c, ms) v \<longleftrightarrow> c = b \<and> v = (a, ms)"
| "makes (MarkStep m) (c, ms) v \<longleftrightarrow> v = (c, ms @ [m])"
| "makes (ReplaceStep i b (Some m)) (c, ms) v \<longleftrightarrow> i < length ms \<and> ms ! i = b \<and> v = (c, ms[i := m])"
| "makes (ReplaceStep i b None) (c, ms) v \<longleftrightarrow>
     i < length ms \<and> ms ! i = b \<and> v = (c, take i ms @ drop (i + 1) ms)"

fun past :: "('f edit_view \<Rightarrow> bool) \<Rightarrow> 'f edit_view \<Rightarrow> 'f edit_change list \<Rightarrow> 'f edit_view \<Rightarrow> bool" where
  "past P start [] v \<longleftrightarrow> v = start"
| "past P start (s # ss) v \<longleftrightarrow> (\<exists>u. past P start ss u \<and> P u \<and> makes s u v)"

fun future :: "('f edit_view \<Rightarrow> bool) \<Rightarrow> 'f edit_view \<Rightarrow> 'f edit_change list \<Rightarrow> bool" where
  "future P v [] \<longleftrightarrow> True"
| "future P v (s # ss) \<longleftrightarrow> (\<exists>u. makes s v u \<and> P u \<and> future P u ss)"

lemma past_ConsI: "past P start ss u \<Longrightarrow> P u \<Longrightarrow> makes s u v \<Longrightarrow> past P start (s # ss) v"
  unfolding past.simps by blast

lemma future_ConsI: "makes s v u \<Longrightarrow> P u \<Longrightarrow> future P u ss \<Longrightarrow> future P v (s # ss)"
  unfolding future.simps by blast

lemma makes_apply:
  assumes "makes s (view e) v"
  shows "apply_change s e = Some (e\<lparr>ed_crop := fst v, ed_marks := snd v\<rparr>)"
  using assms by (cases s; cases e) (auto simp: view_def split: option.split elim: makes.elims)

lemma apply_makes:
  assumes "apply_change s e = Some e'" and "\<And>b a. s = CropStep b a \<Longrightarrow> b = ed_crop e"
    and "\<And>i b a. s = ReplaceStep i b a \<Longrightarrow> get (ed_marks e) i = Some b"
  shows "makes s (view e) (view e')"
proof (cases s)
  case (ReplaceStep i b a)
  then show ?thesis
    using assms by (cases a) (auto simp: view_def get_def split: if_splits)
qed (use assms in \<open>auto simp: view_def\<close>)

lemma makes_take_back:
  assumes "makes s v (view e)"
  shows "take_back s e = Some (e\<lparr>ed_crop := fst v, ed_marks := snd v\<rparr>)"
proof (cases s)
  case (CropStep b a)
  then show ?thesis using assms by (cases v; cases e) (auto simp: view_def)
next
  case (MarkStep m)
  then show ?thesis using assms by (cases v; cases e) (auto simp: view_def)
next
  case (ReplaceStep i b a)
  then show ?thesis
    using assms by (cases v; cases e; cases a) (auto simp: view_def id_take_nth_drop [symmetric] Cons_nth_drop_Suc)
qed

lemma makes_unique: "makes s v u \<Longrightarrow> makes s v u' \<Longrightarrow> u = u'"
  by (cases v; cases s) (auto elim: makes.elims)

subsection \<open>What every edit keeps\<close>

text \<open>
  What the shape of an edit depends on: the capture's sides and format. \<open>shown_ok\<close> holds of the
  crop and marks, now and at every point of the history.
\<close>

definition accepts :: "'f float_ops \<Rightarrow> cpu_frame \<Rightarrow> 'f mark \<Rightarrow> bool" where
  "accepts F f m \<longleftrightarrow> mark_ok m \<and> accept F (edit_new f) m = Some m"

definition shown_ok :: "'f float_ops \<Rightarrow> cpu_frame \<Rightarrow> 'f edit_view \<Rightarrow> bool" where
  "shown_ok F f v \<longleftrightarrow> rect_within (fst v) (full_bounds f) \<and> rect_left (fst v) < rect_right (fst v) \<and>
     rect_top (fst v) < rect_bottom (fst v) \<and> (\<forall>m\<in>set (snd v). accepts F f m)"

definition edit_ok :: "'f float_ops \<Rightarrow> cpu_frame \<Rightarrow> 'f edit \<Rightarrow> bool" where
  "edit_ok F f e \<longleftrightarrow> ed_source e = f \<and> shown_ok F f (view e) \<and>
     past (shown_ok F f) (full_bounds f, []) (ed_undo e) (view e) \<and>
     future (shown_ok F f) (view e) (ed_redo e)"

lemma accept_source: "ed_source e = f \<Longrightarrow> accept F e m = accept F (edit_new f) m"
  by (simp add: accept_def ed_bounds_def edit_new_def split: mark.split)

lemma intersection_again: "intersection r b = Some t \<Longrightarrow> intersection t b = Some t"
  by (auto simp: intersection_eq_Some)

lemma accept_again:
  assumes "accept F e m = Some m'" "mark_ok m" "ed_source e = f"
  shows "accepts F f m'"
proof (cases "\<exists>r. m = Redaction r")
  case True
  then obtain r t where "m = Redaction r" "intersection r (ed_bounds e) = Some t" "m' = Redaction t"
    using assms(1) by (auto simp: accept_def)
  then show ?thesis
    using intersection_again assms(3) by (auto simp: accepts_def accept_def ed_bounds_def edit_new_def)
next
  case False
  then have "m' = m"
    using assms(1) by (cases m) (auto simp: accept_def Let_def split: if_splits)
  then show ?thesis using assms(1,2) accept_source [OF assms(3), of F m] by (simp add: accepts_def)
qed

lemma full_bounds_edges:
  "frame_ok f \<Longrightarrow> rect_left (full_bounds f) = 0 \<and> rect_top (full_bounds f) = 0 \<and>
    rect_right (full_bounds f) = int (unat (width f)) \<and> rect_bottom (full_bounds f) = int (unat (height f))"
  by (simp add: full_bounds_def edge_defs)

lemma edit_new_ok: "frame_ok f \<Longrightarrow> edit_ok F f (edit_new f)"
  using full_bounds_edges [of f]
  by (simp add: edit_ok_def edit_new_def view_def shown_ok_def frame_ok_def less_le uint_0_iff eq_commute [of 0])

text \<open>A step that leads to something well formed is recorded, and taking it back restores the edit.\<close>

lemma record_change_ok:
  assumes "edit_ok F f e" and "makes s (view e) v" and "shown_ok F f v"
  shows "\<exists>e'. record_change s e = Some e' \<and> edit_ok F f e' \<and> view e' = v \<and> ed_redo e' = [] \<and>
    undo_edit e' = Some (True, e\<lparr>ed_redo := [s]\<rparr>)"
proof -
  let ?e' = "e\<lparr>ed_crop := fst v, ed_marks := snd v, ed_undo := s # ed_undo e, ed_redo := []\<rparr>"
  have rec: "record_change s e = Some ?e'"
    using makes_apply [OF assms(2)] by (simp add: record_change_def)
  have v: "view ?e' = v" by (simp add: view_def)
  have "makes s (view e) (view (?e'\<lparr>ed_undo := ed_undo e\<rparr>))" using assms(2) by (simp add: view_def)
  from makes_take_back [OF this] have "undo_edit ?e' = Some (True, e\<lparr>ed_redo := [s]\<rparr>)"
    by (simp add: undo_edit_def view_def)
  moreover have "past (shown_ok F f) (full_bounds f, []) (s # ed_undo e) v"
    using assms unfolding edit_ok_def past.simps by blast
  ultimately show ?thesis
    using rec v assms by (simp add: edit_ok_def)
qed

lemma undo_ok:
  assumes "edit_ok F f e" and "ed_undo e = s # rest"
  shows "\<exists>e'. undo_edit e = Some (True, e') \<and> redo_edit e' = Some (True, e) \<and> edit_ok F f e' \<and>
    ed_undo e' = rest \<and> ed_redo e' = s # ed_redo e"
proof -
  from assms obtain u where u: "past (shown_ok F f) (full_bounds f, []) rest u" "shown_ok F f u" "makes s u (view e)"
    by (auto simp: edit_ok_def)
  let ?e' = "e\<lparr>ed_crop := fst u, ed_marks := snd u, ed_undo := rest, ed_redo := s # ed_redo e\<rparr>"
  have "makes s u (view (e\<lparr>ed_undo := rest\<rparr>))" using u(3) by (simp add: view_def)
  from makes_take_back [OF this] have undo: "undo_edit e = Some (True, ?e')"
    by (simp add: undo_edit_def assms(2))
  have v: "view ?e' = u" by (simp add: view_def)
  have "makes s (view (?e'\<lparr>ed_redo := ed_redo e\<rparr>)) (view e)" using u(3) by (simp add: view_def)
  from makes_apply [OF this] have "redo_edit ?e' = Some (True, e)"
    by (simp add: redo_edit_def view_def assms(2) [symmetric])
  moreover have "edit_ok F f ?e'"
    using assms(1) u v future_ConsI [of s u "view e"] unfolding edit_ok_def by (simp del: future.simps(2))
  ultimately show ?thesis using undo by auto
qed

lemma redo_ok:
  assumes "edit_ok F f e" and "ed_redo e = s # rest"
  shows "\<exists>e'. redo_edit e = Some (True, e') \<and> undo_edit e' = Some (True, e) \<and> edit_ok F f e' \<and>
    ed_redo e' = rest \<and> ed_undo e' = s # ed_undo e"
proof -
  from assms obtain u where u: "makes s (view e) u" "shown_ok F f u" "future (shown_ok F f) u rest"
    by (auto simp: edit_ok_def)
  let ?e' = "e\<lparr>ed_crop := fst u, ed_marks := snd u, ed_undo := s # ed_undo e, ed_redo := rest\<rparr>"
  have "makes s (view (e\<lparr>ed_redo := rest\<rparr>)) u" using u(1) by (simp add: view_def)
  from makes_apply [OF this] have redo: "redo_edit e = Some (True, ?e')"
    by (simp add: redo_edit_def assms(2))
  have v: "view ?e' = u" by (simp add: view_def)
  have "makes s (view e) (view (?e'\<lparr>ed_undo := ed_undo e\<rparr>))" using u(1) by (simp add: view_def)
  from makes_take_back [OF this] have "undo_edit ?e' = Some (True, e)"
    by (simp add: undo_edit_def view_def assms(2) [symmetric])
  moreover have "edit_ok F f ?e'"
    using assms(1) u v past_ConsI [of _ _ _ "view e" s u] unfolding edit_ok_def by (simp del: past.simps(2))
  ultimately show ?thesis using redo by auto
qed

subsection \<open>Every operation\<close>

text \<open>
  What a call does: it refuses and nothing changes, or it makes one step, which an undo takes back
  exactly. Undo and redo are the calls the two lemmas above cover.
\<close>

definition one_change :: "'f float_ops \<Rightarrow> cpu_frame \<Rightarrow> 'f edit \<Rightarrow> (bool \<times> 'f edit) option \<Rightarrow> bool" where
  "one_change F f e r \<longleftrightarrow> r = Some (False, e) \<or>
     (\<exists>e' s. r = Some (True, e') \<and> edit_ok F f e' \<and> \<not> can_redo e' \<and>
        undo_edit e' = Some (True, e\<lparr>ed_redo := [s]\<rparr>))"

lemma one_change_refused: "one_change F f e (Some (False, e))"
  by (simp add: one_change_def)

lemma one_change_made:
  assumes "edit_ok F f e" "makes s (view e) v" "shown_ok F f v"
  shows "one_change F f e (map_option (Pair True) (record_change s e))"
  using record_change_ok [OF assms] by (auto simp: one_change_def can_redo_def)

lemma edit_ok_source: "edit_ok F f e \<Longrightarrow> ed_source e = f"
  by (simp add: edit_ok_def)

lemma set_crop_change:
  assumes "edit_ok F f e"
  shows "one_change F f e (set_crop r e)"
proof (cases "intersection r (ed_bounds e)")
  case None
  then show ?thesis by (simp add: set_crop_def one_change_refused)
next
  case (Some a)
  have "shown_ok F f (a, ed_marks e)"
    using assms intersection_rect_within(2) [OF Some] intersection_nonempty [OF Some]
    by (simp add: edit_ok_def shown_ok_def view_def ed_bounds_def)
  then have "one_change F f e (map_option (Pair True) (record_change (CropStep (ed_crop e) a) e))"
    by (intro one_change_made [OF assms]) (simp_all add: view_def)
  then show ?thesis by (simp add: set_crop_def Some one_change_refused)
qed

lemma add_mark_change:
  assumes "edit_ok F f e" "mark_ok m"
  shows "one_change F f e (add_mark F m e)"
proof (cases "accept F e m")
  case None
  then show ?thesis by (simp add: add_mark_def one_change_refused)
next
  case (Some m')
  have "shown_ok F f (ed_crop e, ed_marks e @ [m'])"
    using assms accept_again [OF Some assms(2) edit_ok_source [OF assms(1)]]
    by (auto simp: edit_ok_def shown_ok_def view_def)
  then have "one_change F f e (map_option (Pair True) (record_change (MarkStep m') e))"
    by (intro one_change_made [OF assms(1)]) (simp_all add: view_def)
  then show ?thesis by (simp add: add_mark_def Some)
qed

lemma replace_mark_change:
  assumes "edit_ok F f e" "\<And>n. m = Some n \<Longrightarrow> mark_ok n"
  shows "one_change F f e (replace_mark F i m e)"
proof (cases "i < length (ed_marks e)")
  case False
  then show ?thesis by (simp add: replace_mark_def get_def one_change_refused)
next
  case i: True
  note ok = assms(1) [unfolded edit_ok_def shown_ok_def view_def, simplified]
  show ?thesis
  proof (cases m)
    case None
    have "shown_ok F f (ed_crop e, take i (ed_marks e) @ drop (i + 1) (ed_marks e))"
      using ok by (auto simp: shown_ok_def dest: in_set_takeD in_set_dropD)
    then have "one_change F f e (map_option (Pair True) (record_change (ReplaceStep i (ed_marks e ! i) None) e))"
      by (intro one_change_made [OF assms(1)]) (simp_all add: view_def i)
    then show ?thesis by (simp add: replace_mark_def get_def i None)
  next
    case (Some n)
    show ?thesis
    proof (cases "accept F e n")
      case None
      then show ?thesis by (simp add: replace_mark_def get_def i Some one_change_refused)
    next
      case taken: (Some n')
      have "accepts F f n'"
        by (rule accept_again [OF taken assms(2) [OF Some] edit_ok_source [OF assms(1)]])
      then have "shown_ok F f (ed_crop e, (ed_marks e)[i := n'])"
        using ok set_update_subset_insert [of "ed_marks e" i n'] by (auto simp: shown_ok_def)
      then have "one_change F f e (map_option (Pair True) (record_change (ReplaceStep i (ed_marks e ! i) (Some n')) e))"
        by (intro one_change_made [OF assms(1)]) (simp_all add: view_def i)
      then show ?thesis
        by (simp add: replace_mark_def get_def i Some taken one_change_refused)
    qed
  qed
qed

lemma perform_change:
  assumes "edit_ok F f e" "call_ok c" "c \<noteq> UndoCall" "c \<noteq> RedoCall"
  shows "one_change F f e (perform F c e)"
proof (cases c)
  case (ReplaceMark i m)
  have "one_change F f e (replace_mark F i m e)"
    by (rule replace_mark_change [OF assms(1)]) (use assms(2) ReplaceMark in simp)
  then show ?thesis by (simp add: ReplaceMark)
qed (use assms set_crop_change add_mark_change in simp_all)

lemma perform_ok:
  assumes "edit_ok F f e" "call_ok c"
  shows "\<exists>changed e'. perform F c e = Some (changed, e') \<and> edit_ok F f e'"
proof -
  consider "c = UndoCall" | "c = RedoCall" | "c \<noteq> UndoCall" "c \<noteq> RedoCall" by blast
  then show ?thesis
  proof cases
    case 1
    then show ?thesis
      using undo_ok [OF assms(1)] assms(1) by (cases "ed_undo e") (fastforce simp: undo_edit_def)+
  next
    case 2
    then show ?thesis
      using redo_ok [OF assms(1)] assms(1) by (cases "ed_redo e") (fastforce simp: redo_edit_def)+
  next
    case 3
    then show ?thesis using perform_change [OF assms 3] assms(1) by (auto simp: one_change_def)
  qed
qed

lemma edited_ok: "edited F f e \<Longrightarrow> frame_ok f \<Longrightarrow> edit_ok F f e"
proof (induction rule: edited.induct)
  case edited_new
  then show ?case by (rule edit_new_ok)
next
  case (edited_call e c changed e')
  then show ?case using perform_ok [of F f e c] by auto
qed

text \<open>Undoing, or redoing, \<open>n\<close> times.\<close>

fun repeat_call :: "nat \<Rightarrow> ('f edit \<Rightarrow> (bool \<times> 'f edit) option) \<Rightarrow> 'f edit \<Rightarrow> 'f edit option" where
  "repeat_call 0 f e = Some e"
| "repeat_call (Suc n) f e = Option.bind (f e) (\<lambda>(_, e). repeat_call n f e)"

lemma repeat_call_snoc: "repeat_call (Suc n) f e = Option.bind (repeat_call n f e) (\<lambda>e. map_option snd (f e))"
proof (induction n arbitrary: e)
  case 0
  then show ?case by (cases "f e") auto
next
  case (Suc n)
  then show ?case by (cases "f e") (auto simp del: repeat_call.simps(2)
      simp add: repeat_call.simps(2) [of "Suc n"] repeat_call.simps(2) [of n])
qed

lemma undo_all:
  assumes "edit_ok F f e" "length (ed_undo e) = n"
  shows "\<exists>e'. repeat_call n undo_edit e = Some e' \<and> repeat_call n redo_edit e' = Some e \<and> ed_undo e' = [] \<and>
    edit_ok F f e'"
  using assms
proof (induction n arbitrary: e)
  case (Suc n)
  then obtain s rest where e: "ed_undo e = s # rest" by (cases "ed_undo e") auto
  from undo_ok [OF Suc.prems(1) this] obtain e1 where e1: "undo_edit e = Some (True, e1)"
      "redo_edit e1 = Some (True, e)" "edit_ok F f e1" "ed_undo e1 = rest"
    by blast
  moreover have "length (ed_undo e1) = n" using Suc.prems(2) e e1(4) by simp
  ultimately obtain e' where e': "repeat_call n undo_edit e1 = Some e'" "repeat_call n redo_edit e' = Some e1"
      "ed_undo e' = []" "edit_ok F f e'"
    using Suc.IH by blast
  have "repeat_call (Suc n) redo_edit e' = Some e"
    using repeat_call_snoc [of n redo_edit e'] by (simp add: e'(2) e1(2) del: repeat_call.simps)
  with e1(1) e' show ?case by auto
qed simp

subsection \<open>What is published\<close>

text \<open>The bytes of the pixel \<open>(x, y)\<close> of a frame, counted from its top-left corner.\<close>

definition frame_pixel_at :: "cpu_frame \<Rightarrow> int \<Rightarrow> int \<Rightarrow> bytes" where
  "frame_pixel_at f x y = take (frame_bpp f) (drop (nat y * frame_stride f + nat x * frame_bpp f) (pixels f))"

text \<open>The specification of a published pixel: the capture's, with every mark painted on it in order.\<close>

definition published_pixel :: "'f float_ops \<Rightarrow> 'f edit \<Rightarrow> int \<Rightarrow> int \<Rightarrow> bytes" where
  "published_pixel F e x y =
     fold (\<lambda>m. mark_pixel F m (frame_format (ed_source e)) (alpha (ed_source e)) x y) (ed_marks e)
       (frame_pixel_at (ed_source e) x y)"

definition published_metadata :: "'f edit \<Rightarrow> frame_metadata" where
  "published_metadata e =
     (let m = metadata (ed_source e); at = source_rect m; c = ed_crop e in
      m\<lparr>source_rect := \<lparr>rect_x = clamp_to_i32 (rect_left at + rect_left c),
           rect_y = clamp_to_i32 (rect_top at + rect_top c),
           rect_width = rect_width c, rect_height = rect_height c\<rparr>,
        copy_count := sat_inc (copy_count m), pool_slot := None\<rparr>)"

lemma paint_marks_pixels:
  assumes "area_ok ar" "list_all mark_ok ms" "packed_area (unat (bytes_per_pixel fmt)) ar px"
  shows "\<exists>px'. fold_opt (\<lambda>m. paint_mark F m (unat (rect_width ar) * unat (bytes_per_pixel fmt)) ar fmt al) ms px = Some px' \<and>
    touched (cell (unat (bytes_per_pixel fmt))) (packed_area (unat (bytes_per_pixel fmt)) ar) ar
      (\<lambda>x y. fold (\<lambda>m. mark_pixel F m fmt al x y) ms) px px'"
  using assms(2,3)
proof (induction ms arbitrary: px)
  case Nil
  then show ?case by (simp add: touched_def)
next
  case (Cons m ms)
  from paint_mark_pixels [OF assms(1) _ Cons.prems(2), of m F al] Cons.prems(1) obtain px1 where
    px1: "paint_mark F m (unat (rect_width ar) * unat (bytes_per_pixel fmt)) ar fmt al px = Some px1"
      "touched (cell (unat (bytes_per_pixel fmt))) (packed_area (unat (bytes_per_pixel fmt)) ar) ar
        (mark_pixel F m fmt al) px px1"
    by auto
  then have "packed_area (unat (bytes_per_pixel fmt)) ar px1" by (simp add: touched_def)
  from Cons.IH [OF _ this] Cons.prems(1) px1 show ?case
    by (auto dest: touched_trans)
qed

text \<open>Where the crop lies in the capture.\<close>

lemma crop_in_capture:
  assumes "frame_ok f" "shown_ok F f v"
  shows "0 \<le> rect_left (fst v)" "0 \<le> rect_top (fst v)"
    "rect_right (fst v) \<le> int (unat (width f))" "rect_bottom (fst v) \<le> int (unat (height f))"
    "area_ok (fst v)" "0 < unat (rect_width (fst v))" "0 < unat (rect_height (fst v))"
proof -
  show b: "0 \<le> rect_left (fst v)" "0 \<le> rect_top (fst v)"
    "rect_right (fst v) \<le> int (unat (width f))" "rect_bottom (fst v) \<le> int (unat (height f))"
    using assms(2) full_bounds_edges [OF assms(1)] by (simp_all add: shown_ok_def rect_within_def)
  have w: "uint (rect_width (fst v)) = rect_right (fst v) - rect_left (fst v)"
    "uint (rect_height (fst v)) = rect_bottom (fst v) - rect_top (fst v)"
    by (simp_all add: edge_defs)
  have small: "int (unat (width f)) < 1073741824" "int (unat (height f)) < 1073741824"
    using frame_ok_small [OF assms(1)] by linarith+
  show "area_ok (fst v)" using b w small unfolding area_ok_def by linarith
  have "0 < uint (rect_width (fst v))" "0 < uint (rect_height (fst v))"
    using assms(2) w unfolding shown_ok_def by linarith+
  then show "0 < unat (rect_width (fst v))" "0 < unat (rect_height (fst v))"
    by (metis int_nat_eq of_nat_0_less_iff uint_nat)+
qed

lemma cell_of_rows:
  assumes "\<And>r. r < h \<Longrightarrow> length (f r) = w * n" and "r < h" and "c < w"
  shows "cell n (concat (map f [0..<h])) (r * w + c) = take n (drop (c * n) (f r))"
proof -
  have "c * n + n \<le> w * n" using mult_le_mono1 [of "Suc c" w n] assms(3) by simp
  then show ?thesis
    using take_drop_concat_rows [of h f "w * n" r "c * n" n, OF assms(1,2)] by (simp add: cell_def algebra_simps)
qed

lemma take_drop_within:
  "i + n \<le> k \<Longrightarrow> take n (drop i (take k (drop a xs))) = take n (drop (a + i) xs)"
  by (simp add: drop_take min_def add.commute)

lemma cropped_rows:
  fixes f :: cpu_frame and c :: rect
  assumes "frame_ok f" "shown_ok F f (c, ms)"
  defines "n \<equiv> frame_bpp f" and "w \<equiv> unat (rect_width c)" and "h \<equiv> unat (rect_height c)"
  shows "\<exists>px. slice_rows (pixels f) (frame_stride f) (as_usize (sint (rect_x c)) * n) (w * n)
      (map (\<lambda>row. as_usize (sint (rect_y c)) + row) [0..<h]) = Some px \<and> packed_area n c px \<and>
    (\<forall>x y. in_rect c x y \<longrightarrow> cell n px (slot c x y) = frame_pixel_at f x y)"
proof -
  note b = crop_in_capture [OF assms(1,2), unfolded fst_conv]
  let ?x = "nat (rect_left c)" and ?y = "nat (rect_top c)"
  have at: "as_usize (sint (rect_x c)) = ?x" "as_usize (sint (rect_y c)) = ?y"
    using b(1,2) edge_bounds [of c] by (simp_all add: as_usize_def edge_defs)
  have "int w = rect_right c - rect_left c" "int h = rect_bottom c - rect_top c"
    by (simp_all add: edge_defs w_def h_def)
  then have fit: "?x + w \<le> unat (width f)" "?y + h \<le> unat (height f)"
    using b(1-4) by linarith+
  have row_fits: "?x * n + w * n \<le> frame_stride f"
  proof -
    have "?x * n + w * n \<le> unat (width f) * n" using mult_le_mono1 [OF fit(1), of n] by (simp add: add_mult_distrib)
    also have "\<dots> \<le> frame_stride f" using assms(1) by (simp add: frame_ok_def n_def)
    finally show ?thesis .
  qed
  have inside: "(?y + r) * frame_stride f + ?x * n + w * n \<le> length (pixels f)" if "r < h" for r
  proof -
    have "(?y + r) * frame_stride f + ?x * n + w * n \<le> Suc (?y + r) * frame_stride f" using row_fits by simp
    also have "\<dots> \<le> unat (height f) * frame_stride f" using that fit(2) by (intro mult_le_mono1) simp
    also have "\<dots> \<le> length (pixels f)" using assms(1) by (simp add: frame_ok_def mult.commute)
    finally show ?thesis .
  qed
  define row where "row r = take (w * n) (drop ((?y + r) * frame_stride f + ?x * n) (pixels f))" for r
  have rows: "slice_rows (pixels f) (frame_stride f) (?x * n) (w * n) (map ((+) ?y) [0..<h]) =
      Some (concat (map row [0..<h]))"
  proof (subst slice_rows_eq)
    show "y * frame_stride f + ?x * n + w * n \<le> length (pixels f)" if "y \<in> set (map ((+) ?y) [0..<h])" for y
      using that inside by (metis atLeast0LessThan imageE lessThan_iff list.set_map set_upt)
  qed (simp add: row_def [abs_def] comp_def)
  have len: "length (row r) = w * n" if "r < h" for r
    using inside [OF that] by (simp add: row_def)
  have "cell n (concat (map row [0..<h])) (slot c x y) = frame_pixel_at f x y" if xy: "in_rect c x y" for x y
  proof -
    let ?i = "nat (x - rect_left c)" and ?r = "nat (y - rect_top c)"
    have i: "?i < w" "?r < h" using in_rect_slot [OF xy] by (simp_all add: w_def h_def)
    have "?i * n + n \<le> w * n" using mult_le_mono1 [of "Suc ?i" w n] i by simp
    from take_drop_within [OF this]
    have "take n (drop (?i * n) (row ?r)) = take n (drop ((?y + ?r) * frame_stride f + ?x * n + ?i * n) (pixels f))"
      unfolding row_def .
    moreover have "nat y = ?y + ?r" "nat x = ?x + ?i" using xy b(1,2) unfolding in_rect_def by linarith+
    ultimately have "take n (drop (?i * n) (row ?r)) = frame_pixel_at f x y"
      by (simp add: frame_pixel_at_def n_def add_mult_distrib add.assoc)
    then show ?thesis
      using cell_of_rows [of h row w n ?r ?i, OF len i(2,1)]
      unfolding slot_def w_def [symmetric] by simp
  qed
  moreover have "packed_area n c (concat (map row [0..<h]))"
    using length_concat_rows [of "[0..<h]" row "w * n"] len
    by (simp add: packed_area_def w_def [symmetric] h_def [symmetric])
  ultimately show ?thesis
    unfolding at by (intro exI [of _ "concat (map row [0..<h])"]) (simp add: rows)
qed

lemma render_pixels:
  assumes "edit_ok F f e" "frame_ok f"
  shows "\<exists>out. render F e = Some (Inr out) \<and> frame_ok out \<and>
    width out = rect_width (ed_crop e) \<and> height out = rect_height (ed_crop e) \<and>
    packed_area (frame_bpp f) (ed_crop e) (pixels out) \<and>
    out = f\<lparr>pixels := pixels out, width := rect_width (ed_crop e), height := rect_height (ed_crop e),
      stride_bytes := rect_width (ed_crop e) * bytes_per_pixel (frame_format f), metadata := published_metadata e\<rparr> \<and>
    (\<forall>x y. in_rect (ed_crop e) x y \<longrightarrow>
      cell (frame_bpp f) (pixels out) (slot (ed_crop e) x y) = published_pixel F e x y)"
proof -
  let ?c = "ed_crop e" and ?n = "frame_bpp f"
  have src: "ed_source e = f" and ok: "shown_ok F f (?c, ed_marks e)"
    using assms(1) by (simp_all add: edit_ok_def view_def)
  note b = crop_in_capture [OF assms(2) ok, unfolded fst_conv]
  obtain px where px: "slice_rows (pixels f) (frame_stride f) (as_usize (sint (rect_x ?c)) * ?n)
        (unat (rect_width ?c) * ?n) (map (\<lambda>row. as_usize (sint (rect_y ?c)) + row) [0..<unat (rect_height ?c)]) = Some px"
      "packed_area ?n ?c px" "\<forall>x y. in_rect ?c x y \<longrightarrow> cell ?n px (slot ?c x y) = frame_pixel_at f x y"
    using cropped_rows [OF assms(2) ok] by blast
  have marks: "list_all mark_ok (ed_marks e)" using ok by (simp add: shown_ok_def accepts_def list_all_iff)
  obtain px' where px': "fold_opt (\<lambda>m. paint_mark F m (unat (rect_width ?c) * ?n) ?c (frame_format f) (alpha f))
        (ed_marks e) px = Some px'"
      "touched (cell ?n) (packed_area ?n ?c) ?c
        (\<lambda>x y. fold (\<lambda>m. mark_pixel F m (frame_format f) (alpha f) x y) (ed_marks e)) px px'"
    using paint_marks_pixels [OF b(5) marks px(2)] by blast
  have packed: "packed_area ?n ?c px'" using px'(2) by (simp add: touched_def)
  let ?w = "unat (rect_width ?c)" and ?h = "unat (rect_height ?c)"
  have "int ?w = rect_right ?c - rect_left ?c" "int ?h = rect_bottom ?c - rect_top ?c"
    by (simp_all add: edge_defs)
  then have side: "?w \<le> unat (width f)" "?h \<le> unat (height f)" using b(1-4) by linarith+
  have row: "?w * ?n \<le> frame_stride f"
    using mult_le_mono1 [OF side(1), of ?n] assms(2) unfolding frame_ok_def by linarith
  have "?w * ?n * ?h \<le> frame_stride f * unat (height f)" by (intro mult_le_mono row side(2))
  then have total: "?w * ?n * ?h < 4294967296" using assms(2) by (simp add: frame_ok_def)
  have stride: "unat (rect_width ?c * bytes_per_pixel (frame_format f)) = ?w * ?n"
    using row unat_u32_le [of "stride_bytes f"] by (simp add: unat_word_ariths)
  define out where "out = f\<lparr>pixels := px', width := rect_width ?c, height := rect_height ?c,
      stride_bytes := rect_width ?c * bytes_per_pixel (frame_format f), metadata := published_metadata e\<rparr>"
  have out_ok: "frame_ok out"
    using b(6,7) packed total stride
    by (auto simp: frame_ok_def out_def packed_area_def mult.commute mult.left_commute)
  obtain k where lay: "validate_layout (length px') (rect_width ?c) (rect_height ?c)
      (rect_width ?c * bytes_per_pixel (frame_format f)) (frame_format f) = Inr k"
    using out_ok by (auto simp: frame_ok_layout out_def)
  have "of_nat (?w * ?n) = rect_width ?c * bytes_per_pixel (frame_format f)" by simp
  then have "render F e = Some (Inr out)"
    using px(1) px'(1) b(6)
    by (simp add: render_def src cpu_frame_new_def lay out_def published_metadata_def edge_defs
        with_alpha_def Let_def)
  moreover have "cell ?n px' (slot ?c x y) = published_pixel F e x y" if "in_rect ?c x y" for x y
    using px'(2) px(3) that by (simp add: touched_def published_pixel_def src)
  ultimately show ?thesis
    using out_ok packed by (intro exI [of _ out]) (simp add: out_def)
qed

text \<open>A buffer is its pixels.\<close>

lemma slot_reaches:
  assumes "q < unat (rect_width ar) * unat (rect_height ar)"
  shows "\<exists>x y. in_rect ar x y \<and> slot ar x y = q"
proof -
  let ?w = "unat (rect_width ar)" and ?h = "unat (rect_height ar)"
  have w: "0 < ?w" using assms by (cases "?w = 0") simp_all
  have "q div ?w < ?h" using assms by (simp add: less_mult_imp_div_less mult.commute)
  moreover have "q mod ?w < ?w" using w by simp
  moreover have "int ?w = rect_right ar - rect_left ar" "int ?h = rect_bottom ar - rect_top ar"
    by (simp_all add: edge_defs)
  ultimately have "in_rect ar (rect_left ar + int (q mod ?w)) (rect_top ar + int (q div ?w))"
    unfolding in_rect_def by linarith
  moreover have "slot ar (rect_left ar + int (q mod ?w)) (rect_top ar + int (q div ?w)) = q"
    by (simp add: slot_def)
  ultimately show ?thesis by blast
qed

lemma packed_eqI:
  assumes "packed_area n ar a" "packed_area n ar b" "0 < n"
    and "\<And>x y. in_rect ar x y \<Longrightarrow> cell n a (slot ar x y) = cell n b (slot ar x y)"
  shows "a = b"
proof (rule nth_equalityI)
  show "length a = length b" using assms(1,2) by (simp add: packed_area_def)
  fix i
  assume "i < length a"
  then have "i div n < unat (rect_width ar) * unat (rect_height ar)"
    using assms(1) by (simp add: packed_area_def less_mult_imp_div_less)
  then obtain x y where xy: "in_rect ar x y" "slot ar x y = i div n" using slot_reaches by blast
  have inside: "i div n * n + n \<le> length a" "i div n * n + n \<le> length b"
    using slot_inside [OF assms(1) xy(1)] slot_inside [OF assms(2) xy(1)] xy(2) by simp_all
  have "cell n c (i div n) ! (i mod n) = c ! i" if "i div n * n + n \<le> length c" for c
    using that assms(3) by (simp add: cell_def)
  then show "a ! i = b ! i"
    using assms(4) [OF xy(1)] inside xy(2) by metis
qed

subsection \<open>A redaction hides what it covers\<close>

lemma edit_ok_repainted:
  assumes "edit_ok F f e" and "g = f\<lparr>pixels := px\<rparr>"
  shows "edit_ok F g (e\<lparr>ed_source := g\<rparr>)"
proof -
  have b: "full_bounds g = full_bounds f" and fmt: "frame_format g = frame_format f"
    by (simp_all add: full_bounds_def assms(2))
  then have "accept F (edit_new g) m = accept F (edit_new f) m" for m
    by (simp add: accept_def ed_bounds_def edit_new_def split: mark.split)
  then have "shown_ok F g = shown_ok F f"
    by (simp add: shown_ok_def accepts_def b fun_eq_iff)
  then show ?thesis
    using assms(1) b by (simp add: edit_ok_def view_def)
qed

lemma accepted_redaction:
  assumes "accepts F f (Redaction r)"
  shows "mark_bounds F (Redaction r) = Some r"
proof -
  have "intersection r (full_bounds f) = Some r"
    using assms by (simp add: accepts_def accept_def ed_bounds_def edit_new_def)
  then have "rect_left r < rect_right r" "rect_top r < rect_bottom r" by (rule intersection_nonempty)+
  then have "rect_width r \<noteq> 0" "rect_height r \<noteq> 0" by (auto simp: edge_defs)
  then show ?thesis by (simp add: nonempty_rect_def word_neq_0_conv)
qed

definition redacted_fill :: "pixel_format \<Rightarrow> bytes" where
  "redacted_fill fmt = (if eight_bit fmt then REDACTION_EIGHT_BIT else REDACTION_HALF_FLOAT)"

lemma redaction_pixel:
  assumes "accepts F f (Redaction r)" "in_rect r x y"
  shows "mark_pixel F (Redaction r) fmt al x y p = redacted_fill fmt"
  using accepted_redaction [OF assms(1)] assms(2)
  by (simp add: mark_pixel_def redacted_fill_def eight_bit_def split: pixel_encoding.split)

lemma fold_forgets:
  assumes "Redaction r \<in> set ms" "\<forall>m\<in>set ms. accepts F f m" "in_rect r x y"
  shows "fold (\<lambda>m. mark_pixel F m fmt al x y) ms p = fold (\<lambda>m. mark_pixel F m fmt al x y) ms q"
proof -
  from assms(1) obtain xs ys where "ms = xs @ Redaction r # ys" by (meson split_list)
  moreover have "accepts F f (Redaction r)" using assms(1,2) by blast
  ultimately show ?thesis by (simp add: redaction_pixel [of F f r, OF _ assms(3)])
qed

lemma same_outside_same_render:
  assumes "frame_ok f" "edit_ok F f e" "Redaction r \<in> set (ed_marks e)" "length px = length (pixels f)"
    and outside: "\<And>x y. in_rect (full_bounds f) x y \<Longrightarrow> \<not> in_rect r x y \<Longrightarrow>
      frame_pixel_at (f\<lparr>pixels := px\<rparr>) x y = frame_pixel_at f x y"
  shows "render F (e\<lparr>ed_source := f\<lparr>pixels := px\<rparr>\<rparr>) = render F e"
proof -
  let ?g = "f\<lparr>pixels := px\<rparr>"
  let ?e = "e\<lparr>ed_source := ?g\<rparr>"
  have g: "frame_ok ?g" using assms(1,4) by (simp add: frame_ok_def)
  have src: "ed_source e = f" and shown: "shown_ok F f (ed_crop e, ed_marks e)"
    using assms(2) by (simp_all add: edit_ok_def view_def)
  have ok: "\<forall>m\<in>set (ed_marks e). accepts F f m" using shown by (simp add: shown_ok_def)
  obtain a where a: "render F e = Some (Inr a)" "packed_area (frame_bpp f) (ed_crop e) (pixels a)"
      "a = f\<lparr>pixels := pixels a, width := rect_width (ed_crop e), height := rect_height (ed_crop e),
        stride_bytes := rect_width (ed_crop e) * bytes_per_pixel (frame_format f), metadata := published_metadata e\<rparr>"
      "\<And>x y. in_rect (ed_crop e) x y \<Longrightarrow> cell (frame_bpp f) (pixels a) (slot (ed_crop e) x y) = published_pixel F e x y"
    using render_pixels [OF assms(2,1)] by blast
  obtain b where b: "render F ?e = Some (Inr b)" "packed_area (frame_bpp f) (ed_crop e) (pixels b)"
      "b = ?g\<lparr>pixels := pixels b, width := rect_width (ed_crop e), height := rect_height (ed_crop e),
        stride_bytes := rect_width (ed_crop e) * bytes_per_pixel (frame_format f), metadata := published_metadata ?e\<rparr>"
      "\<And>x y. in_rect (ed_crop e) x y \<Longrightarrow> cell (frame_bpp f) (pixels b) (slot (ed_crop e) x y) = published_pixel F ?e x y"
    using render_pixels [OF edit_ok_repainted [OF assms(2) refl] g] by auto
  have "published_pixel F ?e x y = published_pixel F e x y" if "in_rect (ed_crop e) x y" for x y
  proof (cases "in_rect r x y")
    case True
    then show ?thesis
      using fold_forgets [OF assms(3) ok] by (simp add: published_pixel_def src)
  next
    case False
    have "in_rect (full_bounds f) x y"
      using that shown by (auto simp: shown_ok_def rect_within_def in_rect_def)
    from outside [OF this False] show ?thesis by (simp add: published_pixel_def src)
  qed
  then have "pixels b = pixels a"
    by (intro packed_eqI [OF b(2) a(2)]) (simp_all add: a(4) b(4))
  moreover have meta: "published_metadata ?e = published_metadata e" by (simp add: published_metadata_def src)
  define built where "built px = f\<lparr>pixels := px, width := rect_width (ed_crop e), height := rect_height (ed_crop e),
      stride_bytes := rect_width (ed_crop e) * bytes_per_pixel (frame_format f), metadata := published_metadata e\<rparr>" for px
  have "a = built (pixels a)" by (rule trans [OF a(3)]) (simp add: built_def)
  moreover have "b = built (pixels b)" by (rule trans [OF b(3)]) (simp add: built_def meta)
  ultimately have "b = a" by simp
  then show ?thesis using a(1) b(1) by simp
qed

subsection \<open>Properties\<close>

text \<open>C10: An edit's history is exact. Whatever an editor did, no call panics; undoing everything gives
  the capture as taken, and redoing as often gives the edit back, stacks and all; one undo and one redo
  undo each other; and a crop, a mark or a replacement either changes nothing at all or makes one
  step that an undo takes back, and that forgets what could be redone.\<close>

theorem edit_history:
  assumes "frame_ok f" and "edited F f e" and "call_ok c"
  shows "(\<exists>e'. repeat_call (length (ed_undo e)) undo_edit e = Some e' \<and> \<not> is_modified e' \<and> \<not> can_undo e' \<and>
      repeat_call (length (ed_undo e)) redo_edit e' = Some e) \<and>
    (can_undo e \<longrightarrow> (\<exists>e'. undo_edit e = Some (True, e') \<and> redo_edit e' = Some (True, e))) \<and>
    (can_redo e \<longrightarrow> (\<exists>e'. redo_edit e = Some (True, e') \<and> undo_edit e' = Some (True, e))) \<and>
    (c = UndoCall \<or> c = RedoCall \<or> perform F c e = Some (False, e) \<or>
      (\<exists>e' s. perform F c e = Some (True, e') \<and> \<not> can_redo e' \<and> undo_edit e' = Some (True, e\<lparr>ed_redo := [s]\<rparr>)))"
proof (intro conjI impI)
  have ok: "edit_ok F f e" by (rule edited_ok [OF assms(2,1)])
  obtain e' where "repeat_call (length (ed_undo e)) undo_edit e = Some e'"
      "repeat_call (length (ed_undo e)) redo_edit e' = Some e" "ed_undo e' = []" "edit_ok F f e'"
    using undo_all [OF ok refl] by blast
  then show "\<exists>e'. repeat_call (length (ed_undo e)) undo_edit e = Some e' \<and> \<not> is_modified e' \<and> \<not> can_undo e' \<and>
      repeat_call (length (ed_undo e)) redo_edit e' = Some e"
    by (auto simp: edit_ok_def is_modified_def can_undo_def view_def ed_bounds_def)
  show "\<exists>e'. undo_edit e = Some (True, e') \<and> redo_edit e' = Some (True, e)" if "can_undo e"
    using that undo_ok [OF ok] by (cases "ed_undo e") (auto simp: can_undo_def)
  show "\<exists>e'. redo_edit e = Some (True, e') \<and> undo_edit e' = Some (True, e)" if "can_redo e"
    using that redo_ok [OF ok] by (cases "ed_redo e") (auto simp: can_redo_def)
  show "c = UndoCall \<or> c = RedoCall \<or> perform F c e = Some (False, e) \<or>
      (\<exists>e' s. perform F c e = Some (True, e') \<and> \<not> can_redo e' \<and> undo_edit e' = Some (True, e\<lparr>ed_redo := [s]\<rparr>))"
    using perform_change [OF ok assms(3)] by (auto simp: one_change_def)
qed

text \<open>C11: The published image is the crop of the capture with every mark painted on it in the order
  made: rendering never panics or fails, the result is a valid frame of the crop's size in the
  capture's format, its metadata is the capture's but for where it lies and how often it was copied,
  and each of its pixels is the capture's pixel changed by each mark in turn, as if painted alone.\<close>

theorem render_publishes_marks:
  assumes "frame_ok f" and "edited F f e"
  shows "\<exists>out. render F e = Some (Inr out) \<and> frame_ok out \<and>
    width out = rect_width (ed_crop e) \<and> height out = rect_height (ed_crop e) \<and>
    frame_format out = frame_format f \<and> alpha out = alpha f \<and> metadata out = published_metadata e \<and>
    (\<forall>x y. in_rect (ed_crop e) x y \<longrightarrow>
      frame_pixel_at out (x - rect_left (ed_crop e)) (y - rect_top (ed_crop e)) = published_pixel F e x y)"
proof -
  have ok: "edit_ok F f e" by (rule edited_ok [OF assms(2,1)])
  obtain out where out: "render F e = Some (Inr out)" "frame_ok out"
      "packed_area (frame_bpp f) (ed_crop e) (pixels out)"
      "out = f\<lparr>pixels := pixels out, width := rect_width (ed_crop e), height := rect_height (ed_crop e),
        stride_bytes := rect_width (ed_crop e) * bytes_per_pixel (frame_format f), metadata := published_metadata e\<rparr>"
      "\<And>x y. in_rect (ed_crop e) x y \<Longrightarrow> cell (frame_bpp f) (pixels out) (slot (ed_crop e) x y) = published_pixel F e x y"
    using render_pixels [OF ok assms(1)] by blast
  have fields: "width out = rect_width (ed_crop e)" "height out = rect_height (ed_crop e)"
    "frame_format out = frame_format f" "alpha out = alpha f" "metadata out = published_metadata e"
    "stride_bytes out = rect_width (ed_crop e) * bytes_per_pixel (frame_format f)"
    by (subst out(4), simp)+
  have "unat (width out) * frame_bpp f \<le> frame_stride out" using out(2) by (simp add: frame_ok_def fields)
  then have "frame_stride out = unat (rect_width (ed_crop e)) * frame_bpp f"
    unfolding fields by (metis le_antisym unat_mult_lem unat_word_ariths(2) mod_less_eq_dividend)
  then have "frame_pixel_at out (x - rect_left (ed_crop e)) (y - rect_top (ed_crop e)) =
      cell (frame_bpp f) (pixels out) (slot (ed_crop e) x y)" for x y
    by (simp add: frame_pixel_at_def fields cell_def slot_def algebra_simps)
  then show ?thesis using out fields by metis
qed

text \<open>C9: Redaction is destructive. What is published does not depend on what a redaction covers, whatever
  marks come before or after it and however the edit came about: for two captures that agree outside
  a redacted rectangle, the published images are the same, byte for byte; and a pixel of the crop under a
  redaction that no later mark reaches is the opaque fill.\<close>

theorem redaction_leaves_nothing:
  assumes "frame_ok f" and "edited F f e" and "ed_marks e = before @ Redaction r # after"
    and "length px = length (pixels f)"
    and "\<And>x y. in_rect (full_bounds f) x y \<Longrightarrow> \<not> in_rect r x y \<Longrightarrow>
      frame_pixel_at (f\<lparr>pixels := px\<rparr>) x y = frame_pixel_at f x y"
  shows "render F (e\<lparr>ed_source := f\<lparr>pixels := px\<rparr>\<rparr>) = render F e \<and>
    (\<forall>x y. in_rect r x y \<and> (\<forall>m\<in>set after. \<forall>b. mark_bounds F m = Some b \<longrightarrow> \<not> in_rect b x y) \<longrightarrow>
      published_pixel F e x y = redacted_fill (frame_format f))"
proof (intro conjI allI impI)
  have ok: "edit_ok F f e" by (rule edited_ok [OF assms(2,1)])
  show "render F (e\<lparr>ed_source := f\<lparr>pixels := px\<rparr>\<rparr>) = render F e"
    by (rule same_outside_same_render [OF assms(1) ok _ assms(4,5)]) (simp_all add: assms(3))
  fix x y
  assume xy: "in_rect r x y \<and> (\<forall>m\<in>set after. \<forall>b. mark_bounds F m = Some b \<longrightarrow> \<not> in_rect b x y)"
  have "accepts F f (Redaction r)"
    using ok by (simp add: edit_ok_def view_def shown_ok_def assms(3))
  moreover have "fold (\<lambda>m. mark_pixel F m fmt al x y) after p = p" for fmt al p
    by (rule fold_invariant [of after "\<lambda>m. m \<in> set after" "\<lambda>q. q = p"])
      (use xy in \<open>auto simp: mark_pixel_def split: option.split\<close>)
  ultimately show "published_pixel F e x y = redacted_fill (frame_format f)"
    using xy edit_ok_source [OF ok] by (simp add: published_pixel_def assms(3) redaction_pixel)
qed

subsection \<open>A concrete edit\<close>

text \<open>
  Fixed-point arithmetic with eight fractional bits stands in for \<open>f32\<close>. The capture is two by two
  pixels; its right column is redacted, a box is drawn round it all, and the redaction is tried again in vain.
\<close>

fun whole_sqrt :: "nat \<Rightarrow> nat \<Rightarrow> nat" where
  "whole_sqrt 0 n = 0"
| "whole_sqrt (Suc k) n = (if Suc k * Suc k \<le> n then Suc k else whole_sqrt k n)"

definition fixed_ops :: "int float_ops" where
  "fixed_ops = \<lparr>fadd = (+), fsub = (-), fmul = (\<lambda>a b. a * b div 256), fdiv = (\<lambda>a b. a * 256 div b),
     fneg = uminus, fabs = abs, fsqrt = (\<lambda>a. int (whole_sqrt 4096 (nat (a * 256)))),
     fround = (\<lambda>a. (a + 128) div 256 * 256), fmin = min, fmax = max, flt = (<), fle = (\<le>), feq = (=),
     fnum = (\<lambda>p q. p * 256 div q), fint = (\<lambda>i. i * 256), ffloor = (\<lambda>a. a div 256),
     fceil = (\<lambda>a. - (- a div 256)), fbyte = (\<lambda>a. word_of_int (a div 256)),
     f_MAX = 2 ^ 30, f_MIN = - (2 ^ 30), f_EPSILON = 1\<rparr>"

definition sample_column :: rect where
  "sample_column = \<lparr>rect_x = 1, rect_y = 0, rect_width = 1, rect_height = 2\<rparr>"

definition sample_text :: "int mark" where
  "sample_text = TextMark (0, 1) [] 12 \<lparr>red = 9, green = 8, blue = 7\<rparr>
     \<lparr>mask_width = 1, mask_height = 1, mask_coverage = [255]\<rparr>"

definition sample_edit :: "int edit" where
  "sample_edit = \<lparr>ed_source = sample_frame, ed_crop = full_bounds sample_frame,
     ed_marks = [Redaction sample_column, sample_text],
     ed_undo = [MarkStep sample_text, MarkStep (Redaction sample_column)], ed_redo = []\<rparr>"

definition sample_glyph :: rect where
  "sample_glyph = \<lparr>rect_x = 0, rect_y = 1, rect_width = 1, rect_height = 1\<rparr>"

lemma sample_bounds:
  "nonempty_rect sample_column = Some sample_column"
  "mark_bounds fixed_ops sample_text = Some sample_glyph"
  "intersection sample_column (full_bounds sample_frame) = Some sample_column"
  "intersection sample_glyph (full_bounds sample_frame) = Some sample_glyph"
  by (simp_all add: sample_column_def sample_text_def sample_glyph_def nonempty_rect_def full_bounds_def
      sample_frame_def intersection_eq_Some edge_defs)

lemma sample_edited: "edited fixed_ops sample_frame sample_edit"
proof -
  let ?e1 = "\<lparr>ed_source = sample_frame, ed_crop = full_bounds sample_frame, ed_marks = [Redaction sample_column],
     ed_undo = [MarkStep (Redaction sample_column)], ed_redo = []\<rparr>"
  have "perform fixed_ops (AddMark (Redaction sample_column)) (edit_new sample_frame) = Some (True, ?e1)"
    by (simp add: add_mark_def accept_def ed_bounds_def edit_new_def sample_bounds record_change_def)
  from edited_call [OF edited_new _ this] have "edited fixed_ops sample_frame ?e1" by simp
  moreover have "accept fixed_ops ?e1 sample_text = Some sample_text"
    using sample_bounds(2,4)
    by (simp add: accept_def ed_bounds_def sample_text_def Let_def drawable_def is_blank_def eight_bit_def sample_frame_def)
  then have "perform fixed_ops (AddMark sample_text) ?e1 = Some (True, sample_edit)"
    by (simp add: add_mark_def record_change_def sample_edit_def)
  moreover have "call_ok (AddMark sample_text)" by (simp add: sample_text_def)
  ultimately show ?thesis by (blast intro: edited_call)
qed

lemma edit_history_witness:
  "\<exists>e'. repeat_call 2 undo_edit sample_edit = Some e' \<and> \<not> is_modified e' \<and> \<not> can_undo e' \<and>
    repeat_call 2 redo_edit e' = Some sample_edit"
proof -
  have "call_ok (SetCrop sample_column :: int edit_call)" by simp
  moreover have "length (ed_undo sample_edit) = 2" by (simp add: sample_edit_def)
  ultimately show ?thesis using edit_history [OF sample_frame_ok sample_edited] by fastforce
qed

lemma sample_published:
  "published_pixel fixed_ops sample_edit 0 0 = [1, 2, 3, 4]"
  "published_pixel fixed_ops sample_edit 1 0 = [0, 0, 0, 255]"
  "published_pixel fixed_ops sample_edit 0 1 = [7, 8, 9, 255]"
proof -
  have r: "\<not> in_rect sample_column 0 0" "in_rect sample_column 1 0" "\<not> in_rect sample_column 0 1"
    "\<not> in_rect sample_glyph 0 0" "\<not> in_rect sample_glyph 1 0" "in_rect sample_glyph 0 1"
    by (simp_all add: in_rect_def sample_column_def sample_glyph_def edge_defs)
  show "published_pixel fixed_ops sample_edit 0 0 = [1, 2, 3, 4]"
    "published_pixel fixed_ops sample_edit 1 0 = [0, 0, 0, 255]"
    using r by (simp_all add: published_pixel_def mark_pixel_def sample_edit_def sample_bounds
      sample_frame_def frame_pixel_at_def REDACTION_EIGHT_BIT_def)
  show "published_pixel fixed_ops sample_edit 0 1 = [7, 8, 9, 255]"
    using r sample_bounds(2)
    by (simp add: published_pixel_def mark_pixel_def sample_edit_def sample_bounds sample_frame_def frame_pixel_at_def
      sample_text_def glyph_at_def ordered_def mix_def round_byte_def fclamp_def fu8_def fixed_ops_def)
qed

lemma render_publishes_marks_witness:
  "\<exists>out. render fixed_ops sample_edit = Some (Inr out) \<and> frame_pixel_at out 0 0 = [1, 2, 3, 4] \<and>
    frame_pixel_at out 1 0 = [0, 0, 0, 255] \<and> frame_pixel_at out 0 1 = [7, 8, 9, 255]"
proof -
  have c: "rect_left (ed_crop sample_edit) = 0" "rect_top (ed_crop sample_edit) = 0"
    by (simp_all add: sample_edit_def full_bounds_def edge_defs)
  have "in_rect (ed_crop sample_edit) 0 0" "in_rect (ed_crop sample_edit) 1 0" "in_rect (ed_crop sample_edit) 0 1"
    by (simp_all add: in_rect_def sample_edit_def full_bounds_def sample_frame_def edge_defs)
  then show ?thesis
    using render_publishes_marks [OF sample_frame_ok sample_edited] c sample_published by fastforce
qed

lemma redaction_leaves_nothing_witness:
  "render fixed_ops (sample_edit\<lparr>ed_source := sample_frame\<lparr>pixels :=
       [1, 2, 3, 4, 77, 77, 77, 77, 0, 0, 11, 12, 13, 14, 77, 77, 77, 77, 0, 0]\<rparr>\<rparr>) = render fixed_ops sample_edit"
proof -
  let ?px = "[1, 2, 3, 4, 77, 77, 77, 77, 0, 0, 11, 12, 13, 14, 77, 77, 77, 77, 0, 0] :: bytes"
  have "ed_marks sample_edit = [] @ Redaction sample_column # [sample_text]" by (simp add: sample_edit_def)
  moreover have "length ?px = length (pixels sample_frame)" by (simp add: sample_frame_def)
  moreover have "frame_pixel_at (sample_frame\<lparr>pixels := ?px\<rparr>) x y = frame_pixel_at sample_frame x y"
    if "in_rect (full_bounds sample_frame) x y" "\<not> in_rect sample_column x y" for x y
  proof -
    have "x = 0" "y = 0 \<or> y = 1"
      using that by (auto simp: in_rect_def full_bounds_def sample_frame_def sample_column_def edge_defs)
    then show ?thesis by (auto simp: frame_pixel_at_def sample_frame_def)
  qed
  ultimately show ?thesis
    using redaction_leaves_nothing [OF sample_frame_ok sample_edited] by blast
qed

end
