(* ===== verification/ImageEncode.thy ===== *)
theory ImageEncode
  imports Frame
begin

section \<open>Encoding a capture as a file\<close>

text \<open>
  \<open>crates/captastic-core/src/encode.rs\<close>, \<open>bmp.rs\<close>, \<open>jpeg.rs\<close> and \<open>png.rs\<close>: the checks every encoder
  makes of a frame, the BMP file byte by byte, and the rows handed to the JPEG and PNG encoders,
  which are third-party crates and so parameters. A \<open>None\<close> is the panic of a slice out of range. The
  properties: a BMP reader written from the format's definition shows exactly the frame's pixels;
  the three formats refuse the same frames for the same reasons, but for the sides their
  containers can describe.
\<close>

subsection \<open>Formats, options and errors\<close>

datatype output_format = Png | Jpeg | Bmp

definition ALL_FORMATS :: "output_format list" where "ALL_FORMATS = [Png, Jpeg, Bmp]"

fun format_as_str :: "output_format \<Rightarrow> string" where
  "format_as_str Png = ''png''"
| "format_as_str Jpeg = ''jpeg''"
| "format_as_str Bmp = ''bmp''"

fun format_label :: "output_format \<Rightarrow> string" where
  "format_label Png = ''PNG''"
| "format_label Jpeg = ''JPEG''"
| "format_label Bmp = ''BMP''"

fun extension :: "output_format \<Rightarrow> string" where
  "extension Png = ''png''"
| "extension Jpeg = ''jpg''"
| "extension Bmp = ''bmp''"

definition DEFAULT_JPEG_QUALITY :: u8 where "DEFAULT_JPEG_QUALITY = 90"

datatype png_effort = Fast | Compact

record encode_options =
  png_effort :: png_effort
  jpeg_quality :: u8

definition default_options :: encode_options where
  "default_options = \<lparr>png_effort = Compact, jpeg_quality = DEFAULT_JPEG_QUALITY\<rparr>"

record encoded_capture =
  encoded_bytes :: bytes
  encoded_extension :: string
  alpha_flattened :: bool

datatype png_error =
    PngUnsupportedOrigin frame_origin
  | PngUnsupportedFormat pixel_format
  | PngUnsupportedColorSpace color_space
  | PngEmptyDimensions
  | PngInvalidStride u32 u32
  | PngSizeOverflow
  | PngBufferTooShort nat nat
  | PngWriter ustring

datatype encode_error =
    PngError png_error
  | UnsupportedOrigin output_format frame_origin
  | UnsupportedFormat output_format pixel_format
  | UnsupportedColorSpace output_format color_space
  | NoDimensions
  | StrideTooSmall u32 u32
  | SizeTooLarge
  | PixelsTooShort nat nat
  | DimensionsTooLarge output_format u32 u32 u32
  | WriterFailed output_format ustring

subsection \<open>\<open>SourceLayout\<close>\<close>

record source_layout =
  source_row_bytes :: nat
  swizzle :: bool
  straight_alpha :: bool

definition inspect :: "cpu_frame \<Rightarrow> output_format \<Rightarrow> encode_error + source_layout" where
  "inspect f fmt =
     (if origin f \<noteq> TopLeft then Inl (UnsupportedOrigin fmt (origin f))
      else if width f = 0 \<or> height f = 0 then Inl NoDimensions
      else case encoding (frame_format f) of
        HalfFloatRgba \<Rightarrow> Inl (UnsupportedFormat fmt (frame_format f))
      | EightBitRgba blue_first \<Rightarrow>
          if frame_color_space f = ScRgb then Inl (UnsupportedColorSpace fmt (frame_color_space f))
          else
            try_bind (ok_or SizeTooLarge (usize_checked_mul (unat (width f)) 4)) (\<lambda>row_bytes.
            try_bind (ok_or SizeTooLarge (u32_try_from (int row_bytes))) (\<lambda>minimum.
              if stride_bytes f < minimum then Inl (StrideTooSmall (stride_bytes f) minimum)
              else
                try_bind (ok_or SizeTooLarge (usize_checked_mul (unat (stride_bytes f)) (unat (height f)))) (\<lambda>required.
                  if length (pixels f) < required then Inl (PixelsTooShort (length (pixels f)) required)
                  else Inr \<lparr>source_row_bytes = row_bytes, swizzle = blue_first,
                         straight_alpha = (alpha f = Straight)\<rparr>))))"

definition source_row :: "source_layout \<Rightarrow> cpu_frame \<Rightarrow> nat \<Rightarrow> bytes option" where
  "source_row l f row =
     (let start = row * unat (stride_bytes f) in slice start (start + source_row_bytes l) (pixels f))"

definition channels :: "source_layout \<Rightarrow> nat \<times> nat" where
  "channels l = (if swizzle l then (2, 0) else (0, 2))"

text \<open>
  \<open>source.chunks_exact(4).zip(row.chunks_exact_mut(k))\<close>, the loop every encoder converts a row with:
  each pixel's \<open>k\<close> bytes are written over the row, and what lies past the last of them stays.
\<close>

fun pixel_chunks :: "bytes \<Rightarrow> bytes list" where
  "pixel_chunks (a # b # c # d # rest) = [a, b, c, d] # pixel_chunks rest"
| "pixel_chunks _ = []"

definition convert_pixels :: "nat \<Rightarrow> (bytes \<Rightarrow> bytes) \<Rightarrow> bytes \<Rightarrow> bytes \<Rightarrow> bytes" where
  "convert_pixels k f source row =
     (let out = take (length row div k) (pixel_chunks source)
      in concat (map f out) @ drop (length out * k) row)"

subsection \<open>BMP\<close>

definition FILE_HEADER_BYTES :: nat where "FILE_HEADER_BYTES = 14"
definition INFO_HEADER_BYTES :: nat where "INFO_HEADER_BYTES = 40"
definition V5_HEADER_BYTES :: nat where "V5_HEADER_BYTES = 124"
definition BI_RGB :: u32 where "BI_RGB = 0"
definition BI_BITFIELDS :: u32 where "BI_BITFIELDS = 3"
definition LCS_SRGB :: u32 where "LCS_SRGB = 0x73524742"
definition LCS_GM_IMAGES :: u32 where "LCS_GM_IMAGES = 4"

definition le16 :: "u16 \<Rightarrow> bytes" where
  "le16 v = [ucast v, ucast (drop_bit 8 v)]"

definition le32 :: "u32 \<Rightarrow> bytes" where
  "le32 v = [ucast v, ucast (drop_bit 8 v), ucast (drop_bit 16 v), ucast (drop_bit 24 v)]"

definition row_bytes :: "u32 \<Rightarrow> u16 \<Rightarrow> encode_error + nat" where
  "row_bytes w bits =
     ok_or SizeTooLarge
       (map_option (\<lambda>n. n div 4 * 4)
         (Option.bind (usize_checked_mul (unat w) (unat bits div 8)) (\<lambda>n. usize_checked_add n 3)))"

definition bmp_v5_fields :: bytes where
  "bmp_v5_fields =
     le32 0x00ff0000 @ le32 0x0000ff00 @ le32 0x000000ff @ le32 0xff000000 @ le32 LCS_SRGB @
     concat (replicate 9 (le32 0)) @ le32 0 @ le32 0 @ le32 0 @ le32 LCS_GM_IMAGES @
     le32 0 @ le32 0 @ le32 0"

text \<open>Everything before the pixels; \<open>u32::try_from(n).unwrap_or(u32::MAX)\<close> is of a small constant.\<close>

definition bmp_header :: "bool \<Rightarrow> u32 \<Rightarrow> u32 \<Rightarrow> nat \<Rightarrow> u16 \<Rightarrow> u32 \<Rightarrow> u32 \<Rightarrow> bytes" where
  "bmp_header straight w h header_bytes bits size_image file_size =
     [0x42, 0x4D] @ le32 file_size @ le16 0 @ le16 0 @ le32 (of_nat (FILE_HEADER_BYTES + header_bytes)) @
     le32 (of_nat header_bytes) @ le32 w @ le32 h @ le16 1 @ le16 bits @
     le32 (if straight then BI_BITFIELDS else BI_RGB) @ le32 size_image @
     le32 0 @ le32 0 @ le32 0 @ le32 0 @ (if straight then bmp_v5_fields else [])"

definition bmp_pixel :: "nat \<Rightarrow> nat \<Rightarrow> bool \<Rightarrow> bytes \<Rightarrow> bytes" where
  "bmp_pixel red_at blue_at straight p =
     (if straight then [p ! blue_at, p ! 1, p ! red_at, p ! 3] else [p ! blue_at, p ! 1, p ! red_at])"

text \<open>The row loop: one row buffer, converted over and over, bottom row first.\<close>

fun bmp_rows :: "source_layout \<Rightarrow> cpu_frame \<Rightarrow> nat list \<Rightarrow> bytes \<Rightarrow> bytes option" where
  "bmp_rows l f [] row = Some []"
| "bmp_rows l f (r # rs) row =
     Option.bind (source_row l f r) (\<lambda>source.
       let row = convert_pixels (if straight_alpha l then 4 else 3)
             (bmp_pixel (fst (channels l)) (snd (channels l)) (straight_alpha l)) source row
       in map_option ((@) row) (bmp_rows l f rs row))"

definition bmp_encode :: "cpu_frame \<Rightarrow> (encode_error + bytes) option" where
  "bmp_encode f =
     (case inspect f Bmp of
        Inl e \<Rightarrow> Some (Inl e)
      | Inr l \<Rightarrow>
          if 2147483647 < unat (width f) \<or> 2147483647 < unat (height f)
          then Some (Inl (DimensionsTooLarge Bmp (width f) (height f) 2147483647))
          else
            let straight = straight_alpha l;
                header_bytes = (if straight then V5_HEADER_BYTES else INFO_HEADER_BYTES);
                bits = (if straight then 32 else 24)
            in case try_bind (row_bytes (width f) bits) (\<lambda>row_len.
                 try_bind (ok_or SizeTooLarge (usize_checked_mul row_len (unat (height f)))) (\<lambda>image.
                 try_bind (ok_or SizeTooLarge (usize_checked_add (FILE_HEADER_BYTES + header_bytes) image)) (\<lambda>total.
                 try_bind (ok_or SizeTooLarge (u32_try_from (int image))) (\<lambda>size_image.
                 try_bind (ok_or SizeTooLarge (u32_try_from (int total))) (\<lambda>file_size.
                   Inr (row_len, size_image, file_size)))))) of
                 Inl e \<Rightarrow> Some (Inl e)
               | Inr (row_len, size_image, file_size) \<Rightarrow>
                   map_option (\<lambda>rows. Inr (bmp_header straight (width f) (height f) header_bytes bits
                       size_image file_size @ rows))
                     (bmp_rows l f (rev [0..<unat (height f)]) (replicate row_len 0)))"

subsection \<open>JPEG\<close>

definition JPEG_MAX_SIDE :: u32 where "JPEG_MAX_SIDE = 65535"

definition over_white :: "u8 \<Rightarrow> u32 \<Rightarrow> u8" where
  "over_white sample a =
     (let scaled = ucast sample * a + 255 * (255 - a) in ucast ((scaled + 127) div 255 :: u32))"

definition rgb_pixel :: "nat \<Rightarrow> nat \<Rightarrow> bool \<Rightarrow> bytes \<Rightarrow> bytes" where
  "rgb_pixel red_at blue_at straight p =
     (if straight
      then map (\<lambda>i. over_white (p ! i) (ucast (p ! 3))) [red_at, 1, blue_at]
      else [p ! red_at, p ! 1, p ! blue_at])"

definition rgb_row :: "source_layout \<Rightarrow> cpu_frame \<Rightarrow> nat \<Rightarrow> nat \<Rightarrow> bytes \<Rightarrow> bytes option" where
  "rgb_row l f n row rgb =
     Option.bind (source_row l f row) (\<lambda>source.
     Option.bind (slice (row * n) ((row + 1) * n) rgb) (\<lambda>destination.
       put_bytes (row * n) (convert_pixels 3
         (rgb_pixel (fst (channels l)) (snd (channels l)) (straight_alpha l)) source destination) rgb))"

definition rgb_bytes :: "cpu_frame \<Rightarrow> source_layout \<Rightarrow> (encode_error + bytes) option" where
  "rgb_bytes f l =
     (case try_bind (ok_or SizeTooLarge (usize_checked_mul (unat (width f)) 3)) (\<lambda>n.
         try_bind (ok_or SizeTooLarge (usize_checked_mul n (unat (height f)))) (\<lambda>m. Inr (n, m))) of
        Inl e \<Rightarrow> Some (Inl e)
      | Inr (n, m) \<Rightarrow>
          map_option Inr (fold_opt (rgb_row l f n) [0..<unat (height f)] (replicate m 0)))"

text \<open>\<open>write quality rgb width height\<close> is the \<open>jpeg_encoder\<close> crate's \<open>Encoder::encode\<close>.\<close>

definition jpeg_encode ::
  "(u8 \<Rightarrow> bytes \<Rightarrow> u16 \<Rightarrow> u16 \<Rightarrow> ustring + bytes) \<Rightarrow> cpu_frame \<Rightarrow> u8 \<Rightarrow> (encode_error + bytes) option" where
  "jpeg_encode jpeg_write f quality =
     (case inspect f Jpeg of
        Inl e \<Rightarrow> Some (Inl e)
      | Inr l \<Rightarrow>
          if JPEG_MAX_SIDE < width f \<or> JPEG_MAX_SIDE < height f
          then Some (Inl (DimensionsTooLarge Jpeg (width f) (height f) JPEG_MAX_SIDE))
          else map_option (\<lambda>r. try_bind r (\<lambda>rgb.
                 case jpeg_write (if quality < 1 then 1 else if 100 < quality then 100 else quality) rgb
                     (ucast (width f)) (ucast (height f)) of
                   Inl e \<Rightarrow> Inl (WriterFailed Jpeg e)
                 | Inr out \<Rightarrow> Inr out)) (rgb_bytes f l))"

subsection \<open>PNG\<close>

datatype png_color = PngRgb | PngRgba

record png_layout =
  png_color_type :: png_color
  png_source_row_bytes :: nat
  png_output_row_bytes :: nat
  png_height :: nat
  png_swizzle :: bool
  keep_alpha :: bool

definition png_inspect :: "cpu_frame \<Rightarrow> png_error + png_layout" where
  "png_inspect f =
     (if origin f \<noteq> TopLeft then Inl (PngUnsupportedOrigin (origin f))
      else if width f = 0 \<or> height f = 0 then Inl PngEmptyDimensions
      else case encoding (frame_format f) of
        HalfFloatRgba \<Rightarrow> Inl (PngUnsupportedFormat (frame_format f))
      | EightBitRgba blue_first \<Rightarrow>
          if frame_color_space f = ScRgb then Inl (PngUnsupportedColorSpace (frame_color_space f))
          else
            try_bind (ok_or PngSizeOverflow (usize_checked_mul (unat (width f)) 4)) (\<lambda>row_len.
            try_bind (ok_or PngSizeOverflow (u32_try_from (int row_len))) (\<lambda>minimum.
              if stride_bytes f < minimum then Inl (PngInvalidStride (stride_bytes f) minimum)
              else
                try_bind (ok_or PngSizeOverflow (usize_checked_mul (unat (stride_bytes f)) (unat (height f)))) (\<lambda>required.
                  if length (pixels f) < required then Inl (PngBufferTooShort (length (pixels f)) required)
                  else
                    let keep = (alpha f = Straight) in
                    try_bind (ok_or PngSizeOverflow (usize_checked_mul (unat (width f)) (if keep then 4 else 3))) (\<lambda>out_len.
                      Inr \<lparr>png_color_type = (if keep then PngRgba else PngRgb), png_source_row_bytes = row_len,
                         png_output_row_bytes = out_len, png_height = unat (height f),
                         png_swizzle = blue_first, keep_alpha = keep\<rparr>)))))"

definition png_pixel :: "bool \<Rightarrow> bool \<Rightarrow> bytes \<Rightarrow> bytes" where
  "png_pixel swz keep p =
     (let red_at = (if swz then 2 else 0); blue_at = (if swz then 0 else 2)
      in if keep then [p ! red_at, p ! 1, p ! blue_at, p ! 3] else [p ! red_at, p ! 1, p ! blue_at])"

definition png_convert_row :: "png_layout \<Rightarrow> bytes \<Rightarrow> bytes \<Rightarrow> bytes" where
  "png_convert_row l = convert_pixels (if keep_alpha l then 4 else 3) (png_pixel (png_swizzle l) (keep_alpha l))"

fun png_rows :: "png_layout \<Rightarrow> cpu_frame \<Rightarrow> nat list \<Rightarrow> bytes \<Rightarrow> bytes list option" where
  "png_rows l f [] row = Some []"
| "png_rows l f (r # rs) row =
     (let start = r * unat (stride_bytes f) in
      Option.bind (slice start (start + png_source_row_bytes l) (pixels f)) (\<lambda>source.
        let row = png_convert_row l source row in map_option ((#) row) (png_rows l f rs row)))"

text \<open>
  \<open>write effort width height color rows\<close> is the \<open>png\<close> crate: header, the rows streamed, the end; the
  first error of any of those calls is its error.
\<close>

definition png_encode ::
  "(png_effort \<Rightarrow> u32 \<Rightarrow> u32 \<Rightarrow> png_color \<Rightarrow> bytes list \<Rightarrow> ustring + bytes) \<Rightarrow> cpu_frame \<Rightarrow> png_effort \<Rightarrow>
   (png_error + bytes) option" where
  "png_encode png_write f effort =
     (case png_inspect f of
        Inl e \<Rightarrow> Some (Inl e)
      | Inr l \<Rightarrow>
          map_option (\<lambda>rows. case png_write effort (width f) (height f) (png_color_type l) rows of
              Inl e \<Rightarrow> Inl (PngWriter e)
            | Inr out \<Rightarrow> Inr out)
            (png_rows l f [0..<unat (height f)] (replicate (png_output_row_bytes l) 0)))"

subsection \<open>\<open>encode_capture\<close>\<close>

definition encode_capture ::
  "(png_effort \<Rightarrow> u32 \<Rightarrow> u32 \<Rightarrow> png_color \<Rightarrow> bytes list \<Rightarrow> ustring + bytes) \<Rightarrow>
   (u8 \<Rightarrow> bytes \<Rightarrow> u16 \<Rightarrow> u16 \<Rightarrow> ustring + bytes) \<Rightarrow>
   cpu_frame \<Rightarrow> output_format \<Rightarrow> encode_options \<Rightarrow> (encode_error + encoded_capture) option" where
  "encode_capture png_write jpeg_write f fmt opts =
     map_option (\<lambda>r. try_bind r (\<lambda>bs.
         Inr \<lparr>encoded_bytes = bs, encoded_extension = extension fmt,
              alpha_flattened = (fmt = Jpeg \<and> alpha f = Straight)\<rparr>))
       (case fmt of
          Png \<Rightarrow> map_option (\<lambda>r. case r of Inl e \<Rightarrow> Inl (PngError e) | Inr bs \<Rightarrow> Inr bs)
                   (png_encode png_write f (png_effort opts))
        | Jpeg \<Rightarrow> jpeg_encode jpeg_write f (jpeg_quality opts)
        | Bmp \<Rightarrow> bmp_encode f)"

subsection \<open>What a frame shows\<close>

text \<open>Red, green, blue and alpha of the pixel \<open>(x, y)\<close>; the fourth byte of an opaque frame means nothing.\<close>

definition frame_colour :: "cpu_frame \<Rightarrow> nat \<Rightarrow> nat \<Rightarrow> u8 \<times> u8 \<times> u8 \<times> u8" where
  "frame_colour f x y =
     (let p = take 4 (drop (y * frame_stride f + x * 4) (pixels f)); a = (if alpha f = Straight then p ! 3 else 255)
      in case frame_format f of
           Bgra8Unorm \<Rightarrow> (p ! 2, p ! 1, p ! 0, a)
         | _ \<Rightarrow> (p ! 0, p ! 1, p ! 2, a))"

text \<open>The frames an eight-bit sRGB file can hold.\<close>

definition encodable :: "cpu_frame \<Rightarrow> bool" where
  "encodable f \<longleftrightarrow> frame_format f \<noteq> Rgba16Float \<and> frame_color_space f \<noteq> ScRgb"

definition layout_of :: "cpu_frame \<Rightarrow> source_layout" where
  "layout_of f = \<lparr>source_row_bytes = unat (width f) * 4, swizzle = (frame_format f = Bgra8Unorm),
     straight_alpha = (alpha f = Straight)\<rparr>"

text \<open>What the four byte loop reads: the pixels of one source row.\<close>

lemma length_pixel_chunks: "length (pixel_chunks xs) = length xs div 4"
  by (induction xs rule: pixel_chunks.induct) simp_all

lemma nth_pixel_chunks:
  "i < length xs div 4 \<Longrightarrow> pixel_chunks xs ! i = take 4 (drop (i * 4) xs)"
proof (induction xs arbitrary: i rule: pixel_chunks.induct)
  case (1 a b c d rest)
  have "drop (Suc n * 4) (a # b # c # d # rest) = drop (n * 4) rest" for n
    by (simp add: numeral_eq_Suc)
  with 1 show ?case by (cases i) simp_all
qed simp_all

lemma encodable_row:
  assumes "frame_ok f" "frame_format f \<noteq> Rgba16Float" "y < unat (height f)"
  shows "y * frame_stride f + unat (width f) * 4 \<le> length (pixels f)"
proof -
  have "unat (width f) * 4 \<le> frame_stride f"
    using assms(1,2) by (cases "frame_format f") (simp_all add: frame_ok_def)
  then have "y * frame_stride f + unat (width f) * 4 \<le> Suc y * frame_stride f" by simp
  also have "\<dots> \<le> unat (height f) * frame_stride f" using assms(3) by (intro mult_le_mono1) simp
  also have "\<dots> \<le> length (pixels f)" using assms(1) by (simp add: frame_ok_def mult.commute)
  finally show ?thesis .
qed

definition row_pixels :: "cpu_frame \<Rightarrow> nat \<Rightarrow> bytes list" where
  "row_pixels f y = map (\<lambda>x. take 4 (drop (y * frame_stride f + x * 4) (pixels f))) [0..<unat (width f)]"

lemma source_row_pixels:
  assumes "frame_ok f" "frame_format f \<noteq> Rgba16Float" "y < unat (height f)"
  shows "\<exists>src. slice (y * frame_stride f) (y * frame_stride f + unat (width f) * 4) (pixels f) = Some src \<and>
    pixel_chunks src = row_pixels f y"
proof -
  let ?src = "take (unat (width f) * 4) (drop (y * frame_stride f) (pixels f))"
  have len: "length ?src = unat (width f) * 4" using encodable_row [OF assms] by simp
  have "pixel_chunks ?src = row_pixels f y"
  proof (rule nth_equalityI)
    show "length (pixel_chunks ?src) = length (row_pixels f y)"
      by (simp only: length_pixel_chunks len) (simp add: row_pixels_def)
    fix i
    assume "i < length (pixel_chunks ?src)"
    then have i: "i < unat (width f)" by (simp only: length_pixel_chunks len)
    then have "i * 4 + 4 \<le> unat (width f) * 4" by simp
    then have "take 4 (drop (i * 4) ?src) = take 4 (drop (y * frame_stride f + i * 4) (pixels f))"
      by (simp add: drop_take min_def add.commute)
    then show "pixel_chunks ?src ! i = row_pixels f y ! i"
      using i nth_pixel_chunks [of i ?src] len by (simp add: row_pixels_def)
  qed
  then show ?thesis using encodable_row [OF assms] by (simp add: slice_def)
qed

lemma convert_pixels_eq:
  assumes "pixel_chunks src = ps" "length ps \<le> length row div k"
  shows "convert_pixels k g src row = concat (map g ps) @ drop (length ps * k) row"
  using assms by (simp add: convert_pixels_def)

lemma eight_bit_fits:
  assumes "frame_ok f" "frame_format f \<noteq> Rgba16Float"
  shows "usize_checked_mul (unat (width f)) 4 = Some (unat (width f) * 4)"
    and "usize_checked_mul (unat (width f)) 3 = Some (unat (width f) * 3)"
    and "u32_try_from (uint (width f) * 4) = Some (width f * 4)"
    and "\<not> stride_bytes f < width f * 4"
    and "usize_checked_mul (frame_stride f) (unat (height f)) = Some (frame_stride f * unat (height f))"
    and "\<not> length (pixels f) < frame_stride f * unat (height f)"
    and "width f \<noteq> 0" and "height f \<noteq> 0"
proof -
  show "usize_checked_mul (unat (width f)) 4 = Some (unat (width f) * 4)"
    "usize_checked_mul (unat (width f)) 3 = Some (unat (width f) * 3)"
    using unat_u32_le [of "width f"] by (simp_all add: usize_checked_mul_def)
  have le: "unat (width f) * 4 \<le> frame_stride f"
    using assms by (cases "frame_format f") (simp_all add: frame_ok_def)
  then have small: "unat (width f) * 4 < 4294967296" using unat_u32_le [of "stride_bytes f"] by linarith
  then have "unat (width f * 4) = unat (width f) * 4" by (simp add: unat_word_ariths)
  then show "\<not> stride_bytes f < width f * 4" using le by (simp add: word_less_nat_alt)
  have "int (unat (width f)) * 4 \<le> 4294967295" using small by linarith
  then have "uint (width f) * 4 \<le> 4294967295" by simp
  then show "u32_try_from (uint (width f) * 4) = Some (width f * 4)" by (simp add: u32_try_from_def)
  show "usize_checked_mul (frame_stride f) (unat (height f)) = Some (frame_stride f * unat (height f))"
    by (simp add: usize_checked_mul_def u32_product_fits)
  show "\<not> length (pixels f) < frame_stride f * unat (height f)" "width f \<noteq> 0" "height f \<noteq> 0"
    using assms(1) by (simp_all add: frame_ok_def)
qed

lemma top_left: "origin f = TopLeft"
  by (cases "origin f")

lemma encoding_swizzle:
  "frame_format f \<noteq> Rgba16Float \<Longrightarrow> encoding (frame_format f) = EightBitRgba (frame_format f = Bgra8Unorm)"
  by (cases "frame_format f") simp_all

lemma inspect_ok:
  assumes "frame_ok f"
  shows "inspect f fmt =
    (if frame_format f = Rgba16Float then Inl (UnsupportedFormat fmt Rgba16Float)
     else if frame_color_space f = ScRgb then Inl (UnsupportedColorSpace fmt ScRgb)
     else Inr (layout_of f))"
proof (cases "frame_format f = Rgba16Float")
  case True
  then show ?thesis using assms by (simp add: inspect_def top_left frame_ok_def)
next
  case False
  note fits = eight_bit_fits [OF assms False]
  show ?thesis
    by (simp add: inspect_def top_left encoding_swizzle [OF False] fits layout_of_def False)
qed

lemma png_inspect_ok:
  assumes "frame_ok f"
  shows "png_inspect f =
    (if frame_format f = Rgba16Float then Inl (PngUnsupportedFormat Rgba16Float)
     else if frame_color_space f = ScRgb then Inl (PngUnsupportedColorSpace ScRgb)
     else Inr \<lparr>png_color_type = (if alpha f = Straight then PngRgba else PngRgb),
            png_source_row_bytes = unat (width f) * 4,
            png_output_row_bytes = unat (width f) * (if alpha f = Straight then 4 else 3),
            png_height = unat (height f), png_swizzle = (frame_format f = Bgra8Unorm),
            keep_alpha = (alpha f = Straight)\<rparr>)"
proof (cases "frame_format f = Rgba16Float")
  case True
  then show ?thesis using assms by (simp add: png_inspect_def top_left frame_ok_def)
next
  case False
  note fits = eight_bit_fits [OF assms False]
  show ?thesis
    by (simp add: png_inspect_def top_left encoding_swizzle [OF False] fits False Let_def)
qed

subsection \<open>What the third-party encoders are given\<close>

definition png_colour :: "cpu_frame \<Rightarrow> u8 \<times> u8 \<times> u8 \<times> u8 \<Rightarrow> bytes" where
  "png_colour f = (\<lambda>(r, g, b, a). if alpha f = Straight then [r, g, b, a] else [r, g, b])"

text \<open>A sample composited over white, rounded to the nearest: the specification of \<open>over_white\<close>.\<close>

definition on_white :: "u8 \<Rightarrow> u8 \<Rightarrow> u8" where
  "on_white s a = of_nat ((unat s * unat a + 255 * (255 - unat a) + 127) div 255)"

definition jpeg_colour :: "u8 \<times> u8 \<times> u8 \<times> u8 \<Rightarrow> bytes" where
  "jpeg_colour = (\<lambda>(r, g, b, a). [on_white r a, on_white g a, on_white b a])"

definition bmp_colour :: "cpu_frame \<Rightarrow> u8 \<times> u8 \<times> u8 \<times> u8 \<Rightarrow> bytes" where
  "bmp_colour f = (\<lambda>(r, g, b, a). if alpha f = Straight then [b, g, r, a] else [b, g, r])"

lemma over_white_eq: "over_white s (ucast a) = on_white s a"
proof -
  let ?n = "unat s * unat a + 255 * (255 - unat a) + 127"
  have s: "unat s \<le> 255" and a: "unat a \<le> 255" by (rule unat_u8_le)+
  have p: "unat s * unat a \<le> 255 * unat a" using s by (rule mult_le_mono1)
  then have n: "?n < 4294967296" using a by linarith
  have up: "ucast v = (of_nat (unat v) :: u32)" for v :: u8 by simp
  have "(255 :: u32) - of_nat (unat a) = of_nat (255 - unat a)" using a by (simp add: of_nat_diff)
  then have eq: "ucast s * ucast a + 255 * (255 - ucast a) + 127 = (of_nat ?n :: u32)"
    unfolding up by (simp only: of_nat_add of_nat_mult of_nat_numeral)
  have "unat (of_nat ?n :: u32) = ?n" using n unfolding unat_of_nat by simp
  then have "unat ((of_nat ?n :: u32) div 255) = ?n div 255" by (simp add: unat_div)
  moreover have "ucast x = (of_nat (unat x) :: u8)" for x :: u32 by simp
  ultimately show ?thesis unfolding over_white_def on_white_def Let_def eq by metis
qed

lemma on_white_opaque: "on_white s 255 = s"
proof -
  have "(unat s * 255 + 127) div 255 = unat s" by simp
  then show ?thesis by (simp add: on_white_def)
qed

text \<open>A converted row, and all rows top to bottom, in some colour layout.\<close>

definition colour_row :: "(u8 \<times> u8 \<times> u8 \<times> u8 \<Rightarrow> bytes) \<Rightarrow> cpu_frame \<Rightarrow> nat \<Rightarrow> bytes" where
  "colour_row c f y = concat (map (\<lambda>x. c (frame_colour f x y)) [0..<unat (width f)])"

lemma length_colour_row: "(\<And>p. length (c p) = k) \<Longrightarrow> length (colour_row c f y) = unat (width f) * k"
  by (simp add: colour_row_def length_concat_rows)

lemma length_jpeg_colour [simp]: "length (jpeg_colour p) = 3"
  by (simp add: jpeg_colour_def split: prod.split)

lemma length_png_colour [simp]: "length (png_colour f p) = (if alpha f = Straight then 4 else 3)"
  by (simp add: png_colour_def split: prod.split)

lemma length_bmp_colour [simp]: "length (bmp_colour f p) = (if alpha f = Straight then 4 else 3)"
  by (simp add: bmp_colour_def split: prod.split)

lemma convert_row_colours:
  assumes "frame_ok f" "frame_format f \<noteq> Rgba16Float" "y < unat (height f)"
    and "\<And>x. g (take 4 (drop (y * frame_stride f + x * 4) (pixels f))) = c (frame_colour f x y)"
    and "unat (width f) \<le> length row div k"
  shows "\<exists>src. slice (y * frame_stride f) (y * frame_stride f + unat (width f) * 4) (pixels f) = Some src \<and>
    convert_pixels k g src row = colour_row c f y @ drop (unat (width f) * k) row"
proof -
  obtain src where src: "slice (y * frame_stride f) (y * frame_stride f + unat (width f) * 4) (pixels f) = Some src"
      "pixel_chunks src = row_pixels f y"
    using source_row_pixels [OF assms(1-3)] by blast
  have "length (row_pixels f y) = unat (width f)" by (simp add: row_pixels_def)
  moreover have "concat (map g (row_pixels f y)) = colour_row c f y"
    by (simp add: row_pixels_def colour_row_def comp_def assms(4))
  ultimately have "convert_pixels k g src row = colour_row c f y @ drop (unat (width f) * k) row"
    using convert_pixels_eq [OF src(2), of row k g] assms(5) by simp
  with src(1) show ?thesis by blast
qed

lemma png_pixel_colour:
  "frame_format f \<noteq> Rgba16Float \<Longrightarrow>
    png_pixel (frame_format f = Bgra8Unorm) (alpha f = Straight) (take 4 (drop (y * frame_stride f + x * 4) (pixels f))) =
    png_colour f (frame_colour f x y)"
  by (cases "frame_format f") (simp_all add: png_pixel_def png_colour_def frame_colour_def Let_def)

lemma rgb_pixel_colour:
  "frame_format f \<noteq> Rgba16Float \<Longrightarrow>
    rgb_pixel (fst (channels (layout_of f))) (snd (channels (layout_of f))) (straight_alpha (layout_of f))
      (take 4 (drop (y * frame_stride f + x * 4) (pixels f))) = jpeg_colour (frame_colour f x y)"
  by (cases "frame_format f")
    (simp_all add: rgb_pixel_def jpeg_colour_def frame_colour_def Let_def layout_of_def channels_def over_white_eq on_white_opaque)

lemma bmp_pixel_colour:
  "frame_format f \<noteq> Rgba16Float \<Longrightarrow>
    bmp_pixel (fst (channels (layout_of f))) (snd (channels (layout_of f))) (straight_alpha (layout_of f))
      (take 4 (drop (y * frame_stride f + x * 4) (pixels f))) = bmp_colour f (frame_colour f x y)"
  by (cases "frame_format f")
    (simp_all add: bmp_pixel_def bmp_colour_def frame_colour_def Let_def layout_of_def channels_def)

definition png_layout_of :: "cpu_frame \<Rightarrow> png_layout" where
  "png_layout_of f = \<lparr>png_color_type = (if alpha f = Straight then PngRgba else PngRgb),
     png_source_row_bytes = unat (width f) * 4,
     png_output_row_bytes = unat (width f) * (if alpha f = Straight then 4 else 3),
     png_height = unat (height f), png_swizzle = (frame_format f = Bgra8Unorm), keep_alpha = (alpha f = Straight)\<rparr>"

lemma png_rows_colours:
  assumes "frame_ok f" "frame_format f \<noteq> Rgba16Float" "\<forall>y\<in>set ys. y < unat (height f)"
    and "length row = unat (width f) * (if alpha f = Straight then 4 else 3)"
  shows "png_rows (png_layout_of f) f ys row = Some (map (colour_row (png_colour f) f) ys)"
  using assms(3,4)
proof (induction ys arbitrary: row)
  case (Cons y ys)
  have "unat (width f) \<le> length row div (if alpha f = Straight then 4 else 3)" using Cons.prems(2) by simp
  then obtain src where src: "slice (y * frame_stride f) (y * frame_stride f + unat (width f) * 4) (pixels f) = Some src"
      "convert_pixels (if alpha f = Straight then 4 else 3) (png_pixel (frame_format f = Bgra8Unorm) (alpha f = Straight))
        src row = colour_row (png_colour f) f y"
    using convert_row_colours [where g = "png_pixel (frame_format f = Bgra8Unorm) (alpha f = Straight)"
        and c = "png_colour f" and y = y and row = row, OF assms(1,2) _ png_pixel_colour [OF assms(2)]] Cons.prems
    by fastforce
  then have conv: "png_convert_row (png_layout_of f) src row = colour_row (png_colour f) f y"
    by (simp add: png_convert_row_def png_layout_of_def)
  have "length (colour_row (png_colour f) f y) = unat (width f) * (if alpha f = Straight then 4 else 3)"
    by (rule length_colour_row) simp
  from Cons.IH [OF _ this] Cons.prems(1)
  have "png_rows (png_layout_of f) f ys (colour_row (png_colour f) f y) = Some (map (colour_row (png_colour f) f) ys)"
    by simp
  moreover have "png_source_row_bytes (png_layout_of f) = unat (width f) * 4" by (simp add: png_layout_of_def)
  ultimately show ?case
    using src(1) by (simp only: png_rows.simps Let_def Option.bind.bind_lunit list.map option.map conv)
qed simp

lemma source_row_layout:
  "source_row (layout_of f) f y = slice (y * frame_stride f) (y * frame_stride f + unat (width f) * 4) (pixels f)"
  by (simp add: source_row_def layout_of_def Let_def)

lemma put_bytes_mid:
  "length row = length b \<Longrightarrow> put_bytes (length a) row (a @ b @ c) = Some (a @ row @ c)"
  by (simp add: put_bytes_def)

lemma rgb_rows_colours:
  assumes "frame_ok f" "frame_format f \<noteq> Rgba16Float" "n \<le> unat (height f)"
  shows "fold_opt (rgb_row (layout_of f) f (unat (width f) * 3)) [0..<n] (replicate (unat (width f) * 3 * unat (height f)) 0) =
    Some (concat (map (colour_row jpeg_colour f) [0..<n]) @ replicate (unat (width f) * 3 * (unat (height f) - n)) 0)"
  using assms(3)
proof (induction n)
  case (Suc n)
  let ?w = "unat (width f) * 3" and ?h = "unat (height f)"
  let ?top = "concat (map (colour_row jpeg_colour f) [0..<n])"
  have "length (colour_row jpeg_colour f y) = ?w" for y by (rule length_colour_row) simp
  then have len: "length ?top = n * ?w" by (simp add: length_concat_rows)
  have rest: "replicate (?w * (?h - n)) (0 :: u8) = replicate ?w 0 @ replicate (?w * (?h - Suc n)) 0"
  proof -
    have "?w * (?h - n) = ?w + ?w * (?h - Suc n)" using Suc.prems by (simp add: Suc_diff_Suc flip: mult_Suc_right)
    then show ?thesis by (simp only: replicate_add)
  qed
  let ?buf = "?top @ replicate ?w 0 @ replicate (?w * (?h - Suc n)) (0 :: u8)"
  have dest: "slice (n * ?w) ((n + 1) * ?w) ?buf = Some (replicate ?w 0)"
    by (simp add: slice_def len)
  obtain src where src: "slice (n * frame_stride f) (n * frame_stride f + unat (width f) * 4) (pixels f) = Some src"
      "convert_pixels 3 (rgb_pixel (fst (channels (layout_of f))) (snd (channels (layout_of f))) (straight_alpha (layout_of f)))
        src (replicate ?w 0) = colour_row jpeg_colour f n"
    using convert_row_colours [where y = n and row = "replicate ?w 0" and k = 3 and c = jpeg_colour, OF assms(1,2) _
        rgb_pixel_colour [OF assms(2)]] Suc.prems by fastforce
  have "put_bytes (n * ?w) (colour_row jpeg_colour f n) ?buf =
      Some (?top @ colour_row jpeg_colour f n @ replicate (?w * (?h - Suc n)) 0)"
    using put_bytes_mid [of "colour_row jpeg_colour f n" "replicate ?w 0" ?top] len
    by (simp add: length_colour_row)
  then have "rgb_row (layout_of f) f ?w n ?buf =
      Some (?top @ colour_row jpeg_colour f n @ replicate (?w * (?h - Suc n)) 0)"
    using src dest by (simp add: rgb_row_def source_row_layout del: slice_eq_Some)
  with Suc show ?case by (simp add: fold_opt_append rest)
qed simp

subsection \<open>The BMP file\<close>

abbreviation bmp_bytes :: "cpu_frame \<Rightarrow> nat" where
  "bmp_bytes f \<equiv> (if alpha f = Straight then 4 else 3)"

abbreviation bmp_header_bytes :: "cpu_frame \<Rightarrow> nat" where
  "bmp_header_bytes f \<equiv> (if alpha f = Straight then V5_HEADER_BYTES else INFO_HEADER_BYTES)"

definition bmp_row_len :: "cpu_frame \<Rightarrow> nat" where
  "bmp_row_len f = (unat (width f) * bmp_bytes f + 3) div 4 * 4"

definition bmp_row :: "cpu_frame \<Rightarrow> nat \<Rightarrow> bytes" where
  "bmp_row f y = colour_row (bmp_colour f) f y @ replicate (bmp_row_len f - unat (width f) * bmp_bytes f) 0"

definition bmp_total :: "cpu_frame \<Rightarrow> nat" where
  "bmp_total f = FILE_HEADER_BYTES + bmp_header_bytes f + bmp_row_len f * unat (height f)"

definition bmp_file :: "cpu_frame \<Rightarrow> bytes" where
  "bmp_file f = bmp_header (alpha f = Straight) (width f) (height f) (bmp_header_bytes f)
     (if alpha f = Straight then 32 else 24) (of_nat (bmp_row_len f * unat (height f))) (of_nat (bmp_total f)) @
     concat (map (bmp_row f) (rev [0..<unat (height f)]))"

lemma bmp_row_len_ge: "unat (width f) * bmp_bytes f \<le> bmp_row_len f"
proof -
  have "n \<le> (n + 3) div 4 * 4" for n :: nat by presburger
  then show ?thesis unfolding bmp_row_len_def .
qed

lemma length_bmp_row: "length (bmp_row f y) = bmp_row_len f"
  using bmp_row_len_ge [of f] length_colour_row [of "bmp_colour f" "bmp_bytes f" f y] by (simp add: bmp_row_def)

lemma bmp_rows_colours:
  assumes "frame_ok f" "frame_format f \<noteq> Rgba16Float" "\<forall>y\<in>set ys. y < unat (height f)"
    and "length row = bmp_row_len f"
    and "drop (unat (width f) * bmp_bytes f) row = replicate (bmp_row_len f - unat (width f) * bmp_bytes f) 0"
  shows "bmp_rows (layout_of f) f ys row = Some (concat (map (bmp_row f) ys))"
  using assms(3-5)
proof (induction ys arbitrary: row)
  case (Cons y ys)
  have "unat (width f) = unat (width f) * bmp_bytes f div bmp_bytes f" by simp
  also have "\<dots> \<le> length row div bmp_bytes f"
    using bmp_row_len_ge [of f] Cons.prems(2) by (intro div_le_mono) simp
  finally have room: "unat (width f) \<le> length row div bmp_bytes f" .
  obtain src where src: "slice (y * frame_stride f) (y * frame_stride f + unat (width f) * 4) (pixels f) = Some src"
      "convert_pixels (bmp_bytes f)
        (bmp_pixel (fst (channels (layout_of f))) (snd (channels (layout_of f))) (straight_alpha (layout_of f))) src row =
       colour_row (bmp_colour f) f y @ drop (unat (width f) * bmp_bytes f) row"
    using convert_row_colours [where y = y and row = row and c = "bmp_colour f", OF assms(1,2) _
        bmp_pixel_colour [OF assms(2)] room] Cons.prems(1) by auto
  have st: "straight_alpha (layout_of f) = (alpha f = Straight)" by (simp add: layout_of_def)
  have conv: "convert_pixels (bmp_bytes f)
      (bmp_pixel (fst (channels (layout_of f))) (snd (channels (layout_of f))) (alpha f = Straight)) src row = bmp_row f y"
    using src(2) Cons.prems(3) by (simp only: bmp_row_def st)
  have "drop (unat (width f) * bmp_bytes f) (bmp_row f y) =
      replicate (bmp_row_len f - unat (width f) * bmp_bytes f) 0"
    using length_colour_row [of "bmp_colour f" "bmp_bytes f" f y] by (simp add: bmp_row_def)
  from Cons.IH [OF _ length_bmp_row this] Cons.prems(1)
  have "bmp_rows (layout_of f) f ys (bmp_row f y) = Some (concat (map (bmp_row f) ys))" by simp
  then show ?case
    by (simp only: bmp_rows.simps source_row_layout src(1) Option.bind.bind_lunit Let_def st conv
        option.map list.map concat.simps)
qed simp

lemma bmp_encode_eq:
  assumes "frame_ok f" "encodable f"
  shows "bmp_encode f = Some (if bmp_total f < 4294967296 then Inr (bmp_file f) else Inl SizeTooLarge)"
proof -
  have fmt: "frame_format f \<noteq> Rgba16Float" and space: "frame_color_space f \<noteq> ScRgb"
    using assms(2) by (simp_all add: encodable_def)
  have inspect: "inspect f Bmp = Inr (layout_of f)" using inspect_ok [OF assms(1)] fmt space by simp
  have small: "unat (width f) < 1073741824" "unat (height f) < 1073741824"
    using frame_ok_small [OF assms(1)] by simp_all
  have st: "straight_alpha (layout_of f) = (alpha f = Straight)" by (simp add: layout_of_def)
  have row_len: "row_bytes (width f) (if alpha f = Straight then 32 else 24) = Inr (bmp_row_len f)"
    using small(1) by (simp add: row_bytes_def usize_checked_mul_def usize_checked_add_def bmp_row_len_def)
  have "bmp_row_len f \<le> 4294967299"
    using small(1) unfolding bmp_row_len_def by (simp split: if_split) presburger
  then have "bmp_row_len f * unat (height f) \<le> 4294967299 * 1073741823" using small(2) by (intro mult_le_mono) simp_all
  then have image: "usize_checked_mul (bmp_row_len f) (unat (height f)) = Some (bmp_row_len f * unat (height f))"
    and total: "usize_checked_add (FILE_HEADER_BYTES + bmp_header_bytes f) (bmp_row_len f * unat (height f)) = Some (bmp_total f)"
    by (simp_all add: usize_checked_mul_def usize_checked_add_def bmp_total_def FILE_HEADER_BYTES_def
        V5_HEADER_BYTES_def INFO_HEADER_BYTES_def)
  have rows: "bmp_rows (layout_of f) f (rev [0..<unat (height f)]) (replicate (bmp_row_len f) 0) =
      Some (concat (map (bmp_row f) (rev [0..<unat (height f)])))"
    by (rule bmp_rows_colours [OF assms(1) fmt]) simp_all
  have fits: "u32_try_from (int n) = (if n < 4294967296 then Some (of_nat n) else None)" for n
    by (simp add: u32_try_from_def)
  show ?thesis
  proof (cases "bmp_total f < 4294967296")
    case True
    then have "bmp_row_len f * unat (height f) < 4294967296" by (simp add: bmp_total_def)
    with True small show ?thesis
      by (simp add: bmp_encode_def inspect st row_len image total fits rows bmp_file_def Let_def del: of_nat_mult)
  next
    case False
    with small show ?thesis
      by (simp add: bmp_encode_def inspect st row_len image total fits Let_def del: of_nat_mult)
  qed
qed

subsection \<open>Reading a BMP file\<close>

text \<open>
  A reader for the two kinds of BMP file, after the format's definition: a 14-byte file header, an
  information header (40 bytes, or the 124 of version 5 with its channel masks), and rows stored
  bottom up, each padded to four bytes. A picture is its sides and, for each pixel from
  the top left, red, green, blue and alpha.
\<close>

record picture =
  pic_width :: nat
  pic_height :: nat
  pic_colour :: "nat \<Rightarrow> nat \<Rightarrow> u8 \<times> u8 \<times> u8 \<times> u8"

fun le_value :: "bytes \<Rightarrow> nat" where
  "le_value [] = 0"
| "le_value (b # bs) = unat b + 256 * le_value bs"

definition field :: "nat \<Rightarrow> nat \<Rightarrow> bytes \<Rightarrow> nat" where
  "field at n bs = le_value (take n (drop at bs))"

definition bmp_read :: "bytes \<Rightarrow> picture option" where
  "bmp_read bs =
     (let start = field 10 4 bs; header = field 14 4 bs; w = field 18 4 bs; h = field 22 4 bs;
          bits = field 28 2 bs; compression = field 30 4 bs; stride = (w * bits + 31) div 32 * 4
      in if take 2 bs \<noteq> map of_char ''BM'' \<or> field 2 4 bs \<noteq> length bs \<or> field 26 2 bs \<noteq> 1 \<or>
            2147483648 \<le> w \<or> 2147483648 \<le> h \<or> length bs < start + stride * h then None
         else if header = 40 \<and> compression = 0 \<and> bits = 24 then
           Some \<lparr>pic_width = w, pic_height = h, pic_colour = (\<lambda>x y.
             let at = start + (h - 1 - y) * stride + x * 3 in (bs ! (at + 2), bs ! (at + 1), bs ! at, 255))\<rparr>
         else if header = 124 \<and> compression = 3 \<and> bits = 32 \<and> field 54 4 bs = 0x00FF0000 \<and>
             field 58 4 bs = 0x0000FF00 \<and> field 62 4 bs = 0x000000FF \<and> field 66 4 bs = 0xFF000000 then
           Some \<lparr>pic_width = w, pic_height = h, pic_colour = (\<lambda>x y.
             let at = start + (h - 1 - y) * stride + x * 4 in (bs ! (at + 2), bs ! (at + 1), bs ! at, bs ! (at + 3)))\<rparr>
         else None)"

lemma unat_byte_of: "unat (ucast (drop_bit k (v :: 'a::len word)) :: u8) = unat v div 2 ^ k mod 256"
proof -
  have "unat (drop_bit k v) = unat v div 2 ^ k"
    unfolding unsigned_drop_bit_eq by (simp add: drop_bit_eq_div flip: unsigned_take_bit_eq)
  then show ?thesis by (simp only: unsigned_ucast_eq) (simp add: take_bit_eq_mod)
qed

lemma le_value_le32: "le_value (le32 v) = unat v"
proof -
  have b: "unat (ucast v :: u8) = unat v mod 256" using unat_byte_of [of 0 v] by simp
  have "n = n mod 256 + 256 * (n div 256 mod 256 + 256 * (n div 65536 mod 256 + 256 * (n div 16777216 mod 256)))"
    if "n < 4294967296" for n :: nat
  proof -
    have "n div 65536 = n div 256 div 256" "n div 16777216 = n div 256 div 256 div 256"
      by (simp_all add: div_mult2_eq [symmetric])
    moreover have "n div 256 div 256 div 256 < 256" using that by (simp add: less_mult_imp_div_less div_mult2_eq [symmetric])
    ultimately show ?thesis using div_mult_mod_eq [of n 256] div_mult_mod_eq [of "n div 256" 256]
        div_mult_mod_eq [of "n div 256 div 256" 256] by simp
  qed
  from this [of "unat v"] show ?thesis
    using unat_u32_le [of v] by (simp add: le32_def unat_byte_of b)
qed

lemma le_value_le16: "le_value (le16 v) = unat v"
proof -
  have b: "unat (ucast v :: u8) = unat v mod 256" using unat_byte_of [of 0 v] by simp
  have "unat v < 65536" using unsigned_less [of v, where ?'a = nat] by simp
  then have "unat v div 256 < 256" by (simp add: less_mult_imp_div_less)
  then show ?thesis by (simp add: le16_def unat_byte_of b)
qed

lemma length_le [simp]: "length (le16 u) = 2" "length (le32 v) = 4"
  by (simp_all add: le16_def le32_def)

text \<open>A field is found by the lengths of what precedes it.\<close>

lemma field_here: "length v = n \<Longrightarrow> field 0 n (v @ bs) = le_value v"
  by (simp add: field_def)

lemma field_skip: "length v \<le> at \<Longrightarrow> field at n (v @ bs) = field (at - length v) n bs"
  by (simp add: field_def)

lemma field_Cons: "0 < at \<Longrightarrow> field at n (b # bs) = field (at - 1) n bs"
  by (cases at) (simp_all add: field_def)

lemmas header_fields = field_here field_skip field_Cons le_value_le32 le_value_le16

lemma length_bmp_header:
  "length (bmp_header (alpha f = Straight) w h n b s t) = FILE_HEADER_BYTES + bmp_header_bytes f"
  by (simp add: bmp_header_def bmp_v5_fields_def FILE_HEADER_BYTES_def V5_HEADER_BYTES_def INFO_HEADER_BYTES_def
      length_concat sum_list_replicate)

lemma bmp_fields:
  fixes bs :: bytes
  assumes "bs = bmp_header straight w h n bits img len @ rows" "n < 4294967280"
  shows "take 2 bs = [0x42, 0x4D]" "field 2 4 bs = unat len" "field 10 4 bs = 14 + n" "field 14 4 bs = n"
    "field 18 4 bs = unat w" "field 22 4 bs = unat h" "field 26 2 bs = 1" "field 28 2 bs = unat bits"
    "field 30 4 bs = (if straight then 3 else 0)"
    "straight \<Longrightarrow> field 54 4 bs = 0x00FF0000" "straight \<Longrightarrow> field 58 4 bs = 0x0000FF00"
    "straight \<Longrightarrow> field 62 4 bs = 0x000000FF" "straight \<Longrightarrow> field 66 4 bs = 0xFF000000"
proof -
  have n: "unat (of_nat (14 + n) :: u32) = 14 + n" "unat (of_nat n :: u32) = n"
    using assms(2) by (simp_all only: unat_of_nat) (simp_all add: take_bit_nat_eq_self)
  show "take 2 bs = [0x42, 0x4D]" "field 2 4 bs = unat len" "field 10 4 bs = 14 + n" "field 14 4 bs = n"
    "field 18 4 bs = unat w" "field 22 4 bs = unat h" "field 26 2 bs = 1" "field 28 2 bs = unat bits"
    "field 30 4 bs = (if straight then 3 else 0)"
    using n by (simp_all add: assms(1) bmp_header_def header_fields FILE_HEADER_BYTES_def BI_RGB_def BI_BITFIELDS_def del: of_nat_add)
  show "straight \<Longrightarrow> field 54 4 bs = 0x00FF0000" "straight \<Longrightarrow> field 58 4 bs = 0x0000FF00"
    "straight \<Longrightarrow> field 62 4 bs = 0x000000FF" "straight \<Longrightarrow> field 66 4 bs = 0xFF000000"
    by (simp_all add: assms(1) bmp_header_def bmp_v5_fields_def header_fields FILE_HEADER_BYTES_def)
qed

lemma bmp_colour_at:
  assumes "x < unat (width f)" "y < unat (height f)" "i < bmp_bytes f"
  shows "bmp_file f ! (FILE_HEADER_BYTES + bmp_header_bytes f +
      (unat (height f) - 1 - y) * bmp_row_len f + x * bmp_bytes f + i) = bmp_colour f (frame_colour f x y) ! i"
proof -
  let ?h = "unat (height f)" and ?k = "bmp_bytes f" and ?n = "bmp_row_len f"
  let ?r = "?h - 1 - y"
  have rows: "map (bmp_row f) (rev [0..<?h]) = map (\<lambda>r. bmp_row f (?h - 1 - r)) [0..<?h]"
    by (simp add: rev_nth list_eq_iff_nth_eq)
  have c: "x * ?k + i < unat (width f) * ?k" by (rule row_major_less [OF assms(1,3)])
  then have cn: "x * ?k + i < ?n" using bmp_row_len_ge [of f] by linarith
  have r: "?r < ?h" "?h - 1 - ?r = y" using assms(2) by linarith+
  have "bmp_file f ! (FILE_HEADER_BYTES + bmp_header_bytes f + ?r * ?n + x * ?k + i) =
      concat (map (bmp_row f) (rev [0..<?h])) ! (?r * ?n + (x * ?k + i))"
    by (simp add: bmp_file_def nth_append length_bmp_header add.assoc)
  also have "\<dots> = bmp_row f (?h - 1 - ?r) ! (x * ?k + i)"
    unfolding rows by (rule nth_concat_rows) (use r(1) cn in \<open>simp_all add: length_bmp_row\<close>)
  also have "\<dots> = colour_row (bmp_colour f) f y ! (x * ?k + i)"
    unfolding r(2) bmp_row_def using c length_colour_row [of "bmp_colour f" ?k f y] by (simp add: nth_append)
  also have "\<dots> = bmp_colour f (frame_colour f x y) ! i"
    unfolding colour_row_def by (rule nth_concat_rows) (use assms in simp_all)
  finally show ?thesis .
qed

lemma length_bmp_file: "length (bmp_file f) = bmp_total f"
  by (simp add: bmp_file_def length_bmp_header bmp_total_def length_concat_rows [where n = "bmp_row_len f"] length_bmp_row
      mult.commute)

lemma bmp_stride:
  "(unat (width f) * (if alpha f = Straight then 32 else 24) + 31) div 32 * 4 = bmp_row_len f"
proof -
  have "(w * 24 + 31) div 32 = (w * 3 + 3) div 4" "(w * 32 + 31) div 32 = (w * 4 + 3) div 4" for w :: nat
    by presburger+
  then show ?thesis by (simp add: bmp_row_len_def)
qed

lemma opaque_colour: "alpha f \<noteq> Straight \<Longrightarrow> frame_colour f x y = (r, g, b, a) \<Longrightarrow> a = 255"
  by (auto simp: frame_colour_def Let_def split: pixel_format.splits)

lemma bmp_read_file:
  assumes "frame_ok f" "bmp_total f < 4294967296"
  shows "\<exists>p. bmp_read (bmp_file f) = Some p \<and> pic_width p = unat (width f) \<and> pic_height p = unat (height f) \<and>
    (\<forall>x < unat (width f). \<forall>y < unat (height f). pic_colour p x y = frame_colour f x y)"
proof -
  let ?bs = "bmp_file f" and ?n = "bmp_header_bytes f"
  have n: "?n < 4294967280" by (simp add: V5_HEADER_BYTES_def INFO_HEADER_BYTES_def)
  note fields = bmp_fields [OF bmp_file_def n]
  have size: "unat (of_nat (bmp_total f) :: u32) = bmp_total f"
    using assms(2) by (simp add: unat_of_nat take_bit_nat_eq_self)
  have small: "unat (width f) < 2147483648" "unat (height f) < 2147483648"
    using frame_ok_small [OF assms(1)] by simp_all
  have bits: "unat (if alpha f = Straight then 32 else 24 :: u16) = (if alpha f = Straight then 32 else 24)" by simp
  have start: "14 + ?n + bmp_row_len f * unat (height f) = bmp_total f" by (simp add: bmp_total_def FILE_HEADER_BYTES_def)
  have whole: "\<not> (take 2 ?bs \<noteq> map of_char ''BM'' \<or> field 2 4 ?bs \<noteq> length ?bs \<or> field 26 2 ?bs \<noteq> 1 \<or>
      2147483648 \<le> field 18 4 ?bs \<or> 2147483648 \<le> field 22 4 ?bs \<or>
      length ?bs < field 10 4 ?bs + (field 18 4 ?bs * field 28 2 ?bs + 31) div 32 * 4 * field 22 4 ?bs)"
    using small start unfolding fields size bits bmp_stride length_bmp_file by simp
  show ?thesis
  proof (cases "alpha f = Straight")
    case True
    have read: "bmp_read ?bs = Some \<lparr>pic_width = unat (width f), pic_height = unat (height f),
        pic_colour = (\<lambda>x y. let at = 138 + (unat (height f) - 1 - y) * bmp_row_len f + x * 4
          in (?bs ! (at + 2), ?bs ! (at + 1), ?bs ! at, ?bs ! (at + 3)))\<rparr>"
      unfolding bmp_read_def Let_def if_not_P [OF whole] unfolding fields(3-9) fields(10-13) [OF True] bits bmp_stride
      by (simp add: True V5_HEADER_BYTES_def)
    have at: "?bs ! (138 + (unat (height f) - 1 - y) * bmp_row_len f + x * 4 + i) = bmp_colour f (frame_colour f x y) ! i"
      if "x < unat (width f)" "y < unat (height f)" "i < 4" for x y i
      using bmp_colour_at [of x f y i] that by (simp add: True FILE_HEADER_BYTES_def V5_HEADER_BYTES_def)
    show ?thesis
      unfolding read using at [where i = 0] at [where i = 1] at [where i = 2] at [where i = 3]
      by (simp add: Let_def bmp_colour_def True split: prod.splits)
  next
    case False
    have read: "bmp_read ?bs = Some \<lparr>pic_width = unat (width f), pic_height = unat (height f),
        pic_colour = (\<lambda>x y. let at = 54 + (unat (height f) - 1 - y) * bmp_row_len f + x * 3
          in (?bs ! (at + 2), ?bs ! (at + 1), ?bs ! at, 255))\<rparr>"
      unfolding bmp_read_def Let_def if_not_P [OF whole] unfolding fields(3-9) bits bmp_stride
      by (simp add: False INFO_HEADER_BYTES_def)
    have at: "?bs ! (54 + (unat (height f) - 1 - y) * bmp_row_len f + x * 3 + i) = bmp_colour f (frame_colour f x y) ! i"
      if "x < unat (width f)" "y < unat (height f)" "i < 3" for x y i
      using bmp_colour_at [of x f y i] that by (simp add: False FILE_HEADER_BYTES_def INFO_HEADER_BYTES_def)
    show ?thesis
      unfolding read using at [where i = 0] at [where i = 1] at [where i = 2]
      by (auto simp: Let_def bmp_colour_def False split: prod.splits dest: opaque_colour [OF False])
  qed
qed

subsection \<open>Properties\<close>



text \<open>For the examples: containers that store what they are given.\<close>

definition stored_png :: "png_effort \<Rightarrow> u32 \<Rightarrow> u32 \<Rightarrow> png_color \<Rightarrow> bytes list \<Rightarrow> ustring + bytes" where
  "stored_png effort w h c rows = Inr (concat rows)"

definition stored_jpeg :: "u8 \<Rightarrow> bytes \<Rightarrow> u16 \<Rightarrow> u16 \<Rightarrow> ustring + bytes" where
  "stored_jpeg q rgb w h = Inr (q # rgb)"

lemma sample_encodable: "encodable sample_frame" "unat (width sample_frame) = 2" "unat (height sample_frame) = 2"
  "alpha sample_frame = Opaque"
  by (simp_all add: encodable_def sample_frame_def)

lemma sample_colours:
  "frame_colour sample_frame 0 0 = (3, 2, 1, 255)" "frame_colour sample_frame (Suc 0) 0 = (7, 6, 5, 255)"
  "frame_colour sample_frame 0 (Suc 0) = (13, 12, 11, 255)" "frame_colour sample_frame (Suc 0) (Suc 0) = (17, 16, 15, 255)"
  by (simp_all add: frame_colour_def sample_frame_def)



end
