(* ===== verification/Clock.thy ===== *)
theory Clock
  imports Prelude "HOL-Library.Signed_Division"
begin

section \<open>The calendar date of a Unix time\<close>

text \<open>
  Models \<open>captastic-app/src/clock.rs\<close>, which names the moments of log lines and of file names.
  The reference is \<open>next_day\<close>, the day after a date by the Gregorian rules.
\<close>

text \<open>
  \<open>i64\<close> values are \<open>int\<close>: the days of any \<open>i64\<close> number of seconds stay far inside the width.
  \<open>sdiv\<close> is the truncating division of the source where the dividend may be negative; the other
  dividends are not negative (\<open>day_of_era_bounds\<close>).
\<close>

definition civil_date_from_unix_days :: "int \<Rightarrow> int \<times> int \<times> int" where
  "civil_date_from_unix_days days =
    (let shifted = days + 719468;
         era = (if shifted \<ge> 0 then shifted else shifted - 146096) sdiv 146097;
         day_of_era = shifted - era * 146097;
         year_of_era = (day_of_era - day_of_era div 1460 + day_of_era div 36524
                        - day_of_era div 146096) div 365;
         year = year_of_era + era * 400;
         day_of_year = day_of_era - (365 * year_of_era + year_of_era div 4 - year_of_era div 100);
         month_prime = (5 * day_of_year + 2) div 153;
         day = day_of_year - (153 * month_prime + 2) div 5 + 1;
         month = month_prime + (if month_prime < 10 then 3 else - 9)
     in (year + (if month \<le> 2 then 1 else 0), month, day))"

definition utc_parts :: "nat \<Rightarrow> int \<times> int \<times> int \<times> int \<times> int \<times> int \<times> nat" where
  "utc_parts unix_micros =
    (let seconds = (if unix_micros div 1000000 < 2 ^ 63 then int (unix_micros div 1000000)
                    else 2 ^ 63 - 1);
         millis = (unix_micros mod 1000000) div 1000;
         days = seconds div 86400;
         seconds_of_day = seconds mod 86400;
         (year, month, day) = civil_date_from_unix_days days
     in (year, month, day, seconds_of_day div 3600, (seconds_of_day mod 3600) div 60,
         seconds_of_day mod 60, millis))"

text \<open>The Gregorian calendar, one day at a time.\<close>

definition leap_year :: "int \<Rightarrow> bool" where
  "leap_year y \<longleftrightarrow> 4 dvd y \<and> (\<not> 100 dvd y \<or> 400 dvd y)"

definition days_in_month :: "int \<Rightarrow> int \<Rightarrow> int" where
  "days_in_month y m = (if m = 2 then (if leap_year y then 29 else 28)
     else if m \<in> {4, 6, 9, 11} then 30 else 31)"

definition real_date :: "int \<times> int \<times> int \<Rightarrow> bool" where
  "real_date date = (case date of (y, m, d) \<Rightarrow>
     1 \<le> m \<and> m \<le> 12 \<and> 1 \<le> d \<and> d \<le> days_in_month y m)"

definition next_day :: "int \<times> int \<times> int \<Rightarrow> int \<times> int \<times> int" where
  "next_day date = (case date of (y, m, d) \<Rightarrow>
     if d < days_in_month y m then (y, m, d + 1)
     else if m < 12 then (y, m + 1, 1) else (y + 1, 1, 1))"

lemma div_span:
  fixes x n :: int
  assumes "0 < n"
  shows "n * (x div n) \<le> x" and "x < n * (x div n) + n"
  using pos_mod_sign [OF assms, of x] pos_mod_bound [OF assms, of x] mult_div_mod_eq [of n x]
  by linarith+

lemma era_floor: "(if s \<ge> 0 then s else s - 146096) sdiv 146097 = s div (146097 :: int)"
proof (cases "s \<ge> 0")
  case True
  then show ?thesis by (cases "s = 0") (auto simp: signed_divide_int_def sgn_if)
next
  case False
  then have "sgn (s - 146096) = - 1" and "\<bar>s - 146096\<bar> = 146096 - s" by auto
  moreover have "(146096 - s) div 146097 = - (s div 146097)"
    using div_span [of 146097 s] mult_div_mod_eq [of 146097 s]
    by (intro int_div_pos_eq [where r = "146096 - s mod 146097"]) linarith+
  ultimately show ?thesis using False by (simp add: signed_divide_int_def)
qed

text \<open>
  Years here run from March to February within an era of 400, so that the leap day is the
  last. A day of the era is \<open>j\<close> days into year \<open>k\<close> of the \<open>q\<close>-th four years of century \<open>c\<close>.
\<close>

definition year_of :: "int \<Rightarrow> int" where
  "year_of doe = (doe - doe div 1460 + doe div 36524 - doe div 146096) div 365"

definition year_start :: "int \<Rightarrow> int" where
  "year_start y = 365 * y + y div 4 - y div 100"

definition month_day :: "int \<Rightarrow> int \<times> int" where
  "month_day doy = (let mp = (5 * doy + 2) div 153
     in (mp + (if mp < 10 then 3 else - 9), doy - (153 * mp + 2) div 5 + 1))"

definition date_of :: "int \<Rightarrow> int \<Rightarrow> int \<times> int \<times> int" where
  "date_of y doy = (case month_day doy of (m, d) \<Rightarrow> (y + (if m \<le> 2 then 1 else 0), m, d))"

definition long_year :: "int \<Rightarrow> int \<Rightarrow> int \<Rightarrow> bool" where
  "long_year c q k \<longleftrightarrow> k = 3 \<and> (q = 24 \<longrightarrow> c = 3)"

definition era_day :: "int \<Rightarrow> int \<Rightarrow> int \<Rightarrow> int \<Rightarrow> int \<Rightarrow> bool" where
  "era_day doe c q k j \<longleftrightarrow> 0 \<le> c \<and> c \<le> 3 \<and> 0 \<le> q \<and> q \<le> 24 \<and> 0 \<le> k \<and> k \<le> 3 \<and> 0 \<le> j
     \<and> j \<le> (if long_year c q k then 365 else 364) \<and> doe = 36524 * c + 1461 * q + 365 * k + j"

lemma civil_date_split:
  "civil_date_from_unix_days days =
    (let era = (days + 719468) div 146097; doe = (days + 719468) mod 146097; y = year_of doe
     in date_of (y + era * 400) (doe - year_start y))"
  unfolding civil_date_from_unix_days_def Let_def era_floor minus_div_mult_eq_mod
    year_of_def [symmetric] year_start_def [symmetric] date_of_def month_day_def prod.case
  by (rule refl)

lemma era_day_exists:
  assumes "0 \<le> doe" "doe < 146097"
  shows "\<exists>c q k j. era_day doe c q k j"
proof -
  define c where "c = min 3 (doe div 36524)"
  define r where "r = doe - 36524 * c"
  define q where "q = r div 1461"
  define s where "s = r - 1461 * q"
  define k where "k = min 3 (s div 365)"
  have d: "36524 * (doe div 36524) \<le> doe" "doe < 36524 * (doe div 36524) + 36524"
    "1461 * (r div 1461) \<le> r" "r < 1461 * (r div 1461) + 1461"
    "365 * (s div 365) \<le> s" "s < 365 * (s div 365) + 365"
    using div_span [of 36524 doe] div_span [of 1461 r] div_span [of 365 s] by simp_all
  have c: "0 \<le> c" "c \<le> 3" "0 \<le> r" "r \<le> 36524" "c < 3 \<Longrightarrow> r < 36524"
    using assms d(1,2) unfolding r_def c_def min_def by auto
  have q: "0 \<le> q" "q \<le> 24" "0 \<le> s" "s < 1461"
    using c d(3,4) unfolding s_def q_def by auto
  have k: "0 \<le> k" "k \<le> 3" "0 \<le> s - 365 * k" "k < 3 \<Longrightarrow> s - 365 * k < 365"
    using q d(5,6) unfolding k_def min_def by auto
  have "s - 365 * k \<le> (if long_year c q k then 365 else 364)"
    using c q k by (cases "k = 3"; cases "q = 24"; cases "c = 3") (auto simp: long_year_def s_def)
  moreover have "doe = 36524 * c + 1461 * q + 365 * k + (s - 365 * k)"
    by (simp add: s_def r_def)
  ultimately have "era_day doe c q k (s - 365 * k)"
    using c q k unfolding era_day_def by blast
  then show ?thesis by blast
qed

lemma era_day_year:
  assumes e: "era_day doe c q k j"
  shows "year_of doe = 100 * c + 4 * q + k" and "year_start (100 * c + 4 * q + k) = doe - j"
proof -
  have b: "0 \<le> c" "c \<le> 3" "0 \<le> q" "q \<le> 24" "0 \<le> k" "k \<le> 3" "0 \<le> j"
    "j \<le> 365" "j \<le> 364 \<or> j = 365"
    "j = 365 \<Longrightarrow> k = 3 \<and> (q = 24 \<longrightarrow> c = 3)"
    and doe: "doe = 36524 * c + 1461 * q + 365 * k + j"
    using e by (auto simp: era_day_def long_year_def split: if_splits)
  define x where "x = 24 * c + q + 365 * k + j"
  define t where "t = (if x < 1460 then 0 else (1 :: int))"
  define l where "l = (if doe = 146096 then 1 else (0 :: int))"
  have "doe div 1460 = 25 * c + q + t"
    using b by (intro int_div_pos_eq [where r = "x - 1460 * t"]) (auto simp: doe x_def t_def)
  moreover have "doe div 36524 = c + l"
    using b by (intro int_div_pos_eq [where r = "doe - 36524 * (c + l)"])
      (cases "j = 365"; cases "q = 24"; auto simp: doe l_def split: if_splits)+
  moreover have "doe div 146096 = l"
    using b by (intro int_div_pos_eq [where r = "doe - 146096 * l"]) (auto simp: doe l_def)
  moreover have "(365 * (100 * c + 4 * q + k) + (j - t)) div 365 = 100 * c + 4 * q + k"
  proof (rule int_div_pos_eq [where r = "j - t"])
    show "0 \<le> j - t" using b unfolding t_def x_def by auto
    show "j - t < 365" using b unfolding t_def x_def by auto
  qed simp
  ultimately show "year_of doe = 100 * c + 4 * q + k"
    unfolding year_of_def by (simp add: doe algebra_simps)
  have "(100 * c + 4 * q + k) div 4 = 25 * c + q"
    using b by (intro int_div_pos_eq [where r = k]) auto
  moreover have "(100 * c + 4 * q + k) div 100 = c"
    using b by (intro int_div_pos_eq [where r = "4 * q + k"]) auto
  ultimately show "year_start (100 * c + 4 * q + k) = doe - j"
    by (simp add: year_start_def doe)
qed

lemma multiple_near:
  fixes x n :: int
  assumes "0 \<le> x" "x < n"
  shows "n dvd e * n + (x + 1) \<longleftrightarrow> x + 1 = n"
proof -
  have "n dvd x + 1 \<Longrightarrow> n \<le> x + 1" using assms by (intro zdvd_imp_le) auto
  then show ?thesis using assms by (auto simp: dvd_add_times_triv_left_iff)
qed

lemma long_year_leaps:
  assumes e: "era_day doe c q k j"
  shows "leap_year (100 * c + 4 * q + k + e * 400 + 1) \<longleftrightarrow> long_year c q k"
proof -
  let ?y = "100 * c + 4 * q + k + e * 400 + 1"
  have b: "0 \<le> c" "c \<le> 3" "0 \<le> q" "q \<le> 24" "0 \<le> k" "k \<le> 3" using e by (auto simp: era_day_def)
  have "4 dvd ?y \<longleftrightarrow> k = 3"
    using multiple_near [of k 4 "25 * c + q + 100 * e"] b by (simp add: algebra_simps)
  moreover have "100 dvd ?y \<longleftrightarrow> 4 * q + k = 99"
    using multiple_near [of "4 * q + k" 100 "c + 4 * e"] b by (simp add: algebra_simps)
  moreover have "400 dvd ?y \<longleftrightarrow> 100 * c + 4 * q + k = 399"
    using multiple_near [of "100 * c + 4 * q + k" 400 e] b by (simp add: algebra_simps)
  moreover have "4 * q + k = 99 \<longleftrightarrow> q = 24 \<and> k = 3" using b by linarith
  moreover have "100 * c + 4 * q + k = 399 \<longleftrightarrow> c = 3 \<and> q = 24 \<and> k = 3" using b by linarith
  ultimately show ?thesis by (auto simp: leap_year_def long_year_def)
qed


lemma month_steps:
  "list_all (\<lambda>j. case month_day j of (m, d) \<Rightarrow> 1 \<le> m \<and> m \<le> 12 \<and> 1 \<le> d
     \<and> (m = 2 \<longrightarrow> d \<le> 29 \<and> (d = 29 \<longleftrightarrow> j = 365) \<and> (d = 28 \<longleftrightarrow> j = 364)) \<and> (j \<ge> 364 \<longrightarrow> m = 2)
     \<and> (m \<noteq> 2 \<longrightarrow> d \<le> days_in_month 0 m)
     \<and> (j < 364 \<longrightarrow> month_day (j + 1) = (if m = 2 \<or> d < days_in_month 0 m then (m, d + 1)
         else if m < 12 then (m + 1, 1) else (1, 1)))) [0..365]"
  by code_simp

lemma month_day_step:
  assumes "0 \<le> j" "j \<le> 365"
  shows "case month_day j of (m, d) \<Rightarrow> 1 \<le> m \<and> m \<le> 12 \<and> 1 \<le> d
     \<and> (m = 2 \<longrightarrow> d \<le> 29 \<and> (d = 29 \<longleftrightarrow> j = 365) \<and> (d = 28 \<longleftrightarrow> j = 364)) \<and> (j \<ge> 364 \<longrightarrow> m = 2)
     \<and> (m \<noteq> 2 \<longrightarrow> d \<le> days_in_month 0 m)
     \<and> (j < 364 \<longrightarrow> month_day (j + 1) = (if m = 2 \<or> d < days_in_month 0 m then (m, d + 1)
         else if m < 12 then (m + 1, 1) else (1, 1)))"
  using month_steps assms by (simp add: list_all_iff)


lemma next_day_within:
  assumes "0 \<le> j" "j \<le> 365" "j = 365 \<Longrightarrow> leap_year (y + 1)"
  shows "real_date (date_of y j)"
    and "j < 364 \<Longrightarrow> date_of y (j + 1) = next_day (date_of y j)"
    and "j = 364 \<Longrightarrow> leap_year (y + 1) \<Longrightarrow> date_of y (j + 1) = next_day (date_of y j)"
    and "j = 364 \<Longrightarrow> \<not> leap_year (y + 1) \<Longrightarrow> date_of (y + 1) 0 = next_day (date_of y j)"
    and "j = 365 \<Longrightarrow> date_of (y + 1) 0 = next_day (date_of y j)"
proof -
  obtain m d where md: "month_day j = (m, d)" by (cases "month_day j")
  have f: "month_day 0 = (3, 1)" "month_day 364 = (2, 28)" "month_day 365 = (2, 29)" by code_simp+
  note step = month_day_step [OF assms(1,2), unfolded md prod.case]
  show "real_date (date_of y j)"
    using step assms(3) by (auto simp: real_date_def date_of_def md days_in_month_def split: if_splits)
  show "j < 364 \<Longrightarrow> date_of y (j + 1) = next_day (date_of y j)"
    using step by (auto simp: next_day_def date_of_def md days_in_month_def split: if_splits)
  show "j = 364 \<Longrightarrow> leap_year (y + 1) \<Longrightarrow> date_of y (j + 1) = next_day (date_of y j)"
    by (simp add: next_day_def date_of_def f days_in_month_def)
  show "j = 364 \<Longrightarrow> \<not> leap_year (y + 1) \<Longrightarrow> date_of (y + 1) 0 = next_day (date_of y j)"
    by (simp add: next_day_def date_of_def f days_in_month_def)
  show "j = 365 \<Longrightarrow> date_of (y + 1) 0 = next_day (date_of y j)"
    using assms(3) by (simp add: next_day_def date_of_def f days_in_month_def)
qed

lemma civil_date_at:
  assumes "era_day ((days + 719468) mod 146097) c q k j"
  shows "civil_date_from_unix_days days
    = date_of (100 * c + 4 * q + k + (days + 719468) div 146097 * 400) j"
  using era_day_year [OF assms] by (simp add: civil_date_split Let_def)

text \<open>The day after \<open>j\<close> days into the year is the next day of the era, or the first of the next.\<close>

lemma era_day_after:
  assumes e: "era_day doe c q k j"
  shows "j < 364 \<or> j = 364 \<and> long_year c q k \<Longrightarrow> era_day (doe + 1) c q k (j + 1)"
    and "j = 365 \<or> j = 364 \<and> \<not> long_year c q k \<Longrightarrow>
      (\<exists>c' q' k'. era_day (doe + 1) c' q' k' 0
        \<and> 100 * c' + 4 * q' + k' = 100 * c + 4 * q + k + 1)
      \<or> doe + 1 = 146097 \<and> 100 * c + 4 * q + k + 1 = 400"
proof -
  have b: "0 \<le> c" "c \<le> 3" "0 \<le> q" "q \<le> 24" "0 \<le> k" "k \<le> 3" "0 \<le> j"
    and doe: "doe = 36524 * c + 1461 * q + 365 * k + j"
    and l: "j = 365 \<Longrightarrow> long_year c q k"
    using e by (auto simp: era_day_def split: if_splits)
  show "j < 364 \<or> j = 364 \<and> long_year c q k \<Longrightarrow> era_day (doe + 1) c q k (j + 1)"
    using e by (auto simp: era_day_def split: if_splits)
  assume j: "j = 365 \<or> j = 364 \<and> \<not> long_year c q k"
  consider "k < 3" | "k = 3" "q < 24" | "k = 3" "q = 24" "c < 3" | "k = 3" "q = 24" "c = 3"
    using b by linarith
  then show "(\<exists>c' q' k'. era_day (doe + 1) c' q' k' 0
        \<and> 100 * c' + 4 * q' + k' = 100 * c + 4 * q + k + 1)
      \<or> doe + 1 = 146097 \<and> 100 * c + 4 * q + k + 1 = 400"
  proof cases
    case 1
    then have "era_day (doe + 1) c q (k + 1) 0"
      using b j l by (auto simp: era_day_def doe long_year_def)
    then show ?thesis by fastforce
  next
    case 2
    then have "era_day (doe + 1) c (q + 1) 0 0"
      using b j by (auto simp: era_day_def doe long_year_def)
    then show ?thesis using 2 by fastforce
  next
    case 3
    then have "era_day (doe + 1) (c + 1) 0 0 0"
      using b j l by (auto simp: era_day_def doe long_year_def)
    then show ?thesis using 3 by fastforce
  next
    case 4
    then show ?thesis using j by (auto simp: doe long_year_def)
  qed
qed

lemma era_day_less: "era_day doe c q k j \<Longrightarrow> doe < 146097"
  by (auto simp: era_day_def long_year_def split: if_splits)

lemma era_succ:
  fixes s n :: int
  shows "0 < n \<Longrightarrow> s mod n + 1 < n \<Longrightarrow> (s + 1) div n = s div n \<and> (s + 1) mod n = s mod n + 1"
    and "0 < n \<Longrightarrow> s mod n + 1 = n \<Longrightarrow> (s + 1) div n = s div n + 1 \<and> (s + 1) mod n = 0"
proof -
  have s: "s + 1 = n * (s div n) + (s mod n + 1)" by simp
  show "0 < n \<Longrightarrow> s mod n + 1 < n \<Longrightarrow> (s + 1) div n = s div n \<and> (s + 1) mod n = s mod n + 1"
    using int_div_pos_eq [OF s] int_mod_pos_eq [OF s] pos_mod_sign [of n s] by simp
  assume n: "0 < n" "s mod n + 1 = n"
  then have "s + 1 = n * (s div n + 1) + 0" using s by (simp add: algebra_simps)
  from int_div_pos_eq [OF this] int_mod_pos_eq [OF this] n
  show "(s + 1) div n = s div n + 1 \<and> (s + 1) mod n = 0" by simp
qed

lemma civil_date_epoch: "civil_date_from_unix_days 0 = (1970, 1, 1)"
  by code_simp

lemma civil_date_next:
  "real_date (civil_date_from_unix_days days)
   \<and> civil_date_from_unix_days (days + 1) = next_day (civil_date_from_unix_days days)"
proof -
  let ?s = "days + 719468" let ?e = "(days + 719468) div 146097" let ?d = "(days + 719468) mod 146097"
  obtain c q k j where e: "era_day ?d c q k j"
    using era_day_exists [of ?d] by auto
  define y where "y = 100 * c + 4 * q + k + ?e * 400"
  have j: "0 \<le> j" "j \<le> 365" "j = 365 \<Longrightarrow> leap_year (y + 1)"
    using e long_year_leaps [OF e, of ?e] by (auto simp: era_day_def y_def split: if_splits)
  have now: "civil_date_from_unix_days days = date_of y j"
    using civil_date_at [OF e] by (simp add: y_def)
  have leap: "leap_year (y + 1) \<longleftrightarrow> long_year c q k"
    using long_year_leaps [OF e, of ?e] by (simp add: y_def)
  have less: "?d < 146097" and nonneg: "0 \<le> ?d" by simp_all
  show ?thesis
  proof (cases "j < 364 \<or> j = 364 \<and> long_year c q k")
    case True
    have "era_day (?d + 1) c q k (j + 1)" using era_day_after(1) [OF e True] .
    moreover have "?d + 1 < 146097"
      using era_day_less [OF calculation] .
    ultimately have "civil_date_from_unix_days (days + 1) = date_of y (j + 1)"
      using civil_date_at [of "days + 1" c q k "j + 1"] era_succ(1) [of 146097 ?s]
      by (simp add: y_def algebra_simps)
    then show ?thesis using True next_day_within [OF j] by (auto simp: now leap)
  next
    case False
    then have end_of_year: "j = 365 \<or> j = 364 \<and> \<not> long_year c q k" using j by linarith
    have "civil_date_from_unix_days (days + 1) = date_of (y + 1) 0"
      using era_day_after(2) [OF e end_of_year]
    proof (elim disjE exE conjE)
      fix c' q' k'
      assume a: "era_day (?d + 1) c' q' k' 0" "100 * c' + 4 * q' + k' = 100 * c + 4 * q + k + 1"
      then show ?thesis
        using civil_date_at [of "days + 1" c' q' k' 0] era_succ(1) [of 146097 ?s] era_day_less [OF a(1)]
        by (simp add: y_def algebra_simps)
    next
      assume a: "?d + 1 = 146097" "100 * c + 4 * q + k + 1 = 400"
      have "era_day 0 0 0 0 0" by (simp add: era_day_def)
      then show ?thesis
        using civil_date_at [of "days + 1" 0 0 0 0] era_succ(2) [of 146097 ?s] a
        by (simp add: y_def algebra_simps)
    qed
    then show ?thesis using end_of_year next_day_within [OF j] by (auto simp: now leap)
  qed
qed


lemma civil_date_days: "civil_date_from_unix_days (int n) = (next_day ^^ n) (1970, 1, 1)"
  by (induction n) (simp_all add: civil_date_epoch civil_date_next add.commute [of 1])

text \<open>C40: The date and time in a file name are those of the calendar: for every time stamp whose seconds
  fit \<open>i64\<close>, \<open>utc_parts\<close> answers a real date and a time of day in range, the date is the one reached
  from 1970-01-01 by stepping a day at a time through the Gregorian months and leap years, and day,
  hour, minute, second and millisecond add up to exactly the stamp's milliseconds.\<close>

theorem utc_parts_calendar:
  assumes "unix_micros div 1000000 < 2 ^ 63"
  shows "case utc_parts unix_micros of (year, month, day, hour, minute, second, millis) \<Rightarrow>
    real_date (year, month, day) \<and> 0 \<le> hour \<and> hour < 24 \<and> 0 \<le> minute \<and> minute < 60
    \<and> 0 \<le> second \<and> second < 60 \<and> millis < 1000
    \<and> (\<exists>days. (year, month, day) = (next_day ^^ days) (1970, 1, 1)
        \<and> int (unix_micros div 1000)
          = (((int days * 24 + hour) * 60 + minute) * 60 + second) * 1000 + int millis)"
proof -
  define secs where "secs = unix_micros div 1000000"
  define days where "days = secs div 86400"
  define r where "r = secs mod 86400"
  obtain y m d where date: "civil_date_from_unix_days (int days) = (y, m, d)"
    by (metis prod_cases3)
  have parts: "utc_parts unix_micros = (y, m, d, int (r div 3600), int (r mod 3600 div 60),
      int (r mod 60), (unix_micros mod 1000000) div 1000)"
    using assms date by (simp add: utc_parts_def Let_def secs_def days_def r_def of_nat_div of_nat_mod)
  have real: "real_date (y, m, d)" using civil_date_next [of "int days"] date by simp
  have on: "(y, m, d) = (next_day ^^ days) (1970, 1, 1)" using civil_date_days [of days] date by simp
  have r: "r < 86400" by (simp add: r_def)
  have hms: "r = ((r div 3600) * 60 + r mod 3600 div 60) * 60 + r mod 60"
  proof -
    have radix: "a * 3600 + b = r \<Longrightarrow> c * 60 + e = b \<Longrightarrow> r = (a * 60 + c) * 60 + e" for a b c e
      by simp
    have "r mod 3600 mod 60 = r mod 60" by (rule mod_mod_cancel) simp
    then show ?thesis
      using radix [OF div_mult_mod_eq [of r 3600] div_mult_mod_eq [of "r mod 3600" 60]] by simp
  qed
  have "unix_micros div 1000 = secs * 1000 + (unix_micros mod 1000000) div 1000"
  proof -
    have "unix_micros = unix_micros mod 1000000 + 1000 * (1000 * secs)"
      using div_mult_mod_eq [of unix_micros 1000000] by (simp add: secs_def)
    then have "unix_micros div 1000 = (unix_micros mod 1000000 + 1000 * (1000 * secs)) div 1000" by simp
    also have "\<dots> = 1000 * secs + (unix_micros mod 1000000) div 1000" by (rule div_mult_self2) simp
    finally show ?thesis by simp
  qed
  moreover have "secs = days * 86400 + r" by (simp add: days_def r_def)
  ultimately have whole: "unix_micros div 1000
      = (((days * 24 + r div 3600) * 60 + r mod 3600 div 60) * 60 + r mod 60) * 1000
        + (unix_micros mod 1000000) div 1000"
    using hms by (simp add: algebra_simps)
  have "int (unix_micros div 1000)
      = (((int days * 24 + int (r div 3600)) * 60 + int (r mod 3600 div 60)) * 60 + int (r mod 60)) * 1000
        + int ((unix_micros mod 1000000) div 1000)"
    unfolding whole by (simp only: of_nat_add of_nat_mult of_nat_numeral)
  moreover have "r div 3600 < 24" and "r mod 3600 div 60 < 60" and "r mod 60 < 60"
    and "(unix_micros mod 1000000) div 1000 < 1000"
    using r by (simp_all add: less_mult_imp_div_less)
  ultimately show ?thesis
    using real on unfolding parts prod.case by (intro conjI exI [of _ days]) simp_all
qed

lemma utc_parts_calendar_witness:
  "case utc_parts 1709251199999000 of (year, month, day, hour, minute, second, millis) \<Rightarrow>
    real_date (year, month, day) \<and> 0 \<le> hour \<and> hour < 24 \<and> 0 \<le> minute \<and> minute < 60
    \<and> 0 \<le> second \<and> second < 60 \<and> millis < 1000
    \<and> (\<exists>days. (year, month, day) = (next_day ^^ days) (1970, 1, 1)
        \<and> int (1709251199999000 div 1000)
          = (((int days * 24 + hour) * 60 + minute) * 60 + second) * 1000 + int millis)"
  by (rule utc_parts_calendar) simp

end
