(* ===== verification/FileNames.thy ===== *)
theory FileNames
  imports Clock
begin

section \<open>File names: templates and their expansion\<close>

text \<open>
  Models \<open>captastic-config/src/filename_template.rs\<close> (which templates the configuration
  accepts) and \<open>captastic-app/src/filename_template.rs\<close> (how an accepted template becomes the
  stem of a file name, with the window title and application sanitized). The reference for the
  templates is their grammar \<open>template_of\<close>.

  A \<open>char\<close> of the program is a Unicode scalar value, here its number; a \<open>&str\<close> is the list of
  its characters. Byte offsets the code slices at (\<open>find\<close> then \<open>[..open]\<close>) become the split at the
  first occurrence. Joining the stem to the directory (\<open>resolve\<close>, \<open>is_inside\<close>) rests on the path
  syntax of the host and is not modelled.
\<close>

type_synonym uchar = nat

subsection \<open>Which templates are accepted\<close>

definition tokens :: "ustring list" where
  "tokens = map ustr [''timestamp'', ''date'', ''time'', ''display'', ''mode'', ''width'',
     ''height'', ''application'', ''title'']"

abbreviation dash :: uchar where "dash \<equiv> 45"
abbreviation dot :: uchar where "dot \<equiv> 46"
abbreviation slash :: uchar where "slash \<equiv> 47"
abbreviation backslash :: uchar where "backslash \<equiv> 92"
abbreviation open_brace :: uchar where "open_brace \<equiv> 123"
abbreviation close_brace :: uchar where "close_brace \<equiv> 125"

text \<open>\<open>char::is_whitespace\<close> (White_Space) and \<open>char::is_control\<close> (category Cc) of Unicode.\<close>

definition is_whitespace :: "uchar \<Rightarrow> bool" where
  "is_whitespace c \<longleftrightarrow> 9 \<le> c \<and> c \<le> 13 \<or> c = 32 \<or> c = 0x85 \<or> c = 0xA0 \<or> c = 0x1680
     \<or> 0x2000 \<le> c \<and> c \<le> 0x200A \<or> c = 0x2028 \<or> c = 0x2029 \<or> c = 0x202F \<or> c = 0x205F \<or> c = 0x3000"

definition is_control :: "uchar \<Rightarrow> bool" where
  "is_control c \<longleftrightarrow> c < 32 \<or> 127 \<le> c \<and> c < 160"

definition trim_matches :: "(uchar \<Rightarrow> bool) \<Rightarrow> ustring \<Rightarrow> ustring" where
  "trim_matches p s = rev (dropWhile p (rev (dropWhile p s)))"

primrec split_at_first :: "uchar \<Rightarrow> ustring \<Rightarrow> (ustring \<times> ustring) option" where
  "split_at_first c [] = None"
| "split_at_first c (x # xs) = (if x = c then Some ([], xs)
     else map_option (\<lambda>(b, a). (x # b, a)) (split_at_first c xs))"

lemma split_at_first_iff: "split_at_first c s = Some (b, a) \<longleftrightarrow> s = b @ c # a \<and> c \<notin> set b"
proof (induction s arbitrary: b)
  case (Cons x s)
  then show ?case by (cases b) (auto split: option.split)
qed simp

lemma split_at_first_None: "split_at_first c s = None \<longleftrightarrow> c \<notin> set s"
  by (induction s) auto

lemma split_at_first_absent [simp]: "c \<notin> set s \<Longrightarrow> split_at_first c s = None"
  by (simp add: split_at_first_None)

lemma split_at_first_here [simp]: "c \<notin> set b \<Longrightarrow> split_at_first c (b @ c # a) = Some (b, a)"
  by (simp add: split_at_first_iff)

datatype template_error = EmptyTemplate | PathSeparator | UnclosedToken | UnknownToken ustring
  | UnmatchedClose | NoToken

text \<open>The loop of \<open>validate_template\<close>: the text after the last token, and whether there was one.\<close>

function scan_tokens :: "ustring \<Rightarrow> bool \<Rightarrow> template_error + ustring \<times> bool" where
  "scan_tokens rest has_token = (case split_at_first open_brace rest of
      None \<Rightarrow> Inr (rest, has_token)
    | Some (_, after) \<Rightarrow> (case split_at_first close_brace after of
        None \<Rightarrow> Inl UnclosedToken
      | Some (token, rest') \<Rightarrow>
          if token \<notin> set tokens then Inl (UnknownToken token) else scan_tokens rest' True))"
  by pat_completeness auto
termination
  by (relation "measure (\<lambda>(rest, has). length rest)") (auto simp: split_at_first_iff)

declare scan_tokens.simps [simp del]

definition validate_template :: "ustring \<Rightarrow> template_error + unit" where
  "validate_template template =
    (if trim_matches is_whitespace template = [] then Inl EmptyTemplate
     else if slash \<in> set template \<or> backslash \<in> set template then Inl PathSeparator
     else case scan_tokens template False of
       Inl e \<Rightarrow> Inl e
     | Inr (rest, has_token) \<Rightarrow>
         if close_brace \<in> set rest then Inl UnmatchedClose
         else if \<not> has_token then Inl NoToken
         else Inr ())"

subsection \<open>Expanding a template\<close>

text \<open>The characters \<open>< > : " / \ | ? *\<close>.\<close>

definition forbidden :: "uchar list" where
  "forbidden = [60, 62, 58, 34, slash, backslash, 124, 63, 42]"

definition reserved_stems :: "ustring list" where
  "reserved_stems = map ustr [''con'', ''prn'', ''aux'', ''nul'',
     ''com1'', ''com2'', ''com3'', ''com4'', ''com5'', ''com6'', ''com7'', ''com8'', ''com9'',
     ''lpt1'', ''lpt2'', ''lpt3'', ''lpt4'', ''lpt5'', ''lpt6'', ''lpt7'', ''lpt8'', ''lpt9'']"

definition max_field_chars :: nat where "max_field_chars = 64"
definition max_stem_chars :: nat where "max_stem_chars = 120"
definition fallback_stem :: ustring where "fallback_stem = ustr ''capture''"

record template_context =
  tc_timestamp_micros :: nat
  tc_display :: ustring
  tc_mode :: ustring
  tc_width :: u32
  tc_height :: u32
  tc_application :: "ustring option"
  tc_title :: "ustring option"

text \<open>\<open>{:0w}\<close> of the formatter, whose width counts the sign.\<close>

definition zero_padded :: "nat \<Rightarrow> int \<Rightarrow> ustring" where
  "zero_padded w v = (if v < 0 then dash # replicate (w - 1 - length (show_nat (nat (- v)))) 48 @ show_nat (nat (- v))
     else replicate (w - length (show_nat (nat v))) 48 @ show_nat (nat v))"

definition date_text :: "int \<Rightarrow> int \<Rightarrow> int \<Rightarrow> ustring" where
  "date_text year month day = zero_padded 4 year @ zero_padded 2 month @ zero_padded 2 day"

definition time_text :: "int \<Rightarrow> int \<Rightarrow> int \<Rightarrow> nat \<Rightarrow> ustring" where
  "time_text hour minute second millis =
    zero_padded 2 hour @ zero_padded 2 minute @ zero_padded 2 second @ dash # zero_padded 3 (int millis)"

definition token_value :: "template_context \<Rightarrow> ustring \<Rightarrow> ustring" where
  "token_value context token =
    (case utc_parts (tc_timestamp_micros context) of
      (year, month, day, hour, minute, second, millis) \<Rightarrow>
       if token = ustr ''timestamp'' then
         date_text year month day @ dash # time_text hour minute second millis
       else if token = ustr ''date'' then date_text year month day
       else if token = ustr ''time'' then time_text hour minute second millis
       else if token = ustr ''display'' then tc_display context
       else if token = ustr ''mode'' then tc_mode context
       else if token = ustr ''width'' then show_nat (unat (tc_width context))
       else if token = ustr ''height'' then show_nat (unat (tc_height context))
       else if token = ustr ''application'' then
         (case tc_application context of Some a \<Rightarrow> a | None \<Rightarrow> [])
       else if token = ustr ''title'' then (case tc_title context of Some t \<Rightarrow> t | None \<Rightarrow> [])
       else [])"

definition acceptable :: "uchar \<Rightarrow> bool" where
  "acceptable c \<longleftrightarrow> \<not> is_control c \<and> c \<notin> set forbidden \<and> c \<noteq> open_brace \<and> c \<noteq> close_brace"

definition usable :: "uchar \<Rightarrow> bool" where
  "usable c \<longleftrightarrow> acceptable c \<and> \<not> is_whitespace c \<and> c \<noteq> dot"

lemmas char_defs = usable_def acceptable_def is_control_def is_whitespace_def forbidden_def

primrec sanitize_loop :: "ustring \<Rightarrow> bool \<Rightarrow> ustring \<Rightarrow> ustring" where
  "sanitize_loop sanitized pending [] = sanitized"
| "sanitize_loop sanitized pending (c # cs) =
    (let (sanitized, pending) =
       (if usable c
        then ((if pending \<and> sanitized \<noteq> [] then sanitized @ [dash] else sanitized) @ [c], False)
        else (sanitized, True))
     in if length sanitized \<ge> max_field_chars then sanitized
        else sanitize_loop sanitized pending cs)"

definition sanitize_field :: "ustring \<Rightarrow> ustring" where
  "sanitize_field value = sanitize_loop [] False value"

primrec collapse_loop :: "ustring \<Rightarrow> bool \<Rightarrow> ustring \<Rightarrow> ustring" where
  "collapse_loop finalized previous_was_separator [] = finalized"
| "collapse_loop finalized previous_was_separator (c # cs) =
    (if c = dash \<and> previous_was_separator
     then collapse_loop finalized previous_was_separator cs
     else let finalized = finalized @ [c]
          in if length finalized \<ge> max_stem_chars then finalized
             else collapse_loop finalized (c = dash) cs)"

definition trailing :: "uchar \<Rightarrow> bool" where
  "trailing c \<longleftrightarrow> c = dot \<or> c = 32 \<or> c = dash"

definition to_ascii_lowercase :: "ustring \<Rightarrow> ustring" where
  "to_ascii_lowercase s = map (\<lambda>c. if 65 \<le> c \<and> c \<le> 90 then c + 32 else c) s"

definition leading_part :: "ustring \<Rightarrow> ustring" where
  "leading_part s = to_ascii_lowercase (takeWhile (\<lambda>c. c \<noteq> dot) s)"

definition finalize_stem :: "ustring \<Rightarrow> ustring" where
  "finalize_stem stem =
    (let trimmed = trim_matches (\<lambda>c. c = dash \<or> is_whitespace c) stem;
         finalized = rev (dropWhile trailing (rev (collapse_loop [] False trimmed)))
     in if finalized = [] then fallback_stem
        else if leading_part finalized \<in> set reserved_stems then finalized @ ustr ''-capture''
        else finalized)"

function expand_from :: "template_context \<Rightarrow> ustring \<Rightarrow> ustring \<Rightarrow> ustring" where
  "expand_from context stem rest = (case split_at_first open_brace rest of
      None \<Rightarrow> stem @ rest
    | Some (before, after) \<Rightarrow> (case split_at_first close_brace after of
        None \<Rightarrow> stem @ before @ after
      | Some (token, rest') \<Rightarrow>
          expand_from context (stem @ before @ sanitize_field (token_value context token)) rest'))"
  by pat_completeness auto
termination
  by (relation "measure (\<lambda>(context, stem, rest). length rest)") (auto simp: split_at_first_iff)

declare expand_from.simps [simp del]

definition expand :: "ustring \<Rightarrow> template_context \<Rightarrow> ustring" where
  "expand template context = finalize_stem (expand_from context [] template)"


subsection \<open>The grammar of templates\<close>

type_synonym segments = "(ustring \<times> ustring) list"

text \<open>Pairs of literal text and the token after it, and the literal text at the end.\<close>

definition template_of :: "segments \<Rightarrow> ustring \<Rightarrow> ustring" where
  "template_of segs closing =
    concat (map (\<lambda>(l, token). l @ open_brace # token @ [close_brace]) segs) @ closing"

definition segments_ok :: "segments \<Rightarrow> bool" where
  "segments_ok segs \<longleftrightarrow> (\<forall>(l, token) \<in> set segs. open_brace \<notin> set l \<and> token \<in> set tokens)"

definition template_ok :: "segments \<Rightarrow> ustring \<Rightarrow> bool" where
  "template_ok segs closing \<longleftrightarrow> segs \<noteq> [] \<and> segments_ok segs
     \<and> open_brace \<notin> set closing \<and> close_brace \<notin> set closing
     \<and> slash \<notin> set (template_of segs closing) \<and> backslash \<notin> set (template_of segs closing)"

lemma template_of_simps [simp]:
  "template_of [] closing = closing"
  "template_of ((l, token) # segs) closing
    = l @ open_brace # token @ close_brace # template_of segs closing"
  by (simp_all add: template_of_def)

lemma segments_ok_simps [simp]:
  "segments_ok []"
  "segments_ok ((l, token) # segs) \<longleftrightarrow>
    open_brace \<notin> set l \<and> token \<in> set tokens \<and> segments_ok segs"
  by (auto simp: segments_ok_def)

lemma tokens_no_brace:
  assumes "token \<in> set tokens"
  shows "open_brace \<notin> set token" and "close_brace \<notin> set token"
proof -
  have "\<forall>t \<in> set tokens. open_brace \<notin> set t \<and> close_brace \<notin> set t" by code_simp
  then show "open_brace \<notin> set token" and "close_brace \<notin> set token" using assms by auto
qed

lemma scan_template:
  "segments_ok segs \<Longrightarrow> open_brace \<notin> set closing \<Longrightarrow>
    scan_tokens (template_of segs closing) has = Inr (closing, has \<or> segs \<noteq> [])"
proof (induction segs arbitrary: has)
  case Nil
  then show ?case by (simp add: scan_tokens.simps [of closing])
next
  case (Cons seg segs)
  obtain l token where seg: "seg = (l, token)" by fastforce
  then show ?case using Cons tokens_no_brace [of token]
    by (subst scan_tokens.simps) simp
qed

lemma scan_tokens_Inr:
  "scan_tokens rest has = Inr (closing, has') \<Longrightarrow>
    \<exists>segs. segments_ok segs \<and> open_brace \<notin> set closing \<and> rest = template_of segs closing
      \<and> (has' \<longleftrightarrow> has \<or> segs \<noteq> [])"
proof (induction rest has rule: scan_tokens.induct)
  case (1 rest has)
  show ?case
  proof (cases "split_at_first open_brace rest")
    case None
    then have "segments_ok [] \<and> open_brace \<notin> set closing \<and> rest = template_of [] closing
      \<and> (has' \<longleftrightarrow> has \<or> [] \<noteq> ([] :: segments))"
      using 1(2) None by (simp add: scan_tokens.simps [of rest] split_at_first_None)
    then show ?thesis by blast
  next
    case (Some p)
    then obtain b after where p: "split_at_first open_brace rest = Some (b, after)" by (cases p) auto
    obtain token rest' where q: "split_at_first close_brace after = Some (token, rest')"
      using 1(2) p by (cases "split_at_first close_brace after")
        (auto simp: scan_tokens.simps [of rest])
    have t: "token \<in> set tokens" and r: "scan_tokens rest' True = Inr (closing, has')"
      using 1(2) p q by (auto simp: scan_tokens.simps [of rest]
          split: if_splits)
    obtain segs where segs: "segments_ok segs" "open_brace \<notin> set closing"
        "rest' = template_of segs closing" "has'"
      using 1(1) [OF p refl q refl] t r by auto
    then have "segments_ok ((b, token) # segs) \<and> open_brace \<notin> set closing
      \<and> rest = template_of ((b, token) # segs) closing \<and> (has' \<longleftrightarrow> has \<or> (b, token) # segs \<noteq> [])"
      using p q t by (simp add: split_at_first_iff)
    then show ?thesis by blast
  qed
qed

lemma dropWhile_keeps: "c \<in> set s \<Longrightarrow> \<not> p c \<Longrightarrow> c \<in> set (dropWhile p s)"
  by (induction s) auto

lemma trim_matches_nonempty: "c \<in> set s \<Longrightarrow> \<not> p c \<Longrightarrow> trim_matches p s \<noteq> []"
  unfolding trim_matches_def
  by (metis dropWhile_keeps empty_iff list.set(1) rev.simps(1) rev_rev_ident set_rev)

lemma validated_template_form:
  assumes v: "validate_template template = Inr ()"
  shows "\<exists>segs closing. template_ok segs closing \<and> template = template_of segs closing"
proof -
  obtain closing has where s: "scan_tokens template False = Inr (closing, has)"
    and ok: "close_brace \<notin> set closing" has "slash \<notin> set template" "backslash \<notin> set template"
    using v by (auto simp: validate_template_def split: if_splits sum.splits prod.splits)
  show ?thesis using scan_tokens_Inr [OF s] ok by (auto simp: template_ok_def)
qed

lemma expand_from_template:
  "segments_ok segs \<Longrightarrow> open_brace \<notin> set closing \<Longrightarrow>
    expand_from context stem (template_of segs closing)
      = stem @ concat (map (\<lambda>(l, token). l @ sanitize_field (token_value context token)) segs) @ closing"
proof (induction segs arbitrary: stem)
  case Nil
  then show ?case by (simp add: expand_from.simps [of _ _ closing])
next
  case (Cons seg segs)
  obtain l token where seg: "seg = (l, token)" by fastforce
  then show ?case using Cons tokens_no_brace [of token]
    by (subst expand_from.simps) simp
qed

lemma template_ok_validates:
  assumes ok: "template_ok segs closing"
  shows "validate_template (template_of segs closing) = Inr ()"
proof -
  have "open_brace \<in> set (template_of segs closing)" using ok by (cases segs) (auto simp: template_ok_def)
  then have "trim_matches is_whitespace (template_of segs closing) \<noteq> []"
    by (rule trim_matches_nonempty) (simp add: is_whitespace_def)
  then show ?thesis
    using ok scan_template [of segs closing False] by (auto simp: validate_template_def template_ok_def)
qed

lemma expand_template:
  "template_ok segs closing \<Longrightarrow> expand (template_of segs closing) context
    = finalize_stem (concat (map (\<lambda>(l, token). l @ sanitize_field (token_value context token)) segs)
        @ closing)"
  by (simp add: expand_def template_ok_def expand_from_template)

text \<open>\<open>validate_template\<close> accepts exactly the templates made of separator-free literal text and
  at least one known token in braces, where a closing brace alone is let pass in a literal before a token but not
  after the last one; and for an accepted template \<open>expand\<close> gives, whatever the capture, the literals
  with each token replaced by its sanitized value, cleaned up by \<open>finalize_stem\<close>.\<close>

theorem template_language:
  shows "validate_template template = Inr () \<longleftrightarrow>
      (\<exists>segs closing. template_ok segs closing \<and> template = template_of segs closing
        \<and> (\<forall>context. expand template context = finalize_stem
            (concat (map (\<lambda>(l, token). l @ sanitize_field (token_value context token)) segs) @ closing)))"
  using validated_template_form template_ok_validates expand_template by metis

subsection \<open>The stem names a file\<close>

abbreviation single_dashes :: "ustring \<Rightarrow> bool" where
  "single_dashes \<equiv> successively (\<lambda>a b. \<not> (a = dash \<and> b = dash))"

lemma sanitize_loop_step:
  "sanitize_loop acc pending (c # cs) =
    (let acc' = (if usable c then (if pending \<and> acc \<noteq> [] then acc @ [dash] else acc) @ [c] else acc)
     in if length acc' \<ge> max_field_chars then acc' else sanitize_loop acc' (\<not> usable c) cs)"
  by (simp add: Let_def)

lemma sanitize_loop_usable:
  "set acc \<subseteq> Collect usable \<Longrightarrow> set (sanitize_loop acc pending cs) \<subseteq> Collect usable"
proof (induction cs arbitrary: acc pending)
  case (Cons c cs)
  define acc' where
    "acc' = (if usable c then (if pending \<and> acc \<noteq> [] then acc @ [dash] else acc) @ [c] else acc)"
  have "usable dash" by (simp add: char_defs)
  then have "set acc' \<subseteq> Collect usable" using Cons.prems by (auto simp: acc'_def)
  then show ?case using Cons.IH by (simp only: sanitize_loop_step Let_def acc'_def [symmetric]) auto
qed simp

lemma sanitize_field_usable: "c \<in> set (sanitize_field v) \<Longrightarrow> usable c"
  using sanitize_loop_usable [of "[]" False v] by (auto simp: sanitize_field_def)

lemma collapse_loop_ok:
  assumes "single_dashes acc" "previous \<longleftrightarrow> acc \<noteq> [] \<and> last acc = dash" "length acc < max_stem_chars"
  shows "single_dashes (collapse_loop acc previous cs)
    \<and> length (collapse_loop acc previous cs) \<le> max_stem_chars
    \<and> (\<exists>more. collapse_loop acc previous cs = acc @ more \<and> set more \<subseteq> set cs
         \<and> (cs \<noteq> [] \<longrightarrow> hd cs \<noteq> dash \<longrightarrow> more \<noteq> [] \<and> hd more = hd cs))"
  using assms
proof (induction cs arbitrary: acc previous)
  case (Cons c cs)
  show ?case
  proof (cases "c = dash \<and> previous")
    case True
    then show ?thesis using Cons.IH [of acc previous] Cons.prems by fastforce
  next
    case False
    have step: "collapse_loop acc previous (c # cs) = (if length (acc @ [c]) \<ge> max_stem_chars
        then acc @ [c] else collapse_loop (acc @ [c]) (c = dash) cs)"
      by (simp only: collapse_loop.simps False if_False Let_def)
    have acc': "single_dashes (acc @ [c])" using False Cons.prems by (auto simp: successively_append_iff)
    show ?thesis
    proof (cases "length (acc @ [c]) \<ge> max_stem_chars")
      case True
      then show ?thesis using acc' Cons.prems(3) by (simp only: step if_True) simp
    next
      case False
      then show ?thesis
        using acc' Cons.IH [of "acc @ [c]" "c = dash"] by (simp only: step if_False) fastforce
    qed
  qed
qed simp

lemma trim_matches_ok:
  "set (trim_matches p s) \<subseteq> set s" "trim_matches p s \<noteq> [] \<Longrightarrow> \<not> p (hd (trim_matches p s))"
proof -
  define t where "t = dropWhile p s"
  obtain u where u: "t = trim_matches p s @ u"
    using takeWhile_dropWhile_id [of p "rev t"] unfolding trim_matches_def t_def
    by (metis rev_append rev_rev_ident)
  show "set (trim_matches p s) \<subseteq> set s"
    using u set_dropWhileD unfolding t_def by (metis Un_iff set_append subsetI)
  assume "trim_matches p s \<noteq> []"
  then have "t \<noteq> []" "hd t = hd (trim_matches p s)" using u by auto
  then show "\<not> p (hd (trim_matches p s))" using hd_dropWhile [of p s] unfolding t_def by metis
qed

definition strip_trailing :: "ustring \<Rightarrow> ustring" where
  "strip_trailing s = rev (dropWhile trailing (rev s))"

lemma strip_trailing_ok:
  "\<exists>u. s = strip_trailing s @ u" "strip_trailing s \<noteq> [] \<Longrightarrow> \<not> trailing (last (strip_trailing s))"
proof -
  show "\<exists>u. s = strip_trailing s @ u"
    using takeWhile_dropWhile_id [of trailing "rev s"] unfolding strip_trailing_def
    by (metis rev_append rev_rev_ident)
  assume "strip_trailing s \<noteq> []"
  then show "\<not> trailing (last (strip_trailing s))"
    using hd_dropWhile [of trailing "rev s"] by (simp add: strip_trailing_def last_rev)
qed

definition names_file :: "ustring \<Rightarrow> bool" where
  "names_file s \<longleftrightarrow> s \<noteq> [] \<and> \<not> trailing (last s) \<and> hd s \<noteq> dash \<and> \<not> is_whitespace (hd s) \<and> single_dashes s"

lemma collapsed_stem:
  fixes stem :: ustring
  defines "trimmed \<equiv> trim_matches (\<lambda>c. c = dash \<or> is_whitespace c) stem"
  defines "fin \<equiv> strip_trailing (collapse_loop [] False trimmed)"
  shows "set fin \<subseteq> set stem" "length fin \<le> max_stem_chars" "fin \<noteq> [] \<Longrightarrow> names_file fin"
proof -
  let ?c = "collapse_loop [] False trimmed"
  have c: "single_dashes ?c" "length ?c \<le> max_stem_chars" "set ?c \<subseteq> set trimmed"
    "trimmed \<noteq> [] \<Longrightarrow> hd trimmed \<noteq> dash \<Longrightarrow> ?c \<noteq> [] \<and> hd ?c = hd trimmed"
    using collapse_loop_ok [of "[]" False trimmed] by (auto simp: max_stem_chars_def)
  obtain u where u: "?c = fin @ u" using strip_trailing_ok(1) unfolding fin_def by blast
  have "set trimmed \<subseteq> set stem" unfolding trimmed_def by (rule trim_matches_ok(1))
  then show "set fin \<subseteq> set stem" using c(3) u by auto
  show "length fin \<le> max_stem_chars" using c(2) u by simp
  assume fin: "fin \<noteq> []"
  then have "?c \<noteq> []" using u by simp
  then have t: "trimmed \<noteq> []" by auto
  then have h: "hd trimmed \<noteq> dash" "\<not> is_whitespace (hd trimmed)"
    using trim_matches_ok(2) [of "\<lambda>c. c = dash \<or> is_whitespace c" stem] unfolding trimmed_def by auto
  moreover have "hd fin = hd trimmed" using c(4) [OF t h(1)] u fin by simp
  moreover have "single_dashes fin" using c(1) u by (simp add: successively_append_iff)
  ultimately show "names_file fin"
    using fin strip_trailing_ok(2) [of ?c] by (simp add: names_file_def fin_def)
qed

lemma reserved_lengths: "r \<in> set reserved_stems \<Longrightarrow> length r \<le> 4"
proof -
  have "\<forall>r \<in> set reserved_stems. length r \<le> 4" by code_simp
  then show "r \<in> set reserved_stems \<Longrightarrow> length r \<le> 4" by blast
qed

lemma leading_part_plain:
  assumes "dot \<notin> set s"
  shows "leading_part s = to_ascii_lowercase s"
proof -
  have "takeWhile (\<lambda>c. c \<noteq> dot) s = s" using assms by (auto simp: takeWhile_eq_all_conv)
  then show ?thesis unfolding leading_part_def by (simp only:)
qed

lemma ustr_capture:
  "ustr ''-capture'' = [45, 99, 97, 112, 116, 117, 114, 101]"
  "fallback_stem = [99, 97, 112, 116, 117, 114, 101]"
  by (simp_all add: ustr_def fallback_stem_def)

lemma capture_suffix:
  "\<forall>c \<in> set (ustr ''-capture''). usable c" "names_file fallback_stem"
  "\<forall>c \<in> set fallback_stem. usable c" "leading_part fallback_stem \<notin> set reserved_stems"
  using reserved_lengths [of "leading_part fallback_stem"]
  by (auto simp: ustr_capture char_defs names_file_def trailing_def leading_part_def to_ascii_lowercase_def)

lemma finalize_stem_ok:
  "names_file (finalize_stem stem)" "length (finalize_stem stem) \<le> 128"
  "c \<in> set (finalize_stem stem) \<Longrightarrow> c \<in> set stem \<or> usable c"
  "dot \<notin> set stem \<Longrightarrow> leading_part (finalize_stem stem) \<notin> set reserved_stems"
proof -
  define fin where "fin = strip_trailing (collapse_loop [] False
    (trim_matches (\<lambda>c. c = dash \<or> is_whitespace c) stem))"
  note f = collapsed_stem [of stem, folded fin_def]
  have eq: "finalize_stem stem = (if fin = [] then fallback_stem
     else if leading_part fin \<in> set reserved_stems then fin @ ustr ''-capture'' else fin)"
    by (simp add: finalize_stem_def fin_def strip_trailing_def Let_def)
  have "names_file (fin @ ustr ''-capture'')" if "fin \<noteq> []"
    using f(3) [OF that] that
    by (simp add: names_file_def successively_append_iff trailing_def ustr_capture)
  then show "names_file (finalize_stem stem)" using f(3) capture_suffix(2) by (simp add: eq)
  show "length (finalize_stem stem) \<le> 128"
    using f(2) by (simp add: eq max_stem_chars_def ustr_capture)
  show "c \<in> set (finalize_stem stem) \<Longrightarrow> c \<in> set stem \<or> usable c"
    using f(1) capture_suffix(1,3) by (auto simp: eq split: if_splits)
  assume "dot \<notin> set stem"
  then have "dot \<notin> set (fin @ ustr ''-capture'')" using f(1) by (auto simp: ustr_capture)
  then have "length (leading_part (fin @ ustr ''-capture'')) > 4"
    by (simp add: leading_part_plain to_ascii_lowercase_def ustr_capture)
  then have "leading_part (fin @ ustr ''-capture'') \<notin> set reserved_stems"
    using reserved_lengths by (meson leD)
  then show "leading_part (finalize_stem stem) \<notin> set reserved_stems"
    using capture_suffix(4) by (simp add: eq)
qed

lemma expand_from_chars:
  assumes "segments_ok segs" "open_brace \<notin> set closing"
    and "c \<in> set (expand_from context [] (template_of segs closing))"
  shows "c \<in> set (template_of segs closing) \<or> usable c"
proof -
  have "c \<in> (\<Union>(l, token) \<in> set segs. set l \<union> set (sanitize_field (token_value context token))) \<union> set closing"
    using assms(3) by (auto simp: expand_from_template [OF assms(1,2)])
  then show ?thesis using sanitize_field_usable by (auto simp: template_of_def)
qed



definition nul_context :: template_context where
  "nul_context = \<lparr>tc_timestamp_micros = 1786921500348000, tc_display = ustr ''primary'',
     tc_mode = ustr ''window'', tc_width = 640, tc_height = 480,
     tc_application = Some (ustr ''edit''), tc_title = Some (ustr ''NUL'')\<rparr>"

definition dotted_segments :: segments where
  "dotted_segments = [([], ustr ''title''), ([dot], ustr ''width'')]"

definition dotted_template :: ustring where
  "dotted_template = template_of dotted_segments []"

lemma dotted_ok: "template_ok dotted_segments []"
  by (simp add: template_ok_def dotted_segments_def tokens_def ustr_def)

lemma dotted_accepted: "validate_template dotted_template = Inr ()"
  unfolding dotted_template_def by (rule template_ok_validates [OF dotted_ok])


text \<open>
  A closing brace before the first token is taken as literal text, and a reserved device name
  followed by a dot of the template stays reserved: the suffix comes after the dot.
\<close>

lemma early_close_accepted: "validate_template (ustr ''}{date}'') = Inr ()"
proof -
  have "template_ok [([close_brace], ustr ''date'')] []"
    by (simp add: template_ok_def tokens_def ustr_def)
  from template_ok_validates [OF this] show ?thesis by (simp add: ustr_def)
qed

lemma dotted_values:
  "token_value nul_context (ustr ''title'') = [78, 85, 76]"
  "token_value nul_context (ustr ''width'') = [54, 52, 48]"
  by (simp_all add: token_value_def nul_context_def ustr_def show_nat.simps split: prod.split)

lemma sanitized_values:
  "sanitize_field [78, 85, 76] = [78, 85, 76]" "sanitize_field [54, 52, 48] = [54, 52, 48]"
  by (simp_all add: sanitize_field_def char_defs max_field_chars_def)

lemma nul_reserved: "[110, 117, 108] \<in> set reserved_stems"
proof -
  have "ustr ''nul'' = [110, 117, 108]" by (simp add: ustr_def)
  moreover have "ustr ''nul'' \<in> set reserved_stems"
    by (simp only: reserved_stems_def list.map list.set insert_iff simp_thms)
  ultimately show ?thesis by (simp only:)
qed

lemma finalized_value:
  "finalize_stem [78, 85, 76, 46, 54, 52, 48] = [78, 85, 76, 46, 54, 52, 48] @ ustr ''-capture''"
  using nul_reserved
  by (simp add: finalize_stem_def trim_matches_def is_whitespace_def max_stem_chars_def trailing_def
      leading_part_def to_ascii_lowercase_def)

lemma ustr_nul: "ustr ''NUL.640-capture'' = [78, 85, 76, 46, 54, 52, 48, 45, 99, 97, 112, 116, 117, 114, 101]"
  by (simp add: ustr_def)

text \<open>The guard against device names misses names with a dot: the accepted template
  \<open>{title}.{width}\<close> for a window titled NUL gives \<open>NUL.640-capture\<close>, whose part before the dot
  is still the reserved name, since the suffix that should disarm it is put after the dot.\<close>

theorem reserved_name_survives:
  "expand dotted_template nul_context = ustr ''NUL.640-capture''
   \<and> leading_part (expand dotted_template nul_context) \<in> set reserved_stems"
proof -
  have "expand dotted_template nul_context = [78, 85, 76, 46, 54, 52, 48] @ ustr ''-capture''"
    unfolding dotted_template_def expand_template [OF dotted_ok]
    by (simp add: dotted_segments_def dotted_values sanitized_values finalized_value)
  then show ?thesis
    using nul_reserved by (simp add: ustr_capture ustr_nul leading_part_def to_ascii_lowercase_def)
qed

end
