(* ===== verification/History.thy ===== *)
theory History
  imports Prelude "HOL-Library.Sublist" "HOL-Library.Multiset"
begin

section \<open>The captures remembered\<close>

text \<open>
  The list of \<open>captastic-config/src/history.rs\<close>: newest first, pruned by number, age and total
  size. A \<open>SystemTime\<close> is the nanoseconds since the Unix epoch, an \<open>int\<close>; the latest one Windows
  can represent (a signed count of 100 ns since 1601) bounds \<open>UNIX_EPOCH + duration\<close>, which
  panics beyond it, here \<open>None\<close>. Whether a file exists is a parameter. Reading and writing the file
  (the \<open>toml\<close> crate, the lock, the atomic replace) is not modelled: \<open>HistoryStore\<close>'s operations
  are what they do to the list they have read.
\<close>

record history_entry =
  he_path :: ustring
  he_captured_at_micros :: "64 word"
  he_bytes :: u64
  he_width :: u32
  he_height :: u32
  he_display :: ustring
  he_mode :: ustring

record retention_policy =
  max_items :: nat
  max_age :: "duration option"
  max_total_bytes :: "u64 option"

record capture_history =
  schema_version :: u32
  entries :: "history_entry list"

definition latest_system_micros :: nat where
  "latest_system_micros = 910692730085477580"

definition entry_micros :: "history_entry \<Rightarrow> nat" where
  "entry_micros e = (if sint (he_captured_at_micros e) < 0 then 0 else nat (sint (he_captured_at_micros e)))"

definition entry_age :: "history_entry \<Rightarrow> int \<Rightarrow> duration option" where
  "entry_age e now = (if entry_micros e > latest_system_micros then None
     else Some (nat (now - int (entry_micros e) * 1000)))"

definition micros_since_epoch :: "int \<Rightarrow> 64 word" where
  "micros_since_epoch at =
    (if at < 0 then 0 else if at div 1000 < 2 ^ 63 then word_of_int (at div 1000) else 0)"

definition default_history :: capture_history where
  "default_history = \<lparr>schema_version = 1, entries = []\<rparr>"

definition most_recent :: "capture_history \<Rightarrow> history_entry option" where
  "most_recent h = (case entries h of [] \<Rightarrow> None | e # _ \<Rightarrow> Some e)"

definition u64_saturating_add :: "u64 \<Rightarrow> u64 \<Rightarrow> u64" where
  "u64_saturating_add a b = (if unat a + unat b < 2 ^ 64 then a + b else - 1)"

text \<open>The loop of \<open>prune\<close>: what is kept so far, what is dropped so far, the bytes kept.\<close>

fun prune_loop :: "retention_policy \<Rightarrow> int \<Rightarrow> history_entry list \<Rightarrow> history_entry list \<Rightarrow>
    history_entry list \<Rightarrow> u64 \<Rightarrow> (history_entry list \<times> history_entry list) option" where
  "prune_loop policy now [] kept dropped total_bytes = Some (kept, dropped)"
| "prune_loop policy now (e # es) kept dropped total_bytes =
    Option.bind (case max_age policy of None \<Rightarrow> Some False
      | Some limit \<Rightarrow> map_option (\<lambda>age. age > limit) (entry_age e now)) (\<lambda>too_old.
      let too_many = length kept \<ge> max_items policy;
          too_large = (case max_total_bytes policy of None \<Rightarrow> False
            | Some limit \<Rightarrow> u64_saturating_add total_bytes (he_bytes e) > limit)
      in if too_many \<or> too_old \<or> too_large
         then prune_loop policy now es kept (dropped @ [e]) total_bytes
         else prune_loop policy now es (kept @ [e]) dropped
           (u64_saturating_add total_bytes (he_bytes e)))"

definition prune :: "capture_history \<Rightarrow> retention_policy \<Rightarrow> int \<Rightarrow>
    (capture_history \<times> history_entry list) option" where
  "prune h policy now = map_option (\<lambda>(kept, dropped). (h\<lparr>entries := kept\<rparr>, dropped))
     (prune_loop policy now (entries h) [] [] 0)"

definition record_capture :: "capture_history \<Rightarrow> history_entry \<Rightarrow> retention_policy \<Rightarrow> int \<Rightarrow>
    (capture_history \<times> history_entry list) option" where
  "record_capture h e policy now = prune (h\<lparr>entries := e # entries h\<rparr>) policy now"

definition forget_missing :: "(ustring \<Rightarrow> bool) \<Rightarrow> capture_history \<Rightarrow> capture_history \<times> nat" where
  "forget_missing exists h =
    (let kept = filter (\<lambda>e. exists (he_path e)) (entries h)
     in (h\<lparr>entries := kept\<rparr>, length (entries h) - length kept))"

definition store_prune :: "(ustring \<Rightarrow> bool) \<Rightarrow> capture_history \<Rightarrow> retention_policy \<Rightarrow> int \<Rightarrow>
    (capture_history \<times> history_entry list) option" where
  "store_prune exists h policy now =
    map_option (\<lambda>(h, dropped). (fst (forget_missing exists h), dropped)) (prune h policy now)"

subsection \<open>What is kept\<close>

definition stamps_ok :: "history_entry list \<Rightarrow> bool" where
  "stamps_ok es \<longleftrightarrow> (\<forall>e \<in> set es. entry_micros e \<le> latest_system_micros)"

definition too_old :: "retention_policy \<Rightarrow> int \<Rightarrow> history_entry \<Rightarrow> bool" where
  "too_old policy now e \<longleftrightarrow> (case max_age policy of None \<Rightarrow> False
     | Some limit \<Rightarrow> nat (now - int (entry_micros e) * 1000) > limit)"

definition bytes_of :: "history_entry list \<Rightarrow> nat" where
  "bytes_of es = (\<Sum>e \<leftarrow> es. unat (he_bytes e))"

definition over_bytes :: "retention_policy \<Rightarrow> history_entry list \<Rightarrow> history_entry \<Rightarrow> bool" where
  "over_bytes policy kept e \<longleftrightarrow> (case max_total_bytes policy of None \<Rightarrow> False
     | Some limit \<Rightarrow> min (2 ^ 64 - 1) (bytes_of (kept @ [e])) > unat limit)"

text \<open>Each entry is judged against those kept before it.\<close>

definition fits :: "retention_policy \<Rightarrow> int \<Rightarrow> history_entry list \<Rightarrow> history_entry \<Rightarrow> bool" where
  "fits policy now kept e \<longleftrightarrow>
    length kept < max_items policy \<and> \<not> too_old policy now e \<and> \<not> over_bytes policy kept e"

primrec kept_after :: "retention_policy \<Rightarrow> int \<Rightarrow> history_entry list \<Rightarrow> history_entry list \<Rightarrow> history_entry list" where
  "kept_after policy now kept [] = kept"
| "kept_after policy now kept (e # es) =
    kept_after policy now (if fits policy now kept e then kept @ [e] else kept) es"

primrec dropped_after :: "retention_policy \<Rightarrow> int \<Rightarrow> history_entry list \<Rightarrow> history_entry list \<Rightarrow> history_entry list" where
  "dropped_after policy now kept [] = []"
| "dropped_after policy now kept (e # es) =
    (if fits policy now kept e then dropped_after policy now (kept @ [e]) es
     else e # dropped_after policy now kept es)"

definition saturated :: "nat \<Rightarrow> u64" where
  "saturated n = (if n < 2 ^ 64 then of_nat n else - 1)"

lemma unat_max_u64: "unat (- 1 :: u64) = 2 ^ 64 - 1"
  by (simp add: unsigned_minus_1_eq_mask mask_eq_exp_minus_1)

lemma unat_saturated: "unat (saturated n) = min (2 ^ 64 - 1) n"
  by (auto simp: saturated_def unat_of_nat unat_max_u64 take_bit_nat_eq_self)

lemma saturated_add: "u64_saturating_add (saturated n) b = saturated (n + unat b)"
proof (cases "n < 2 ^ 64")
  case True
  then have "unat (saturated n) = n" by (simp add: unat_saturated)
  then show ?thesis using True by (auto simp: u64_saturating_add_def saturated_def)
next
  case False
  then show ?thesis
    by (cases "b = 0") (auto simp: u64_saturating_add_def saturated_def unat_max_u64 unat_eq_zero)
qed

lemma bytes_of_simps [simp]: "bytes_of [] = 0" "bytes_of (es @ fs) = bytes_of es + bytes_of fs"
  "bytes_of (e # es) = unat (he_bytes e) + bytes_of es"
  by (simp_all add: bytes_of_def)

lemma prune_loop_value:
  "stamps_ok es \<Longrightarrow> prune_loop policy now es kept dropped (saturated (bytes_of kept))
    = Some (kept_after policy now kept es, dropped @ dropped_after policy now kept es)"
proof (induction es arbitrary: kept dropped)
  case (Cons e es)
  have "entry_micros e \<le> latest_system_micros" using Cons.prems by (simp add: stamps_ok_def)
  then have old: "(case max_age policy of None \<Rightarrow> Some False
      | Some limit \<Rightarrow> map_option (\<lambda>age. age > limit) (entry_age e now)) = Some (too_old policy now e)"
    by (simp add: entry_age_def too_old_def split: option.split)
  have large: "(case max_total_bytes policy of None \<Rightarrow> False
      | Some limit \<Rightarrow> u64_saturating_add (saturated (bytes_of kept)) (he_bytes e) > limit) \<longleftrightarrow> over_bytes policy kept e"
    by (simp add: over_bytes_def word_less_nat_alt saturated_add unat_saturated split: option.split)
  have es: "stamps_ok es" using Cons.prems by (simp add: stamps_ok_def)
  show ?case
    using Cons.IH [OF es, of "kept @ [e]" dropped] Cons.IH [OF es, of kept "dropped @ [e]"]
    by (auto simp: old large saturated_add fits_def not_le)
qed simp

lemma prune_value:
  "stamps_ok (entries h) \<Longrightarrow> prune h policy now
    = Some (h\<lparr>entries := kept_after policy now [] (entries h)\<rparr>, dropped_after policy now [] (entries h))"
  using prune_loop_value [of "entries h" policy now "[]" "[]"] by (simp add: prune_def saturated_def)


lemma kept_extends: "\<exists>more. kept_after policy now kept es = kept @ more \<and> subseq more es"
proof (induction es arbitrary: kept)
  case (Cons e es)
  show ?case
  proof (cases "fits policy now kept e")
    case True
    obtain more where "kept_after policy now (kept @ [e]) es = (kept @ [e]) @ more" "subseq more es"
      using Cons by blast
    then have "kept_after policy now kept (e # es) = kept @ e # more \<and> subseq (e # more) (e # es)"
      using True by simp
    then show ?thesis by blast
  next
    case False
    then show ?thesis using Cons [of kept] by auto
  qed
qed simp

lemma dropped_subseq: "subseq (dropped_after policy now kept es) es"
  by (induction es arbitrary: kept) auto

lemma kept_and_dropped:
  "mset (kept_after policy now kept es) + mset (dropped_after policy now kept es) = mset kept + mset es"
proof (induction es arbitrary: kept)
  case (Cons e es)
  then show ?case by (simp add: ac_simps)
qed simp

definition within_limits :: "retention_policy \<Rightarrow> int \<Rightarrow> history_entry list \<Rightarrow> bool" where
  "within_limits policy now es \<longleftrightarrow> length es \<le> max_items policy \<and> (\<forall>e \<in> set es. \<not> too_old policy now e)
     \<and> (\<forall>limit. max_total_bytes policy = Some limit \<longrightarrow> unat limit < 2 ^ 64 - 1 \<longrightarrow> bytes_of es \<le> unat limit)"

lemma kept_within_limits:
  "within_limits policy now kept \<Longrightarrow> within_limits policy now (kept_after policy now kept es)"
proof (induction es arbitrary: kept)
  case (Cons e es)
  have "within_limits policy now (kept @ [e])" if "fits policy now kept e"
    using that Cons.prems by (auto simp: within_limits_def fits_def over_bytes_def min_def split: if_splits)
  then show ?case using Cons by simp
qed simp

lemma prefix_within_limits: "within_limits policy now (es @ fs) \<Longrightarrow> within_limits policy now es"
  by (auto simp: within_limits_def)

lemma limits_fit:
  assumes "within_limits policy now (kept @ e # es)"
  shows "fits policy now kept e"
proof -
  have "unat limit = 2 ^ 64 - 1" if "\<not> unat limit < 2 ^ 64 - 1" for limit :: u64
    using that unsigned_less [of limit, where ?'a = nat] by simp
  then show ?thesis
    using assms by (fastforce simp: within_limits_def fits_def over_bytes_def split: option.split)
qed

lemma kept_again:
  "within_limits policy now (kept @ es) \<Longrightarrow>
    kept_after policy now kept es = kept @ es \<and> dropped_after policy now kept es = []"
proof (induction es arbitrary: kept)
  case (Cons e es)
  have "fits policy now kept e" using Cons.prems by (rule limits_fit)
  then show ?case using Cons.IH [of "kept @ [e]"] Cons.prems by simp
qed simp

text \<open>With no limit on bytes the rules keep the front of what is not too old.\<close>

lemma kept_front:
  assumes "max_total_bytes policy = None"
  shows "kept_after policy now kept es
    = kept @ take (max_items policy - length kept) (filter (\<lambda>e. \<not> too_old policy now e) es)"
proof (induction es arbitrary: kept)
  case (Cons e es)
  show ?case
  proof (cases "fits policy now kept e")
    case True
    then have "max_items policy - length kept = Suc (max_items policy - length (kept @ [e]))"
      by (auto simp: fits_def)
    then show ?thesis using True Cons [of "kept @ [e]"] by (simp add: fits_def)
  next
    case False
    then show ?thesis using Cons [of kept] assms by (auto simp: fits_def over_bytes_def)
  qed
qed simp


definition sample_entry :: "nat \<Rightarrow> nat \<Rightarrow> history_entry" where
  "sample_entry k n = \<lparr>he_path = [k], he_captured_at_micros = of_nat (1000 * k), he_bytes = of_nat n,
     he_width = 8, he_height = 8, he_display = [], he_mode = []\<rparr>"

definition sample_history :: capture_history where
  "sample_history = \<lparr>schema_version = 1, entries = [sample_entry 3 80, sample_entry 2 60, sample_entry 1 10]\<rparr>"

definition sample_policy :: retention_policy where
  "sample_policy = \<lparr>max_items = 10, max_age = Some 60000000000, max_total_bytes = Some 100\<rparr>"

lemma sample_stamps: "stamps_ok (entries sample_history)"
  by (simp add: stamps_ok_def sample_history_def sample_entry_def entry_micros_def latest_system_micros_def)


text \<open>A limit on bytes skips a capture that does not fit and keeps an older, smaller one.\<close>

lemma prune_skips:
  "prune sample_history sample_policy 5000000
    = Some (sample_history\<lparr>entries := [sample_entry 3 80, sample_entry 1 10]\<rparr>, [sample_entry 2 60])"
  by (simp add: prune_value [OF sample_stamps])
    (simp add: sample_history_def sample_policy_def fits_def too_old_def over_bytes_def sample_entry_def
      entry_micros_def)

end
