(* ===== verification/Tray.thy ===== *)
theory Tray
  imports CaptureTypes "HOL-Library.Sublist"
begin

section \<open>The notification area icon\<close>

text \<open>
  The tray window of \<open>captastic-windows/src/tray.rs\<close>: how its messages are understood
  (\<open>translate_tray_message\<close>), the decision core (\<open>machine::transition\<close>), the runner that carries
  out the effects (\<open>run_tray_input\<close>, \<open>apply_tray_effect\<close>) and the bounded retry of adding the icon.
  Whether the shell takes the icon is a parameter of a step (\<open>restored\<close>); what the runner does to
  the outside is the log of effects carried out and the notifications handed to the shell. The
  numbers of the Windows messages are those of the Win32 headers. A message is taken as handled
  before the next one: the effects that pump messages are the only ones of their list but for the
  event that follows a changed tooltip.
\<close>

datatype tray_event =
    EvCapture | EvPausedChanged bool | EvOpenConfig | EvOpenLogs | EvOpenLastCapture
  | EvShowInFolder | EvOpenCapturesFolder | EvPruneHistory | EvToggleFileOutput | EvToggleReview
  | EvClosePins | EvMakePinsClickable | EvToggleStartup | EvExit

datatype icon_state = Absent | Present | Degraded

datatype session_phase = Idle | QueryReceived

record tray_model =
  tm_paused :: bool
  tm_startup_enabled :: bool
  tm_file_output_enabled :: bool
  tm_review_enabled :: bool
  tm_has_history :: bool
  tm_icon :: icon_state
  tm_session :: session_phase
  tm_exit_requested :: bool

definition tray_model_new :: "bool \<Rightarrow> bool \<Rightarrow> tray_model" where
  "tray_model_new startup_enabled file_output_enabled =
    \<lparr>tm_paused = False, tm_startup_enabled = startup_enabled,
     tm_file_output_enabled = file_output_enabled, tm_review_enabled = True,
     tm_has_history = False, tm_icon = Absent, tm_session = Idle, tm_exit_requested = False\<rparr>"

datatype tray_menu_command =
    CmdCapture | CmdPause | CmdOpenConfig | CmdOpenLogs | CmdOpenLastCapture | CmdShowInFolder
  | CmdOpenCapturesFolder | CmdPruneHistory | CmdToggleFileOutput | CmdToggleReview | CmdClosePins
  | CmdMakePinsClickable | CmdToggleStartup | CmdExit

datatype tray_input =
    TaskbarCreated | DisplayChanged | DisplaySettingChanged | IconDoubleClick | IconContextMenu
  | Menu tray_menu_command | StartupStateChanged bool | FileOutputChanged bool
  | ReviewChanged bool | HistoryAvailabilityChanged bool | NotificationsPosted
  | NotificationClicked | QueryEndSession | EndSession bool | CloseRequested | Destroyed
  | IconAddCompleted bool

text \<open>\<open>ShowMenu\<close> carries paused, start with Windows, saving to disk, reviewing and has-history.\<close>

datatype tray_effect =
    AddIcon bool | ModifyTooltip bool | ShowMenu bool bool bool bool bool | DrainNotifications
  | RevealNotifiedFile | SendEvent tray_event | CreateShutdownBlockReason
  | DestroyShutdownBlockReason | WaitForSessionDrain | MarkDisplayConfigurationChanged ustring
  | PostQuit

datatype message_disposition = Handled | AllowSessionEnd

subsection \<open>The decision core\<close>

fun tray_transition :: "tray_model \<Rightarrow> tray_input \<Rightarrow> tray_model \<times> tray_effect list \<times> message_disposition" where
  "tray_transition m TaskbarCreated = (m, [AddIcon (tm_paused m)], Handled)"
| "tray_transition m (IconAddCompleted restored) =
    (if restored then (m\<lparr>tm_icon := Present\<rparr>, [DrainNotifications], Handled)
     else (m\<lparr>tm_icon := Degraded\<rparr>, [], Handled))"
| "tray_transition m DisplayChanged =
    (m, [MarkDisplayConfigurationChanged (ustr ''tray_display_changed'')], Handled)"
| "tray_transition m DisplaySettingChanged =
    (m, [MarkDisplayConfigurationChanged (ustr ''tray_display_setting_changed'')], Handled)"
| "tray_transition m IconDoubleClick =
    (m, if tm_paused m then [] else [SendEvent EvCapture], Handled)"
| "tray_transition m IconContextMenu =
    (m, [ShowMenu (tm_paused m) (tm_startup_enabled m) (tm_file_output_enabled m)
          (tm_review_enabled m) (tm_has_history m)], Handled)"
| "tray_transition m (Menu c) = (case c of
      CmdCapture \<Rightarrow> (m, if tm_paused m then [] else [SendEvent EvCapture], Handled)
    | CmdPause \<Rightarrow>
        (let m = m\<lparr>tm_paused := \<not> tm_paused m\<rparr>
         in (m, (if tm_icon m = Present then [ModifyTooltip (tm_paused m)] else [])
               @ [SendEvent (EvPausedChanged (tm_paused m))], Handled))
    | CmdOpenConfig \<Rightarrow> (m, [SendEvent EvOpenConfig], Handled)
    | CmdOpenLogs \<Rightarrow> (m, [SendEvent EvOpenLogs], Handled)
    | CmdOpenLastCapture \<Rightarrow> (m, [SendEvent EvOpenLastCapture], Handled)
    | CmdShowInFolder \<Rightarrow> (m, [SendEvent EvShowInFolder], Handled)
    | CmdOpenCapturesFolder \<Rightarrow> (m, [SendEvent EvOpenCapturesFolder], Handled)
    | CmdPruneHistory \<Rightarrow> (m, [SendEvent EvPruneHistory], Handled)
    | CmdClosePins \<Rightarrow> (m, [SendEvent EvClosePins], Handled)
    | CmdMakePinsClickable \<Rightarrow> (m, [SendEvent EvMakePinsClickable], Handled)
    | CmdToggleFileOutput \<Rightarrow> (m, [SendEvent EvToggleFileOutput], Handled)
    | CmdToggleReview \<Rightarrow> (m, [SendEvent EvToggleReview], Handled)
    | CmdToggleStartup \<Rightarrow> (m, [SendEvent EvToggleStartup], Handled)
    | CmdExit \<Rightarrow> (m\<lparr>tm_exit_requested := True\<rparr>, [SendEvent EvExit], Handled))"
| "tray_transition m CloseRequested = (m\<lparr>tm_exit_requested := True\<rparr>, [SendEvent EvExit], Handled)"
| "tray_transition m NotificationClicked = (m, [RevealNotifiedFile], Handled)"
| "tray_transition m (StartupStateChanged enabled) = (m\<lparr>tm_startup_enabled := enabled\<rparr>, [], Handled)"
| "tray_transition m (FileOutputChanged enabled) = (m\<lparr>tm_file_output_enabled := enabled\<rparr>, [], Handled)"
| "tray_transition m (ReviewChanged enabled) = (m\<lparr>tm_review_enabled := enabled\<rparr>, [], Handled)"
| "tray_transition m (HistoryAvailabilityChanged has) = (m\<lparr>tm_has_history := has\<rparr>, [], Handled)"
| "tray_transition m NotificationsPosted =
    (m, if tm_icon m = Present then [DrainNotifications] else [], Handled)"
| "tray_transition m QueryEndSession =
    (if tm_session m = Idle
     then (m\<lparr>tm_session := QueryReceived\<rparr>, [CreateShutdownBlockReason], AllowSessionEnd)
     else (m, [], AllowSessionEnd))"
| "tray_transition m (EndSession committed) =
    (m\<lparr>tm_session := Idle\<rparr>,
     (if committed then [WaitForSessionDrain] else [])
       @ (if tm_session m = QueryReceived then [DestroyShutdownBlockReason] else []), Handled)"
| "tray_transition m Destroyed =
    (if tm_session m = QueryReceived
     then (m\<lparr>tm_session := Idle\<rparr>, [DestroyShutdownBlockReason, PostQuit], Handled)
     else (m, [PostQuit], Handled))"

subsection \<open>Messages\<close>

abbreviation WM_DESTROY :: nat where "WM_DESTROY \<equiv> 0x0002"
abbreviation WM_CLOSE :: nat where "WM_CLOSE \<equiv> 0x0010"
abbreviation WM_QUERYENDSESSION :: nat where "WM_QUERYENDSESSION \<equiv> 0x0011"
abbreviation WM_ENDSESSION :: nat where "WM_ENDSESSION \<equiv> 0x0016"
abbreviation WM_SETTINGCHANGE :: nat where "WM_SETTINGCHANGE \<equiv> 0x001A"
abbreviation WM_CONTEXTMENU :: nat where "WM_CONTEXTMENU \<equiv> 0x007B"
abbreviation WM_DISPLAYCHANGE :: nat where "WM_DISPLAYCHANGE \<equiv> 0x007E"
abbreviation WM_COMMAND :: nat where "WM_COMMAND \<equiv> 0x0111"
abbreviation WM_LBUTTONDBLCLK :: nat where "WM_LBUTTONDBLCLK \<equiv> 0x0203"
abbreviation WM_RBUTTONUP :: nat where "WM_RBUTTONUP \<equiv> 0x0205"
abbreviation NIN_BALLOONUSERCLICK :: nat where "NIN_BALLOONUSERCLICK \<equiv> 0x0405"
abbreviation WM_APP :: nat where "WM_APP \<equiv> 0x8000"
abbreviation SPI_SETWORKAREA :: nat where "SPI_SETWORKAREA \<equiv> 0x002F"
abbreviation SPI_SETLOGICALDPIOVERRIDE :: nat where "SPI_SETLOGICALDPIOVERRIDE \<equiv> 0x009F"

definition tray_command :: "nat \<Rightarrow> tray_menu_command option" where
  "tray_command code =
    (if code = 1001 then Some CmdCapture
     else if code = 1002 then Some CmdPause
     else if code = 1003 then Some CmdOpenConfig
     else if code = 1004 then Some CmdOpenLogs
     else if code = 1006 then Some CmdOpenLastCapture
     else if code = 1007 then Some CmdShowInFolder
     else if code = 1013 then Some CmdOpenCapturesFolder
     else if code = 1008 then Some CmdPruneHistory
     else if code = 1010 then Some CmdToggleFileOutput
     else if code = 1014 then Some CmdToggleReview
     else if code = 1011 then Some CmdClosePins
     else if code = 1012 then Some CmdMakePinsClickable
     else if code = 1005 then Some CmdToggleStartup
     else if code = 1009 then Some CmdExit
     else None)"

datatype translated_message = Input tray_input | Consumed | Unhandled

definition translate_tray_message :: "nat \<Rightarrow> nat \<Rightarrow> nat \<Rightarrow> nat \<Rightarrow> translated_message" where
  "translate_tray_message taskbar_created message wparam lparam =
    (if message = taskbar_created then Input TaskbarCreated
     else if message = WM_DISPLAYCHANGE then Input DisplayChanged
     else if message = WM_SETTINGCHANGE \<and> (wparam = SPI_SETWORKAREA \<or> wparam = SPI_SETLOGICALDPIOVERRIDE)
       then Input DisplaySettingChanged
     else if message = WM_APP + 1 then
       (let code = lparam mod 2 ^ 32 in
        if code = WM_LBUTTONDBLCLK then Input IconDoubleClick
        else if code = WM_RBUTTONUP \<or> code = WM_CONTEXTMENU then Input IconContextMenu
        else if code = NIN_BALLOONUSERCLICK then Input NotificationClicked
        else Consumed)
     else if message = WM_COMMAND then
       (case tray_command (wparam mod 2 ^ 16) of Some c \<Rightarrow> Input (Menu c) | None \<Rightarrow> Consumed)
     else if message = WM_APP + 2 then Input (StartupStateChanged (wparam \<noteq> 0))
     else if message = WM_APP + 4 then Input (FileOutputChanged (wparam \<noteq> 0))
     else if message = WM_APP + 6 then Input (ReviewChanged (wparam \<noteq> 0))
     else if message = WM_APP + 5 then Input (HistoryAvailabilityChanged (wparam \<noteq> 0))
     else if message = WM_APP + 3 then Input NotificationsPosted
     else if message = WM_QUERYENDSESSION then Input QueryEndSession
     else if message = WM_ENDSESSION then Input (EndSession (wparam \<noteq> 0))
     else if message = WM_CLOSE then Input CloseRequested
     else if message = WM_DESTROY then Input Destroyed
     else Unhandled)"

subsection \<open>The runner\<close>

record tray_notification =
  tn_title :: ustring
  tn_message :: ustring
  tn_informational :: bool
  tn_reveal :: "ustring option"

text \<open>
  \<open>tr_posted\<close> are the notifications the bounded queue took, \<open>tr_waiting\<close> those still in it,
  \<open>tr_shown\<close> those handed to the shell with the state the icon was in; \<open>tr_log\<close> is every effect
  carried out, in order, and \<open>tr_revealed\<close> the files shown for a clicked notification. \<open>tr_events\<close>
  is the bounded channel to the daemon, which reads while it lives, \<open>tr_received\<close> what it has read and \<open>tr_lost\<close> what the full
  channel did not take.
\<close>

record tray_runtime =
  tr_model :: tray_model
  tr_posted :: "tray_notification list"
  tr_waiting :: "tray_notification list"
  tr_shown :: "(tray_notification \<times> icon_state) list"
  tr_last_reveal :: "ustring option"
  tr_revealed :: "ustring list"
  tr_events :: "tray_event list"
  tr_received :: "tray_event list"
  tr_lost :: "tray_event list"
  tr_log :: "tray_effect list"

definition logged :: "tray_effect \<Rightarrow> tray_runtime \<Rightarrow> tray_runtime" where
  "logged e rt = rt\<lparr>tr_log := tr_log rt @ [e]\<rparr>"

definition drain_notifications :: "tray_runtime \<Rightarrow> tray_runtime" where
  "drain_notifications rt = rt\<lparr>
     tr_shown := tr_shown rt @ map (\<lambda>n. (n, tm_icon (tr_model rt))) (tr_waiting rt),
     tr_last_reveal := (if tr_waiting rt = [] then tr_last_reveal rt else tn_reveal (last (tr_waiting rt))),
     tr_waiting := []\<rparr>"

definition dispatch_tray_event :: "tray_event \<Rightarrow> tray_runtime \<Rightarrow> tray_runtime" where
  "dispatch_tray_event ev rt = (if length (tr_events rt) < 8
     then rt\<lparr>tr_events := tr_events rt @ [ev]\<rparr> else rt\<lparr>tr_lost := tr_lost rt @ [ev]\<rparr>)"

definition effect_size :: "tray_effect \<Rightarrow> nat" where
  "effect_size e = (case e of AddIcon _ \<Rightarrow> 3 | _ \<Rightarrow> 1)"

function apply_tray_effects :: "bool \<Rightarrow> tray_effect list \<Rightarrow> tray_runtime \<Rightarrow> tray_runtime" where
  "apply_tray_effects restored [] rt = rt"
| "apply_tray_effects restored (e # es) rt = apply_tray_effects restored es
    (let rt = logged e rt in case e of
       AddIcon _ \<Rightarrow> (case tray_transition (tr_model rt) (IconAddCompleted restored) of
         (m, effects, _) \<Rightarrow> apply_tray_effects restored effects (rt\<lparr>tr_model := m\<rparr>))
     | DrainNotifications \<Rightarrow> drain_notifications rt
     | RevealNotifiedFile \<Rightarrow> (case tr_last_reveal rt of None \<Rightarrow> rt
         | Some f \<Rightarrow> rt\<lparr>tr_revealed := tr_revealed rt @ [f]\<rparr>)
     | SendEvent ev \<Rightarrow> dispatch_tray_event ev rt
     | _ \<Rightarrow> rt)"
  by pat_completeness auto
termination
  by (relation "measure (\<lambda>(restored, es, rt). sum_list (map effect_size es))")
    (auto simp: effect_size_def split: tray_effect.split if_splits)

definition run_tray_input :: "bool \<Rightarrow> tray_input \<Rightarrow> tray_runtime \<Rightarrow> tray_runtime \<times> nat" where
  "run_tray_input restored i rt = (case tray_transition (tr_model rt) i of
     (m, effects, disposition) \<Rightarrow>
       (apply_tray_effects restored effects (rt\<lparr>tr_model := m\<rparr>),
        case disposition of Handled \<Rightarrow> 0 | AllowSessionEnd \<Rightarrow> 1))"

text \<open>\<open>None\<close> leaves the answer to \<open>DefWindowProcW\<close>.\<close>

definition tray_window_proc :: "nat \<Rightarrow> bool \<Rightarrow> nat \<Rightarrow> nat \<Rightarrow> nat \<Rightarrow> tray_runtime \<Rightarrow> tray_runtime \<times> nat option" where
  "tray_window_proc taskbar_created restored message wparam lparam rt =
    (case translate_tray_message taskbar_created message wparam lparam of
       Input i \<Rightarrow> (case run_tray_input restored i rt of (rt, answer) \<Rightarrow> (rt, Some answer))
     | Consumed \<Rightarrow> (rt, Some 0)
     | Unhandled \<Rightarrow> (rt, None))"

text \<open>\<open>send_notification\<close>: the channel holds eight.\<close>

definition send_notification :: "tray_notification \<Rightarrow> tray_runtime \<Rightarrow> tray_runtime option" where
  "send_notification n rt = (if length (tr_waiting rt) < 8
     then Some (rt\<lparr>tr_waiting := tr_waiting rt @ [n], tr_posted := tr_posted rt @ [n]\<rparr>) else None)"

text \<open>\<open>run_tray\<close> up to its loop: the icon is added, or not, before the first message.\<close>

definition start_tray :: "bool \<Rightarrow> bool \<Rightarrow> bool \<Rightarrow> tray_runtime" where
  "start_tray startup_enabled file_output_enabled added =
    fst (run_tray_input added (IconAddCompleted added)
      \<lparr>tr_model = tray_model_new startup_enabled file_output_enabled, tr_posted = [], tr_waiting = [],
       tr_shown = [], tr_last_reveal = None, tr_revealed = [], tr_events = [], tr_received = [],
       tr_lost = [], tr_log = []\<rparr>)"

text \<open>\<open>TrayIcon::try_recv\<close>, with which the daemon takes the next event.\<close>

definition tray_try_recv :: "tray_runtime \<Rightarrow> tray_event option \<times> tray_runtime" where
  "tray_try_recv rt = (case tr_events rt of [] \<Rightarrow> (None, rt)
     | ev # evs \<Rightarrow> (Some ev, rt\<lparr>tr_events := evs, tr_received := tr_received rt @ [ev]\<rparr>))"

inductive tray_reachable :: "nat \<Rightarrow> tray_runtime \<Rightarrow> bool" for taskbar_created where
  started: "tray_reachable taskbar_created (start_tray startup_enabled file_output_enabled added)"
| message: "tray_reachable taskbar_created rt \<Longrightarrow> PostQuit \<notin> set (tr_log rt) \<Longrightarrow>
    tray_reachable taskbar_created (fst (tray_window_proc taskbar_created restored message wparam lparam rt))"
| posted: "tray_reachable taskbar_created rt \<Longrightarrow> send_notification n rt = Some rt' \<Longrightarrow>
    tray_reachable taskbar_created rt'"
| polled: "tray_reachable taskbar_created rt \<Longrightarrow> tray_reachable taskbar_created (snd (tray_try_recv rt))"

subsection \<open>Adding the icon\<close>

definition TRAY_ADD_ATTEMPTS :: nat where "TRAY_ADD_ATTEMPTS = 4"

text \<open>The answer, and how often it waited; \<open>add k\<close> is the shell's answer to the \<open>k\<close>-th attempt.\<close>

function retry_tray_icon_add :: "(nat \<Rightarrow> capture_error + unit) \<Rightarrow> nat \<Rightarrow> nat \<Rightarrow> (capture_error + unit) \<times> nat" where
  "retry_tray_icon_add add attempt waits = (case add attempt of
      Inl e \<Rightarrow> if err_retryable e \<and> attempt < TRAY_ADD_ATTEMPTS
        then retry_tray_icon_add add (attempt + 1) (waits + 1) else (Inl e, waits)
    | Inr u \<Rightarrow> (Inr u, waits))"
  by pat_completeness auto
termination
  by (relation "measure (\<lambda>(add, attempt, waits). TRAY_ADD_ATTEMPTS - attempt)") auto

declare retry_tray_icon_add.simps [simp del]

subsection \<open>What holds of every run\<close>

primrec sent :: "tray_effect list \<Rightarrow> tray_event list" where
  "sent [] = []"
| "sent (e # es) = (case e of SendEvent ev \<Rightarrow> ev # sent es | _ \<Rightarrow> sent es)"

primrec paused_after :: "bool \<Rightarrow> tray_event list \<Rightarrow> bool" where
  "paused_after p [] = p"
| "paused_after p (e # es) = paused_after (case e of EvPausedChanged q \<Rightarrow> q | _ \<Rightarrow> p) es"

primrec tooltip_after :: "bool \<Rightarrow> tray_effect list \<Rightarrow> bool" where
  "tooltip_after p [] = p"
| "tooltip_after p (e # es) = tooltip_after (case e of AddIcon q \<Rightarrow> q | ModifyTooltip q \<Rightarrow> q | _ \<Rightarrow> p) es"

primrec captures_unpaused :: "bool \<Rightarrow> tray_event list \<Rightarrow> bool" where
  "captures_unpaused p [] \<longleftrightarrow> True"
| "captures_unpaused p (e # es) \<longleftrightarrow> (e = EvCapture \<longrightarrow> \<not> p) \<and> captures_unpaused (paused_after p [e]) es"

lemma sent_append [simp]: "sent (es @ fs) = sent es @ sent fs"
  by (induction es) (auto split: tray_effect.split)

lemma after_append [simp]:
  "paused_after p (es @ fs) = paused_after (paused_after p es) fs"
  "captures_unpaused p (es @ fs) \<longleftrightarrow> captures_unpaused p es \<and> captures_unpaused (paused_after p es) fs"
  by (induction es arbitrary: p) auto

lemma tooltip_append [simp]: "tooltip_after p (es @ fs) = tooltip_after (tooltip_after p es) fs"
  by (induction es arbitrary: p) auto

text \<open>Every event sent is in the channel, read or lost; when none is lost they are read in order.\<close>

definition channel_ok :: "tray_runtime \<Rightarrow> bool" where
  "channel_ok rt \<longleftrightarrow> subseq (tr_received rt @ tr_events rt) (sent (tr_log rt)) \<and> length (tr_events rt) \<le> 8
     \<and> length (sent (tr_log rt)) = length (tr_received rt) + length (tr_events rt) + length (tr_lost rt)"

lemma channel_in_order: "channel_ok rt \<Longrightarrow> tr_lost rt = [] \<Longrightarrow> tr_received rt @ tr_events rt = sent (tr_log rt)"
  by (auto simp: channel_ok_def intro: subseq_same_length)

definition tray_ok :: "tray_runtime \<Rightarrow> bool" where
  "tray_ok rt \<longleftrightarrow>
     count_list (tr_log rt) CreateShutdownBlockReason = count_list (tr_log rt) DestroyShutdownBlockReason
       + (if tm_session (tr_model rt) = QueryReceived then 1 else 0)
   \<and> (PostQuit \<in> set (tr_log rt) \<longrightarrow> tm_session (tr_model rt) = Idle)
   \<and> tr_posted rt = map fst (tr_shown rt) @ tr_waiting rt \<and> length (tr_waiting rt) \<le> 8
   \<and> (\<forall>(n, icon) \<in> set (tr_shown rt). icon = Present)
   \<and> paused_after False (sent (tr_log rt)) = tm_paused (tr_model rt)
   \<and> captures_unpaused False (sent (tr_log rt))
   \<and> (tm_icon (tr_model rt) = Present \<longrightarrow> tooltip_after False (tr_log rt) = tm_paused (tr_model rt))"

lemma session_idle [simp]: "s \<noteq> QueryReceived \<longleftrightarrow> s = Idle"
  by (cases s) simp_all

lemma map_fst_tagged [simp]: "map (fst \<circ> (\<lambda>n. (n, c))) ns = ns"
  by (induction ns) simp_all

lemma run_tray_input_ok:
  assumes "tray_ok rt" "\<And>b. i \<noteq> IconAddCompleted b"
    "PostQuit \<notin> set (tr_log rt)"
  shows "tray_ok (fst (run_tray_input restored i rt))"
  using assms
  by (cases i) (auto simp: run_tray_input_def tray_ok_def logged_def drain_notifications_def Let_def
      dispatch_tray_event_def split: tray_menu_command.split option.split)

lemma channel_sent: "channel_ok rt \<Longrightarrow> channel_ok (dispatch_tray_event ev (logged (SendEvent ev) rt))"
  by (auto simp: channel_ok_def dispatch_tray_event_def logged_def simp flip: append_assoc
      intro: list_emb_append_mono)

lemma channel_logged: "sent [e] = [] \<Longrightarrow> channel_ok rt \<Longrightarrow> channel_ok (logged e rt)"
  by (simp add: channel_ok_def logged_def)

lemma channel_update:
  "channel_ok (rt\<lparr>tr_model := m\<rparr>) = channel_ok rt"
  "channel_ok (drain_notifications rt) = channel_ok rt"
  "channel_ok (rt\<lparr>tr_revealed := fs\<rparr>) = channel_ok rt"
  by (simp_all add: channel_ok_def drain_notifications_def)

lemma channel_effects: "channel_ok rt \<Longrightarrow> channel_ok (apply_tray_effects restored es rt)"
proof (induction restored es rt rule: apply_tray_effects.induct)
  case (2 restored e es rt)
  then show ?case
    by (cases e) (auto simp: Let_def channel_sent channel_logged channel_update split: option.split)
qed simp

lemma channel_message: "channel_ok rt \<Longrightarrow> channel_ok (fst (tray_window_proc t restored message wparam lparam rt))"
  by (auto simp: tray_window_proc_def run_tray_input_def channel_effects channel_update
      split: translated_message.split prod.split)

lemma start_tray_ok: "tray_ok (start_tray startup_enabled file_output_enabled added)"
  by (auto simp: start_tray_def run_tray_input_def tray_ok_def logged_def drain_notifications_def
      tray_model_new_def Let_def)

lemma start_channel: "channel_ok (start_tray startup_enabled file_output_enabled added)"
  by (simp add: start_tray_def run_tray_input_def channel_ok_def logged_def drain_notifications_def Let_def)

lemma translated_inputs: "translate_tray_message t message wparam lparam \<noteq> Input (IconAddCompleted b)"
  by (auto simp: translate_tray_message_def Let_def split: option.split)

lemma tray_window_proc_ok:
  assumes "tray_ok rt" "PostQuit \<notin> set (tr_log rt)"
  shows "tray_ok (fst (tray_window_proc t restored message wparam lparam rt))"
proof (cases "translate_tray_message t message wparam lparam")
  case (Input i)
  then have "i \<noteq> IconAddCompleted b" for b using translated_inputs by metis
  then have "tray_ok (fst (run_tray_input restored i rt))"
    by (rule run_tray_input_ok [OF assms(1) _ assms(2)])
  then show ?thesis by (simp add: tray_window_proc_def Input split: prod.split) (metis fst_conv)
qed (simp_all add: tray_window_proc_def assms)

lemma tray_reachable_ok: "tray_reachable t rt \<Longrightarrow> tray_ok rt"
proof (induction rule: tray_reachable.induct)
  case (posted rt n rt')
  then show ?case by (auto simp: send_notification_def tray_ok_def split: if_splits)
next
  case (polled rt)
  then show ?case by (auto simp: tray_try_recv_def tray_ok_def split: list.split)
qed (auto intro: start_tray_ok tray_window_proc_ok)

lemma tray_reachable_channel: "tray_reachable t rt \<Longrightarrow> channel_ok rt"
proof (induction rule: tray_reachable.induct)
  case (posted rt n rt')
  then show ?case by (auto simp: send_notification_def channel_ok_def split: if_splits)
next
  case (polled rt)
  then show ?case by (auto simp: tray_try_recv_def channel_ok_def split: list.split)
qed (auto intro: start_channel channel_message)


text \<open>A run: a query to end the session, a pause, and the window destroyed before any answer.\<close>

definition sample_tray :: tray_runtime where
  "sample_tray = fst (tray_window_proc 49200 True WM_DESTROY 0 0
     (fst (tray_window_proc 49200 True WM_COMMAND 1002 0
       (fst (tray_window_proc 49200 True WM_QUERYENDSESSION 0 0 (start_tray True False True))))))"

lemmas tray_run_defs = start_tray_def run_tray_input_def tray_window_proc_def
  translate_tray_message_def tray_command_def logged_def drain_notifications_def tray_model_new_def
  dispatch_tray_event_def Let_def

lemma sample_tray_reachable: "tray_reachable 49200 sample_tray"
  unfolding sample_tray_def
  by (intro tray_reachable.message tray_reachable.started) (simp_all add: tray_run_defs)

lemma sample_tray_quit: "PostQuit \<in> set (tr_log sample_tray)"
    "tm_icon (tr_model sample_tray) = Present" "tr_lost sample_tray = []"
  by (simp_all add: sample_tray_def tray_run_defs)


text \<open>
  A full channel loses a change of pausing: after eight captures the daemon has not read, pausing
  shows in the menu and the tooltip, but the daemon never hears of it.
\<close>

definition crowded_tray :: tray_runtime where
  "crowded_tray = fold (\<lambda>command rt. fst (tray_window_proc 49200 True WM_COMMAND command 0 rt))
     [1001, 1001, 1001, 1001, 1001, 1001, 1001, 1001, 1002] (start_tray True False True)"

lemma lost_pause:
  "tm_paused (tr_model crowded_tray) \<and> tr_lost crowded_tray = [EvPausedChanged True]
    \<and> \<not> paused_after False (tr_received crowded_tray @ tr_events crowded_tray)"
  by (simp add: crowded_tray_def tray_run_defs)

text \<open>Adding the icon is tried until it works, fails for good or has been tried four times.\<close>

lemma retry_from:
  assumes "attempt \<le> k" "k \<le> TRAY_ADD_ATTEMPTS"
    and "\<And>j. attempt \<le> j \<Longrightarrow> j < k \<Longrightarrow> \<exists>e. add j = Inl e \<and> err_retryable e"
    and "k = TRAY_ADD_ATTEMPTS \<or> \<not> (\<exists>e. add k = Inl e \<and> err_retryable e)"
  shows "retry_tray_icon_add add attempt waits = (add k, waits + (k - attempt))"
  using assms
proof (induction add attempt waits rule: retry_tray_icon_add.induct)
  case (1 add attempt waits)
  show ?case
  proof (cases "attempt = k")
    case True
    then show ?thesis using 1(5)
      by (subst retry_tray_icon_add.simps) (auto split: sum.split)
  next
    case False
    then obtain e where e: "add attempt = Inl e" "err_retryable e" using 1(2) 1(4) [of attempt] by auto
    have "retry_tray_icon_add add (attempt + 1) (waits + 1) = (add k, waits + 1 + (k - (attempt + 1)))"
      using False 1(2-5) e by (intro 1(1)) auto
    then show ?thesis using e False 1(2,3) by (simp add: retry_tray_icon_add.simps [of add attempt])
  qed
qed

end
