(* ===== verification/Recorder.thy ===== *)
theory Recorder
  imports Animation Frame "HOL-Library.Sublist"
begin

section \<open>Recording: pacing loop, frame queue and encoder thread\<close>

text \<open>
  \<open>record_into\<close> of \<open>captastic-app/src/recording.rs\<close> with the \<open>FrameQueue\<close> between its two threads.
  The pacing loop and the encoder are step functions over one state, interleaved freely; each
  queue call is atomic, as its mutex makes it. Instants are the time since the recording
  started. What the code reads from outside in a step (clock readings, the stop flag, the frame
  source) is the step's input. Parameters: the resampling arithmetic in \<open>f64\<close> (\<open>sizing\<close>) and the
  encoder (\<open>encoder_ops\<close>), which is \<open>GifWriter\<close> for a GIF and the Media Foundation writer for an
  MP4. An outer \<open>None\<close> of a function is a panic.
\<close>

datatype recording_format = Gif | Mp4

fun frame_rate :: "recording_format \<Rightarrow> nat" where
  "frame_rate Gif = 15"
| "frame_rate Mp4 = 30"

record recording_settings =
  rs_format :: recording_format
  rs_max_duration :: duration
  rs_gif_max_dimension :: u32

datatype recording_end = Stopped | TimeLimit | WindowClosed

datatype recording_error =
    SourceFailed capture_error
  | EncodeFailed ustring
  | UnsupportedFrame
  | OutsideDisplay rect rect

text \<open>
  \<open>sz_output\<close> is \<open>output_size\<close> (\<open>fit_within\<close> or \<open>mp4_frame_size\<close>), \<open>sz_scaled\<close> the two rounded
  products of \<open>fitted_pixels\<close>, \<open>sz_span from to i\<close> the two products \<open>i * step\<close> and
  \<open>((i + 1) * step).ceil()\<close> of \<open>shrink_bgra\<close> as \<open>usize\<close>, and \<open>sz_describe\<close> prints a frame error.
\<close>

record sizing =
  sz_output :: "recording_settings \<Rightarrow> u32 \<Rightarrow> u32 \<Rightarrow> u32 \<times> u32"
  sz_scaled :: "u32 \<Rightarrow> u32 \<Rightarrow> u32 \<Rightarrow> u32 \<Rightarrow> u32 \<times> u32"
  sz_span :: "u32 \<Rightarrow> u32 \<Rightarrow> nat \<Rightarrow> nat \<times> nat"
  sz_describe :: "frame_error \<Rightarrow> ustring"

subsection \<open>Shrinking\<close>

fun opt_concat :: "('a \<Rightarrow> bytes option) \<Rightarrow> 'a list \<Rightarrow> bytes option" where
  "opt_concat f [] = Some []"
| "opt_concat f (x # xs) = (case f x of None \<Rightarrow> None
    | Some bs \<Rightarrow> map_option ((@) bs) (opt_concat f xs))"

text \<open>\<open>start..end.clamp(start + 1, size)\<close>; \<open>clamp\<close> panics when its bounds cross.\<close>

definition covered_span :: "sizing \<Rightarrow> u32 \<Rightarrow> u32 \<Rightarrow> nat \<Rightarrow> (nat \<times> nat) option" where
  "covered_span z from_size to_size i = (case sz_span z from_size to_size i of (lo, hi) \<Rightarrow>
     if lo + 1 \<le> unat from_size then Some (lo, max (lo + 1) (min hi (unat from_size))) else None)"

text \<open>One destination pixel: the rounded mean of each channel over the pixels it covers.\<close>

definition channel_mean :: "bytes \<Rightarrow> nat \<Rightarrow> nat \<times> nat \<Rightarrow> nat \<times> nat \<Rightarrow> nat \<Rightarrow> u8 option" where
  "channel_mean px stride rows columns channel =
    (let at = [y * stride + x * 4 + channel. y \<leftarrow> [fst rows..<snd rows], x \<leftarrow> [fst columns..<snd columns]];
         count = (of_nat ((snd rows - fst rows) * (snd columns - fst columns)) :: u32)
     in if list_all (\<lambda>i. i < length px) at \<and> count \<noteq> 0
        then Some (ucast ((sum_list (map (\<lambda>i. ucast (px ! i) :: u32) at) + count div 2) div count))
        else None)"

definition shrink_bgra :: "sizing \<Rightarrow> bytes \<Rightarrow> u32 \<Rightarrow> u32 \<Rightarrow> nat \<Rightarrow> u32 \<Rightarrow> u32 \<Rightarrow> bytes option" where
  "shrink_bgra z px w h stride to_w to_h =
    opt_concat (\<lambda>y. Option.bind (covered_span z h to_h y) (\<lambda>rows.
      opt_concat (\<lambda>x. Option.bind (covered_span z w to_w x) (\<lambda>columns.
        opt_concat (\<lambda>channel. map_option (\<lambda>v. [v]) (channel_mean px stride rows columns channel))
          [0..<4])) [0..<unat to_w])) [0..<unat to_h]"

subsection \<open>A frame at the recording's size\<close>

fun swap_channels :: "bytes \<Rightarrow> bytes" where
  "swap_channels (a # b # c # d # rest) = c # b # a # d # swap_channels rest"
| "swap_channels rest = rest"

definition frame_pixels_at ::
  "sizing \<Rightarrow> cpu_frame \<Rightarrow> rect \<Rightarrow> u32 \<Rightarrow> u32 \<Rightarrow> (recording_error + bytes) option" where
  "frame_pixels_at z frame part w h =
    (case encoding (frame_format frame) of
       HalfFloatRgba \<Rightarrow> Some (Inl UnsupportedFrame)
     | EightBitRgba blue_first \<Rightarrow>
       (case intersection part (source_rect (metadata frame)) of
          None \<Rightarrow> Some (Inl (OutsideDisplay part (source_rect (metadata frame))))
        | Some part \<Rightarrow> Option.bind (crop frame part) (\<lambda>r. case r of
            Inl e \<Rightarrow> Some (Inl (EncodeFailed (sz_describe z e)))
          | Inr piece \<Rightarrow>
            (let px = (if blue_first then pixels piece else swap_channels (pixels piece));
                 from_w = width piece; from_h = height piece
             in if (w, h) = (from_w, from_h) then Some (Inr px)
                else if w \<le> from_w \<and> h \<le> from_h \<and> from_w - w \<le> 1 \<and> from_h - h \<le> 1
                then map_option Inr (slice_rows px (unat from_w * 4) 0 (unat w * 4) [0..<unat h])
                else map_option Inr (shrink_bgra z px from_w from_h (unat from_w * 4) w h)))))"

text \<open>The rows of the fitted picture copied onto the canvas; a slice out of range panics.\<close>

fun blit_rows :: "bytes \<Rightarrow> nat \<Rightarrow> nat \<Rightarrow> nat \<Rightarrow> nat \<Rightarrow> nat list \<Rightarrow> bytes \<Rightarrow> bytes option" where
  "blit_rows fitted row stride left top_row [] canvas = Some canvas"
| "blit_rows fitted row stride left top_row (y # ys) canvas =
    Option.bind (slice (y * row) ((y + 1) * row) fitted) (\<lambda>line.
      let at = (top_row + y) * stride + left
      in if at + row \<le> length canvas
         then blit_rows fitted row stride left top_row ys
           (take at canvas @ line @ drop (at + row) canvas)
         else None)"

definition u32_clamp :: "u32 \<Rightarrow> u32 \<Rightarrow> u32 \<Rightarrow> u32 option" where
  "u32_clamp v lo hi = (if lo \<le> hi then Some (if v < lo then lo else if hi < v then hi else v) else None)"

definition fitted_pixels ::
  "sizing \<Rightarrow> cpu_frame \<Rightarrow> u32 \<Rightarrow> u32 \<Rightarrow> (recording_error + bytes) option" where
  "fitted_pixels z frame w h =
    (case sz_scaled z (width frame) (height frame) w h of (scaled_w, scaled_h) \<Rightarrow>
      Option.bind (u32_clamp scaled_w 1 w) (\<lambda>fitted_w.
      Option.bind (u32_clamp scaled_h 1 h) (\<lambda>fitted_h.
      Option.bind (frame_pixels_at z frame
          \<lparr>rect_x = 0, rect_y = 0, rect_width = width frame, rect_height = height frame\<rparr>
          fitted_w fitted_h) (\<lambda>r. case r of
        Inl e \<Rightarrow> Some (Inl e)
      | Inr fitted \<Rightarrow>
          (let canvas = concat (replicate (unat w * unat h) [0, 0, 0, 255]);
               left = unat ((w - fitted_w) div 2); top_row = unat ((h - fitted_h) div 2)
           in map_option Inr (blit_rows fitted (unat fitted_w * 4) (unat w * 4) (left * 4) top_row
                [0..<unat fitted_h] canvas))))))"

definition pixels_for ::
  "sizing \<Rightarrow> cpu_frame \<Rightarrow> bool \<Rightarrow> rect \<Rightarrow> u32 \<Rightarrow> u32 \<Rightarrow> (recording_error + bytes) option" where
  "pixels_for z frame whole part w h =
    (if whole \<and> (width frame, height frame) \<noteq> (rect_width part, rect_height part)
     then fitted_pixels z frame w h
     else frame_pixels_at z frame part w h)"

definition recorded_area :: "cpu_frame \<Rightarrow> rect \<Rightarrow> recording_error + rect" where
  "recorded_area frame part = (let display = source_rect (metadata frame)
     in ok_or (OutsideDisplay part display) (intersection part display))"

subsection \<open>The queue\<close>

record frame_queue =
  fq_frames :: "(bytes \<times> duration) list"
  fq_closed_at :: "duration option"
  fq_dropped :: nat
  fq_failed :: bool
  fq_capacity :: nat

definition queue_capacity :: "nat \<Rightarrow> nat" where
  "queue_capacity n = max 2 (min 90 ((128 * 1024 * 1024) div max n 1))"

definition with_capacity :: "nat \<Rightarrow> frame_queue" where
  "with_capacity n = \<lparr>fq_frames = [], fq_closed_at = None, fq_dropped = 0, fq_failed = False,
     fq_capacity = n\<rparr>"

definition fq_push :: "bytes \<Rightarrow> duration \<Rightarrow> frame_queue \<Rightarrow> frame_queue" where
  "fq_push px at q =
    (if fq_failed q then q
     else let q = (if length (fq_frames q) \<ge> fq_capacity q
                   then q\<lparr>fq_frames := tl (fq_frames q), fq_dropped := fq_dropped q + 1\<rparr> else q)
          in q\<lparr>fq_frames := fq_frames q @ [(px, at)]\<rparr>)"

definition fq_close :: "duration \<Rightarrow> frame_queue \<Rightarrow> frame_queue" where
  "fq_close at q = q\<lparr>fq_closed_at := Some at\<rparr>"

definition fq_fail :: "frame_queue \<Rightarrow> frame_queue" where
  "fq_fail q = q\<lparr>fq_failed := True, fq_frames := []\<rparr>"

datatype next_frame = NextFrame bytes duration | Closed duration

text \<open>\<open>None\<close>: the encoder waits for the condition variable.\<close>

definition fq_pop :: "frame_queue \<Rightarrow> (next_frame \<times> frame_queue) option" where
  "fq_pop q = (case fq_frames q of
      (px, at) # rest \<Rightarrow> Some (NextFrame px at, q\<lparr>fq_frames := rest\<rparr>)
    | [] \<Rightarrow> (case fq_closed_at q of Some fin \<Rightarrow> Some (Closed fin, q) | None \<Rightarrow> None))"

subsection \<open>The two threads\<close>

record ('w, 'o) encoder_ops =
  eo_open :: "u32 \<Rightarrow> u32 \<Rightarrow> ustring + 'w"
  eo_push :: "bytes \<Rightarrow> duration \<Rightarrow> 'w \<Rightarrow> (ustring + 'w) option"
  eo_finish :: "duration \<Rightarrow> 'w \<Rightarrow> ustring + 'o"

datatype ('w, 'o) encoder_phase = Starting | Encoding 'w | Wrote 'o | EncoderFailed ustring | EncoderPanicked

datatype pacing_phase = Pacing | Capturing | Ended recording_end duration | GaveUp recording_error
  | SourceLost capture_error
  | PacingPanicked

text \<open>\<open>rc_offered\<close> and \<open>rc_taken\<close> are the frames pushed and the frames the encoder has accepted.\<close>

record ('w, 'o) recorder =
  rc_area :: rect
  rc_whole :: bool
  rc_width :: u32
  rc_height :: u32
  rc_queue :: frame_queue
  rc_phase :: pacing_phase
  rc_next :: duration
  rc_clock :: duration
  rc_captured :: nat
  rc_failures :: nat
  rc_offered :: "(bytes \<times> duration) list"
  rc_encoder :: "('w, 'o) encoder_phase"
  rc_taken :: "(bytes \<times> duration) list"

definition interval_of :: "recording_settings \<Rightarrow> duration" where
  "interval_of s = 1000000000 div frame_rate (rs_format s)"

definition offer :: "bytes \<Rightarrow> duration \<Rightarrow> ('w, 'o) recorder \<Rightarrow> ('w, 'o) recorder" where
  "offer px at st = st\<lparr>rc_queue := fq_push px at (rc_queue st), rc_offered := rc_offered st @ [(px, at)]\<rparr>"

text \<open>Up to the loop. The encoder thread is running when the first frame is converted.\<close>

definition fresh_recorder ::
  "recording_settings \<Rightarrow> bool \<Rightarrow> rect \<Rightarrow> u32 \<Rightarrow> u32 \<Rightarrow> ('w, 'o) recorder" where
  "fresh_recorder s whole part w h =
     \<lparr>rc_area = part, rc_whole = whole, rc_width = w, rc_height = h,
      rc_queue = with_capacity (queue_capacity (unat w * unat h * 4)), rc_phase = Pacing,
      rc_next = interval_of s, rc_clock = 0, rc_captured = 1, rc_failures = 0,
      rc_offered = [], rc_encoder = Starting, rc_taken = []\<rparr>"

definition record_start ::
  "recording_settings \<Rightarrow> sizing \<Rightarrow> bool \<Rightarrow> rect \<Rightarrow> capture_error + cpu_frame \<Rightarrow>
   recording_error + ('w, 'o) recorder" where
  "record_start s z whole part first = (case first of
      Inl e \<Rightarrow> Inl (SourceFailed e)
    | Inr frame \<Rightarrow>
      try_bind (if whole then Inr \<lparr>rect_x = 0, rect_y = 0, rect_width = width frame, rect_height = height frame\<rparr>
                else recorded_area frame part) (\<lambda>part.
        case sz_output z s (rect_width part) (rect_height part) of (w, h) \<Rightarrow>
          let st = fresh_recorder s whole part w h
          in Inr (case pixels_for z frame whole part w h of
               None \<Rightarrow> st\<lparr>rc_phase := PacingPanicked\<rparr>
             | Some (Inl e) \<Rightarrow> st\<lparr>rc_phase := GaveUp e\<rparr>
             | Some (Inr px) \<Rightarrow> offer px 0 st)))"

text \<open>Leaving the loop: the recording's length is capped at the limit and the queue closed with it.\<close>

definition end_recording ::
  "recording_settings \<Rightarrow> recording_end \<Rightarrow> duration \<Rightarrow> ('w, 'o) recorder \<Rightarrow> ('w, 'o) recorder" where
  "end_recording s why elapsed st =
    (let length_of = min elapsed (rs_max_duration s)
     in st\<lparr>rc_queue := fq_close length_of (rc_queue st), rc_phase := Ended why length_of\<rparr>)"

record wait_input =
  wi_stop :: bool
  wi_gone :: bool
  wi_elapsed :: duration
  wi_now :: duration
  wi_end :: duration

text \<open>One turn of the inner loop, which waits for the next frame's time.\<close>

definition wait_step :: "recording_settings \<Rightarrow> wait_input \<Rightarrow> ('w, 'o) recorder \<Rightarrow> ('w, 'o) recorder" where
  "wait_step s i st =
    (let st = st\<lparr>rc_clock := wi_end i\<rparr>
     in if wi_stop i then end_recording s Stopped (wi_end i) st
        else if wi_elapsed i \<ge> rs_max_duration s then end_recording s TimeLimit (wi_end i) st
        else if wi_gone i then end_recording s WindowClosed (wi_end i) st
        else if wi_now i \<ge> rc_next st then st\<lparr>rc_phase := Capturing\<rparr>
        else st)"

record frame_input =
  fi_now :: duration
  fi_frame :: "capture_error + cpu_frame"
  fi_gone :: bool
  fi_at :: duration
  fi_end :: duration

definition SOURCE_FAILURES_TOLERATED :: nat where
  "SOURCE_FAILURES_TOLERATED = 5"

text \<open>The rest of the loop's body, once the frame's time has come.\<close>

definition frame_step ::
  "recording_settings \<Rightarrow> sizing \<Rightarrow> frame_input \<Rightarrow> ('w, 'o) recorder \<Rightarrow> ('w, 'o) recorder" where
  "frame_step s z i st =
    (let st = st\<lparr>rc_clock := fi_end i, rc_phase := Pacing\<rparr> in
     if fq_failed (rc_queue st) then end_recording s Stopped (fi_end i) st
     else
       let due = rc_next st + interval_of s;
           st = st\<lparr>rc_next := (if due < fi_now i then fi_now i + interval_of s else due)\<rparr>
       in case fi_frame i of
            Inr frame \<Rightarrow>
              (let st = st\<lparr>rc_failures := 0, rc_captured := rc_captured st + 1\<rparr>
               in case pixels_for z frame (rc_whole st) (rc_area st) (rc_width st) (rc_height st) of
                    None \<Rightarrow> st\<lparr>rc_phase := PacingPanicked\<rparr>
                  | Some (Inl e) \<Rightarrow> st\<lparr>rc_phase := GaveUp e\<rparr>
                  | Some (Inr px) \<Rightarrow> offer px (fi_at i) st)
          | Inl e \<Rightarrow>
              if fi_gone i then end_recording s WindowClosed (fi_end i) st
              else
                let st = st\<lparr>rc_failures := rc_failures st + 1\<rparr>
                in if rc_failures st > SOURCE_FAILURES_TOLERATED
                   then st\<lparr>rc_queue := fq_close (fi_end i) (rc_queue st), rc_phase := SourceLost e\<rparr>
                   else st)"

text \<open>The encoder thread: opening the file, then \<open>queued_frames\<close>, then finishing. \<open>None\<close>: it waits.\<close>

definition encoder_failed :: "ustring \<Rightarrow> ('w, 'o) recorder \<Rightarrow> ('w, 'o) recorder" where
  "encoder_failed e st = st\<lparr>rc_queue := fq_fail (rc_queue st), rc_encoder := EncoderFailed e\<rparr>"

definition encoder_step ::
  "('w, 'o) encoder_ops \<Rightarrow> ('w, 'o) recorder \<Rightarrow> ('w, 'o) recorder option" where
  "encoder_step ops st = (case rc_encoder st of
      Starting \<Rightarrow> (case eo_open ops (rc_width st) (rc_height st) of
          Inl e \<Rightarrow> Some (encoder_failed e st)
        | Inr w \<Rightarrow> Some (st\<lparr>rc_encoder := Encoding w\<rparr>))
    | Encoding w \<Rightarrow> (case fq_pop (rc_queue st) of
          None \<Rightarrow> None
        | Some (NextFrame px at, q) \<Rightarrow>
            (let st = st\<lparr>rc_queue := q\<rparr>
             in case eo_push ops px at w of
                  None \<Rightarrow> Some (st\<lparr>rc_encoder := EncoderPanicked\<rparr>)
                | Some (Inl e) \<Rightarrow> Some (encoder_failed e st)
                | Some (Inr w) \<Rightarrow> Some (st\<lparr>rc_encoder := Encoding w, rc_taken := rc_taken st @ [(px, at)]\<rparr>))
        | Some (Closed fin, q) \<Rightarrow> (case eo_finish ops fin w of
            Inl e \<Rightarrow> Some (encoder_failed e st)
          | Inr out \<Rightarrow> Some (st\<lparr>rc_encoder := Wrote out\<rparr>)))
    | _ \<Rightarrow> None)"

record 'o recording_report =
  rr_output :: 'o
  rr_width :: u32
  rr_height :: u32
  rr_duration :: duration
  rr_captured :: nat
  rr_dropped :: nat
  rr_ended :: recording_end

text \<open>What \<open>record_into\<close> answers once both threads are done; \<open>None\<close> while it waits to join.\<close>

definition recording_outcome :: "('w, 'o) recorder \<Rightarrow> (recording_error + 'o recording_report) option" where
  "recording_outcome st = (case rc_phase st of
      GaveUp e \<Rightarrow> Some (Inl e)
    | SourceLost e \<Rightarrow> (case rc_encoder st of
        Starting \<Rightarrow> None | Encoding _ \<Rightarrow> None | _ \<Rightarrow> Some (Inl (SourceFailed e)))
    | Ended why len \<Rightarrow> (case rc_encoder st of
        Wrote out \<Rightarrow> Some (Inr \<lparr>rr_output = out, rr_width = rc_width st, rr_height = rc_height st,
          rr_duration = len, rr_captured = rc_captured st, rr_dropped = fq_dropped (rc_queue st),
          rr_ended = why\<rparr>)
      | EncoderFailed e \<Rightarrow> Some (Inl (EncodeFailed e))
      | EncoderPanicked \<Rightarrow> Some (Inl (EncodeFailed (ustr ''the encoder thread panicked'')))
      | _ \<Rightarrow> None)
    | _ \<Rightarrow> None)"

inductive recording_reachable ::
  "recording_settings \<Rightarrow> sizing \<Rightarrow> ('w, 'o) encoder_ops \<Rightarrow> ('w, 'o) recorder \<Rightarrow> bool"
  for s z ops where
  start: "frame_ok frame \<Longrightarrow> record_start s z whole part (Inr frame) = Inr st \<Longrightarrow>
    recording_reachable s z ops st"
| wait: "recording_reachable s z ops st \<Longrightarrow> rc_phase st = Pacing \<Longrightarrow>
    rc_clock st \<le> wi_elapsed i \<Longrightarrow> wi_elapsed i \<le> wi_now i \<Longrightarrow> wi_now i \<le> wi_end i \<Longrightarrow>
    recording_reachable s z ops (wait_step s i st)"
| capture: "recording_reachable s z ops st \<Longrightarrow> rc_phase st = Capturing \<Longrightarrow>
    rc_clock st \<le> fi_now i \<Longrightarrow> fi_now i \<le> fi_at i \<Longrightarrow> fi_at i \<le> fi_end i \<Longrightarrow>
    (\<And>frame. fi_frame i = Inr frame \<Longrightarrow> frame_ok frame) \<Longrightarrow>
    recording_reachable s z ops (frame_step s z i st)"
| encode: "recording_reachable s z ops st \<Longrightarrow> encoder_step ops st = Some st' \<Longrightarrow>
    recording_reachable s z ops st'"


subsection \<open>Every frame has the recording's size\<close>

lemma length_opt_concat:
  "opt_concat f xs = Some out \<Longrightarrow> (\<And>x bs. x \<in> set xs \<Longrightarrow> f x = Some bs \<Longrightarrow> length bs = n) \<Longrightarrow>
    length out = length xs * n"
proof (induction xs arbitrary: out)
  case (Cons x xs)
  obtain bs more where "f x = Some bs" "opt_concat f xs = Some more" "out = bs @ more"
    using Cons.prems(1) by (auto split: option.splits)
  moreover have "length bs = n" using Cons.prems(2) [of x] calculation(1) by simp
  moreover have "length more = length xs * n"
    by (rule Cons.IH [OF calculation(2)]) (auto intro: Cons.prems(2))
  ultimately show ?case by simp
qed simp

lemma length_shrink_bgra:
  assumes "shrink_bgra z px w h stride to_w to_h = Some out"
  shows "length out = unat to_w * unat to_h * 4"
proof -
  have four: "length bs = 4" if "opt_concat (\<lambda>channel. map_option (\<lambda>v. [v])
      (channel_mean px stride rows columns channel)) [0..<4] = Some bs" for rows columns bs
  proof -
    have "length bs = length [0..<4 :: nat] * 1"
      by (rule length_opt_concat [OF that]) auto
    then show ?thesis by simp
  qed
  have row: "length bs = unat to_w * 4"
    if "opt_concat (\<lambda>x. Option.bind (covered_span z w to_w x) (\<lambda>columns.
        opt_concat (\<lambda>channel. map_option (\<lambda>v. [v]) (channel_mean px stride rows columns channel))
          [0..<4])) [0..<unat to_w] = Some bs" for rows bs
  proof -
    have "length bs = length [0..<unat to_w] * 4"
      by (rule length_opt_concat [OF that]) (auto simp: bind_eq_Some_conv four)
    then show ?thesis by simp
  qed
  have "length out = length [0..<unat to_h] * (unat to_w * 4)"
    by (rule length_opt_concat [OF assms [unfolded shrink_bgra_def]]) (auto simp: bind_eq_Some_conv row)
  then show ?thesis by simp
qed

lemma length_slice_rows: "slice_rows px r off n ys = Some out \<Longrightarrow> length out = length ys * n"
  by (induction ys arbitrary: out) (auto split: option.splits)

lemma length_swap_channels [simp]: "length (swap_channels px) = length px"
  by (induction px rule: swap_channels.induct) simp_all

lemma length_blit_rows:
  "blit_rows fitted row stride left top_row ys canvas = Some out \<Longrightarrow> length out = length canvas"
  by (induction ys arbitrary: canvas) (auto simp: bind_eq_Some_conv Let_def split: if_splits)

lemma length_cropped_pixels:
  assumes "frame_ok f" "selects f r"
  shows "length (pixels (cropped f r)) = unat (rect_height r) * (unat (rect_width r) * frame_bpp f)"
  using length_cropped_row [OF assms] unfolding pixels_cropped by (subst length_concat_rows) auto

lemma eight_bit_bpp: "encoding fmt = EightBitRgba b \<Longrightarrow> unat (bytes_per_pixel fmt) = 4"
  by (cases fmt) auto

lemma answered_Inr:
  "(case r of Inl e \<Rightarrow> Some (Inl (f e)) | Inr a \<Rightarrow> g a) = Some (Inr out) \<longleftrightarrow>
    (\<exists>a. r = Inr a \<and> g a = Some (Inr out))"
  by (cases r) simp_all

lemma frame_pixels_at_size:
  assumes ok: "frame_ok frame" and px: "frame_pixels_at z frame part w h = Some (Inr px)"
  shows "length px = unat w * unat h * 4"
proof -
  obtain b r piece where b: "encoding (frame_format frame) = EightBitRgba b"
    and piece: "crop frame r = Some (Inr piece)"
    and rest: "(let px = (if b then pixels piece else swap_channels (pixels piece));
                 from_w = width piece; from_h = height piece
             in if (w, h) = (from_w, from_h) then Some (Inr px)
                else if w \<le> from_w \<and> h \<le> from_h \<and> from_w - w \<le> 1 \<and> from_h - h \<le> 1
                then map_option Inr (slice_rows px (unat from_w * 4) 0 (unat w * 4) [0..<unat h])
                else map_option Inr (shrink_bgra z px from_w from_h (unat from_w * 4) w h))
      = Some (Inr px :: recording_error + bytes)"
    using px by (auto simp: frame_pixels_at_def bind_eq_Some_conv answered_Inr
        split: pixel_encoding.splits option.splits)
  have sel: "selects frame r" and "piece = cropped frame r" using crop_eq_Inr [OF ok] piece by auto
  then have "length (pixels piece) = unat (height piece) * (unat (width piece) * 4)"
    using length_cropped_pixels [OF ok sel] eight_bit_bpp [OF b] by (simp add: cropped_def)
  then show ?thesis
    using rest by (auto simp: Let_def dest!: length_slice_rows length_shrink_bgra split: if_splits)
qed

lemma pixels_for_size:
  assumes ok: "frame_ok frame" and px: "pixels_for z frame whole part w h = Some (Inr px)"
  shows "length px = unat w * unat h * 4"
proof (cases "whole \<and> (width frame, height frame) \<noteq> (rect_width part, rect_height part)")
  case True
  have canvas: "length (concat (replicate n [0, 0, 0, 255 :: u8])) = n * 4" for n
    by (induction n) simp_all
  obtain fitted row stride left top_row ys where
    "blit_rows fitted row stride left top_row ys (concat (replicate (unat w * unat h) [0, 0, 0, 255])) = Some px"
    using px True
    by (auto simp: pixels_for_def fitted_pixels_def bind_eq_Some_conv answered_Inr Let_def split: prod.splits)
  then show ?thesis using length_blit_rows canvas by metis
next
  case False
  then show ?thesis using px frame_pixels_at_size [OF ok] by (auto simp: pixels_for_def)
qed


subsection \<open>What holds between the threads\<close>

fun pushed_frames :: "('w, 'o) encoder_ops \<Rightarrow> (bytes \<times> duration) list \<Rightarrow> 'w \<Rightarrow> 'w option" where
  "pushed_frames ops [] w = Some w"
| "pushed_frames ops ((px, at) # fs) w = (case eo_push ops px at w of
     Some (Inr w') \<Rightarrow> pushed_frames ops fs w' | _ \<Rightarrow> None)"

lemma pushed_frames_snoc:
  "pushed_frames ops fs w = Some w' \<Longrightarrow> eo_push ops px at w' = Some (Inr w'') \<Longrightarrow>
    pushed_frames ops (fs @ [(px, at)]) w = Some w''"
  by (induction fs arbitrary: w) (auto split: option.splits sum.splits)

definition queue_ok :: "('w, 'o) recorder \<Rightarrow> bool" where
  "queue_ok st \<longleftrightarrow> (let q = rc_queue st; here = rc_taken st @ fq_frames q in
     2 \<le> fq_capacity q \<and> fq_capacity q \<le> 90 \<and> length (fq_frames q) \<le> fq_capacity q
   \<and> subseq here (rc_offered st)
   \<and> (fq_failed q \<or> rc_encoder st = EncoderPanicked \<or> length (rc_offered st) = length here + fq_dropped q
        \<and> (rc_offered st \<noteq> [] \<longrightarrow> here \<noteq> [] \<and> last here = last (rc_offered st))))"

definition encoder_ok :: "('w, 'o) encoder_ops \<Rightarrow> ('w, 'o) recorder \<Rightarrow> bool" where
  "encoder_ok ops st \<longleftrightarrow> (case rc_encoder st of
      Starting \<Rightarrow> rc_taken st = []
    | Encoding w \<Rightarrow> (\<exists>w0. eo_open ops (rc_width st) (rc_height st) = Inr w0
        \<and> pushed_frames ops (rc_taken st) w0 = Some w)
    | Wrote out \<Rightarrow> fq_frames (rc_queue st) = [] \<and>
        (\<exists>w0 w fin. eo_open ops (rc_width st) (rc_height st) = Inr w0 \<and> fq_closed_at (rc_queue st) = Some fin
          \<and> pushed_frames ops (rc_taken st) w0 = Some w \<and> eo_finish ops fin w = Inr out)
    | _ \<Rightarrow> True)
   \<and> (fq_failed (rc_queue st) \<longleftrightarrow> (\<exists>e. rc_encoder st = EncoderFailed e))"

definition pacing_ok :: "recording_settings \<Rightarrow> ('w, 'o) recorder \<Rightarrow> bool" where
  "pacing_ok s st \<longleftrightarrow> (case rc_phase st of
      Ended why len \<Rightarrow> fq_closed_at (rc_queue st) = Some len \<and> len \<le> rs_max_duration s
    | SourceLost e \<Rightarrow> fq_closed_at (rc_queue st) \<noteq> None
    | _ \<Rightarrow> fq_closed_at (rc_queue st) = None)
   \<and> rc_captured st = length (rc_offered st)
       + (case rc_phase st of GaveUp _ \<Rightarrow> 1 | PacingPanicked \<Rightarrow> 1 | _ \<Rightarrow> 0)
   \<and> (rc_offered st = [] \<longrightarrow> (\<exists>e. rc_phase st = GaveUp e) \<or> rc_phase st = PacingPanicked)
   \<and> sorted (map snd (rc_offered st))
   \<and> (\<forall>(px, at) \<in> set (rc_offered st). at \<le> rc_clock st
        \<and> length px = unat (rc_width st) * unat (rc_height st) * 4)"

lemmas recorder_defs = queue_ok_def encoder_ok_def pacing_ok_def Let_def

lemma fq_push_ok:
  assumes "queue_ok st"
  shows "queue_ok (offer px at st)"
proof (cases "fq_failed (rc_queue st)")
  case True
  then show ?thesis using assms
    by (auto simp: queue_ok_def offer_def fq_push_def Let_def intro: list_emb_append2)
next
  case False
  let ?q = "rc_queue st"
  show ?thesis
  proof (cases "length (fq_frames ?q) \<ge> fq_capacity ?q")
    case True
    then obtain f fs where f: "fq_frames ?q = f # fs"
      using assms by (cases "fq_frames ?q") (auto simp: queue_ok_def Let_def)
    have "subseq (rc_taken st @ fs) (rc_taken st @ f # fs)"
      by (rule list_emb_append_mono) (auto intro: list_emb_Cons)
    then have "subseq (rc_taken st @ fs) (rc_offered st)"
      using assms f subseq_order.trans by (auto simp: queue_ok_def Let_def)
    then have "subseq ((rc_taken st @ fs) @ [(px, at)]) (rc_offered st @ [(px, at)])"
      by (simp only: subseq_append)
    then show ?thesis
      using assms f True False by (auto simp: queue_ok_def offer_def fq_push_def Let_def)
  next
    case small: False
    have "subseq ((rc_taken st @ fq_frames ?q) @ [(px, at)]) (rc_offered st @ [(px, at)])"
      using assms by (simp only: subseq_append) (simp add: queue_ok_def Let_def)
    then show ?thesis
      using assms small False by (auto simp: queue_ok_def offer_def fq_push_def Let_def)
  qed
qed

lemma queue_capacity_bounds: "2 \<le> queue_capacity n" "queue_capacity n \<le> 90"
  by (auto simp: queue_capacity_def)

lemma fq_push_fields [simp]:
  "fq_closed_at (fq_push px at q) = fq_closed_at q" "fq_failed (fq_push px at q) = fq_failed q"
  by (auto simp: fq_push_def Let_def)

definition recorder_ok where
  "recorder_ok s ops st \<longleftrightarrow> queue_ok st \<and> encoder_ok ops st \<and> pacing_ok s st"

lemma offer_ok:
  assumes "recorder_ok s ops (st\<lparr>rc_captured := n\<rparr>)" "rc_phase st = Pacing" "rc_captured st = n + 1"
    and "rc_offered st \<noteq> [] \<or> n = 0"
    and "length px = unat (rc_width st) * unat (rc_height st) * 4" "at \<le> rc_clock st"
    and "\<forall>(px, t) \<in> set (rc_offered st). t \<le> at"
  shows "recorder_ok s ops (offer px at st)"
proof -
  have "queue_ok (offer px at st)"
    using assms(1) by (intro fq_push_ok) (simp add: recorder_ok_def queue_ok_def Let_def)
  moreover have "encoder_ok ops (offer px at st)"
    using assms(1,2) by (auto simp: recorder_ok_def encoder_ok_def offer_def pacing_ok_def
        split: encoder_phase.splits)
  moreover have "pacing_ok s (offer px at st)"
    using assms by (auto simp: recorder_ok_def pacing_ok_def offer_def sorted_append)
  ultimately show ?thesis by (simp add: recorder_ok_def)
qed

lemma record_start_ok:
  assumes ok: "frame_ok frame" and st: "record_start s z whole part0 (Inr frame) = Inr st"
  shows "recorder_ok s ops st"
proof -
  obtain part where part: "(if whole then Inr \<lparr>rect_x = 0, rect_y = 0, rect_width = width frame,
      rect_height = height frame\<rparr> else recorded_area frame part0) = Inr part"
    using st by (auto simp: record_start_def try_bind_eq_Inr)
  obtain w h where wh: "sz_output z s (rect_width part) (rect_height part) = (w, h)" by fastforce
  have eq: "st = (case pixels_for z frame whole part w h of
        None \<Rightarrow> (fresh_recorder s whole part w h)\<lparr>rc_phase := PacingPanicked\<rparr>
      | Some (Inl e) \<Rightarrow> (fresh_recorder s whole part w h)\<lparr>rc_phase := GaveUp e\<rparr>
      | Some (Inr px) \<Rightarrow> offer px 0 (fresh_recorder s whole part w h))"
    using st part wh by (simp add: record_start_def Let_def)
  have fresh: "recorder_ok s ops (fresh_recorder s whole part w h\<lparr>rc_captured := n, rc_phase := p\<rparr>)"
    if "(\<exists>e. p = GaveUp e) \<or> p = PacingPanicked" "n = 1" for n p
    using that queue_capacity_bounds
    by (auto simp: recorder_ok_def recorder_defs fresh_recorder_def with_capacity_def)
  have base: "queue_ok (fresh_recorder s whole part w h :: ('a, 'b) recorder)"
      "encoder_ok ops (fresh_recorder s whole part w h)"
    using queue_capacity_bounds
    by (auto simp: recorder_defs fresh_recorder_def with_capacity_def)
  show ?thesis
  proof (cases "pixels_for z frame whole part w h")
    case None
    then show ?thesis using fresh [of PacingPanicked 1] by (simp add: eq fresh_recorder_def)
  next
    case (Some r)
    show ?thesis
    proof (cases r)
      case (Inl e)
      then show ?thesis using Some fresh [of "GaveUp e" 1] by (simp add: eq fresh_recorder_def)
    next
      case (Inr px)
      have "length px = unat w * unat h * 4" using pixels_for_size [OF ok] Some Inr by simp
      then have "pacing_ok s (offer px 0 (fresh_recorder s whole part w h))"
        by (simp add: pacing_ok_def offer_def fresh_recorder_def with_capacity_def)
      moreover have "encoder_ok ops (offer px 0 (fresh_recorder s whole part w h))"
        by (simp add: encoder_ok_def offer_def fresh_recorder_def with_capacity_def)
      ultimately show ?thesis
        using Some Inr fq_push_ok [OF base(1)] by (simp add: eq recorder_ok_def)
    qed
  qed
qed


lemma wait_step_ok:
  assumes "recorder_ok s ops st" "rc_phase st = Pacing" "rc_clock st \<le> wi_end i"
  shows "recorder_ok s ops (wait_step s i st)"
  using assms
  by (fastforce simp: recorder_ok_def recorder_defs wait_step_def end_recording_def fq_close_def
      split: encoder_phase.splits)

lemma frame_step_ok:
  assumes ok: "recorder_ok s ops st" and ph: "rc_phase st = Capturing"
    and t: "rc_clock st \<le> fi_at i" "fi_at i \<le> fi_end i"
    and f: "\<And>frame. fi_frame i = Inr frame \<Longrightarrow> frame_ok frame"
  shows "recorder_ok s ops (frame_step s z i st)"
proof -
  have late: "\<forall>(px, at) \<in> set (rc_offered st). at \<le> fi_at i" "rc_clock st \<le> fi_end i"
    using ok t by (auto simp: recorder_ok_def pacing_ok_def)
  have ended: "recorder_ok s ops (end_recording s why (fi_end i)
      (st\<lparr>rc_clock := fi_end i, rc_phase := Pacing, rc_next := due\<rparr>))" for why due
    using ok ph late(2)
    by (fastforce simp: recorder_ok_def recorder_defs end_recording_def fq_close_def split: encoder_phase.splits)
  then have now: "recorder_ok s ops (end_recording s why (fi_end i) (st\<lparr>rc_clock := fi_end i, rc_phase := Pacing\<rparr>))"
    for why
    using ended [of why "rc_next st"] by simp
  have on: "recorder_ok s ops (st\<lparr>rc_clock := fi_end i, rc_phase := p, rc_next := due, rc_failures := n,
      rc_captured := rc_captured st + (case p of GaveUp _ \<Rightarrow> 1 | PacingPanicked \<Rightarrow> 1 | _ \<Rightarrow> 0)\<rparr>)"
    if "p = Pacing \<or> (\<exists>e. p = GaveUp e) \<or> p = PacingPanicked" for p due n
    using ok ph late(2) that
    by (fastforce simp: recorder_ok_def recorder_defs split: encoder_phase.splits)
  have off: "recorder_ok s ops (st\<lparr>rc_clock := fi_end i, rc_next := due, rc_failures := n,
      rc_captured := rc_captured st + 1, rc_phase := p\<rparr>)"
    if "(\<exists>e. p = GaveUp e) \<or> p = PacingPanicked" for p due n
    using ok ph late(2) that
    by (fastforce simp: recorder_ok_def recorder_defs split: encoder_phase.splits)
  have lost: "recorder_ok s ops (st\<lparr>rc_clock := fi_end i, rc_next := due, rc_failures := n,
      rc_queue := fq_close (fi_end i) (rc_queue st), rc_phase := SourceLost e\<rparr>)" for due n e
    using ok ph late(2)
    by (fastforce simp: recorder_ok_def recorder_defs fq_close_def split: encoder_phase.splits)
  define due where "due = (if rc_next st + interval_of s < fi_now i then fi_now i + interval_of s
    else rc_next st + interval_of s)"
  show ?thesis
  proof (cases "fq_failed (rc_queue st)")
    case True
    then show ?thesis using now by (simp add: frame_step_def Let_def)
  next
    case False
    show ?thesis
    proof (cases "fi_frame i")
      case (Inl e)
      then show ?thesis
        using False ended on [where p = Pacing and due = due and n = "rc_failures st + 1"] 
          lost [where due = due and n = "rc_failures st + 1" and e = e]
        by (simp add: frame_step_def Let_def due_def [symmetric] Suc_eq_plus1 [symmetric] del: Suc_eq_plus1)
    next
      case (Inr frame)
      let ?st = "st\<lparr>rc_clock := fi_end i, rc_phase := Pacing, rc_next := due, rc_failures := 0,
        rc_captured := rc_captured st + 1\<rparr>"
      have step: "frame_step s z i st = (case pixels_for z frame (rc_whole st) (rc_area st) (rc_width st) (rc_height st) of
           None \<Rightarrow> ?st\<lparr>rc_phase := PacingPanicked\<rparr>
         | Some (Inl e) \<Rightarrow> ?st\<lparr>rc_phase := GaveUp e\<rparr>
         | Some (Inr px) \<Rightarrow> offer px (fi_at i) ?st)"
        using False Inr
        by (simp add: frame_step_def Let_def due_def split: option.split sum.split)
      have "recorder_ok s ops (offer px (fi_at i) ?st)"
        if "pixels_for z frame (rc_whole st) (rc_area st) (rc_width st) (rc_height st) = Some (Inr px)" for px
      proof (rule offer_ok [where n = "rc_captured st"])
        show "recorder_ok s ops (?st\<lparr>rc_captured := rc_captured st\<rparr>)"
          using on [where p = Pacing and due = due and n = 0] by simp
        show "rc_offered ?st \<noteq> [] \<or> rc_captured st = 0"
          using ok ph by (auto simp: recorder_ok_def pacing_ok_def)
        show "length px = unat (rc_width ?st) * unat (rc_height ?st) * 4"
          using pixels_for_size [OF f [OF Inr] that] by simp
      qed (use late t in auto)
      then show ?thesis
        using off [where p = PacingPanicked and due = due and n = 0]
          off [where p = "GaveUp e" and due = due and n = 0 for e]
        by (auto simp: step split: option.split sum.split)
    qed
  qed
qed

lemma subseq_front: "subseq (xs @ ys) zs \<Longrightarrow> subseq xs zs"
  by (rule subseq_order.trans [of xs "xs @ ys"]) auto

lemma pacing_ok_same:
  "pacing_ok s st \<Longrightarrow> fq_closed_at (rc_queue st') = fq_closed_at (rc_queue st) \<Longrightarrow>
    rc_phase st' = rc_phase st \<Longrightarrow> rc_captured st' = rc_captured st \<Longrightarrow> rc_offered st' = rc_offered st \<Longrightarrow>
    rc_clock st' = rc_clock st \<Longrightarrow> rc_width st' = rc_width st \<Longrightarrow> rc_height st' = rc_height st \<Longrightarrow>
    pacing_ok s st'"
  by (cases "rc_phase st") (simp_all add: pacing_ok_def)

lemma encoder_failed_ok:
  assumes "recorder_ok s ops st" "fq_closed_at q = fq_closed_at (rc_queue st)"
    "fq_capacity q = fq_capacity (rc_queue st)"
  shows "recorder_ok s ops (encoder_failed e (st\<lparr>rc_queue := q\<rparr>))"
proof -
  have "queue_ok (encoder_failed e (st\<lparr>rc_queue := q\<rparr>))"
    using assms subseq_front
    by (auto simp: recorder_ok_def queue_ok_def Let_def encoder_failed_def fq_fail_def)
  moreover have "encoder_ok ops (encoder_failed e (st\<lparr>rc_queue := q\<rparr>))"
    by (simp add: encoder_ok_def encoder_failed_def fq_fail_def)
  moreover have "pacing_ok s (encoder_failed e (st\<lparr>rc_queue := q\<rparr>))"
    using assms by (auto simp: recorder_ok_def encoder_failed_def fq_fail_def intro: pacing_ok_same)
  ultimately show ?thesis by (simp add: recorder_ok_def)
qed

lemma encoder_step_ok:
  assumes ok: "recorder_ok s ops st" and step: "encoder_step ops st = Some st'"
  shows "recorder_ok s ops st'"
proof (cases "rc_encoder st")
  case Starting
  show ?thesis
  proof (cases "eo_open ops (rc_width st) (rc_height st)")
    case (Inl e)
    then show ?thesis
      using step Starting encoder_failed_ok [OF ok, of "rc_queue st" e] by (simp add: encoder_step_def)
  next
    case (Inr w)
    then have "st' = st\<lparr>rc_encoder := Encoding w\<rparr>" using step Starting by (simp add: encoder_step_def)
    moreover have "pacing_ok s st'"
      using ok calculation by (auto simp: recorder_ok_def intro: pacing_ok_same)
    ultimately show ?thesis
      using ok Starting Inr by (auto simp: recorder_ok_def queue_ok_def encoder_ok_def Let_def)
  qed
next
  case (Encoding w)
  obtain w0 where w0: "eo_open ops (rc_width st) (rc_height st) = Inr w0"
      "pushed_frames ops (rc_taken st) w0 = Some w"
    using ok Encoding by (auto simp: recorder_ok_def encoder_ok_def)
  have live: "\<not> fq_failed (rc_queue st)" using ok Encoding by (simp add: recorder_ok_def encoder_ok_def)
  show ?thesis
  proof (cases "fq_frames (rc_queue st)")
    case Nil
    then obtain fin where fin: "fq_closed_at (rc_queue st) = Some fin"
      using step Encoding by (cases "fq_closed_at (rc_queue st)") (simp_all add: encoder_step_def fq_pop_def)
    show ?thesis
    proof (cases "eo_finish ops fin w")
      case (Inl e)
      then show ?thesis
        using step Encoding Nil fin encoder_failed_ok [OF ok, of "rc_queue st" e]
        by (simp add: encoder_step_def fq_pop_def)
    next
      case (Inr out)
      then have "st' = st\<lparr>rc_encoder := Wrote out\<rparr>"
        using step Encoding Nil fin by (simp add: encoder_step_def fq_pop_def)
      moreover have "pacing_ok s st'"
        using ok calculation by (auto simp: recorder_ok_def intro: pacing_ok_same)
      ultimately show ?thesis using ok Encoding Nil fin w0 Inr
        by (auto simp: recorder_ok_def queue_ok_def encoder_ok_def Let_def)
    qed
  next
    case (Cons f fs)
    obtain px at where f: "f = (px, at)" by fastforce
    let ?q = "(rc_queue st)\<lparr>fq_frames := fs\<rparr>"
    show ?thesis
    proof (cases "eo_push ops px at w")
      case None
      have "subseq (rc_taken st @ fs) (rc_taken st @ f # fs)"
        by (rule list_emb_append_mono) (auto intro: list_emb_Cons)
      then have "subseq (rc_taken st @ fs) (rc_offered st)"
        using ok Cons subseq_order.trans by (auto simp: recorder_ok_def queue_ok_def Let_def)
      moreover have "st' = st\<lparr>rc_queue := ?q, rc_encoder := EncoderPanicked\<rparr>"
        using step Encoding Cons f None by (simp add: encoder_step_def fq_pop_def)
      moreover have "pacing_ok s st'"
        using ok calculation by (auto simp: recorder_ok_def intro: pacing_ok_same)
      ultimately show ?thesis
        using ok Cons live by (auto simp: recorder_ok_def queue_ok_def encoder_ok_def Let_def)
    next
      case (Some r)
      show ?thesis
      proof (cases r)
        case (Inl e)
        then show ?thesis
          using step Encoding Cons f Some encoder_failed_ok [OF ok, of ?q e]
          by (simp add: encoder_step_def fq_pop_def)
      next
        case (Inr w')
        then have "st' = st\<lparr>rc_queue := ?q, rc_encoder := Encoding w', rc_taken := rc_taken st @ [(px, at)]\<rparr>"
          using step Encoding Cons f Some by (simp add: encoder_step_def fq_pop_def)
        moreover have "pacing_ok s st'"
          using ok calculation by (auto simp: recorder_ok_def intro: pacing_ok_same)
        ultimately show ?thesis
          using ok Cons f live Encoding w0 pushed_frames_snoc [OF w0(2), of px at w'] Some Inr
          by (auto simp: recorder_ok_def queue_ok_def encoder_ok_def Let_def split: if_splits)
      qed
    qed
  qed
qed (use step in \<open>simp_all add: encoder_step_def\<close>)

lemma recording_reachable_ok: "recording_reachable s z ops st \<Longrightarrow> recorder_ok s ops st"
proof (induction rule: recording_reachable.induct)
  case (capture st i)
  then show ?case by (intro frame_step_ok) auto
qed (auto intro: record_start_ok wait_step_ok encoder_step_ok)


text \<open>C18: However the encoder and the capture loop interleave, and whatever fails: the queue between
  them never holds more than its capacity, at most 90 frames; the encoder gets a subsequence of the frames captured,
  whose times never decrease and whose sizes are all the recording's; while the encoder lives the
  newest frame is never the one dropped, and frames offered are taken, waiting or counted as
  dropped; and a report's captured and dropped counts are those of what the file holds, its
  length within the limit.\<close>

theorem recording_queue_accounts:
  assumes "recording_reachable s z ops st"
  shows "length (fq_frames (rc_queue st)) \<le> fq_capacity (rc_queue st) \<and> fq_capacity (rc_queue st) \<le> 90
    \<and> subseq (rc_taken st @ fq_frames (rc_queue st)) (rc_offered st)
    \<and> sorted (map snd (rc_offered st))
    \<and> (\<forall>(px, at) \<in> set (rc_offered st). length px = unat (rc_width st) * unat (rc_height st) * 4)
    \<and> (rc_offered st \<noteq> [] \<longrightarrow> \<not> fq_failed (rc_queue st) \<longrightarrow> rc_encoder st \<noteq> EncoderPanicked \<longrightarrow>
      last (rc_taken st @ fq_frames (rc_queue st)) = last (rc_offered st)
      \<and> length (rc_offered st) = length (rc_taken st) + length (fq_frames (rc_queue st)) + fq_dropped (rc_queue st))
    \<and> (\<forall>r. recording_outcome st = Some (Inr r) \<longrightarrow> rr_captured r = length (rc_taken st) + rr_dropped r
      \<and> length (rc_offered st) = rr_captured r \<and> rr_duration r \<le> rs_max_duration s)"
proof (intro conjI allI impI)
  have ok: "queue_ok st" "encoder_ok ops st" "pacing_ok s st"
    using recording_reachable_ok [OF assms] by (simp_all add: recorder_ok_def)
  show "length (fq_frames (rc_queue st)) \<le> fq_capacity (rc_queue st)" "fq_capacity (rc_queue st) \<le> 90"
    and "subseq (rc_taken st @ fq_frames (rc_queue st)) (rc_offered st)"
    using ok(1) by (simp_all add: queue_ok_def Let_def)
  show "sorted (map snd (rc_offered st))"
      "\<forall>(px, at) \<in> set (rc_offered st). length px = unat (rc_width st) * unat (rc_height st) * 4"
    using ok(3) by (auto simp: pacing_ok_def)
  show "last (rc_taken st @ fq_frames (rc_queue st)) = last (rc_offered st)"
    "length (rc_offered st) = length (rc_taken st) + length (fq_frames (rc_queue st)) + fq_dropped (rc_queue st)"
    if "rc_offered st \<noteq> []" "\<not> fq_failed (rc_queue st)" "rc_encoder st \<noteq> EncoderPanicked"
    using ok(1) that by (simp_all add: queue_ok_def Let_def)
  show "rr_captured r = length (rc_taken st) + rr_dropped r" "length (rc_offered st) = rr_captured r"
    "rr_duration r \<le> rs_max_duration s" if "recording_outcome st = Some (Inr r)" for r
    using ok that
    by (auto simp: recording_outcome_def recorder_defs split: pacing_phase.splits encoder_phase.splits)
qed

subsection \<open>The encoder finishes, or waits for ever\<close>

primrec encoder_run :: "('w, 'o) encoder_ops \<Rightarrow> nat \<Rightarrow> ('w, 'o) recorder \<Rightarrow> ('w, 'o) recorder" where
  "encoder_run ops 0 st = st"
| "encoder_run ops (Suc n) st = (case encoder_step ops st of None \<Rightarrow> st | Some st' \<Rightarrow> encoder_run ops n st')"

definition encoder_finished :: "('w, 'o) recorder \<Rightarrow> bool" where
  "encoder_finished st \<longleftrightarrow> (case rc_encoder st of Starting \<Rightarrow> False | Encoding _ \<Rightarrow> False | _ \<Rightarrow> True)"

lemma finished_stays: "encoder_finished st \<Longrightarrow> encoder_run ops n st = st"
  by (cases n) (auto simp: encoder_finished_def encoder_step_def split: encoder_phase.splits)

lemma encoder_step_phase: "encoder_step ops st = Some st' \<Longrightarrow> rc_phase st' = rc_phase st"
  by (auto simp: encoder_step_def encoder_failed_def Let_def
      split: encoder_phase.splits sum.splits option.splits next_frame.splits prod.splits)

lemma encoder_run_phase: "rc_phase (encoder_run ops n st) = rc_phase st"
  by (induction n arbitrary: st) (auto split: option.split dest: encoder_step_phase)

lemma encoding_finishes:
  "rc_encoder st = Encoding w \<Longrightarrow> fq_closed_at (rc_queue st) \<noteq> None \<Longrightarrow>
    encoder_finished (encoder_run ops (length (fq_frames (rc_queue st)) + 1) st)"
proof (induction "fq_frames (rc_queue st)" arbitrary: st w)
  case Nil
  then show ?case
    by (auto simp: encoder_step_def fq_pop_def encoder_failed_def encoder_finished_def split: sum.splits)
next
  case (Cons f fs)
  obtain px at where f: "f = (px, at)" by fastforce
  let ?q = "(rc_queue st)\<lparr>fq_frames := fs\<rparr>"
  have q: "fq_frames (rc_queue st) = (px, at) # fs" using Cons.hyps(2) f by simp
  show ?case
  proof (cases "eo_push ops px at w")
    case None
    then show ?thesis using Cons.prems q finished_stays
      by (simp add: encoder_step_def fq_pop_def) (simp add: encoder_finished_def)
  next
    case (Some r)
    show ?thesis
    proof (cases r)
      case (Inl e)
      then show ?thesis using Some Cons.prems q
        by (simp add: encoder_step_def fq_pop_def finished_stays encoder_finished_def encoder_failed_def)
    next
      case (Inr w')
      let ?st = "st\<lparr>rc_queue := ?q, rc_encoder := Encoding w', rc_taken := rc_taken st @ [(px, at)]\<rparr>"
      have "encoder_finished (encoder_run ops (length (fq_frames (rc_queue ?st)) + 1) ?st)"
        using Cons.prems by (intro Cons.hyps(1)) simp_all
      then show ?thesis using Some Inr Cons.prems q by (simp add: encoder_step_def fq_pop_def)
    qed
  qed
qed

lemma run_longer:
  "encoder_finished (encoder_run ops n st) \<Longrightarrow> encoder_run ops (Suc n) st = encoder_run ops n st"
proof (induction n arbitrary: st)
  case 0
  then show ?case using finished_stays [of st ops "Suc 0"] by simp
next
  case (Suc n)
  show ?case
  proof (cases "encoder_step ops st")
    case (Some st')
    have more: "encoder_run ops (Suc k) st = encoder_run ops k st'" for k using Some by simp
    then have "encoder_finished (encoder_run ops n st')" using Suc.prems by metis
    then show ?thesis using Suc.IH more by metis
  qed simp
qed

lemma closed_encoder_finishes:
  assumes "fq_closed_at (rc_queue st) \<noteq> None"
  shows "encoder_finished (encoder_run ops (length (fq_frames (rc_queue st)) + 2) st)"
proof (cases "encoder_finished st")
  case True
  then show ?thesis by (simp only: finished_stays)
next
  case False
  then consider "rc_encoder st = Starting" | w where "rc_encoder st = Encoding w"
    by (auto simp: encoder_finished_def split: encoder_phase.splits)
  then show ?thesis
  proof cases
    case 1
    show ?thesis
    proof (cases "eo_open ops (rc_width st) (rc_height st)")
      case (Inl e)
      then show ?thesis using 1
        by (simp add: encoder_step_def finished_stays encoder_finished_def encoder_failed_def)
    next
      case (Inr w)
      have "encoder_finished (encoder_run ops (length (fq_frames (rc_queue (st\<lparr>rc_encoder := Encoding w\<rparr>))) + 1)
          (st\<lparr>rc_encoder := Encoding w\<rparr>))"
        using assms by (intro encoding_finishes [of _ w]) simp_all
      then show ?thesis using 1 Inr by (simp add: encoder_step_def)
    qed
  next
    case 2
    show ?thesis using run_longer [OF encoding_finishes [OF 2 assms, of ops]]
      encoding_finishes [OF 2 assms, of ops] by simp
  qed
qed

lemma finished_outcome:
  "rc_phase st = Ended why len \<Longrightarrow> encoder_finished st \<Longrightarrow>
    \<exists>answer. recording_outcome st = Some answer \<and> (\<forall>r. answer = Inr r \<longrightarrow> rr_ended r = why)"
  by (auto simp: recording_outcome_def encoder_finished_def split: encoder_phase.splits)

text \<open>C20: Stopping a recording, reaching its time limit or losing its window ends it: with the queue closed the encoder
  is done after at most one step per waiting frame and two more, whatever its writer answers, and
  the recording then returns, with the first of those three reasons in that order when it succeeds.\<close>

theorem recording_finishes:
  assumes "recording_reachable s z ops st"
    and "rc_phase st = Pacing" and "wi_stop i \<or> rs_max_duration s \<le> wi_elapsed i \<or> wi_gone i"
  shows "\<exists>st' answer. st' = encoder_run ops (length (fq_frames (rc_queue st)) + 2) (wait_step s i st)
    \<and> recording_outcome st' = Some answer
    \<and> (\<forall>r. answer = Inr r \<longrightarrow> rr_ended r = (if wi_stop i then Stopped
        else if rs_max_duration s \<le> wi_elapsed i then TimeLimit else WindowClosed))"
proof -
  let ?why = "if wi_stop i then Stopped else if rs_max_duration s \<le> wi_elapsed i then TimeLimit else WindowClosed"
  let ?st = "wait_step s i st"
  have st: "?st = end_recording s ?why (wi_end i) (st\<lparr>rc_clock := wi_end i\<rparr>)"
    using assms(3) by (auto simp: wait_step_def)
  then have q: "fq_frames (rc_queue ?st) = fq_frames (rc_queue st)" "fq_closed_at (rc_queue ?st) \<noteq> None"
    by (simp_all add: end_recording_def fq_close_def Let_def)
  obtain len where p: "rc_phase ?st = Ended ?why len" by (simp add: st end_recording_def Let_def)
  let ?after = "encoder_run ops (length (fq_frames (rc_queue st)) + 2) ?st"
  have "rc_phase ?after = Ended ?why len" using encoder_run_phase p by metis
  moreover have "encoder_finished ?after" using closed_encoder_finishes [OF q(2), of ops] q(1) by metis
  ultimately show ?thesis using finished_outcome by blast
qed

text \<open>C21: A first frame the recorder cannot convert (an HDR one) makes it return its error while the
  encoder thread it has just started waits for frames for ever: once it has opened its file it never makes another
  step, since the queue is neither fed nor closed, so the file stays open.\<close>

theorem abandoned_encoder_waits:
  assumes hdr: "encoding (frame_format frame) = HalfFloatRgba"
    and on: "recorded_area frame part = Inr kept"
    and size: "sz_output z s (rect_width kept) (rect_height kept) = (w, h)"
    and opened: "eo_open ops w h = Inr encoder"
  shows "\<exists>st. record_start s z False part (Inr frame) = Inr st
    \<and> recording_outcome st = Some (Inl UnsupportedFrame)
    \<and> (\<forall>n. rc_encoder (encoder_run ops (Suc n) st) = Encoding encoder
        \<and> encoder_step ops (encoder_run ops (Suc n) st) = None)"
proof -
  let ?st = "(fresh_recorder s False kept w h)\<lparr>rc_phase := GaveUp UnsupportedFrame\<rparr>"
  have start: "record_start s z False part (Inr frame) = Inr ?st"
    using hdr on size by (simp add: record_start_def Let_def pixels_for_def frame_pixels_at_def)
  have first: "encoder_step ops ?st = Some (?st\<lparr>rc_encoder := Encoding encoder\<rparr>)"
    using opened by (simp add: encoder_step_def fresh_recorder_def)
  have waits: "encoder_step ops (?st\<lparr>rc_encoder := Encoding encoder\<rparr>) = None"
    by (simp add: encoder_step_def fresh_recorder_def with_capacity_def fq_pop_def)
  then have "encoder_run ops n (?st\<lparr>rc_encoder := Encoding encoder\<rparr>) = ?st\<lparr>rc_encoder := Encoding encoder\<rparr>" for n
    by (cases n) simp_all
  then show ?thesis using start first waits by (auto simp: recording_outcome_def)
qed


subsection \<open>Recording a GIF\<close>

definition gif_encoder_ops ::
  "(animation_error \<Rightarrow> ustring) \<Rightarrow> (u16 \<Rightarrow> u16 \<Rightarrow> ustring + 'e) \<Rightarrow> ('d gif_frame \<Rightarrow> 'e \<Rightarrow> ustring + 'e) \<Rightarrow>
   ('e \<Rightarrow> ustring + 'f) \<Rightarrow> (u16 \<Rightarrow> u16 \<Rightarrow> bytes \<Rightarrow> 'd) \<Rightarrow>
   (('e, 'd) gif_writer, 'f \<times> animation_summary) encoder_ops" where
  "gif_encoder_ops describe create write_frame close quantize =
    \<lparr>eo_open = \<lambda>w h. (case gif_writer_new create w h of Inl e \<Rightarrow> Inl (describe e) | Inr g \<Rightarrow> Inr g),
     eo_push = \<lambda>px at g. map_option (\<lambda>(r, g'). case r of Inl e \<Rightarrow> Inl (describe e) | Inr _ \<Rightarrow> Inr g')
       (gif_push quantize write_frame px at g),
     eo_finish = \<lambda>fin g. (case gif_finish write_frame close fin g of
       Inl e \<Rightarrow> Inl (describe e) | Inr out \<Rightarrow> Inr out)\<rparr>"

lemma pushed_frames_gif:
  "pushed_frames (gif_encoder_ops describe create write_frame close quantize) fs g = Some g' \<Longrightarrow>
    push_all quantize write_frame fs g = Some (Inr (), g')"
  by (induction fs arbitrary: g) (auto simp: gif_encoder_ops_def split: option.splits sum.splits)

text \<open>C19: A finished GIF recording opens in a viewer, in the size reported, and shows on screen, for each
  frame the encoder took, every captured pixel up to quantizing; what is missing from the frames
  captured is exactly the number reported as dropped, and the last frame is never missing.\<close>

theorem recorded_gif_shows_frames:
  assumes codec: "gif_codec near create write_frame close parse decode quantize contents extent"
    and run: "recording_reachable s z (gif_encoder_ops describe create write_frame close quantize) st"
    and report: "recording_outcome st = Some (Inr r)" and out: "rr_output r = (file, summary)"
  shows "subseq (rc_taken st) (rc_offered st) \<and> rc_taken st \<noteq> [] \<and> last (rc_taken st) = last (rc_offered st)
    \<and> length (rc_offered st) = rr_captured r \<and> length (rc_taken st) + rr_dropped r = rr_captured r
    \<and> (\<exists>reader. gif_reader_new parse file = Inr reader \<and> reader_ok decode reader
        \<and> gif_size reader = (rr_width r, rr_height r) \<and> length (gr_frames reader) = frames_written summary
        \<and> (\<forall>k < length (rc_taken st).
            \<exists>px. gif_shot decode reader (shown_index (unat (rr_width r)) (unat (rr_height r)) (rc_taken st) k) = Inr px
              \<and> (\<forall>x < unat (rr_width r). \<forall>y < unat (rr_height r).
                  \<exists>c. bgra_at (unat (rr_width r)) px x y = c @ [255] \<and> length c = 3
                    \<and> near (colour_at (unat (rr_width r)) (fst (rc_taken st ! k)) x y) c)))"
proof -
  let ?ops = "gif_encoder_ops describe create write_frame close quantize"
  have ok: "queue_ok st" "encoder_ok ?ops st" "pacing_ok s st"
    using recording_reachable_ok [OF run] by (simp_all add: recorder_ok_def)
  obtain why len where ph: "rc_phase st = Ended why len" and wrote: "rc_encoder st = Wrote (file, summary)"
    and r: "rr_width r = rc_width st" "rr_height r = rc_height st" "rr_captured r = rc_captured st"
      "rr_dropped r = fq_dropped (rc_queue st)"
    using report out by (auto simp: recording_outcome_def split: pacing_phase.splits encoder_phase.splits)
  obtain g0 g1 fin where g: "eo_open ?ops (rc_width st) (rc_height st) = Inr g0"
      "pushed_frames ?ops (rc_taken st) g0 = Some g1" "eo_finish ?ops fin g1 = Inr (file, summary)"
    and drained: "fq_frames (rc_queue st) = []" and live: "\<not> fq_failed (rc_queue st)"
    using ok(2) wrote by (auto simp: encoder_ok_def)
  have new: "gif_writer_new create (rc_width st) (rc_height st) = Inr g0"
    and fin: "gif_finish write_frame close fin g1 = Inr (file, summary)"
    using g by (auto simp: gif_encoder_ops_def split: sum.splits)
  have offered: "rc_offered st \<noteq> []" "rc_captured st = length (rc_offered st)"
    using ok(3) ph by (auto simp: pacing_ok_def)
  have taken: "rc_taken st \<noteq> []" "last (rc_taken st) = last (rc_offered st)"
      "length (rc_offered st) = length (rc_taken st) + fq_dropped (rc_queue st)"
      "subseq (rc_taken st) (rc_offered st)"
    using ok(1) offered(1) wrote drained live by (auto simp: queue_ok_def Let_def)
  show ?thesis
    using gif_recording_shown [OF codec new pushed_frames_gif [OF g(2)] fin taken(1)] taken offered(2)
    unfolding r by auto
qed

subsection \<open>A recording of one frame\<close>

definition dot_frame :: cpu_frame where
  "dot_frame = \<lparr>pixels = [0, 0, 255, 255], width = 1, height = 1, stride_bytes = 4,
     frame_format = Bgra8Unorm, origin = TopLeft, frame_color_space = Srgb, alpha = Opaque,
     metadata = sample_metadata \<lparr>rect_x = 0, rect_y = 0, rect_width = 1, rect_height = 1\<rparr>\<rparr>"

definition plain_sizing :: sizing where
  "plain_sizing = \<lparr>sz_output = \<lambda>s w h. (w, h), sz_scaled = \<lambda>fw fh w h. (w, h),
     sz_span = \<lambda>f t i. (i, i + 1), sz_describe = \<lambda>e. []\<rparr>"

definition gif_settings :: recording_settings where
  "gif_settings = \<lparr>rs_format = Gif, rs_max_duration = 60000000000, rs_gif_max_dimension = 800\<rparr>"

definition plain_ops :: "((plain_encoder, bytes) gif_writer, plain_encoder \<times> animation_summary) encoder_ops" where
  "plain_ops = gif_encoder_ops (\<lambda>_. []) plain_create plain_write Inr plain_quantize"

definition dot_started :: "((plain_encoder, bytes) gif_writer, plain_encoder \<times> animation_summary) recorder" where
  "dot_started = offer [0, 0, 255, 255] 0
     (fresh_recorder gif_settings True \<lparr>rect_x = 0, rect_y = 0, rect_width = 1, rect_height = 1\<rparr> 1 1)"

definition stop_input :: wait_input where
  "stop_input = \<lparr>wi_stop = True, wi_gone = False, wi_elapsed = 50000000, wi_now = 50000000,
     wi_end = 50000000\<rparr>"

abbreviation dot_rect :: rect where
  "dot_rect \<equiv> \<lparr>rect_x = 0, rect_y = 0, rect_width = 1, rect_height = 1\<rparr>"

lemma dot_frame_ok: "frame_ok dot_frame"
  by (simp add: frame_ok_def dot_frame_def)

lemma dot_pixels: "pixels_for plain_sizing dot_frame True dot_rect 1 1 = Some (Inr [0, 0, 255, 255])"
proof -
  have dims: "width dot_frame = 1" "height dot_frame = 1" "source_rect (metadata dot_frame) = dot_rect"
    "encoding (frame_format dot_frame) = EightBitRgba True"
    by (simp_all add: dot_frame_def sample_metadata_def)
  then have "selects dot_frame dot_rect" by (simp add: selects_def covers_source_def rect_within_def)
  then have piece: "crop dot_frame dot_rect = Some (Inr (cropped dot_frame dot_rect))"
    by (intro crop_inside dot_frame_ok)
  have cut: "width (cropped dot_frame dot_rect) = 1" "height (cropped dot_frame dot_rect) = 1"
    "pixels (cropped dot_frame dot_rect) = [0, 0, 255, 255]"
    by (simp_all add: cropped_def cropped_row_def) (simp_all add: dot_frame_def local_x_def local_y_def sample_metadata_def)
  have "intersection dot_rect dot_rect = Some dot_rect" 
    by (intro intersection_self) (simp_all add: rect_left_def rect_right_def rect_top_def rect_bottom_def)
  then show ?thesis by (simp add: pixels_for_def frame_pixels_at_def dims piece cut Let_def)
qed

lemma dot_start: "record_start gif_settings plain_sizing True part (Inr dot_frame) = Inr dot_started"
proof -
  have dims: "width dot_frame = 1" "height dot_frame = 1" by (simp_all add: dot_frame_def)
  have "sz_output plain_sizing s w h = (w, h)" for s w h by (simp add: plain_sizing_def)
  then show ?thesis
    by (simp add: record_start_def dims dot_pixels Let_def dot_started_def)
qed

lemma encoder_run_reachable:
  "recording_reachable s z ops st \<Longrightarrow> recording_reachable s z ops (encoder_run ops n st)"
  by (induction n arbitrary: st) (auto split: option.split intro: recording_reachable.encode)


definition dot_stopped :: "((plain_encoder, bytes) gif_writer, plain_encoder \<times> animation_summary) recorder" where
  "dot_stopped = wait_step gif_settings stop_input dot_started"

definition dot_done :: "((plain_encoder, bytes) gif_writer, plain_encoder \<times> animation_summary) recorder" where
  "dot_done = encoder_run plain_ops 3 dot_stopped"

lemma dot_started_reachable: "recording_reachable gif_settings plain_sizing plain_ops dot_started"
  by (rule recording_reachable.start [OF dot_frame_ok dot_start])

lemma dot_done_reachable: "recording_reachable gif_settings plain_sizing plain_ops dot_done"
  unfolding dot_done_def dot_stopped_def
  by (intro encoder_run_reachable recording_reachable.wait dot_started_reachable)
    (simp_all add: dot_started_def fresh_recorder_def offer_def stop_input_def)

definition dot_pushed :: "(plain_encoder, bytes) gif_writer" where
  "dot_pushed = snd (the (gif_push plain_quantize plain_write [0, 0, 255, 255] 0 sample_writer))"

lemma dot_push: "eo_push plain_ops [0, 0, 255, 255] 0 sample_writer = Some (Inr dot_pushed)"
  unfolding dot_pushed_def plain_ops_def gif_encoder_ops_def
  by (simp add: sample_run_defs gif_write_def delay_until_def plain_write_def MINIMUM_DELAY_CS_def)

lemma dot_finish: "\<exists>out. eo_finish plain_ops fin dot_pushed = Inr out"
  by (auto simp: plain_ops_def gif_encoder_ops_def gif_finish_def gif_write_def plain_write_def Let_def
      split: option.split) (metis surj_pair)

lemma dot_stopped_fields:
  "rc_encoder dot_stopped = Starting" "rc_width dot_stopped = 1" "rc_height dot_stopped = 1"
  "fq_frames (rc_queue dot_stopped) = [([0, 0, 255, 255], 0)]" "rc_taken dot_stopped = []"
  "fq_closed_at (rc_queue dot_stopped) = Some 50000000" "rc_captured dot_stopped = 1"
  "rc_phase dot_stopped = Ended Stopped 50000000"
  using queue_capacity_bounds(1) [of 4]
  by (simp_all add: dot_stopped_def dot_started_def offer_def fresh_recorder_def wait_step_def stop_input_def
      end_recording_def fq_close_def fq_push_def with_capacity_def gif_settings_def Let_def)

lemma dot_outcome:
  "\<exists>r saved summ. recording_outcome dot_done = Some (Inr r) \<and> rr_output r = (saved, summ)
    \<and> rr_captured r = 1 \<and> rr_width r = 1 \<and> rr_height r = 1"
  "rc_taken dot_done = [([0, 0, 255, 255], 0)]"
proof -
  have opened: "eo_open plain_ops 1 1 = Inr sample_writer"
    by (simp add: plain_ops_def gif_encoder_ops_def sample_writer_new)
  obtain saved summ where fin: "eo_finish plain_ops 50000000 dot_pushed = Inr (saved, summ)"
    using dot_finish by (metis surj_pair)
  let ?q = "(rc_queue dot_stopped)\<lparr>fq_frames := []\<rparr>"
  have eq: "dot_done = dot_stopped\<lparr>rc_queue := ?q, rc_encoder := Wrote (saved, summ),
      rc_taken := [([0, 0, 255, 255], 0)]\<rparr>"
    unfolding dot_done_def numeral_3_eq_3
    by (simp add: encoder_step_def dot_stopped_fields opened fq_pop_def dot_push fin)
  show "\<exists>r saved summ. recording_outcome dot_done = Some (Inr r) \<and> rr_output r = (saved, summ)
    \<and> rr_captured r = 1 \<and> rr_width r = 1 \<and> rr_height r = 1" "rc_taken dot_done = [([0, 0, 255, 255], 0)]"
    by (simp_all add: eq recording_outcome_def dot_stopped_fields)
qed

lemma recorded_gif_shows_frames_witness:
  "\<exists>r saved summ reader. recording_outcome dot_done = Some (Inr r) \<and> rr_output r = (saved, summ)
    \<and> gif_reader_new plain_parse saved = Inr reader
    \<and> (\<exists>px. gif_shot plain_decode reader (shown_index 1 1 (rc_taken dot_done) 0) = Inr px
        \<and> bgra_at 1 px 0 0 = [0, 0, 255, 255])"
proof -
  obtain r saved summ where out: "recording_outcome dot_done = Some (Inr r)" "rr_output r = (saved, summ)"
    and size: "rr_width r = 1" "rr_height r = 1" using dot_outcome(1) by blast
  note gif = recorded_gif_shows_frames [OF plain_codec dot_done_reachable [unfolded plain_ops_def] out]
  obtain reader where reader: "gif_reader_new plain_parse saved = Inr reader"
    and each: "\<forall>k < length (rc_taken dot_done).
        \<exists>px. gif_shot plain_decode reader (shown_index 1 1 (rc_taken dot_done) k) = Inr px
          \<and> (\<forall>x < 1. \<forall>y < 1. \<exists>c. bgra_at 1 px x y = c @ [255] \<and> length c = 3
              \<and> colour_at 1 (fst (rc_taken dot_done ! k)) x y = c)"
    using gif unfolding size by (simp only: unat_1) blast
  have "0 < length (rc_taken dot_done)" by (simp add: dot_outcome(2))
  then obtain px where px: "gif_shot plain_decode reader (shown_index 1 1 (rc_taken dot_done) 0) = Inr px"
    and c: "\<exists>c. bgra_at 1 px 0 0 = c @ [255] \<and> colour_at 1 (fst (rc_taken dot_done ! 0)) 0 0 = c"
    using each by (metis zero_less_one)
  have "colour_at 1 (fst (rc_taken dot_done ! 0)) 0 0 = [0, 0, 255]"
    by (simp add: dot_outcome(2) colour_at_def bgra_at_def numeral_3_eq_3)
  then have "bgra_at 1 px 0 0 = [0, 0, 255, 255]" using c by auto
  then show ?thesis using out reader px by blast
qed

lemma recording_queue_accounts_witness:
  "length (fq_frames (rc_queue dot_done)) \<le> fq_capacity (rc_queue dot_done)
   \<and> (\<exists>r. recording_outcome dot_done = Some (Inr r) \<and> rr_captured r = length (rc_taken dot_done) + rr_dropped r)"
  using recording_queue_accounts [OF dot_done_reachable] dot_outcome(1) by blast

lemma recording_finishes_witness:
  "\<exists>answer. recording_outcome (encoder_run plain_ops (length (fq_frames (rc_queue dot_started)) + 2)
      (wait_step gif_settings stop_input dot_started)) = Some answer"
  using recording_finishes [OF dot_started_reachable, of stop_input]
  by (auto simp: dot_started_def offer_def fresh_recorder_def stop_input_def)

definition hdr_frame :: cpu_frame where
  "hdr_frame = dot_frame\<lparr>pixels := replicate 8 0, stride_bytes := 8, frame_format := Rgba16Float\<rparr>"

lemma abandoned_encoder_waits_witness:
  "\<exists>st. record_start gif_settings plain_sizing False dot_rect (Inr hdr_frame) = Inr st
    \<and> recording_outcome st = Some (Inl UnsupportedFrame)
    \<and> (\<forall>n. rc_encoder (encoder_run plain_ops (Suc n) st) = Encoding sample_writer
        \<and> encoder_step plain_ops (encoder_run plain_ops (Suc n) st) = None)"
proof (rule abandoned_encoder_waits)
  have "intersection dot_rect dot_rect = Some dot_rect"
    by (intro intersection_self) (simp_all add: rect_left_def rect_right_def rect_top_def rect_bottom_def)
  then show "recorded_area hdr_frame dot_rect = Inr dot_rect"
    by (simp add: recorded_area_def hdr_frame_def dot_frame_def sample_metadata_def)
  show "eo_open plain_ops 1 1 = Inr sample_writer"
    by (simp add: plain_ops_def gif_encoder_ops_def sample_writer_new)
qed (simp_all add: hdr_frame_def plain_sizing_def)

end
