(* ===== verification/Rotation.thy ===== *)
theory Rotation
  imports FakeBackend GifPlayback
begin

section \<open>Rotated displays: reading a frame or a region upright\<close>

text \<open>
  The rotation arithmetic of \<open>captastic-windows/src/dxgi.rs\<close>. Desktop Duplication hands over the
  texture as the panel scans it out; \<open>normalize_bgra_into\<close> turns the mapped bytes upright, and a
  region of a retained texture is read by way of \<open>raw_selection_for_rotation\<close>, which finds where
  the upright region lies in the raw texture. The Direct3D calls are parameters: creating a
  staging texture, and copying a box of the texture into it and mapping it, which answers the row
  pitch and the bytes. An outer \<open>None\<close> is a panic. The four durations of \<open>GpuMaterialization\<close>
  are left out.
\<close>

definition dxgi_error :: "capture_error_kind \<Rightarrow> string \<Rightarrow> ustring \<Rightarrow> bool \<Rightarrow> int option \<Rightarrow> capture_error" where
  "dxgi_error kind operation message retryable native_code =
     \<lparr>err_kind = kind, err_backend = ustr ''dxgi'', err_operation = ustr operation,
      err_message = message, err_retryable = retryable, err_native_code = native_code\<rparr>"

definition invalid_frame :: "string \<Rightarrow> string \<Rightarrow> capture_error" where
  "invalid_frame operation message = dxgi_error InvalidFrame operation (ustr message) False None"

definition frame_byte_len :: "u32 \<Rightarrow> u32 \<Rightarrow> capture_error + nat" where
  "frame_byte_len w h = ok_or (invalid_frame ''buffer_pool'' ''CPU frame size overflowed'')
     (map_option unat (Option.bind (u32_checked_mul w 4) (\<lambda>stride. u32_checked_mul stride h)))"

record pixel_layout =
  pl_width :: u32
  pl_height :: u32
  pl_stride :: u32

definition dimensions_after_rotation :: "u32 \<Rightarrow> u32 \<Rightarrow> u16 \<Rightarrow> u32 \<times> u32" where
  "dimensions_after_rotation w h degrees = (if degrees = 90 \<or> degrees = 270 then (h, w) else (w, h))"

definition normalized_layout :: "u32 \<Rightarrow> u32 \<Rightarrow> u16 \<Rightarrow> capture_error + pixel_layout" where
  "normalized_layout raw_width raw_height degrees =
    (if raw_width = 0 \<or> raw_height = 0
     then Inl (invalid_frame ''normalize_rotation'' ''raw DXGI frame dimensions must be non-zero'')
     else if degrees \<notin> {0, 90, 180, 270}
     then Inl (dxgi_error InvalidFrame ''normalize_rotation''
       (ustr ''unsupported display rotation '' @ show_nat (unat degrees)) False None)
     else case dimensions_after_rotation raw_width raw_height degrees of (w, h) \<Rightarrow>
       try_bind (ok_or (invalid_frame ''normalize_rotation'' ''normalized CPU frame stride overflowed'')
         (u32_checked_mul w 4)) (\<lambda>stride. Inr \<lparr>pl_width = w, pl_height = h, pl_stride = stride\<rparr>))"

text \<open>Where an upright pixel is in the raw texture; the match of the pixel loop.\<close>

definition raw_position :: "u16 \<Rightarrow> nat \<Rightarrow> nat \<Rightarrow> nat \<Rightarrow> nat \<Rightarrow> nat \<times> nat" where
  "raw_position degrees raw_width raw_height x y =
    (if degrees = 90 then (y, raw_height - 1 - x)
     else if degrees = 180 then (raw_width - 1 - x, raw_height - 1 - y)
     else if degrees = 270 then (raw_width - 1 - y, x)
     else (x, y))"

definition copy_row :: "bytes \<Rightarrow> nat \<Rightarrow> nat \<Rightarrow> nat \<Rightarrow> nat \<Rightarrow> bytes \<Rightarrow> bytes option" where
  "copy_row source source_stride row_bytes output_stride row destination =
    Option.bind (slice (row * source_stride) (row * source_stride + row_bytes) source)
      (\<lambda>bs. put_bytes (row * output_stride) bs destination)"

definition copy_pixel :: "bytes \<Rightarrow> nat \<Rightarrow> u16 \<Rightarrow> nat \<Rightarrow> nat \<Rightarrow> nat \<Rightarrow> nat \<Rightarrow> nat \<Rightarrow> bytes \<Rightarrow> bytes option" where
  "copy_pixel source source_stride degrees raw_width raw_height output_stride y x destination =
    (case raw_position degrees raw_width raw_height x y of (source_x, source_y) \<Rightarrow>
      let start = source_y * source_stride + source_x * 4
      in Option.bind (slice start (start + 4) source)
           (\<lambda>bs. put_bytes (y * output_stride + x * 4) bs destination))"

definition normalize_bgra_into ::
  "bytes \<Rightarrow> u32 \<Rightarrow> u32 \<Rightarrow> nat \<Rightarrow> u16 \<Rightarrow> bytes \<Rightarrow> (capture_error + pixel_layout \<times> bytes) option" where
  "normalize_bgra_into source source_width source_height source_stride degrees destination =
    (case normalized_layout source_width source_height degrees of
       Inl e \<Rightarrow> Some (Inl e)
     | Inr layout \<Rightarrow>
       let source_row_bytes = unat source_width * 4 in
       if source_stride < source_row_bytes
       then Some (Inl (invalid_frame ''normalize_rotation'' ''raw DXGI stride is smaller than one pixel row''))
       else case usize_checked_mul source_stride (unat source_height) of
         None \<Rightarrow> Some (Inl (invalid_frame ''normalize_rotation'' ''mapped DXGI source size overflowed''))
       | Some required_source \<Rightarrow>
         if length source < required_source
         then Some (Inl (invalid_frame ''normalize_rotation''
           ''mapped DXGI source is shorter than its declared layout''))
         else case frame_byte_len (pl_width layout) (pl_height layout) of
           Inl e \<Rightarrow> Some (Inl e)
         | Inr required_destination \<Rightarrow>
           if length destination \<noteq> required_destination
           then Some (Inl (invalid_frame ''normalize_rotation''
             ''normalized destination does not match its declared layout''))
           else map_option (\<lambda>px. Inr (layout, px))
             (if degrees = 0
              then fold_opt (copy_row source source_stride source_row_bytes (unat (pl_stride layout)))
                [0..<unat source_height] destination
              else fold_opt (\<lambda>y. fold_opt (copy_pixel source source_stride degrees (unat source_width)
                  (unat source_height) (unat (pl_stride layout)) y) [0..<unat (pl_width layout)])
                [0..<unat (pl_height layout)] destination))"

subsection \<open>A region of a retained texture\<close>

definition local_selection :: "rect \<Rightarrow> rect \<Rightarrow> capture_error + rect" where
  "local_selection source selection =
    (if rect_width selection = 0 \<or> rect_height selection = 0
     then Inl (invalid_frame ''gpu_region_readback'' ''selected region must be non-empty'')
     else if sint (rect_x selection) < sint (rect_x source) \<or> sint (rect_y selection) < sint (rect_y source)
        \<or> rect_right source < rect_right selection \<or> rect_bottom source < rect_bottom selection
     then Inl (invalid_frame ''gpu_region_readback'' ''selected region lies outside the native frame'')
     else Inr \<lparr>rect_x = rect_x selection - rect_x source, rect_y = rect_y selection - rect_y source,
       rect_width = rect_width selection, rect_height = rect_height selection\<rparr>)"

text \<open>\<open>checked_add\<close> on \<open>u32\<close>.\<close>

definition u32_checked_add :: "u32 \<Rightarrow> u32 \<Rightarrow> u32 option" where
  "u32_checked_add a b = (if unat a + unat b < 4294967296 then Some (a + b) else None)"

definition raw_selection_for_rotation :: "rect \<Rightarrow> u32 \<Rightarrow> u32 \<Rightarrow> u16 \<Rightarrow> capture_error + rect" where
  "raw_selection_for_rotation normalized raw_width raw_height degrees =
    try_bind (normalized_layout raw_width raw_height degrees) (\<lambda>layout.
    try_bind (ok_or (invalid_frame ''gpu_region_readback'' ''normalized region has a negative x coordinate'')
      (u32_try_from (sint (rect_x normalized)))) (\<lambda>x.
    try_bind (ok_or (invalid_frame ''gpu_region_readback'' ''normalized region has a negative y coordinate'')
      (u32_try_from (sint (rect_y normalized)))) (\<lambda>y.
    try_bind (ok_or (invalid_frame ''gpu_region_readback'' ''normalized region right edge overflowed'')
      (u32_checked_add x (rect_width normalized))) (\<lambda>right.
    try_bind (ok_or (invalid_frame ''gpu_region_readback'' ''normalized region bottom edge overflowed'')
      (u32_checked_add y (rect_height normalized))) (\<lambda>bottom.
    if rect_width normalized = 0 \<or> rect_height normalized = 0
      \<or> right > pl_width layout \<or> bottom > pl_height layout
    then Inl (invalid_frame ''gpu_region_readback''
      ''normalized region lies outside the rotated DXGI texture'')
    else
      let (raw_x, raw_y, w, h) =
        (if degrees = 90 then (y, raw_height - right, rect_height normalized, rect_width normalized)
         else if degrees = 180
         then (raw_width - right, raw_height - bottom, rect_width normalized, rect_height normalized)
         else if degrees = 270 then (raw_width - bottom, x, rect_height normalized, rect_width normalized)
         else (x, y, rect_width normalized, rect_height normalized))
      in try_bind (ok_or (invalid_frame ''gpu_region_readback'' ''raw region x coordinate exceeds Win32 limits'')
           (i32_try_from (uint raw_x))) (\<lambda>rx.
         try_bind (ok_or (invalid_frame ''gpu_region_readback'' ''raw region y coordinate exceeds Win32 limits'')
           (i32_try_from (uint raw_y))) (\<lambda>ry.
         Inr \<lparr>rect_x = rx, rect_y = ry, rect_width = w, rect_height = h\<rparr>)))))))"

text \<open>The numbers of the formats are those of the DXGI headers.\<close>

abbreviation DXGI_FORMAT_B8G8R8A8_UNORM :: nat where "DXGI_FORMAT_B8G8R8A8_UNORM \<equiv> 87"
abbreviation DXGI_FORMAT_R16G16B16A16_FLOAT :: nat where "DXGI_FORMAT_R16G16B16A16_FLOAT \<equiv> 10"
abbreviation DXGI_FORMAT_R10G10B10A2_UNORM :: nat where "DXGI_FORMAT_R10G10B10A2_UNORM \<equiv> 24"

definition format_name :: "nat \<Rightarrow> string" where
  "format_name format =
    (if format = DXGI_FORMAT_B8G8R8A8_UNORM then ''B8G8R8A8_UNORM''
     else if format = DXGI_FORMAT_R16G16B16A16_FLOAT then ''R16G16B16A16_FLOAT''
     else if format = DXGI_FORMAT_R10G10B10A2_UNORM then ''R10G10B10A2_UNORM''
     else ''unrecognized'')"

definition describe_unsupported_format :: "nat \<Rightarrow> ustring" where
  "describe_unsupported_format format =
    ustr ''the desktop is composed in DXGI format '' @ show_nat format @ ustr '' ('' @
    ustr (format_name format) @ ustr ''), which Captastic cannot read'' @
    (if format = DXGI_FORMAT_R16G16B16A16_FLOAT
     then ustr ''. This is the format the compositor uses while HDR is enabled, and Captastic asked it for          8-bit BGRA and was refused. Turning HDR off for this display, or updating the display          driver, restores capture''
     else [])"

record native_texture =
  nt_width :: u32
  nt_height :: u32
  nt_format :: nat
  nt_metadata :: frame_metadata

text \<open>
  What a Direct3D device does for a texture: create a staging texture of a size, and copy the box
  with these edges into it and map it, answering the row pitch and the bytes up to the last row's end.
\<close>

record texture_reader =
  tr_create :: "u32 \<Rightarrow> u32 \<Rightarrow> capture_error + unit"
  tr_read :: "nat \<Rightarrow> nat \<Rightarrow> nat \<Rightarrow> nat \<Rightarrow> capture_error + (u32 \<times> bytes)"

record gpu_materialization =
  gm_frame :: cpu_frame
  gm_bytes_read :: nat
  gm_full_frame_bytes :: nat
  gm_bytes_avoided :: nat
  gm_contiguous_rows :: bool

definition u32_saturating_add :: "u32 \<Rightarrow> u32 \<Rightarrow> u32" where
  "u32_saturating_add a b = (if unat a + unat b < 4294967296 then a + b else - 1)"

definition box_of :: "u32 \<Rightarrow> u32 \<Rightarrow> rect \<Rightarrow> nat \<times> nat \<times> nat \<times> nat" where
  "box_of lx ly raw = (unat lx, unat ly,
     unat (u32_saturating_add lx (rect_width raw)), unat (u32_saturating_add ly (rect_height raw)))"

text \<open>From the mapped bytes of the raw region to its upright frame.\<close>

definition materialize_mapped ::
  "native_texture \<Rightarrow> rect \<Rightarrow> rect \<Rightarrow> u32 \<Rightarrow> bytes \<Rightarrow> (capture_error + gpu_materialization) option" where
  "materialize_mapped t selection raw pitch mapped =
    (let degrees = meta_rotation_degrees (nt_metadata t) in
     case u32_checked_mul (rect_width raw) 4 of
       None \<Rightarrow> Some (Inl (invalid_frame ''gpu_region_readback'' ''raw selected frame stride overflowed''))
     | Some tight \<Rightarrow>
       if pitch < tight then Some (Inl (invalid_frame ''gpu_region_readback''
         ''mapped row pitch is smaller than the raw selected frame stride''))
       else case normalized_layout (rect_width raw) (rect_height raw) degrees of
         Inl e \<Rightarrow> Some (Inl e)
       | Inr layout \<Rightarrow>
         if pl_width layout \<noteq> rect_width selection \<or> pl_height layout \<noteq> rect_height selection
         then Some (Inl (invalid_frame ''gpu_region_readback''
           ''rotated GPU region dimensions do not match the normalized selection''))
         else case frame_byte_len (pl_width layout) (pl_height layout) of
           Inl e \<Rightarrow> Some (Inl e)
         | Inr bytes_read \<Rightarrow> (case frame_byte_len (nt_width t) (nt_height t) of
             Inl e \<Rightarrow> Some (Inl e)
           | Inr full_frame_bytes \<Rightarrow>
             (case usize_checked_mul (unat pitch) (unat (rect_height raw)) of
               None \<Rightarrow> Some (Inl (invalid_frame ''gpu_region_readback'' ''mapped raw region size overflowed''))
             | Some _ \<Rightarrow>
               map_option (\<lambda>r. try_bind r (\<lambda>(_, px).
                 let meta = (nt_metadata t)\<lparr>source_rect := selection,
                   copy_count := sat_inc (sat_inc (copy_count (nt_metadata t))), pool_slot := None\<rparr>
                 in case cpu_frame_new px (pl_width layout) (pl_height layout) (pl_stride layout)
                      Bgra8Unorm TopLeft Srgb meta of
                    Inl e \<Rightarrow> Inl (dxgi_error InvalidFrame ''gpu_region_readback'' (frame_error_text e) False None)
                  | Inr f \<Rightarrow> Inr \<lparr>gm_frame = f, gm_bytes_read = bytes_read,
                      gm_full_frame_bytes = full_frame_bytes,
                      gm_bytes_avoided = full_frame_bytes - bytes_read,
                      gm_contiguous_rows = (degrees = 0 \<and> pitch = tight)\<rparr>))
                 (normalize_bgra_into mapped (rect_width raw) (rect_height raw) (unat pitch) degrees
                   (replicate bytes_read 0)))))"

definition materialize_region ::
  "texture_reader \<Rightarrow> native_texture \<Rightarrow> rect \<Rightarrow> (capture_error + gpu_materialization) option" where
  "materialize_region reader t selection =
    (case local_selection (source_rect (nt_metadata t)) selection of
       Inl e \<Rightarrow> Some (Inl e)
     | Inr local \<Rightarrow>
       if nt_format t \<noteq> DXGI_FORMAT_B8G8R8A8_UNORM
       then Some (Inl (dxgi_error Unsupported ''gpu_region_readback''
         (describe_unsupported_format (nt_format t)) False None))
       else case raw_selection_for_rotation local (nt_width t) (nt_height t)
           (meta_rotation_degrees (nt_metadata t)) of
         Inl e \<Rightarrow> Some (Inl e)
       | Inr raw \<Rightarrow> (case tr_create reader (rect_width raw) (rect_height raw) of
           Inl e \<Rightarrow> Some (Inl e)
         | Inr _ \<Rightarrow> (case u32_try_from (sint (rect_x raw)) of
             None \<Rightarrow> Some (Inl (invalid_frame ''gpu_region_readback''
               ''raw selected region has a negative x coordinate''))
           | Some lx \<Rightarrow> (case u32_try_from (sint (rect_y raw)) of
               None \<Rightarrow> Some (Inl (invalid_frame ''gpu_region_readback''
                 ''raw selected region has a negative y coordinate''))
             | Some ly \<Rightarrow> (case box_of lx ly raw of (l, u, r, b) \<Rightarrow>
                 (case tr_read reader l u r b of
                    Inl e \<Rightarrow> Some (Inl e)
                  | Inr (pitch, mapped) \<Rightarrow> materialize_mapped t selection raw pitch mapped))))))"

subsection \<open>What the loops put where\<close>

lemma put_row_paints:
  assumes c: "length c = w * h * 4" and bs: "length bs = n * 4" and x: "x0 + n \<le> w" and y: "y < h"
  shows "\<exists>c'. put_bytes ((y * w + x0) * 4) bs c = Some c' \<and> paints w h
    (\<lambda>x' y'. if y' = y \<and> x0 \<le> x' \<and> x' < x0 + n then Some (take 4 (drop ((x' - x0) * 4) bs)) else None) c c'"
proof -
  let ?a = "(y * w + x0) * 4"
  have end_le: "?a + length bs \<le> length c"
  proof -
    have "(y * w + (x0 + n)) \<le> Suc y * w" using x by simp
    also have "\<dots> \<le> h * w" using y by (intro mult_le_mono1) simp
    finally show ?thesis using c bs by (simp add: mult.commute)
  qed
  let ?c' = "take ?a c @ bs @ drop (?a + length bs) c"
  have "bgra_at w ?c' x' y' = (if y' = y \<and> x0 \<le> x' \<and> x' < x0 + n then take 4 (drop ((x' - x0) * 4) bs)
      else bgra_at w c x' y')" if xy: "x' < w" "y' < h" for x' y'
  proof -
    consider "y' * w + x' < y * w + x0" | "y * w + (x0 + n) \<le> y' * w + x'"
      | "y * w + x0 \<le> y' * w + x'" "y' * w + x' < y * w + (x0 + n)" by linarith
    then show ?thesis
    proof cases
      case 1
      then have "\<not> (y' = y \<and> x0 \<le> x' \<and> x' < x0 + n)" by auto
      moreover have "(y' * w + x') * 4 + 4 \<le> ?a" using 1 by simp
      ultimately show ?thesis
        using replaced_before [of ?a bs c "(y' * w + x') * 4" 4] end_le by (simp only: bgra_at_def if_False)
    next
      case 2
      then have "\<not> (y' = y \<and> x0 \<le> x' \<and> x' < x0 + n)" by auto
      moreover have "?a + length bs \<le> (y' * w + x') * 4" using 2 bs by simp
      ultimately show ?thesis
        using replaced_after [of ?a bs c "(y' * w + x') * 4"] end_le by (simp only: bgra_at_def if_False)
    next
      case 3
      have "y' = y"
      proof (rule ccontr)
        assume "y' \<noteq> y"
        then consider "y' + 1 \<le> y" | "y + 1 \<le> y'" by linarith
        then show False
        proof cases
          case 1
          then have "(y' + 1) * w \<le> y * w" by (rule mult_le_mono1)
          then show False using 3(1) xy by simp
        next
          case 2
          then have "(y + 1) * w \<le> y' * w" by (rule mult_le_mono1)
          then show False using 3(2) x by simp
        qed
      qed
      then have at: "x0 \<le> x'" "x' < x0 + n" using 3 by auto
      let ?k = "(x' - x0) * 4"
      have "(y' * w + x') * 4 = ?a + ?k" using at \<open>y' = y\<close> by simp
      moreover have "?k + 4 \<le> length bs" using at bs by simp
      ultimately have "bgra_at w ?c' x' y' = take 4 (drop ?k bs)"
        using end_le by (simp add: bgra_at_def)
      then show ?thesis using at \<open>y' = y\<close> by simp
    qed
  qed
  then show ?thesis
    using end_le c by (intro exI [of _ ?c']) (simp add: put_bytes_def paints_def)
qed

lemma rotation_simps:
  "raw_position 0 w h x y = (x, y)"
  "raw_position 90 w h x y = (y, h - 1 - x)"
  "raw_position 180 w h x y = (w - 1 - x, h - 1 - y)"
  "raw_position 270 w h x y = (w - 1 - y, x)"
  "dimensions_after_rotation a b 0 = (a, b)"
  "dimensions_after_rotation a b 90 = (b, a)"
  "dimensions_after_rotation a b 180 = (a, b)"
  "dimensions_after_rotation a b 270 = (b, a)"
  by (simp_all add: raw_position_def dimensions_after_rotation_def)

lemma raw_position_inside:
  assumes "degrees \<in> {0, 90, 180, 270}" "dimensions_after_rotation w h degrees = (lw, lh)"
    and "x < unat lw" "y < unat lh" "raw_position degrees (unat w) (unat h) x y = (sx, sy)"
  shows "sx < unat w \<and> sy < unat h"
  using assms by (auto simp: raw_position_def dimensions_after_rotation_def split: if_splits)

lemma mapped_pixel_inside:
  fixes stride :: nat
  assumes "4 * w \<le> stride" "stride * h \<le> n" "sx < w" "sy < h"
  shows "sy * stride + sx * 4 + 4 \<le> n"
proof -
  have "sx * 4 + 4 \<le> stride" using assms by simp
  moreover have "Suc sy * stride \<le> h * stride" using assms(4) by (intro mult_le_mono1) simp
  ultimately show ?thesis using assms(2) by (simp add: mult.commute)
qed

definition mapped_pixel :: "bytes \<Rightarrow> nat \<Rightarrow> nat \<times> nat \<Rightarrow> bytes" where
  "mapped_pixel source stride at = take 4 (drop (snd at * stride + fst at * 4) source)"

lemma copy_rows_paint:
  assumes c: "length c = w * h * 4" and stride: "4 * w \<le> stride" and len: "stride * h \<le> length source"
  shows "\<exists>c'. fold_opt (copy_row source stride (w * 4) (w * 4)) [0..<h] c = Some c' \<and>
    paints w h (\<lambda>x y. Some (mapped_pixel source stride (x, y))) c c'"
proof -
  have "\<exists>c'. fold_opt (copy_row source stride (w * 4) (w * 4)) [0..<h] c = Some c' \<and>
    paints w h (\<lambda>x y. if Some y \<in> Some ` set [0..<h] then Some (mapped_pixel source stride (x, y)) else None) c c'"
  proof (rule fold_paints [OF _ c])
    fix y and c :: bytes
    assume "y \<in> set [0..<h]" and c: "length c = w * h * 4"
    then have y: "y < h" by simp
    then have "Suc y * stride \<le> h * stride" by (intro mult_le_mono1) simp
    then have inside: "y * stride + w * 4 \<le> length source" using stride len by (simp add: mult.commute)
    let ?bs = "take (w * 4) (drop (y * stride) source)"
    have "\<exists>c'. put_bytes ((y * w + 0) * 4) ?bs c = Some c' \<and> paints w h
      (\<lambda>x' y'. if y' = y \<and> 0 \<le> x' \<and> x' < 0 + w then Some (take 4 (drop ((x' - 0) * 4) ?bs)) else None) c c'"
      by (rule put_row_paints [OF c _ _ y]) (use inside in simp_all)
    then obtain c' where c': "put_bytes ((y * w + 0) * 4) ?bs c = Some c'"
      "paints w h (\<lambda>x' y'. if y' = y \<and> 0 \<le> x' \<and> x' < 0 + w then Some (take 4 (drop ((x' - 0) * 4) ?bs)) else None) c c'"
      by blast
    have "take 4 (drop (x * 4) ?bs) = mapped_pixel source stride (x, y)" if "x < w" for x
      using that by (simp add: mapped_pixel_def drop_take add.commute min_def)
    then have "paints w h (\<lambda>x y'. if Some y' = Some y then Some (mapped_pixel source stride (x, y')) else None) c c'"
      using c'(2) by (elim paints_cong) simp
    then show "\<exists>c'. copy_row source stride (w * 4) (w * 4) y c = Some c' \<and>
        paints w h (\<lambda>x y'. if Some y' = Some y then Some (mapped_pixel source stride (x, y')) else None) c c'"
      using c'(1) inside by (auto simp: copy_row_def slice_def mult.assoc)
  qed
  then show ?thesis by (rule ex_paints_cong) auto
qed

lemma copy_pixels_paint:
  assumes c: "length c = w * h * 4"
    and inside: "\<And>x y sx sy. x < w \<Longrightarrow> y < h \<Longrightarrow> raw_position degrees raw_w raw_h x y = (sx, sy) \<Longrightarrow>
      sy * stride + sx * 4 + 4 \<le> length source"
  shows "\<exists>c'. fold_opt (\<lambda>y. fold_opt (copy_pixel source stride degrees raw_w raw_h (w * 4) y) [0..<w]) [0..<h] c = Some c'
    \<and> paints w h (\<lambda>x y. Some (mapped_pixel source stride (raw_position degrees raw_w raw_h x y))) c c'"
proof -
  let ?p = "\<lambda>x y. mapped_pixel source stride (raw_position degrees raw_w raw_h x y)"
  have row: "\<exists>c'. fold_opt (copy_pixel source stride degrees raw_w raw_h (w * 4) y) [0..<w] c = Some c' \<and>
      paints w h (\<lambda>x' y'. if Some y' = Some y then Some (?p x' y') else None) c c'"
    if y: "y \<in> set [0..<h]" and c: "length c = w * h * 4" for y c
  proof -
    have "\<exists>c'. fold_opt (copy_pixel source stride degrees raw_w raw_h (w * 4) y) [0..<w] c = Some c' \<and>
      paints w h (\<lambda>x' y'. if Some x' \<in> Some ` set [0..<w] then if y' = y then Some (?p x' y') else None else None) c c'"
    proof (rule fold_paints [OF _ c])
      fix x and c :: bytes
      assume x: "x \<in> set [0..<w]" and c: "length c = w * h * 4"
      obtain sx sy where at: "raw_position degrees raw_w raw_h x y = (sx, sy)" by fastforce
      have ok: "sy * stride + sx * 4 + 4 \<le> length source" using inside [OF _ _ at] x y by simp
      then have len: "length (?p x y) = 4" by (simp add: mapped_pixel_def at)
      then obtain c' where c': "put_bytes ((y * w + x) * 4) (?p x y) c = Some c'"
          "paints w h (\<lambda>x' y'. if x' = x \<and> y' = y then Some (?p x y) else None) c c'"
        using put_bytes_paints [OF c len, of x y] x y by auto
      have "copy_pixel source stride degrees raw_w raw_h (w * 4) y x c = Some c'"
        using c'(1) ok by (simp add: copy_pixel_def at Let_def slice_def mapped_pixel_def add_mult_distrib mult.assoc)
      moreover have "paints w h (\<lambda>x' y'. if Some x' = Some x then if y' = y then Some (?p x' y') else None else None) c c'"
        using c'(2) by (elim paints_cong) auto
      ultimately show "\<exists>c'. copy_pixel source stride degrees raw_w raw_h (w * 4) y x c = Some c' \<and>
        paints w h (\<lambda>x' y'. if Some x' = Some x then if y' = y then Some (?p x' y') else None else None) c c'"
        by blast
    qed
    then show ?thesis by (rule ex_paints_cong) auto
  qed
  have "\<exists>c'. fold_opt (\<lambda>y. fold_opt (copy_pixel source stride degrees raw_w raw_h (w * 4) y) [0..<w]) [0..<h] c = Some c'
    \<and> paints w h (\<lambda>x y. if Some y \<in> Some ` set [0..<h] then Some (?p x y) else None) c c'"
    by (rule fold_paints [OF row c]) auto
  then show ?thesis by (rule ex_paints_cong) auto
qed

text \<open>The upright picture of a mapped texture.\<close>

definition upright :: "bytes \<Rightarrow> nat \<Rightarrow> u16 \<Rightarrow> nat \<Rightarrow> nat \<Rightarrow> nat \<Rightarrow> nat \<Rightarrow> bytes" where
  "upright source stride degrees raw_w raw_h x y =
     mapped_pixel source stride (raw_position degrees raw_w raw_h x y)"

lemma normalized_layout_ok:
  assumes "w \<noteq> 0" "h \<noteq> 0" "degrees \<in> {0, 90, 180, 270}" "unat w * unat h * 4 < 4294967296"
    and "dimensions_after_rotation w h degrees = (lw, lh)"
  shows "\<exists>layout. normalized_layout w h degrees = Inr layout \<and> pl_width layout = lw \<and> pl_height layout = lh
    \<and> unat (pl_stride layout) = unat lw * 4 \<and> frame_byte_len lw lh = Inr (unat lw * unat lh * 4)
    \<and> lw \<noteq> 0 \<and> lh \<noteq> 0 \<and> unat lw * unat lh = unat w * unat h"
proof -
  have dims: "lw \<noteq> 0" "lh \<noteq> 0" "unat lw * unat lh = unat w * unat h"
    using assms by (auto simp: dimensions_after_rotation_def split: if_splits)
  then have "1 \<le> unat lh" by (simp add: unat_gt_0 Suc_leI)
  then have "unat lw * 4 * 1 \<le> unat lw * 4 * unat lh" by (intro mult_le_mono2)
  moreover have "unat lw * 4 * unat lh < 4294967296" using assms(4) dims(3) by (simp add: ac_simps)
  ultimately have lt: "unat lw * 4 < 4294967296" "unat lw * 4 * unat lh < 4294967296"
    by (simp_all only: mult_1_right)
  then have stride: "u32_checked_mul lw 4 = Some (lw * 4)" "unat (lw * 4) = unat lw * 4"
    by (simp_all add: u32_checked_mul_def unat_word_ariths)
  have "u32_checked_mul (lw * 4) lh = Some (lw * 4 * lh)" "unat (lw * 4 * lh) = unat lw * 4 * unat lh"
    using lt(2) stride(2) by (simp_all add: u32_checked_mul_def unat_word_ariths)
  then have len: "frame_byte_len lw lh = Inr (unat lw * unat lh * 4)"
    by (simp add: frame_byte_len_def stride)
  have "normalized_layout w h degrees = Inr \<lparr>pl_width = lw, pl_height = lh, pl_stride = lw * 4\<rparr>"
    using assms(1-3) by (simp add: normalized_layout_def assms(5) stride)
  then show ?thesis using len dims stride(2) by (intro exI conjI) (assumption | simp)+
qed

lemma normalize_upright:
  assumes dims: "w \<noteq> 0" "h \<noteq> 0" "degrees \<in> {0, 90, 180, 270}" "unat w * unat h * 4 < 4294967296"
    and lay: "dimensions_after_rotation w h degrees = (lw, lh)"
    and stride: "4 * unat w \<le> stride" "stride * unat h < 18446744073709551616" "stride * unat h \<le> length source"
    and c: "length c = unat lw * unat lh * 4"
  shows "\<exists>layout px. normalize_bgra_into source w h stride degrees c = Some (Inr (layout, px))
    \<and> pl_width layout = lw \<and> pl_height layout = lh \<and> unat (pl_stride layout) = unat lw * 4
    \<and> px = packed (unat lw) (unat lh) (upright source stride degrees (unat w) (unat h))
    \<and> length px = unat lw * unat lh * 4"
proof -
  obtain layout where layout: "normalized_layout w h degrees = Inr layout" "pl_width layout = lw" "pl_height layout = lh"
    "unat (pl_stride layout) = unat lw * 4" "frame_byte_len lw lh = Inr (unat lw * unat lh * 4)"
    using normalized_layout_ok [OF dims lay] by blast
  let ?paint = "\<lambda>x y. Some (upright source stride degrees (unat w) (unat h) x y)"
  have ex: "\<exists>c'. (if degrees = 0
      then fold_opt (copy_row source stride (unat w * 4) (unat (pl_stride layout))) [0..<unat h] c
      else fold_opt (\<lambda>y. fold_opt (copy_pixel source stride degrees (unat w) (unat h) (unat (pl_stride layout)) y)
        [0..<unat lw]) [0..<unat lh] c) = Some c' \<and> paints (unat lw) (unat lh) ?paint c c'"
  proof (cases "degrees = 0")
    case True
    then have d: "lw = w" "lh = h" using lay by (simp_all add: dimensions_after_rotation_def)
    have "\<exists>c'. fold_opt (copy_row source stride (unat w * 4) (unat w * 4)) [0..<unat h] c = Some c' \<and>
      paints (unat w) (unat h) (\<lambda>x y. Some (mapped_pixel source stride (x, y))) c c'"
      using c stride unfolding d by (intro copy_rows_paint) simp_all
    then show ?thesis
      using True by (simp add: layout(4) d upright_def raw_position_def)
  next
    case False
    have "\<exists>c'. fold_opt (\<lambda>y. fold_opt (copy_pixel source stride degrees (unat w) (unat h) (unat lw * 4) y)
        [0..<unat lw]) [0..<unat lh] c = Some c'
      \<and> paints (unat lw) (unat lh) (\<lambda>x y. Some (mapped_pixel source stride (raw_position degrees (unat w) (unat h) x y))) c c'"
    proof (rule copy_pixels_paint [OF c])
      fix x y sx sy
      assume "x < unat lw" "y < unat lh" "raw_position degrees (unat w) (unat h) x y = (sx, sy)"
      then have "sx < unat w \<and> sy < unat h" using raw_position_inside [OF dims(3) lay] by blast
      then show "sy * stride + sx * 4 + 4 \<le> length source"
        using mapped_pixel_inside [OF stride(1,3)] by blast
    qed
    then show ?thesis using False by (simp add: layout(4) upright_def)
  qed
  then obtain px where px: "paints (unat lw) (unat lh) ?paint c px"
    "normalize_bgra_into source w h stride degrees c = Some (Inr (layout, px))"
    using stride c layout by (auto simp: normalize_bgra_into_def Let_def usize_checked_mul_def)
  then have "px = packed (unat lw) (unat lh) (upright source stride degrees (unat w) (unat h))"
    by (intro eq_packed) (simp_all add: paints_def)
  then show ?thesis using px layout paints_length [OF px(1)] by blast
qed

subsection \<open>The raw region of an upright one\<close>

lemma unat_diff_le: "b \<le> a \<Longrightarrow> unat (a - b) = unat a - unat (b :: u32)"
  by (simp add: unat_sub)

lemma i32_of_small:
  assumes "unat (v :: u32) < 2147483648"
  shows "\<exists>x. i32_try_from (uint v) = Some x \<and> sint x = int (unat v)"
proof -
  have v: "uint v = int (unat v)" by simp
  then have "uint v < 2147483648" "0 \<le> uint v" using assms by linarith+
  then have "sint (word_of_int (uint v) :: i32) = uint v" by (intro sint_i32_of_int) linarith+
  then show ?thesis using v by (intro exI [of _ "word_of_int (uint v)"]) (simp only: i32_try_from_eq_Some)
qed

lemma raw_selection_ok:
  assumes dims: "w \<noteq> 0" "h \<noteq> 0" "degrees \<in> {0, 90, 180, 270}" "unat w * unat h * 4 < 4294967296"
    and lay: "dimensions_after_rotation w h degrees = (lw, lh)"
    and pos: "sint (rect_x n) = int nx" "sint (rect_y n) = int ny"
    and inside: "nx + unat (rect_width n) \<le> unat lw" "ny + unat (rect_height n) \<le> unat lh"
    and size: "rect_width n \<noteq> 0" "rect_height n \<noteq> 0"
  shows "\<exists>r rx ry. raw_selection_for_rotation n w h degrees = Inr r
    \<and> sint (rect_x r) = int rx \<and> sint (rect_y r) = int ry
    \<and> rx + unat (rect_width r) \<le> unat w \<and> ry + unat (rect_height r) \<le> unat h
    \<and> rect_width r \<noteq> 0 \<and> rect_height r \<noteq> 0
    \<and> dimensions_after_rotation (rect_width r) (rect_height r) degrees = (rect_width n, rect_height n)
    \<and> (\<forall>x < unat (rect_width n). \<forall>y < unat (rect_height n).
        raw_position degrees (unat w) (unat h) (nx + x) (ny + y) =
        (case raw_position degrees (unat (rect_width r)) (unat (rect_height r)) x y of
           (sx, sy) \<Rightarrow> (rx + sx, ry + sy)))"
proof -
  obtain layout where layout: "normalized_layout w h degrees = Inr layout" "pl_width layout = lw" "pl_height layout = lh"
    and "lw \<noteq> 0" "lh \<noteq> 0"
    using normalized_layout_ok [OF dims lay] by blast
  have "0 < unat w" "0 < unat h" using dims by (simp_all add: unat_gt_0)
  then have "unat w * 1 \<le> unat w * unat h" "1 * unat h \<le> unat w * unat h"
    by (intro mult_le_mono; simp add: Suc_leI)+
  then have small: "unat w < 1073741824" "unat h < 1073741824" using dims(4) by linarith+
  then have lsmall: "unat lw < 1073741824" "unat lh < 1073741824"
    using lay by (auto simp: dimensions_after_rotation_def split: if_splits)
  define x y right bottom where xy: "x = (of_nat nx :: u32)" "y = (of_nat ny :: u32)"
    "right = x + rect_width n" "bottom = y + rect_height n"
  have ux: "unat x = nx" "unat y = ny" using inside lsmall by (simp_all add: xy unat_of_nat)
  have ur: "unat right = nx + unat (rect_width n)" "unat bottom = ny + unat (rect_height n)"
    using inside lsmall ux by (simp_all add: xy(3,4) unat_word_ariths)
  have conv: "u32_try_from (sint (rect_x n)) = Some x" "u32_try_from (sint (rect_y n)) = Some y"
    "u32_checked_add x (rect_width n) = Some right" "u32_checked_add y (rect_height n) = Some bottom"
  proof -
    have u: "uint v = int (unat v)" for v :: u32 by simp
    show "u32_try_from (sint (rect_x n)) = Some x" "u32_try_from (sint (rect_y n)) = Some y"
      unfolding u32_try_from_eq_Some pos u ux by (rule refl)+
    show "u32_checked_add x (rect_width n) = Some right" "u32_checked_add y (rect_height n) = Some bottom"
      using ux inside lsmall by (simp_all add: u32_checked_add_def xy(3,4))
  qed
  have le: "right \<le> lw" "bottom \<le> lh" using ur inside by (simp_all add: word_le_nat_alt)
  let ?raw = "if degrees = 90 then (y, h - right, rect_height n, rect_width n)
      else if degrees = 180 then (w - right, h - bottom, rect_width n, rect_height n)
      else if degrees = 270 then (w - bottom, x, rect_height n, rect_width n)
      else (x, y, rect_width n, rect_height n)"
  have found: "raw_selection_for_rotation n w h degrees = Inr \<lparr>rect_x = rx, rect_y = ry, rect_width = rw, rect_height = rh\<rparr>"
    if "?raw = (raw_x, raw_y, rw, rh)" "i32_try_from (uint raw_x) = Some rx" "i32_try_from (uint raw_y) = Some ry"
    for raw_x raw_y rw rh rx ry
    unfolding raw_selection_for_rotation_def layout conv ok_or_simps try_bind_simps that Let_def
    using size le by (simp add: layout that not_less del: try_bind_eq_Inr)
  consider "degrees = 0" | "degrees = 90" | "degrees = 180" | "degrees = 270" using dims(3) by auto
  then show ?thesis
  proof cases
    case 1
    then have d: "lw = w" "lh = h" using lay by (simp_all add: dimensions_after_rotation_def)
    obtain rx ry where r: "i32_try_from (uint x) = Some rx" "sint rx = int nx" "i32_try_from (uint y) = Some ry" "sint ry = int ny"
      using i32_of_small [of x] i32_of_small [of y] ux inside lsmall by force
    show ?thesis
      using 1 r inside size d
      by - (rule exI [of _ "\<lparr>rect_x = rx, rect_y = ry, rect_width = rect_width n, rect_height = rect_height n\<rparr>"], rule exI [of _ nx], rule exI [of _ ny],
        intro conjI,
        rule found [OF _ r(1,3)], simp_all add: rotation_simps, (auto simp: add.commute)?)
  next
    case 2
    then have d: "lw = h" "lh = w" using lay by (simp_all add: dimensions_after_rotation_def)
    have u: "unat (h - right) = unat h - (nx + unat (rect_width n))" using le d ur by (simp add: unat_diff_le)
    obtain rx ry where r: "i32_try_from (uint y) = Some rx" "sint rx = int ny"
        "i32_try_from (uint (h - right)) = Some ry" "sint ry = int (unat h - (nx + unat (rect_width n)))"
      using i32_of_small [of y] i32_of_small [of "h - right"] ux u inside lsmall small by force
    show ?thesis
      using 2 r inside size d
      by - (rule exI [of _ "\<lparr>rect_x = rx, rect_y = ry, rect_width = rect_height n, rect_height = rect_width n\<rparr>"], rule exI [of _ ny], rule exI [of _ "unat h - (nx + unat (rect_width n))"],
        intro conjI,
        rule found [OF _ r(1,3)], simp_all add: rotation_simps, (auto simp: add.commute)?)
  next
    case 3
    then have d: "lw = w" "lh = h" using lay by (simp_all add: dimensions_after_rotation_def)
    have u: "unat (w - right) = unat w - (nx + unat (rect_width n))"
        "unat (h - bottom) = unat h - (ny + unat (rect_height n))"
      using le d ur by (simp_all add: unat_diff_le)
    obtain rx ry where r: "i32_try_from (uint (w - right)) = Some rx" "sint rx = int (unat w - (nx + unat (rect_width n)))"
        "i32_try_from (uint (h - bottom)) = Some ry" "sint ry = int (unat h - (ny + unat (rect_height n)))"
      using i32_of_small [of "w - right"] i32_of_small [of "h - bottom"] u small by force
    show ?thesis
      using 3 r inside size d
      by - (rule exI [of _ "\<lparr>rect_x = rx, rect_y = ry, rect_width = rect_width n, rect_height = rect_height n\<rparr>"], rule exI [of _ "unat w - (nx + unat (rect_width n))"], rule exI [of _ "unat h - (ny + unat (rect_height n))"],
        intro conjI,
        rule found [OF _ r(1,3)], simp_all add: rotation_simps, (auto simp: add.commute)?)
  next
    case 4
    then have d: "lw = h" "lh = w" using lay by (simp_all add: dimensions_after_rotation_def)
    have u: "unat (w - bottom) = unat w - (ny + unat (rect_height n))" using le d ur by (simp add: unat_diff_le)
    obtain rx ry where r: "i32_try_from (uint (w - bottom)) = Some rx" "sint rx = int (unat w - (ny + unat (rect_height n)))"
        "i32_try_from (uint x) = Some ry" "sint ry = int nx"
      using i32_of_small [of x] i32_of_small [of "w - bottom"] ux u inside lsmall small by force
    show ?thesis
      using 4 r inside size d
      by - (rule exI [of _ "\<lparr>rect_x = rx, rect_y = ry, rect_width = rect_height n, rect_height = rect_width n\<rparr>"], rule exI [of _ "unat w - (ny + unat (rect_height n))"], rule exI [of _ nx],
        intro conjI,
        rule found [OF _ r(1,3)], simp_all add: rotation_simps, (auto simp: add.commute)?)
  qed
qed

subsection \<open>A region read through the rotation is a crop of the upright frame\<close>

text \<open>
  What Direct3D documents of the calls: a staging texture no larger than the texture can be made,
  and a box inside it is copied to its upper left corner and mapped with a pitch of at least a row.
\<close>

definition reads_texture :: "texture_reader \<Rightarrow> native_texture \<Rightarrow> (nat \<Rightarrow> nat \<Rightarrow> bytes) \<Rightarrow> bool" where
  "reads_texture reader t texel \<longleftrightarrow>
     (\<forall>w h. w \<noteq> 0 \<longrightarrow> h \<noteq> 0 \<longrightarrow> w \<le> nt_width t \<longrightarrow> h \<le> nt_height t \<longrightarrow> tr_create reader w h = Inr ())
   \<and> (\<forall>l u r b. l < r \<longrightarrow> u < b \<longrightarrow> r \<le> unat (nt_width t) \<longrightarrow> b \<le> unat (nt_height t) \<longrightarrow>
       (\<exists>pitch mapped. tr_read reader l u r b = Inr (pitch, mapped) \<and> 4 * (r - l) \<le> unat pitch
         \<and> length mapped = unat pitch * (b - u)
         \<and> (\<forall>x < r - l. \<forall>y < b - u. mapped_pixel mapped (unat pitch) (x, y) = texel (l + x) (u + y))))"

definition upright_texel :: "native_texture \<Rightarrow> (nat \<Rightarrow> nat \<Rightarrow> bytes) \<Rightarrow> nat \<Rightarrow> nat \<Rightarrow> bytes" where
  "upright_texel t texel x y =
    (case raw_position (meta_rotation_degrees (nt_metadata t)) (unat (nt_width t)) (unat (nt_height t)) x y of
       (sx, sy) \<Rightarrow> texel sx sy)"

text \<open>The upright frame of a whole texture.\<close>

definition shows_upright :: "native_texture \<Rightarrow> (nat \<Rightarrow> nat \<Rightarrow> bytes) \<Rightarrow> cpu_frame \<Rightarrow> bool" where
  "shows_upright t texel f \<longleftrightarrow> frame_ok f \<and> frame_format f = Bgra8Unorm \<and> origin f = TopLeft
     \<and> frame_color_space f = Srgb \<and> alpha f = Opaque \<and> metadata f = nt_metadata t
     \<and> stride_bytes f = width f * 4
     \<and> (width f, height f) = (rect_width (source_rect (nt_metadata t)), rect_height (source_rect (nt_metadata t)))
     \<and> (\<forall>x < unat (width f). \<forall>y < unat (height f). pixel f x y = upright_texel t texel x y)"

definition texture_ok :: "native_texture \<Rightarrow> bool" where
  "texture_ok t \<longleftrightarrow> nt_width t \<noteq> 0 \<and> nt_height t \<noteq> 0 \<and> nt_format t = DXGI_FORMAT_B8G8R8A8_UNORM
     \<and> meta_rotation_degrees (nt_metadata t) \<in> {0, 90, 180, 270}
     \<and> unat (nt_width t) * unat (nt_height t) * 4 < 4294967296
     \<and> dimensions_after_rotation (nt_width t) (nt_height t) (meta_rotation_degrees (nt_metadata t))
       = (rect_width (source_rect (nt_metadata t)), rect_height (source_rect (nt_metadata t)))"

lemma local_selection_outside:
  assumes "frame_ok f" "covers_source f" "\<not> selects f r"
  shows "\<exists>e. local_selection (source_rect (metadata f)) r = Inl e"
  using assms
  by (auto simp: local_selection_def selects_def rect_within_def rect_left_def rect_top_def)

lemma local_selection_inside:
  assumes "frame_ok f" "selects f r"
  shows "\<exists>n. local_selection (source_rect (metadata f)) r = Inr n \<and> sint (rect_x n) = int (local_x f r)
    \<and> sint (rect_y n) = int (local_y f r) \<and> rect_width n = rect_width r \<and> rect_height n = rect_height r"
proof -
  let ?s = "source_rect (metadata f)"
  note b = selects_bounds [OF assms]
  have small: "local_x f r < 1073741824" "local_y f r < 1073741824"
    using b frame_ok_small [OF assms(1)] by linarith+
  have dx: "sint (rect_x r - rect_x ?s) = int (local_x f r)"
    using b(3) small by (subst sint_diff_in_range) (simp_all add: rect_left_def)
  have dy: "sint (rect_y r - rect_y ?s) = int (local_y f r)"
    using b(4) small by (subst sint_diff_in_range) (simp_all add: rect_top_def)
  show ?thesis
    using assms(2) dx dy
    by (auto simp: local_selection_def selects_def rect_within_def rect_left_def rect_top_def)
qed

lemma u32_of_int_small:
  assumes "sint (v :: i32) = int n"
  shows "\<exists>u. u32_try_from (sint v) = Some u \<and> unat u = n"
proof -
  have "int n \<le> 4294967295" using sint_i32_le [of v] assms by linarith
  then have u: "uint (word_of_int (int n) :: u32) = int n" by (intro uint_u32_of_int) simp_all
  moreover have "uint w = int (unat w)" for w :: u32 by simp
  ultimately have "unat (word_of_int (int n) :: u32) = n" by (metis of_nat_eq_iff)
  then show ?thesis using u assms by (intro exI [of _ "word_of_int (int n)"]) (simp add: u32_try_from_eq_Some)
qed

lemma materialize_mapped_ok:
  assumes t: "texture_ok t"
    and raw: "rect_width raw \<noteq> 0" "rect_height raw \<noteq> 0" "unat (rect_width raw) \<le> unat (nt_width t)"
      "unat (rect_height raw) \<le> unat (nt_height t)"
    and dims: "dimensions_after_rotation (rect_width raw) (rect_height raw) (meta_rotation_degrees (nt_metadata t))
      = (rect_width sel, rect_height sel)"
    and mapped: "4 * unat (rect_width raw) \<le> unat pitch" "length mapped = unat pitch * unat (rect_height raw)"
  shows "\<exists>g. materialize_mapped t sel raw pitch mapped = Some (Inr g) \<and> frame_ok (gm_frame g) \<and>
    gm_frame g = \<lparr>pixels = packed (unat (rect_width sel)) (unat (rect_height sel))
          (upright mapped (unat pitch) (meta_rotation_degrees (nt_metadata t))
            (unat (rect_width raw)) (unat (rect_height raw))),
        width = rect_width sel, height = rect_height sel, stride_bytes = rect_width sel * 4,
        frame_format = Bgra8Unorm, origin = TopLeft, frame_color_space = Srgb, alpha = Opaque,
        metadata = (nt_metadata t)\<lparr>source_rect := sel,
          copy_count := sat_inc (sat_inc (copy_count (nt_metadata t))), pool_slot := None\<rparr>\<rparr>"
proof -
  let ?d = "meta_rotation_degrees (nt_metadata t)"
  have deg: "?d \<in> {0, 90, 180, 270}" using t by (simp add: texture_ok_def)
  have "unat (rect_width raw) * unat (rect_height raw) \<le> unat (nt_width t) * unat (nt_height t)"
    using raw by (intro mult_le_mono)
  then have small: "unat (rect_width raw) * unat (rect_height raw) * 4 < 4294967296"
    using t unfolding texture_ok_def by linarith
  obtain layout where layout: "normalized_layout (rect_width raw) (rect_height raw) ?d = Inr layout"
      "pl_width layout = rect_width sel" "pl_height layout = rect_height sel"
      "unat (pl_stride layout) = unat (rect_width sel) * 4"
    and bytes: "frame_byte_len (rect_width sel) (rect_height sel) = Inr (unat (rect_width sel) * unat (rect_height sel) * 4)"
    and sel: "rect_width sel \<noteq> 0" "rect_height sel \<noteq> 0"
      "unat (rect_width sel) * unat (rect_height sel) = unat (rect_width raw) * unat (rect_height raw)"
    using normalized_layout_ok [OF raw(1,2) deg small dims] by blast
  have whole: "\<exists>n. frame_byte_len (nt_width t) (nt_height t) = Inr n"
    using normalized_layout_ok [of "nt_width t" "nt_height t" 0] t
    by (fastforce simp: texture_ok_def rotation_simps)
  have tight: "u32_checked_mul (rect_width raw) 4 = Some (rect_width raw * 4)"
      "unat (rect_width raw * 4) = unat (rect_width raw) * 4"
    using mapped(1) unat_u32_le [of pitch]
    by (simp_all add: u32_checked_mul_def unat_word_ariths)
  have pitch: "\<not> pitch < rect_width raw * 4" using mapped(1) by (simp add: word_less_nat_alt tight)
  have fits: "unat pitch * unat (rect_height raw) < 18446744073709551616" by (rule u32_product_fits)
  obtain layout' px where norm: "normalize_bgra_into mapped (rect_width raw) (rect_height raw) (unat pitch) ?d
      (replicate (unat (rect_width sel) * unat (rect_height sel) * 4) 0) = Some (Inr (layout', px))"
    and px: "px = packed (unat (rect_width sel)) (unat (rect_height sel))
      (upright mapped (unat pitch) ?d (unat (rect_width raw)) (unat (rect_height raw)))"
      "length px = unat (rect_width sel) * unat (rect_height sel) * 4"
    using normalize_upright [OF raw(1,2) deg small dims mapped(1) fits, of mapped
        "replicate (unat (rect_width sel) * unat (rect_height sel) * 4) 0"] mapped(2)
    by (simp only: length_replicate) blast
  have stride: "pl_stride layout = rect_width sel * 4"
  proof -
    have "u32_checked_mul (rect_width sel) 4 = Some (pl_stride layout)"
      unfolding u32_checked_mul_eq_Some by (simp add: layout(4))
    then show ?thesis by (simp add: u32_checked_mul_def split: if_splits)
  qed
  let ?m = "(nt_metadata t)\<lparr>source_rect := sel,
          copy_count := sat_inc (sat_inc (copy_count (nt_metadata t))), pool_slot := None\<rparr>"
  let ?f = "\<lparr>pixels = px, width = rect_width sel, height = rect_height sel, stride_bytes = rect_width sel * 4,
        frame_format = Bgra8Unorm, origin = TopLeft, frame_color_space = Srgb, alpha = Opaque, metadata = ?m\<rparr>"
  have ok: "frame_ok ?f"
    using sel small px(2) layout(4) by (simp add: frame_ok_def stride ac_simps)
  then have "cpu_frame_new px (rect_width sel) (rect_height sel) (rect_width sel * 4) Bgra8Unorm TopLeft Srgb ?m = Inr ?f"
    by (simp add: cpu_frame_new_Inr)
  then show ?thesis
    using whole ok norm
    by (auto simp: materialize_mapped_def Let_def tight pitch layout bytes usize_checked_mul_def fits stride
        simp flip: px(1))
qed

text \<open>C6: Reading a selected region straight from a rotated display's texture gives, byte for byte, what
  cropping the upright frame of the whole display gives, in all four rotations; it is refused
  exactly when the crop is, and neither panics. Only the copy count differs.\<close>

theorem gpu_region_is_crop:
  assumes t: "texture_ok t" and reads: "reads_texture reader t texel" and f: "shows_upright t texel f"
  shows "case crop f selection of
      Some (Inr c) \<Rightarrow> \<exists>g. materialize_region reader t selection = Some (Inr g) \<and>
        gm_frame g = c\<lparr>metadata := (metadata c)\<lparr>copy_count := sat_inc (copy_count (metadata c))\<rparr>\<rparr>
    | Some (Inl _) \<Rightarrow> \<exists>e. materialize_region reader t selection = Some (Inl e)
    | None \<Rightarrow> False"
proof (cases "selects f selection")
  case False
  have ok: "frame_ok f" and cov: "covers_source f" and meta: "metadata f = nt_metadata t"
    using f by (simp_all add: shows_upright_def covers_source_def)
  obtain e where "crop f selection = Some (Inl e)"
    using crop_spec [OF ok, of selection] False by (auto simp: selects_def split: if_splits)
  moreover obtain e' where "local_selection (source_rect (nt_metadata t)) selection = Inl e'"
    using local_selection_outside [OF ok cov False] meta by auto
  ultimately show ?thesis by (simp add: materialize_region_def)
next
  case True
  let ?d = "meta_rotation_degrees (nt_metadata t)"
  let ?w = "unat (rect_width selection)" and ?h = "unat (rect_height selection)"
  let ?lx = "local_x f selection" and ?ly = "local_y f selection"
  have ok: "frame_ok f" and meta: "metadata f = nt_metadata t" and fmt: "frame_format f = Bgra8Unorm"
    and fw: "width f = rect_width (source_rect (nt_metadata t))" "height f = rect_height (source_rect (nt_metadata t))"
    and px: "\<And>x y. x < unat (width f) \<Longrightarrow> y < unat (height f) \<Longrightarrow> pixel f x y = upright_texel t texel x y"
    using f by (simp_all add: shows_upright_def)
  note b = selects_bounds [OF ok True]
  have sel: "rect_width selection \<noteq> 0" "rect_height selection \<noteq> 0" using True by (simp_all add: selects_def)
  obtain n where n: "local_selection (source_rect (nt_metadata t)) selection = Inr n" "sint (rect_x n) = int ?lx"
      "sint (rect_y n) = int ?ly" "rect_width n = rect_width selection" "rect_height n = rect_height selection"
    using local_selection_inside [OF ok True] meta by auto
  have tdims: "nt_width t \<noteq> 0" "nt_height t \<noteq> 0" "?d \<in> {0, 90, 180, 270}"
      "unat (nt_width t) * unat (nt_height t) * 4 < 4294967296"
      "dimensions_after_rotation (nt_width t) (nt_height t) ?d = (width f, height f)"
      "nt_format t = DXGI_FORMAT_B8G8R8A8_UNORM"
    using t by (simp_all add: texture_ok_def fw)
  obtain raw rx ry where raw: "raw_selection_for_rotation n (nt_width t) (nt_height t) ?d = Inr raw"
      "sint (rect_x raw) = int rx" "sint (rect_y raw) = int ry"
      "rx + unat (rect_width raw) \<le> unat (nt_width t)" "ry + unat (rect_height raw) \<le> unat (nt_height t)"
      "rect_width raw \<noteq> 0" "rect_height raw \<noteq> 0"
      "dimensions_after_rotation (rect_width raw) (rect_height raw) ?d = (rect_width selection, rect_height selection)"
    and at: "\<forall>x < ?w. \<forall>y < ?h. raw_position ?d (unat (nt_width t)) (unat (nt_height t)) (?lx + x) (?ly + y) =
        (case raw_position ?d (unat (rect_width raw)) (unat (rect_height raw)) x y of
           (sx, sy) \<Rightarrow> (rx + sx, ry + sy))"
    using raw_selection_ok [OF tdims(1-5) n(2,3)] b(1,2) sel n(4,5) by auto
  obtain lx ly where l: "u32_try_from (sint (rect_x raw)) = Some lx" "unat lx = rx"
      "u32_try_from (sint (rect_y raw)) = Some ly" "unat ly = ry"
    using u32_of_int_small [OF raw(2)] u32_of_int_small [OF raw(3)] by auto
  have "rx + unat (rect_width raw) < 4294967296" "ry + unat (rect_height raw) < 4294967296"
    using raw(4,5) unat_u32_le [of "nt_width t"] unat_u32_le [of "nt_height t"] by linarith+
  then have box: "box_of lx ly raw = (rx, ry, rx + unat (rect_width raw), ry + unat (rect_height raw))"
    by (simp add: box_of_def u32_saturating_add_def l unat_word_ariths)
  have pos: "0 < unat (rect_width raw)" "0 < unat (rect_height raw)" using raw(6,7) by (simp_all add: unat_gt_0)
  have created: "tr_create reader (rect_width raw) (rect_height raw) = Inr ()"
    using reads raw(4-7) unfolding reads_texture_def by (simp add: word_le_nat_alt)
  have "rx < rx + unat (rect_width raw)" "ry < ry + unat (rect_height raw)" using pos by simp_all
  then obtain pitch mapped where read: "tr_read reader rx ry (rx + unat (rect_width raw)) (ry + unat (rect_height raw))
        = Inr (pitch, mapped)" "4 * unat (rect_width raw) \<le> unat pitch"
      "length mapped = unat pitch * unat (rect_height raw)"
      "\<forall>x < unat (rect_width raw). \<forall>y < unat (rect_height raw).
         mapped_pixel mapped (unat pitch) (x, y) = texel (rx + x) (ry + y)"
    using reads raw(4,5) unfolding reads_texture_def by (metis add_diff_cancel_left')
  have within: "unat (rect_width raw) \<le> unat (nt_width t)" "unat (rect_height raw) \<le> unat (nt_height t)"
    using raw(4,5) by simp_all
  obtain g where g: "materialize_mapped t selection raw pitch mapped = Some (Inr g)" and
    gf: "gm_frame g = \<lparr>pixels = packed ?w ?h (upright mapped (unat pitch) ?d (unat (rect_width raw)) (unat (rect_height raw))),
        width = rect_width selection, height = rect_height selection, stride_bytes = rect_width selection * 4,
        frame_format = Bgra8Unorm, origin = TopLeft, frame_color_space = Srgb, alpha = Opaque,
        metadata = (nt_metadata t)\<lparr>source_rect := selection,
          copy_count := sat_inc (sat_inc (copy_count (nt_metadata t))), pool_slot := None\<rparr>\<rparr>"
    using materialize_mapped_ok [OF t raw(6,7) within raw(8) read(2,3)] by blast
  have run: "materialize_region reader t selection = Some (Inr g)"
    by (simp add: materialize_region_def n(1) tdims(6) raw(1) created l(1,3) box read(1) g)
  have "pixels (cropped f selection) = packed ?w ?h
      (upright mapped (unat pitch) ?d (unat (rect_width raw)) (unat (rect_height raw)))"
  proof (rule eq_packed)
    show "length (pixels (cropped f selection)) = ?w * ?h * 4"
      using length_cropped_row [OF ok True] fmt by (simp add: cropped_def) (subst length_concat_rows, auto)
    fix x y assume xy: "x < ?w" "y < ?h"
    obtain sx sy where s: "raw_position ?d (unat (rect_width raw)) (unat (rect_height raw)) x y = (sx, sy)" by fastforce
    have in_raw: "sx < unat (rect_width raw)" "sy < unat (rect_height raw)"
      using raw_position_inside [OF tdims(3) raw(8) xy s] by blast+
    have "bgra_at ?w (pixels (cropped f selection)) x y = pixel (cropped f selection) x y"
      using crop_stride(2) [OF ok True] fmt by (simp add: bgra_at_def pixel_def cropped_def add_mult_distrib mult.assoc)
    also have "\<dots> = pixel f (?lx + x) (?ly + y)" by (rule pixel_cropped [OF ok True xy])
    also have "\<dots> = upright_texel t texel (?lx + x) (?ly + y)" using xy b(1,2) by (intro px) simp_all
    also have "\<dots> = texel (rx + sx) (ry + sy)" using at xy s by (simp add: upright_texel_def)
    also have "\<dots> = mapped_pixel mapped (unat pitch) (sx, sy)" using read(4) in_raw by simp
    finally show "bgra_at ?w (pixels (cropped f selection)) x y =
        upright mapped (unat pitch) ?d (unat (rect_width raw)) (unat (rect_height raw)) x y"
      by (simp add: upright_def s)
  qed
  then have "gm_frame g = (cropped f selection)\<lparr>metadata := (metadata (cropped f selection))
      \<lparr>copy_count := sat_inc (copy_count (metadata (cropped f selection)))\<rparr>\<rparr>"
    using f by (simp add: gf cropped_def shows_upright_def)
  then show ?thesis using run crop_inside [OF ok True] by simp
qed

text \<open>A panel of two pixels side by side, shown upright as two pixels above each other.\<close>

definition plain_texel :: "nat \<Rightarrow> nat \<Rightarrow> bytes" where
  "plain_texel x y = [of_nat x, of_nat y, 0, 255]"

definition plain_reader :: texture_reader where
  "plain_reader = \<lparr>tr_create = \<lambda>w h. Inr (),
     tr_read = \<lambda>l u r b. Inr (of_nat (4 * (r - l)), packed (r - l) (b - u) (\<lambda>x y. plain_texel (l + x) (u + y)))\<rparr>"

definition turned_texture :: native_texture where
  "turned_texture = \<lparr>nt_width = 2, nt_height = 1, nt_format = DXGI_FORMAT_B8G8R8A8_UNORM,
     nt_metadata = (sample_metadata \<lparr>rect_x = 0, rect_y = 0, rect_width = 1, rect_height = 2\<rparr>)
       \<lparr>meta_rotation_degrees := 90\<rparr>\<rparr>"

definition upright_frame :: cpu_frame where
  "upright_frame = \<lparr>pixels = packed 1 2 (upright_texel turned_texture plain_texel), width = 1, height = 2,
     stride_bytes = 4, frame_format = Bgra8Unorm, origin = TopLeft, frame_color_space = Srgb, alpha = Opaque,
     metadata = nt_metadata turned_texture\<rparr>"

definition lower_pixel :: rect where
  "lower_pixel = \<lparr>rect_x = 0, rect_y = 1, rect_width = 1, rect_height = 1\<rparr>"

lemma plain_box:
  fixes l u :: nat
  defines "box \<equiv> \<lambda>w h. packed w h (\<lambda>x y. plain_texel (l + x) (u + y))"
  shows "length (box w h) = 4 * w * h"
    and "x < w \<Longrightarrow> y < h \<Longrightarrow> mapped_pixel (box w h) (4 * w) (x, y) = plain_texel (l + x) (u + y)"
proof -
  have "length (box w h) = w * h * 4" unfolding box_def by (rule length_packed) (simp add: plain_texel_def)
  then show "length (box w h) = 4 * w * h" by simp
  assume "x < w" "y < h"
  then have "bgra_at w (box w h) x y = plain_texel (l + x) (u + y)"
    unfolding box_def by (intro bgra_at_packed) (simp_all add: plain_texel_def)
  moreover have "y * (4 * w) + x * 4 = (y * w + x) * 4" by simp
  ultimately show "mapped_pixel (box w h) (4 * w) (x, y) = plain_texel (l + x) (u + y)"
    by (simp only: mapped_pixel_def bgra_at_def fst_conv snd_conv)
qed

lemma plain_reads: "reads_texture plain_reader turned_texture plain_texel"
  unfolding reads_texture_def
proof (intro conjI allI impI)
  fix l u r b :: nat
  assume "l < r" "u < b" "r \<le> unat (nt_width turned_texture)"
  then have "4 * (r - l) < 2 ^ LENGTH(32)" by (simp add: turned_texture_def)
  then have pitch: "unat (of_nat (4 * (r - l)) :: u32) = 4 * (r - l)" by (simp only: unat_of_nat mod_less)
  show "\<exists>pitch mapped. tr_read plain_reader l u r b = Inr (pitch, mapped) \<and> 4 * (r - l) \<le> unat pitch
      \<and> length mapped = unat pitch * (b - u)
      \<and> (\<forall>x < r - l. \<forall>y < b - u. mapped_pixel mapped (unat pitch) (x, y) = plain_texel (l + x) (u + y))"
    by (intro exI [of _ "of_nat (4 * (r - l))"] exI [of _ "packed (r - l) (b - u) (\<lambda>x y. plain_texel (l + x) (u + y))"]
        conjI allI impI) (simp_all only: pitch plain_reader_def texture_reader.simps plain_box order_refl)
qed (simp add: plain_reader_def)

lemma turned_texture_ok: "texture_ok turned_texture"
  by (simp add: texture_ok_def turned_texture_def sample_metadata_def rotation_simps)

lemma length_upright_texel: "length (upright_texel turned_texture plain_texel x y) = 4"
  by (simp add: upright_texel_def plain_texel_def split: prod.split)

lemma upright_frame_shows: "shows_upright turned_texture plain_texel upright_frame"
proof -
  have len: "length (packed 1 2 (upright_texel turned_texture plain_texel)) = 8"
    using length_packed [of 1 2 "upright_texel turned_texture plain_texel"] length_upright_texel by simp
  have "pixel upright_frame x y = upright_texel turned_texture plain_texel x y" if "x < 1" "y < 2" for x y
    using bgra_at_packed [of 1 2 "upright_texel turned_texture plain_texel" x y] length_upright_texel that
    by (simp add: pixel_def bgra_at_def upright_frame_def add_mult_distrib)
  then show ?thesis
    using len by (simp add: shows_upright_def frame_ok_def) (simp add: upright_frame_def turned_texture_def sample_metadata_def)
qed

lemma gpu_region_is_crop_witness:
  "\<exists>g c. crop upright_frame lower_pixel = Some (Inr c)
    \<and> materialize_region plain_reader turned_texture lower_pixel = Some (Inr g)
    \<and> pixels (gm_frame g) = pixels c"
proof -
  have "selects upright_frame lower_pixel"
    by (simp add: selects_def covers_source_def upright_frame_def turned_texture_def sample_metadata_def lower_pixel_def
        rect_within_def edge_defs)
  then have c: "crop upright_frame lower_pixel = Some (Inr (cropped upright_frame lower_pixel))"
    using upright_frame_shows by (intro crop_inside) (simp_all add: shows_upright_def)
  from gpu_region_is_crop [OF turned_texture_ok plain_reads upright_frame_shows, of lower_pixel]
  show ?thesis by (auto simp: c)
qed

end
