(* ===== verification/Cursor.thy ===== *)
theory Cursor
  imports Frame
begin

section \<open>The pointer: its shape, its cache and drawing it into a frame\<close>

text \<open>
  \<open>captastic-windows/src/cursor.rs\<close>. A blend takes the four bytes of the target pixel and
  answers the new four, as the slice \<open>target\<close> is always four bytes long. The frame is a flat
  byte list; \<open>get_mut\<close> past its end skips the pixel, so \<open>composite_pointer\<close> cannot panic.
\<close>

datatype pointer_shape_kind = Color | Monochrome | MaskedColor

record pointer_shape =
  ps_kind :: pointer_shape_kind
  ps_width :: u32
  ps_height :: u32
  ps_pitch :: u32
  ps_pixels :: bytes

record pointer_position =
  pp_x :: i32
  pp_y :: i32
  pp_visible :: bool

record pointer_cache =
  pc_shape :: "pointer_shape option"
  pc_position :: "pointer_position option"

definition pc_default :: pointer_cache where
  "pc_default = \<lparr>pc_shape = None, pc_position = None\<rparr>"

definition pc_store :: "pointer_shape \<Rightarrow> pointer_cache \<Rightarrow> pointer_cache" where
  "pc_store shape c = c\<lparr>pc_shape := Some shape\<rparr>"

definition pc_store_position :: "i32 \<Rightarrow> i32 \<Rightarrow> bool \<Rightarrow> pointer_cache \<Rightarrow> pointer_cache" where
  "pc_store_position x y visible c = c\<lparr>pc_position := Some \<lparr>pp_x = x, pp_y = y, pp_visible = visible\<rparr>\<rparr>"

record pointer_sample =
  sample_x :: i32
  sample_y :: i32
  sample_shape :: pointer_shape

definition offset_row :: "i32 \<Rightarrow> u32 \<Rightarrow> u32 \<Rightarrow> nat option" where
  "offset_row from offset limit =
    (let position = sint from + uint offset
     in if position < 0 \<or> uint limit \<le> position then None else Some (nat position))"

definition source_pixel :: "pointer_shape \<Rightarrow> u32 \<Rightarrow> u32 \<Rightarrow> bytes option" where
  "source_pixel shape row column =
    (let start = unat row * unat (ps_pitch shape) + unat column * 4
     in slice start (start + 4) (ps_pixels shape))"

text \<open>\<open>f\<close> on the three colour bytes of the target, each with its byte of the shape's pixel.\<close>

definition blend_channels :: "(u8 \<Rightarrow> u8 \<Rightarrow> u8) \<Rightarrow> bytes \<Rightarrow> bytes \<Rightarrow> bytes" where
  "blend_channels f px target = map2 f (take 3 px) (take 3 target) @ drop 3 target"

definition blend_color :: "pointer_shape \<Rightarrow> u32 \<Rightarrow> u32 \<Rightarrow> bytes \<Rightarrow> bytes" where
  "blend_color shape row column target =
    (case source_pixel shape row column of
       None \<Rightarrow> target
     | Some px \<Rightarrow>
       let opacity = unat (px ! 3) in
       if opacity = 0 then target
       else if opacity = 255 then take 3 px @ drop 3 target
       else blend_channels (\<lambda>source existing.
         of_nat ((unat source * opacity + unat existing * (255 - opacity)) div 255)) px target)"

definition blend_masked_color :: "pointer_shape \<Rightarrow> u32 \<Rightarrow> u32 \<Rightarrow> bytes \<Rightarrow> bytes" where
  "blend_masked_color shape row column target =
    (case source_pixel shape row column of
       None \<Rightarrow> target
     | Some px \<Rightarrow>
       if px ! 3 = 0 then take 3 px @ drop 3 target
       else blend_channels (\<lambda>source existing. xor existing source) px target)"

definition mask_bit :: "pointer_shape \<Rightarrow> u32 \<Rightarrow> u32 \<Rightarrow> bool option" where
  "mask_bit shape row column =
    (let byte_index = unat row * unat (ps_pitch shape) + unat column div 8;
         shift = 7 - unat column mod 8
     in if byte_index < length (ps_pixels shape)
        then Some (and (drop_bit shift (ps_pixels shape ! byte_index)) 1 = 1) else None)"

definition blend_monochrome :: "pointer_shape \<Rightarrow> u32 \<Rightarrow> u32 \<Rightarrow> bytes \<Rightarrow> bytes" where
  "blend_monochrome shape row column target =
    (case (mask_bit shape row column, mask_bit shape (row + ps_height shape) column) of
       (Some False, Some False) \<Rightarrow> replicate 3 0 @ drop 3 target
     | (Some False, Some True) \<Rightarrow> replicate 3 255 @ drop 3 target
     | (Some True, Some False) \<Rightarrow> target
     | (Some True, Some True) \<Rightarrow> map not (take 3 target) @ drop 3 target
     | _ \<Rightarrow> target)"

definition blend_pixel :: "pointer_shape \<Rightarrow> u32 \<Rightarrow> u32 \<Rightarrow> bytes \<Rightarrow> bytes" where
  "blend_pixel shape = (case ps_kind shape of
     Color \<Rightarrow> blend_color shape | Monochrome \<Rightarrow> blend_monochrome shape | MaskedColor \<Rightarrow> blend_masked_color shape)"

definition composite_column ::
  "u32 \<Rightarrow> nat \<Rightarrow> pointer_sample \<Rightarrow> u32 \<Rightarrow> nat \<Rightarrow> nat \<Rightarrow> bytes \<Rightarrow> bytes" where
  "composite_column frame_width stride pointer row destination_y column destination =
    (case offset_row (sample_x pointer) (of_nat column) frame_width of
       None \<Rightarrow> destination
     | Some destination_x \<Rightarrow>
       let start = destination_y * stride + destination_x * 4 in
       case slice start (start + 4) destination of
         None \<Rightarrow> destination
       | Some target \<Rightarrow> take start destination
           @ blend_pixel (sample_shape pointer) row (of_nat column) target @ drop (start + 4) destination)"

definition composite_row :: "u32 \<Rightarrow> u32 \<Rightarrow> nat \<Rightarrow> pointer_sample \<Rightarrow> nat \<Rightarrow> bytes \<Rightarrow> bytes" where
  "composite_row frame_width frame_height stride pointer row destination =
    (case offset_row (sample_y pointer) (of_nat row) frame_height of
       None \<Rightarrow> destination
     | Some destination_y \<Rightarrow> fold (composite_column frame_width stride pointer (of_nat row) destination_y)
         [0..<unat (ps_width (sample_shape pointer))] destination)"

definition composite_pointer ::
  "bytes \<Rightarrow> u32 \<Rightarrow> u32 \<Rightarrow> nat \<Rightarrow> pointer_sample \<Rightarrow> cursor_capture \<times> bytes" where
  "composite_pointer destination frame_width frame_height stride pointer =
    (let shape = sample_shape pointer in
     if ps_width shape = 0 \<or> ps_height shape = 0 then (Absent ShapeNotYetKnown, destination)
     else (Composited (sample_x pointer) (sample_y pointer) (ps_width shape) (ps_height shape),
       fold (composite_row frame_width frame_height stride pointer) [0..<unat (ps_height shape)] destination))"

subsection \<open>What a shape does to one pixel\<close>

text \<open>
  The formats as their documentation describes them: straight alpha, the AND and XOR masks of a
  monochrome pointer, and a masked pixel that replaces or inverts. A shape that is cut short
  leaves the pixels it has no bytes for.
\<close>

definition over_channel :: "nat \<Rightarrow> u8 \<Rightarrow> u8 \<Rightarrow> u8" where
  "over_channel share source existing = of_nat ((unat source * share + unat existing * (255 - share)) div 255)"

definition raster_op :: "bool \<Rightarrow> bool \<Rightarrow> u8 \<Rightarrow> u8" where
  "raster_op and_bit xor_bit existing =
    xor (and existing (if and_bit then 255 else 0)) (if xor_bit then 255 else 0)"

fun pointer_over :: "pointer_shape \<Rightarrow> nat \<Rightarrow> nat \<Rightarrow> bytes \<Rightarrow> bytes" where
  "pointer_over shape row column [b, g, r, a] =
    (let start = row * unat (ps_pitch shape) + column * 4; bytes = take 4 (drop start (ps_pixels shape));
         bit = (\<lambda>row. bit (ps_pixels shape ! (row * unat (ps_pitch shape) + column div 8)) (7 - column mod 8));
         has = (\<lambda>row. row * unat (ps_pitch shape) + column div 8 < length (ps_pixels shape))
     in case ps_kind shape of
          Color \<Rightarrow> (case bytes of
            [sb, sg, sr, sa] \<Rightarrow> [over_channel (unat sa) sb b, over_channel (unat sa) sg g, over_channel (unat sa) sr r, a]
          | _ \<Rightarrow> [b, g, r, a])
        | MaskedColor \<Rightarrow> (case bytes of
            [sb, sg, sr, sa] \<Rightarrow> if sa = 0 then [sb, sg, sr, a] else [xor b sb, xor g sg, xor r sr, a]
          | _ \<Rightarrow> [b, g, r, a])
        | Monochrome \<Rightarrow>
            if has row \<and> has (row + unat (ps_height shape))
            then map (raster_op (bit row) (bit (row + unat (ps_height shape)))) [b, g, r] @ [a]
            else [b, g, r, a])"
| "pointer_over shape row column target = target"

lemma over_channel_ends [simp]:
  "over_channel 0 s e = e" "over_channel 255 s e = s"
  by (simp_all add: over_channel_def)

lemma raster_op_cases [simp]:
  "raster_op False False e = 0" "raster_op False True e = 255"
  "raster_op True False e = e" "raster_op True True e = not e"
proof -
  have all: "(255 :: u8) = - 1" by simp
  show "raster_op False False e = 0" "raster_op False True e = 255"
    by (simp_all add: raster_op_def)
  show "raster_op True False e = e" unfolding raster_op_def if_True if_False all by simp
  show "raster_op True True e = not e" unfolding raster_op_def if_True all by simp
qed

lemma four_bytes: "length p = 4 \<longleftrightarrow> (\<exists>b g r a. p = [b, g, r, a])"
  by (auto simp: length_Suc_conv numeral_eq_Suc)

lemma slice_pixel:
  "slice start (start + 4) buf = (if start + 4 \<le> length buf then Some (take 4 (drop start buf)) else None)"
  by (simp add: slice_def)

lemma pixel_missing: "\<not> start + 4 \<le> length buf \<Longrightarrow> length (take 4 (drop start buf)) \<noteq> 4"
  by simp

text \<open>A monochrome shape's buffer holds both masks, so its height is half of a \<open>u32\<close>.\<close>

definition shape_ok :: "pointer_shape \<Rightarrow> bool" where
  "shape_ok shape \<longleftrightarrow> (ps_kind shape = Monochrome \<longrightarrow> 2 * unat (ps_height shape) < 4294967296)"

lemma case_four_bytes:
  "length p \<noteq> 4 \<Longrightarrow> (case p of [a, b, c, d] \<Rightarrow> f a b c d | _ \<Rightarrow> e) = e"
  by (auto split: list.splits)

lemma replicate_three: "replicate 3 x = [x, x, x]"
  by (simp add: numeral_3_eq_3)

lemma masked_bit: "and (drop_bit n (w :: u8)) 1 = 1 \<longleftrightarrow> bit w n"
  by (simp add: and_one_eq bit_iff_odd_drop_bit odd_iff_mod_2_eq_one)

lemma unat_of_nat_below: "i < unat (n :: u32) \<Longrightarrow> unat (of_nat i :: u32) = i"
  using unat_u32_le [of n] by (simp add: unat_of_nat take_bit_nat_eq_self)

lemma blend_pixel_over:
  assumes ok: "shape_ok shape" and row: "row < unat (ps_height shape)" and column: "column < unat (ps_width shape)"
    and target: "length target = 4"
  shows "blend_pixel shape (of_nat row) (of_nat column) target = pointer_over shape row column target"
proof -
  obtain b g r a where t: "target = [b, g, r, a]" using target by (auto simp: four_bytes)
  note at = unat_of_nat_below [OF row] unat_of_nat_below [OF column]
  let ?start = "row * unat (ps_pitch shape) + column * 4"
  let ?p = "take 4 (drop ?start (ps_pixels shape))"
  have source: "source_pixel shape (of_nat row) (of_nat column) =
      (if ?start + 4 \<le> length (ps_pixels shape) then Some ?p else None)"
    by (simp add: source_pixel_def at slice_pixel Let_def)
  show ?thesis
  proof (cases "ps_kind shape")
    case Color
    show ?thesis
    proof (cases "?start + 4 \<le> length (ps_pixels shape)")
      case True
      then have "length ?p = 4" by simp
      then obtain sb sg sr sa where p: "?p = [sb, sg, sr, sa]" unfolding four_bytes by blast
      have ends: "unat sa = 0 \<or> unat sa = 255 \<or> (unat sa \<noteq> 0 \<and> unat sa \<noteq> 255)" by blast
      then show ?thesis
        using True by (auto simp: blend_pixel_def Color blend_color_def source p t Let_def blend_channels_def
            over_channel_def)
    next
      case False
      then show ?thesis
        by (simp add: blend_pixel_def Color blend_color_def source t Let_def case_four_bytes)
    qed
  next
    case MaskedColor
    show ?thesis
    proof (cases "?start + 4 \<le> length (ps_pixels shape)")
      case True
      then have "length ?p = 4" by simp
      then obtain sb sg sr sa where p: "?p = [sb, sg, sr, sa]" unfolding four_bytes by blast
      show ?thesis
        using True by (simp add: blend_pixel_def MaskedColor blend_masked_color_def source p t Let_def blend_channels_def)
    next
      case False
      then show ?thesis
        by (simp add: blend_pixel_def MaskedColor blend_masked_color_def source t Let_def case_four_bytes)
    qed
  next
    case Monochrome
    have "row + unat (ps_height shape) < 4294967296" using ok row by (simp add: shape_ok_def Monochrome)
    then have below: "unat (of_nat row + ps_height shape) = row + unat (ps_height shape)"
      by (simp add: unat_word_ariths at take_bit_nat_eq_self)
    show ?thesis
      by (simp add: blend_pixel_def Monochrome blend_monochrome_def mask_bit_def masked_bit at below t Let_def
          replicate_three split: bool.split)
  qed
qed

lemma length_pointer_over:
  assumes "length target = 4"
  shows "length (pointer_over shape row column target) = 4"
proof -
  obtain b g r a where t: "target = [b, g, r, a]" using assms by (auto simp: four_bytes)
  show ?thesis
    unfolding t pointer_over.simps Let_def
    by (cases "ps_kind shape") (simp_all split: list.split)
qed

subsection \<open>Each pixel of the frame is visited once\<close>

text \<open>A fold in which only one step touches what is looked at.\<close>

lemma fold_visits_once:
  assumes step: "\<And>i s. i \<in> set is \<Longrightarrow> P s \<Longrightarrow> P (step i s)"
    and look: "\<And>i s. i \<in> set is \<Longrightarrow> P s \<Longrightarrow> look (step i s) = (if int i = k then f (look s) else look s)"
    and dist: "distinct is" and s: "P s"
  shows "P (fold step is s) \<and> look (fold step is s) = (if k \<in> int ` set is then f (look s) else look s)"
  using assms
proof (induction "is" arbitrary: s)
  case (Cons i "is")
  have "P (fold step is (step i s)) \<and>
      look (fold step is (step i s)) = (if k \<in> int ` set is then f (look (step i s)) else look (step i s))"
    by (rule Cons.IH) (use Cons.prems in auto)
  then show ?case using Cons.prems(2) [of i s] Cons.prems(3,4) by auto
qed simp

lemma offset_row_eq:
  assumes "i < unat (n :: u32)"
  shows "offset_row from (of_nat i) limit =
    (let at = sint from + int i in if 0 \<le> at \<and> at < uint limit then Some (nat at) else None)"
proof -
  have "uint (of_nat i :: u32) = int (unat (of_nat i :: u32))" by (rule uint_nat)
  then have "uint (of_nat i :: u32) = int i" unfolding unat_of_nat_below [OF assms] .
  then show ?thesis by (simp add: offset_row_def Let_def not_le)
qed

lemma int_less_uint: "int n < uint (w :: u32) \<longleftrightarrow> n < unat w"
  by (metis of_nat_less_iff uint_nat)

lemma in_range_uint: "r \<in> int ` set [0..<unat (n :: u32)] \<longleftrightarrow> 0 \<le> r \<and> r < uint n"
  by (auto simp: image_iff int_less_uint nat_less_iff intro!: bexI [of _ "nat r"])

text \<open>Where the pixel \<open>(cx, cy)\<close> of a frame lies in the shape, if it does.\<close>

definition shape_column :: "pointer_sample \<Rightarrow> nat \<Rightarrow> int" where
  "shape_column pointer cx = int cx - sint (sample_x pointer)"

definition shape_row :: "pointer_sample \<Rightarrow> nat \<Rightarrow> int" where
  "shape_row pointer cy = int cy - sint (sample_y pointer)"

lemma frame_index_less: "x < w \<Longrightarrow> y < h \<Longrightarrow> (y * w + x) * 4 + 4 \<le> w * h * (4 :: nat)"
proof -
  assume x: "x < w" and y: "y < h"
  have "Suc y * w \<le> h * w" using y by (intro mult_le_mono1) simp
  then show ?thesis using x by (simp add: mult.commute)
qed

lemma frame_index_inj:
  assumes "x < w" "x' < w" "y * w + x = y' * w + (x' :: nat)"
  shows "x = x' \<and> y = y'"
  using assms by (metis add.commute div_mult_self1 div_less add_0 mod_mult_self1 mod_less less_nat_zero_code)

text \<open>Replacing the four bytes of one pixel.\<close>

lemma bgra_at_replaced:
  assumes c: "length c = w * h * 4" and p: "length p = 4" and x: "x < w" "y < h" and cx: "cx < w" "cy < h"
  defines "c' \<equiv> take ((y * w + x) * 4) c @ p @ drop ((y * w + x) * 4 + 4) c"
  shows "length c' = w * h * 4 \<and> bgra_at w c' cx cy = (if cx = x \<and> cy = y then p else bgra_at w c cx cy)"
proof -
  have "put_bytes ((y * w + x) * 4) p c = Some c'"
    using frame_index_less [OF x] c p by (simp add: put_bytes_def c'_def)
  then show ?thesis using put_bytes_pixel [OF c p x] cx by auto
qed

lemma composite_column_pixel:
  assumes c: "length c = unat w * unat h * 4" and ok: "shape_ok (sample_shape pointer)"
    and row: "row < unat (ps_height (sample_shape pointer))"
    and column: "column < unat (ps_width (sample_shape pointer))"
    and dy: "dy < unat h" and cx: "cx < unat w" "cy < unat h"
  shows "length (composite_column w (unat w * 4) pointer (of_nat row) dy column c) = unat w * unat h * 4 \<and>
    bgra_at (unat w) (composite_column w (unat w * 4) pointer (of_nat row) dy column c) cx cy =
      (if int column = shape_column pointer cx
       then if cy = dy then pointer_over (sample_shape pointer) row column (bgra_at (unat w) c cx cy)
            else bgra_at (unat w) c cx cy
       else bgra_at (unat w) c cx cy)"
proof (cases "offset_row (sample_x pointer) (of_nat column) w")
  case None
  then have "\<not> (0 \<le> sint (sample_x pointer) + int column \<and> sint (sample_x pointer) + int column < uint w)"
    by (simp add: offset_row_eq [OF column] Let_def split: if_splits)
  then have "int column \<noteq> shape_column pointer cx" using cx(1) by (auto simp: shape_column_def simp flip: int_less_uint)
  then show ?thesis using c by (simp add: composite_column_def None)
next
  case (Some dx)
  then have at: "int dx = sint (sample_x pointer) + int column" "dx < unat w"
    by (auto simp: offset_row_eq [OF column] Let_def simp flip: int_less_uint split: if_splits)
  let ?start = "(dy * unat w + dx) * 4"
  have start: "dy * (unat w * 4) + dx * 4 = ?start" by simp
  have fits: "?start + 4 \<le> length c" using frame_index_less [OF at(2) dy] c by simp
  let ?t = "bgra_at (unat w) c dx dy"
  have t: "take 4 (drop ?start c) = ?t" by (simp add: bgra_at_def)
  have len: "length ?t = 4" using fits by (simp add: bgra_at_def)
  let ?p = "pointer_over (sample_shape pointer) row column ?t"
  have run: "composite_column w (unat w * 4) pointer (of_nat row) dy column c =
      take ?start c @ ?p @ drop (?start + 4) c"
    using fits by (simp only: composite_column_def Some option.case start Let_def slice_pixel if_True t
        blend_pixel_over [OF ok row column len])
  have "int column = shape_column pointer cx \<longleftrightarrow> cx = dx" using at(1) by (auto simp: shape_column_def)
  then show ?thesis
    unfolding run using bgra_at_replaced [OF c length_pointer_over [OF len] at(2) dy cx] by auto
qed

lemma composite_row_pixel:
  assumes c: "length c = unat w * unat h * 4" and ok: "shape_ok (sample_shape pointer)"
    and row: "row < unat (ps_height (sample_shape pointer))" and cx: "cx < unat w" "cy < unat h"
  defines "column \<equiv> shape_column pointer cx"
  shows "length (composite_row w h (unat w * 4) pointer row c) = unat w * unat h * 4 \<and>
    bgra_at (unat w) (composite_row w h (unat w * 4) pointer row c) cx cy =
      (if int row = shape_row pointer cy
       then if 0 \<le> column \<and> column < int (unat (ps_width (sample_shape pointer)))
            then pointer_over (sample_shape pointer) row (nat column) (bgra_at (unat w) c cx cy)
            else bgra_at (unat w) c cx cy
       else bgra_at (unat w) c cx cy)"
proof (cases "offset_row (sample_y pointer) (of_nat row) h")
  case None
  then have "\<not> (0 \<le> sint (sample_y pointer) + int row \<and> sint (sample_y pointer) + int row < uint h)"
    by (simp add: offset_row_eq [OF row] Let_def split: if_splits)
  then have "int row \<noteq> shape_row pointer cy" using cx(2) by (auto simp: shape_row_def simp flip: int_less_uint)
  then show ?thesis using c by (simp add: composite_row_def None)
next
  case (Some dy)
  then have at: "int dy = sint (sample_y pointer) + int row" "dy < unat h"
    by (auto simp: offset_row_eq [OF row] Let_def simp flip: int_less_uint split: if_splits)
  let ?is = "[0..<unat (ps_width (sample_shape pointer))]"
  let ?f = "\<lambda>t. if cy = dy then pointer_over (sample_shape pointer) row (nat column) t else t"
  have "length (fold (composite_column w (unat w * 4) pointer (of_nat row) dy) ?is c) = unat w * unat h * 4 \<and>
      bgra_at (unat w) (fold (composite_column w (unat w * 4) pointer (of_nat row) dy) ?is c) cx cy =
        (if column \<in> int ` set ?is then ?f (bgra_at (unat w) c cx cy) else bgra_at (unat w) c cx cy)"
  proof (rule fold_visits_once [where P = "\<lambda>c. length c = unat w * unat h * 4"])
    fix i and s :: bytes assume i: "i \<in> set ?is" and s: "length s = unat w * unat h * 4"
    note one = composite_column_pixel [OF s ok row _ at(2) cx, of i]
    have column: "int i = column \<Longrightarrow> nat column = i" by simp
    show "length (composite_column w (unat w * 4) pointer (of_nat row) dy i s) = unat w * unat h * 4"
      using one i by simp
    show "bgra_at (unat w) (composite_column w (unat w * 4) pointer (of_nat row) dy i s) cx cy =
        (if int i = column then ?f (bgra_at (unat w) s cx cy) else bgra_at (unat w) s cx cy)"
      using one i column by (auto simp: column_def)
  qed (use c in simp_all)
  moreover have "column \<in> int ` set ?is \<longleftrightarrow> 0 \<le> column \<and> column < int (unat (ps_width (sample_shape pointer)))"
    by (metis in_range_uint uint_nat)
  moreover have "int row = shape_row pointer cy \<longleftrightarrow> cy = dy" using at(1) by (auto simp: shape_row_def)
  ultimately show ?thesis by (simp add: composite_row_def Some)
qed

lemma fold_stays: "(\<And>i. i \<in> set is \<Longrightarrow> f i s = s) \<Longrightarrow> fold f is s = s"
  by (induction "is") auto

lemma composite_nothing: "composite_row w h stride pointer i [] = []"
  by (auto simp: composite_row_def composite_column_def slice_pixel Let_def fold_stays split: option.split)

text \<open>C7: A pointer drawn into a frame changes exactly the pixels under its rectangle, wherever the
  rectangle lies, each once and as its format says: colour over by straight alpha, AND and XOR masks
  for a monochrome shape, replaced or inverted for a masked one; opacity bytes stay as they are.\<close>

theorem pointer_drawn:
  assumes px: "length px = unat w * unat h * 4" and ok: "shape_ok (sample_shape pointer)"
  shows "case composite_pointer px w h (unat w * 4) pointer of (cursor, px') \<Rightarrow>
    let shape = sample_shape pointer in
    cursor = (if ps_width shape = 0 \<or> ps_height shape = 0 then Absent ShapeNotYetKnown
      else Composited (sample_x pointer) (sample_y pointer) (ps_width shape) (ps_height shape)) \<and>
    length px' = length px \<and>
    (\<forall>cx < unat w. \<forall>cy < unat h. bgra_at (unat w) px' cx cy =
      (let column = int cx - sint (sample_x pointer); row = int cy - sint (sample_y pointer)
       in if 0 \<le> column \<and> column < uint (ps_width shape) \<and> 0 \<le> row \<and> row < uint (ps_height shape)
          then pointer_over shape (nat row) (nat column) (bgra_at (unat w) px cx cy)
          else bgra_at (unat w) px cx cy))"
proof (cases "ps_width (sample_shape pointer) = 0 \<or> ps_height (sample_shape pointer) = 0")
  case True
  then show ?thesis by (auto simp: composite_pointer_def Let_def)
next
  case False
  let ?is = "[0..<unat (ps_height (sample_shape pointer))]"
  let ?px' = "fold (composite_row w h (unat w * 4) pointer) ?is px"
  have each: "length ?px' = unat w * unat h * 4 \<and> bgra_at (unat w) ?px' cx cy =
      (if shape_row pointer cy \<in> int ` set ?is
       then if 0 \<le> shape_column pointer cx \<and> shape_column pointer cx < int (unat (ps_width (sample_shape pointer)))
            then pointer_over (sample_shape pointer) (nat (shape_row pointer cy)) (nat (shape_column pointer cx))
              (bgra_at (unat w) px cx cy)
            else bgra_at (unat w) px cx cy
       else bgra_at (unat w) px cx cy)" if cx: "cx < unat w" "cy < unat h" for cx cy
  proof (rule fold_visits_once [where P = "\<lambda>c. length c = unat w * unat h * 4" and k = "shape_row pointer cy"])
    fix i and s :: bytes assume i: "i \<in> set ?is" and s: "length s = unat w * unat h * 4"
    note one = composite_row_pixel [OF s ok _ cx, of i]
    show "length (composite_row w h (unat w * 4) pointer i s) = unat w * unat h * 4"
      using one i by simp
    show "bgra_at (unat w) (composite_row w h (unat w * 4) pointer i s) cx cy =
      (if int i = shape_row pointer cy
       then if 0 \<le> shape_column pointer cx \<and> shape_column pointer cx < int (unat (ps_width (sample_shape pointer)))
            then pointer_over (sample_shape pointer) (nat (shape_row pointer cy)) (nat (shape_column pointer cx))
              (bgra_at (unat w) s cx cy)
            else bgra_at (unat w) s cx cy
       else bgra_at (unat w) s cx cy)"
      using one i by (metis atLeast_upt lessThan_iff nat_int set_upt)
  qed (use px in simp_all)
  have len: "length ?px' = length px"
  proof (cases "unat w = 0 \<or> unat h = 0")
    case True
    then have "px = []" using px by auto
    then show ?thesis using composite_nothing by (simp add: fold_stays)
  next
    case False
    then show ?thesis using each [of 0 0] px by simp
  qed
  have rows: "r \<in> int ` set ?is \<longleftrightarrow> 0 \<le> r \<and> r < uint (ps_height (sample_shape pointer))" for r
    by (rule in_range_uint)
  have "bgra_at (unat w) ?px' cx cy =
      (let column = int cx - sint (sample_x pointer); row = int cy - sint (sample_y pointer)
       in if 0 \<le> column \<and> column < uint (ps_width (sample_shape pointer)) \<and> 0 \<le> row
            \<and> row < uint (ps_height (sample_shape pointer))
          then pointer_over (sample_shape pointer) (nat row) (nat column) (bgra_at (unat w) px cx cy)
          else bgra_at (unat w) px cx cy)" if "cx < unat w" "cy < unat h" for cx cy
    using each [OF that] unfolding rows by (auto simp: Let_def shape_row_def shape_column_def)
  then show ?thesis using False len by (simp add: composite_pointer_def Let_def)
qed

text \<open>A caret of one pixel inverts the second pixel of a frame of two.\<close>

definition caret :: pointer_shape where
  "caret = \<lparr>ps_kind = Monochrome, ps_width = 1, ps_height = 1, ps_pitch = 1, ps_pixels = [128, 128]\<rparr>"

lemma pointer_drawn_witness:
  "bgra_at 2 (snd (composite_pointer [1, 2, 3, 255, 0, 5, 255, 255] 2 1 8
      \<lparr>sample_x = 1, sample_y = 0, sample_shape = caret\<rparr>)) 1 0 = [255, 250, 0, 255]"
proof -
  let ?pointer = "\<lparr>sample_x = 1, sample_y = 0, sample_shape = caret\<rparr>"
  let ?px = "[1, 2, 3, 255, 0, 5, 255, 255] :: bytes"
  have len: "length ?px = unat (2 :: u32) * unat (1 :: u32) * 4" by simp
  have ok: "shape_ok (sample_shape ?pointer)" by (simp add: shape_ok_def caret_def)
  obtain cursor px' where run: "composite_pointer ?px 2 1 (unat (2 :: u32) * 4) ?pointer = (cursor, px')"
    by fastforce
  have "bgra_at 2 px' 1 0 = pointer_over caret 0 0 (bgra_at 2 ?px 1 0)"
    using pointer_drawn [OF len ok, unfolded run prod.case Let_def]
    by (simp add: caret_def del: pointer_over.simps)
  also have "\<dots> = [255, 250, 0, 255]" by (simp add: bgra_at_def caret_def Let_def)
  finally show ?thesis using run by simp
qed

end
