(* ===== verification/BufferPool.thy ===== *)
theory BufferPool
  imports Prelude "HOL-Library.Multiset"
begin

section \<open>The pool of CPU buffers behind captured frames\<close>

text \<open>
  \<open>CpuBufferPool\<close> of \<open>captastic-windows/src/dxgi.rs\<close>. A frame handed out shares its pixels with
  the pool by reference count, and the pool writes the next capture into a slot it believes to be
  the only owner of. A buffer is therefore an address into a store that holds its bytes and its
  strong count; addresses are not reused. The slots hold addresses, and so do the frames that
  callers keep.
\<close>

record shared_buffer =
  buf_bytes :: bytes
  buf_owners :: nat

type_synonym store = "shared_buffer list"

definition arc_new :: "bytes \<Rightarrow> store \<Rightarrow> nat \<times> store" where
  "arc_new bs st = (length st, st @ [\<lparr>buf_bytes = bs, buf_owners = 1\<rparr>])"

definition arc_clone :: "nat \<Rightarrow> store \<Rightarrow> store" where
  "arc_clone a st = st[a := (st ! a)\<lparr>buf_owners := buf_owners (st ! a) + 1\<rparr>]"

definition arc_drop :: "nat \<Rightarrow> store \<Rightarrow> store" where
  "arc_drop a st = st[a := (st ! a)\<lparr>buf_owners := buf_owners (st ! a) - 1\<rparr>]"

record cpu_buffer_pool =
  pool_slots :: "nat option list"
  pool_cursor :: nat

definition cpu_buffer_pool_new :: "nat \<Rightarrow> cpu_buffer_pool" where
  "cpu_buffer_pool_new slot_count = \<lparr>pool_slots = replicate slot_count None, pool_cursor = 0\<rparr>"

definition index_from_cursor :: "(nat option \<Rightarrow> bool) \<Rightarrow> cpu_buffer_pool \<Rightarrow> nat option" where
  "index_from_cursor predicate pool =
    (let n = length (pool_slots pool) in
     if n = 0 then None
     else find (\<lambda>i. predicate (pool_slots pool ! i)) (map (\<lambda>offset. (pool_cursor pool + offset) mod n) [0..<n]))"

definition advance_cursor :: "nat \<Rightarrow> cpu_buffer_pool \<Rightarrow> cpu_buffer_pool" where
  "advance_cursor index pool = pool\<lparr>pool_cursor := (index + 1) mod length (pool_slots pool)\<rparr>"

text \<open>\<open>self.slots[index] = Some(Arc::from(vec![0; required_len]))\<close>, which drops what the slot held.\<close>

definition renew_slot :: "nat \<Rightarrow> nat \<Rightarrow> cpu_buffer_pool \<Rightarrow> store \<Rightarrow> cpu_buffer_pool \<times> store" where
  "renew_slot index required_len pool st =
    (let (a, st') = arc_new (replicate required_len 0) st
     in (pool\<lparr>pool_slots := (pool_slots pool)[index := Some a]\<rparr>,
         case pool_slots pool ! index of None \<Rightarrow> st' | Some old \<Rightarrow> arc_drop old st'))"

definition sole_owner :: "store \<Rightarrow> nat option \<Rightarrow> bool" where
  "sole_owner st slot = (case slot of None \<Rightarrow> False | Some a \<Rightarrow> buf_owners (st ! a) = 1)"

definition reusable :: "nat \<Rightarrow> store \<Rightarrow> nat option \<Rightarrow> bool" where
  "reusable required_len st slot = (case slot of None \<Rightarrow> False
     | Some a \<Rightarrow> buf_owners (st ! a) = 1 \<and> length (buf_bytes (st ! a)) = required_len)"

definition available_index ::
  "nat \<Rightarrow> cpu_buffer_pool \<Rightarrow> store \<Rightarrow> (nat \<times> cpu_buffer_pool \<times> store) option" where
  "available_index required_len pool st =
    (case index_from_cursor (reusable required_len st) pool of
       Some index \<Rightarrow> Some (index, advance_cursor index pool, st)
     | None \<Rightarrow>
       case index_from_cursor (\<lambda>slot. slot = None) pool of
         Some index \<Rightarrow> (case renew_slot index required_len pool st of (pool', st') \<Rightarrow>
           Some (index, advance_cursor index pool', st'))
       | None \<Rightarrow>
         case index_from_cursor (sole_owner st) pool of
           None \<Rightarrow> None
         | Some index \<Rightarrow> (case renew_slot index required_len pool st of (pool', st') \<Rightarrow>
             Some (index, advance_cursor index pool', st')))"

text \<open>
  The two uses of a chosen slot in \<open>readback\<close>: \<open>Arc::get_mut\<close>, whose \<open>expect\<close> panics on an
  empty or shared slot, and the clone that goes into the frame.
\<close>

definition write_slot :: "nat \<Rightarrow> bytes \<Rightarrow> cpu_buffer_pool \<Rightarrow> store \<Rightarrow> store option" where
  "write_slot index bs pool st =
    (if index < length (pool_slots pool) then
       case pool_slots pool ! index of
         None \<Rightarrow> None
       | Some a \<Rightarrow> if buf_owners (st ! a) = 1 then Some (st[a := (st ! a)\<lparr>buf_bytes := bs\<rparr>]) else None
     else None)"

definition clone_slot :: "nat \<Rightarrow> cpu_buffer_pool \<Rightarrow> store \<Rightarrow> (nat \<times> store) option" where
  "clone_slot index pool st =
    (if index < length (pool_slots pool)
     then map_option (\<lambda>a. (a, arc_clone a st)) (pool_slots pool ! index) else None)"

text \<open>Dropping a pool, when the staging texture is built anew, drops what its slots hold.\<close>

definition drop_pool :: "cpu_buffer_pool \<Rightarrow> store \<Rightarrow> store" where
  "drop_pool pool = fold (\<lambda>slot st. case slot of None \<Rightarrow> st | Some a \<Rightarrow> arc_drop a st) (pool_slots pool)"

subsection \<open>Who owns what\<close>

text \<open>
  The pool among its users: a frame is the address of its pixels and the bytes it was handed out
  with. Readbacks, callers cloning and dropping their frames, and rebuilds come in any order.
\<close>

record pool_world =
  pw_pool :: cpu_buffer_pool
  pw_store :: store
  pw_frames :: "(nat \<times> bytes) list"

definition read_frame :: "bytes \<Rightarrow> pool_world \<Rightarrow> (unit + pool_world) option" where
  "read_frame px w =
    (case available_index (length px) (pw_pool w) (pw_store w) of
       None \<Rightarrow> Some (Inl ())
     | Some (index, pool, st) \<Rightarrow>
       Option.bind (write_slot index px pool st) (\<lambda>st'.
       map_option (\<lambda>(a, st''). Inr \<lparr>pw_pool = pool, pw_store = st'', pw_frames = (a, px) # pw_frames w\<rparr>)
         (clone_slot index pool st')))"

inductive pool_step :: "pool_world \<Rightarrow> pool_world \<Rightarrow> bool" where
  read: "read_frame px w = Some (Inr w') \<Longrightarrow> pool_step w w'"
| chosen: "available_index n (pw_pool w) (pw_store w) = Some (index, pool, st) \<Longrightarrow>
    pool_step w (w\<lparr>pw_pool := pool, pw_store := st\<rparr>)"
| cloned: "(a, bs) \<in> set (pw_frames w) \<Longrightarrow>
    pool_step w (w\<lparr>pw_store := arc_clone a (pw_store w), pw_frames := (a, bs) # pw_frames w\<rparr>)"
| dropped: "pw_frames w = xs @ (a, bs) # ys \<Longrightarrow>
    pool_step w (w\<lparr>pw_store := arc_drop a (pw_store w), pw_frames := xs @ ys\<rparr>)"
| rebuilt: "pool_step w (w\<lparr>pw_pool := cpu_buffer_pool_new n, pw_store := drop_pool (pw_pool w) (pw_store w)\<rparr>)"

inductive pool_reachable :: "pool_world \<Rightarrow> bool" where
  fresh: "pool_reachable \<lparr>pw_pool = cpu_buffer_pool_new n, pw_store = [], pw_frames = []\<rparr>"
| step: "pool_reachable w \<Longrightarrow> pool_step w w' \<Longrightarrow> pool_reachable w'"

text \<open>Every strong count is the slots and the frames that hold the address.\<close>

definition counts_ok :: "nat option multiset \<Rightarrow> nat multiset \<Rightarrow> store \<Rightarrow> bool" where
  "counts_ok slots held st \<longleftrightarrow>
    (\<forall>a < length st. buf_owners (st ! a) = count slots (Some a) + count held a \<and> count slots (Some a) \<le> 1) \<and>
    (\<forall>a. Some a \<in># slots \<or> a \<in># held \<longrightarrow> a < length st)"

definition frames_keep :: "pool_world \<Rightarrow> bool" where
  "frames_keep w \<longleftrightarrow> (\<forall>(a, bs) \<in> set (pw_frames w). buf_bytes (pw_store w ! a) = bs)"

definition held :: "pool_world \<Rightarrow> nat multiset" where
  "held w = mset (map fst (pw_frames w))"

definition pool_inv :: "pool_world \<Rightarrow> bool" where
  "pool_inv w \<longleftrightarrow> counts_ok (mset (pool_slots (pw_pool w))) (held w) (pw_store w) \<and> frames_keep w"

lemma index_from_cursor_Some:
  assumes "index_from_cursor P pool = Some i"
  shows "i < length (pool_slots pool) \<and> P (pool_slots pool ! i)"
proof -
  have "length (pool_slots pool) \<noteq> 0" using assms by (auto simp: index_from_cursor_def)
  then show ?thesis using assms by (auto simp: index_from_cursor_def Let_def find_Some_iff)
qed

lemma index_from_cursor_None:
  assumes "index_from_cursor P pool = None" and i: "i < length (pool_slots pool)"
  shows "\<not> P (pool_slots pool ! i)"
proof -
  let ?n = "length (pool_slots pool)" and ?c = "pool_cursor pool"
  let ?o = "(i + ?n - ?c mod ?n) mod ?n"
  have n: "0 < ?n" using i by linarith
  have "(?c + ?o) mod ?n = (?c mod ?n + (i + ?n - ?c mod ?n)) mod ?n" by (simp add: mod_simps)
  also have "?c mod ?n + (i + ?n - ?c mod ?n) = i + ?n"
    using mod_less_divisor [OF n, of ?c] by simp
  finally have at: "(?c + ?o) mod ?n = i" using i by simp
  moreover have "?o \<in> set [0..<?n]" using n by simp
  moreover have "\<forall>offset \<in> set [0..<?n]. \<not> P (pool_slots pool ! ((?c + offset) mod ?n))"
    using assms(1) n by (auto simp: index_from_cursor_def Let_def find_None_iff split: if_splits)
  ultimately show ?thesis by metis
qed

lemma counts_ok_range: "counts_ok slots h st \<Longrightarrow> Some a \<in># slots \<Longrightarrow> a < length st"
  by (simp add: counts_ok_def)

lemma sole_owner_slot:
  assumes ok: "counts_ok slots h st" and a: "Some a \<in># slots" and one: "buf_owners (st ! a) = 1"
  shows "count slots (Some a) = 1 \<and> a \<notin># h"
proof -
  have "buf_owners (st ! a) = count slots (Some a) + count h a" "count slots (Some a) \<le> 1"
    using ok counts_ok_range [OF ok a] by (simp_all add: counts_ok_def)
  moreover have "1 \<le> count slots (Some a)" using a by (simp add: Suc_le_eq)
  ultimately have "count slots (Some a) = 1" "count h a = 0" using one by simp_all
  then show ?thesis by (simp add: count_eq_zero_iff)
qed

lemma held_slot:
  assumes ok: "counts_ok slots h st" and a: "Some a \<in># slots" and one: "buf_owners (st ! a) \<noteq> 1"
  shows "a \<in># h"
proof -
  have "buf_owners (st ! a) = count slots (Some a) + count h a" "count slots (Some a) \<le> 1"
    using ok counts_ok_range [OF ok a] by (simp_all add: counts_ok_def)
  moreover have "1 \<le> count slots (Some a)" using a by (simp add: Suc_le_eq)
  ultimately have "0 < count h a" using one by linarith
  then show ?thesis by (simp add: count_greater_zero_iff)
qed

lemma nth_arc_drop: "b < length st \<Longrightarrow> arc_drop a st ! b =
    (if b = a then (st ! a)\<lparr>buf_owners := buf_owners (st ! a) - 1\<rparr> else st ! b)"
  by (simp add: arc_drop_def)

lemma nth_arc_clone: "b < length st \<Longrightarrow> arc_clone a st ! b =
    (if b = a then (st ! a)\<lparr>buf_owners := buf_owners (st ! a) + 1\<rparr> else st ! b)"
  by (simp add: arc_clone_def)

lemma length_arc [simp]: "length (arc_drop a st) = length st" "length (arc_clone a st) = length st"
  by (simp_all add: arc_drop_def arc_clone_def)

lemma nth_update_view:
  "g x = g (st ! a) \<Longrightarrow> g (st[a := x] ! b) = g (st ! b)"
  by (cases "a < length st"; cases "a = b") (simp_all add: list_update_beyond)

lemma arc_bytes [simp]:
  "buf_bytes (arc_drop a st ! b) = buf_bytes (st ! b)" "buf_bytes (arc_clone a st ! b) = buf_bytes (st ! b)"
  unfolding arc_drop_def arc_clone_def by (rule nth_update_view, simp)+

lemma counts_ok_new:
  assumes "counts_ok slots h st"
  shows "counts_ok (add_mset (Some (length st)) slots) h (st @ [\<lparr>buf_bytes = bs, buf_owners = 1\<rparr>])"
proof -
  have "count slots (Some (length st)) = 0" "count h (length st) = 0"
    using assms unfolding counts_ok_def by (metis count_inI less_irrefl)+
  then show ?thesis using assms by (auto simp: counts_ok_def nth_append less_Suc_eq)
qed

lemma counts_ok_slot_dropped:
  assumes ok: "counts_ok slots h st" and a: "Some a \<in># slots"
  shows "counts_ok (slots - {#Some a#}) h (arc_drop a st)"
proof -
  have "a < length st" "1 \<le> count slots (Some a)" using counts_ok_range [OF ok a] a by (simp_all add: Suc_le_eq)
  moreover have "count slots (Some a) \<le> 1" using ok calculation(1) by (simp add: counts_ok_def)
  ultimately have "count slots (Some a) = 1" "a < length st" by linarith+
  then show ?thesis using ok
    by (auto simp: counts_ok_def nth_arc_drop dest: in_diffD)
qed

lemma counts_ok_frame_dropped:
  assumes ok: "counts_ok slots (add_mset a h) st"
  shows "counts_ok slots h (arc_drop a st)"
  using ok by (auto simp: counts_ok_def nth_arc_drop)

lemma counts_ok_cloned:
  assumes ok: "counts_ok slots h st" and a: "a < length st"
  shows "counts_ok slots (add_mset a h) (arc_clone a st)"
  using assms by (auto simp: counts_ok_def nth_arc_clone)

lemma counts_ok_renew:
  assumes ok: "counts_ok (mset (pool_slots pool)) h st" and i: "i < length (pool_slots pool)"
    and renew: "renew_slot i n pool st = (pool', st')"
  shows "counts_ok (mset (pool_slots pool')) h st'"
    and "pool_slots pool' = (pool_slots pool)[i := Some (length st)]"
    and "length st' = length st + 1"
    and "\<And>b. b < length st \<Longrightarrow> buf_bytes (st' ! b) = buf_bytes (st ! b)"
    and "pool_slots pool ! i \<noteq> Some (length st) \<Longrightarrow> st' ! length st = \<lparr>buf_bytes = replicate n 0, buf_owners = 1\<rparr>"
proof -
  let ?st = "st @ [\<lparr>buf_bytes = replicate n 0, buf_owners = 1\<rparr>]"
  let ?slots = "mset (pool_slots pool)"
  have new: "counts_ok (add_mset (Some (length st)) ?slots) h ?st" by (rule counts_ok_new [OF ok])
  have slots: "pool_slots pool' = (pool_slots pool)[i := Some (length st)]"
    and st': "st' = (case pool_slots pool ! i of None \<Rightarrow> ?st | Some old \<Rightarrow> arc_drop old ?st)"
    using renew by (auto simp: renew_slot_def arc_new_def simp del: One_nat_def)
  have at: "pool_slots pool ! i \<in># ?slots" using i by simp
  have mset: "mset (pool_slots pool') = add_mset (Some (length st)) ?slots - {#pool_slots pool ! i#}"
    using at by (simp add: slots mset_update i)
  show "counts_ok (mset (pool_slots pool')) h st'"
  proof (cases "pool_slots pool ! i")
    case None
    then show ?thesis using new by (auto simp: mset st' counts_ok_def dest: in_diffD)
  next
    case (Some old)
    then have "Some old \<in># add_mset (Some (length st)) ?slots" using at by simp
    then show ?thesis using counts_ok_slot_dropped [OF new] by (simp add: mset st' Some)
  qed
  show "pool_slots pool' = (pool_slots pool)[i := Some (length st)]" by (rule slots)
  show "length st' = length st + 1" by (simp add: st' split: option.split)
  show "buf_bytes (st' ! b) = buf_bytes (st ! b)" if "b < length st" for b
    using that by (simp add: st' nth_append split: option.split)
  show "st' ! length st = \<lparr>buf_bytes = replicate n 0, buf_owners = 1\<rparr>" if "pool_slots pool ! i \<noteq> Some (length st)"
    using that by (auto simp: st' nth_arc_drop split: option.split)
qed

text \<open>What a chosen slot is: its buffer has the wanted size and no other owner, and no frame changed.\<close>

lemma available_index_Some:
  assumes ok: "counts_ok (mset (pool_slots pool)) h st" and some: "available_index n pool st = Some (i, pool', st')"
  shows "counts_ok (mset (pool_slots pool')) h st' \<and> i < length (pool_slots pool') \<and> length st \<le> length st' \<and>
    (\<forall>b < length st. buf_bytes (st' ! b) = buf_bytes (st ! b)) \<and>
    (\<exists>a. pool_slots pool' ! i = Some a \<and> a < length st' \<and> buf_owners (st' ! a) = 1 \<and> length (buf_bytes (st' ! a)) = n)"
proof -
  have reused: ?thesis if
    i: "index_from_cursor (reusable n st) pool = Some i"
    and "pool' = advance_cursor i pool" "st' = st"
  proof -
    obtain a where a: "i < length (pool_slots pool)" "pool_slots pool ! i = Some a" "buf_owners (st ! a) = 1"
        "length (buf_bytes (st ! a)) = n"
      using index_from_cursor_Some [OF i] by (auto simp: reusable_def split: option.splits)
    then have "Some a \<in># mset (pool_slots pool)" by (metis nth_mem set_mset_mset)
    then have "a < length st" by (rule counts_ok_range [OF ok])
    then show ?thesis using a ok that by (simp add: advance_cursor_def)
  qed
  have renewed: ?thesis if i: "i < length (pool_slots pool)" and r: "renew_slot i n pool st = (pool1, st')"
    and p: "pool' = advance_cursor i pool1" for pool1
  proof -
    have "pool_slots pool ! i \<in># mset (pool_slots pool)" using i by simp
    then have "pool_slots pool ! i \<noteq> Some (length st)" using counts_ok_range [OF ok] by (metis less_irrefl)
    then show ?thesis using counts_ok_renew [OF ok i r] i by (simp add: p advance_cursor_def)
  qed
  show ?thesis
    using some reused renewed index_from_cursor_Some [of _ pool i]
    by (auto simp: available_index_def split: option.splits prod.splits)
qed

lemma available_index_None:
  assumes ok: "counts_ok (mset (pool_slots pool)) h st"
  shows "available_index n pool st = None \<longleftrightarrow> (\<forall>slot \<in> set (pool_slots pool). \<exists>a. slot = Some a \<and> a \<in># h)"
proof
  assume none: "available_index n pool st = None"
  show "\<forall>slot \<in> set (pool_slots pool). \<exists>a. slot = Some a \<and> a \<in># h"
  proof
    fix slot assume "slot \<in> set (pool_slots pool)"
    then obtain i where i: "i < length (pool_slots pool)" "pool_slots pool ! i = slot" by (auto simp: in_set_conv_nth)
    have "index_from_cursor (\<lambda>slot. slot = None) pool = None" "index_from_cursor (sole_owner st) pool = None"
      using none by (auto simp: available_index_def split: option.splits prod.splits)
    then have "slot \<noteq> None" "\<not> sole_owner st slot" using index_from_cursor_None i by blast+
    then obtain a where "slot = Some a" "buf_owners (st ! a) \<noteq> 1" by (auto simp: sole_owner_def)
    then show "\<exists>a. slot = Some a \<and> a \<in># h"
      using held_slot [OF ok] i by (metis nth_mem set_mset_mset)
  qed
next
  assume all: "\<forall>slot \<in> set (pool_slots pool). \<exists>a. slot = Some a \<and> a \<in># h"
  show "available_index n pool st = None"
  proof (rule ccontr)
    assume "available_index n pool st \<noteq> None"
    moreover have "available_index n pool st = None" if
      "\<forall>P \<in> {reusable n st, \<lambda>slot. slot = None, sole_owner st}.
        index_from_cursor P pool = None"
      using that by (simp add: available_index_def)
    ultimately obtain P i where "index_from_cursor P pool = Some i" and
        P: "P \<in> {reusable n st, \<lambda>slot. slot = None, sole_owner st}"
      by (metis (lifting) option.exhaust)
    then have i: "i < length (pool_slots pool)" and "P (pool_slots pool ! i)"
      using index_from_cursor_Some by blast+
    then have free: "pool_slots pool ! i = None \<or> sole_owner st (pool_slots pool ! i)"
      using P by (auto simp: reusable_def sole_owner_def split: option.splits)
    then obtain a where a: "pool_slots pool ! i = Some a" "a \<in># h" using all nth_mem [OF i] by blast
    then have "buf_owners (st ! a) = 1" using free by (simp add: sole_owner_def)
    moreover have "Some a \<in># mset (pool_slots pool)" using i a by (metis nth_mem set_mset_mset)
    ultimately show False using sole_owner_slot [OF ok] a by blast
  qed
qed

lemma frames_keep_cong:
  assumes keep: "frames_keep w" and ok: "counts_ok slots (held w) (pw_store w)"
    and same: "\<And>b. b < length (pw_store w) \<Longrightarrow> b \<in># held w \<Longrightarrow> buf_bytes (st ! b) = buf_bytes (pw_store w ! b)"
  shows "\<forall>(b, bs) \<in> set (pw_frames w). buf_bytes (st ! b) = bs"
proof (clarify)
  fix b bs assume b: "(b, bs) \<in> set (pw_frames w)"
  then have "b \<in># held w" by (force simp: held_def)
  moreover from this have "b < length (pw_store w)" using ok by (simp add: counts_ok_def)
  ultimately show "buf_bytes (st ! b) = bs" using same keep b by (auto simp: frames_keep_def)
qed

lemma counts_ok_bytes:
  "counts_ok slots h (st[a := (st ! a)\<lparr>buf_bytes := bs\<rparr>]) \<longleftrightarrow> counts_ok slots h st"
proof -
  have "buf_owners (st[a := (st ! a)\<lparr>buf_bytes := bs\<rparr>] ! b) = buf_owners (st ! b)" for b
    by (rule nth_update_view) simp
  then show ?thesis by (simp add: counts_ok_def)
qed

text \<open>A readback either finds every slot held by a frame or hands out a frame of its own.\<close>

lemma read_frame_ok:
  assumes inv: "pool_inv w"
  shows "if \<forall>slot \<in> set (pool_slots (pw_pool w)). \<exists>a. slot = Some a \<and> a \<in># held w
    then read_frame px w = Some (Inl ())
    else \<exists>a w'. read_frame px w = Some (Inr w') \<and> pw_frames w' = (a, px) # pw_frames w \<and> a \<notin># held w \<and> pool_inv w'"
proof (cases "available_index (length px) (pw_pool w) (pw_store w)")
  case None
  then show ?thesis using inv available_index_None [of "pw_pool w" "held w" "pw_store w" "length px"]
    by (simp add: pool_inv_def read_frame_def)
next
  case (Some r)
  obtain i pool st where r: "r = (i, pool, st)" by (cases r) blast
  have ok: "counts_ok (mset (pool_slots (pw_pool w))) (held w) (pw_store w)" and keep: "frames_keep w"
    using inv by (simp_all add: pool_inv_def)
  note free = available_index_None [OF ok, of "length px"]
  obtain a where ok': "counts_ok (mset (pool_slots pool)) (held w) st" and i: "i < length (pool_slots pool)"
    and grow: "length (pw_store w) \<le> length st"
    and same: "\<And>b. b < length (pw_store w) \<Longrightarrow> buf_bytes (st ! b) = buf_bytes (pw_store w ! b)"
    and a: "pool_slots pool ! i = Some a" "a < length st" "buf_owners (st ! a) = 1"
    using available_index_Some [OF ok Some [unfolded r]] by blast
  have "Some a \<in># mset (pool_slots pool)" using i a by (metis nth_mem set_mset_mset)
  then have fresh: "a \<notin># held w" using sole_owner_slot [OF ok' _ a(3)] by blast
  let ?st = "st[a := (st ! a)\<lparr>buf_bytes := px\<rparr>]"
  let ?w = "\<lparr>pw_pool = pool, pw_store = arc_clone a ?st, pw_frames = (a, px) # pw_frames w\<rparr>"
  have run: "read_frame px w = Some (Inr ?w)"
    by (simp add: read_frame_def Some r write_slot_def clone_slot_def i a)
  have "counts_ok (mset (pool_slots pool)) (add_mset a (held w)) (arc_clone a ?st)"
    using ok' a(2) by (intro counts_ok_cloned) (simp_all add: counts_ok_bytes)
  moreover have "\<forall>(b, bs) \<in> set (pw_frames w). buf_bytes (?st ! b) = bs"
  proof (rule frames_keep_cong [OF keep ok])
    fix b assume b: "b < length (pw_store w)" "b \<in># held w"
    then have "b \<noteq> a" using fresh by blast
    then show "buf_bytes (?st ! b) = buf_bytes (pw_store w ! b)" using same b by simp
  qed
  ultimately have "pool_inv ?w" using a(2) by (simp add: pool_inv_def frames_keep_def held_def)
  then show ?thesis using run fresh free by (auto simp: Some)
qed

lemma drop_slots:
  "counts_ok (mset slots) h st \<Longrightarrow>
    counts_ok {#} h (fold (\<lambda>slot st. case slot of None \<Rightarrow> st | Some a \<Rightarrow> arc_drop a st) slots st) \<and>
    (\<forall>b. buf_bytes (fold (\<lambda>slot st. case slot of None \<Rightarrow> st | Some a \<Rightarrow> arc_drop a st) slots st ! b) = buf_bytes (st ! b))"
proof (induction slots arbitrary: st)
  case (Cons slot slots)
  show ?case
  proof (cases slot)
    case None
    then have "counts_ok (mset slots) h st" using Cons.prems by (simp add: counts_ok_def)
    then show ?thesis using Cons.IH None by simp
  next
    case (Some a)
    then have "counts_ok (mset slots) h (arc_drop a st)"
      using counts_ok_slot_dropped [OF Cons.prems, of a] by simp
    then show ?thesis using Cons.IH Some by simp
  qed
qed simp

lemma pool_inv_step:
  assumes "pool_step w w'" and "pool_inv w"
  shows "pool_inv w'"
  using assms
proof cases
  case (read px)
  then show ?thesis using read_frame_ok [OF assms(2), of px] by (auto split: if_splits)
next
  case (chosen n i pool st)
  have ok: "counts_ok (mset (pool_slots (pw_pool w))) (held w) (pw_store w)" and keep: "frames_keep w"
    using assms(2) by (simp_all add: pool_inv_def)
  note some = available_index_Some [OF ok chosen(2)]
  have "\<forall>(b, bs) \<in> set (pw_frames w). buf_bytes (st ! b) = bs"
    by (rule frames_keep_cong [OF keep ok]) (use some in blast)
  then show ?thesis using some by (simp add: chosen(1) pool_inv_def frames_keep_def held_def)
next
  case (cloned a bs)
  then have "a \<in># held w" by (force simp: held_def)
  then have "a < length (pw_store w)" using assms(2) by (simp add: pool_inv_def counts_ok_def)
  then show ?thesis using assms(2) cloned
    by (auto simp: pool_inv_def held_def frames_keep_def intro!: counts_ok_cloned)
next
  case (dropped xs a bs ys)
  have "held w = add_mset a (mset (map fst (xs @ ys)))" by (simp add: held_def dropped(2))
  then show ?thesis using assms(2) counts_ok_frame_dropped dropped
    by (auto simp: pool_inv_def held_def frames_keep_def)
next
  case (rebuilt n)
  have ok: "counts_ok (mset (pool_slots (pw_pool w))) (held w) (pw_store w)" and keep: "frames_keep w"
    using assms(2) by (simp_all add: pool_inv_def)
  note gone = drop_slots [OF ok, folded drop_pool_def]
  have "\<forall>(b, bs) \<in> set (pw_frames w). buf_bytes (drop_pool (pw_pool w) (pw_store w) ! b) = bs"
    by (rule frames_keep_cong [OF keep ok]) (use gone in blast)
  moreover have "counts_ok (mset (replicate n None)) (held w) (drop_pool (pw_pool w) (pw_store w))"
    using gone by (simp add: counts_ok_def)
  ultimately show ?thesis by (simp add: rebuilt pool_inv_def frames_keep_def held_def cpu_buffer_pool_new_def)
qed

lemma pool_inv_reachable: "pool_reachable w \<Longrightarrow> pool_inv w"
proof (induction rule: pool_reachable.induct)
  case (fresh n)
  then show ?case by (simp add: pool_inv_def counts_ok_def frames_keep_def held_def cpu_buffer_pool_new_def)
qed (rule pool_inv_step)

text \<open>C8: However readbacks, callers keeping, cloning and dropping their frames and rebuilds of the
  pool interleave, a frame that is held keeps the pixels it was handed out with, a readback never
  panics, and it is refused exactly when every slot of the pool is the buffer of a held frame.\<close>

theorem held_frames_keep_their_pixels:
  assumes "pool_reachable w"
  shows "(\<forall>(a, bs) \<in> set (pw_frames w). buf_bytes (pw_store w ! a) = bs) \<and>
    (case read_frame px w of
       None \<Rightarrow> False
     | Some (Inl _) \<Rightarrow> \<forall>slot \<in> set (pool_slots (pw_pool w)). \<exists>a bs. slot = Some a \<and> (a, bs) \<in> set (pw_frames w)
     | Some (Inr w') \<Rightarrow> \<exists>a. pw_frames w' = (a, px) # pw_frames w \<and> a \<notin> fst ` set (pw_frames w) \<and>
         (\<exists>slot \<in> set (pool_slots (pw_pool w)). \<forall>a bs. slot = Some a \<longrightarrow> (a, bs) \<notin> set (pw_frames w)))"
proof -
  have inv: "pool_inv w" by (rule pool_inv_reachable [OF assms])
  have in_held: "a \<in># held w \<longleftrightarrow> (\<exists>bs. (a, bs) \<in> set (pw_frames w))" for a by (force simp: held_def)
  show ?thesis
  proof (cases "\<forall>slot \<in> set (pool_slots (pw_pool w)). \<exists>a. slot = Some a \<and> a \<in># held w")
    case True
    then have "read_frame px w = Some (Inl ())" using read_frame_ok [OF inv, of px] by simp
    then show ?thesis using inv True in_held by (auto simp: pool_inv_def frames_keep_def)
  next
    case False
    then obtain a w' where r: "read_frame px w = Some (Inr w')" "pw_frames w' = (a, px) # pw_frames w" "a \<notin># held w"
      using read_frame_ok [OF inv, of px] by (simp only: if_False) blast
    obtain slot where "slot \<in> set (pool_slots (pw_pool w))" "\<forall>a. slot = Some a \<longrightarrow> a \<notin># held w" using False by blast
    then have "\<exists>slot \<in> set (pool_slots (pw_pool w)). \<forall>a bs. slot = Some a \<longrightarrow> (a, bs) \<notin> set (pw_frames w)"
      using in_held by blast
    moreover have "a \<notin> fst ` set (pw_frames w)" using r(3) by (simp add: held_def)
    ultimately show ?thesis using inv r(1,2) by (simp add: pool_inv_def frames_keep_def)
  qed
qed

text \<open>A pool of one slot, whose only frame is held.\<close>

lemma held_frames_keep_their_pixels_witness:
  "\<exists>w. read_frame [7] \<lparr>pw_pool = cpu_buffer_pool_new 1, pw_store = [], pw_frames = []\<rparr> = Some (Inr w)
    \<and> buf_bytes (pw_store w ! 0) = [7] \<and> read_frame [8] w = Some (Inl ())"
proof -
  let ?w = "\<lparr>pw_pool = cpu_buffer_pool_new 1, pw_store = [], pw_frames = []\<rparr>"
  let ?w' = "\<lparr>pw_pool = \<lparr>pool_slots = [Some 0], pool_cursor = 0\<rparr>,
    pw_store = [\<lparr>buf_bytes = [7], buf_owners = 2\<rparr>], pw_frames = [(0, [7])]\<rparr>"
  have "read_frame [7] ?w = Some (Inr ?w')" by code_simp
  moreover from this have "pool_reachable ?w'" by (blast intro: pool_reachable.intros pool_step.intros)
  note held_frames_keep_their_pixels [OF this, of "[8]"]
  moreover have "read_frame [8] ?w' = Some (Inl ())" by code_simp
  ultimately show ?thesis by auto
qed

end
