(* ===== verification/Spec2Isabelle.thy ===== *)
theory Spec2Isabelle
  imports Prelude Geometry Topology CaptureTypes Frame Timeline GifPlayback Animation Reencode Metrics Detach
    FakeBackend Benchmark Snap UiLayout Toolbar DimensionLabel
    RegionGeometry OverlayMachine Overview OverlayShell OverlayInvariant OverlayRun Loupe Marks CaptureEdit ImageEncode
    Clock FileNames History Tray Recorder Rotation Cursor BufferPool
begin

text \<open>
  Captastic is a screen capture program for Windows, in four crates under \<open>crates/\<close>. The parts
  modelled here are the ones that decide something: the data and rules of \<open>captastic-core\<close>, the
  benchmark, recording and file naming of \<open>captastic-app\<close>, the history of \<open>captastic-config\<close>, and the
  selection overlay and the notification area icon of \<open>captastic-windows\<close>. Each theory follows one source file, in its order, keeps its names where
  HOL allows them, and opens with a text that says what it holds.

  The parts and how they meet.

  \<^item> Shapes and displays: \<open>Geometry\<close> and \<open>Topology\<close> (\<open>captastic-core/src/display.rs\<close>): \<open>Rect\<close>, and
    the validated \<open>DisplayTopology\<close> with every query that resolves a point or a rectangle. \<open>CaptureTypes\<close>
    (\<open>capture.rs\<close>, \<open>error.rs\<close>): requests, capabilities and errors.
  \<^item> Pictures: \<open>Frame\<close> (\<open>frame.rs\<close>): \<open>CpuFrame\<close>, its layout check and \<open>crop\<close>.
  \<^item> Recordings: \<open>Timeline\<close> and \<open>GifPlayback\<close> (\<open>playback.rs\<close>): review stepping, trimming and
    cropping, and \<open>GifReader\<close> with its canvas and snapshots; \<open>Animation\<close> (\<open>animation.rs\<close>):
    \<open>GifWriter\<close>; \<open>Reencode\<close> (\<open>captastic-app/src/recording.rs\<close>): saving an edited GIF, which reads
    with the reader and writes with the writer; \<open>Recorder\<close> (the same file): the recording itself, its capture loop and
    its encoder thread with the bounded queue between them, writing with the same writer.
  \<^item> Editing and publishing a capture: \<open>Marks\<close> and \<open>CaptureEdit\<close> (\<open>edit.rs\<close>): redactions, pen strokes,
    arrows and text on a capture, with undo and redo; \<open>ImageEncode\<close> (\<open>encode.rs\<close>, \<open>bmp.rs\<close>,
    \<open>png.rs\<close>, \<open>jpeg.rs\<close>): the three output formats. \<open>Clock\<close> and \<open>FileNames\<close>
    (\<open>clock.rs\<close>, \<open>filename_template.rs\<close> of both crates): what the file is called; \<open>History\<close>
    (\<open>captastic-config/src/history.rs\<close>): which captures are remembered.
  \<^item> Desktop Duplication (\<open>captastic-windows/src/dxgi.rs\<close>, \<open>cursor.rs\<close>): \<open>Rotation\<close>, turning a
    rotated display's bytes upright and reading a region straight from its texture; \<open>Cursor\<close>, drawing
    the pointer; \<open>BufferPool\<close>, the counted buffers that captured frames share with the backend.
  \<^item> \<open>Tray\<close> (\<open>captastic-windows/src/tray.rs\<close>): the notification area icon, its menu, its
    notifications and the end of the session.
  \<^item> Measuring: \<open>Metrics\<close> (\<open>metrics.rs\<close>): event order, recorder, percentiles; \<open>Detach\<close>
    (\<open>detach.rs\<close>): the ledger of abandoned native calls; \<open>FakeBackend\<close> (\<open>fake.rs\<close>): the synthetic
    capture backend and the contract of \<open>CaptureBackend\<close>; \<open>Benchmark\<close>
    (\<open>captastic-app/src/benchmark.rs\<close>): \<open>run_with_backend\<close>, stated over any backend that keeps the
    contract and instantiated with the fake one.
  \<^item> The overlay (\<open>captastic-windows/src/overlay/\<close>): \<open>Snap\<close> (\<open>snap.rs\<close>), \<open>UiLayout\<close>, \<open>Toolbar\<close>
    and \<open>DimensionLabel\<close> (\<open>layout.rs\<close>), \<open>RegionGeometry\<close> and \<open>OverlayMachine\<close> (\<open>machine.rs\<close>: the
    pure \<open>transition\<close> from an input to a new model and a list of effects), \<open>Overview\<close> (the window
    chooser's render queue) and \<open>OverlayShell\<close> (\<open>overlay.rs\<close>: the window procedure, the
    application of effects with both feedback loops, opening and closing a run). \<open>OverlayInvariant\<close>
    shows what every handler keeps, \<open>OverlayRun\<close> what holds of whole runs, \<open>Loupe\<close> how the
    magnifier comes up.

  Conventions. A field keeps its width as a word, read with \<open>uint\<close> or \<open>sint\<close>; \<open>i64\<close> and \<open>u128\<close>
  arithmetic that cannot overflow is on \<open>int\<close> and \<open>nat\<close>; a \<open>usize\<close> and a \<open>Duration\<close> are \<open>nat\<close>.
  \<open>Result<T, E>\<close> is \<open>'e + 'a\<close>; where an index or a slice could panic, the definition answers an
  \<open>option\<close> whose \<open>None\<close> is the panic, and the theorems show it is not reached. State is passed and
  returned; a handler of the overlay returns its model and effects. \<open>Prelude\<close> holds what the
  theories share.

  What is a parameter. The \<open>gif\<close> crate's decoder, encoder and quantizer (their laws are the locale
  hypotheses of \<open>Animation\<close>, met by a plain codec in the witnesses); the capture backend in
  \<open>Benchmark\<close>; the answers of Windows (window lists, previews, clocks, DPI) in \<open>OverlayShell\<close> and
  \<open>Overview\<close>; whether the shell takes the icon in \<open>Tray\<close>; the \<open>png\<close> and \<open>jpeg_encoder\<close> crates in
  \<open>ImageEncode\<close>; the Direct3D calls on a texture in \<open>Rotation\<close>; and computations in floating point: \<open>remembered_last_region\<close> (\<open>locate\<close>),
  antialiasing in \<open>Marks\<close> (\<open>F\<close>) and scale factors in \<open>Recorder\<close> (\<open>sizing\<close>).

  What the lemma groups show. For data: \<open>Rect\<close> operations as operations on sets of pixels, layout
  validity of every frame built, snapshots and canvases that never show. For algorithms: each
  optimised routine against a plain specification (smallest changed box, nearest edge, nearest
  rank, display of largest share). For the codec pair: what is written is read back, picture by
  picture and centisecond by centisecond. For state machines: an invariant of every reachable
  state (\<open>ledger_step\<close>, \<open>reachable\<close>), what a run may report, that it closes once and can always be
  left, that the render queue drains or, with a window that keeps failing, never does, that a
  recording accounts for its frames and ends, and what menu, daemon and Windows are told by the tray. For
  names and lists: the language of templates, the calendar, and retention within its limits.

  Bounds. DPI up to 65535 and coordinates up to \<open>10 ^ 9\<close> (the magnifier) or \<open>5 * 10 ^ 8\<close> (the toolbar and label) keep
  the layout's saturating arithmetic exact; a source rectangle that ends at \<open>2 ^ 31\<close> or before keeps the overlay's
  regions representable. Windows' desktops are far smaller. No definition runs on fuel: every recursive function is
  structural or has a termination proof, \<open>apply_effects\<close> by a weight that every feedback lowers.
\<close>

text \<open>
  Not modelled. Drawing (\<open>raster.rs\<close>, \<open>vector.rs\<close>, \<open>text_mark.rs\<close>, the painting in \<open>overlay.rs\<close>,
  \<open>review.rs\<close>, \<open>pin.rs\<close>, \<open>recording_frame.rs\<close>) and the Windows bindings (the rest of \<open>dxgi.rs\<close>,
  \<open>window_capture*.rs\<close>, \<open>video*.rs\<close>, \<open>hotkey.rs\<close>, \<open>clipboard.rs\<close>,
  \<open>display_manager.rs\<close>): calls into Windows whose effects the sources do not define. Computations in \<open>f64\<close>
  other than the ones passed as parameters (\<open>fit_within\<close>, the window chooser's layout, agreement
  statistics of benchmarks). The daemon's threads, the command line, logging and file output: input
  and output around the modelled core.
\<close>

end
